(* ===== verification/Prelude.thy ===== *)
theory Prelude
  imports Main "HOL-Library.Word" "HOL-Library.Signed_Division" "HOL-Library.List_Lexorder"
    "HOL-Library.Char_ord"
begin

text \<open>
  Shared base of the development: Go's 64-bit integers, byte strings, UUIDs and instants, the
  lemma collections the component theories fill, and generic facts on lists and maps.

  Go's \<open>int64\<close> and \<open>int\<close> (64 bits on every supported platform) are HOL integers with the
  wrap-around written out: every addition, subtraction and increment of the source that could
  leave the range is a \<open>wrap64\<close>. A Go \<open>string\<close> is a byte sequence, so it is \<open>string\<close>
  (\<open>char list\<close>), compared bytewise. A \<open>time.Time\<close> is the number of nanoseconds since Go's
  zero instant, so \<open>IsZero\<close> is \<open>= 0\<close>. A \<open>uuid.UUID\<close> is a 16-byte array: a \<open>128 word\<close>.
\<close>

named_theorems outcome_simps \<open>how save outcomes resolve through error trees\<close>
named_theorems store_simps \<open>what the memory event store's operations do to its parts\<close>
named_theorems poison_simps \<open>which fields poisoning a lifecycle state leaves alone\<close>
named_theorems fold_intros \<open>step rules of the lifecycle fold's invariants\<close>

section \<open>64-bit integers\<close>

type_synonym int64 = int

definition max_int64 :: int where
  "max_int64 = 9223372036854775807"

definition min_int64 :: int where
  "min_int64 = - 9223372036854775808"

definition in64 :: "int \<Rightarrow> bool" where
  "in64 x \<longleftrightarrow> min_int64 \<le> x \<and> x \<le> max_int64"

text \<open>Two's complement: the representative of \<open>x\<close> modulo \<open>2 ^ 64\<close> in the signed range.\<close>

definition wrap64 :: "int \<Rightarrow> int64" where
  "wrap64 x = (x + 9223372036854775808) mod 18446744073709551616 - 9223372036854775808"

lemma wrap64_id [simp]: "in64 x \<Longrightarrow> wrap64 x = x"
  by (simp add: wrap64_def in64_def max_int64_def min_int64_def)

lemma wrap64_in64 [simp]: "in64 (wrap64 x)"
proof -
  have "0 \<le> (x + 9223372036854775808) mod 18446744073709551616"
    and "(x + 9223372036854775808) mod 18446744073709551616 < 18446744073709551616"
    by simp_all
  then show ?thesis
    unfolding in64_def wrap64_def max_int64_def min_int64_def by linarith
qed

lemma in64_numerals [simp]: "in64 0" "in64 1" "in64 max_int64" "in64 min_int64"
  by (simp_all add: in64_def max_int64_def min_int64_def)

lemma in64I: "min_int64 \<le> x \<Longrightarrow> x \<le> max_int64 \<Longrightarrow> in64 x"
  by (simp add: in64_def)

lemma in64_nonneg: "0 \<le> x \<Longrightarrow> x \<le> max_int64 \<Longrightarrow> in64 x"
  by (simp add: in64_def min_int64_def)

lemma wrap64_succ:
  assumes "in64 x"
  shows "wrap64 (x + 1) = (if x = max_int64 then min_int64 else x + 1)"
  using assms by (simp add: in64_def wrap64_def max_int64_def min_int64_def)

lemma wrap64_succ_neq: "wrap64 (x + 1) \<noteq> x"
proof
  assume eq: "wrap64 (x + 1) = x"
  then have "in64 x" by (metis wrap64_in64)
  then show False
    using eq wrap64_succ [of x] by (auto simp: min_int64_def max_int64_def split: if_splits)
qed

text \<open>An increment that came out positive cannot have wrapped.\<close>

lemma wrap64_succ_pos:
  assumes "in64 x" "wrap64 (x + 1) = y" "1 \<le> y"
  shows "y = x + 1 \<and> x < max_int64"
proof -
  have "x \<le> max_int64" using assms(1) by (simp add: in64_def)
  moreover have "x \<noteq> max_int64"
    using assms wrap64_succ [OF assms(1)] by (auto simp: min_int64_def)
  ultimately show ?thesis
    using assms wrap64_succ [OF assms(1)] by auto
qed

section \<open>Strings, identities and instants\<close>

type_synonym bytes = "8 word list"
type_synonym uuid = "128 word"
type_synonym time = int

definition uuid_nil :: uuid where
  "uuid_nil = 0"

abbreviation (input) isZero :: "time \<Rightarrow> bool" where
  "isZero t \<equiv> t = 0"

text \<open>\<open>strings.HasPrefix\<close> and \<open>strings.HasSuffix\<close>.\<close>

definition hasPrefix :: "string \<Rightarrow> string \<Rightarrow> bool" where
  "hasPrefix s p \<longleftrightarrow> take (length p) s = p"

definition hasSuffix :: "string \<Rightarrow> string \<Rightarrow> bool" where
  "hasSuffix s p \<longleftrightarrow> length p \<le> length s \<and> drop (length s - length p) s = p"

lemma hasPrefix_append [simp]: "hasPrefix (p @ s) p"
  by (simp add: hasPrefix_def)

lemma hasPrefix_single: "hasPrefix s [c] \<longleftrightarrow> s \<noteq> [] \<and> hd s = c"
  by (cases s) (simp_all add: hasPrefix_def)

lemma hasSuffix_single: "hasSuffix s [c] \<longleftrightarrow> s \<noteq> [] \<and> last s = c"
  by (cases s rule: rev_cases) (simp_all add: hasSuffix_def)

section \<open>Generic facts\<close>

lemma nth_append_length_plus: "(xs @ ys) ! (length xs + i) = ys ! i"
  by (simp add: nth_append)

lemma sorted_wrt_append_single:
  "sorted_wrt P (xs @ [x]) \<longleftrightarrow> sorted_wrt P xs \<and> (\<forall>y \<in> set xs. P y x)"
  by (simp add: sorted_wrt_append)

lemma rev_take_drop_last:
  "xs \<noteq> [] \<Longrightarrow> rev xs = last xs # rev (butlast xs)"
  by (cases xs rule: rev_cases) simp_all

lemma map_upd_Some_same: "(m(k \<mapsto> v)) k = Some v"
  by simp

end
