(* ===== verification/TypeId.thy ===== *)
theory TypeId
  imports Prelude
begin

text \<open>
  Typed identifiers (\<open>typeid/typeid.go\<close>): a UUID with a type name, its text form
  \<open>type_uuid\<close>, and the parser that inverts it. The UUID package is third-party code, so its
  \<open>String\<close> method and its \<open>FromString\<close> parser are parameters (\<open>ustr\<close>, \<open>ufrom\<close>); the
  locale \<open>uuid_text\<close> states what the code relies on, and the canonical 8-4-4-4-12 hexadecimal
  form is shown to satisfy it.
\<close>

section \<open>The ID type and its operations\<close>

record typeid =
  id_type :: string
  id_uuid :: uuid

text \<open>\<open>New(typeName, uid)\<close>.\<close>

definition New_id :: "string \<Rightarrow> uuid \<Rightarrow> typeid" where
  "New_id typeName uid = \<lparr>id_type = typeName, id_uuid = uid\<rparr>"

text \<open>\<open>NewV4\<close> and \<open>NewV7\<close> draw their UUID from the third-party generator: \<open>fresh\<close> is the value drawn.\<close>

definition NewV4 :: "uuid \<Rightarrow> string \<Rightarrow> typeid" where
  "NewV4 fresh typeName = \<lparr>id_type = typeName, id_uuid = fresh\<rparr>"

definition id_string :: "(uuid \<Rightarrow> string) \<Rightarrow> typeid \<Rightarrow> string" where
  "id_string ustr i = id_type i @ ''_'' @ ustr (id_uuid i)"

datatype typeid_error =
    TypeNameRequired
  | TypeNameUnderscore
  | TooShort
  | MissingSeparator
  | InvalidTypeName typeid_error
  | ParsingUUID
  | NotCanonical

definition ValidateTypeName :: "string \<Rightarrow> typeid_error option" where
  "ValidateTypeName name =
     (if name = '''' then Some TypeNameRequired
      else if hasPrefix name ''_'' \<or> hasSuffix name ''_'' then Some TypeNameUnderscore
      else None)"

definition minIDLength :: nat where
  "minIDLength = 1 + 1 + 36"

definition Parse ::
  "(uuid \<Rightarrow> string) \<Rightarrow> (string \<Rightarrow> uuid option) \<Rightarrow> string \<Rightarrow> typeid_error + typeid" where
  "Parse ustr ufrom s =
     (if length s < minIDLength then Inl TooShort
      else let typeName = take (length s - 37) s;
               uuidStr = drop (length s - 36) s
        in if s ! (length s - 37) \<noteq> CHR ''_'' then Inl MissingSeparator
           else case ValidateTypeName typeName of
             Some e \<Rightarrow> Inl (InvalidTypeName e)
           | None \<Rightarrow> (case ufrom uuidStr of
               None \<Rightarrow> Inl ParsingUUID
             | Some uid \<Rightarrow>
                 if ustr uid \<noteq> uuidStr then Inl NotCanonical
                 else Inr \<lparr>id_type = typeName, id_uuid = uid\<rparr>))"

section \<open>Laws\<close>

lemma ValidateTypeName_None_iff:
  "ValidateTypeName name = None \<longleftrightarrow> name \<noteq> [] \<and> hd name \<noteq> CHR ''_'' \<and> last name \<noteq> CHR ''_''"
  by (auto simp: ValidateTypeName_def hasPrefix_single hasSuffix_single)

text \<open>What the typed ID code relies on in the UUID package: a fixed-width text form that parses back.\<close>

locale uuid_text =
  fixes ustr :: "uuid \<Rightarrow> string" and ufrom :: "string \<Rightarrow> uuid option"
  assumes ustr_length: "length (ustr u) = 36"
    and ufrom_ustr: "ufrom (ustr u) = Some u"
begin

lemma ustr_inj: "ustr u = ustr v \<Longrightarrow> u = v"
  by (metis ufrom_ustr option.inject)

text \<open>
  The separator is always 37 bytes from the end, so the text form determines the identifier even
  when the type name contains underscores: it is safe as a storage key.
\<close>

lemma id_string_inject: "id_string ustr i = id_string ustr j \<Longrightarrow> i = j"
proof -
  assume eq: "id_string ustr i = id_string ustr j"
  have "length (''_'' @ ustr (id_uuid i)) = length (''_'' @ ustr (id_uuid j))"
    by (simp add: ustr_length)
  with eq have "id_type i = id_type j" and "ustr (id_uuid i) = ustr (id_uuid j)"
    unfolding id_string_def by (auto simp: append_eq_append_conv)
  then show ?thesis using ustr_inj by (simp add: typeid.equality)
qed

lemma Parse_id_string:
  assumes "ValidateTypeName (id_type i) = None"
  shows "Parse ustr ufrom (id_string ustr i) = Inr i"
proof -
  let ?t = "id_type i" and ?u = "ustr (id_uuid i)"
  have len: "length (id_string ustr i) = length ?t + 37"
    by (simp add: id_string_def ustr_length)
  have "?t \<noteq> []" using assms by (simp add: ValidateTypeName_None_iff)
  then have "minIDLength \<le> length (id_string ustr i)"
    using len by (cases ?t) (simp_all add: minIDLength_def)
  moreover have "take (length ?t) (id_string ustr i) = ?t"
    "drop (length ?t + 1) (id_string ustr i) = ?u"
    "id_string ustr i ! length ?t = CHR ''_''"
    by (simp_all add: id_string_def)
  ultimately show ?thesis
    using assms len by (simp add: Parse_def Let_def ufrom_ustr)
qed

lemma Parse_Inr:
  assumes "Parse ustr ufrom s = Inr i"
  shows "id_string ustr i = s \<and> ValidateTypeName (id_type i) = None"
proof -
  let ?n = "length s - 37"
  from assms have len: "minIDLength \<le> length s"
    and sep: "s ! ?n = CHR ''_''"
    and val: "ValidateTypeName (take ?n s) = None"
    and u: "ustr (id_uuid i) = drop (length s - 36) s" "id_type i = take ?n s"
    by (auto simp: Parse_def Let_def split: if_splits option.splits)
  from len have n: "?n < length s" "Suc ?n = length s - 36"
    by (auto simp: minIDLength_def)
  have "s = take ?n s @ s ! ?n # drop (Suc ?n) s"
    using n(1) by (rule id_take_nth_drop)
  then show ?thesis
    using sep u val n(2) by (simp add: id_string_def)
qed

end
section \<open>The canonical hexadecimal form\<close>

text \<open>
  RFC 9562's text form, the concrete instance of the parameters: 32 hexadecimal digits, dashes
  after the 8th, 12th, 16th and 20th.
\<close>

definition hex_char :: "nat \<Rightarrow> char" where
  "hex_char n = (if n < 10 then char_of (48 + n) else char_of (87 + n))"

definition hex_val :: "char \<Rightarrow> nat option" where
  "hex_val c = (let n = (of_char c :: nat) in
     if 48 \<le> n \<and> n < 58 then Some (n - 48)
     else if 97 \<le> n \<and> n < 103 then Some (n - 87)
     else None)"

fun hex_digits :: "nat \<Rightarrow> nat \<Rightarrow> nat list" where
  "hex_digits 0 x = []"
| "hex_digits (Suc k) x = hex_digits k (x div 16) @ [x mod 16]"

definition insert_dashes :: "string \<Rightarrow> string" where
  "insert_dashes h = take 8 h @ ''-'' @ take 4 (drop 8 h) @ ''-'' @ take 4 (drop 12 h) @ ''-''
     @ take 4 (drop 16 h) @ ''-'' @ drop 20 h"

definition remove_dashes :: "string \<Rightarrow> string" where
  "remove_dashes s = take 8 s @ take 4 (drop 9 s) @ take 4 (drop 14 s) @ take 4 (drop 19 s) @ drop 24 s"

definition hex_string :: "uuid \<Rightarrow> string" where
  "hex_string u = insert_dashes (map hex_char (hex_digits 32 (unat u)))"

definition hex_value :: "nat list \<Rightarrow> nat" where
  "hex_value ds = foldl (\<lambda>a d. a * 16 + d) 0 ds"

definition hex_parse :: "string \<Rightarrow> uuid option" where
  "hex_parse s = (let ds = map hex_val (remove_dashes s) in
     if length s = 36 \<and> None \<notin> set ds then Some (of_nat (hex_value (map the ds))) else None)"

lemma hex_val_char: "n < 16 \<Longrightarrow> hex_val (hex_char n) = Some n"
  by (auto simp: hex_val_def hex_char_def Let_def)

lemma length_hex_digits [simp]: "length (hex_digits k x) = k"
  by (induction k arbitrary: x) simp_all

lemma hex_digits_less: "d \<in> set (hex_digits k x) \<Longrightarrow> d < 16"
  by (induction k arbitrary: x) auto

lemma hex_value_digits: "hex_value (hex_digits k x) = x mod 16 ^ k"
proof (induction k arbitrary: x)
  case 0
  then show ?case by (simp add: hex_value_def)
next
  case (Suc k)
  have "hex_value (hex_digits (Suc k) x) = (x div 16) mod 16 ^ k * 16 + x mod 16"
    using Suc.IH [of "x div 16"] by (simp add: hex_value_def)
  also have "\<dots> = x mod 16 ^ Suc k"
    by (simp add: mod_mult2_eq)
  finally show ?case .
qed

lemma take_drop_split: "take n (drop m xs) @ drop (n + m) xs = drop m xs"
  by (metis append_take_drop_id drop_drop)

lemma remove_insert_dashes: "length h = 32 \<Longrightarrow> remove_dashes (insert_dashes h) = h"
proof -
  assume "length h = 32"
  then have "remove_dashes (insert_dashes h) =
      take 8 h @ take 4 (drop 8 h) @ take 4 (drop 12 h) @ take 4 (drop 16 h) @ drop 20 h"
    by (simp add: remove_dashes_def insert_dashes_def)
  also have "\<dots> = h"
    using take_drop_split [of 4 16 h] take_drop_split [of 4 12 h] take_drop_split [of 4 8 h]
    by simp
  finally show ?thesis .
qed

lemma length_insert_dashes: "length h = 32 \<Longrightarrow> length (insert_dashes h) = 36"
  by (simp add: insert_dashes_def)

lemma unat_lt2p_128: "unat (u :: uuid) < 16 ^ 32"
  using unsigned_less [of u, where ?'a = nat] by simp

lemma hex_parse_string: "hex_parse (hex_string u) = Some u"
proof -
  let ?ds = "hex_digits 32 (unat u)"
  have "map hex_val (map hex_char ?ds) = map Some ?ds"
    by (simp add: hex_val_char hex_digits_less)
  moreover have "map (\<lambda>d. the (hex_val (hex_char d))) ?ds = ?ds"
    by (rule map_idI) (simp add: hex_val_char hex_digits_less)
  moreover have "unat u mod 16 ^ 32 = unat u"
    using unat_lt2p_128 [of u] by simp
  ultimately show ?thesis
    by (simp add: hex_parse_def hex_string_def remove_insert_dashes length_insert_dashes
        hex_value_digits comp_def)
qed

interpretation hex: uuid_text hex_string hex_parse
  by unfold_locales
    (simp_all only: hex_parse_string, simp add: hex_string_def length_insert_dashes)

section \<open>Properties\<close>

text \<open>
  C37. \<open>Parse\<close> is the exact inverse of \<open>String\<close> on identifiers with a valid type name: it accepts
  a text if and only if that text is the canonical form of the identifier it returns and the
  type name is valid. So a parsed ID always serializes back to its input, and every ID with a valid
  type name survives the round trip.
\<close>

theorem Parse_iff_String:
  assumes "\<And>u. length (ustr u) = 36" and "\<And>u. ufrom (ustr u) = Some u"
  shows "Parse ustr ufrom s = Inr i \<longleftrightarrow>
    id_string ustr i = s \<and> ValidateTypeName (id_type i) = None"
proof -
  have "uuid_text ustr ufrom" using assms by (rule uuid_text.intro)
  then show ?thesis by (blast intro: uuid_text.Parse_id_string dest: uuid_text.Parse_Inr)
qed

theorem Parse_iff_String_witness:
  "Parse hex_string hex_parse (id_string hex_string (New_id ''user'' 15)) = Inr (New_id ''user'' 15)
   \<and> Parse hex_string hex_parse (id_string hex_string (New_id ''_user'' 15)) \<noteq> Inr (New_id ''_user'' 15)"
proof -
  note iff = Parse_iff_String [of hex_string hex_parse, OF hex.ustr_length hex.ufrom_ustr]
  show ?thesis
    by (simp add: iff New_id_def ValidateTypeName_None_iff)
qed

end
