(* ===== verification/GoErrors.thy ===== *)
theory GoErrors
  imports TypeId
begin

text \<open>
  Go error values as the repository uses them: sentinels, typed wrappers and joined errors form a
  tree, and the code walks that tree in several ways.
  \<open>SaveOutcome\<close> (\<open>aggregatestore/aggregate_store.go\<close>) resolves what a failed save vouches for,
  level by level; \<open>leavesMatch\<close> (\<open>projection/lifecycle/handle.go\<close>, and its twin
  \<open>errorLeavesMatch\<close> in \<open>projection/processor/processor.go\<close>) asks whether a failure is
  nothing but a set of benign causes; \<open>joinCancellation\<close> and \<open>attributeExit\<close> decide which
  of two competing failures is reported.
\<close>

section \<open>Error trees\<close>

datatype sentinel =
    ErrStreamNotFound
  | ErrStreamIteratorClosed
  | ErrEndOfEventStream
  | ErrAggregateNotFound
  | ErrEventsAppended
  | ErrNoEventsAppended
  | ErrNilAggregate
  | ErrNoUnappliedEvents
  | ErrSnapshotNotFound
  | ErrCheckpointNotFound
  | ErrRunnerDisplaced
  | ErrNotCertified
  | ErrClaimStanding
  | ErrInvalidState
  | ErrNoLiveVersion
  | ContextCanceled
  | DeadlineExceeded

text \<open>
  The struct types and \<open>fmt.Errorf\<close> formats that wrap exactly one error and unwrap to it. A
  \<open>FmtErr\<close> carries its message prefix; the aggregate store's errors carry the aggregate ID and
  the operation.
\<close>

datatype err_kind =
    FmtErr string
  | InitializeError string
  | LoadError typeid string
  | HydrateError typeid string
  | SaveError typeid string
  | EventMarshalingError typeid typeid
  | EventUnmarshalingError typeid typeid

text \<open>
  \<open>Text\<close> is an \<open>errors.New\<close> or a \<open>fmt.Errorf\<close> with no wrapped error. \<open>Join\<close> is any
  error whose \<open>Unwrap\<close> returns a slice (\<open>errors.Join\<close>, a \<open>fmt.Errorf\<close> with several
  \<open>%w\<close>). \<open>Nil_error\<close> is a nil child: what an \<open>Unwrap\<close> of third-party code may return.
\<close>

datatype go_error =
    Nil_error
  | Sentinel sentinel
  | Text string
  | StreamVersionMismatchError typeid int64 int64
  | Wrap err_kind go_error
  | Join "go_error list"
  | SaveOutcomeError sentinel go_error
  | AppendError int64 go_error

text \<open>An \<open>error\<close> result is \<open>go_error option\<close> (\<open>None\<close> is nil), a \<open>(T, error)\<close> result a sum.\<close>

type_synonym 'a result = "go_error + 'a"

text \<open>\<open>errors.New\<close>, a \<open>fmt.Errorf\<close> wrapping one error, and \<open>errors.Join\<close>, which drops nils.\<close>

definition fmt_wrap :: "string \<Rightarrow> go_error \<Rightarrow> go_error" where
  "fmt_wrap prefix e = Wrap (FmtErr prefix) e"

definition errors_join :: "go_error option list \<Rightarrow> go_error option" where
  "errors_join es = (case List.map_filter (\<lambda>e. e) es of [] \<Rightarrow> None | xs \<Rightarrow> Some (Join xs))"

text \<open>
  \<open>errors.Is(err, target)\<close> for a sentinel: the target occurs in the tree, or a marker's own
  \<open>Is\<close> method answers for it.
\<close>

primrec errors_is :: "go_error \<Rightarrow> sentinel \<Rightarrow> bool" where
  "errors_is Nil_error t = False"
| "errors_is (Sentinel s) t = (s = t)"
| "errors_is (Text m) t = False"
| "errors_is (StreamVersionMismatchError i x a) t = False"
| "errors_is (Wrap k e) t = errors_is e t"
| "errors_is (Join es) t = list_ex (\<lambda>b. b) (map (\<lambda>e. errors_is e t) es)"
| "errors_is (SaveOutcomeError s e) t = (s = t \<or> errors_is e t)"
| "errors_is (AppendError n e) t = errors_is e t"

text \<open>\<open>errors.As\<close> for a stream version mismatch: the first one in a depth-first walk.\<close>

definition first_some :: "'a option list \<Rightarrow> 'a option" where
  "first_some xs = (case List.map_filter (\<lambda>x. x) xs of [] \<Rightarrow> None | y # _ \<Rightarrow> Some y)"

primrec as_mismatch :: "go_error \<Rightarrow> (typeid \<times> int64 \<times> int64) option" where
  "as_mismatch Nil_error = None"
| "as_mismatch (Sentinel s) = None"
| "as_mismatch (Text m) = None"
| "as_mismatch (StreamVersionMismatchError i x a) = Some (i, x, a)"
| "as_mismatch (Wrap k e) = as_mismatch e"
| "as_mismatch (Join es) = first_some (map as_mismatch es)"
| "as_mismatch (SaveOutcomeError s e) = as_mismatch e"
| "as_mismatch (AppendError n e) = as_mismatch e"

text \<open>\<open>errors.Is(err, StreamVersionMismatchError{})\<close>: the type's \<open>Is\<close> method matches any mismatch.\<close>

definition is_mismatch :: "go_error \<Rightarrow> bool" where
  "is_mismatch e \<longleftrightarrow> as_mismatch e \<noteq> None"

primrec as_append_error :: "go_error \<Rightarrow> int64 option" where
  "as_append_error Nil_error = None"
| "as_append_error (Sentinel s) = None"
| "as_append_error (Text m) = None"
| "as_append_error (StreamVersionMismatchError i x a) = None"
| "as_append_error (Wrap k e) = as_append_error e"
| "as_append_error (Join es) = first_some (map as_append_error es)"
| "as_append_error (SaveOutcomeError s e) = as_append_error e"
| "as_append_error (AppendError n e) = Some n"

definition isAppendFailure :: "go_error \<Rightarrow> bool" where
  "isAppendFailure e \<longleftrightarrow> as_append_error e \<noteq> None"

section \<open>Save outcomes\<close>

datatype append_outcome =
    AppendOutcomeUnknown
  | AppendOutcomeAppended
  | AppendOutcomeNothingAppended

definition withSaveOutcome :: "sentinel \<Rightarrow> go_error \<Rightarrow> go_error" where
  "withSaveOutcome outcome err = SaveOutcomeError outcome err"

definition resolved :: "sentinel \<Rightarrow> append_outcome" where
  "resolved s = (if s = ErrEventsAppended then AppendOutcomeAppended else AppendOutcomeNothingAppended)"

text \<open>The vote one node of a level casts, if it is a marker.\<close>

definition marker_vote :: "go_error \<Rightarrow> append_outcome option" where
  "marker_vote node = (case node of
     Sentinel ErrEventsAppended \<Rightarrow> Some AppendOutcomeAppended
   | Sentinel ErrNoEventsAppended \<Rightarrow> Some AppendOutcomeNothingAppended
   | SaveOutcomeError s e \<Rightarrow> Some (resolved s)
   | _ \<Rightarrow> None)"

text \<open>The \<open>vote\<close> closure's variables: \<open>outcome\<close>, \<open>voted\<close>, \<open>contradicted\<close>.\<close>

type_synonym ballot = "append_outcome \<times> bool \<times> bool"

fun vote :: "ballot \<Rightarrow> append_outcome \<Rightarrow> ballot" where
  "vote (outcome, voted, contradicted) res =
     (if voted \<and> outcome \<noteq> res then (outcome, voted, True) else (res, True, contradicted))"

text \<open>What an unmarked node adds to the next level.\<close>

fun unwrap_next :: "go_error \<Rightarrow> go_error list" where
  "unwrap_next (Wrap k e) = (if e = Nil_error then [] else [e])"
| "unwrap_next (AppendError n e) = (if e = Nil_error then [] else [e])"
| "unwrap_next (Join es) = es"
| "unwrap_next _ = []"

fun scan_level :: "go_error list \<Rightarrow> ballot \<times> go_error list \<Rightarrow> ballot \<times> go_error list" where
  "scan_level [] (b, next) = (b, next)"
| "scan_level (node # level) (b, next) =
     (if node = Nil_error then scan_level level (b, next)
      else case marker_vote node of
        Some r \<Rightarrow> scan_level level (vote b r, next)
      | None \<Rightarrow> scan_level level (b, next @ unwrap_next node))"

primrec tree_size :: "go_error \<Rightarrow> nat" where
  "tree_size Nil_error = 1"
| "tree_size (Sentinel s) = 1"
| "tree_size (Text m) = 1"
| "tree_size (StreamVersionMismatchError i x a) = 1"
| "tree_size (Wrap k e) = Suc (tree_size e)"
| "tree_size (Join es) = Suc (sum_list (map tree_size es))"
| "tree_size (SaveOutcomeError s e) = Suc (tree_size e)"
| "tree_size (AppendError n e) = Suc (tree_size e)"

definition level_size :: "go_error list \<Rightarrow> nat" where
  "level_size level = sum_list (map tree_size level)"

lemma tree_size_pos [simp]: "0 < tree_size e"
  by (cases e) simp_all

lemma level_size_append [simp]: "level_size (xs @ ys) = level_size xs + level_size ys"
  by (simp add: level_size_def)

lemma unwrap_next_size: "level_size (unwrap_next e) < tree_size e"
  by (cases e rule: unwrap_next.cases) (simp_all add: level_size_def)

lemma scan_level_size:
  "scan_level level (b, next) = (b', next') \<Longrightarrow>
   level_size next' + length level \<le> level_size next + level_size level"
proof (induction level arbitrary: b "next")
  case Nil
  then show ?case by (simp add: level_size_def)
next
  case (Cons node level)
  have grow: "level_size (node # level) = tree_size node + level_size level"
    by (simp add: level_size_def)
  have pos: "Suc 0 \<le> tree_size node"
    by (cases node) simp_all
  have "\<exists>b1 next1. scan_level level (b1, next1) = (b', next') \<and>
      level_size next1 \<le> level_size next + level_size (unwrap_next node)"
  proof (cases "node = Nil_error \<or> marker_vote node \<noteq> None")
    case True
    then have "\<exists>b1. scan_level level (b1, next) = (b', next')"
      using Cons.prems by (cases "node = Nil_error") (auto simp del: split_paired_Ex)
    then show ?thesis by (metis le_add1)
  next
    case False
    then have "scan_level level (b, next @ unwrap_next node) = (b', next')"
      using Cons.prems by simp
    then show ?thesis by (metis level_size_append le_refl)
  qed
  then obtain b1 next1 where rest: "scan_level level (b1, next1) = (b', next')"
    and bound: "level_size next1 \<le> level_size next + level_size (unwrap_next node)" by blast
  show ?case
    using Cons.IH [OF rest] bound grow pos unwrap_next_size [of node] by simp
qed

text \<open>
  The resolver's loop. Each round replaces the level by its nodes' children, so the total size
  of the level shrinks.
\<close>

function resolve_levels :: "go_error list \<Rightarrow> append_outcome" where
  "resolve_levels level =
     (if level = [] then AppendOutcomeUnknown
      else case scan_level level ((AppendOutcomeUnknown, False, False), []) of
        ((outcome, voted, contradicted), next) \<Rightarrow>
          if contradicted then AppendOutcomeUnknown
          else if voted then outcome
          else resolve_levels next)"
  by pat_completeness auto
termination
proof (relation "measure level_size")
  fix level b voted out contradicted p "next"
  assume ne: "level \<noteq> []"
    and scan: "(b, next) = scan_level level ((AppendOutcomeUnknown, False, False), [])"
  have "level_size next + length level \<le> level_size ([] :: go_error list) + level_size level"
    using scan [symmetric] by (rule scan_level_size)
  then show "(next, level) \<in> measure level_size"
    using ne by (cases level) (simp_all add: level_size_def)
qed auto

declare resolve_levels.simps [simp del]

definition SaveOutcome :: "go_error option \<Rightarrow> append_outcome" where
  "SaveOutcome err = resolve_levels (case err of None \<Rightarrow> [Nil_error] | Some e \<Rightarrow> [e])"

section \<open>The resolver against its contract\<close>

text \<open>
  The contract, stated without levels: \<open>votes_at d e\<close> are the markers at depth \<open>d\<close> of the tree
  that no shallower marker shadows, and markers of one depth speak only when they agree.
\<close>

primrec votes_at :: "nat \<Rightarrow> go_error \<Rightarrow> append_outcome list" where
  "votes_at 0 e = (case marker_vote e of None \<Rightarrow> [] | Some r \<Rightarrow> [r])"
| "votes_at (Suc d) e =
     (if marker_vote e = None then concat (map (votes_at d) (unwrap_next e)) else [])"

definition consensus :: "append_outcome list \<Rightarrow> append_outcome" where
  "consensus vs = (if \<forall>v \<in> set vs. v = hd vs then hd vs else AppendOutcomeUnknown)"

definition level_votes :: "nat \<Rightarrow> go_error list \<Rightarrow> append_outcome list" where
  "level_votes d level = concat (map (votes_at d) level)"

definition next_level :: "go_error list \<Rightarrow> go_error list" where
  "next_level level = concat (map unwrap_next (filter (\<lambda>e. marker_vote e = None) level))"

lemma marker_vote_Nil [simp]: "marker_vote Nil_error = None"
  by (simp add: marker_vote_def)

lemma scan_level_eq:
  "scan_level level (b, next) = (foldl vote b (level_votes 0 level), next @ next_level level)"
  by (induction level arbitrary: b "next")
    (auto simp: level_votes_def next_level_def split: option.splits)

lemma level_votes_Suc: "level_votes (Suc d) level = level_votes d (next_level level)"
  by (induction level) (auto simp: level_votes_def next_level_def)

lemma foldl_vote_voted:
  "foldl vote (r, True, c) rs = (r, True, c \<or> (\<exists>x \<in> set rs. x \<noteq> r))"
  by (induction rs arbitrary: c) auto

lemma resolve_levels_votes:
  assumes "level_votes 0 level \<noteq> []"
  shows "resolve_levels level = consensus (level_votes 0 level)"
proof -
  obtain r rs where vs: "level_votes 0 level = r # rs"
    using assms by (cases "level_votes 0 level") auto
  moreover have "level \<noteq> []" using assms by (auto simp: level_votes_def)
  ultimately show ?thesis
    by (auto simp: resolve_levels.simps [of level] scan_level_eq consensus_def foldl_vote_voted)
qed

lemma resolve_levels_next:
  assumes "level_votes 0 level = []"
  shows "resolve_levels level = resolve_levels (next_level level)"
proof (cases "level = []")
  case True
  then show ?thesis by (simp add: next_level_def)
next
  case False
  then show ?thesis
    using assms by (simp add: resolve_levels.simps [of level] scan_level_eq)
qed

lemma resolve_levels_shallowest:
  assumes "level_votes d level \<noteq> []" "\<And>k. k < d \<Longrightarrow> level_votes k level = []"
  shows "resolve_levels level = consensus (level_votes d level)"
  using assms
proof (induction d arbitrary: level)
  case 0
  then show ?case by (simp add: resolve_levels_votes)
next
  case (Suc d)
  have "level_votes 0 level = []" using Suc.prems(2) by simp
  moreover have "level_votes k (next_level level) = []" if "k < d" for k
    using Suc.prems(2) [of "Suc k"] that by (simp add: level_votes_Suc)
  ultimately show ?case
    using Suc by (simp add: resolve_levels_next level_votes_Suc)
qed

lemma next_level_size: "level \<noteq> [] \<Longrightarrow> level_size (next_level level) < level_size level"
proof (induction level)
  case (Cons e level)
  have "level_size (next_level level) \<le> level_size level"
    using Cons.IH by (cases "level = []") (auto simp: next_level_def level_size_def)
  moreover have "level_size (next_level (e # level)) \<le>
      level_size (unwrap_next e) + level_size (next_level level)"
    by (simp add: next_level_def)
  moreover have "level_size (e # level) = tree_size e + level_size level"
    by (simp add: level_size_def)
  ultimately show ?case using unwrap_next_size [of e] by linarith
qed simp

lemma resolve_levels_unmarked:
  "(\<And>d. level_votes d level = []) \<Longrightarrow> resolve_levels level = AppendOutcomeUnknown"
proof (induction "level_size level" arbitrary: level rule: less_induct)
  case less
  show ?case
  proof (cases "level = []")
    case True
    then show ?thesis by (simp add: resolve_levels.simps)
  next
    case False
    have "level_votes d (next_level level) = []" for d
      using less.prems [of "Suc d"] by (simp add: level_votes_Suc)
    then have "resolve_levels (next_level level) = AppendOutcomeUnknown"
      using less.hyps [OF next_level_size [OF False]] by simp
    then show ?thesis using less.prems [of 0] by (simp add: resolve_levels_next)
  qed
qed

lemma level_votes_single [simp]: "level_votes d [e] = votes_at d e"
  by (simp add: level_votes_def)

text \<open>Evaluation rules: a marker shadows what it wraps, a plain wrapper is transparent.\<close>

lemma SaveOutcome_nil [outcome_simps]: "SaveOutcome None = AppendOutcomeUnknown"
  unfolding SaveOutcome_def
  by (simp, rule resolve_levels_unmarked, case_tac d) simp_all

lemma SaveOutcome_marker [outcome_simps]:
  "SaveOutcome (Some (withSaveOutcome s e)) = resolved s"
  by (simp add: SaveOutcome_def resolve_levels_votes marker_vote_def consensus_def
      withSaveOutcome_def)

lemma SaveOutcome_sentinel [outcome_simps]:
  "SaveOutcome (Some (Sentinel s)) =
     (if s = ErrEventsAppended then AppendOutcomeAppended
      else if s = ErrNoEventsAppended then AppendOutcomeNothingAppended
      else AppendOutcomeUnknown)"
proof (cases "s = ErrEventsAppended \<or> s = ErrNoEventsAppended")
  case True
  then show ?thesis
    by (auto simp: SaveOutcome_def resolve_levels_votes marker_vote_def consensus_def)
next
  case False
  then have "marker_vote (Sentinel s) = None"
    by (cases s) (simp_all add: marker_vote_def)
  then have "votes_at d (Sentinel s) = []" for d by (cases d) simp_all
  then show ?thesis
    using False by (simp add: SaveOutcome_def resolve_levels_unmarked)
qed

lemma SaveOutcome_leaf [outcome_simps]:
  "SaveOutcome (Some (Text m)) = AppendOutcomeUnknown"
  "SaveOutcome (Some (StreamVersionMismatchError i x a)) = AppendOutcomeUnknown"
proof -
  have "votes_at d (Text m) = []" "votes_at d (StreamVersionMismatchError i x a) = []" for d
    by (cases d; simp add: marker_vote_def)+
  then show "SaveOutcome (Some (Text m)) = AppendOutcomeUnknown"
    "SaveOutcome (Some (StreamVersionMismatchError i x a)) = AppendOutcomeUnknown"
    by (simp_all add: SaveOutcome_def resolve_levels_unmarked)
qed

lemma resolve_levels_unwrap:
  assumes "marker_vote e = None" "unwrap_next e = [e']"
  shows "resolve_levels [e] = resolve_levels [e']"
  using assms resolve_levels_next [of "[e]"] by (simp add: next_level_def)

lemma SaveOutcome_Wrap [outcome_simps]:
  "SaveOutcome (Some (Wrap k e)) = SaveOutcome (Some e)"
proof (cases "e = Nil_error")
  case True
  then have "votes_at d (Wrap k e) = []" "votes_at d e = []" for d
    by (cases d; simp add: marker_vote_def)+
  then show ?thesis by (simp add: SaveOutcome_def resolve_levels_unmarked)
next
  case False
  then show ?thesis
    by (simp add: SaveOutcome_def marker_vote_def resolve_levels_unwrap)
qed

lemma SaveOutcome_fmt_wrap [outcome_simps]:
  "SaveOutcome (Some (fmt_wrap m e)) = SaveOutcome (Some e)"
  by (simp add: fmt_wrap_def SaveOutcome_Wrap)

lemma SaveOutcome_AppendError [outcome_simps]:
  "e \<noteq> Nil_error \<Longrightarrow> SaveOutcome (Some (AppendError n e)) = SaveOutcome (Some e)"
  by (simp add: SaveOutcome_def marker_vote_def resolve_levels_unwrap)

end
