(* ===== verification/Cancellation.thy ===== *)
theory Cancellation
  imports GoErrors
begin

text \<open>
  The decisions the processor and the rebuild handle take on error trees when a failure races a
  cancellation: \<open>errorLeavesMatch\<close>, \<open>joinCancellation\<close> (\<open>projection/processor/processor.go\<close>)
  and \<open>leavesMatch\<close>, \<open>attributeExit\<close>, \<open>defeatSlot\<close> (\<open>projection/lifecycle/handle.go\<close>). The
  lemmas show that the two leaf walks are one function, that a benign verdict means every leaf of
  the tree is benign, and that no independent failure is ever dropped.
\<close>

section \<open>Leaf matching in the lifecycle package\<close>

definition leafMatches :: "go_error \<Rightarrow> sentinel list \<Rightarrow> bool" where
  "leafMatches err targets = list_ex (\<lambda>t. errors_is err t) targets"

primrec leavesMatch :: "go_error \<Rightarrow> sentinel list \<Rightarrow> bool" where
  "leavesMatch Nil_error targets = False"
| "leavesMatch (Sentinel s) targets = leafMatches (Sentinel s) targets"
| "leavesMatch (Text m) targets = leafMatches (Text m) targets"
| "leavesMatch (StreamVersionMismatchError i x a) targets =
     leafMatches (StreamVersionMismatchError i x a) targets"
| "leavesMatch (Join joined) targets =
     (if joined = [] then leafMatches (Join joined) targets
      else list_all (\<lambda>b. b) (map (\<lambda>cause. leavesMatch cause targets) joined))"
| "leavesMatch (Wrap k cause) targets =
     (if cause \<noteq> Nil_error then leavesMatch cause targets
      else leafMatches (Wrap k cause) targets)"
| "leavesMatch (SaveOutcomeError s cause) targets =
     (if cause \<noteq> Nil_error then leavesMatch cause targets
      else leafMatches (SaveOutcomeError s cause) targets)"
| "leavesMatch (AppendError n cause) targets =
     (if cause \<noteq> Nil_error then leavesMatch cause targets
      else leafMatches (AppendError n cause) targets)"

definition cancellationOnly :: "go_error \<Rightarrow> sentinel \<Rightarrow> bool" where
  "cancellationOnly err target = leavesMatch err [target]"

section \<open>Leaf matching in the processor package\<close>

fun matchesAny :: "go_error \<Rightarrow> sentinel list \<Rightarrow> bool" where
  "matchesAny err [] = False"
| "matchesAny err (target # targets) = (errors_is err target \<or> matchesAny err targets)"

text \<open>
  The processor's version tests the two \<open>Unwrap\<close> interfaces in turn and falls through to
  \<open>matchesAny\<close>; its loop over the joined causes stops at the first that does not match.
\<close>

fun errorLeavesMatch :: "go_error \<Rightarrow> sentinel list \<Rightarrow> bool"
  and allCausesMatch :: "go_error list \<Rightarrow> sentinel list \<Rightarrow> bool"
where
  "errorLeavesMatch Nil_error targets = False"
| "errorLeavesMatch (Join causes) targets =
     (if causes = [] then matchesAny (Join causes) targets else allCausesMatch causes targets)"
| "errorLeavesMatch (Wrap k cause) targets =
     (if cause = Nil_error then matchesAny (Wrap k cause) targets
      else errorLeavesMatch cause targets)"
| "errorLeavesMatch (SaveOutcomeError s cause) targets =
     (if cause = Nil_error then matchesAny (SaveOutcomeError s cause) targets
      else errorLeavesMatch cause targets)"
| "errorLeavesMatch (AppendError n cause) targets =
     (if cause = Nil_error then matchesAny (AppendError n cause) targets
      else errorLeavesMatch cause targets)"
| "errorLeavesMatch err targets = matchesAny err targets"
| "allCausesMatch [] targets = True"
| "allCausesMatch (cause # causes) targets =
     (if \<not> errorLeavesMatch cause targets then False else allCausesMatch causes targets)"

definition joinCancellation :: "sentinel \<Rightarrow> go_error option \<Rightarrow> go_error" where
  "joinCancellation ctxErr err = (case err of
     None \<Rightarrow> Sentinel ctxErr
   | Some e \<Rightarrow>
       if errorLeavesMatch e [ctxErr, ErrEndOfEventStream] then Sentinel ctxErr
       else if errors_is e ctxErr then e
       else Join [Sentinel ctxErr, e])"

section \<open>Exit attribution and defeat slots\<close>

definition attributeExit ::
  "sentinel option \<Rightarrow> bool \<Rightarrow> go_error option \<Rightarrow> go_error option \<Rightarrow> go_error option" where
  "attributeExit ctxErr returnedFirst exitErr lcl = (case exitErr of
     None \<Rightarrow> lcl
   | Some e \<Rightarrow>
       if \<not> returnedFirst then lcl
       else if (case ctxErr of None \<Rightarrow> False | Some c \<Rightarrow> cancellationOnly e c)
            then map_option Sentinel ctxErr
       else (case lcl of None \<Rightarrow> Some e | Some l \<Rightarrow> errors_join [Some e, Some l]))"

definition defeatSlot :: "go_error \<Rightarrow> typeid \<Rightarrow> int64 option" where
  "defeatSlot lost stream =
     (if SaveOutcome (Some lost) = AppendOutcomeAppended then None
      else case as_mismatch lost of
        None \<Rightarrow> None
      | Some (streamID, expected, actual) \<Rightarrow>
          if streamID \<noteq> stream then None
          else if expected < 0 \<or> expected = max_int64 then None
          else if actual < expected then None
          else Some (wrap64 (expected + 1)))"

definition staleHandleError :: "string \<Rightarrow> go_error \<Rightarrow> go_error" where
  "staleHandleError action err = fmt_wrap (action @ '' recorded, but the rebuild handle is stale'') err"

section \<open>Leaves\<close>

text \<open>The leaves of an error tree: a node whose unwrapping yields nothing is one.\<close>

primrec leaves :: "go_error \<Rightarrow> go_error list" where
  "leaves Nil_error = [Nil_error]"
| "leaves (Sentinel s) = [Sentinel s]"
| "leaves (Text m) = [Text m]"
| "leaves (StreamVersionMismatchError i x a) = [StreamVersionMismatchError i x a]"
| "leaves (Join es) = (if es = [] then [Join es] else concat (map leaves es))"
| "leaves (Wrap k e) = (if e \<noteq> Nil_error then leaves e else [Wrap k e])"
| "leaves (SaveOutcomeError s e) = (if e \<noteq> Nil_error then leaves e else [SaveOutcomeError s e])"
| "leaves (AppendError n e) = (if e \<noteq> Nil_error then leaves e else [AppendError n e])"

lemma leavesMatch_iff_leaves:
  "leavesMatch e ts \<longleftrightarrow> (\<forall>l \<in> set (leaves e). leafMatches l ts)"
  by (induction e) (auto simp: list_all_iff leafMatches_def list_ex_iff)

lemma matchesAny_eq: "matchesAny e ts = leafMatches e ts"
  by (induction ts) (auto simp: leafMatches_def)

lemma errorLeavesMatch_allCausesMatch_eq:
  "errorLeavesMatch e ts = leavesMatch e ts"
  "allCausesMatch es ts = list_all (\<lambda>e. leavesMatch e ts) es"
  by (induction e ts and es ts rule: errorLeavesMatch_allCausesMatch.induct)
    (auto simp: matchesAny_eq list_all_iff)

lemma errors_is_leavesMatch: "leavesMatch e ts \<Longrightarrow> list_ex (\<lambda>t. errors_is e t) ts"
proof (induction e)
  case (Join es)
  show ?case
  proof (cases es)
    case Nil
    then show ?thesis using Join.prems by (simp add: leafMatches_def)
  next
    case (Cons a rest)
    then show ?thesis using Join by (auto simp: list_ex_iff)
  qed
qed (auto simp: leafMatches_def list_ex_iff split: if_splits)

section \<open>Properties\<close>

text \<open>
  The processor's \<open>errorLeavesMatch\<close> and the lifecycle package's \<open>leavesMatch\<close> are the same
  function on every error tree, and both decide exactly whether every leaf matches a target.
\<close>

theorem leaf_walks_agree:
  "errorLeavesMatch e ts = leavesMatch e ts
   \<and> leavesMatch e ts = list_all (\<lambda>l. leafMatches l ts) (leaves e)"
  by (simp add: errorLeavesMatch_allCausesMatch_eq leavesMatch_iff_leaves list_all_iff)

text \<open>
  \<open>joinCancellation\<close> always reports the cancellation, reports nothing but it exactly when the
  failure is nothing but cancellation and end-of-stream markers, and otherwise keeps every leaf
  of the failure.
\<close>

theorem joinCancellation_keeps_failures:
  "errors_is (joinCancellation c (Some e)) c \<and>
   (if leavesMatch e [c, ErrEndOfEventStream] then joinCancellation c (Some e) = Sentinel c
    else set (leaves e) \<subseteq> set (leaves (joinCancellation c (Some e))))"
  by (auto simp: joinCancellation_def errorLeavesMatch_allCausesMatch_eq)

text \<open>
  A processor result that returned before the wind-down's stop is never discarded: unless it
  carries nothing but the cancellation observed at the return, every leaf of it survives into
  the reported error; and a stop that won the order reports the local failure alone.
\<close>

theorem attributeExit_keeps_first_result:
  assumes "\<And>c. ctxErr = Some c \<Longrightarrow> \<not> leavesMatch e [c]"
  shows "\<exists>r. attributeExit ctxErr True (Some e) l = Some r \<and> set (leaves e) \<subseteq> set (leaves r)
    \<and> attributeExit ctxErr False (Some e) l = l"
  using assms
  by (auto simp: attributeExit_def cancellationOnly_def errors_join_def List.map_filter_def
      split: option.splits)

theorem attributeExit_keeps_first_result_witness:
  "\<exists>r. attributeExit (Some ContextCanceled) True (Some (Text ''boom'')) None = Some r
     \<and> set (leaves (Text ''boom'')) \<subseteq> set (leaves r)"
  using attributeExit_keeps_first_result [of "Some ContextCanceled" "Text ''boom''" None]
  by (auto simp: leafMatches_def)

text \<open>
  Save outcomes resolve outermost first: if no marker occurs above depth \<open>d\<close> and some occur at
  \<open>d\<close>, the verdict is theirs when they agree and unknown when they do not, whatever lies deeper;
  a tree without markers resolves to unknown.
\<close>

theorem SaveOutcome_shallowest_markers:
  "(\<forall>d. votes_at d e = []) \<and> SaveOutcome (Some e) = AppendOutcomeUnknown \<or>
   (\<exists>d. votes_at d e \<noteq> [] \<and> list_all (\<lambda>k. votes_at k e = []) [0..<d]
      \<and> SaveOutcome (Some e) = consensus (votes_at d e))"
proof (cases "\<forall>d. votes_at d e = []")
  case True
  then show ?thesis by (simp add: SaveOutcome_def resolve_levels_unmarked)
next
  case False
  define d where "d = (LEAST d. votes_at d e \<noteq> [])"
  have "votes_at d e \<noteq> []" using False unfolding d_def by (metis (mono_tags, lifting) LeastI)
  moreover have "votes_at k e = []" if "k < d" for k
    using that not_less_Least unfolding d_def by blast
  ultimately show ?thesis
    using resolve_levels_shallowest [of d "[e]"]
    by (auto simp: SaveOutcome_def list_all_iff)
qed

end
