(* ===== verification/Utf8.thy ===== *)
theory Utf8
  imports Prelude
begin

text \<open>
  What \<open>encoding/json\<close> does to a Go string. A Go string is any byte sequence, JSON text is UTF-8: the
  encoder reads the string rune by rune and writes \<open>U+FFFD\<close> for every byte that starts none, so a string
  that is encoded and decoded again comes back with each such byte replaced, and unchanged exactly
  when it was UTF-8.
\<close>

section \<open>Runes\<close>

definition byte_in :: "nat \<Rightarrow> nat \<Rightarrow> char \<Rightarrow> bool" where
  "byte_in lo hi c \<longleftrightarrow> lo \<le> of_char c \<and> of_char c \<le> hi"

abbreviation continuation :: "char \<Rightarrow> bool" where
  "continuation \<equiv> byte_in 128 191"

text \<open>
  The runes of one to four bytes a string may start with. Overlong forms, surrogates and code points
  above \<open>U+10FFFF\<close> are none (\<open>utf8.DecodeRuneInString\<close>).
\<close>

fun rune1 :: "string \<Rightarrow> bool" where
  "rune1 (c # s) = byte_in 0 127 c"
| "rune1 s = False"

fun rune2 :: "string \<Rightarrow> bool" where
  "rune2 (c # c1 # s) = (byte_in 194 223 c \<and> continuation c1)"
| "rune2 s = False"

fun rune3 :: "string \<Rightarrow> bool" where
  "rune3 (c # c1 # c2 # s) = (byte_in 224 239 c
     \<and> byte_in (if byte_in 224 224 c then 160 else 128) (if byte_in 237 237 c then 159 else 191) c1 \<and> continuation c2)"
| "rune3 s = False"

fun rune4 :: "string \<Rightarrow> bool" where
  "rune4 (c # c1 # c2 # c3 # s) = (byte_in 240 244 c
     \<and> byte_in (if byte_in 240 240 c then 144 else 128) (if byte_in 244 244 c then 143 else 191) c1
     \<and> continuation c2 \<and> continuation c3)"
| "rune4 s = False"

text \<open>The width of the rune a string starts with, 0 when its first byte starts none.\<close>

definition rune_width :: "string \<Rightarrow> nat" where
  "rune_width s = (if rune1 s then 1 else if rune2 s then 2 else if rune3 s then 3 else if rune4 s then 4 else 0)"

text \<open>\<open>U+FFFD\<close> in UTF-8.\<close>

definition replacement_rune :: string where
  "replacement_rune = [char_of (239 :: nat), char_of (191 :: nat), char_of (189 :: nat)]"

text \<open>A string as JSON carries it.\<close>

fun to_utf8 :: "string \<Rightarrow> string" where
  "to_utf8 [] = []"
| "to_utf8 (c # s) = (case rune_width (c # s) of
     0 \<Rightarrow> replacement_rune @ to_utf8 s
   | Suc n \<Rightarrow> c # take n s @ to_utf8 (drop n s))"

definition is_utf8 :: "string \<Rightarrow> bool" where
  "is_utf8 s \<longleftrightarrow> to_utf8 s = s"

section \<open>Coercion is idempotent\<close>

text \<open>A rune is recognised by its own bytes, whatever follows.\<close>

lemma rune1_take: "rune1 s \<Longrightarrow> rune1 (take 1 s @ t) \<and> 1 \<le> length s"
  by (cases s) simp_all

lemma rune2_take: "rune2 s \<Longrightarrow> rune2 (take 2 s @ t) \<and> \<not> rune1 (take 2 s @ t) \<and> 2 \<le> length s"
  by (cases s rule: rune2.cases) (auto simp: byte_in_def split: if_splits)

lemma rune3_take: "rune3 s \<Longrightarrow> rune3 (take 3 s @ t) \<and> \<not> rune1 (take 3 s @ t) \<and> \<not> rune2 (take 3 s @ t) \<and> 3 \<le> length s"
  by (cases s rule: rune3.cases) (auto simp: byte_in_def split: if_splits)

lemma rune4_take: "rune4 s \<Longrightarrow> rune4 (take 4 s @ t) \<and> \<not> rune1 (take 4 s @ t) \<and> \<not> rune2 (take 4 s @ t)
    \<and> \<not> rune3 (take 4 s @ t) \<and> 4 \<le> length s"
  by (cases s rule: rune4.cases) (auto simp: byte_in_def split: if_splits)

lemma rune_width_take:
  assumes "rune_width s = Suc n"
  shows "rune_width (take (Suc n) s @ t) = Suc n \<and> Suc n \<le> length s"
proof -
  consider "Suc n = 1" "rune1 s" | "Suc n = 2" "rune2 s" | "Suc n = 3" "rune3 s" | "Suc n = 4" "rune4 s"
    using assms by (auto simp: rune_width_def split: if_splits)
  then show ?thesis
  proof cases
    case 1
    then show ?thesis using rune1_take [of s t] by (simp only: rune_width_def if_True)
  next
    case 2
    then show ?thesis using rune2_take [of s t] by (simp only: rune_width_def if_True if_False)
  next
    case 3
    then show ?thesis using rune3_take [of s t] by (simp only: rune_width_def if_True if_False)
  next
    case 4
    then show ?thesis using rune4_take [of s t] by (simp only: rune_width_def if_True if_False)
  qed
qed

lemma rune_width_replacement [simp]: "rune_width (replacement_rune @ t) = 3"
  by (simp add: rune_width_def replacement_rune_def byte_in_def)

lemma to_utf8_rune:
  assumes "rune_width s = Suc n"
  shows "to_utf8 (take (Suc n) s @ t) = take (Suc n) s @ to_utf8 t"
proof (cases s)
  case (Cons c r)
  have "rune_width (c # take n r @ t) = Suc n" "n \<le> length r"
    using rune_width_take [OF assms, of t] Cons by simp_all
  then show ?thesis using Cons by simp
qed (use assms in \<open>simp add: rune_width_def\<close>)

lemma to_utf8_replacement [simp]: "to_utf8 (replacement_rune @ t) = replacement_rune @ to_utf8 t"
  using to_utf8_rune [of replacement_rune 2 t] rune_width_replacement [of "[]"]
  by (simp add: replacement_rune_def numeral_2_eq_2 numeral_3_eq_3)

lemma to_utf8_idem [simp]: "to_utf8 (to_utf8 s) = to_utf8 s"
proof (induction s rule: to_utf8.induct)
  case (2 c s)
  show ?case
  proof (cases "rune_width (c # s)")
    case 0
    then show ?thesis using 2(1) by simp
  next
    case (Suc n)
    then show ?thesis
      using 2(2) [OF Suc] to_utf8_rune [OF Suc, of "to_utf8 (drop n s)"] by simp
  qed
qed simp

lemma is_utf8_coerced [simp]: "is_utf8 (to_utf8 s)"
  by (simp add: is_utf8_def)

text \<open>ASCII text, an ASCII prefix included, is left alone.\<close>

lemma to_utf8_ascii [simp]: "byte_in 0 127 c \<Longrightarrow> to_utf8 (c # s) = c # to_utf8 s"
  by (simp add: rune_width_def)

declare to_utf8.simps(2) [simp del]

lemma ascii_is_utf8: "list_all (byte_in 0 127) s \<Longrightarrow> is_utf8 s"
  unfolding is_utf8_def by (induction s) simp_all

lemma hasPrefix_to_utf8:
  "list_all (byte_in 0 127) p \<Longrightarrow> to_utf8 (p @ s) = p @ to_utf8 s"
  by (induction p) simp_all

section \<open>Metadata\<close>

text \<open>
  A string map: keys and values are coerced, and of several keys with the same coercion the last one
  in byte order, the order the encoder writes them in, is the one the decoder keeps.
\<close>

definition utf8_dict :: "(string \<rightharpoonup> string) \<Rightarrow> string \<rightharpoonup> string" where
  "utf8_dict m k = (let ks = {j \<in> dom m. to_utf8 j = k} in
     if ks = {} then None else Some (to_utf8 (the (m (Max ks)))))"

declare utf8_dict_def [code del]

lemma utf8_dict_empty [simp]: "utf8_dict Map.empty = Map.empty"
  by (simp add: fun_eq_iff utf8_dict_def)

lemma utf8_dict_keys:
  assumes "\<And>j. j \<in> dom m \<Longrightarrow> is_utf8 j"
  shows "utf8_dict m k = map_option to_utf8 (m k)"
proof -
  have "j \<in> dom m \<Longrightarrow> to_utf8 j = j" for j using assms by (simp add: is_utf8_def)
  then have "j \<in> dom m \<and> to_utf8 j = k \<longleftrightarrow> k \<in> dom m \<and> j = k" for j by metis
  then have "{j \<in> dom m. to_utf8 j = k} = (if k \<in> dom m then {k} else {})" by simp
  then show ?thesis by (auto simp: utf8_dict_def)
qed

lemma utf8_dict_id:
  assumes "\<And>j v. m j = Some v \<Longrightarrow> is_utf8 j \<and> is_utf8 v"
  shows "utf8_dict m = m"
proof
  fix k
  have "utf8_dict m k = map_option to_utf8 (m k)" using assms by (intro utf8_dict_keys) blast
  then show "utf8_dict m k = m k" using assms [of k] by (cases "m k") (auto simp: is_utf8_def)
qed

lemma utf8_dict_idem [simp]: "utf8_dict (utf8_dict m) = utf8_dict m"
  by (rule utf8_dict_id) (auto simp: utf8_dict_def Let_def split: if_splits)

end
