(* ===== verification/EventStore.thy ===== *)
theory EventStore
  imports GoErrors Utf8
begin

text \<open>
  The event store interface's data (\<open>eventstore/event_store.go\<close>) and the in-memory event store
  (\<open>eventstore/memory/event_store.go\<close>, \<open>stream_iterator.go\<close>), operation by operation.
  A Go slice of envelopes is a list, the stream map a partial function keyed by the text form of
  the stream ID. The values an append draws from outside (the UUID and the clock reading of each
  event) are arguments. The mutex makes each operation atomic, so each is one function on the
  store.
\<close>

section \<open>Events and options\<close>

type_synonym metadata = "(string \<rightharpoonup> string) option"

record event =
  ev_ID :: typeid
  ev_StreamID :: typeid
  ev_StreamVersion :: int64
  ev_GlobalPosition :: "int64 option"
  ev_Timestamp :: time
  ev_Data :: bytes
  ev_DataContentType :: string
  ev_Metadata :: metadata

record writable_event =
  we_Type :: string
  we_Data :: bytes
  we_DataContentType :: string
  we_Metadata :: metadata

datatype read_direction = Forward | Reverse

record read_stream_options =
  rs_AfterVersion :: int64
  rs_Count :: int64
  rs_Direction :: read_direction

record append_stream_options =
  ExpectVersion :: "int64 option"
  StreamMustNotExist :: bool

record read_all_options =
  AfterPosition :: int64
  ra_Count :: int64

record delete_stream_options =
  ToVersion :: int64

definition VersionPtr :: "int64 \<Rightarrow> int64 option" where
  "VersionPtr v = Some v"

definition ReservedMetadataPrefix :: string where
  "ReservedMetadataPrefix = ''estoria.''"

definition ReservedStreamTypePrefix :: string where
  "ReservedStreamTypePrefix = ''estoria.''"

text \<open>\<open>reservedstream.ProjectionStreamType\<close> and \<open>reservedstream.Allowed\<close>.\<close>

definition ProjectionStreamType :: string where
  "ProjectionStreamType = ''estoria.projection''"

definition reserved_Allowed :: "string \<Rightarrow> bool" where
  "reserved_Allowed streamType \<longleftrightarrow> streamType = ProjectionStreamType"

text \<open>
  \<open>Collect\<close> over any iterator, given by its \<open>Next\<close>. It returns the events read and the error
  that ended the reading, nil at the end of the stream; \<open>None\<close> is a loop that never ends.
\<close>

partial_function (option) collect_loop ::
  "('i \<Rightarrow> event result \<times> 'i) \<Rightarrow> 'i \<Rightarrow> event list \<Rightarrow> (event list \<times> go_error option) option"
where
  "collect_loop nxt iter events =
     (case nxt iter of
        (Inl err, iter') \<Rightarrow>
          if errors_is err ErrEndOfEventStream then Some (events, None)
          else Some (events, Some (fmt_wrap ''reading event'' err))
      | (Inr event, iter') \<Rightarrow> collect_loop nxt iter' (events @ [event]))"

definition Collect_iter ::
  "('i \<Rightarrow> event result \<times> 'i) \<Rightarrow> 'i \<Rightarrow> (event list \<times> go_error option) option" where
  "Collect_iter nxt iter = collect_loop nxt iter []"

section \<open>The wire form\<close>

text \<open>
  The memory store keeps events JSON-encoded. The envelope is kept here as the value tree that
  \<open>encoding/json\<close> writes, with scalar leaves as values: byte slices (base64), instants
  (RFC 3339) and UUIDs (their text codec). A string leaf, a key of a map included, is the text JSON
  carries, \<open>to_utf8\<close> of the Go string, both when it is written and when it is read. Encoding an
  instant outside the years 0 to 9999 fails, the only failure of this struct's encoding. A nil map
  is \<open>null\<close>.
\<close>

datatype json =
    JNull
  | JInt int
  | JString string
  | JBytes bytes
  | JTime time
  | JUuid uuid
  | JDict "string \<rightharpoonup> string"
  | JObject "(string \<times> json) list"

definition json_year_ok :: "time \<Rightarrow> bool" where
  "json_year_ok t \<longleftrightarrow> - 31622400000000000 \<le> t \<and> t < 315537897600000000000"

definition json_typeid :: "typeid \<Rightarrow> json" where
  "json_typeid i = JObject [(''Type'', JString (to_utf8 (id_type i))), (''UUID'', JUuid (id_uuid i))]"

definition json_marshal :: "event \<Rightarrow> json option" where
  "json_marshal e =
     (if json_year_ok (ev_Timestamp e) then Some (JObject
        [(''ID'', json_typeid (ev_ID e)),
         (''StreamID'', json_typeid (ev_StreamID e)),
         (''StreamVersion'', JInt (ev_StreamVersion e)),
         (''GlobalPosition'', case ev_GlobalPosition e of None \<Rightarrow> JNull | Some p \<Rightarrow> JInt p),
         (''Timestamp'', JTime (ev_Timestamp e)),
         (''Data'', JBytes (ev_Data e)),
         (''DataContentType'', JString (to_utf8 (ev_DataContentType e))),
         (''Metadata'', case ev_Metadata e of None \<Rightarrow> JNull | Some m \<Rightarrow> JDict (utf8_dict m))])
      else None)"

fun unjson_typeid :: "json \<Rightarrow> typeid option" where
  "unjson_typeid (JObject fs) = (case (map_of fs ''Type'', map_of fs ''UUID'') of
     (Some (JString t), Some (JUuid u)) \<Rightarrow> Some (New_id (to_utf8 t) u) | _ \<Rightarrow> None)"
| "unjson_typeid _ = None"

text \<open>Decoding into a fresh event; a field of the wrong kind fails the decoding.\<close>

fun json_unmarshal :: "json \<Rightarrow> event option" where
  "json_unmarshal (JObject fs) =
     (case (map_of fs ''ID'', map_of fs ''StreamID'') of
        (Some i, Some s) \<Rightarrow>
       (case (unjson_typeid i, unjson_typeid s,
              map_of fs ''StreamVersion'', map_of fs ''GlobalPosition'', map_of fs ''Timestamp'',
              map_of fs ''Data'', map_of fs ''DataContentType'', map_of fs ''Metadata'') of
          (Some ii, Some si, Some (JInt v), Some gp, Some (JTime t), Some (JBytes d),
           Some (JString ct), Some md) \<Rightarrow>
         (case (case gp of JNull \<Rightarrow> Some None | JInt p \<Rightarrow> Some (Some p) | _ \<Rightarrow> None,
                case md of JNull \<Rightarrow> Some None | JDict m \<Rightarrow> Some (Some (utf8_dict m)) | _ \<Rightarrow> None) of
            (Some gp', Some md') \<Rightarrow> Some \<lparr>ev_ID = ii, ev_StreamID = si, ev_StreamVersion = v,
               ev_GlobalPosition = gp', ev_Timestamp = t, ev_Data = d, ev_DataContentType = to_utf8 ct,
               ev_Metadata = md'\<rparr>
          | _ \<Rightarrow> None)
        | _ \<Rightarrow> None)
      | _ \<Rightarrow> None)"
| "json_unmarshal _ = None"

section \<open>The memory store's state\<close>

record stream =
  firstVersion :: int64
  stream_events :: "json list"

definition tip :: "stream \<Rightarrow> int64" where
  "tip s = wrap64 (firstVersion s + int (length (stream_events s)) - 1)"

record global_log_entry =
  gl_position :: int64
  gl_streamID :: string
  gl_version :: int64
  gl_data :: json

record event_store =
  streams :: "string \<rightharpoonup> stream"
  globalLog :: "global_log_entry list"
  globalCounter :: int64

definition NewEventStore :: event_store where
  "NewEventStore = \<lparr>streams = Map.empty, globalLog = [], globalCounter = 0\<rparr>"

section \<open>Appending\<close>

text \<open>
  The loop over the writable events, from index \<open>i\<close>. It returns the transaction and the decoded
  events, or the encoding error, together with the counter: positions a failed append consumed
  stay consumed.
\<close>

fun append_loop ::
  "(nat \<Rightarrow> uuid) \<Rightarrow> (nat \<Rightarrow> time) \<Rightarrow> typeid \<Rightarrow> string \<Rightarrow> int64 \<Rightarrow> nat \<Rightarrow> writable_event list \<Rightarrow> int64
   \<Rightarrow> (global_log_entry list \<times> event list) result \<times> int64"
where
  "append_loop fresh now streamID key currentVersion i [] counter = (Inr ([], []), counter)"
| "append_loop fresh now streamID key currentVersion i (w # ws) counter =
     (let globalPos = wrap64 (counter + 1);
          ev = \<lparr>ev_ID = NewV4 (fresh i) (we_Type w), ev_StreamID = streamID,
                ev_StreamVersion = wrap64 (currentVersion + int i + 1),
                ev_GlobalPosition = Some globalPos, ev_Timestamp = now i,
                ev_Data = we_Data w, ev_DataContentType = we_DataContentType w,
                ev_Metadata = we_Metadata w\<rparr>
      in case json_marshal ev of
        None \<Rightarrow> (Inl (Wrap (EventMarshalingError streamID (ev_ID ev)) (Text ''json'')), globalPos)
      | Some data \<Rightarrow>
        (case json_unmarshal data of
           None \<Rightarrow> (Inl (Wrap (EventUnmarshalingError streamID (ev_ID ev)) (Text ''json'')), globalPos)
         | Some readBack \<Rightarrow>
           (case append_loop fresh now streamID key currentVersion (Suc i) ws globalPos of
              (Inl e, c) \<Rightarrow> (Inl e, c)
            | (Inr (tx, written), c) \<Rightarrow>
                (Inr (\<lparr>gl_position = globalPos, gl_streamID = key,
                       gl_version = ev_StreamVersion ev, gl_data = data\<rparr> # tx,
                      readBack # written), c))))"

definition AppendStream ::
  "(uuid \<Rightarrow> string) \<Rightarrow> (nat \<Rightarrow> uuid) \<Rightarrow> (nat \<Rightarrow> time) \<Rightarrow> event_store \<Rightarrow> typeid \<Rightarrow> writable_event list
   \<Rightarrow> append_stream_options \<Rightarrow> event list result \<times> event_store"
where
  "AppendStream ustr fresh now st streamID evs opts =
     (if ExpectVersion opts \<noteq> None \<and> StreamMustNotExist opts
      then (Inl (Text ''ExpectVersion and StreamMustNotExist are mutually exclusive''), st)
      else
        let key = id_string ustr streamID;
            entry = (case streams st key of
                       Some s \<Rightarrow> s | None \<Rightarrow> \<lparr>firstVersion = 1, stream_events = []\<rparr>);
            st1 = st\<lparr>streams := (streams st)(key \<mapsto> entry)\<rparr>;
            currentVersion = tip entry
        in if StreamMustNotExist opts \<and> 0 < currentVersion
           then (Inl (StreamVersionMismatchError streamID 0 currentVersion), st1)
           else if ExpectVersion opts \<noteq> None \<and> ExpectVersion opts \<noteq> Some currentVersion
           then (Inl (StreamVersionMismatchError streamID (the (ExpectVersion opts)) currentVersion), st1)
           else case append_loop fresh now streamID key currentVersion 0 evs (globalCounter st1) of
               (Inl e, c) \<Rightarrow> (Inl e, st1\<lparr>globalCounter := c\<rparr>)
             | (Inr (tx, written), c) \<Rightarrow>
                 (Inr written,
                  st1\<lparr>streams := (streams st1)(key \<mapsto>
                         entry\<lparr>stream_events := stream_events entry @ map gl_data tx\<rparr>),
                      globalLog := globalLog st1 @ tx,
                      globalCounter := c\<rparr>))"

section \<open>Iterators\<close>

text \<open>A closed iterator has no events slice. The receiver is never nil in the code that calls it.\<close>

record stream_iterator =
  it_streamID :: "typeid option"
  it_events :: "json list option"
  it_cursor :: int64
  it_direction :: read_direction
  it_limit :: int64
  it_retrieved :: int64

definition Next :: "stream_iterator \<Rightarrow> event result \<times> stream_iterator" where
  "Next i = (case it_events i of
     None \<Rightarrow> (Inl (Sentinel ErrStreamIteratorClosed), i)
   | Some evs \<Rightarrow>
       if it_direction i = Forward \<and> int (length evs) \<le> it_cursor i
       then (Inl (Sentinel ErrEndOfEventStream), i)
       else if it_direction i = Reverse \<and> it_cursor i < 0
       then (Inl (Sentinel ErrEndOfEventStream), i)
       else if 0 < it_limit i \<and> it_limit i \<le> it_retrieved i
       then (Inl (Sentinel ErrEndOfEventStream), i)
       else if it_cursor i < 0 \<or> int (length evs) \<le> it_cursor i
       then (Inl (Text ''panic: index out of range''), i)
       else
         let data = evs ! nat (it_cursor i);
             i' = i\<lparr>it_cursor := wrap64 (if it_direction i = Reverse then it_cursor i - 1
                                         else it_cursor i + 1),
                    it_retrieved := wrap64 (it_retrieved i + 1)\<rparr>
         in case json_unmarshal data of
              None \<Rightarrow> (Inl (Wrap (EventUnmarshalingError
                        (case it_streamID i of None \<Rightarrow> New_id '''' 0 | Some s \<Rightarrow> s)
                        (New_id '''' 0)) (Text ''json'')), i')
            | Some ev \<Rightarrow> (Inr ev, i'))"

definition Close_iter :: "stream_iterator \<Rightarrow> stream_iterator" where
  "Close_iter i = i\<lparr>it_events := None\<rparr>"

section \<open>Reading\<close>

definition startCursor :: "stream \<Rightarrow> read_stream_options \<Rightarrow> int64" where
  "startCursor entry opts =
     (if rs_Direction opts \<noteq> Reverse then
        let cursor = wrap64 (rs_AfterVersion opts - firstVersion entry + 1)
        in if 0 < cursor then cursor else 0
      else if rs_AfterVersion opts \<le> 0 then int (length (stream_events entry)) - 1
      else
        let cursor = wrap64 (rs_AfterVersion opts - firstVersion entry)
        in if cursor < int (length (stream_events entry)) then cursor
           else int (length (stream_events entry)) - 1)"

text \<open>A stream that has no entry, or an entry nothing was ever committed to, was never written.\<close>

definition never_written :: "stream option \<Rightarrow> bool" where
  "never_written entry = (case entry of
     None \<Rightarrow> True
   | Some s \<Rightarrow> stream_events s = [] \<and> firstVersion s = 1)"

definition ReadStream ::
  "(uuid \<Rightarrow> string) \<Rightarrow> event_store \<Rightarrow> typeid \<Rightarrow> read_stream_options \<Rightarrow> stream_iterator result" where
  "ReadStream ustr st streamID opts =
     (let entry = streams st (id_string ustr streamID)
      in if never_written entry then Inl (Sentinel ErrStreamNotFound)
         else Inr \<lparr>it_streamID = Some streamID,
                   it_events = Some (stream_events (the entry)),
                   it_cursor = startCursor (the entry) opts,
                   it_direction = rs_Direction opts,
                   it_limit = (if 0 < rs_Count opts then rs_Count opts else 0),
                   it_retrieved = 0\<rparr>)"

text \<open>
  \<open>sort.Search(n, f)\<close>: binary search for the least index in \<open>[lo, hi)\<close> at which \<open>f\<close> holds.
\<close>

function sort_search :: "(nat \<Rightarrow> bool) \<Rightarrow> nat \<Rightarrow> nat \<Rightarrow> nat" where
  "sort_search f lo hi =
     (if lo < hi then
        let h = (lo + hi) div 2
        in if \<not> f h then sort_search f (h + 1) hi else sort_search f lo h
      else lo)"
  by pat_completeness auto
termination
  by (relation "measure (\<lambda>(f, lo, hi). hi - lo)") auto

declare sort_search.simps [simp del]

definition ReadAll :: "event_store \<Rightarrow> read_all_options \<Rightarrow> stream_iterator" where
  "ReadAll st opts =
     (let start = sort_search (\<lambda>i. AfterPosition opts < gl_position (globalLog st ! i)) 0
                    (length (globalLog st))
      in \<lparr>it_streamID = None,
          it_events = Some (map gl_data (drop start (globalLog st))),
          it_cursor = 0,
          it_direction = Forward,
          it_limit = (if 0 < ra_Count opts then ra_Count opts else 0),
          it_retrieved = 0\<rparr>)"

section \<open>Deleting\<close>

definition dropFromGlobalLog ::
  "global_log_entry list \<Rightarrow> string \<Rightarrow> int64 \<Rightarrow> global_log_entry list" where
  "dropFromGlobalLog gl streamID toVersion =
     filter (\<lambda>entry. \<not> (gl_streamID entry = streamID \<and> gl_version entry \<le> toVersion)) gl"

definition DeleteStream ::
  "(uuid \<Rightarrow> string) \<Rightarrow> event_store \<Rightarrow> typeid \<Rightarrow> delete_stream_options
   \<Rightarrow> go_error option \<times> event_store" where
  "DeleteStream ustr st streamID opts =
     (if ToVersion opts < 0 then (Some (Text ''ToVersion must not be negative''), st)
      else
        let key = id_string ustr streamID
        in if never_written (streams st key) then (Some (Sentinel ErrStreamNotFound), st)
           else
             let entry = the (streams st key)
             in if ToVersion opts = 0
                then (None, st\<lparr>streams := (streams st)(key := None),
                               globalLog := dropFromGlobalLog (globalLog st) key max_int64\<rparr>)
                else
                  let cut = min (ToVersion opts) (tip entry);
                      removed = wrap64 (cut - firstVersion entry + 1)
                  in if removed \<le> 0 then (None, st)
                     else (None, st\<lparr>streams := (streams st)(key \<mapsto>
                               entry\<lparr>stream_events := drop (nat removed) (stream_events entry),
                                     firstVersion := wrap64 (cut + 1)\<rparr>),
                             globalLog := dropFromGlobalLog (globalLog st) key cut\<rparr>))"

end
