(* ===== verification/Iterators.thy ===== *)
theory Iterators
  imports EventStore
begin

text \<open>
  What reading through the memory store's iterator yields. The wire form decodes to the event that
  was encoded, its strings as JSON carries them (\<open>wire_event\<close>); an iterator yields exactly its \<open>remaining\<close> envelopes, in order, and then the end of
  the stream, so \<open>Collect\<close> terminates on it and the index it uses is always in range.
\<close>

section \<open>The wire round trip\<close>

text \<open>An event as the wire returns it: every string of it coerced to UTF-8.\<close>

definition wire_id :: "typeid \<Rightarrow> typeid" where
  "wire_id i = New_id (to_utf8 (id_type i)) (id_uuid i)"

definition wire_event :: "event \<Rightarrow> event" where
  "wire_event e = e\<lparr>ev_ID := wire_id (ev_ID e), ev_StreamID := wire_id (ev_StreamID e),
     ev_DataContentType := to_utf8 (ev_DataContentType e), ev_Metadata := map_option utf8_dict (ev_Metadata e)\<rparr>"

lemma wire_id_simps [simp]:
  "id_type (wire_id i) = to_utf8 (id_type i)" "id_uuid (wire_id i) = id_uuid i"
  "wire_id (wire_id i) = wire_id i" "wire_id (New_id t u) = New_id (to_utf8 t) u"
  by (simp_all add: wire_id_def New_id_def)

lemma wire_id_utf8: "is_utf8 (id_type i) \<Longrightarrow> wire_id i = i"
  by (simp add: wire_id_def is_utf8_def New_id_def)

lemma wire_event_simps [simp]:
  "ev_ID (wire_event e) = wire_id (ev_ID e)" "ev_StreamID (wire_event e) = wire_id (ev_StreamID e)"
  "ev_StreamVersion (wire_event e) = ev_StreamVersion e" "ev_GlobalPosition (wire_event e) = ev_GlobalPosition e"
  "ev_Timestamp (wire_event e) = ev_Timestamp e" "ev_Data (wire_event e) = ev_Data e"
  "ev_DataContentType (wire_event e) = to_utf8 (ev_DataContentType e)"
  "ev_Metadata (wire_event e) = map_option utf8_dict (ev_Metadata e)"
  by (simp_all add: wire_event_def)

lemma wire_event_idem [simp]: "wire_event (wire_event e) = wire_event e"
  by (simp add: wire_event_def option.map_comp comp_def)

lemma unjson_json_typeid [simp]: "unjson_typeid (json_typeid i) = Some (wire_id i)"
  by (simp add: json_typeid_def wire_id_def)

lemma json_roundtrip: "json_marshal e = Some d \<Longrightarrow> json_unmarshal d = Some (wire_event e)"
  by (auto simp: json_marshal_def wire_event_def split: if_splits option.splits)

lemma json_marshal_wire [simp]: "json_marshal (wire_event e) = json_marshal e"
  by (simp add: json_marshal_def json_typeid_def split: option.splits)

lemma json_marshal_None_iff: "json_marshal e = None \<longleftrightarrow> \<not> json_year_ok (ev_Timestamp e)"
  by (simp add: json_marshal_def)

definition decode :: "json \<Rightarrow> event" where
  "decode d = the (json_unmarshal d)"

definition decodable :: "json \<Rightarrow> bool" where
  "decodable d \<longleftrightarrow> json_unmarshal d \<noteq> None"

lemma decodeI: "json_unmarshal d = Some e \<Longrightarrow> decodable d \<and> decode d = e"
  by (simp add: decodable_def decode_def)

section \<open>What is left in an iterator\<close>

definition ahead :: "stream_iterator \<Rightarrow> json list" where
  "ahead i = (case it_events i of
     None \<Rightarrow> []
   | Some evs \<Rightarrow> if it_direction i = Forward then drop (nat (it_cursor i)) evs
                else rev (take (nat (it_cursor i + 1)) evs))"

definition remaining :: "stream_iterator \<Rightarrow> json list" where
  "remaining i =
     (if 0 < it_limit i then take (nat (it_limit i - it_retrieved i)) (ahead i) else ahead i)"

definition iter_ok :: "stream_iterator \<Rightarrow> bool" where
  "iter_ok i \<longleftrightarrow> (\<exists>evs. it_events i = Some evs \<and> list_all decodable evs
     \<and> int (length evs) \<le> max_int64
     \<and> (if it_direction i = Forward then 0 \<le> it_cursor i \<and> it_cursor i \<le> max_int64
        else - max_int64 \<le> it_cursor i \<and> it_cursor i < int (length evs))
     \<and> 0 \<le> it_retrieved i \<and> it_retrieved i + int (length (ahead i)) \<le> max_int64)"

lemma take_nat_Suc: "0 \<le> c \<Longrightarrow> c < int (length xs) \<Longrightarrow>
    rev (take (nat (c + 1)) xs) = xs ! nat c # rev (take (nat c) xs)"
proof -
  assume "0 \<le> c" "c < int (length xs)"
  then have "nat (c + 1) = Suc (nat c)" "nat c < length xs" by linarith+
  then show ?thesis by (simp add: take_Suc_conv_app_nth)
qed

lemma not_direction [simp]: "d \<noteq> Reverse \<longleftrightarrow> d = Forward" "d \<noteq> Forward \<longleftrightarrow> d = Reverse"
  by (cases d; simp)+

lemma drop_ConsD: "drop n xs = y # ys \<Longrightarrow> n < length xs \<and> xs ! n = y \<and> drop (Suc n) xs = ys"
  by (metis Cons_nth_drop_Suc drop_all list.distinct(1) list.inject not_le)

lemma rev_take_ConsD: "rev (take (nat (c + 1)) xs) = y # ys \<Longrightarrow> 0 \<le> c"
  by (cases "0 \<le> c") simp_all

definition advanced :: "stream_iterator \<Rightarrow> stream_iterator" where
  "advanced i = i\<lparr>it_cursor := wrap64 (if it_direction i = Reverse then it_cursor i - 1
       else it_cursor i + 1), it_retrieved := wrap64 (it_retrieved i + 1)\<rparr>"

lemma ahead_Cons_forward:
  assumes "iter_ok i" "ahead i = x # xs" "it_events i = Some evs" "it_direction i = Forward"
  shows "0 \<le> it_cursor i \<and> it_cursor i < int (length evs) \<and> evs ! nat (it_cursor i) = x
    \<and> ahead (advanced i) = xs \<and> it_cursor (advanced i) = it_cursor i + 1"
proof -
  have c: "0 \<le> it_cursor i" and len: "int (length evs) \<le> max_int64"
    using assms(1,3,4) by (auto simp: iter_ok_def)
  have d: "nat (it_cursor i) < length evs \<and> evs ! nat (it_cursor i) = x
      \<and> drop (Suc (nat (it_cursor i))) evs = xs"
    using assms(2-4) by (auto simp: ahead_def dest: drop_ConsD)
  then have "wrap64 (it_cursor i + 1) = it_cursor i + 1" "nat (it_cursor i + 1) = Suc (nat (it_cursor i))"
    using c len by (auto intro!: wrap64_id in64_nonneg)
  then show ?thesis
    using c d assms(3,4) by (auto simp: ahead_def advanced_def)
qed

lemma ahead_Cons_reverse:
  assumes "iter_ok i" "ahead i = x # xs" "it_events i = Some evs" "it_direction i = Reverse"
  shows "0 \<le> it_cursor i \<and> it_cursor i < int (length evs) \<and> evs ! nat (it_cursor i) = x
    \<and> ahead (advanced i) = xs \<and> it_cursor (advanced i) = it_cursor i - 1"
proof -
  have hi: "it_cursor i < int (length evs)" and len: "int (length evs) \<le> max_int64"
    using assms(1,3,4) by (auto simp: iter_ok_def)
  have lo: "0 \<le> it_cursor i"
    using assms(2-4) rev_take_ConsD [of "it_cursor i" evs x xs] by (simp add: ahead_def)
  have "wrap64 (it_cursor i - 1) = it_cursor i - 1"
    using lo hi len by (intro wrap64_id in64I) (auto simp: min_int64_def max_int64_def)
  then show ?thesis
    using lo hi take_nat_Suc [OF lo hi] assms(2-4) by (auto simp: ahead_def advanced_def)
qed

lemma ahead_Cons:
  assumes "iter_ok i" "ahead i = x # xs" "it_events i = Some evs"
  shows "0 \<le> it_cursor i \<and> it_cursor i < int (length evs) \<and> evs ! nat (it_cursor i) = x
    \<and> decodable x \<and> ahead (advanced i) = xs \<and> iter_ok (advanced i)"
proof -
  have step: "0 \<le> it_cursor i \<and> it_cursor i < int (length evs) \<and> evs ! nat (it_cursor i) = x
      \<and> ahead (advanced i) = xs \<and> it_cursor (advanced i) =
        (if it_direction i = Reverse then it_cursor i - 1 else it_cursor i + 1)"
    using ahead_Cons_forward [OF assms] ahead_Cons_reverse [OF assms]
    by (cases "it_direction i") auto
  have ok: "list_all decodable evs" "int (length evs) \<le> max_int64" "0 \<le> it_retrieved i"
    "it_retrieved i + 1 + int (length xs) \<le> max_int64"
    using assms by (auto simp: iter_ok_def)
  then have "decodable x"
    using step by (metis list_all_length zless_nat_conj nat_int zless_nat_eq_int_zless nat_less_iff)
  moreover have "wrap64 (it_retrieved i + 1) = it_retrieved i + 1"
    using ok by (intro wrap64_id in64_nonneg) auto
  moreover have "it_direction (advanced i) = it_direction i" "it_events (advanced i) = Some evs"
    "it_retrieved (advanced i) = wrap64 (it_retrieved i + 1)"
    using assms(3) by (simp_all add: advanced_def)
  ultimately show ?thesis
    using step ok by (auto simp: iter_ok_def split: if_splits)
qed

lemma Next_end:
  assumes "iter_ok i" "remaining i = []"
  shows "Next i = (Inl (Sentinel ErrEndOfEventStream), i)"
  using assms
  by (cases "it_direction i")
    (auto simp: iter_ok_def Next_def remaining_def ahead_def split: if_splits)

lemma Next_yield:
  assumes "iter_ok i" "remaining i = x # xs"
  shows "Next i = (Inr (decode x), advanced i) \<and> iter_ok (advanced i) \<and> remaining (advanced i) = xs"
proof -
  obtain evs where evs: "it_events i = Some evs" using assms(1) by (auto simp: iter_ok_def)
  obtain ys where ys: "ahead i = x # ys"
    using assms(2) by (cases "ahead i") (auto simp: remaining_def split: if_splits nat.splits
        simp: take_Cons')
  note step = ahead_Cons [OF assms(1) ys evs]
  have lim: "0 < it_limit i \<longrightarrow> it_retrieved i < it_limit i"
    using assms(2) by (cases "it_retrieved i < it_limit i") (auto simp: remaining_def split: if_splits)
  have "wrap64 (it_retrieved i + 1) = it_retrieved i + 1"
    using assms(1) ys by (intro wrap64_id in64_nonneg) (auto simp: iter_ok_def)
  then have adv: "it_limit (advanced i) = it_limit i" "it_retrieved (advanced i) = it_retrieved i + 1"
    by (simp_all add: advanced_def)
  have "remaining (advanced i) = xs"
  proof (cases "0 < it_limit i")
    case True
    then have "nat (it_limit i - it_retrieved i) = Suc (nat (it_limit i - (it_retrieved i + 1)))"
      using lim by linarith
    then show ?thesis using assms(2) step True by (simp add: remaining_def ys adv)
  next
    case False
    then show ?thesis using assms(2) step by (simp add: remaining_def ys adv)
  qed
  moreover have "Next i = (Inr (decode x), advanced i)"
    using step evs lim
    by (auto simp: Next_def decode_def decodable_def advanced_def Let_def)
  ultimately show ?thesis using step by blast
qed

section \<open>Collecting\<close>

lemma collect_loop_remaining:
  assumes "iter_ok i"
  shows "collect_loop Next i acc = Some (acc @ map decode (remaining i), None)"
  using assms
proof (induction "remaining i" arbitrary: i acc)
  case Nil
  then show ?case by (simp add: collect_loop.simps [of Next i acc] Next_end)
next
  case (Cons x xs)
  then have "Next i = (Inr (decode x), advanced i)" "iter_ok (advanced i)"
    and rem: "remaining (advanced i) = xs"
    using Next_yield [of i x xs] by simp_all
  with Cons.hyps(1) [of "advanced i" "acc @ [decode x]"] Cons.hyps(2)
  show ?case by (simp add: collect_loop.simps [of Next i acc] flip: Cons.hyps(2))
qed

lemma Collect_remaining:
  "iter_ok i \<Longrightarrow> Collect_iter Next i = Some (map decode (remaining i), None)"
  by (simp add: Collect_iter_def collect_loop_remaining)

text \<open>The sequence of an iterator's results, for the code that consumes iterators.\<close>

fun iter_script :: "nat \<Rightarrow> stream_iterator \<Rightarrow> event result list" where
  "iter_script 0 i = []"
| "iter_script (Suc n) i = (case Next i of (r, i') \<Rightarrow> r # iter_script n i')"

lemma iter_script_remaining:
  "iter_ok i \<Longrightarrow> iter_script (Suc (length (remaining i))) i =
     map (Inr \<circ> decode) (remaining i) @ [Inl (Sentinel ErrEndOfEventStream)]"
proof (induction "remaining i" arbitrary: i)
  case Nil
  then show ?case by (simp add: Next_end flip: Nil.hyps)
next
  case (Cons x xs)
  then have "Next i = (Inr (decode x), advanced i)" "iter_ok (advanced i)"
    and rem: "remaining (advanced i) = xs"
    using Next_yield [of i x xs] by simp_all
  with Cons.hyps(1) [of "advanced i"] show ?case by (simp flip: Cons.hyps(2))
qed

end
