(* ===== verification/MemoryStore.thy ===== *)
theory MemoryStore
  imports Iterators
begin

text \<open>
  Correctness of the in-memory event store against what a client of the event store interface
  sees: \<open>stream_view\<close>, the first retained version and the events of one stream, and \<open>log_view\<close>,
  the events of the whole store in global order. The invariant \<open>wf_store\<close> says that the two
  structures the store keeps (per-stream envelopes and the global log) hold the same events, that
  versions are consecutive and positions strictly increasing. Every operation keeps it, and is
  characterised on the views.
\<close>

section \<open>Consecutive versions\<close>

fun consecutive :: "('a \<Rightarrow> int) \<Rightarrow> int \<Rightarrow> 'a list \<Rightarrow> bool" where
  "consecutive f v [] = True"
| "consecutive f v (x # xs) = (f x = v \<and> consecutive f (v + 1) xs)"

lemma consecutive_append [simp]:
  "consecutive f v (xs @ ys) \<longleftrightarrow> consecutive f v xs \<and> consecutive f (v + int (length xs)) ys"
  by (induction xs arbitrary: v) (auto simp: algebra_simps)

lemma consecutive_ge: "consecutive f v xs \<Longrightarrow> x \<in> set xs \<Longrightarrow> v \<le> f x \<and> f x < v + int (length xs)"
  by (induction xs arbitrary: v) fastforce+

lemma consecutive_drop: "consecutive f v xs \<Longrightarrow> consecutive f (v + int n) (drop n xs)"
proof (induction xs arbitrary: v n)
  case (Cons x xs)
  then show ?case
    using Cons.IH [of "v + 1" "n - 1"] by (cases n) (auto simp: algebra_simps)
qed simp

lemma consecutive_take: "consecutive f v xs \<Longrightarrow> consecutive f v (take n xs)"
  using consecutive_append [of f v "take n xs" "drop n xs"] by simp

lemma consecutive_filter_gt:
  "consecutive f v xs \<Longrightarrow> filter (\<lambda>x. b < f x) xs = drop (nat (b - v + 1)) xs"
proof (induction xs arbitrary: v)
  case (Cons x xs)
  then have IH: "filter (\<lambda>x. b < f x) xs = drop (nat (b - (v + 1) + 1)) xs" and fx: "f x = v" by auto
  show ?case
  proof (cases "b < v")
    case True
    then show ?thesis using IH fx by simp
  next
    case False
    then have "nat (b - v + 1) = Suc (nat (b - (v + 1) + 1))" by linarith
    then show ?thesis using IH fx False by simp
  qed
qed simp

lemma consecutive_filter_le:
  "consecutive f v xs \<Longrightarrow> filter (\<lambda>x. f x \<le> b) xs = take (nat (b - v + 1)) xs"
proof (induction xs arbitrary: v)
  case (Cons x xs)
  then have IH: "filter (\<lambda>x. f x \<le> b) xs = take (nat (b - (v + 1) + 1)) xs" and fx: "f x = v" by auto
  show ?case
  proof (cases "b < v")
    case True
    then show ?thesis using IH fx by simp
  next
    case False
    then have "nat (b - v + 1) = Suc (nat (b - (v + 1) + 1))" by linarith
    then show ?thesis using IH fx False by simp
  qed
qed simp

lemma consecutive_map: "consecutive f v (map g xs) \<longleftrightarrow> consecutive (f \<circ> g) v xs"
  by (induction xs arbitrary: v) auto

lemma consecutive_cong: "(\<And>x. x \<in> set xs \<Longrightarrow> f x = g x) \<Longrightarrow> consecutive f v xs = consecutive g v xs"
  by (induction xs arbitrary: v) auto

section \<open>The invariant and the views\<close>

definition log_of :: "string \<Rightarrow> global_log_entry list \<Rightarrow> global_log_entry list" where
  "log_of key gl = filter (\<lambda>g. gl_streamID g = key) gl"

definition entry_ok :: "(uuid \<Rightarrow> string) \<Rightarrow> global_log_entry \<Rightarrow> bool" where
  "entry_ok ustr g \<longleftrightarrow> decodable (gl_data g)
     \<and> ev_GlobalPosition (decode (gl_data g)) = Some (gl_position g)
     \<and> ev_StreamVersion (decode (gl_data g)) = gl_version g
     \<and> (\<exists>sid. gl_streamID g = id_string ustr sid \<and> ev_StreamID (decode (gl_data g)) = wire_id sid)"

definition wf_log :: "(uuid \<Rightarrow> string) \<Rightarrow> global_log_entry list \<Rightarrow> int64 \<Rightarrow> bool" where
  "wf_log ustr gl c \<longleftrightarrow> sorted_wrt (\<lambda>a b. gl_position a < gl_position b) gl
     \<and> (\<forall>g \<in> set gl. 1 \<le> gl_position g \<and> gl_position g \<le> c \<and> entry_ok ustr g)"

definition wf_stream :: "string \<Rightarrow> global_log_entry list \<Rightarrow> int64 \<Rightarrow> stream option \<Rightarrow> bool" where
  "wf_stream key gl c entry = (case entry of
     None \<Rightarrow> log_of key gl = []
   | Some s \<Rightarrow> 1 \<le> firstVersion s \<and> firstVersion s + int (length (stream_events s)) - 1 \<le> c
       \<and> map gl_data (log_of key gl) = stream_events s
       \<and> consecutive gl_version (firstVersion s) (log_of key gl))"

definition wf_store :: "(uuid \<Rightarrow> string) \<Rightarrow> event_store \<Rightarrow> bool" where
  "wf_store ustr st \<longleftrightarrow> 0 \<le> globalCounter st \<and> globalCounter st \<le> max_int64
     \<and> wf_log ustr (globalLog st) (globalCounter st)
     \<and> (\<forall>key. wf_stream key (globalLog st) (globalCounter st) (streams st key))"

definition stream_view :: "(uuid \<Rightarrow> string) \<Rightarrow> event_store \<Rightarrow> typeid \<Rightarrow> (int64 \<times> event list) option" where
  "stream_view ustr st i = (let entry = streams st (id_string ustr i) in
     if never_written entry then None
     else Some (firstVersion (the entry), map decode (stream_events (the entry))))"

definition log_view :: "event_store \<Rightarrow> event list" where
  "log_view st = map (decode \<circ> gl_data) (globalLog st)"

text \<open>The stream's latest version, 0 for a stream that was never written.\<close>

definition view_tip :: "(int64 \<times> event list) option \<Rightarrow> int64" where
  "view_tip v = (case v of None \<Rightarrow> 0 | Some (fv, evs) \<Rightarrow> fv + int (length evs) - 1)"

lemma log_of_append [store_simps]: "log_of k (xs @ ys) = log_of k xs @ log_of k ys"
  by (simp add: log_of_def)

lemma wf_store_New [store_simps]: "wf_store ustr NewEventStore"
  by (simp add: wf_store_def NewEventStore_def wf_log_def wf_stream_def log_of_def max_int64_def)

lemma wf_storeD:
  assumes "wf_store ustr st" "streams st key = Some s"
  shows "1 \<le> firstVersion s" "firstVersion s + int (length (stream_events s)) - 1 \<le> globalCounter st"
    "map gl_data (log_of key (globalLog st)) = stream_events s"
    "consecutive gl_version (firstVersion s) (log_of key (globalLog st))"
    "globalCounter st \<le> max_int64"
  using assms by (auto simp: wf_store_def wf_stream_def dest!: spec [of _ key])

lemma wf_store_entry:
  "wf_store ustr st \<Longrightarrow> g \<in> set (globalLog st) \<Longrightarrow> entry_ok ustr g"
  by (auto simp: wf_store_def wf_log_def)

lemma wf_store_events:
  assumes "wf_store ustr st" "streams st key = Some s"
  shows "list_all decodable (stream_events s)"
    and "consecutive ev_StreamVersion (firstVersion s) (map decode (stream_events s))"
    and "int (length (stream_events s)) \<le> max_int64"
proof -
  let ?l = "log_of key (globalLog st)"
  have ok: "entry_ok ustr g" if "g \<in> set ?l" for g
    using that wf_store_entry [OF assms(1)] by (simp add: log_of_def)
  have evs: "stream_events s = map gl_data ?l" using wf_storeD(3) [OF assms] by simp
  show "list_all decodable (stream_events s)"
    using ok by (auto simp: evs list_all_iff entry_ok_def)
  have "consecutive (ev_StreamVersion \<circ> decode \<circ> gl_data) (firstVersion s) ?l =
      consecutive gl_version (firstVersion s) ?l"
    by (rule consecutive_cong) (use ok in \<open>simp add: entry_ok_def\<close>)
  then show "consecutive ev_StreamVersion (firstVersion s) (map decode (stream_events s))"
    using wf_storeD(4) [OF assms] by (simp add: evs consecutive_map comp_assoc)
  show "int (length (stream_events s)) \<le> max_int64"
    using wf_storeD(1,2,5) [OF assms] by linarith
qed

lemma tip_wf:
  assumes "wf_store ustr st" "streams st key = Some s"
  shows "tip s = firstVersion s + int (length (stream_events s)) - 1"
  using wf_storeD [OF assms] unfolding tip_def
  by (intro wrap64_id in64_nonneg) linarith+

lemma tip_fresh [simp]: "tip \<lparr>firstVersion = 1, stream_events = []\<rparr> = 0"
  by (simp add: tip_def)

section \<open>Appending\<close>

text \<open>The event the store makes of the \<open>i\<close>-th writable event, as it is read back, and its log entry.\<close>

definition stored_event ::
  "(nat \<Rightarrow> uuid) \<Rightarrow> (nat \<Rightarrow> time) \<Rightarrow> typeid \<Rightarrow> int64 \<Rightarrow> int64 \<Rightarrow> nat \<times> writable_event \<Rightarrow> event" where
  "stored_event fresh now sid version counter = (\<lambda>(i, w). wire_event
     \<lparr>ev_ID = NewV4 (fresh i) (we_Type w), ev_StreamID = sid,
      ev_StreamVersion = version + int i + 1,
      ev_GlobalPosition = Some (counter + int i + 1), ev_Timestamp = now i,
      ev_Data = we_Data w, ev_DataContentType = we_DataContentType w,
      ev_Metadata = we_Metadata w\<rparr>)"

definition stored_entry :: "string \<Rightarrow> event \<Rightarrow> global_log_entry" where
  "stored_entry key e = \<lparr>gl_position = the (ev_GlobalPosition e), gl_streamID = key,
     gl_version = ev_StreamVersion e, gl_data = the (json_marshal e)\<rparr>"

lemma append_loop_result:
  assumes "0 \<le> base" "base + int (k + length ws) \<le> max_int64"
    "0 \<le> ver" "ver + int (k + length ws) \<le> max_int64"
    and run: "append_loop fresh now sid key ver k ws (base + int k) = (res, c)"
  shows "base \<le> c \<and> c \<le> base + int (k + length ws) \<and>
    (\<forall>tx written. res = Inr (tx, written) \<longrightarrow>
      c = base + int (k + length ws)
      \<and> written = map (stored_event fresh now sid ver base) (enumerate k ws)
      \<and> tx = map (stored_entry key) written
      \<and> (\<forall>e \<in> set written. json_marshal e \<noteq> None))"
  using assms
proof (induction ws arbitrary: k res c)
  case Nil
  then show ?case by auto
next
  case (Cons w ws)
  let ?ev = "stored_event fresh now sid ver base (k, w)"
  have wraps: "wrap64 (base + int k + 1) = base + int k + 1"
    "wrap64 (ver + int k + 1) = ver + int k + 1"
    using Cons.prems(1-4) by (auto intro!: wrap64_id in64_nonneg)
  have pos: "base + int k + 1 = base + int (Suc k)" by simp
  show ?case
  proof (cases "json_marshal ?ev")
    case None
    then show ?thesis
      using Cons.prems(5) Cons.prems(2) wraps by (auto simp: stored_event_def Let_def)
  next
    case (Some d)
    obtain res' c' where rest:
      "append_loop fresh now sid key ver (Suc k) ws (base + int (Suc k)) = (res', c')"
      by fastforce
    have IH: "base \<le> c' \<and> c' \<le> base + int (Suc k + length ws) \<and>
      (\<forall>tx written. res' = Inr (tx, written) \<longrightarrow>
        c' = base + int (Suc k + length ws)
        \<and> written = map (stored_event fresh now sid ver base) (enumerate (Suc k) ws)
        \<and> tx = map (stored_entry key) written
        \<and> (\<forall>e \<in> set written. json_marshal e \<noteq> None))"
      by (rule Cons.IH [OF _ _ _ _ rest]) (use Cons.prems in auto)
    show ?thesis
      using Cons.prems(5) IH rest Some json_roundtrip [OF Some] wraps
      by (auto simp: stored_event_def stored_entry_def Let_def pos add_ac
          split: sum.splits prod.splits)
  qed
qed

lemma append_loop_succeeds:
  assumes "0 \<le> base" "base + int (k + length ws) \<le> max_int64"
    "0 \<le> ver" "ver + int (k + length ws) \<le> max_int64"
    and "\<And>i. json_year_ok (now i)"
  shows "\<exists>x c. append_loop fresh now sid key ver k ws (base + int k) = (Inr x, c)"
  using assms(1-4)
proof (induction ws arbitrary: k)
  case (Cons w ws)
  have wraps: "wrap64 (base + int k + 1) = base + int (Suc k)"
    using Cons.prems by (subst wrap64_id) (auto intro!: in64_nonneg)
  obtain x c where rest:
    "append_loop fresh now sid key ver (Suc k) ws (base + int (Suc k)) = (Inr x, c)"
    using Cons.IH [of "Suc k"] Cons.prems by auto
  obtain tx written where x: "x = (tx, written)" by (cases x)
  let ?ev' = "\<lparr>ev_ID = NewV4 (fresh k) (we_Type w), ev_StreamID = sid, ev_StreamVersion = wrap64 (ver + int k + 1),
     ev_GlobalPosition = Some (base + int k + 1), ev_Timestamp = now k, ev_Data = we_Data w,
     ev_DataContentType = we_DataContentType w, ev_Metadata = we_Metadata w\<rparr>"
  obtain d where d: "json_marshal ?ev' = Some d"
    using json_marshal_None_iff [of ?ev'] assms(5) by (cases "json_marshal ?ev'") auto
  show ?case
    using d json_roundtrip [OF d] rest wraps x
    by (simp add: Let_def add_ac)
qed simp

lemma stored_event_simps [simp]:
  "ev_StreamID (stored_event fresh now sid ver base p) = wire_id sid"
  "ev_StreamVersion (stored_event fresh now sid ver base p) = ver + int (fst p) + 1"
  "ev_GlobalPosition (stored_event fresh now sid ver base p) = Some (base + int (fst p) + 1)"
  "wire_event (stored_event fresh now sid ver base p) = stored_event fresh now sid ver base p"
  by (cases p; simp add: stored_event_def)+

lemma stored_entry_decode:
  "json_marshal e \<noteq> None \<Longrightarrow> wire_event e = e \<Longrightarrow> decodable (gl_data (stored_entry key e)) \<and>
   decode (gl_data (stored_entry key e)) = e"
  using json_roundtrip [of e] by (auto simp: stored_entry_def intro!: decodeI)

lemma enumerate_consecutive:
  "(\<And>p. f p = v - int k + int (fst p)) \<Longrightarrow> consecutive f v (enumerate k ws)"
  by (induction ws arbitrary: k v) auto

text \<open>The transaction of a successful append, as one block of the log.\<close>

lemma stored_block:
  fixes fresh now sid ver base ws
  defines "written \<equiv> map (stored_event fresh now sid ver base) (enumerate 0 ws)"
  assumes "\<forall>e \<in> set written. json_marshal e \<noteq> None" "0 \<le> base" "key = id_string ustr sid"
  shows "map gl_data (map (stored_entry key) written) = map (the \<circ> json_marshal) written"
    "map (decode \<circ> gl_data) (map (stored_entry key) written) = written"
    "consecutive gl_version (ver + 1) (map (stored_entry key) written)"
    "log_of key (map (stored_entry key) written) = map (stored_entry key) written"
    "key' \<noteq> key \<Longrightarrow> log_of key' (map (stored_entry key) written) = []"
    "wf_log ustr (map (stored_entry key) written) (base + int (length ws))"
    "\<forall>g \<in> set (map (stored_entry key) written). base < gl_position g"
proof -
  let ?tx = "map (stored_entry key) written"
  have dec: "decodable (gl_data (stored_entry key e)) \<and> decode (gl_data (stored_entry key e)) = e"
    if "e \<in> set written" for e
    using stored_entry_decode [of e] assms(2) that by (auto simp: written_def)
  show "map gl_data ?tx = map (the \<circ> json_marshal) written"
    by (simp add: stored_entry_def)
  show "map (decode \<circ> gl_data) ?tx = written"
    using dec by (simp add: map_idI)
  show "consecutive gl_version (ver + 1) ?tx"
    unfolding written_def consecutive_map
    by (rule enumerate_consecutive) (simp add: stored_entry_def)
  show "log_of key ?tx = ?tx" "key' \<noteq> key \<Longrightarrow> log_of key' ?tx = []"
    by (auto simp: log_of_def stored_entry_def filter_empty_conv)
  have positions: "consecutive gl_position (base + 1) ?tx"
    unfolding written_def consecutive_map
    by (rule enumerate_consecutive) (simp add: stored_entry_def)
  have sorted: "consecutive gl_position v xs \<Longrightarrow> sorted_wrt (\<lambda>a b. gl_position a < gl_position b) xs"
    for v and xs :: "global_log_entry list"
    by (induction xs arbitrary: v) (auto dest: consecutive_ge)
  have bounds: "base + 1 \<le> gl_position g \<and> gl_position g \<le> base + int (length ws)"
    if "g \<in> set ?tx" for g
    using consecutive_ge [OF positions that] by (auto simp: written_def)
  then show "\<forall>g \<in> set ?tx. base < gl_position g" by fastforce
  have "entry_ok ustr (stored_entry key e)" if "e \<in> set written" for e
    using dec [OF that] that assms(4)
    by (auto simp: entry_ok_def) (auto simp: stored_entry_def written_def)
  then show "wf_log ustr ?tx (base + int (length ws))"
    using sorted [OF positions] bounds assms(3) by (force simp: wf_log_def)
qed

text \<open>The entry an append works on, and its version as a client sees it.\<close>

definition append_entry :: "event_store \<Rightarrow> string \<Rightarrow> stream" where
  "append_entry st key =
     (case streams st key of Some s \<Rightarrow> s | None \<Rightarrow> \<lparr>firstVersion = 1, stream_events = []\<rparr>)"

definition append_refusal :: "typeid \<Rightarrow> int64 \<Rightarrow> append_stream_options \<Rightarrow> go_error option" where
  "append_refusal sid v opts =
     (if ExpectVersion opts \<noteq> None \<and> StreamMustNotExist opts
      then Some (Text ''ExpectVersion and StreamMustNotExist are mutually exclusive'')
      else if StreamMustNotExist opts \<and> 0 < v then Some (StreamVersionMismatchError sid 0 v)
      else case ExpectVersion opts of
        None \<Rightarrow> None
      | Some x \<Rightarrow> if x = v then None else Some (StreamVersionMismatchError sid x v))"

lemma never_written_tip:
  "never_written (Some s) \<Longrightarrow> firstVersion s + int (length (stream_events s)) - 1 = 0"
  by (simp add: never_written_def)

lemma append_entry_tip:
  assumes "wf_store ustr st"
  shows "tip (append_entry st (id_string ustr sid)) = view_tip (stream_view ustr st sid)"
proof (cases "streams st (id_string ustr sid)")
  case None
  then show ?thesis
    by (simp add: append_entry_def stream_view_def never_written_def view_tip_def)
next
  case (Some s)
  then show ?thesis
    using tip_wf [OF assms Some] never_written_tip [of s]
    by (auto simp: append_entry_def stream_view_def view_tip_def Let_def)
qed

lemma append_entry_wf:
  assumes "wf_store ustr st"
  shows "wf_stream key (globalLog st) (globalCounter st) (Some (append_entry st key))"
    "append_entry st key = s \<Longrightarrow> 1 \<le> firstVersion s"
proof -
  have w: "wf_stream key (globalLog st) (globalCounter st) (streams st key)"
    and c: "0 \<le> globalCounter st"
    using assms by (simp_all add: wf_store_def)
  show "wf_stream key (globalLog st) (globalCounter st) (Some (append_entry st key))"
    using w c by (cases "streams st key") (auto simp: append_entry_def wf_stream_def)
  then show "append_entry st key = s \<Longrightarrow> 1 \<le> firstVersion s"
    by (simp add: wf_stream_def)
qed

lemma AppendStream_unfold:
  assumes "wf_store ustr st" "key = id_string ustr sid" "v = view_tip (stream_view ustr st sid)"
  shows "AppendStream ustr fresh now st sid evs opts =
    (let entry = append_entry st key; st1 = st\<lparr>streams := (streams st)(key \<mapsto> entry)\<rparr> in
     case append_refusal sid v opts of
       Some e \<Rightarrow> (Inl e, if ExpectVersion opts \<noteq> None \<and> StreamMustNotExist opts then st else st1)
     | None \<Rightarrow> (case append_loop fresh now sid key v 0 evs (globalCounter st) of
         (Inl e, c) \<Rightarrow> (Inl e, st1\<lparr>globalCounter := c\<rparr>)
       | (Inr (tx, written), c) \<Rightarrow>
           (Inr written, st1\<lparr>streams := (streams st1)(key \<mapsto>
                 entry\<lparr>stream_events := stream_events entry @ map gl_data tx\<rparr>),
               globalLog := globalLog st1 @ tx, globalCounter := c\<rparr>)))"
  using append_entry_tip [OF assms(1), of sid] assms(2,3)
  by (auto simp: AppendStream_def append_refusal_def append_entry_def Let_def
      split: option.splits)

lemma wf_log_mono: "wf_log ustr gl c \<Longrightarrow> c \<le> c' \<Longrightarrow> wf_log ustr gl c'"
  by (force simp: wf_log_def)

lemma wf_log_append:
  "wf_log ustr gl c \<Longrightarrow> wf_log ustr tx c' \<Longrightarrow> c \<le> c' \<Longrightarrow> \<forall>g \<in> set tx. c < gl_position g \<Longrightarrow>
   wf_log ustr (gl @ tx) c'"
  by (force simp: wf_log_def sorted_wrt_append)

lemma wf_stream_mono: "wf_stream key gl c e \<Longrightarrow> c \<le> c' \<Longrightarrow> wf_stream key gl c' e"
  by (auto simp: wf_stream_def split: option.splits)

text \<open>Materialising an empty entry and burning positions keep the invariant and the views.\<close>

lemma wf_store_touch:
  assumes "wf_store ustr st" "globalCounter st \<le> c" "c \<le> max_int64"
  shows "wf_store ustr (st\<lparr>streams := (streams st)(key \<mapsto> append_entry st key), globalCounter := c\<rparr>)"
  using assms append_entry_wf(1) [OF assms(1), of key]
  by (auto simp: wf_store_def intro: wf_log_mono wf_stream_mono)

lemma stream_view_touch:
  "stream_view ustr (st\<lparr>streams := (streams st)(key \<mapsto> append_entry st key), globalCounter := c\<rparr>) sid
   = stream_view ustr st sid"
  by (auto simp: stream_view_def append_entry_def never_written_def Let_def split: option.splits)

lemma wf_store_extend:
  assumes wf: "wf_store ustr st" and c: "c = globalCounter st + int (length tx)" "c \<le> max_int64"
    and tx: "wf_log ustr tx c" "\<forall>g \<in> set tx. globalCounter st < gl_position g"
      "log_of key tx = tx" "\<And>key'. key' \<noteq> key \<Longrightarrow> log_of key' tx = []"
      "consecutive gl_version (firstVersion s + int (length (stream_events s))) tx"
    and s: "s = append_entry st key"
  shows "wf_store ustr (st\<lparr>streams := (streams st)(key \<mapsto>
      s\<lparr>stream_events := stream_events s @ map gl_data tx\<rparr>),
      globalLog := globalLog st @ tx, globalCounter := c\<rparr>)"
proof -
  have "wf_log ustr (globalLog st @ tx) c"
    using wf c tx by (intro wf_log_append) (auto simp: wf_store_def)
  moreover have "wf_stream key (globalLog st @ tx) c
      (Some (s\<lparr>stream_events := stream_events s @ map gl_data tx\<rparr>))"
  proof -
    have old: "wf_stream key (globalLog st) (globalCounter st) (Some s)"
      unfolding s by (rule append_entry_wf [OF wf])
    then have "length (log_of key (globalLog st)) = length (stream_events s)"
      by (auto simp: wf_stream_def dest!: arg_cong [of _ _ length])
    then show ?thesis
      using old tx c(1) by (auto simp: wf_stream_def log_of_append)
  qed
  moreover have "wf_stream k (globalLog st @ tx) c (streams st k)" if "k \<noteq> key" for k
  proof -
    have "wf_stream k (globalLog st) c (streams st k)"
      using wf c(1) by (auto simp: wf_store_def intro: wf_stream_mono)
    then show ?thesis
      using tx(4) [OF that] by (auto simp: wf_stream_def log_of_append split: option.splits)
  qed
  ultimately show ?thesis
    using wf c by (auto simp: wf_store_def)
qed

text \<open>
  Every outcome of an append. A refusal or an encoding failure leaves both views as they were;
  success extends the stream and the log by the same events.
\<close>

definition extend_view :: "(int64 \<times> event list) option \<Rightarrow> event list \<Rightarrow> (int64 \<times> event list) option" where
  "extend_view v written = (case v of
     None \<Rightarrow> (if written = [] then None else Some (1, written))
   | Some (fv, evs) \<Rightarrow> Some (fv, evs @ written))"

lemma extend_view_entry:
  assumes "s = append_entry st (id_string ustr sid)" "map decode ds = written"
    "wf_store ustr st"
  shows "stream_view ustr (st\<lparr>streams := (streams st)(id_string ustr sid \<mapsto>
      s\<lparr>stream_events := stream_events s @ ds\<rparr>), globalLog := gl, globalCounter := c\<rparr>) sid
    = extend_view (stream_view ustr st sid) written"
  using assms
  by (auto simp: stream_view_def extend_view_def append_entry_def never_written_def Let_def
      split: option.splits)

definition appended :: "(nat \<Rightarrow> uuid) \<Rightarrow> (nat \<Rightarrow> time) \<Rightarrow> typeid \<Rightarrow> int64 \<Rightarrow> int64 \<Rightarrow> writable_event list \<Rightarrow> event list" where
  "appended fresh now sid v c ws = map (stored_event fresh now sid v c) (enumerate 0 ws)"

lemma AppendStream_outcome:
  assumes wf: "wf_store ustr st"
    and room: "globalCounter st + int (length evs) \<le> max_int64"
    and v: "v = view_tip (stream_view ustr st sid)"
    and run: "AppendStream ustr fresh now st sid evs opts = (r, st')"
  shows "wf_store ustr st' \<and> globalCounter st \<le> globalCounter st'
     \<and> globalCounter st' \<le> globalCounter st + int (length evs)
     \<and> ((\<exists>e. r = Inl e \<and> (append_refusal sid v opts = Some e \<or>
              append_refusal sid v opts = None \<and> (\<exists>i. \<not> json_year_ok (now i)))
          \<and> stream_view ustr st' = stream_view ustr st \<and> log_view st' = log_view st)
       \<or> append_refusal sid v opts = None
          \<and> r = Inr (appended fresh now sid v (globalCounter st) evs)
          \<and> stream_view ustr st' sid =
              extend_view (stream_view ustr st sid) (appended fresh now sid v (globalCounter st) evs)
          \<and> (\<forall>sid'. id_string ustr sid' \<noteq> id_string ustr sid \<longrightarrow>
                stream_view ustr st' sid' = stream_view ustr st sid')
          \<and> log_view st' = log_view st @ appended fresh now sid v (globalCounter st) evs)"
proof -
  define key where "key = id_string ustr sid"
  define s where "s = append_entry st key"
  note unf = AppendStream_unfold [OF wf key_def v, of fresh now evs opts]
  have c0: "0 \<le> globalCounter st" "globalCounter st \<le> max_int64"
    using wf by (simp_all add: wf_store_def)
  have tip: "v = firstVersion s + int (length (stream_events s)) - 1" "0 \<le> v" "v \<le> globalCounter st"
  proof -
    have w: "wf_stream key (globalLog st) (globalCounter st) (Some s)"
      unfolding s_def by (rule append_entry_wf [OF wf])
    have b: "1 \<le> firstVersion s" "firstVersion s + int (length (stream_events s)) - 1 \<le> globalCounter st"
      using w by (simp_all add: wf_stream_def)
    have "tip s = firstVersion s + int (length (stream_events s)) - 1"
      unfolding tip_def using b c0 by (intro wrap64_id in64_nonneg) linarith+
    then show "v = firstVersion s + int (length (stream_events s)) - 1"
      using append_entry_tip [OF wf, of sid] by (simp add: s_def key_def v)
    then show "0 \<le> v" "v \<le> globalCounter st" using b by auto
  qed
  have touched: "wf_store ustr (st\<lparr>streams := (streams st)(key \<mapsto> s), globalCounter := c\<rparr>)"
    if "globalCounter st \<le> c" "c \<le> max_int64" for c
    unfolding s_def by (rule wf_store_touch [OF wf that])
  have same: "stream_view ustr (st\<lparr>streams := (streams st)(key \<mapsto> s), globalCounter := c\<rparr>) = stream_view ustr st"
    for c unfolding s_def by (rule ext, rule stream_view_touch)
  have st1: "st\<lparr>streams := m\<rparr> = st\<lparr>streams := m, globalCounter := globalCounter st\<rparr>" for m
    by simp
  show ?thesis
  proof (cases "append_refusal sid v opts")
    case (Some e)
    then have "r = Inl e" "st' = st \<or> st' = st\<lparr>streams := (streams st)(key \<mapsto> s), globalCounter := globalCounter st\<rparr>"
      using run unf by (auto simp: Let_def s_def split: if_splits)
    then show ?thesis
      using Some wf same [of "globalCounter st"] touched [of "globalCounter st"] c0
      by (auto simp: log_view_def)
  next
    case None
    obtain res c where loop:
      "append_loop fresh now sid key v 0 evs (globalCounter st) = (res, c)" by fastforce
    have lr: "globalCounter st \<le> c \<and> c \<le> globalCounter st + int (0 + length evs) \<and>
      (\<forall>tx written. res = Inr (tx, written) \<longrightarrow>
        c = globalCounter st + int (0 + length evs)
        \<and> written = map (stored_event fresh now sid v (globalCounter st)) (enumerate 0 evs)
        \<and> tx = map (stored_entry key) written
        \<and> (\<forall>e \<in> set written. json_marshal e \<noteq> None))"
      by (rule append_loop_result) (use loop c0 tip room in auto)
    show ?thesis
    proof (cases res)
      case (Inl e)
      have "\<exists>i. \<not> json_year_ok (now i)"
      proof (rule ccontr)
        assume "\<nexists>i. \<not> json_year_ok (now i)"
        then have "\<exists>x c. append_loop fresh now sid key v 0 evs (globalCounter st + int 0) = (Inr x, c)"
          by (intro append_loop_succeeds) (use c0 tip room in auto)
        then show False using loop Inl by simp
      qed
      moreover have "r = Inl e" "st' = st\<lparr>streams := (streams st)(key \<mapsto> s), globalCounter := c\<rparr>"
        using run unf None loop Inl by (auto simp: Let_def s_def)
      ultimately show ?thesis
        using None same [of c] touched [of c] lr room by (auto simp: log_view_def)
    next
      case (Inr x)
      obtain tx written where x: "x = (tx, written)" by (cases x)
      have w: "written = appended fresh now sid v (globalCounter st) evs"
        "tx = map (stored_entry key) written" "\<forall>e \<in> set written. json_marshal e \<noteq> None"
        "c = globalCounter st + int (length evs)"
        using lr Inr x by (auto simp: appended_def)
      have r: "r = Inr written"
        "st' = st\<lparr>streams := (streams st)(key \<mapsto> s\<lparr>stream_events := stream_events s @ map gl_data tx\<rparr>),
           globalLog := globalLog st @ tx, globalCounter := c\<rparr>"
        using run unf None loop Inr x by (auto simp: Let_def s_def)
      note block = stored_block [of fresh now sid v "globalCounter st" evs key ustr,
          folded appended_def, folded w(1), folded w(2), OF w(3) c0(1) key_def]
      have len: "length tx = length evs" using w by (simp add: appended_def)
      have "wf_store ustr st'"
        unfolding r(2) by (rule wf_store_extend [OF wf _ _ _ _ _ _ _ s_def])
          (use block tip w(4) room len in \<open>auto simp: add_ac\<close>)
      moreover have "stream_view ustr st' sid = extend_view (stream_view ustr st sid) written"
        unfolding r(2) key_def
        by (rule extend_view_entry [OF s_def [unfolded key_def] _ wf]) (use block(2) in simp)
      moreover have "stream_view ustr st' sid' = stream_view ustr st sid'"
        if "id_string ustr sid' \<noteq> id_string ustr sid" for sid'
        using that by (simp add: r(2) stream_view_def key_def)
      moreover have "log_view st' = log_view st @ written"
        using block(2) by (simp add: r(2) log_view_def)
      moreover have "globalCounter st' = globalCounter st + int (length evs)"
        using r(2) w(4) by simp
      ultimately show ?thesis using None r(1) w(1) by simp
    qed
  qed
qed

text \<open>What an append that was not refused can fail with.\<close>

lemma append_loop_error:
  "append_loop fresh now sid key v i ws c = (Inl e, c') \<Longrightarrow>
   \<exists>k. e = Wrap k (Text ''json'')"
  by (induction ws arbitrary: i c c')
    (auto simp: Let_def split: option.splits prod.splits sum.splits)

lemma AppendStream_error:
  assumes "wf_store ustr st" "fst (AppendStream ustr fresh now st sid ws opts) = Inl e"
    "append_refusal sid (view_tip (stream_view ustr st sid)) opts = None"
  shows "\<exists>k. e = Wrap k (Text ''json'')"
  using assms(2,3) unfolding AppendStream_unfold [OF assms(1) refl refl]
  by (auto simp: Let_def dest!: append_loop_error split: prod.splits sum.splits)

section \<open>Deleting\<close>

lemma log_of_dropFromGlobalLog:
  "log_of key (dropFromGlobalLog gl key to) = filter (\<lambda>g. to < gl_version g) (log_of key gl)"
  "k \<noteq> key \<Longrightarrow> log_of k (dropFromGlobalLog gl key to) = log_of k gl"
  by (auto simp: log_of_def dropFromGlobalLog_def filter_filter intro!: filter_cong)

lemma wf_log_filter: "wf_log ustr gl c \<Longrightarrow> wf_log ustr (filter P gl) c"
  by (auto simp: wf_log_def sorted_wrt_filter)

text \<open>Replacing a stream's entry and filtering its part of the log keep the invariant.\<close>

lemma wf_store_drop:
  assumes wf: "wf_store ustr st"
    and entry: "wf_stream key (dropFromGlobalLog (globalLog st) key to) (globalCounter st) e"
  shows "wf_store ustr (st\<lparr>streams := (streams st)(key := e),
    globalLog := dropFromGlobalLog (globalLog st) key to\<rparr>)"
proof -
  have "wf_stream k (dropFromGlobalLog (globalLog st) key to) (globalCounter st) (streams st k)"
    if "k \<noteq> key" for k
  proof -
    have "wf_stream k (globalLog st) (globalCounter st) (streams st k)"
      using wf by (simp add: wf_store_def)
    then show ?thesis
      using log_of_dropFromGlobalLog(2) [OF that] by (simp add: wf_stream_def split: option.splits)
  qed
  then show ?thesis
    using wf entry by (auto simp: wf_store_def dropFromGlobalLog_def intro: wf_log_filter)
qed

definition delete_refusal :: "(int64 \<times> event list) option \<Rightarrow> int64 \<Rightarrow> go_error option" where
  "delete_refusal v to =
     (if to < 0 then Some (Text ''ToVersion must not be negative'')
      else if v = None then Some (Sentinel ErrStreamNotFound) else None)"

definition delete_view :: "(int64 \<times> event list) option \<Rightarrow> int64 \<Rightarrow> (int64 \<times> event list) option" where
  "delete_view v to = (case v of
     None \<Rightarrow> None
   | Some (fv, evs) \<Rightarrow> if to = 0 then None
       else Some (max fv (min to (view_tip v) + 1), filter (\<lambda>e. to < ev_StreamVersion e) evs))"

text \<open>The log entries a deletion removes, and the events of a log without them.\<close>

definition deletes :: "(uuid \<Rightarrow> string) \<Rightarrow> typeid \<Rightarrow> int64 \<Rightarrow> global_log_entry \<Rightarrow> bool" where
  "deletes ustr sid to g \<longleftrightarrow> gl_streamID g = id_string ustr sid \<and> (to = 0 \<or> gl_version g \<le> to)"

definition log_without :: "(uuid \<Rightarrow> string) \<Rightarrow> typeid \<Rightarrow> int64 \<Rightarrow> event_store \<Rightarrow> event list" where
  "log_without ustr sid to st = map (decode \<circ> gl_data) (filter (\<lambda>g. \<not> deletes ustr sid to g) (globalLog st))"

lemma never_written_view:
  "never_written (streams st (id_string ustr sid)) \<longleftrightarrow> stream_view ustr st sid = None"
  by (simp add: stream_view_def Let_def)

lemma log_view_filter:
  assumes "wf_store ustr st" "\<And>g. g \<in> set (globalLog st) \<Longrightarrow> P (decode (gl_data g)) = Q g"
  shows "map (decode \<circ> gl_data) (filter Q (globalLog st)) = filter P (log_view st)"
  using assms(2) by (simp add: log_view_def filter_map comp_def cong: filter_cong)

text \<open>A position names one event, so any part of the log is a selection of its events.\<close>

lemma log_view_selects:
  assumes "wf_store ustr st"
  shows "\<exists>P. map (decode \<circ> gl_data) (filter Q (globalLog st)) = filter P (log_view st)"
proof -
  have pos: "ev_GlobalPosition (decode (gl_data g)) = Some (gl_position g)" if "g \<in> set (globalLog st)" for g
    using wf_store_entry [OF assms that] by (simp add: entry_ok_def)
  have "sorted_wrt (\<lambda>a b. gl_position a < gl_position b) (globalLog st)"
    using assms by (simp add: wf_store_def wf_log_def)
  then have one: "g = h" if "g \<in> set (globalLog st)" "h \<in> set (globalLog st)" "gl_position g = gl_position h" for g h
    using that unfolding sorted_wrt_iff_nth_less in_set_conv_nth by (metis less_irrefl nat_neq_iff)
  let ?P = "\<lambda>e. \<exists>g \<in> set (globalLog st). Q g \<and> ev_GlobalPosition e = Some (gl_position g)"
  have "?P (decode (gl_data g)) = Q g" if "g \<in> set (globalLog st)" for g
    using pos [OF that] one [OF that] that by auto
  then show ?thesis using log_view_filter [OF assms, of ?P Q] by blast
qed

lemma truncate_view:
  assumes wf: "wf_store ustr st" and s: "streams st key = Some s" and key: "key = id_string ustr sid"
    and nw: "\<not> never_written (Some s)" and q: "firstVersion s \<le> q" "q \<le> tip s"
    and st': "st' = st\<lparr>streams := (streams st)(key \<mapsto> s\<lparr>
        stream_events := drop (nat (q - firstVersion s + 1)) (stream_events s),
        firstVersion := q + 1\<rparr>), globalLog := dropFromGlobalLog (globalLog st) key q\<rparr>"
  shows "wf_store ustr st'"
    "stream_view ustr st' sid = Some (q + 1,
       filter (\<lambda>e. q < ev_StreamVersion e) (map decode (stream_events s)))"
proof -
  note f = wf_storeD [OF wf s] and t = tip_wf [OF wf s]
  have n: "nat (q - firstVersion s + 1) \<le> length (stream_events s)" using q t by linarith
  have new: "log_of key (dropFromGlobalLog (globalLog st) key q)
      = drop (nat (q - firstVersion s + 1)) (log_of key (globalLog st))"
    by (simp add: log_of_dropFromGlobalLog consecutive_filter_gt [OF f(4)])
  show "wf_store ustr st'" unfolding st'
  proof (rule wf_store_drop [OF wf])
    have "consecutive gl_version (q + 1) (drop (nat (q - firstVersion s + 1)) (log_of key (globalLog st)))"
      using consecutive_drop [OF f(4), of "nat (q - firstVersion s + 1)"] q by simp
    then show "wf_stream key (dropFromGlobalLog (globalLog st) key q) (globalCounter st)
      (Some (s\<lparr>stream_events := drop (nat (q - firstVersion s + 1)) (stream_events s),
        firstVersion := q + 1\<rparr>))"
      using f n q t by (auto simp: wf_stream_def new simp flip: drop_map)
  qed
  have "drop (nat (q - firstVersion s + 1)) (map decode (stream_events s)) =
      filter (\<lambda>e. q < ev_StreamVersion e) (map decode (stream_events s))"
    by (rule consecutive_filter_gt [OF wf_store_events(2) [OF wf s], symmetric])
  then show "stream_view ustr st' sid = Some (q + 1,
       filter (\<lambda>e. q < ev_StreamVersion e) (map decode (stream_events s)))"
    using f(1) q by (simp add: st' stream_view_def never_written_def key drop_map)
qed

lemma retained_version:
  assumes "wf_store ustr st" "streams st key = Some s" "g \<in> set (globalLog st)" "gl_streamID g = key"
  shows "firstVersion s \<le> gl_version g \<and> gl_version g \<le> tip s"
  using consecutive_ge [OF wf_storeD(4) [OF assms(1,2)], of g] assms(3,4) tip_wf [OF assms(1,2)]
    arg_cong [OF wf_storeD(3) [OF assms(1,2)], of length]
  by (simp add: log_of_def)

lemma dropped_log:
  assumes wf: "wf_store ustr st" and s: "streams st (id_string ustr sid) = Some s"
    and q: "q = (if to = 0 then max_int64 else min to (tip s))"
  shows "map (decode \<circ> gl_data) (dropFromGlobalLog (globalLog st) (id_string ustr sid) q)
      = log_without ustr sid to st"
proof -
  have "(\<not> (gl_streamID g = id_string ustr sid \<and> gl_version g \<le> q)) = (\<not> deletes ustr sid to g)"
    if g: "g \<in> set (globalLog st)" for g
  proof -
    have "tip s \<le> max_int64"
      using tip_wf [OF wf s] wf_storeD(2,5) [OF wf s] by linarith
    then show ?thesis using retained_version [OF wf s g] by (auto simp: deletes_def q)
  qed
  then show ?thesis unfolding dropFromGlobalLog_def log_without_def by (simp cong: filter_cong)
qed

text \<open>A truncation below the first retained version removes nothing.\<close>

lemma truncate_nothing:
  assumes wf: "wf_store ustr st" and s: "streams st (id_string ustr sid) = Some s"
    and low: "to \<noteq> 0" "min to (tip s) < firstVersion s"
  shows "filter (\<lambda>e. to < ev_StreamVersion e) (map decode (stream_events s)) = map decode (stream_events s)"
    "log_without ustr sid to st = log_view st"
proof -
  have t: "tip s = firstVersion s + int (length (stream_events s)) - 1" by (rule tip_wf [OF wf s])
  show "filter (\<lambda>e. to < ev_StreamVersion e) (map decode (stream_events s)) = map decode (stream_events s)"
    unfolding filter_id_conv
    using consecutive_ge [OF wf_store_events(2) [OF wf s]] low t by force
  show "log_without ustr sid to st = log_view st"
  proof -
    have "\<not> deletes ustr sid to g" if "g \<in> set (globalLog st)" for g
      using retained_version [OF wf s that] low t by (auto simp: deletes_def)
    then show ?thesis unfolding log_without_def log_view_def by (subst filter_True) auto
  qed
qed

text \<open>Every outcome of a deletion, on the views.\<close>

lemma DeleteStream_succeeds:
  assumes wf: "wf_store ustr st" and room: "globalCounter st < max_int64"
    and run: "DeleteStream ustr st sid opts = (r, st')"
    and v: "v = stream_view ustr st sid" "v \<noteq> None" and to: "to = ToVersion opts" "0 \<le> to"
  shows "wf_store ustr st' \<and> globalCounter st' = globalCounter st \<and> r = None
     \<and> stream_view ustr st' sid = delete_view v to
     \<and> log_view st' = log_without ustr sid to st"
proof -
  define key where "key = id_string ustr sid"
  have nw: "\<not> never_written (streams st key)"
    using v never_written_view [of st ustr sid] by (simp add: key_def)
  then obtain s where s: "streams st key = Some s"
    by (cases "streams st key") (auto simp: never_written_def)
  note f = wf_storeD [OF wf s] and t = tip_wf [OF wf s]
  have vs: "v = Some (firstVersion s, map decode (stream_events s))"
    using nw s by (simp add: v stream_view_def key_def)
  have vtip: "view_tip v = tip s" using t by (simp add: vs view_tip_def)
  have tmax: "tip s < max_int64" using t f(2) room by linarith
  show ?thesis
  proof (cases "to = 0")
    case True
    then have st': "r = None" "st' = st\<lparr>streams := (streams st)(key := None),
        globalLog := dropFromGlobalLog (globalLog st) key max_int64\<rparr>"
      using run nw to by (auto simp: DeleteStream_def key_def Let_def)
    have "log_of key (dropFromGlobalLog (globalLog st) key max_int64) = []"
      unfolding log_of_dropFromGlobalLog(1)
    proof (intro filter_False ballI notI)
      fix g assume "g \<in> set (log_of key (globalLog st))" "max_int64 < gl_version g"
      then show False
        using retained_version [OF wf s, of g] tmax by (simp add: log_of_def)
    qed
    then have "wf_store ustr st'"
      unfolding st' by (intro wf_store_drop [OF wf]) (simp add: wf_stream_def)
    then show ?thesis
      using st' True vs dropped_log [OF wf s [unfolded key_def], of max_int64 to]
      by (auto simp: stream_view_def never_written_def delete_view_def log_view_def key_def)
  next
    case False
    define q where "q = min to (tip s)"
    have rem: "wrap64 (q - firstVersion s + 1) = q - firstVersion s + 1"
      using f(1,2,5) t to False by (intro wrap64_id in64I) (auto simp: q_def min_int64_def max_int64_def)
    have unf: "DeleteStream ustr st sid opts = (if q < firstVersion s then (None, st)
        else (None, st\<lparr>streams := (streams st)(key \<mapsto> s\<lparr>
          stream_events := drop (nat (q - firstVersion s + 1)) (stream_events s),
          firstVersion := wrap64 (q + 1)\<rparr>), globalLog := dropFromGlobalLog (globalLog st) key q\<rparr>))"
      using nw s to False rem by (simp add: DeleteStream_def key_def Let_def q_def)
    show ?thesis
    proof (cases "q < firstVersion s")
      case True
      then show ?thesis
        using unf run wf False vs vtip v truncate_nothing [OF wf s [unfolded key_def] False]
        by (auto simp: delete_view_def q_def max_def)
    next
      case le: False
      have q1: "wrap64 (q + 1) = q + 1"
        using le f(1) tmax by (intro wrap64_id in64_nonneg) (auto simp: q_def)
      have filt: "filter (\<lambda>e. q < ev_StreamVersion e) (map decode (stream_events s))
          = filter (\<lambda>e. to < ev_StreamVersion e) (map decode (stream_events s))"
        using consecutive_ge [OF wf_store_events(2) [OF wf s]] t
        by (force intro!: filter_cong simp: q_def)
      have st': "r = None" "st' = st\<lparr>streams := (streams st)(key \<mapsto> s\<lparr>
          stream_events := drop (nat (q - firstVersion s + 1)) (stream_events s),
          firstVersion := q + 1\<rparr>), globalLog := dropFromGlobalLog (globalLog st) key q\<rparr>"
        using unf run le q1 by auto
      have view: "wf_store ustr st'" "stream_view ustr st' sid = Some (q + 1,
          filter (\<lambda>e. q < ev_StreamVersion e) (map decode (stream_events s)))"
        using truncate_view [OF wf s key_def _ _ _ st'(2)] nw s le by (auto simp: q_def)
      have "log_view st' = log_without ustr sid to st"
        using dropped_log [OF wf s [unfolded key_def], of q to] False
        by (simp add: st'(2) log_view_def key_def q_def)
      then show ?thesis
        using view st' le filt False vs vtip by (simp add: delete_view_def q_def max_def)
    qed
  qed
qed

lemma DeleteStream_outcome:
  assumes wf: "wf_store ustr st" and room: "globalCounter st < max_int64"
    and run: "DeleteStream ustr st sid opts = (r, st')"
    and v: "v = stream_view ustr st sid" and to: "to = ToVersion opts"
  shows "wf_store ustr st' \<and> globalCounter st' = globalCounter st
     \<and> r = delete_refusal v to
     \<and> (\<forall>sid'. id_string ustr sid' \<noteq> id_string ustr sid \<longrightarrow>
           stream_view ustr st' sid' = stream_view ustr st sid')
     \<and> (r \<noteq> None \<longrightarrow> st' = st)
     \<and> (r = None \<longrightarrow> stream_view ustr st' sid = delete_view v to
          \<and> log_view st' = log_without ustr sid to st)"
proof -
  have others: "stream_view ustr st' sid' = stream_view ustr st sid'"
    if "id_string ustr sid' \<noteq> id_string ustr sid" for sid'
    using run that by (auto simp: DeleteStream_def Let_def stream_view_def split: if_splits)
  show ?thesis
  proof (cases "delete_refusal v to")
    case (Some e)
    then have "r = Some e \<and> st' = st"
      using run v to never_written_view [of st ustr sid]
      by (auto simp: DeleteStream_def delete_refusal_def Let_def split: if_splits)
    then show ?thesis using Some wf others by simp
  next
    case None
    then have "v \<noteq> None" "0 \<le> to" by (auto simp: delete_refusal_def split: if_splits)
    then show ?thesis
      using DeleteStream_succeeds [OF wf room run v _ to] None others by auto
  qed
qed

end
