(* ===== verification/StoreReads.thy ===== *)
theory StoreReads
  imports MemoryStore
begin

text \<open>
  Reading the in-memory store. A stream read yields exactly the retained events the options
  select, in the direction asked for; a global read yields the events after a position, in
  position order. Over a whole history of operations versions are never renumbered and a global
  position is never handed out twice.
\<close>

section \<open>Reading one stream\<close>

definition limited :: "int64 \<Rightarrow> 'a list \<Rightarrow> 'a list" where
  "limited n xs = (if 0 < n then take (nat n) xs else xs)"

definition read_view :: "int64 \<times> event list \<Rightarrow> read_stream_options \<Rightarrow> event list" where
  "read_view v opts = limited (rs_Count opts)
     (if rs_Direction opts = Forward
      then filter (\<lambda>e. rs_AfterVersion opts < ev_StreamVersion e) (snd v)
      else rev (if rs_AfterVersion opts \<le> 0 then snd v
                else filter (\<lambda>e. ev_StreamVersion e \<le> rs_AfterVersion opts) (snd v)))"

definition stream_iter :: "typeid \<Rightarrow> stream \<Rightarrow> read_stream_options \<Rightarrow> stream_iterator" where
  "stream_iter sid s opts = \<lparr>it_streamID = Some sid, it_events = Some (stream_events s),
     it_cursor = startCursor s opts, it_direction = rs_Direction opts,
     it_limit = (if 0 < rs_Count opts then rs_Count opts else 0), it_retrieved = 0\<rparr>"

lemma ReadStream_view:
  "ReadStream ustr st sid opts = (case stream_view ustr st sid of
     None \<Rightarrow> Inl (Sentinel ErrStreamNotFound)
   | Some _ \<Rightarrow> Inr (stream_iter sid (the (streams st (id_string ustr sid))) opts))"
  by (simp add: ReadStream_def stream_view_def stream_iter_def Let_def)

lemma startCursor_forward:
  assumes "1 \<le> firstVersion s" "min_int64 + firstVersion s - 1 \<le> rs_AfterVersion opts"
    "rs_AfterVersion opts \<le> max_int64" "rs_Direction opts = Forward"
  shows "startCursor s opts = max 0 (rs_AfterVersion opts - firstVersion s + 1)"
proof -
  have "wrap64 (rs_AfterVersion opts - firstVersion s + 1) = rs_AfterVersion opts - firstVersion s + 1"
    using assms by (intro wrap64_id in64I) linarith+
  then show ?thesis using assms(4) by (simp add: startCursor_def Let_def)
qed

lemma startCursor_reverse:
  assumes "1 \<le> firstVersion s" "firstVersion s \<le> max_int64 + 1"
    "rs_AfterVersion opts \<le> max_int64" "rs_Direction opts = Reverse"
  shows "startCursor s opts = (if rs_AfterVersion opts \<le> 0 then int (length (stream_events s)) - 1
     else min (rs_AfterVersion opts - firstVersion s) (int (length (stream_events s)) - 1))"
proof (cases "rs_AfterVersion opts \<le> 0")
  case False
  then have "wrap64 (rs_AfterVersion opts - firstVersion s) = rs_AfterVersion opts - firstVersion s"
    using assms by (intro wrap64_id in64I) (auto simp: min_int64_def max_int64_def)
  then show ?thesis using False assms(4) by (simp add: startCursor_def Let_def)
qed (simp add: startCursor_def assms(4))

text \<open>The iterator of a read starts in range, with exactly the selected events ahead.\<close>

lemma stream_iter_selects:
  assumes wf: "wf_store ustr st" and s: "streams st key = Some s"
    and opts: "min_int64 + firstVersion s - 1 \<le> rs_AfterVersion opts" "rs_AfterVersion opts \<le> max_int64"
  shows "iter_ok (stream_iter sid s opts) \<and>
    map decode (remaining (stream_iter sid s opts)) =
      read_view (firstVersion s, map decode (stream_events s)) opts"
proof -
  note f = wf_storeD [OF wf s] and e = wf_store_events [OF wf s]
  have fv: "firstVersion s \<le> max_int64 + 1" using f by linarith
  show ?thesis
  proof (cases "rs_Direction opts")
    case Forward
    have c: "startCursor s opts = max 0 (rs_AfterVersion opts - firstVersion s + 1)"
      by (rule startCursor_forward) (use f opts Forward in auto)
    have "filter (\<lambda>e. rs_AfterVersion opts < ev_StreamVersion e) (map decode (stream_events s)) =
        drop (nat (startCursor s opts)) (map decode (stream_events s))"
      unfolding c by (simp add: consecutive_filter_gt [OF e(2)] max_def)
    then show ?thesis
      using c e(1,3) f(1) opts Forward
      by (auto simp: iter_ok_def stream_iter_def remaining_def ahead_def read_view_def limited_def
          take_map drop_map of_nat_diff)
  next
    case Reverse
    let ?n = "int (length (stream_events s))" and ?a = "rs_AfterVersion opts"
    have c: "startCursor s opts = (if ?a \<le> 0 then ?n - 1 else min (?a - firstVersion s) (?n - 1))"
      by (rule startCursor_reverse) (use f fv opts Reverse in auto)
    have "?a > 0 \<longrightarrow> filter (\<lambda>e. ev_StreamVersion e \<le> ?a) (map decode (stream_events s)) =
        take (nat (startCursor s opts + 1)) (map decode (stream_events s))"
      unfolding c by (auto simp: consecutive_filter_le [OF e(2)] min_def)
    moreover have "?a \<le> 0 \<longrightarrow> take (nat (startCursor s opts + 1)) (stream_events s) = stream_events s"
      by (simp add: c)
    ultimately show ?thesis
      using c e(1,3) f(1) fv opts Reverse
      by (auto simp: iter_ok_def stream_iter_def remaining_def ahead_def read_view_def limited_def
          take_map rev_map max_int64_def)
  qed
qed

text \<open>What an iterator yields before the end of the stream, for the clients of the interface.\<close>

fun yields :: "('i \<Rightarrow> event result \<times> 'i) \<Rightarrow> 'i \<Rightarrow> event list \<Rightarrow> bool" where
  "yields nxt i [] = (fst (nxt i) = Inl (Sentinel ErrEndOfEventStream))"
| "yields nxt i (e # es) = (case nxt i of (r, i') \<Rightarrow> r = Inr e \<and> yields nxt i' es)"

lemma yields_remaining: "iter_ok i \<Longrightarrow> yields Next i (map decode (remaining i))"
proof (induction "remaining i" arbitrary: i)
  case Nil
  then show ?case by (simp add: Next_end flip: Nil.hyps)
next
  case (Cons x xs)
  then have "Next i = (Inr (decode x), advanced i)" "iter_ok (advanced i)" "remaining (advanced i) = xs"
    using Next_yield [of i x xs] by simp_all
  with Cons.hyps(1) [of "advanced i"] show ?case by (simp flip: Cons.hyps(2))
qed

lemma yields_collect: "yields nxt i es \<Longrightarrow> collect_loop nxt i acc = Some (acc @ es, None)"
proof (induction es arbitrary: i acc)
  case Nil
  then show ?case
    by (cases "nxt i") (simp add: collect_loop.simps [of nxt i acc] errors_is.simps)
next
  case (Cons e es)
  then show ?case
    by (cases "nxt i") (simp add: collect_loop.simps [of nxt i acc])
qed

section \<open>Reading the whole log\<close>

lemma sort_search_least:
  assumes "\<And>i j. i \<le> j \<Longrightarrow> j < hi \<Longrightarrow> f i \<Longrightarrow> f j" "lo \<le> hi"
  shows "lo \<le> sort_search f lo hi \<and> sort_search f lo hi \<le> hi
    \<and> (\<forall>i. lo \<le> i \<and> i < sort_search f lo hi \<longrightarrow> \<not> f i)
    \<and> (\<forall>i. sort_search f lo hi \<le> i \<and> i < hi \<longrightarrow> f i)"
  using assms
proof (induction f lo hi rule: sort_search.induct)
  case (1 f lo hi)
  show ?case
  proof (cases "lo < hi")
    case False
    have "sort_search f lo hi = lo" by (subst sort_search.simps) (simp add: False)
    then show ?thesis using False 1(4) by auto
  next
    case True
    define h where "h = (lo + hi) div 2"
    have h: "lo \<le> h" "h < hi" using True by (auto simp: h_def)
    note mono = 1(3)
    show ?thesis
    proof (cases "f h")
      case True
      have IH: "lo \<le> sort_search f lo h \<and> sort_search f lo h \<le> h
          \<and> (\<forall>i. lo \<le> i \<and> i < sort_search f lo h \<longrightarrow> \<not> f i)
          \<and> (\<forall>i. sort_search f lo h \<le> i \<and> i < h \<longrightarrow> f i)"
      proof (rule 1(2) [OF \<open>lo < hi\<close> h_def])
        show "f j" if "i \<le> j" "j < h" "f i" for i j
          using mono [of i j] that h(2) less_trans by blast
      qed (use True h in simp_all)
      have "sort_search f lo hi = sort_search f lo h"
        using \<open>lo < hi\<close> True by (simp add: sort_search.simps [of f lo hi] Let_def flip: h_def)
      moreover have "f i" if "h \<le> i" "i < hi" for i using mono [OF that True] .
      ultimately show ?thesis using IH h by (metis le_less_linear le_trans less_imp_le)
    next
      case False
      have IH: "h + 1 \<le> sort_search f (h + 1) hi \<and> sort_search f (h + 1) hi \<le> hi
          \<and> (\<forall>i. h + 1 \<le> i \<and> i < sort_search f (h + 1) hi \<longrightarrow> \<not> f i)
          \<and> (\<forall>i. sort_search f (h + 1) hi \<le> i \<and> i < hi \<longrightarrow> f i)"
      proof (rule 1(1) [OF \<open>lo < hi\<close> h_def])
        show "f j" if "i \<le> j" "j < hi" "f i" for i j using mono [OF that] .
      qed (use False h in simp_all)
      have eq: "sort_search f lo hi = sort_search f (h + 1) hi"
        using \<open>lo < hi\<close> False by (simp add: sort_search.simps [of f lo hi] Let_def flip: h_def)
      have "\<not> f i" if "i \<le> h" for i using mono [OF that h(2)] False by blast
      moreover have "lo \<le> h + 1" using h by simp
      ultimately show ?thesis
        using IH unfolding eq by (metis Suc_eq_plus1 le_trans not_less_eq_eq)
    qed
  qed
qed

definition read_all_view :: "event list \<Rightarrow> read_all_options \<Rightarrow> event list" where
  "read_all_view log opts = limited (ra_Count opts)
     (filter (\<lambda>e. AfterPosition opts < the (ev_GlobalPosition e)) log)"


lemma filter_suffix:
  assumes "k \<le> length xs" "\<And>i. i < k \<Longrightarrow> \<not> P (xs ! i)" "\<And>i. k \<le> i \<Longrightarrow> i < length xs \<Longrightarrow> P (xs ! i)"
  shows "filter P xs = drop k xs"
proof -
  have "filter P (take k xs) = []"
    using assms(1,2) by (auto simp: filter_empty_conv in_set_conv_nth)
  moreover have "filter P (drop k xs) = drop k xs"
    unfolding filter_id_conv using assms(1,3) by (auto simp: in_set_conv_nth)
  ultimately show ?thesis
    by (metis append_take_drop_id append_Nil filter_append)
qed

lemma ReadAll_selects:
  assumes wf: "wf_store ustr st" and len: "int (length (globalLog st)) \<le> max_int64"
  shows "iter_ok (ReadAll st opts) \<and>
    map decode (remaining (ReadAll st opts)) = read_all_view (log_view st) opts"
proof -
  let ?P = "\<lambda>g. AfterPosition opts < gl_position g" and ?gl = "globalLog st"
  define k where "k = sort_search (\<lambda>i. ?P (?gl ! i)) 0 (length ?gl)"
  have ok: "entry_ok ustr g" if "g \<in> set ?gl" for g using wf_store_entry [OF wf that] .
  have sorted: "gl_position (?gl ! i) \<le> gl_position (?gl ! j)" if "i \<le> j" "j < length ?gl" for i j
    using wf that sorted_wrt_nth_less [of "\<lambda>a b. gl_position a < gl_position b" ?gl i j]
    by (cases "i = j") (auto simp: wf_store_def wf_log_def)
  have "0 \<le> k \<and> k \<le> length ?gl \<and> (\<forall>i. 0 \<le> i \<and> i < k \<longrightarrow> \<not> ?P (?gl ! i))
      \<and> (\<forall>i. k \<le> i \<and> i < length ?gl \<longrightarrow> ?P (?gl ! i))"
    unfolding k_def
  proof (rule sort_search_least)
    fix i j assume "i \<le> j" "j < length ?gl" "?P (?gl ! i)"
    then show "?P (?gl ! j)" using sorted [of i j] by linarith
  qed simp
  then have k: "k \<le> length ?gl" "\<And>i. i < k \<Longrightarrow> \<not> ?P (?gl ! i)"
    "\<And>i. k \<le> i \<Longrightarrow> i < length ?gl \<Longrightarrow> ?P (?gl ! i)"
    by auto
  have "filter ?P ?gl = drop k ?gl" by (rule filter_suffix) (use k in auto)
  then have sel: "filter (\<lambda>e. AfterPosition opts < the (ev_GlobalPosition e)) (log_view st)
      = map (decode \<circ> gl_data) (drop k ?gl)"
    using log_view_filter [OF wf, of "\<lambda>e. AfterPosition opts < the (ev_GlobalPosition e)" ?P] ok
    by (simp add: entry_ok_def)
  have all: "list_all decodable (map gl_data (drop k ?gl))"
    using ok by (auto simp: list_all_iff entry_ok_def dest: in_set_dropD)
  show ?thesis
    using all len k(1) unfolding read_all_view_def sel ReadAll_def Let_def k_def [symmetric]
    by (auto simp: iter_ok_def remaining_def ahead_def limited_def take_map max_int64_def)
qed


end
