(* ===== verification/StoreContract.thy ===== *)
theory StoreContract
  imports StoreReads
begin

text \<open>
  The event store interface as its clients rely on it, stated as a locale and discharged by the
  in-memory store, and the history of a store as a step relation: any interleaving of appends and
  deletions by any clients, each atomic under the store's mutex.
\<close>

section \<open>Histories\<close>

text \<open>
  The append of an event list leaves room below the largest position: a store that would hand out
  position \<open>2 ^ 63 - 1\<close> is outside the model.
\<close>

inductive store_step :: "(uuid \<Rightarrow> string) \<Rightarrow> event_store \<Rightarrow> event_store \<Rightarrow> bool" for ustr where
  append: "globalCounter st + int (length evs) < max_int64 \<Longrightarrow>
    AppendStream ustr fresh now st sid evs opts = (r, st') \<Longrightarrow> store_step ustr st st'"
| delete: "DeleteStream ustr st sid dopts = (d, st') \<Longrightarrow> store_step ustr st st'"

abbreviation store_steps :: "(uuid \<Rightarrow> string) \<Rightarrow> event_store \<Rightarrow> event_store \<Rightarrow> bool" where
  "store_steps ustr \<equiv> (store_step ustr)\<^sup>*\<^sup>*"

definition store_valid :: "(uuid \<Rightarrow> string) \<Rightarrow> event_store \<Rightarrow> bool" where
  "store_valid ustr st \<longleftrightarrow> wf_store ustr st \<and> globalCounter st < max_int64"

lemma store_validD:
  "store_valid ustr st \<Longrightarrow> wf_store ustr st" "store_valid ustr st \<Longrightarrow> globalCounter st < max_int64"
  by (simp_all add: store_valid_def)

lemma store_valid_New [store_simps]: "store_valid ustr NewEventStore"
  by (simp add: store_valid_def wf_store_New) (simp add: NewEventStore_def max_int64_def)

text \<open>What one step does to the log: old events may go, new ones come after the counter.\<close>

definition log_extends :: "event_store \<Rightarrow> event_store \<Rightarrow> bool" where
  "log_extends st st' \<longleftrightarrow> globalCounter st \<le> globalCounter st' \<and>
     (\<exists>P. filter (\<lambda>e. the (ev_GlobalPosition e) \<le> globalCounter st) (log_view st')
        = filter P (log_view st))"

lemma log_view_positions:
  assumes "wf_store ustr st" "e \<in> set (log_view st)"
  shows "\<exists>p. ev_GlobalPosition e = Some p \<and> 1 \<le> p \<and> p \<le> globalCounter st"
  using assms by (auto simp: log_view_def wf_store_def wf_log_def entry_ok_def)

lemma appended_positions:
  "e \<in> set (appended fresh now sid v c ws) \<Longrightarrow> c < the (ev_GlobalPosition e)"
  by (auto simp: appended_def)

lemma store_step_effect:
  assumes "store_valid ustr st" "store_step ustr st st'"
  shows "store_valid ustr st' \<and> globalCounter st \<le> globalCounter st' \<and>
    ((\<exists>P. log_view st' = filter P (log_view st)) \<or>
     (\<exists>es. log_view st' = log_view st @ es \<and> (\<forall>e \<in> set es. globalCounter st < the (ev_GlobalPosition e))))"
  using assms(2,1)
proof cases
  case (append evs fresh now sid opts r)
  have "\<exists>P. log_view st = filter P (log_view st)" by (rule exI [of _ "\<lambda>_. True"]) simp
  then show ?thesis
    using AppendStream_outcome [OF store_validD(1) [OF assms(1)] _ refl append(2)] append(1)
      appended_positions
    by (auto simp: store_valid_def)
next
  case (delete sid dopts d)
  have "\<exists>P. log_view st = filter P (log_view st)" by (rule exI [of _ "\<lambda>_. True"]) simp
  then show ?thesis
    using DeleteStream_outcome [OF store_validD [OF assms(1)] delete(1) refl refl] assms(1)
      log_view_selects [OF store_validD(1) [OF assms(1)]]
    by (cases d) (auto simp: store_valid_def log_without_def)
qed

lemma store_steps_valid:
  "store_steps ustr st st' \<Longrightarrow> store_valid ustr st \<Longrightarrow> store_valid ustr st'"
  by (induction rule: rtranclp_induct) (auto dest: store_step_effect)

lemma store_steps_log_extends:
  assumes "store_steps ustr st st'" "store_valid ustr st"
  shows "log_extends st st'"
  using assms
proof (induction rule: rtranclp_induct)
  case base
  have "filter (\<lambda>e. the (ev_GlobalPosition e) \<le> globalCounter st) (log_view st) = log_view st"
    unfolding filter_id_conv using log_view_positions [OF store_validD(1) [OF base]] by fastforce
  then show ?case by (auto simp: log_extends_def intro!: exI [of _ "\<lambda>_. True"])
next
  case (step y z)
  let ?old = "\<lambda>e. the (ev_GlobalPosition e) \<le> globalCounter st"
  obtain P where P: "globalCounter st \<le> globalCounter y" "filter ?old (log_view y) = filter P (log_view st)"
    using step by (auto simp: log_extends_def)
  have y: "store_valid ustr y" using store_steps_valid [OF step.hyps(1) step.prems] .
  from store_step_effect [OF y step.hyps(2)] show ?case
  proof (elim conjE disjE exE)
    fix Q assume "globalCounter y \<le> globalCounter z" "log_view z = filter Q (log_view y)"
    then have "filter ?old (log_view z) = filter (\<lambda>e. Q e \<and> P e) (log_view st)"
      using arg_cong [OF P(2), of "filter Q"] by (simp add: filter_filter conj_commute)
    then show ?thesis using P(1) \<open>globalCounter y \<le> globalCounter z\<close>
      by (auto simp: log_extends_def)
  next
    fix es assume "globalCounter y \<le> globalCounter z" and es: "log_view z = log_view y @ es"
      "\<forall>e \<in> set es. globalCounter y < the (ev_GlobalPosition e)"
    then have "filter ?old es = []" using P(1) by (fastforce simp: filter_empty_conv)
    then show ?thesis using P es \<open>globalCounter y \<le> globalCounter z\<close>
      by (auto simp: log_extends_def)
  qed
qed

section \<open>The contract\<close>

text \<open>
  A failed append that is not a refusal vouches for nothing: it carries no save-outcome marker,
  and the events may or may not have been written. The memory store is healthy when its clock
  stays within the years JSON can encode; then no append fails but by refusal.
\<close>

text \<open>
  What the store writes for a batch: the caller's payloads under consecutive versions, the strings
  and the metadata as JSON carries them.
\<close>

definition written_for :: "typeid \<Rightarrow> int64 \<Rightarrow> writable_event list \<Rightarrow> event list \<Rightarrow> bool" where
  "written_for sid v ws es \<longleftrightarrow> consecutive ev_StreamVersion (v + 1) es \<and>
     list_all2 (\<lambda>w e. id_type (ev_ID e) = to_utf8 (we_Type w) \<and> ev_StreamID e = wire_id sid \<and> ev_Data e = we_Data w
       \<and> ev_DataContentType e = to_utf8 (we_DataContentType w) \<and> ev_Metadata e = map_option utf8_dict (we_Metadata w)) ws es"

lemma written_for_appended: "written_for sid v ws (appended fresh now sid v c ws)"
proof -
  have "consecutive ev_StreamVersion (v + 1) (appended fresh now sid v c ws)"
    unfolding appended_def consecutive_map by (rule enumerate_consecutive) simp
  moreover have "list_all2 (\<lambda>w e. id_type (ev_ID e) = to_utf8 (we_Type w) \<and> ev_StreamID e = wire_id sid \<and> ev_Data e = we_Data w
       \<and> ev_DataContentType e = to_utf8 (we_DataContentType w) \<and> ev_Metadata e = map_option utf8_dict (we_Metadata w)) ws
     (appended fresh now sid v c ws)"
    by (auto simp: list_all2_conv_all_nth appended_def stored_event_def nth_enumerate_eq NewV4_def)
  ultimately show ?thesis by (simp add: written_for_def)
qed

definition view_ok :: "int64 \<times> event list \<Rightarrow> bool" where
  "view_ok v \<longleftrightarrow> 1 \<le> fst v \<and> consecutive ev_StreamVersion (fst v) (snd v)
     \<and> fst v + int (length (snd v)) - 1 < max_int64"

locale event_store_contract =
  fixes readStream :: "'s \<Rightarrow> typeid \<Rightarrow> read_stream_options \<Rightarrow> 'i result"
    and nxt :: "'i \<Rightarrow> event result \<times> 'i"
    and appendStream :: "'s \<Rightarrow> typeid \<Rightarrow> writable_event list \<Rightarrow> append_stream_options
      \<Rightarrow> event list result \<times> 's"
    and view :: "'s \<Rightarrow> typeid \<Rightarrow> (int64 \<times> event list) option"
    and valid :: "'s \<Rightarrow> bool"
    and room :: "'s \<Rightarrow> nat \<Rightarrow> bool"
    and healthy :: bool
  assumes read_missing:
      "valid s \<Longrightarrow> view s i = None \<Longrightarrow> readStream s i opts = Inl (Sentinel ErrStreamNotFound)"
    and read_found:
      "valid s \<Longrightarrow> view s i = Some v \<Longrightarrow> 0 \<le> rs_AfterVersion opts \<Longrightarrow> rs_AfterVersion opts \<le> max_int64 \<Longrightarrow>
       \<exists>it. readStream s i opts = Inr it \<and> yields nxt it (read_view v opts)"
    and view_valid: "valid s \<Longrightarrow> view s i = Some v \<Longrightarrow> view_ok v"
    and append_valid:
      "valid s \<Longrightarrow> room s (length ws) \<Longrightarrow> valid (snd (appendStream s i ws aopts))"
    and append_refused:
      "valid s \<Longrightarrow> room s (length ws) \<Longrightarrow> append_refusal i (view_tip (view s i)) aopts = Some e \<Longrightarrow>
       fst (appendStream s i ws aopts) = Inl e \<and> view (snd (appendStream s i ws aopts)) = view s"
    and append_written:
      "valid s \<Longrightarrow> room s (length ws) \<Longrightarrow> fst (appendStream s i ws aopts) = Inr es \<Longrightarrow>
       append_refusal i (view_tip (view s i)) aopts = None \<and> written_for i (view_tip (view s i)) ws es
         \<and> view (snd (appendStream s i ws aopts)) i = extend_view (view s i) es"
    and append_failed:
      "valid s \<Longrightarrow> room s (length ws) \<Longrightarrow> append_refusal i (view_tip (view s i)) aopts = None \<Longrightarrow>
       fst (appendStream s i ws aopts) = Inl e \<Longrightarrow>
       \<not> healthy \<and> SaveOutcome (Some e) = AppendOutcomeUnknown \<and> \<not> is_mismatch e \<and>
       (view (snd (appendStream s i ws aopts)) i = view s i \<or>
        (\<exists>es. written_for i (view_tip (view s i)) ws es
          \<and> view (snd (appendStream s i ws aopts)) i = extend_view (view s i) es))"
begin

lemma read_collect:
  assumes "valid s" "view s i = Some v" "0 \<le> rs_AfterVersion opts" "rs_AfterVersion opts \<le> max_int64"
  shows "\<exists>it. readStream s i opts = Inr it \<and> Collect_iter nxt it = Some (read_view v opts, None)"
  using read_found [OF assms] yields_collect by (fastforce simp: Collect_iter_def)

text \<open>
  Optimistic concurrency: after a non-empty append that expected version \<open>x\<close>, a second append
  that expects \<open>x\<close> is refused with the version the stream is at.
\<close>

lemma expected_version_spent:
  assumes "valid s" "room s (length ws)" "ws \<noteq> []" "healthy"
    and "opts = \<lparr>ExpectVersion = Some x, StreamMustNotExist = False\<rparr>" "x = view_tip (view s i)"
    and "s' = snd (appendStream s i ws opts)" "room s' (length ws')"
  shows "fst (appendStream s' i ws' opts)
     = Inl (StreamVersionMismatchError i x (x + int (length ws)))"
proof -
  have "append_refusal i (view_tip (view s i)) opts = None"
    using assms(5,6) by (simp add: append_refusal_def)
  then obtain es where es: "written_for i x ws es" "view s' i = extend_view (view s i) es"
    using append_written [OF assms(1,2), of i opts] append_failed [OF assms(1,2), of i opts]
      assms(4,6,7) by (cases "fst (appendStream s i ws opts)") auto
  have len: "length es = length ws" using es(1) by (auto simp: written_for_def dest: list_all2_lengthD)
  then have "view_tip (view s' i) = x + int (length ws)"
    using es(2) assms(3,6) by (auto simp: extend_view_def view_tip_def split: option.splits)
  moreover have "append_refusal i (x + int (length ws)) opts
      = Some (StreamVersionMismatchError i x (x + int (length ws)))"
    using assms(3,5) by (simp add: append_refusal_def)
  ultimately show ?thesis
    using append_refused [OF _ assms(8)] append_valid [OF assms(1,2)] assms(7) by metis
qed

end

lemma stream_view_ok:
  assumes "store_valid ustr st" "stream_view ustr st i = Some v"
  shows "view_ok v \<and> fst v + int (length (snd v)) - 1 \<le> globalCounter st"
proof -
  obtain s where s: "streams st (id_string ustr i) = Some s"
    "v = (firstVersion s, map decode (stream_events s))"
    using assms(2) by (cases "streams st (id_string ustr i)")
      (auto simp: stream_view_def never_written_def Let_def split: if_splits)
  note wf = store_validD(1) [OF assms(1)]
  show ?thesis
    using wf_storeD(1,2) [OF wf s(1)] wf_store_events(2) [OF wf s(1)] store_validD(2) [OF assms(1)]
    by (simp add: view_ok_def s(2))
qed

lemma ReadStream_found:
  assumes valid: "store_valid ustr st" and v: "stream_view ustr st sid = Some v"
    and opts: "min_int64 + globalCounter st \<le> rs_AfterVersion opts" "rs_AfterVersion opts \<le> max_int64"
  shows "\<exists>it. ReadStream ustr st sid opts = Inr it \<and> iter_ok it
    \<and> map decode (remaining it) = read_view v opts"
proof -
  obtain s where s: "streams st (id_string ustr sid) = Some s"
    "v = (firstVersion s, map decode (stream_events s))"
    using v by (cases "streams st (id_string ustr sid)")
      (auto simp: stream_view_def never_written_def Let_def split: if_splits)
  note wf = store_validD(1) [OF valid]
  have "iter_ok (stream_iter sid s opts) \<and>
      map decode (remaining (stream_iter sid s opts)) = read_view v opts"
    unfolding s(2) by (rule stream_iter_selects [OF wf s(1)])
      (use wf_storeD(2) [OF wf s(1)] opts in linarith)+
  then show ?thesis using v s(1) by (simp add: ReadStream_view)
qed

interpretation memory: event_store_contract "ReadStream ustr" Next "AppendStream ustr fresh now"
    "stream_view ustr" "store_valid ustr"
    "\<lambda>st n. globalCounter st + int n < max_int64" "\<forall>i. json_year_ok (now i)"
  for ustr fresh now
proof (unfold_locales, goal_cases)
  case (1 s i opts)
  then show ?case by (simp add: ReadStream_view)
next
  case (2 s i v opts)
  have "globalCounter s \<le> max_int64" using store_validD(2) [OF 2(1)] by simp
  then have "min_int64 + globalCounter s \<le> rs_AfterVersion opts"
    using 2(3) by (simp add: min_int64_def max_int64_def)
  then show ?case using ReadStream_found [OF 2(1,2) _ 2(4)] yields_remaining by metis
next
  case (3 s i v)
  then show ?case using stream_view_ok by blast
next
  case (4 s ws i opts)
  then show ?case
    using store_step_effect [OF 4(1) store_step.append [OF 4(2) prod.collapse [symmetric]]] by blast
next
  case (5 s ws i opts e)
  then show ?case
    using AppendStream_outcome [OF store_validD(1) [OF 5(1)] _ refl prod.collapse [symmetric], of ws fresh now i opts]
    by auto
next
  case (6 s ws i opts es)
  then show ?case
    using AppendStream_outcome [OF store_validD(1) [OF 6(1)] _ refl prod.collapse [symmetric], of ws fresh now i opts]
      written_for_appended by auto
next
  case (7 s ws i opts e)
  then show ?case
    using AppendStream_outcome [OF store_validD(1) [OF 7(1)] _ refl prod.collapse [symmetric], of ws fresh now i opts]
      AppendStream_error [OF store_validD(1) [OF 7(1)] 7(4,3)]
    by (auto simp: is_mismatch_def outcome_simps)
qed

section \<open>Properties\<close>

lemma reachable_valid: "store_steps ustr NewEventStore st \<Longrightarrow> store_valid ustr st"
  by (rule store_steps_valid [OF _ store_valid_New])

lemma log_length:
  assumes "wf_store ustr st" shows "int (length (globalLog st)) \<le> globalCounter st"
proof -
  have sorted: "sorted_wrt (<) (map gl_position (globalLog st))"
    and range: "set (map gl_position (globalLog st)) \<subseteq> {1..globalCounter st}"
    using assms by (auto simp: wf_store_def wf_log_def sorted_wrt_map)
  have "distinct (map gl_position (globalLog st))" using sorted strict_sorted_iff by blast
  then have "length (globalLog st) = card (set (map gl_position (globalLog st)))"
    using distinct_card by fastforce
  also have "\<dots> \<le> card {1..globalCounter st}" by (rule card_mono [OF _ range]) simp
  finally show ?thesis using assms by (simp add: wf_store_def le_nat_iff)
qed

text \<open>
  C1. The two structures of the memory store stay consistent under every history: every retained
  stream has consecutive versions from its first retained one, and the store-wide log lists events
  in strictly increasing position order, none above the counter.
\<close>

theorem store_history_invariant:
  assumes "store_steps ustr NewEventStore st"
  shows "wf_store ustr st"
  by (rule store_validD(1) [OF reachable_valid [OF assms]])

definition demo_event :: writable_event where
  "demo_event = \<lparr>we_Type = ''created'', we_Data = [1, 2], we_DataContentType = ''raw'',
     we_Metadata = None\<rparr>"

definition demo_store :: "typeid \<Rightarrow> event list result \<times> event_store" where
  "demo_store sid = AppendStream hex_string (\<lambda>_. 7) (\<lambda>_. 0) NewEventStore sid
     [demo_event, demo_event] \<lparr>ExpectVersion = None, StreamMustNotExist = True\<rparr>"

lemma demo_reachable: "store_steps hex_string NewEventStore (snd (demo_store sid))"
proof -
  have "store_step hex_string NewEventStore (snd (demo_store sid))"
    unfolding demo_store_def
    by (rule store_step.append [OF _ prod.collapse [symmetric]]) (simp add: NewEventStore_def max_int64_def)
  then show ?thesis by (rule r_into_rtranclp)
qed

lemma store_history_invariant_witness: "wf_store hex_string (snd (demo_store (New_id ''order'' 3)))"
  by (rule store_history_invariant [OF demo_reachable])

text \<open>
  C2. An append is all or nothing on every reachable store. Either it fails, with the options'
  refusal for the version the stream is at or with an encoding error, and no stream and no event of
  the log changes; or it returns the batch under the next consecutive versions, payloads unchanged,
  strings and metadata as JSON carries them (unchanged where they are UTF-8), the stream is extended
  by exactly the events returned, every other stream is as before, and the log ends with them.
\<close>

theorem AppendStream_atomic:
  assumes "store_steps ustr NewEventStore st"
    and "globalCounter st + int (length evs) < max_int64"
    and "AppendStream ustr fresh now st sid evs opts = (r, st')"
  shows "(\<exists>e. r = Inl e
        \<and> (append_refusal sid (view_tip (stream_view ustr st sid)) opts = Some e
           \<or> append_refusal sid (view_tip (stream_view ustr st sid)) opts = None
              \<and> (\<exists>i. \<not> json_year_ok (now i)))
        \<and> stream_view ustr st' = stream_view ustr st \<and> log_view st' = log_view st)
    \<or> (\<exists>es. r = Inr es
        \<and> append_refusal sid (view_tip (stream_view ustr st sid)) opts = None
        \<and> written_for sid (view_tip (stream_view ustr st sid)) evs es
        \<and> stream_view ustr st' sid = extend_view (stream_view ustr st sid) es
        \<and> (\<forall>sid'. id_string ustr sid' = id_string ustr sid
             \<or> stream_view ustr st' sid' = stream_view ustr st sid')
        \<and> log_view st' = log_view st @ es)"
  using AppendStream_outcome [OF store_validD(1) [OF reachable_valid [OF assms(1)]] _ refl assms(3)]
    assms(2) written_for_appended by auto

lemma AppendStream_atomic_witness:
  "\<exists>es. fst (demo_store (New_id ''order'' 3)) = Inr es
     \<and> written_for (New_id ''order'' 3) 0 [demo_event, demo_event] es
     \<and> stream_view hex_string (snd (demo_store (New_id ''order'' 3))) (New_id ''order'' 3) = Some (1, es)"
proof -
  let ?sid = "New_id ''order'' 3"
  have v: "stream_view hex_string NewEventStore ?sid = None"
    by (simp add: stream_view_def NewEventStore_def never_written_def)
  have r: "append_refusal ?sid 0 \<lparr>ExpectVersion = None, StreamMustNotExist = True\<rparr> = None"
    by (simp add: append_refusal_def)
  have len: "written_for ?sid 0 [demo_event, demo_event] es \<Longrightarrow> es \<noteq> []" for es
    by (auto simp: written_for_def)
  show ?thesis
    using AppendStream_atomic [OF rtranclp.rtrancl_refl _ prod.collapse [symmetric],
        of "[demo_event, demo_event]" hex_string "\<lambda>_. 7" "\<lambda>_. 0" ?sid
           "\<lparr>ExpectVersion = None, StreamMustNotExist = True\<rparr>", folded demo_store_def]
    unfolding v
    by (auto simp: view_tip_def r extend_view_def json_year_ok_def max_int64_def NewEventStore_def dest: len)
qed

text \<open>
  A version that an append expected is spent by it: any second append that expects the same
  version, whoever issues it, is refused with the version the stream has reached, so two writers
  that loaded the same version never both succeed.
\<close>

theorem AppendStream_expected_version_spent:
  assumes "store_steps ustr NewEventStore st"
    and "globalCounter st + int (length evs) < max_int64" "evs \<noteq> []" "\<forall>i. json_year_ok (now i)"
    and "x = view_tip (stream_view ustr st sid)"
    and "st' = snd (AppendStream ustr fresh now st sid evs
           \<lparr>ExpectVersion = Some x, StreamMustNotExist = False\<rparr>)"
    and "globalCounter st' + int (length evs') < max_int64"
  shows "fst (AppendStream ustr fresh now st' sid evs'
           \<lparr>ExpectVersion = Some x, StreamMustNotExist = False\<rparr>)
    = Inl (StreamVersionMismatchError sid x (x + int (length evs)))"
  by (rule memory.expected_version_spent [OF reachable_valid [OF assms(1)] assms(2,3,4) refl assms(5,6,7)])

lemma AppendStream_expected_version_spent_witness:
  "let sid = New_id ''order'' 3;
       opts = \<lparr>ExpectVersion = Some 0, StreamMustNotExist = False\<rparr>;
       app = \<lambda>st. AppendStream hex_string (\<lambda>_. 7) (\<lambda>_. 0) st sid [demo_event] opts
   in fst (app (snd (app NewEventStore))) = Inl (StreamVersionMismatchError sid 0 1)"
proof -
  let ?sid = "New_id ''order'' 3"
  let ?opts = "\<lparr>ExpectVersion = Some 0, StreamMustNotExist = False\<rparr>"
  let ?app = "\<lambda>st. AppendStream hex_string (\<lambda>_. 7) (\<lambda>_. 0) st ?sid [demo_event] ?opts"
  have v: "0 = view_tip (stream_view hex_string NewEventStore ?sid)"
    by (simp add: stream_view_def NewEventStore_def never_written_def view_tip_def)
  have "globalCounter (snd (?app NewEventStore)) \<le> globalCounter NewEventStore + int (length [demo_event])"
    using AppendStream_outcome [OF wf_store_New _ refl prod.collapse [symmetric],
        of "[demo_event]" hex_string "\<lambda>_. 7" "\<lambda>_. 0" ?sid ?opts]
    by (simp add: NewEventStore_def max_int64_def)
  then have "globalCounter (snd (?app NewEventStore)) + int (length [demo_event]) < max_int64"
    by (simp add: NewEventStore_def max_int64_def)
  then show ?thesis
    using AppendStream_expected_version_spent [OF rtranclp.rtrancl_refl _ _ _ v refl,
        of "[demo_event]" "\<lambda>_. 0" "\<lambda>_. 7" "[demo_event]"]
    by (simp add: json_year_ok_def NewEventStore_def max_int64_def)
qed

text \<open>
  C32. A stream read returns exactly the retained events the options select: forward, those above
  \<open>AfterVersion\<close>; in reverse, those up to it (all of them for 0), newest first; cut to \<open>Count\<close>
  when it is positive. A stream that was never written or was deleted is not found. The reading
  always ends, with no error and no index out of range.
\<close>

theorem ReadStream_exact:
  assumes "store_steps ustr NewEventStore st"
    and "min_int64 + globalCounter st \<le> rs_AfterVersion opts" "rs_AfterVersion opts \<le> max_int64"
  shows "case stream_view ustr st sid of
      None \<Rightarrow> ReadStream ustr st sid opts = Inl (Sentinel ErrStreamNotFound)
    | Some v \<Rightarrow> \<exists>it. ReadStream ustr st sid opts = Inr it
        \<and> Collect_iter Next it = Some (read_view v opts, None)"
  using ReadStream_found [OF reachable_valid [OF assms(1)] _ assms(2,3)] Collect_remaining
  by (fastforce simp: ReadStream_view split: option.splits)

lemma ReadStream_exact_witness:
  "ReadStream hex_string NewEventStore (New_id ''order'' 3)
     \<lparr>rs_AfterVersion = 0, rs_Count = 0, rs_Direction = Forward\<rparr> = Inl (Sentinel ErrStreamNotFound)
   \<and> (\<exists>it es. ReadStream hex_string (snd (demo_store (New_id ''order'' 3))) (New_id ''order'' 3)
        \<lparr>rs_AfterVersion = 1, rs_Count = 0, rs_Direction = Reverse\<rparr> = Inr it
      \<and> Collect_iter Next it = Some (es, None) \<and> map ev_StreamVersion es = [1])"
proof
  let ?sid = "New_id ''order'' 3"
  show "ReadStream hex_string NewEventStore ?sid
     \<lparr>rs_AfterVersion = 0, rs_Count = 0, rs_Direction = Forward\<rparr> = Inl (Sentinel ErrStreamNotFound)"
    using ReadStream_exact [OF rtranclp.rtrancl_refl, of
        "\<lparr>rs_AfterVersion = 0, rs_Count = 0, rs_Direction = Forward\<rparr>" hex_string ?sid]
    by (simp add: stream_view_def NewEventStore_def never_written_def max_int64_def min_int64_def)
  let ?st = "snd (demo_store ?sid)"
  let ?o = "\<lparr>rs_AfterVersion = 1, rs_Count = 0, rs_Direction = Reverse\<rparr>"
  have st: "globalCounter ?st \<le> 2 \<and> stream_view hex_string ?st ?sid
      = Some (1, appended (\<lambda>_. 7) (\<lambda>_. 0) ?sid 0 0 [demo_event, demo_event])"
    using AppendStream_outcome [OF wf_store_New _ refl prod.collapse [symmetric],
        of "[demo_event, demo_event]" hex_string "\<lambda>_. 7" "\<lambda>_. 0" ?sid
          "\<lparr>ExpectVersion = None, StreamMustNotExist = True\<rparr>", folded demo_store_def]
    by (auto simp: NewEventStore_def max_int64_def append_refusal_def view_tip_def extend_view_def
        stream_view_def never_written_def json_year_ok_def appended_def)
  have "min_int64 + globalCounter ?st \<le> rs_AfterVersion ?o"
    using st by (simp add: min_int64_def)
  then show "\<exists>it es. ReadStream hex_string ?st ?sid ?o = Inr it
      \<and> Collect_iter Next it = Some (es, None) \<and> map ev_StreamVersion es = [1]"
    using ReadStream_exact [OF demo_reachable, of ?sid ?o ?sid] st
    by (auto simp: max_int64_def read_view_def limited_def appended_def)
qed

text \<open>
  A global read returns exactly the retained events of the store whose position is above
  \<open>AfterPosition\<close>, in increasing position order, cut to \<open>Count\<close>: the binary search finds the
  first of them.
\<close>

theorem ReadAll_exact:
  assumes "store_steps ustr NewEventStore st"
  shows "Collect_iter Next (ReadAll st opts) = Some (read_all_view (log_view st) opts, None)"
proof -
  note valid = reachable_valid [OF assms]
  have "int (length (globalLog st)) \<le> max_int64"
    using log_length [OF store_validD(1) [OF valid]] store_validD(2) [OF valid] by linarith
  then show ?thesis
    using ReadAll_selects [OF store_validD(1) [OF valid]] Collect_remaining by metis
qed

lemma ReadAll_exact_witness:
  "Collect_iter Next (ReadAll NewEventStore \<lparr>AfterPosition = 0, ra_Count = 5\<rparr>) = Some ([], None)"
  using ReadAll_exact [OF rtranclp.rtrancl_refl, of "\<lparr>AfterPosition = 0, ra_Count = 5\<rparr>"]
  by (simp add: read_all_view_def limited_def log_view_def NewEventStore_def)

text \<open>
  Deletion. A refusal (a negative version, a stream that does not exist) changes nothing.
  Otherwise the stream is gone (\<open>ToVersion\<close> 0) or loses its events up to \<open>ToVersion\<close> and keeps
  its version, the log loses exactly the same events, and every other stream is as before.
\<close>

theorem DeleteStream_exact:
  assumes "store_steps ustr NewEventStore st"
    and "DeleteStream ustr st sid opts = (r, st')"
  shows "r = delete_refusal (stream_view ustr st sid) (ToVersion opts)
    \<and> (r = None \<or> st' = st)
    \<and> (r \<noteq> None \<or> stream_view ustr st' sid = delete_view (stream_view ustr st sid) (ToVersion opts)
         \<and> (ToVersion opts = 0 \<or>
              view_tip (stream_view ustr st' sid) = view_tip (stream_view ustr st sid))
         \<and> log_view st' = log_without ustr sid (ToVersion opts) st)
    \<and> (\<forall>sid'. id_string ustr sid' = id_string ustr sid
         \<or> stream_view ustr st' sid' = stream_view ustr st sid')"
proof -
  note valid = reachable_valid [OF assms(1)]
  note out = DeleteStream_outcome [OF store_validD [OF valid] assms(2) refl refl]
  have "view_tip (delete_view (stream_view ustr st sid) to) = view_tip (stream_view ustr st sid)"
    if "0 < to" for to
  proof (cases "stream_view ustr st sid")
    case (Some v)
    obtain fv es where fe: "v = (fv, es)" by (cases v)
    have c: "1 \<le> fv" "consecutive ev_StreamVersion fv es"
      using stream_view_ok [OF valid Some] by (auto simp: view_ok_def fe)
    show ?thesis using c that
      by (auto simp: Some fe delete_view_def view_tip_def consecutive_filter_gt min_def max_def of_nat_diff)
  qed (simp add: delete_view_def)
  moreover have "r = None \<Longrightarrow> 0 \<le> ToVersion opts"
    using out by (auto simp: delete_refusal_def split: if_splits)
  ultimately show ?thesis using out by force
qed

lemma DeleteStream_exact_witness:
  "fst (DeleteStream hex_string NewEventStore (New_id ''order'' 3) \<lparr>ToVersion = 1\<rparr>)
     = Some (Sentinel ErrStreamNotFound)"
  using DeleteStream_exact [OF rtranclp.rtrancl_refl prod.collapse [symmetric],
      of hex_string "New_id ''order'' 3" "\<lparr>ToVersion = 1\<rparr>"]
  by (simp add: delete_refusal_def stream_view_def NewEventStore_def never_written_def)

text \<open>
  Positions are final. Whatever happens to a store after a moment, the events it then shows
  up to the position counter of that moment are a selection of the events it showed then: nothing
  appears below a position a reader has passed, and no position is handed out twice.
\<close>

theorem log_positions_final:
  assumes "store_steps ustr NewEventStore st" "store_steps ustr st st'"
  shows "globalCounter st \<le> globalCounter st' \<and>
    (\<exists>P. filter (\<lambda>e. the (ev_GlobalPosition e) \<le> globalCounter st) (log_view st')
       = filter P (log_view st))"
  using store_steps_log_extends [OF assms(2) reachable_valid [OF assms(1)]]
  by (simp add: log_extends_def)

lemma log_positions_final_witness:
  "globalCounter NewEventStore \<le> globalCounter (snd (demo_store (New_id ''order'' 3)))"
  using log_positions_final [OF rtranclp.rtrancl_refl demo_reachable] by blast

end
