(* ===== verification/Projection.thy ===== *)
theory Projection
  imports StoreReads
begin

text \<open>
  The projection package: the versioned projection identity and its canonical string
  (\<open>projection/projection.go\<close>), and the one-shot fold of a handler over an event stream
  (\<open>projection/fold.go\<close>), with the decimal conversions of \<open>strconv\<close> they and the snapshot store
  rest on.
\<close>

section \<open>Decimal numerals\<close>

definition digit_char :: "nat \<Rightarrow> char" where
  "digit_char d = char_of (48 + d)"

definition is_digit :: "char \<Rightarrow> bool" where
  "is_digit c \<longleftrightarrow> 48 \<le> (of_char c :: nat) \<and> (of_char c :: nat) \<le> 57"

definition digit_val :: "char \<Rightarrow> nat" where
  "digit_val c = of_char c - 48"

fun nat_digits :: "nat \<Rightarrow> string" where
  "nat_digits n = (if n < 10 then [digit_char n] else nat_digits (n div 10) @ [digit_char (n mod 10)])"

declare nat_digits.simps [simp del]

text \<open>\<open>strconv.Itoa\<close> and \<open>strconv.FormatInt(i, 10)\<close>.\<close>

definition itoa :: "int \<Rightarrow> string" where
  "itoa i = (if i < 0 then ''-'' @ nat_digits (nat (- i)) else nat_digits (nat i))"

text \<open>\<open>strconv.ParseInt(s, 10, 64)\<close>; \<open>None\<close> is a syntax or a range error.\<close>

definition digits_val :: "string \<Rightarrow> nat" where
  "digits_val ds = foldl (\<lambda>a c. a * 10 + digit_val c) 0 ds"

definition ParseInt :: "string \<Rightarrow> int64 option" where
  "ParseInt s =
     (let neg = (s \<noteq> [] \<and> hd s = CHR ''-'');
          ds = (if s \<noteq> [] \<and> (hd s = CHR ''-'' \<or> hd s = CHR ''+'') then tl s else s)
      in if ds = [] \<or> \<not> list_all is_digit ds then None
         else let v = (if neg then - int (digits_val ds) else int (digits_val ds))
              in if in64 v then Some v else None)"

lemma digit_char_facts:
  assumes "d < 10" shows "is_digit (digit_char d)" "digit_val (digit_char d) = d"
proof -
  have "(of_char (digit_char d) :: nat) = 48 + d"
    using assms by (simp add: digit_char_def)
  then show "is_digit (digit_char d)" "digit_val (digit_char d) = d"
    using assms by (simp_all add: is_digit_def digit_val_def)
qed

lemma nat_digits_digit: "list_all is_digit (nat_digits n)"
  by (induction n rule: nat_digits.induct)
    (subst nat_digits.simps, auto simp: digit_char_facts)

lemma nat_digits_nonempty [simp]: "nat_digits n \<noteq> []"
  by (subst nat_digits.simps) simp

lemma digits_val_nat_digits: "digits_val (nat_digits n) = n"
proof (induction n rule: nat_digits.induct)
  case (1 n)
  show ?case
  proof (cases "n < 10")
    case True
    then show ?thesis by (subst nat_digits.simps) (simp add: digits_val_def digit_char_facts)
  next
    case False
    then have "digits_val (nat_digits (n div 10) @ [digit_char (n mod 10)]) = n"
      using 1 by (simp add: digits_val_def digit_char_facts)
    then show ?thesis using False by (subst nat_digits.simps) simp
  qed
qed

lemma not_is_digit [simp]: "\<not> is_digit (CHR ''-'')" "\<not> is_digit (CHR ''+'')" "\<not> is_digit (CHR ''_'')"
  by (simp_all add: is_digit_def)

lemma nat_digits_hd: "hd (nat_digits n) \<noteq> CHR ''-'' \<and> hd (nat_digits n) \<noteq> CHR ''+''"
proof -
  have "is_digit (hd (nat_digits n))"
    using nat_digits_digit [of n] nat_digits_nonempty [of n] by (cases "nat_digits n") auto
  then show ?thesis by auto
qed

lemma ParseInt_itoa: "in64 i \<Longrightarrow> ParseInt (itoa i) = Some i"
  using nat_digits_hd [of "nat i"]
  by (auto simp: ParseInt_def itoa_def Let_def nat_digits_digit digits_val_nat_digits)

text \<open>A decimal numeral is ASCII, so JSON carries it as it is.\<close>

lemma itoa_utf8: "is_utf8 (itoa i)"
proof (rule ascii_is_utf8)
  have "is_digit c \<Longrightarrow> byte_in 0 127 c" for c by (simp add: is_digit_def byte_in_def)
  then have "list_all (byte_in 0 127) (nat_digits n)" for n
    using nat_digits_digit [of n] by (auto simp: list_all_iff)
  then show "list_all (byte_in 0 127) (itoa i)" by (simp add: itoa_def byte_in_def)
qed

lemma nat_digits_length: "n < 10 ^ k \<Longrightarrow> 0 < k \<Longrightarrow> length (nat_digits n) \<le> k"
proof (induction n arbitrary: k rule: nat_digits.induct)
  case (1 n)
  show ?case
  proof (cases "n < 10")
    case True
    then show ?thesis using 1(3) by (subst nat_digits.simps) simp
  next
    case False
    obtain j where j: "k = Suc j" using 1(3) by (cases k) auto
    have "j \<noteq> 0"
    proof
      assume "j = 0"
      then show False using 1(2) False j by simp
    qed
    with j have k: "k = Suc j" "0 < j" by auto
    then have "n div 10 < 10 ^ j" using 1(2) by (simp add: div_less_iff_less_mult mult.commute)
    then show ?thesis using 1(1) [OF False _ k(2)] False k(1) by (subst nat_digits.simps) simp
  qed
qed

section \<open>Projection identity\<close>

record projection_id =
  Name :: string
  Version :: int64

definition projection_String :: "projection_id \<Rightarrow> string" where
  "projection_String i = Name i @ ''_v'' @ itoa (Version i)"

definition MaxNameLength :: nat where
  "MaxNameLength = 40"

definition is_lower :: "char \<Rightarrow> bool" where
  "is_lower c \<longleftrightarrow> CHR ''a'' \<le> c \<and> c \<le> CHR ''z''"

definition projection_Validate :: "projection_id \<Rightarrow> go_error option" where
  "projection_Validate i =
     (if Name i = [] then Some (Text ''projection name is required'')
      else if MaxNameLength < length (Name i) then Some (Text ''projection name must be at most 40 characters'')
      else if \<not> is_lower (hd (Name i)) then Some (Text ''projection name must start with a lowercase letter'')
      else if last (Name i) = CHR ''_'' then Some (Text ''projection name must not end with an underscore'')
      else if Version i < 1 then Some (Text ''projection version must be positive'')
      else if list_all (\<lambda>c. is_lower c \<or> is_digit c \<or> c = CHR ''_'') (Name i) then None
      else Some (Text ''projection name must not contain the character''))"

lemma itoa_no_underscore: "CHR ''_'' \<notin> set (itoa i)"
  using nat_digits_digit [of "nat i"] nat_digits_digit [of "nat (- i)"]
  by (auto simp: itoa_def list_all_iff)

lemma itoa_inj:
  assumes "itoa i = itoa j" shows "i = j"
proof -
  have pos: "nat_digits (nat a) \<noteq> CHR ''-'' # ds" for a ds
    using nat_digits_hd [of "nat a"] by (metis list.sel(1))
  have "nat_digits m = nat_digits n \<Longrightarrow> m = n" for m n
    by (metis digits_val_nat_digits)
  then show ?thesis using assms pos pos [symmetric]
    by (fastforce simp: itoa_def split: if_splits)
qed

lemma last_segment_unique:
  assumes "xs @ c # ys = xs' @ c # ys'" "c \<notin> set ys" "c \<notin> set ys'"
  shows "xs = xs' \<and> ys = ys'"
proof -
  have "rev ys @ c # rev xs = rev ys' @ c # rev xs'"
    using arg_cong [OF assms(1), of rev] by simp
  moreover have "takeWhile (\<lambda>x. x \<noteq> c) (rev zs @ c # rs) = rev zs" if "c \<notin> set zs" for zs rs
    using that by (subst takeWhile_append2) auto
  ultimately have "rev ys = rev ys'" using assms(2,3) by metis
  then show ?thesis using assms(1) by simp
qed

lemma projection_String_inj: "projection_String i = projection_String j \<Longrightarrow> i = j"
proof -
  assume eq: "projection_String i = projection_String j"
  have "Name i = Name j \<and> CHR ''v'' # itoa (Version i) = CHR ''v'' # itoa (Version j)"
    by (rule last_segment_unique [of _ "CHR ''_''"])
      (use eq itoa_no_underscore in \<open>auto simp: projection_String_def\<close>)
  then show "i = j" using itoa_inj by (cases i; cases j) auto
qed

text \<open>
  The canonical string of a projection identity can stand for the identity: distinct
  identities have distinct strings, whatever underscores and digits the names contain.
\<close>

theorem projection_String_injective:
  "projection_String i = projection_String j \<longleftrightarrow> i = j"
  using projection_String_inj by blast

text \<open>
  The string of a valid identity is a safe unquoted storage identifier: it starts with a
  lowercase letter, contains only lowercase letters, digits and underscores, and with any 64-bit
  version it is at most 61 bytes long, within the 63 bytes to which PostgreSQL truncates names.
\<close>

theorem projection_String_safe:
  assumes "projection_Validate i = None" "in64 (Version i)"
  shows "is_lower (hd (projection_String i))
    \<and> list_all (\<lambda>c. is_lower c \<or> is_digit c \<or> c = CHR ''_'') (projection_String i)
    \<and> length (projection_String i) \<le> 61"
proof -
  have name: "Name i \<noteq> []" "length (Name i) \<le> 40" "is_lower (hd (Name i))" "1 \<le> Version i"
    "list_all (\<lambda>c. is_lower c \<or> is_digit c \<or> c = CHR ''_'') (Name i)"
    using assms(1) by (auto simp: projection_Validate_def MaxNameLength_def split: if_splits)
  have v: "is_lower (CHR ''v'')" by (simp add: is_lower_def less_eq_char_def)
  have digits: "list_all is_digit (itoa (Version i))"
    using name(4) nat_digits_digit by (simp add: itoa_def)
  have "nat (Version i) < 10 ^ 19"
    using assms(2) name(4) by (simp add: in64_def max_int64_def nat_less_iff)
  then have "length (itoa (Version i)) \<le> 19"
    using name(4) nat_digits_length [of "nat (Version i)" 19] by (simp add: itoa_def)
  then show ?thesis
    using name v digits by (auto simp: projection_String_def list_all_iff)
qed

lemma projection_String_safe_witness:
  "length (projection_String \<lparr>Name = ''orders'', Version = 7\<rparr>) \<le> 61"
  using projection_String_safe [of "\<lparr>Name = ''orders'', Version = 7\<rparr>"]
  by (simp add: projection_Validate_def MaxNameLength_def is_lower_def is_digit_def less_eq_char_def
      in64_def max_int64_def min_int64_def)

section \<open>The fold\<close>

record fold_result =
  NumProjectedEvents :: int64
  NumFailedEvents :: int64

text \<open>
  \<open>Fold.Project\<close>. The handler works on a state of its own, threaded through; an event reaches it
  as a possibly nil pointer. \<open>None\<close> is a loop that never ends.
\<close>

partial_function (option) project_loop ::
  "('i \<Rightarrow> event result \<times> 'i) \<Rightarrow> bool \<Rightarrow> (event option \<Rightarrow> 'h \<Rightarrow> go_error option \<times> 'h)
   \<Rightarrow> 'i \<Rightarrow> 'h \<Rightarrow> fold_result \<Rightarrow> (go_error option \<times> fold_result \<times> 'h) option"
where
  "project_loop nxt cont handle iter h result =
     (case nxt iter of
        (Inl err, iter') \<Rightarrow>
          if errors_is err ErrEndOfEventStream then Some (None, result, h)
          else Some (Some (fmt_wrap ''reading event'' err), result, h)
      | (Inr event, iter') \<Rightarrow>
          (case handle (Some event) h of
             (Some err, h') \<Rightarrow>
               let result' = result\<lparr>NumFailedEvents := wrap64 (NumFailedEvents result + 1)\<rparr>
               in if cont then project_loop nxt cont handle iter' h' result'
                  else Some (Some (fmt_wrap ''processing event'' err), result', h')
           | (None, h') \<Rightarrow> project_loop nxt cont handle iter' h'
               (result\<lparr>NumProjectedEvents := wrap64 (NumProjectedEvents result + 1)\<rparr>)))"

definition Project ::
  "('i \<Rightarrow> event result \<times> 'i) \<Rightarrow> bool \<Rightarrow> (event option \<Rightarrow> 'h \<Rightarrow> go_error option \<times> 'h) option
   \<Rightarrow> 'i \<Rightarrow> 'h \<Rightarrow> (go_error option \<times> fold_result \<times> 'h) option" where
  "Project nxt cont eventHandler iter h =
     (case eventHandler of
        None \<Rightarrow> Some (Some (Text ''event handler is required''), \<lparr>NumProjectedEvents = 0, NumFailedEvents = 0\<rparr>, h)
      | Some handle \<Rightarrow> project_loop nxt cont handle iter h
          \<lparr>NumProjectedEvents = 0, NumFailedEvents = 0\<rparr>)"

text \<open>The specification: handling the events of a list in order, stopping at the first failure.\<close>

fun handle_all :: "(event option \<Rightarrow> 'h \<Rightarrow> go_error option \<times> 'h) \<Rightarrow> event list \<Rightarrow> 'h \<Rightarrow> go_error option \<times> 'h" where
  "handle_all handle [] h = (None, h)"
| "handle_all handle (e # es) h = (case handle (Some e) h of
     (Some err, h') \<Rightarrow> (Some (fmt_wrap ''processing event'' err), h')
   | (None, h') \<Rightarrow> handle_all handle es h')"

text \<open>The outcome of each event when every event is handled, failing or not.\<close>

fun handle_each :: "(event option \<Rightarrow> 'h \<Rightarrow> go_error option \<times> 'h) \<Rightarrow> event list \<Rightarrow> 'h \<Rightarrow> go_error option list \<times> 'h" where
  "handle_each handle [] h = ([], h)"
| "handle_each handle (e # es) h = (case handle (Some e) h of (r, h') \<Rightarrow>
     case handle_each handle es h' of (rs, h'') \<Rightarrow> (r # rs, h''))"

lemma handle_each_length: "length (fst (handle_each handle es h)) = length es"
  by (induction es arbitrary: h) (auto split: prod.split, metis fst_conv)

lemma project_loop_stops:
  "yields nxt it es \<Longrightarrow> \<exists>r. project_loop nxt False handle it h result =
     Some (fst (handle_all handle es h), r, snd (handle_all handle es h))"
proof (induction es arbitrary: it h result)
  case Nil
  then show ?case
    by (cases "nxt it") (simp add: project_loop.simps [of nxt False handle it] errors_is.simps)
next
  case (Cons e es)
  then obtain it' where it': "nxt it = (Inr e, it')" "yields nxt it' es"
    by (cases "nxt it") auto
  then show ?case
    using Cons.IH
    by (cases "handle (Some e) h"; cases "fst (handle (Some e) h)")
      (auto simp: project_loop.simps [of nxt False handle it] Let_def)
qed

lemma project_loop_continues:
  assumes "yields nxt it es" "0 \<le> NumProjectedEvents result" "0 \<le> NumFailedEvents result"
    "NumProjectedEvents result + NumFailedEvents result + int (length es) \<le> max_int64"
  shows "project_loop nxt True handle it h result = (case handle_each handle es h of (rs, h') \<Rightarrow>
     Some (None, \<lparr>NumProjectedEvents = NumProjectedEvents result + int (length (filter (\<lambda>r. r = None) rs)),
                  NumFailedEvents = NumFailedEvents result + int (length (filter (\<lambda>r. r \<noteq> None) rs))\<rparr>, h'))"
  using assms
proof (induction es arbitrary: it h result)
  case Nil
  then show ?case
    by (cases "nxt it") (simp add: project_loop.simps [of nxt True handle it] errors_is.simps)
next
  case (Cons e es)
  then obtain it' where it': "nxt it = (Inr e, it')" "yields nxt it' es"
    by (cases "nxt it") auto
  have w: "wrap64 (NumProjectedEvents result + 1) = NumProjectedEvents result + 1"
    "wrap64 (NumFailedEvents result + 1) = NumFailedEvents result + 1"
    using Cons.prems(2-4) by (auto intro!: wrap64_id in64_nonneg)
  obtain r h' where h: "handle (Some e) h = (r, h')" by fastforce
  show ?case
    using Cons.IH [OF it'(2), of "result\<lparr>NumProjectedEvents := NumProjectedEvents result + 1\<rparr>" h']
      Cons.IH [OF it'(2), of "result\<lparr>NumFailedEvents := NumFailedEvents result + 1\<rparr>" h']
      Cons.prems(2-4) it'(1) h w
    by (cases r) (auto simp: project_loop.simps [of nxt True handle it] Let_def split: prod.splits)
qed

text \<open>
  A fold over an iterator that yields the events \<open>es\<close> ends. By default it handles them in
  order up to the first that fails, whose error it reports; told to continue, it handles every
  event once, in order, reports no error and counts exactly the handled and the failed ones.
\<close>

theorem Project_handles:
  assumes "yields nxt it es" "int (length es) \<le> max_int64"
  shows "(\<exists>result. Project nxt False (Some handle) it h
       = Some (fst (handle_all handle es h), result, snd (handle_all handle es h)))
    \<and> (case handle_each handle es h of (rs, h') \<Rightarrow>
         Project nxt True (Some handle) it h = Some (None,
           \<lparr>NumProjectedEvents = int (length (filter (\<lambda>r. r = None) rs)),
            NumFailedEvents = int (length (filter (\<lambda>r. r \<noteq> None) rs))\<rparr>, h')
         \<and> length rs = length es)"
  using project_loop_stops [OF assms(1)] handle_each_length [of handle es h]
    project_loop_continues [OF assms(1), of "\<lparr>NumProjectedEvents = 0, NumFailedEvents = 0\<rparr>" handle h] assms(2)
  by (auto simp: Project_def split: prod.splits)

lemma Project_handles_witness:
  "\<forall>e. Project (\<lambda>l. case l of [] \<Rightarrow> (Inl (Sentinel ErrEndOfEventStream), []) | e # es \<Rightarrow> (Inr e, es))
     True (Some (\<lambda>e n. if n = 1 then (Some (Text ''x''), n + 1) else (None, n + 1))) [e, e, e] (0::nat)
   = Some (None, \<lparr>NumProjectedEvents = 2, NumFailedEvents = 1\<rparr>, 3)"
proof
  fix e
  show "Project (\<lambda>l. case l of [] \<Rightarrow> (Inl (Sentinel ErrEndOfEventStream), []) | e # es \<Rightarrow> (Inr e, es))
     True (Some (\<lambda>e n. if n = 1 then (Some (Text ''x''), n + 1) else (None, n + 1))) [e, e, e] (0::nat)
   = Some (None, \<lparr>NumProjectedEvents = 2, NumFailedEvents = 1\<rparr>, 3)"
    using Project_handles [of "\<lambda>l. case l of [] \<Rightarrow> (Inl (Sentinel ErrEndOfEventStream), []) | e # es \<Rightarrow> (Inr e, es)"
        "[e, e, e]" "[e, e, e]"
        "\<lambda>e n. if n = 1 then (Some (Text ''x''), n + 1) else (None, n + 1)" "0::nat"]
    by (simp add: max_int64_def)
qed

end
