(* ===== verification/AggregateStore.thy ===== *)
theory AggregateStore
  imports Projection Cancellation
begin

text \<open>
  Aggregates (\<open>aggregatestore/aggregate.go\<close>), the store interface and its options
  (\<open>aggregate_store.go\<close>) and the event-sourced store (\<open>event_sourced_store.go\<close>).
  The domain is a parameter: \<open>'e\<close> are its events, \<open>'s\<close> its states, and \<open>domain\<close> the two
  methods of a domain event the stores call. An aggregate pointer is an option, and an operation
  that mutates the aggregate returns it. \<open>'db\<close> is the state of the event store behind the reader
  and writer interfaces, \<open>'i\<close> the iterators it hands out.
\<close>

section \<open>Aggregates\<close>

record ('e, 's) domain =
  eventType :: "'e \<Rightarrow> string"
  applyTo :: "'e \<Rightarrow> 's \<Rightarrow> 's"

record 'e agg_event =
  ae_ID :: typeid
  ae_Version :: int64
  ae_Timestamp :: time
  ae_DomainEvent :: 'e
  ae_Metadata :: metadata

record ('e, 's) aggregate =
  agg_id :: typeid
  agg_version :: int64
  agg_state :: 's
  unsavedEvents :: "'e agg_event list"
  unappliedEvents :: "'e agg_event list"

definition zero_id :: typeid where
  "zero_id = New_id '''' 0"

definition newAggregate :: "typeid \<Rightarrow> 's \<Rightarrow> int64 \<Rightarrow> ('e, 's) aggregate" where
  "newAggregate i state version = \<lparr>agg_id = i, agg_version = version, agg_state = state,
     unsavedEvents = [], unappliedEvents = []\<rparr>"

definition AppendWithMetadata ::
  "metadata \<Rightarrow> 'e list \<Rightarrow> ('e, 's) aggregate \<Rightarrow> ('e, 's) aggregate" where
  "AppendWithMetadata metadata events a = a\<lparr>unsavedEvents := unsavedEvents a @
     map (\<lambda>event. \<lparr>ae_ID = zero_id, ae_Version = 0, ae_Timestamp = 0,
                    ae_DomainEvent = event, ae_Metadata = metadata\<rparr>) events\<rparr>"

definition Append :: "'e list \<Rightarrow> ('e, 's) aggregate \<Rightarrow> ('e, 's) aggregate" where
  "Append events a = AppendWithMetadata None events a"

definition clearUnsavedEvents :: "('e, 's) aggregate \<Rightarrow> ('e, 's) aggregate" where
  "clearUnsavedEvents a = a\<lparr>unsavedEvents := []\<rparr>"

definition DiscardUnsavedEvents :: "('e, 's) aggregate \<Rightarrow> ('e, 's) aggregate" where
  "DiscardUnsavedEvents a = clearUnsavedEvents a"

definition MergeEventMetadata :: "metadata \<Rightarrow> ('e, 's) aggregate \<Rightarrow> ('e, 's) aggregate" where
  "MergeEventMetadata metadata a =
     (case metadata of
        None \<Rightarrow> a
      | Some m \<Rightarrow> if m = Map.empty then a
          else a\<lparr>unsavedEvents := map (\<lambda>event. event\<lparr>ae_Metadata := Some
                 (case ae_Metadata event of None \<Rightarrow> m | Some old \<Rightarrow> old ++ m)\<rparr>) (unsavedEvents a)\<rparr>)"

definition applyNext ::
  "('e, 's) domain \<Rightarrow> ('e, 's) aggregate \<Rightarrow> go_error option \<times> ('e, 's) aggregate" where
  "applyNext d a = (case unappliedEvents a of
     [] \<Rightarrow> (Some (Sentinel ErrNoUnappliedEvents), a)
   | e # es \<Rightarrow>
       if agg_version a = max_int64
       then (Some (Text ''aggregate is at the maximum version; no further events can be applied''), a)
       else if ae_Version e \<noteq> wrap64 (agg_version a + 1)
       then (Some (Text ''event version mismatch''), a)
       else (None, a\<lparr>agg_state := applyTo d (ae_DomainEvent e) (agg_state a),
                     agg_version := ae_Version e, unappliedEvents := es\<rparr>))"

definition setStateAtVersion :: "'s \<Rightarrow> int64 \<Rightarrow> ('e, 's) aggregate \<Rightarrow> ('e, 's) aggregate" where
  "setStateAtVersion state version a = a\<lparr>agg_state := state, agg_version := version\<rparr>"

definition willApply :: "'e agg_event \<Rightarrow> ('e, 's) aggregate \<Rightarrow> ('e, 's) aggregate" where
  "willApply event a = a\<lparr>unappliedEvents := unappliedEvents a @ [event]\<rparr>"

section \<open>The store interface\<close>

record load_options =
  lo_ToVersion :: int64

record hydrate_options =
  ho_ToVersion :: int64

record save_options =
  SkipApply :: bool

definition LoadOptions_Validate :: "load_options \<Rightarrow> go_error option" where
  "LoadOptions_Validate opts =
     (if lo_ToVersion opts < 0 then Some (Text ''ToVersion cannot be negative'') else None)"

definition HydrateOptions_Validate :: "hydrate_options \<Rightarrow> go_error option" where
  "HydrateOptions_Validate opts =
     (if ho_ToVersion opts < 0 then Some (Text ''ToVersion cannot be negative'') else None)"

text \<open>
  \<open>Store[S]\<close>: an aggregate store as a bundle of operations on the state behind it, for the stores
  that wrap another. A \<open>None\<close> of \<open>Load\<close> and \<open>Hydrate\<close> is a read that never ends.
\<close>

record ('e, 's, 'db) store_ops =
  AggregateType :: string
  New :: "uuid \<Rightarrow> ('e, 's) aggregate"
  Load :: "'db \<Rightarrow> uuid \<Rightarrow> load_options option \<Rightarrow> (('e, 's) aggregate result \<times> 'db) option"
  Hydrate :: "'db \<Rightarrow> ('e, 's) aggregate option \<Rightarrow> hydrate_options option
    \<Rightarrow> (go_error option \<times> ('e, 's) aggregate option) option"
  Save :: "'db \<Rightarrow> ('e, 's) aggregate option \<Rightarrow> save_options option
    \<Rightarrow> go_error option \<times> ('e, 's) aggregate option \<times> 'db"

section \<open>The event-sourced store\<close>

text \<open>
  What a prototype's \<open>New\<close> returns, as far as the code tells by reflection: nil, a pointer, or a
  value of the event type.
\<close>

datatype 'e event_value = Nil_event | Pointer 'e | Value 'e

record 'e prototype =
  proto_EventType :: string
  proto_New :: "'e event_value"

text \<open>\<open>UnmarshalDomainEvent\<close> writes into its destination, so it returns the new content.\<close>

record 'e event_codec =
  MarshalDomainEvent :: "'e \<Rightarrow> bytes result"
  UnmarshalDomainEvent :: "bytes \<Rightarrow> 'e event_value \<Rightarrow> 'e result"
  codec_ContentType :: string

record ('e, 's, 'db, 'i) es_store =
  eventReader :: "(('db \<Rightarrow> typeid \<Rightarrow> read_stream_options \<Rightarrow> 'i result) \<times> ('i \<Rightarrow> event result \<times> 'i)) option"
  eventWriter :: "('db \<Rightarrow> typeid \<Rightarrow> writable_event list \<Rightarrow> append_stream_options
     \<Rightarrow> event list result \<times> 'db) option"
  aggregateType :: string
  newState :: "uuid \<Rightarrow> 's"
  domainEventPrototypes :: "string \<rightharpoonup> 'e event_value"
  domainEventCodec :: "'e event_codec"

text \<open>
  \<open>pointerConstructor\<close>: a value-returning constructor is wrapped to return a pointer to a fresh
  copy of its value; nil- and pointer-returning ones are used as they are.
\<close>

fun pointerConstructor :: "'e event_value \<Rightarrow> 'e event_value" where
  "pointerConstructor Nil_event = Nil_event"
| "pointerConstructor (Pointer e) = Pointer e"
| "pointerConstructor (Value e) = Pointer e"

fun Use :: "'e prototype list \<Rightarrow> ('e, 's, 'db, 'i) es_store
  \<Rightarrow> go_error option \<times> ('e, 's, 'db, 'i) es_store" where
  "Use [] s = (None, s)"
| "Use (prototype # ps) s =
     (let et = proto_EventType prototype in
      case ValidateTypeName et of
        Some err \<Rightarrow> (Some (Wrap (InitializeError ''registering domain event prototype'')
                        (fmt_wrap ''invalid event type'' (Text ''type name''))), s)
      | None \<Rightarrow>
          if et \<in> dom (domainEventPrototypes s)
          then (Some (Wrap (InitializeError ''registering domain event prototype'')
                  (Text (''duplicate event type '' @ et))), s)
          else Use ps (s\<lparr>domainEventPrototypes := (domainEventPrototypes s)
                 (et \<mapsto> pointerConstructor (proto_New prototype))\<rparr>))"

text \<open>
  The constructor. \<open>jsonCodec\<close> is the default codec, reflection over the caller's event types.
\<close>

definition New_EventSourcedStore ::
  "'e event_codec
   \<Rightarrow> ('db \<Rightarrow> typeid \<Rightarrow> read_stream_options \<Rightarrow> 'i result) \<times> ('i \<Rightarrow> event result \<times> 'i)
   \<Rightarrow> ('db \<Rightarrow> typeid \<Rightarrow> writable_event list \<Rightarrow> append_stream_options \<Rightarrow> event list result \<times> 'db)
   \<Rightarrow> string \<Rightarrow> (uuid \<Rightarrow> 's)
   \<Rightarrow> (('e, 's, 'db, 'i) es_store \<Rightarrow> go_error option \<times> ('e, 's, 'db, 'i) es_store) list
   \<Rightarrow> ('e, 's, 'db, 'i) es_store result" where
  "New_EventSourcedStore jsonCodec reader writer atype stateFactory opts =
     (case ValidateTypeName atype of
        Some err \<Rightarrow> Inl (Wrap (InitializeError '''') (fmt_wrap ''invalid aggregate type'' (Text ''type name'')))
      | None \<Rightarrow>
          if hasPrefix atype ReservedStreamTypePrefix \<and> \<not> reserved_Allowed atype
          then Inl (Wrap (InitializeError '''') (Text ''aggregate type uses the reserved prefix''))
          else
            let applied = fold (\<lambda>opt r. case r of
                    Inl e \<Rightarrow> Inl e
                  | Inr s \<Rightarrow> (case opt s of
                      (Some err, s') \<Rightarrow> Inl (Wrap (InitializeError ''applying option'') err)
                    | (None, s') \<Rightarrow> Inr s')) opts
                  (Inr \<lparr>eventReader = Some reader, eventWriter = Some writer, aggregateType = atype,
                        newState = stateFactory, domainEventPrototypes = Map.empty,
                        domainEventCodec = jsonCodec\<rparr>)
            in case applied of
                 Inl e \<Rightarrow> Inl e
               | Inr s \<Rightarrow> (case (eventReader s, eventWriter s) of
                     (None, None) \<Rightarrow> Inl (Wrap (InitializeError '''')
                        (Text ''no event stream reader or writer provided''))
                   | _ \<Rightarrow> Inr s))"

text \<open>The options.\<close>

definition WithEventTypes ::
  "'e prototype list \<Rightarrow> ('e, 's, 'db, 'i) es_store \<Rightarrow> go_error option \<times> ('e, 's, 'db, 'i) es_store" where
  "WithEventTypes ps s = Use ps s"

definition WithEventStreamReader ::
  "(('db \<Rightarrow> typeid \<Rightarrow> read_stream_options \<Rightarrow> 'i result) \<times> ('i \<Rightarrow> event result \<times> 'i)) option
   \<Rightarrow> ('e, 's, 'db, 'i) es_store \<Rightarrow> go_error option \<times> ('e, 's, 'db, 'i) es_store" where
  "WithEventStreamReader reader s = (None, s\<lparr>eventReader := reader\<rparr>)"

definition WithEventStreamWriter ::
  "('db \<Rightarrow> typeid \<Rightarrow> writable_event list \<Rightarrow> append_stream_options \<Rightarrow> event list result \<times> 'db) option
   \<Rightarrow> ('e, 's, 'db, 'i) es_store \<Rightarrow> go_error option \<times> ('e, 's, 'db, 'i) es_store" where
  "WithEventStreamWriter writer s = (None, s\<lparr>eventWriter := writer\<rparr>)"

definition WithDomainEventCodec ::
  "'e event_codec \<Rightarrow> ('e, 's, 'db, 'i) es_store \<Rightarrow> go_error option \<times> ('e, 's, 'db, 'i) es_store" where
  "WithDomainEventCodec codec s = (None, s\<lparr>domainEventCodec := codec\<rparr>)"

definition ES_New :: "('e, 's, 'db, 'i) es_store \<Rightarrow> uuid \<Rightarrow> ('e, 's) aggregate" where
  "ES_New s i = newAggregate (New_id (aggregateType s) i) (newState s i) 0"

text \<open>\<open>eventHandlerForAggregate\<close>: decode, enqueue, apply.\<close>

definition eventHandlerForAggregate ::
  "('e, 's) domain \<Rightarrow> ('e, 's, 'db, 'i) es_store \<Rightarrow> event option \<Rightarrow> ('e, 's) aggregate
   \<Rightarrow> go_error option \<times> ('e, 's) aggregate" where
  "eventHandlerForAggregate d s ev a =
     (case ev of
        None \<Rightarrow> (Some (Wrap (HydrateError (agg_id a) ''event handler'')
                  (Text ''received nil event in event handler'')), a)
      | Some event \<Rightarrow>
     (case domainEventPrototypes s (id_type (ev_ID event)) of
        None \<Rightarrow> (Some (Wrap (HydrateError (agg_id a) ''obtaining domain event prototype'')
                  (Text ''no prototype registered for event type'')), a)
      | Some newEvent \<Rightarrow>
          if (case newEvent of Nil_event \<Rightarrow> True | _ \<Rightarrow> False)
          then (Some (Wrap (HydrateError (agg_id a) ''creating domain event instance'')
                  (Text ''prototype.New() returned nil for event type'')), a)
          else case UnmarshalDomainEvent (domainEventCodec s) (ev_Data event) newEvent of
             Inl err \<Rightarrow> (Some (Wrap (HydrateError (agg_id a) ''unmarshaling event data'')
                  (fmt_wrap ''failed to unmarshal event data for event type'' err)), a)
           | Inr domainEvent \<Rightarrow>
               (case applyNext d (willApply \<lparr>ae_ID = ev_ID event, ae_Version = ev_StreamVersion event,
                      ae_Timestamp = ev_Timestamp event, ae_DomainEvent = domainEvent,
                      ae_Metadata = ev_Metadata event\<rparr> a) of
                  (Some err, a') \<Rightarrow> (Some (Wrap (HydrateError (agg_id a) ''applying aggregate event'')
                      (fmt_wrap ''failed to apply event type'' err)), a')
                | (None, a') \<Rightarrow> (None, a'))))"

definition ES_Hydrate ::
  "('e, 's) domain \<Rightarrow> ('e, 's, 'db, 'i) es_store \<Rightarrow> 'db \<Rightarrow> ('e, 's) aggregate option
   \<Rightarrow> hydrate_options option \<Rightarrow> (go_error option \<times> ('e, 's) aggregate option) option" where
  "ES_Hydrate d s db agg opts =
     (let o' = (case opts of None \<Rightarrow> \<lparr>ho_ToVersion = 0\<rparr> | Some o' \<Rightarrow> o') in
      case agg of
        None \<Rightarrow> Some (Some (Wrap (HydrateError zero_id '''') (Sentinel ErrNilAggregate)), None)
      | Some a \<Rightarrow>
     (case eventReader s of
        None \<Rightarrow> Some (Some (Wrap (HydrateError (agg_id a) '''')
                   (Text ''event store has no event stream reader'')), Some a)
      | Some (readStream, nxt) \<Rightarrow>
     (case HydrateOptions_Validate o' of
        Some err \<Rightarrow> Some (Some (Wrap (HydrateError (agg_id a) '''')
                     (fmt_wrap ''invalid hydrate options'' err)), Some a)
      | None \<Rightarrow>
          if 0 < ho_ToVersion o' \<and> agg_version a = ho_ToVersion o' then Some (None, Some a)
          else if 0 < ho_ToVersion o' \<and> ho_ToVersion o' < agg_version a
          then Some (Some (Wrap (HydrateError (agg_id a) '''')
                 (Text ''aggregate is at more recent version than requested version'')), Some a)
          else
            let readOpts = \<lparr>rs_AfterVersion = agg_version a,
                  rs_Count = (if 0 < ho_ToVersion o' then wrap64 (ho_ToVersion o' - agg_version a) else 0),
                  rs_Direction = Forward\<rparr>
            in case readStream db (agg_id a) readOpts of
                 Inl err \<Rightarrow>
                   if errors_is err ErrStreamNotFound
                   then if 0 < rs_AfterVersion readOpts then Some (None, Some a)
                        else Some (Some (Wrap (HydrateError (agg_id a) '''') (Sentinel ErrAggregateNotFound)), Some a)
                   else Some (Some (Wrap (HydrateError (agg_id a) ''reading event stream'') err), Some a)
               | Inr iter \<Rightarrow>
                   (case Project nxt False (Some (eventHandlerForAggregate d s)) iter a of
                      None \<Rightarrow> None
                    | Some (Some err, _, a') \<Rightarrow>
                        Some (Some (Wrap (HydrateError (agg_id a) ''projecting event stream'') err), Some a')
                    | Some (None, _, a') \<Rightarrow> Some (None, Some a')))))"

definition ES_Load ::
  "('e, 's) domain \<Rightarrow> ('e, 's, 'db, 'i) es_store \<Rightarrow> 'db \<Rightarrow> uuid \<Rightarrow> load_options option
   \<Rightarrow> ('e, 's) aggregate result option" where
  "ES_Load d s db i opts =
     (if i = uuid_nil then Some (Inl (Wrap (LoadError zero_id '''') (Text ''aggregate ID is nil'')))
      else
        let o' = (case opts of None \<Rightarrow> \<lparr>lo_ToVersion = 0\<rparr> | Some o' \<Rightarrow> o');
            a = ES_New s i
        in case LoadOptions_Validate o' of
             Some err \<Rightarrow> Some (Inl (Wrap (LoadError (agg_id a) '''') (fmt_wrap ''invalid load options'' err)))
           | None \<Rightarrow>
               (case ES_Hydrate d s db (Some a) (Some \<lparr>ho_ToVersion = lo_ToVersion o'\<rparr>) of
                  None \<Rightarrow> None
                | Some (Some err, _) \<Rightarrow> Some (Inl (Wrap (LoadError (agg_id a) ''hydrating aggregate'') err))
                | Some (None, None) \<Rightarrow> None
                | Some (None, Some a') \<Rightarrow> Some (Inr a')))"

section \<open>Saving\<close>

text \<open>The loop that validates, encodes and copies the unsaved events.\<close>

definition reserved_key :: "metadata \<Rightarrow> bool" where
  "reserved_key md \<longleftrightarrow> (case md of None \<Rightarrow> False
     | Some m \<Rightarrow> \<exists>key \<in> dom m. hasPrefix key ReservedMetadataPrefix)"

fun writable_events ::
  "('e, 's) domain \<Rightarrow> 'e event_codec \<Rightarrow> typeid \<Rightarrow> 'e agg_event list \<Rightarrow> writable_event list result" where
  "writable_events d codec aid [] = Inr []"
| "writable_events d codec aid (u # us) =
     (if reserved_key (ae_Metadata u)
      then Inl (Wrap (SaveError aid ''validating event metadata'')
             (withSaveOutcome ErrNoEventsAppended (Text ''metadata key uses the reserved prefix'')))
      else case MarshalDomainEvent codec (ae_DomainEvent u) of
        Inl err \<Rightarrow> Inl (Wrap (SaveError aid ''marshaling event data'')
                    (withSaveOutcome ErrNoEventsAppended err))
      | Inr data \<Rightarrow>
          (case writable_events d codec aid us of
             Inl err \<Rightarrow> Inl err
           | Inr ws \<Rightarrow> Inr (\<lparr>we_Type = eventType d (ae_DomainEvent u), we_Data = data,
                 we_DataContentType = codec_ContentType codec, we_Metadata = ae_Metadata u\<rparr> # ws)))"

text \<open>The loop that applies the queue until it is empty or an event does not apply.\<close>

lemma applyNext_shorter:
  "applyNext d a = (None, a') \<Longrightarrow> length (unappliedEvents a') < length (unappliedEvents a)"
  by (auto simp: applyNext_def split: list.splits if_splits)

function apply_queue ::
  "('e, 's) domain \<Rightarrow> ('e, 's) aggregate \<Rightarrow> go_error option \<times> ('e, 's) aggregate" where
  "apply_queue d a = (case applyNext d a of
     (Some err, a') \<Rightarrow> if errors_is err ErrNoUnappliedEvents then (None, a') else (Some err, a')
   | (None, a') \<Rightarrow> apply_queue d a')"
  by pat_completeness auto
termination
  by (relation "measure (\<lambda>(d, a). length (unappliedEvents a))") (auto dest: sym applyNext_shorter)

declare apply_queue.simps [simp del]

text \<open>The events of record: identity from the store's report, payload as it was appended.\<close>

definition queued_events :: "'e agg_event list \<Rightarrow> event list \<Rightarrow> 'e agg_event list" where
  "queued_events us es = map2 (\<lambda>u w. \<lparr>ae_ID = ev_ID w, ae_Version = ev_StreamVersion w,
     ae_Timestamp = ev_Timestamp w, ae_DomainEvent = ae_DomainEvent u, ae_Metadata = ae_Metadata u\<rparr>) us es"

definition ES_Save ::
  "('e, 's) domain \<Rightarrow> ('e, 's, 'db, 'i) es_store \<Rightarrow> 'db \<Rightarrow> ('e, 's) aggregate option
   \<Rightarrow> save_options option \<Rightarrow> go_error option \<times> ('e, 's) aggregate option \<times> 'db" where
  "ES_Save d s db agg opts =
     (case agg of
        None \<Rightarrow> (Some (Wrap (SaveError zero_id '''')
                   (withSaveOutcome ErrNoEventsAppended (Sentinel ErrNilAggregate))), None, db)
      | Some a \<Rightarrow>
     (case eventWriter s of
        None \<Rightarrow> (Some (Wrap (SaveError (agg_id a) '''') (withSaveOutcome ErrNoEventsAppended
                   (Text ''event store has no event stream writer''))), Some a, db)
      | Some appendStream \<Rightarrow>
          if unsavedEvents a = [] then
            (if agg_version a = 0
             then (Some (Wrap (SaveError (agg_id a) '''') (withSaveOutcome ErrNoEventsAppended
                     (Text ''new aggregate has no events to save''))), Some a, db)
             else (None, Some a, db))
          else if agg_version a < 0 then
            (Some (Wrap (SaveError (agg_id a) ''validating aggregate version'')
               (withSaveOutcome ErrNoEventsAppended (Text ''aggregate version is invalid''))), Some a, db)
          else if max_int64 - agg_version a < int (length (unsavedEvents a)) then
            (Some (Wrap (SaveError (agg_id a) ''validating aggregate version'')
               (withSaveOutcome ErrNoEventsAppended
                 (Text ''cannot append events: aggregate versions end at the maximum''))), Some a, db)
          else case writable_events d (domainEventCodec s) (agg_id a) (unsavedEvents a) of
            Inl err \<Rightarrow> (Some err, Some a, db)
          | Inr events \<Rightarrow>
              (case appendStream db (agg_id a) events
                      \<lparr>ExpectVersion = VersionPtr (agg_version a), StreamMustNotExist = False\<rparr> of
                 (Inl err, db') \<Rightarrow>
                   (Some (Wrap (SaveError (agg_id a) ''saving events to stream'')
                      (if is_mismatch err then withSaveOutcome ErrNoEventsAppended err else err)), Some a, db')
               | (Inr written, db') \<Rightarrow>
                   if length written \<noteq> length (unsavedEvents a)
                   then (Some (Wrap (SaveError (agg_id a) ''confirming appended events'')
                          (withSaveOutcome ErrEventsAppended
                            (Text ''events appended but not applied to the aggregate''))), Some a, db')
                   else
                     let a1 = clearUnsavedEvents (fold willApply (queued_events (unsavedEvents a) written) a)
                     in if (case opts of None \<Rightarrow> False | Some o' \<Rightarrow> SkipApply o') then (None, Some a1, db')
                        else case apply_queue d a1 of
                          (None, a2) \<Rightarrow> (None, Some a2, db')
                        | (Some err, a2) \<Rightarrow>
                            (Some (Wrap (SaveError (agg_id a) ''applying aggregate event'')
                               (withSaveOutcome ErrEventsAppended
                                 (fmt_wrap ''events appended but not applied to the aggregate'' err))),
                             Some a2, db'))))"

text \<open>The event-sourced store as a \<open>Store[S]\<close>.\<close>

definition ES_ops ::
  "('e, 's) domain \<Rightarrow> ('e, 's, 'db, 'i) es_store \<Rightarrow> ('e, 's, 'db) store_ops" where
  "ES_ops d s = \<lparr>AggregateType = aggregateType s, New = ES_New s,
     Load = (\<lambda>db i opts. map_option (\<lambda>r. (r, db)) (ES_Load d s db i opts)),
     Hydrate = ES_Hydrate d s, Save = ES_Save d s\<rparr>"

end
