(* ===== verification/AggregateProps.thy ===== *)
theory AggregateProps
  imports AggregateStore StoreContract
begin

text \<open>
  Correctness of the event-sourced store over any event store that meets
  \<open>event_store_contract\<close>: hydration is the fold of the stream's events, a save reports truthfully
  what became of its events, and an aggregate that tracked its stream before a save tracks it
  after. The contract is discharged by the in-memory event store.
\<close>

section \<open>Applying events\<close>

definition decoded :: "('e, 's, 'db, 'i) es_store \<Rightarrow> event \<Rightarrow> 'e option" where
  "decoded s ev = (case domainEventPrototypes s (id_type (ev_ID ev)) of
     None \<Rightarrow> None | Some Nil_event \<Rightarrow> None
   | Some v \<Rightarrow> (case UnmarshalDomainEvent (domainEventCodec s) (ev_Data ev) v of
       Inl _ \<Rightarrow> None | Inr e \<Rightarrow> Some e))"

definition fold_state ::
  "('e, 's) domain \<Rightarrow> ('e, 's, 'db, 'i) es_store \<Rightarrow> event list \<Rightarrow> 's \<Rightarrow> 's" where
  "fold_state d s es st = fold (\<lambda>ev st. applyTo d (the (decoded s ev)) st) es st"

lemma handler_applies:
  assumes "decoded s ev = Some e" "ev_StreamVersion ev = agg_version a + 1"
    "unappliedEvents a = []" "0 \<le> agg_version a" "agg_version a < max_int64"
  shows "eventHandlerForAggregate d s (Some ev) a =
    (None, a\<lparr>agg_state := applyTo d e (agg_state a), agg_version := agg_version a + 1\<rparr>)"
proof -
  have "wrap64 (agg_version a + 1) = agg_version a + 1"
    using assms(4,5) by (intro wrap64_id in64_nonneg) auto
  then show ?thesis
    using assms
    by (auto simp: eventHandlerForAggregate_def decoded_def applyNext_def willApply_def
        split: option.splits event_value.splits sum.splits)
qed

lemma handle_all_applies:
  assumes "consecutive ev_StreamVersion (agg_version a + 1) es" "\<forall>ev \<in> set es. decoded s ev \<noteq> None"
    "unappliedEvents a = []" "0 \<le> agg_version a" "agg_version a + int (length es) \<le> max_int64"
  shows "handle_all (eventHandlerForAggregate d s) es a =
    (None, a\<lparr>agg_state := fold_state d s es (agg_state a), agg_version := agg_version a + int (length es)\<rparr>)"
  using assms
proof (induction es arbitrary: a)
  case Nil
  then show ?case by (simp add: fold_state_def)
next
  case (Cons ev es)
  obtain e where e: "decoded s ev = Some e" using Cons.prems(2) by auto
  let ?a = "a\<lparr>agg_state := applyTo d e (agg_state a), agg_version := agg_version a + 1\<rparr>"
  have "eventHandlerForAggregate d s (Some ev) a = (None, ?a)"
    by (rule handler_applies) (use e Cons.prems in auto)
  moreover have "handle_all (eventHandlerForAggregate d s) es ?a =
      (None, ?a\<lparr>agg_state := fold_state d s es (agg_state ?a), agg_version := agg_version ?a + int (length es)\<rparr>)"
    by (rule Cons.IH) (use Cons.prems in auto)
  ultimately show ?case by (simp add: fold_state_def e)
qed

lemma project_applies:
  assumes "yields nxt it es" "consecutive ev_StreamVersion (agg_version a + 1) es"
    "\<forall>ev \<in> set es. decoded s ev \<noteq> None" "unappliedEvents a = []" "0 \<le> agg_version a"
    "agg_version a + int (length es) \<le> max_int64"
  shows "\<exists>r. Project nxt False (Some (eventHandlerForAggregate d s)) it a =
    Some (None, r, a\<lparr>agg_state := fold_state d s es (agg_state a), agg_version := agg_version a + int (length es)\<rparr>)"
  using project_loop_stops [OF assms(1), of "eventHandlerForAggregate d s" a]
  unfolding handle_all_applies [OF assms(2-6)] by (simp add: Project_def)

definition apply_events :: "('e, 's) domain \<Rightarrow> 'e agg_event list \<Rightarrow> 's \<Rightarrow> 's" where
  "apply_events d es st = fold (\<lambda>e st. applyTo d (ae_DomainEvent e) st) es st"

lemma apply_queue_all:
  assumes "unappliedEvents a = q" "consecutive ae_Version (agg_version a + 1) q"
    "0 \<le> agg_version a" "agg_version a + int (length q) \<le> max_int64"
  shows "apply_queue d a = (None, a\<lparr>agg_state := apply_events d q (agg_state a),
     agg_version := agg_version a + int (length q), unappliedEvents := []\<rparr>)"
  using assms
proof (induction q arbitrary: a)
  case Nil
  then show ?case
    by (simp add: apply_queue.simps [of d a] applyNext_def errors_is.simps apply_events_def)
next
  case (Cons e q)
  have w: "wrap64 (agg_version a + 1) = agg_version a + 1"
    using Cons.prems(3,4) by (intro wrap64_id in64_nonneg) auto
  let ?a = "a\<lparr>agg_state := applyTo d (ae_DomainEvent e) (agg_state a),
     agg_version := agg_version a + 1, unappliedEvents := q\<rparr>"
  have "applyNext d a = (None, ?a)"
    using Cons.prems w by (auto simp: applyNext_def)
  moreover have "apply_queue d ?a = (None, ?a\<lparr>agg_state := apply_events d q (agg_state ?a),
     agg_version := agg_version ?a + int (length q), unappliedEvents := []\<rparr>)"
    by (rule Cons.IH) (use Cons.prems in auto)
  ultimately show ?case
    by (simp add: apply_queue.simps [of d a] apply_events_def)
qed

lemma fold_willApply:
  "fold willApply es a = a\<lparr>unappliedEvents := unappliedEvents a @ es\<rparr>"
  by (induction es arbitrary: a) (simp_all add: willApply_def)

lemma writable_events_ok:
  "writable_events d codec aid us = Inr ws \<Longrightarrow>
   list_all2 (\<lambda>u w. we_Type w = eventType d (ae_DomainEvent u)
     \<and> MarshalDomainEvent codec (ae_DomainEvent u) = Inr (we_Data w)
     \<and> we_Metadata w = ae_Metadata u \<and> \<not> reserved_key (ae_Metadata u)) us ws"
  by (induction us arbitrary: ws) (auto split: if_splits sum.splits)

lemma writable_events_error:
  "writable_events d codec aid us = Inl e \<Longrightarrow> SaveOutcome (Some e) = AppendOutcomeNothingAppended"
  by (induction us) (auto simp: outcome_simps resolved_def split: if_splits sum.splits)

section \<open>The store over a contract-keeping event store\<close>

text \<open>
  The history \<open>H\<close> of a stream is every event ever committed to it; a store may have truncated a
  prefix. An aggregate is at version \<open>k\<close> of a history when it is the fold of its first \<open>k\<close>
  events over the initial state.
\<close>

definition shows_history :: "(int64 \<times> event list) option \<Rightarrow> event list \<Rightarrow> bool" where
  "shows_history v H \<longleftrightarrow> (case v of
     None \<Rightarrow> H = []
   | Some (fv, es) \<Rightarrow> 1 \<le> fv \<and> fv - 1 \<le> int (length H) \<and> es = drop (nat (fv - 1)) H)"

definition at_version ::
  "('e, 's) domain \<Rightarrow> ('e, 's, 'db, 'i) es_store \<Rightarrow> event list \<Rightarrow> int64 \<Rightarrow> ('e, 's) aggregate \<Rightarrow> bool" where
  "at_version d s H k a \<longleftrightarrow> unappliedEvents a = [] \<and> 0 \<le> k \<and> k \<le> int (length H)
     \<and> agg_version a = k
     \<and> agg_state a = fold_state d s (take (nat k) H) (newState s (id_uuid (agg_id a)))"

text \<open>The version a hydration to \<open>to\<close> reaches; 0 asks for the latest.\<close>

definition target_version :: "int64 \<Rightarrow> event list \<Rightarrow> int64" where
  "target_version to H = (if to = 0 then int (length H) else min to (int (length H)))"

lemma at_version_New: "at_version d s H 0 (ES_New s i)"
  by (simp add: at_version_def ES_New_def newAggregate_def fold_state_def New_id_def)

lemma fold_state_append: "fold_state d s (xs @ ys) st = fold_state d s ys (fold_state d s xs st)"
  by (simp add: fold_state_def)

text \<open>
  What a successful append means for a save: the stream, viewed as \<open>v\<close> before and \<open>v'\<close> after,
  was at the aggregate's version and is extended by the encoded unsaved events, their types and
  metadata as the event store's JSON carries them.
\<close>

definition save_extended ::
  "('e, 's) domain \<Rightarrow> ('e, 's, 'db, 'i) es_store \<Rightarrow> (int64 \<times> event list) option
   \<Rightarrow> (int64 \<times> event list) option \<Rightarrow> ('e, 's) aggregate \<Rightarrow> event list \<Rightarrow> bool" where
  "save_extended d s v v' a es \<longleftrightarrow> agg_version a = view_tip v
     \<and> length es = length (unsavedEvents a) \<and> unsavedEvents a \<noteq> []
     \<and> consecutive ev_StreamVersion (agg_version a + 1) es
     \<and> list_all2 (\<lambda>u ev. id_type (ev_ID ev) = to_utf8 (eventType d (ae_DomainEvent u))
          \<and> MarshalDomainEvent (domainEventCodec s) (ae_DomainEvent u) = Inr (ev_Data ev)
          \<and> ev_Metadata ev = map_option utf8_dict (ae_Metadata u)) (unsavedEvents a) es
     \<and> v' = extend_view v es"

text \<open>
  An event the store can read back: its type, as the event store returns it, is registered, and its
  encoding decodes to it.
\<close>

definition codec_ok :: "('e, 's) domain \<Rightarrow> ('e, 's, 'db, 'i) es_store \<Rightarrow> 'e \<Rightarrow> bool" where
  "codec_ok d s e \<longleftrightarrow> (\<exists>v. domainEventPrototypes s (to_utf8 (eventType d e)) = Some v \<and> v \<noteq> Nil_event
     \<and> (\<forall>b. MarshalDomainEvent (domainEventCodec s) e = Inr b
          \<longrightarrow> UnmarshalDomainEvent (domainEventCodec s) b v = Inr e))"

locale es_aggregates =
  event_store_contract readStream nxt appendStream view valid room healthy
  for readStream :: "'db \<Rightarrow> typeid \<Rightarrow> read_stream_options \<Rightarrow> 'i result" and nxt appendStream view
    and valid :: "'db \<Rightarrow> bool" and room healthy +
  fixes d :: "('e, 'st) domain" and s :: "('e, 'st, 'db, 'i) es_store"
  assumes reader: "eventReader s = Some (readStream, nxt)"
    and writer: "eventWriter s = Some appendStream"
begin

text \<open>What a forward read after version \<open>k\<close> returns, in terms of the history.\<close>

lemma read_view_history:
  assumes "shows_history (Some (fv, es)) H" "view_ok (fv, es)" "fv - 1 \<le> k" "0 \<le> k"
    "n = 0 \<or> 0 < n"
  shows "read_view (fv, es) \<lparr>rs_AfterVersion = k, rs_Count = n, rs_Direction = Forward\<rparr>
    = (if 0 < n then take (nat n) (drop (nat k) H) else drop (nat k) H)"
proof -
  have "filter (\<lambda>e. k < ev_StreamVersion e) es = drop (nat (k - fv + 1)) es"
    using assms(2) by (intro consecutive_filter_gt) (simp add: view_ok_def)
  also have "\<dots> = drop (nat k) H"
  proof -
    have "nat (k - fv + 1) + nat (fv - 1) = nat k"
      using assms(1,3,4) by (auto simp: shows_history_def)
    then show ?thesis using assms(1) by (simp add: shows_history_def add.commute)
  qed
  finally show ?thesis by (simp add: read_view_def limited_def)
qed

lemma history_versions:
  assumes "shows_history (Some (fv, es)) H" "view_ok (fv, es)" "fv - 1 \<le> k" "k \<le> int (length H)"
  shows "consecutive ev_StreamVersion (k + 1) (drop (nat k) H)" "int (length H) < max_int64"
proof -
  have k: "0 \<le> k" using assms by (auto simp: shows_history_def)
  have "nat k = nat (k - fv + 1) + nat (fv - 1)"
    using assms(1,3) k by (auto simp: shows_history_def)
  then have "drop (nat k) H = drop (nat (k - fv + 1)) es"
    using assms(1) by (simp add: shows_history_def add.commute)
  moreover have "consecutive ev_StreamVersion (fv + int (nat (k - fv + 1))) (drop (nat (k - fv + 1)) es)"
    using assms(2) by (intro consecutive_drop) (simp add: view_ok_def)
  ultimately show "consecutive ev_StreamVersion (k + 1) (drop (nat k) H)"
    using assms(3) by (simp add: algebra_simps)
  show "int (length H) < max_int64"
    using assms(1,2) by (auto simp: shows_history_def view_ok_def)
qed

text \<open>Hydration reaches the target version of the history, whatever version it starts from.\<close>

lemma Hydrate_history:
  assumes "valid db" and v: "view db (agg_id a) = Some (fv, es)" "shows_history (Some (fv, es)) H"
    and a: "at_version d s H k a" "fv - 1 \<le> k"
    and to: "0 \<le> to" "to = 0 \<or> k \<le> to" "to \<le> max_int64"
    and dec: "\<forall>ev \<in> set H. decoded s ev \<noteq> None"
  shows "\<exists>a'. ES_Hydrate d s db (Some a) (Some \<lparr>ho_ToVersion = to\<rparr>) = Some (None, Some a')
    \<and> at_version d s H (target_version to H) a' \<and> agg_id a' = agg_id a
    \<and> unsavedEvents a' = unsavedEvents a"
proof (cases "0 < to \<and> k = to")
  case True
  then show ?thesis
    using a by (auto simp: ES_Hydrate_def reader HydrateOptions_Validate_def at_version_def target_version_def)
next
  case False
  have ok: "view_ok (fv, es)" using view_valid [OF assms(1) v(1)] .
  have k: "agg_version a = k" "0 \<le> k" "k \<le> int (length H)" "unappliedEvents a = []"
    using a by (simp_all add: at_version_def)
  note hist = history_versions [OF v(2) ok a(2) k(3)]
  define n where "n = (if 0 < to then to - k else 0)"
  define sel where "sel = (if 0 < n then take (nat n) (drop (nat k) H) else drop (nat k) H)"
  let ?ro = "\<lparr>rs_AfterVersion = k, rs_Count = n, rs_Direction = Forward\<rparr>"
  have n: "(if 0 < to then wrap64 (to - k) else 0) = n"
    using to k by (auto simp: n_def intro!: wrap64_id in64_nonneg)
  have rv: "read_view (fv, es) ?ro = sel"
    unfolding sel_def by (rule read_view_history [OF v(2) ok a(2) k(2)]) (use False to in \<open>auto simp: n_def\<close>)
  obtain it where it: "readStream db (agg_id a) ?ro = Inr it" "yields nxt it sel"
    using read_found [OF assms(1) v(1), of ?ro] k hist(2) rv by auto
  have sel: "sel = take (nat (target_version to H) - nat k) (drop (nat k) H)"
    "int (length sel) = target_version to H - k"
    using False to k(2,3)
    by (auto simp: sel_def n_def target_version_def min_def nat_diff_distrib)
  let ?a = "a\<lparr>agg_state := fold_state d s sel (agg_state a), agg_version := agg_version a + int (length sel)\<rparr>"
  have "\<exists>r. Project nxt False (Some (eventHandlerForAggregate d s)) it a = Some (None, r, ?a)"
  proof (rule project_applies [OF it(2)])
    show "consecutive ev_StreamVersion (agg_version a + 1) sel"
      using hist(1) consecutive_take [OF hist(1)] k(1) by (simp add: sel(1))
    show "\<forall>ev \<in> set sel. decoded s ev \<noteq> None"
      using dec by (auto simp: sel(1) dest!: in_set_takeD in_set_dropD)
    show "agg_version a + int (length sel) \<le> max_int64"
      using sel(2) k hist(2) by (auto simp: target_version_def min_def)
  qed (use k in auto)
  then have "ES_Hydrate d s db (Some a) (Some \<lparr>ho_ToVersion = to\<rparr>) = Some (None, Some ?a)"
    using it(1) to False n k(1) by (auto simp: ES_Hydrate_def reader HydrateOptions_Validate_def Let_def)
  moreover have "take (nat k) H @ sel = take (nat (target_version to H)) H"
  proof -
    have "nat k \<le> nat (target_version to H)" using sel(2) by linarith
    then show ?thesis by (metis sel(1) le_add_diff_inverse take_add)
  qed
  ultimately show ?thesis
    using a sel(2) k by (auto simp: at_version_def target_version_def fold_state_append [symmetric])
qed

lemma Load_history:
  assumes "valid db" "i \<noteq> uuid_nil" "view db (New_id (aggregateType s) i) = Some (1, H)"
    and "0 \<le> to" "to \<le> max_int64" "\<forall>ev \<in> set H. decoded s ev \<noteq> None"
  shows "\<exists>a. ES_Load d s db i (Some \<lparr>lo_ToVersion = to\<rparr>) = Some (Inr a)
    \<and> at_version d s H (target_version to H) a \<and> agg_id a = New_id (aggregateType s) i
    \<and> unsavedEvents a = []"
proof -
  have new: "agg_id (ES_New s i) = New_id (aggregateType s) i" "unsavedEvents (ES_New s i) = []"
    by (simp_all add: ES_New_def newAggregate_def)
  have "\<exists>a'. ES_Hydrate d s db (Some (ES_New s i)) (Some \<lparr>ho_ToVersion = to\<rparr>) = Some (None, Some a')
    \<and> at_version d s H (target_version to H) a' \<and> agg_id a' = agg_id (ES_New s i)
    \<and> unsavedEvents a' = unsavedEvents (ES_New s i)"
    by (rule Hydrate_history [OF assms(1) _ _ at_version_New])
      (use assms new in \<open>auto simp: shows_history_def\<close>)
  then show ?thesis
    using assms(2,4) new by (auto simp: ES_Load_def LoadOptions_Validate_def)
qed

lemma Load_missing:
  assumes "valid db" "i \<noteq> uuid_nil" "view db (New_id (aggregateType s) i) = None" "0 \<le> to"
  shows "\<exists>e. ES_Load d s db i (Some \<lparr>lo_ToVersion = to\<rparr>) = Some (Inl e) \<and> errors_is e ErrAggregateNotFound"
  using assms read_missing [OF assms(1,3)]
  by (auto simp: ES_Load_def LoadOptions_Validate_def ES_Hydrate_def reader HydrateOptions_Validate_def
      Let_def ES_New_def newAggregate_def New_id_def)

lemma written_extends:
  assumes "writable_events d (domainEventCodec s) (agg_id a) (unsavedEvents a) = Inr ws"
    "written_for (agg_id a) v ws es" "v = agg_version a" "v = view_tip (view db (agg_id a))"
    "unsavedEvents a \<noteq> []" "view db' (agg_id a) = extend_view (view db (agg_id a)) es"
  shows "save_extended d s (view db (agg_id a)) (view db' (agg_id a)) a es"
proof -
  note w = writable_events_ok [OF assms(1)] and e = assms(2) [unfolded written_for_def]
  have len: "length ws = length (unsavedEvents a)" "length es = length ws"
    using list_all2_lengthD [OF w] e by (auto dest: list_all2_lengthD)
  then show ?thesis
    using w e assms(3-6) by (auto simp: save_extended_def list_all2_conv_all_nth)
qed

lemma Save_cases:
  assumes "valid db" "room db (length (unsavedEvents a))" "unsavedEvents a \<noteq> []"
    "ES_Save d s db (Some a) opts = (r, a', db')"
  shows "valid db' \<and>
    ((\<exists>e. r = Some e \<and> a' = Some a \<and> SaveOutcome r = AppendOutcomeNothingAppended
        \<and> view db' = view db) \<or>
     (\<exists>e. r = Some e \<and> a' = Some a \<and> SaveOutcome r = AppendOutcomeUnknown \<and> \<not> healthy) \<or>
     (\<exists>es. save_extended d s (view db (agg_id a)) (view db' (agg_id a)) a es \<and> 0 \<le> agg_version a
        \<and> agg_version a + int (length es) \<le> max_int64
        \<and> (let a1 = a\<lparr>unappliedEvents := unappliedEvents a @ queued_events (unsavedEvents a) es,
                      unsavedEvents := []\<rparr> in
           if (case opts of None \<Rightarrow> False | Some o' \<Rightarrow> SkipApply o') then r = None \<and> a' = Some a1
           else a' = Some (snd (apply_queue d a1)) \<and>
             (case fst (apply_queue d a1) of None \<Rightarrow> r = None
              | Some _ \<Rightarrow> SaveOutcome r = AppendOutcomeAppended))))"
proof -
  let ?aid = "agg_id a" and ?v = "agg_version a"
  let ?ao = "\<lparr>ExpectVersion = VersionPtr ?v, StreamMustNotExist = False\<rparr>"
  note outc = outcome_simps resolved_def
  show ?thesis
  proof (cases "?v < 0 \<or> max_int64 - ?v < int (length (unsavedEvents a))")
    case True
    then show ?thesis using assms by (cases "?v < 0") (auto simp: ES_Save_def writer outc)
  next
    case bounds: False
    show ?thesis
    proof (cases "writable_events d (domainEventCodec s) ?aid (unsavedEvents a)")
      case (Inl e)
      then show ?thesis
        using assms bounds writable_events_error [OF Inl] by (auto simp: ES_Save_def writer)
    next
      case (Inr ws)
      obtain res db1 where app: "appendStream db ?aid ws ?ao = (res, db1)" by fastforce
      have room: "room db (length ws)"
        using assms(2) list_all2_lengthD [OF writable_events_ok [OF Inr]] by simp
      have valid: "valid db1" using append_valid [OF assms(1) room, of ?aid ?ao] app by simp
      let ?ref = "append_refusal ?aid (view_tip (view db ?aid)) ?ao"
      have ref: "?ref = (if view_tip (view db ?aid) = ?v then None
          else Some (StreamVersionMismatchError ?aid ?v (view_tip (view db ?aid))))"
        by (simp add: append_refusal_def VersionPtr_def)
      show ?thesis
      proof (cases res)
        case e: (Inl e)
        show ?thesis
        proof (cases ?ref)
          case None
          then show ?thesis
            using append_failed [OF assms(1) room None, of e] app e assms(3,4) bounds Inr valid
            by (auto simp: ES_Save_def writer outc)
        next
          case (Some e')
          then have "e = StreamVersionMismatchError ?aid ?v (view_tip (view db ?aid))" "view db1 = view db"
            using append_refused [OF assms(1) room Some] app e ref by (auto split: if_splits)
          then show ?thesis
            using app e assms(3,4) bounds Inr valid
            by (auto simp: ES_Save_def writer outc is_mismatch_def)
        qed
      next
        case w: (Inr es)
        have "?ref = None" and es: "written_for ?aid (view_tip (view db ?aid)) ws es"
          "view db1 ?aid = extend_view (view db ?aid) es"
          using append_written [OF assms(1) room, of ?aid ?ao es] app w by auto
        then have v: "?v = view_tip (view db ?aid)" using ref by (auto split: if_splits)
        have ext: "save_extended d s (view db (agg_id a)) (view db1 (agg_id a)) a es"
          by (rule written_extends [OF Inr es(1)]) (use v assms(3) es(2) in auto)
        then have len: "length es = length (unsavedEvents a)" by (simp add: save_extended_def)
        show ?thesis
          using ext len app w assms(3,4) bounds Inr valid
          by (cases "case opts of None \<Rightarrow> False | Some o' \<Rightarrow> SkipApply o'";
              cases "apply_queue d (a\<lparr>unappliedEvents := unappliedEvents a @ queued_events (unsavedEvents a) es,
                 unsavedEvents := []\<rparr>)"; cases "fst (apply_queue d (a\<lparr>unappliedEvents := unappliedEvents a @
                   queued_events (unsavedEvents a) es, unsavedEvents := []\<rparr>))")
            (auto simp: ES_Save_def writer outc fold_willApply clearUnsavedEvents_def Let_def)
      qed
    qed
  qed
qed

end

lemma saved_decodes:
  assumes "save_extended d s v v' a es" "\<forall>u \<in> set (unsavedEvents a). codec_ok d s (ae_DomainEvent u)"
  shows "list_all2 (\<lambda>u ev. decoded s ev = Some (ae_DomainEvent u)) (unsavedEvents a) es"
proof -
  have "decoded s ev = Some (ae_DomainEvent u)"
    if "codec_ok d s (ae_DomainEvent u)" "id_type (ev_ID ev) = to_utf8 (eventType d (ae_DomainEvent u))"
      "MarshalDomainEvent (domainEventCodec s) (ae_DomainEvent u) = Inr (ev_Data ev)" for u ev
    using that by (auto simp: codec_ok_def decoded_def split: event_value.splits)
  moreover have "list_all2 (\<lambda>u ev. id_type (ev_ID ev) = to_utf8 (eventType d (ae_DomainEvent u))
          \<and> MarshalDomainEvent (domainEventCodec s) (ae_DomainEvent u) = Inr (ev_Data ev)
          \<and> ev_Metadata ev = map_option utf8_dict (ae_Metadata u)) (unsavedEvents a) es"
    using assms(1) by (simp add: save_extended_def)
  ultimately show ?thesis
    using assms(2) by (elim list.rel_mono_strong) blast
qed

lemma queue_folds:
  "list_all2 (\<lambda>u ev. decoded s ev = Some (ae_DomainEvent u)) us es \<Longrightarrow>
   apply_events d (queued_events us es) st = fold_state d s es st"
proof (induction us es arbitrary: st rule: list_all2_induct)
  case Nil
  then show ?case by (simp add: apply_events_def queued_events_def fold_state_def)
next
  case (Cons u us ev es)
  then show ?case by (simp add: apply_events_def queued_events_def fold_state_def)
qed

lemma queued_versions:
  "length us = length es \<Longrightarrow> consecutive ae_Version v (queued_events us es) = consecutive ev_StreamVersion v es"
  by (induction us es arbitrary: v rule: list_induct2) (auto simp: queued_events_def)

lemma history_tip: "shows_history v H \<Longrightarrow> view_tip v = int (length H)"
  by (auto simp: shows_history_def view_tip_def of_nat_diff split: option.splits)

lemma history_extend:
  "shows_history v H \<Longrightarrow> es \<noteq> [] \<Longrightarrow> shows_history (extend_view v es) (H @ es)"
  by (auto simp: shows_history_def extend_view_def split: option.splits)

context es_aggregates begin

text \<open>An aggregate that was current before a successful save is current after it.\<close>

lemma Save_current:
  assumes "valid db" "room db (length (unsavedEvents a))" "unsavedEvents a \<noteq> []"
    and "ES_Save d s db (Some a) opts = (None, a', db')"
    and "opts = None \<or> opts = Some \<lparr>SkipApply = False\<rparr>"
    and hist: "shows_history (view db (agg_id a)) H" "at_version d s H (int (length H)) a"
    and codec: "\<forall>u \<in> set (unsavedEvents a). codec_ok d s (ae_DomainEvent u)"
  shows "\<exists>es a1. a' = Some a1 \<and> length es = length (unsavedEvents a)
    \<and> view db' (agg_id a) = extend_view (view db (agg_id a)) es
    \<and> (\<forall>ev \<in> set es. decoded s ev \<noteq> None)
    \<and> shows_history (view db' (agg_id a)) (H @ es)
    \<and> at_version d s (H @ es) (int (length (H @ es))) a1 \<and> agg_id a1 = agg_id a
    \<and> unsavedEvents a1 = []"
proof -
  have noskip: "(case opts of None \<Rightarrow> False | Some o' \<Rightarrow> SkipApply o') = False"
    using assms(5) by auto
  have at: "unappliedEvents a = []" "agg_version a = int (length H)"
    "agg_state a = fold_state d s H (newState s (id_uuid (agg_id a)))"
    using hist(2) by (auto simp: at_version_def)
  obtain es where es: "save_extended d s (view db (agg_id a)) (view db' (agg_id a)) a es" "agg_version a + int (length es) \<le> max_int64"
    and a': "a' = Some (snd (apply_queue d (a\<lparr>unappliedEvents := unappliedEvents a @
        queued_events (unsavedEvents a) es, unsavedEvents := []\<rparr>)))"
    using Save_cases [OF assms(1-4)] noskip by (auto simp: Let_def)
  let ?q = "queued_events (unsavedEvents a) es"
  let ?a1 = "a\<lparr>unappliedEvents := ?q, unsavedEvents := []\<rparr>"
  have len: "length es = length (unsavedEvents a)" "length ?q = length es" "es \<noteq> []"
    using es(1) assms(3) by (auto simp: save_extended_def queued_events_def)
  have dec: "list_all2 (\<lambda>u ev. decoded s ev = Some (ae_DomainEvent u)) (unsavedEvents a) es"
    by (rule saved_decodes [OF es(1) codec])
  have "apply_queue d ?a1 = (None, ?a1\<lparr>agg_state := apply_events d ?q (agg_state ?a1),
      agg_version := agg_version ?a1 + int (length ?q), unappliedEvents := []\<rparr>)"
    by (rule apply_queue_all)
      (use es len at in \<open>auto simp: queued_versions save_extended_def\<close>)
  then have a1: "a' = Some (?a1\<lparr>agg_state := fold_state d s es (agg_state a),
      agg_version := agg_version a + int (length es), unappliedEvents := []\<rparr>)"
    using a' at(1) len by (simp add: queue_folds [OF dec])
  have "at_version d s (H @ es) (int (length (H @ es)))
      (?a1\<lparr>agg_state := fold_state d s es (agg_state a),
      agg_version := agg_version a + int (length es), unappliedEvents := []\<rparr>)"
    using at by (simp add: at_version_def fold_state_append)
  moreover have "\<forall>ev \<in> set es. decoded s ev \<noteq> None"
    using dec by (auto simp: list_all2_conv_all_nth in_set_conv_nth)
  moreover have "view db' (agg_id a) = extend_view (view db (agg_id a)) es"
    using es(1) by (simp add: save_extended_def)
  ultimately show ?thesis
    using a1 len history_extend [OF hist(1) len(3)] by auto
qed

text \<open>
  Hydrating an aggregate whose events were saved with \<open>SkipApply\<close>: the read returns the saved
  event again, the handler applies the queued copy and leaves the read one in the queue.
\<close>

lemma Hydrate_after_skip:
  assumes "valid db" "room db 1" "unsavedEvents a = [u]"
    and "ES_Save d s db (Some a) (Some \<lparr>SkipApply = True\<rparr>) = (None, a', db')"
    and hist: "shows_history (view db (agg_id a)) H" "at_version d s H (int (length H)) a"
    and codec: "codec_ok d s (ae_DomainEvent u)"
  shows "\<exists>a1 a2 e. a' = Some a1
    \<and> ES_Hydrate d s db' (Some a1) (Some \<lparr>ho_ToVersion = 0\<rparr>) = Some (None, Some a2)
    \<and> agg_version a2 = int (length H) + 1 \<and> unappliedEvents a2 = [e]
    \<and> ae_Version e = int (length H) + 1"
proof -
  have at: "unappliedEvents a = []" "agg_version a = int (length H)"
    using hist(2) by (auto simp: at_version_def)
  obtain es where es: "save_extended d s (view db (agg_id a)) (view db' (agg_id a)) a es"
    "valid db'" and a': "a' = Some (a\<lparr>unappliedEvents := queued_events [u] es, unsavedEvents := []\<rparr>)"
    using Save_cases [OF assms(1) _ _ assms(4)] assms(2,3) at by auto
  obtain ev where ev: "es = [ev]" "ev_StreamVersion ev = int (length H) + 1"
    using es(1) at assms(3) by (cases es) (auto simp: save_extended_def)
  have dec: "decoded s ev = Some (ae_DomainEvent u)"
    using saved_decodes [OF es(1)] assms(3) codec ev(1) by simp
  define a1 where "a1 = a\<lparr>unappliedEvents := queued_events [u] es, unsavedEvents := []\<rparr>"
  have a1: "agg_version a1 = int (length H)" "agg_id a1 = agg_id a"
    by (simp_all add: a1_def at)
  have H1: "shows_history (view db' (agg_id a)) (H @ [ev])"
    using history_extend [OF hist(1), of es] es(1) ev(1) by (simp add: save_extended_def)
  then obtain fv vs where v: "view db' (agg_id a) = Some (fv, vs)"
    by (cases "view db' (agg_id a)") (auto simp: shows_history_def)
  have ok: "view_ok (fv, vs)" using view_valid [OF es(2) v] .
  have fv: "fv - 1 \<le> int (length H)" and max: "int (length H) + 1 < max_int64"
    using H1 v es(1) ok hist(1) ev(1)
    by (auto simp: save_extended_def extend_view_def shows_history_def view_ok_def split: option.splits if_splits)
  let ?ro = "\<lparr>rs_AfterVersion = int (length H), rs_Count = 0, rs_Direction = Forward\<rparr>"
  have "read_view (fv, vs) ?ro = [ev]"
    using read_view_history [OF H1 [unfolded v] ok fv, of 0] by simp
  then obtain it where it: "readStream db' (agg_id a) ?ro = Inr it" "yields nxt it [ev]"
    using read_found [OF es(2) v, of ?ro] max by auto
  have w: "wrap64 (int (length H) + 1) = int (length H) + 1"
    using max by (intro wrap64_id in64_nonneg) auto
  have "\<exists>a2 e. eventHandlerForAggregate d s (Some ev) a1 = (None, a2)
      \<and> agg_version a2 = int (length H) + 1 \<and> unappliedEvents a2 = [e] \<and> ae_Version e = int (length H) + 1"
    using dec ev w max a1(1)
    by (auto simp: eventHandlerForAggregate_def decoded_def applyNext_def willApply_def a1_def
        queued_events_def split: option.splits event_value.splits sum.splits)
  then obtain a2 e where a2: "eventHandlerForAggregate d s (Some ev) a1 = (None, a2)"
      "agg_version a2 = int (length H) + 1" "unappliedEvents a2 = [e]" "ae_Version e = int (length H) + 1"
    by blast
  then have "\<exists>r. Project nxt False (Some (eventHandlerForAggregate d s)) it a1 = Some (None, r, a2)"
    using project_loop_stops [OF it(2), of "eventHandlerForAggregate d s" a1] by (simp add: Project_def)
  then have "ES_Hydrate d s db' (Some a1) (Some \<lparr>ho_ToVersion = 0\<rparr>) = Some (None, Some a2)"
    using it(1) a1 by (auto simp: ES_Hydrate_def reader HydrateOptions_Validate_def Let_def)
  then show ?thesis using a' a2 a1_def by blast
qed

end

section \<open>On the memory store\<close>

text \<open>An event-sourced store constructed over the in-memory event store.\<close>

definition memory_es_store ::
  "(uuid \<Rightarrow> string) \<Rightarrow> (nat \<Rightarrow> uuid) \<Rightarrow> (nat \<Rightarrow> time) \<Rightarrow> string \<Rightarrow> (uuid \<Rightarrow> 's) \<Rightarrow> 'e event_codec
   \<Rightarrow> (string \<rightharpoonup> 'e event_value) \<Rightarrow> ('e, 's, event_store, stream_iterator) es_store" where
  "memory_es_store ustr fresh now atype stateFactory codec protos =
     \<lparr>eventReader = Some (ReadStream ustr, Next), eventWriter = Some (AppendStream ustr fresh now),
      aggregateType = atype, newState = stateFactory, domainEventPrototypes = protos,
      domainEventCodec = codec\<rparr>"

interpretation memory_es: es_aggregates "ReadStream ustr" Next "AppendStream ustr fresh now"
    "stream_view ustr" "store_valid ustr" "\<lambda>st n. globalCounter st + int n < max_int64"
    "\<forall>i. json_year_ok (now i)" d "memory_es_store ustr fresh now atype stateFactory codec protos"
  for ustr fresh now d atype stateFactory codec protos
  by unfold_locales (simp_all add: memory_es_store_def)

end
