(* ===== verification/AggregateClaims.thy ===== *)
theory AggregateClaims
  imports AggregateProps
begin

text \<open>
  The properties of aggregates and of the event-sourced store, on the in-memory event store after
  any history, and a small counter domain on which they are exercised.
\<close>

section \<open>A concrete domain\<close>

definition counter_domain :: "(8 word, nat) domain" where
  "counter_domain = \<lparr>eventType = (\<lambda>_. ''added''), applyTo = (\<lambda>e n. n + unat e)\<rparr>"

definition byte_codec :: "8 word event_codec" where
  "byte_codec = \<lparr>MarshalDomainEvent = (\<lambda>e. Inr [e]),
     UnmarshalDomainEvent = (\<lambda>bs v. case bs of [b] \<Rightarrow> Inr b | _ \<Rightarrow> Inl (Text ''invalid'')),
     codec_ContentType = ''raw''\<rparr>"

definition counter_store :: "(8 word, nat, event_store, stream_iterator) es_store" where
  "counter_store = memory_es_store (\<lambda>_. '''') (\<lambda>_. 7) (\<lambda>_. 0) ''counter'' (\<lambda>_. 0) byte_codec
     [''added'' \<mapsto> Pointer 0]"

definition counter_new :: "(8 word, nat) aggregate" where
  "counter_new = Append [5] (ES_New counter_store 1)"

lemma counter_store_sel:
  "eventReader counter_store = Some (ReadStream (\<lambda>_. ''''), Next)"
  "eventWriter counter_store = Some (AppendStream (\<lambda>_. '''') (\<lambda>_. 7) (\<lambda>_. 0))"
  "aggregateType counter_store = ''counter''" "newState counter_store = (\<lambda>_. 0)"
  "domainEventPrototypes counter_store = [''added'' \<mapsto> Pointer 0]"
  "domainEventCodec counter_store = byte_codec"
  by (simp_all add: counter_store_def memory_es_store_def)

lemma counter_new_facts:
  "agg_id counter_new = New_id ''counter'' 1" "agg_version counter_new = 0"
  "unsavedEvents counter_new = [\<lparr>ae_ID = zero_id, ae_Version = 0, ae_Timestamp = 0,
     ae_DomainEvent = 5, ae_Metadata = None\<rparr>]"
  "unappliedEvents counter_new = []" "agg_state counter_new = 0"
  by (simp_all add: counter_new_def Append_def AppendWithMetadata_def ES_New_def newAggregate_def
      counter_store_sel)

lemma counter_view: "stream_view (\<lambda>_. '''') NewEventStore i = None"
  by (simp add: stream_view_def NewEventStore_def never_written_def)

lemma globalCounter_New [simp]: "globalCounter NewEventStore = 0"
  by (simp add: NewEventStore_def)

lemma counter_current: "at_version counter_domain counter_store [] 0 counter_new"
  by (simp add: at_version_def counter_new_facts fold_state_def counter_store_sel)

text \<open>Appending the first event of a new counter, and saving it, succeed.\<close>

lemma counter_append:
  "\<exists>ev st'. AppendStream (\<lambda>_. '''') (\<lambda>_. 7) (\<lambda>_. 0) NewEventStore (New_id ''counter'' 1)
      [\<lparr>we_Type = ''added'', we_Data = [5], we_DataContentType = ''raw'', we_Metadata = None\<rparr>]
      \<lparr>ExpectVersion = VersionPtr 0, StreamMustNotExist = False\<rparr> = (Inr [ev], st')
    \<and> ev_StreamVersion ev = 1"
  by (simp add: AppendStream_def VersionPtr_def Let_def NewEventStore_def json_marshal_def
      json_year_ok_def New_id_def)

lemma counter_save:
  "\<exists>a' st'. ES_Save counter_domain counter_store NewEventStore (Some counter_new) opts = (None, a', st')"
proof -
  obtain ev st' where app: "AppendStream (\<lambda>_. '''') (\<lambda>_. 7) (\<lambda>_. 0) NewEventStore (New_id ''counter'' 1)
      [\<lparr>we_Type = ''added'', we_Data = [5], we_DataContentType = ''raw'', we_Metadata = None\<rparr>]
      \<lparr>ExpectVersion = VersionPtr 0, StreamMustNotExist = False\<rparr> = (Inr [ev], st')"
    "ev_StreamVersion ev = 1" using counter_append by blast
  define q where "q = queued_events (unsavedEvents counter_new) [ev]"
  define a1 where "a1 = counter_new\<lparr>unsavedEvents := [], unappliedEvents := q\<rparr>"
  have q: "length q = 1" "consecutive ae_Version 1 q"
    using app(2) by (simp_all add: q_def queued_events_def counter_new_facts)
  have "fst (apply_queue counter_domain a1) = None"
    using apply_queue_all [of a1 q counter_domain] q
    by (simp add: a1_def counter_new_facts max_int64_def)
  then obtain a2 where a2: "apply_queue counter_domain a1 = (None, a2)"
    by (cases "apply_queue counter_domain a1") auto
  have wr: "writable_events counter_domain byte_codec (New_id ''counter'' 1) (unsavedEvents counter_new)
      = Inr [\<lparr>we_Type = ''added'', we_Data = [5], we_DataContentType = ''raw'', we_Metadata = None\<rparr>]"
    by (simp add: counter_new_facts byte_codec_def counter_domain_def reserved_key_def)
  have "clearUnsavedEvents (fold willApply q counter_new) = a1"
    by (simp add: fold_willApply clearUnsavedEvents_def a1_def counter_new_facts(4))
  then show ?thesis
    using app(1) a2 wr
    by (auto simp: ES_Save_def counter_store_sel counter_new_facts(1,2) max_int64_def
        q_def [symmetric] Let_def) (auto simp: counter_new_facts)
qed

lemma counter_codec: "codec_ok counter_domain counter_store e"
  by (simp add: byte_in_def codec_ok_def counter_store_sel counter_domain_def byte_codec_def)

section \<open>Properties\<close>

text \<open>
  C33. Loading is folding. On every reachable store, loading an aggregate of a stream that was not
  truncated returns the fold of the stream's events, up to the requested version (all of them for
  0), over the initial state, at exactly that version and with empty queues.
\<close>

theorem ES_Load_folds:
  assumes "store_steps ustr NewEventStore st" "i \<noteq> uuid_nil"
    and "S = memory_es_store ustr fresh now atype stateFactory codec protos"
    and "stream_view ustr st (New_id atype i) = Some (1, H)"
    and "0 \<le> to" "to \<le> max_int64" "\<forall>ev \<in> set H. decoded S ev \<noteq> None"
  shows "\<exists>a. ES_Load d S st i (Some \<lparr>lo_ToVersion = to\<rparr>) = Some (Inr a)
    \<and> at_version d S H (target_version to H) a
    \<and> agg_id a = New_id atype i \<and> unsavedEvents a = []"
proof -
  have t: "aggregateType S = atype" by (simp add: assms(3) memory_es_store_def)
  show ?thesis
    using memory_es.Load_history [OF reachable_valid [OF assms(1)] assms(2), where d = d and
        atype = atype and stateFactory = stateFactory and codec = codec and protos = protos
        and fresh = fresh and now = now, folded assms(3), unfolded t, OF assms(4-7)] .
qed

text \<open>
  C21. What a save reports is what happened. On every reachable store and for any aggregate with
  unsaved events: an outcome of "nothing appended" leaves the store's streams and the aggregate as
  they were; an outcome of "appended", like success, means the stream was at the aggregate's
  version and is extended by exactly the unsaved events, encoded, under the next versions. The
  outcome is unknown only when the store failed to encode an event.
\<close>

theorem ES_Save_outcome_truthful:
  assumes "store_steps ustr NewEventStore st"
    and "globalCounter st + int (length (unsavedEvents a)) < max_int64" "unsavedEvents a \<noteq> []"
    and "S = memory_es_store ustr fresh now atype stateFactory codec protos"
    and "ES_Save d S st (Some a) opts = (r, a', st')"
  shows "(r \<noteq> None \<and> SaveOutcome r = AppendOutcomeNothingAppended \<and> a' = Some a
        \<and> stream_view ustr st' = stream_view ustr st)
    \<or> (r \<noteq> None \<and> SaveOutcome r = AppendOutcomeUnknown \<and> a' = Some a
        \<and> (\<exists>i. \<not> json_year_ok (now i)))
    \<or> ((r = None \<or> SaveOutcome r = AppendOutcomeAppended)
        \<and> (\<exists>es. save_extended d S (stream_view ustr st (agg_id a)) (stream_view ustr st' (agg_id a)) a es))"
proof -
  note cases = memory_es.Save_cases [OF reachable_valid [OF assms(1)] assms(2,3),
      where fresh = fresh and now = now and d = d and atype = atype and stateFactory = stateFactory
        and codec = codec and protos = protos, folded assms(4), OF assms(5)]
  show ?thesis
    using cases by (fastforce simp: Let_def split: if_splits option.splits)
qed

lemma counter_store_memory: "counter_store = memory_es_store (\<lambda>_. '''') (\<lambda>_. 7) (\<lambda>_. 0) ''counter'' (\<lambda>_. 0) byte_codec
     [''added'' \<mapsto> Pointer 0]"
  by (simp add: counter_store_def)

lemma ES_Save_outcome_truthful_witness:
  "\<exists>es a' st'. ES_Save counter_domain counter_store NewEventStore (Some counter_new) None = (None, a', st')
     \<and> save_extended counter_domain counter_store None
         (stream_view (\<lambda>_. '''') st' (New_id ''counter'' 1)) counter_new es"
proof -
  obtain a' st' where run:
    "ES_Save counter_domain counter_store NewEventStore (Some counter_new) None = (None, a', st')"
    using counter_save by blast
  show ?thesis
    using ES_Save_outcome_truthful [OF rtranclp.rtrancl_refl _ _ counter_store_memory run] run
    by (auto simp: counter_new_facts counter_view max_int64_def)
qed

text \<open>
  C34. Save and load round-trip. An aggregate that is current with its stream's history (nothing
  truncated) and saves its events successfully is afterwards current with the extended history,
  with no unsaved event left; and loading it from the resulting store returns an aggregate of the
  same version and the same state.
\<close>

theorem ES_Save_then_Load:
  assumes "store_steps ustr NewEventStore st"
    and "globalCounter st + int (length (unsavedEvents a)) < max_int64" "unsavedEvents a \<noteq> []"
    and "S = memory_es_store ustr fresh now atype stateFactory codec protos"
    and "ES_Save d S st (Some a) None = (None, a', st')"
    and "i \<noteq> uuid_nil" "agg_id a = New_id atype i"
    and "(case stream_view ustr st (agg_id a) of None \<Rightarrow> H = [] | Some v \<Rightarrow> v = (1, H))"
    and "at_version d S H (int (length H)) a" "\<forall>ev \<in> set H. decoded S ev \<noteq> None"
    and "\<forall>u \<in> set (unsavedEvents a). codec_ok d S (ae_DomainEvent u)"
  shows "\<exists>a1 a2. a' = Some a1 \<and> unsavedEvents a1 = []
    \<and> agg_version a1 = agg_version a + int (length (unsavedEvents a))
    \<and> ES_Load d S st' i (Some \<lparr>lo_ToVersion = 0\<rparr>) = Some (Inr a2)
    \<and> agg_id a2 = agg_id a1 \<and> agg_version a2 = agg_version a1 \<and> agg_state a2 = agg_state a1"
proof -
  note valid = reachable_valid [OF assms(1)]
  have t: "aggregateType S = atype" by (simp add: assms(4) memory_es_store_def)
  have hist: "shows_history (stream_view ustr st (agg_id a)) H"
    using assms(8) by (auto simp: shows_history_def split: option.splits)
  obtain es a1 where es: "a' = Some a1" "length es = length (unsavedEvents a)"
    "stream_view ustr st' (agg_id a) = extend_view (stream_view ustr st (agg_id a)) es"
    "\<forall>ev \<in> set es. decoded S ev \<noteq> None"
    "at_version d S (H @ es) (int (length (H @ es))) a1" "agg_id a1 = agg_id a" "unsavedEvents a1 = []"
    using memory_es.Save_current [OF valid assms(2,3), where fresh = fresh and now = now and d = d
        and atype = atype and stateFactory = stateFactory and codec = codec and protos = protos,
        folded assms(4), OF assms(5) _ hist assms(9,11)] by auto
  have v: "stream_view ustr st' (New_id atype i) = Some (1, H @ es)"
    using es(2,3) assms(3,7,8) by (auto simp: extend_view_def split: option.splits)
  have valid': "store_valid ustr st'"
    using memory_es.Save_cases [OF valid assms(2,3), where fresh = fresh and now = now and d = d
        and atype = atype and stateFactory = stateFactory and codec = codec and protos = protos,
        folded assms(4), OF assms(5)] by blast
  obtain a2 where a2: "ES_Load d S st' i (Some \<lparr>lo_ToVersion = 0\<rparr>) = Some (Inr a2)"
    "at_version d S (H @ es) (int (length (H @ es))) a2" "agg_id a2 = New_id atype i"
    using memory_es.Load_history [OF valid' assms(6), where fresh = fresh and now = now and d = d
        and atype = atype and stateFactory = stateFactory and codec = codec and protos = protos,
        folded assms(4), unfolded t, OF v] assms(10) es(4)
    by (force simp: target_version_def max_int64_def)
  show ?thesis
    using es a2 assms(7,9) by (auto simp: at_version_def)
qed

lemma ES_Save_then_Load_witness:
  "\<exists>a1 a2 st'. ES_Save counter_domain counter_store NewEventStore (Some counter_new) None = (None, Some a1, st')
     \<and> ES_Load counter_domain counter_store st' 1 (Some \<lparr>lo_ToVersion = 0\<rparr>) = Some (Inr a2)
     \<and> agg_version a2 = 1 \<and> agg_state a2 = agg_state a1"
proof -
  obtain a' st' where run:
    "ES_Save counter_domain counter_store NewEventStore (Some counter_new) None = (None, a', st')"
    using counter_save by blast
  show ?thesis
    using ES_Save_then_Load [OF rtranclp.rtrancl_refl _ _ counter_store_memory run, of 1 "[]"]
      counter_current counter_codec run
    by (auto simp: counter_new_facts counter_view max_int64_def uuid_nil_def)
qed

text \<open>The store after that save: reachable, with the one event in the counter's stream.\<close>

lemma counter_saved:
  "\<exists>es a1 st'. ES_Save counter_domain counter_store NewEventStore (Some counter_new) None = (None, Some a1, st')
     \<and> store_steps (\<lambda>_. '''') NewEventStore st' \<and> length es = 1
     \<and> stream_view (\<lambda>_. '''') st' (New_id ''counter'' 1) = Some (1, es)
     \<and> (\<forall>ev \<in> set es. decoded counter_store ev \<noteq> None)"
proof -
  obtain a' st' where run:
    "ES_Save counter_domain counter_store NewEventStore (Some counter_new) None = (None, a', st')"
    using counter_save by blast
  have room: "globalCounter NewEventStore + int (length (unsavedEvents counter_new)) < max_int64"
    "unsavedEvents counter_new \<noteq> []"
    by (simp_all add: counter_new_facts max_int64_def)
  have valid: "store_valid (\<lambda>_. '''') NewEventStore" by (rule store_valid_New)
  obtain es a1 where es: "a' = Some a1" "length es = 1"
    "stream_view (\<lambda>_. '''') st' (New_id ''counter'' 1) = Some (1, es)"
    "\<forall>ev \<in> set es. decoded counter_store ev \<noteq> None"
    using memory_es.Save_current [OF valid room, where fresh = "\<lambda>_. 7" and now = "\<lambda>_. 0"
        and d = counter_domain and atype = "''counter''" and stateFactory = "\<lambda>_. 0" and codec = byte_codec
        and protos = "[''added'' \<mapsto> Pointer 0]", folded counter_store_memory, OF run, of "[]"]
      counter_current counter_codec
    by (fastforce simp: counter_view shows_history_def extend_view_def counter_new_facts split: if_splits)
  obtain ev st2 where app: "AppendStream (\<lambda>_. '''') (\<lambda>_. 7) (\<lambda>_. 0) NewEventStore (New_id ''counter'' 1)
      [\<lparr>we_Type = ''added'', we_Data = [5], we_DataContentType = ''raw'', we_Metadata = None\<rparr>]
      \<lparr>ExpectVersion = VersionPtr 0, StreamMustNotExist = False\<rparr> = (Inr [ev], st2)"
    using counter_append by blast
  have "st' = st2"
    using run app by (auto simp: ES_Save_def counter_store_sel counter_new_facts max_int64_def
        byte_codec_def counter_domain_def reserved_key_def Let_def split: prod.splits option.splits)
  then have "store_steps (\<lambda>_. '''') NewEventStore st'"
    using store_step.append [OF _ app] by (auto simp: max_int64_def)
  then show ?thesis using es run by blast
qed

lemma ES_Load_folds_witness:
  "\<exists>a1 st' H a. ES_Save counter_domain counter_store NewEventStore (Some counter_new) None = (None, Some a1, st')
     \<and> ES_Load counter_domain counter_store st' 1 (Some \<lparr>lo_ToVersion = 1\<rparr>) = Some (Inr a)
     \<and> at_version counter_domain counter_store H 1 a"
proof -
  obtain es a1 st' where es: "ES_Save counter_domain counter_store NewEventStore (Some counter_new) None = (None, Some a1, st')"
    "store_steps (\<lambda>_. '''') NewEventStore st'" "length es = 1"
    "stream_view (\<lambda>_. '''') st' (New_id ''counter'' 1) = Some (1, es)"
    "\<forall>ev \<in> set es. decoded counter_store ev \<noteq> None"
    using counter_saved by blast
  then show ?thesis
    using ES_Load_folds [OF es(2) _ counter_store_memory es(4), of 1 counter_domain]
    by (fastforce simp: uuid_nil_def max_int64_def target_version_def)
qed

text \<open>
  Registering prototypes. A successful registration has only valid, pairwise distinct type
  names that were not registered before; afterwards each of them, and nothing else, is added, with
  a constructor that never returns a bare value (a pointer, or nil where the prototype returns nil).
\<close>

theorem Use_registers:
  assumes "Use ps s = (None, s')"
  shows "distinct (map proto_EventType ps)
    \<and> (\<forall>p \<in> set ps. ValidateTypeName (proto_EventType p) = None
         \<and> domainEventPrototypes s (proto_EventType p) = None
         \<and> domainEventPrototypes s' (proto_EventType p) = Some (pointerConstructor (proto_New p))
         \<and> (\<forall>e. pointerConstructor (proto_New p) \<noteq> Value e))
    \<and> (\<forall>t. t \<in> proto_EventType ` set ps \<or> domainEventPrototypes s' t = domainEventPrototypes s t)"
  using assms
proof (induction ps arbitrary: s)
  case Nil
  then show ?case by simp
next
  case (Cons p ps)
  let ?et = "proto_EventType p"
  let ?s1 = "s\<lparr>domainEventPrototypes := (domainEventPrototypes s)(?et \<mapsto> pointerConstructor (proto_New p))\<rparr>"
  have ok: "ValidateTypeName ?et = None" "domainEventPrototypes s ?et = None" "Use ps ?s1 = (None, s')"
    using Cons.prems by (auto simp: Let_def split: option.splits if_splits)
  note IH = Cons.IH [OF ok(3)]
  have new: "?et \<notin> proto_EventType ` set ps" using IH by auto
  have "pointerConstructor v \<noteq> Value e" for v :: "'a event_value" and e by (cases v) auto
  then show ?case using IH ok new by (auto split: if_splits)
qed

lemma Use_registers_witness:
  "domainEventPrototypes (snd (Use [\<lparr>proto_EventType = ''added'', proto_New = Value 0\<rparr>]
      (counter_store\<lparr>domainEventPrototypes := Map.empty\<rparr>))) ''added'' = Some (Pointer 0)"
proof -
  let ?s = "counter_store\<lparr>domainEventPrototypes := Map.empty\<rparr>"
  let ?ps = "[\<lparr>proto_EventType = ''added'', proto_New = Value 0\<rparr>]"
  have "fst (Use ?ps ?s) = None"
    by (simp add: ValidateTypeName_def hasPrefix_def hasSuffix_def Let_def)
  then have "Use ?ps ?s = (None, snd (Use ?ps ?s))" by (metis prod.collapse)
  then show ?thesis using Use_registers [of ?ps ?s "snd (Use ?ps ?s)"] by simp
qed

text \<open>
  A defect of \<open>SkipApply\<close>. Saving one event with \<open>SkipApply\<close> leaves it queued, and only this
  package can apply the queue. Hydrating the aggregate afterwards reports success and reaches the
  new version, but the event it read stays in the queue behind the copy it applied, below the
  version the aggregate is at: the apply loop of every later save stops on it, so that save reports
  its events as appended but not applied, whatever they are.
\<close>

theorem Hydrate_after_SkipApply_leaves_stale_event:
  assumes "store_steps ustr NewEventStore st" "globalCounter st + 1 < max_int64"
    and "S = memory_es_store ustr fresh now atype stateFactory codec protos"
    and "unsavedEvents a = [u]" "codec_ok d S (ae_DomainEvent u)"
    and "ES_Save d S st (Some a) (Some \<lparr>SkipApply = True\<rparr>) = (None, a', st')"
    and "shows_history (stream_view ustr st (agg_id a)) H" "at_version d S H (int (length H)) a"
  shows "\<exists>a1 a2. a' = Some a1
    \<and> ES_Hydrate d S st' (Some a1) (Some \<lparr>ho_ToVersion = 0\<rparr>) = Some (None, Some a2)
    \<and> agg_version a2 = int (length H) + 1 \<and> length (unappliedEvents a2) = 1
    \<and> (\<forall>later. fst (apply_queue d (a2\<lparr>unappliedEvents := unappliedEvents a2 @ later\<rparr>)) \<noteq> None)"
proof -
  obtain a1 a2 e where a2: "a' = Some a1"
    "ES_Hydrate d S st' (Some a1) (Some \<lparr>ho_ToVersion = 0\<rparr>) = Some (None, Some a2)"
    "agg_version a2 = int (length H) + 1" "unappliedEvents a2 = [e]" "ae_Version e = int (length H) + 1"
    using memory_es.Hydrate_after_skip [OF reachable_valid [OF assms(1)] _ assms(4), where fresh = fresh
        and now = now and d = d and atype = atype and stateFactory = stateFactory and codec = codec
        and protos = protos, folded assms(3), OF _ assms(6,7,8,5)] assms(2) by auto
  have "ae_Version e \<noteq> wrap64 (agg_version a2 + 1)"
    using wrap64_succ_neq [of "agg_version a2"] a2(3,5) by metis
  then have "fst (apply_queue d (a2\<lparr>unappliedEvents := unappliedEvents a2 @ later\<rparr>)) \<noteq> None" for later
    using a2(4) by (subst apply_queue.simps) (simp add: applyNext_def)
  then show ?thesis using a2 by auto
qed

lemma Hydrate_after_SkipApply_witness:
  "\<exists>a1 a2 st'. ES_Save counter_domain counter_store NewEventStore (Some counter_new)
       (Some \<lparr>SkipApply = True\<rparr>) = (None, Some a1, st')
    \<and> ES_Hydrate counter_domain counter_store st' (Some a1) (Some \<lparr>ho_ToVersion = 0\<rparr>) = Some (None, Some a2)
    \<and> agg_version a2 = 1 \<and> length (unappliedEvents a2) = 1"
proof -
  obtain a' st' where run:
    "ES_Save counter_domain counter_store NewEventStore (Some counter_new) (Some \<lparr>SkipApply = True\<rparr>)
       = (None, a', st')"
    using counter_save by blast
  have hist: "shows_history (stream_view (\<lambda>_. '''') NewEventStore (agg_id counter_new)) []"
    by (simp add: counter_view shows_history_def)
  show ?thesis
    using Hydrate_after_SkipApply_leaves_stale_event [OF rtranclp.rtrancl_refl _ counter_store_memory
        counter_new_facts(3) counter_codec run hist] counter_current run
    by (auto simp: max_int64_def)
qed

end
