(* ===== verification/SnapshotStore.thy ===== *)
theory SnapshotStore
  imports Projection StoreContract
begin

text \<open>
  Snapshot storage: the snapshot record and the policies (\<open>snapshotstore/snapshot_store.go\<close>), the
  in-memory store (\<open>snapshotstore/memory\<close>) and the store that keeps snapshots as events of a
  parallel stream (\<open>snapshotstore/eventstream\<close>).
\<close>

section \<open>Snapshots and policies\<close>

record aggregate_snapshot =
  AggregateID :: typeid
  AggregateVersion :: int64
  sn_Timestamp :: time
  sn_Data :: bytes
  sn_DataContentType :: string

record read_snapshot_options =
  MaxVersion :: int64

text \<open>Go's remainder by a positive \<open>N\<close> is zero exactly when \<open>mod\<close> is.\<close>

definition EventCount_ShouldSnapshot :: "int64 \<Rightarrow> typeid \<Rightarrow> int64 \<Rightarrow> time \<Rightarrow> bool" where
  "EventCount_ShouldSnapshot n i aggregateVersion t \<longleftrightarrow> 0 < n \<and> aggregateVersion mod n = 0"

definition MaxSnapshots_ShouldRetain :: "int64 \<Rightarrow> aggregate_snapshot \<Rightarrow> int64 \<Rightarrow> int64 \<Rightarrow> bool" where
  "MaxSnapshots_ShouldRetain n snap snapshotIndex totalSnapshots \<longleftrightarrow>
     n = 0 \<or> wrap64 (totalSnapshots - n) \<le> snapshotIndex"

definition MinAggregateVersion_ShouldRetain :: "int64 \<Rightarrow> aggregate_snapshot \<Rightarrow> int64 \<Rightarrow> int64 \<Rightarrow> bool" where
  "MinAggregateVersion_ShouldRetain minVersion snap snapshotIndex totalSnapshots \<longleftrightarrow>
     minVersion \<le> AggregateVersion snap"

section \<open>The in-memory store\<close>

record snapshot_store =
  snapshots :: "typeid \<rightharpoonup> aggregate_snapshot list"
  retention :: "aggregate_snapshot \<Rightarrow> int64 \<Rightarrow> int64 \<Rightarrow> bool"

definition NewSnapshotStore :: snapshot_store where
  "NewSnapshotStore = \<lparr>snapshots = Map.empty, retention = MaxSnapshots_ShouldRetain 1\<rparr>"

text \<open>The backwards scan: the last snapshot at or below the bound.\<close>

fun scan_back :: "int64 \<Rightarrow> aggregate_snapshot list \<Rightarrow> aggregate_snapshot option" where
  "scan_back bound [] = None"
| "scan_back bound (snap # older) =
     (if AggregateVersion snap \<le> bound then Some snap else scan_back bound older)"

definition Memory_ReadSnapshot ::
  "snapshot_store \<Rightarrow> typeid \<Rightarrow> read_snapshot_options \<Rightarrow> aggregate_snapshot result" where
  "Memory_ReadSnapshot s aggregateID opts =
     (case snapshots s aggregateID of
        None \<Rightarrow> Inl (Sentinel ErrSnapshotNotFound)
      | Some [] \<Rightarrow> Inl (Sentinel ErrSnapshotNotFound)
      | Some snaps \<Rightarrow>
          if 0 < MaxVersion opts
          then (case scan_back (MaxVersion opts) (rev snaps) of
                  Some snap \<Rightarrow> Inr snap | None \<Rightarrow> Inl (Sentinel ErrSnapshotNotFound))
          else Inr (last snaps))"

definition Memory_WriteSnapshot ::
  "snapshot_store \<Rightarrow> aggregate_snapshot \<Rightarrow> go_error option \<times> snapshot_store" where
  "Memory_WriteSnapshot s snap =
     (let old = (case snapshots s (AggregateID snap) of None \<Rightarrow> [] | Some snaps \<Rightarrow> snaps)
      in if old \<noteq> [] \<and> AggregateVersion snap \<le> AggregateVersion (last old)
         then (Some (Text ''aggregate version is older than the most recent snapshot version''), s)
         else let all = old @ [snap];
                  retained = map snd (filter (\<lambda>(i, c). retention s c (int i) (int (length all)))
                    (enumerate 0 all))
              in (None, s\<lparr>snapshots := (snapshots s)(AggregateID snap \<mapsto> retained)\<rparr>))"

section \<open>Snapshots as events\<close>

definition SnapshotVersionMetadataKey :: string where
  "SnapshotVersionMetadataKey = ''estoria.snapshot_version''"

definition SnapshotTimestampMetadataKey :: string where
  "SnapshotTimestampMetadataKey = ''estoria.snapshot_timestamp''"

text \<open>
  The event store behind it is given by its operations on \<open>'db\<close>; \<open>maxSnapshots\<close> is present when
  pruning is configured. RFC 3339 formatting and parsing of an instant are the arguments
  \<open>fmtTime\<close> and \<open>parseTime\<close>.
\<close>

record ('db, 'i) snapshot_stream_store =
  ss_read :: "'db \<Rightarrow> typeid \<Rightarrow> read_stream_options \<Rightarrow> 'i result"
  ss_next :: "'i \<Rightarrow> event result \<times> 'i"
  ss_append :: "'db \<Rightarrow> typeid \<Rightarrow> writable_event list \<Rightarrow> append_stream_options \<Rightarrow> event list result \<times> 'db"
  ss_delete :: "('db \<Rightarrow> typeid \<Rightarrow> delete_stream_options \<Rightarrow> go_error option \<times> 'db) option"
  maxSnapshots :: int64

definition WithMaxSnapshots ::
  "('db \<Rightarrow> typeid \<Rightarrow> delete_stream_options \<Rightarrow> go_error option \<times> 'db) option \<Rightarrow> int64
   \<Rightarrow> ('db, 'i) snapshot_stream_store \<Rightarrow> go_error option \<times> ('db, 'i) snapshot_stream_store" where
  "WithMaxSnapshots deleter n s =
     (if n < 1 then (Some (Text ''max snapshots must be at least 1''), s)
      else case deleter of
        None \<Rightarrow> (Some (Text ''the event store does not support stream deletion''), s)
      | Some del \<Rightarrow> (None, s\<lparr>ss_delete := Some del, maxSnapshots := n\<rparr>))"

definition snapshotStreamID :: "typeid \<Rightarrow> typeid" where
  "snapshotStreamID i = New_id (id_type i @ ''snapshot'') (id_uuid i)"

text \<open>One event of the snapshot stream, read as a snapshot of at most \<open>maxVersion\<close>.\<close>

definition metadata_get :: "metadata \<Rightarrow> string \<Rightarrow> string option" where
  "metadata_get md k = (case md of None \<Rightarrow> None | Some m \<Rightarrow> m k)"

definition snapshot_of_event ::
  "(string \<Rightarrow> time option) \<Rightarrow> typeid \<Rightarrow> int64 \<Rightarrow> event \<Rightarrow> aggregate_snapshot option" where
  "snapshot_of_event parseTime aggregateID maxVersion event =
     (case metadata_get (ev_Metadata event) SnapshotVersionMetadataKey of
        None \<Rightarrow> None
      | Some versionStr \<Rightarrow>
     (case ParseInt versionStr of
        None \<Rightarrow> None
      | Some version \<Rightarrow>
          if 0 < maxVersion \<and> maxVersion < version then None
          else Some \<lparr>AggregateID = aggregateID, AggregateVersion = version,
             sn_Timestamp = (case metadata_get (ev_Metadata event) SnapshotTimestampMetadataKey of
                None \<Rightarrow> ev_Timestamp event
              | Some ts \<Rightarrow> (case parseTime ts of None \<Rightarrow> ev_Timestamp event | Some t \<Rightarrow> t)),
             sn_Data = ev_Data event, sn_DataContentType = ev_DataContentType event\<rparr>))"

partial_function (option) read_snapshot_loop ::
  "('i \<Rightarrow> event result \<times> 'i) \<Rightarrow> (event \<Rightarrow> aggregate_snapshot option) \<Rightarrow> 'i
   \<Rightarrow> aggregate_snapshot result option" where
  "read_snapshot_loop nxt snapshot_of iter =
     (case nxt iter of
        (Inl err, iter') \<Rightarrow>
          if errors_is err ErrEndOfEventStream then Some (Inl (Sentinel ErrSnapshotNotFound))
          else Some (Inl (fmt_wrap ''reading snapshot event'' err))
      | (Inr event, iter') \<Rightarrow>
          (case snapshot_of event of
             None \<Rightarrow> read_snapshot_loop nxt snapshot_of iter'
           | Some snap \<Rightarrow> Some (Inr snap)))"

definition Stream_ReadSnapshot ::
  "(string \<Rightarrow> time option) \<Rightarrow> ('db, 'i) snapshot_stream_store \<Rightarrow> 'db \<Rightarrow> typeid
   \<Rightarrow> read_snapshot_options \<Rightarrow> aggregate_snapshot result option" where
  "Stream_ReadSnapshot parseTime s db aggregateID opts =
     (let readOpts = \<lparr>rs_AfterVersion = 0, rs_Count = (if MaxVersion opts \<le> 0 then 1 else 0),
                      rs_Direction = Reverse\<rparr>
      in case ss_read s db (snapshotStreamID aggregateID) readOpts of
           Inl err \<Rightarrow>
             if errors_is err ErrStreamNotFound then Some (Inl (Sentinel ErrSnapshotNotFound))
             else Some (Inl (fmt_wrap ''finding snapshot stream'' err))
         | Inr iter \<Rightarrow> read_snapshot_loop (ss_next s)
             (snapshot_of_event parseTime aggregateID (MaxVersion opts)) iter)"

definition snapshot_event :: "(time \<Rightarrow> string) \<Rightarrow> aggregate_snapshot \<Rightarrow> writable_event" where
  "snapshot_event fmtTime snap =
     (let m = [SnapshotVersionMetadataKey \<mapsto> itoa (AggregateVersion snap)]
      in \<lparr>we_Type = id_type (AggregateID snap) @ ''snapshot'', we_Data = sn_Data snap,
          we_DataContentType = sn_DataContentType snap,
          we_Metadata = Some (if isZero (sn_Timestamp snap) then m
            else m(SnapshotTimestampMetadataKey \<mapsto> fmtTime (sn_Timestamp snap)))\<rparr>)"

definition Stream_WriteSnapshot ::
  "(time \<Rightarrow> string) \<Rightarrow> ('db, 'i) snapshot_stream_store \<Rightarrow> 'db \<Rightarrow> aggregate_snapshot
   \<Rightarrow> go_error option \<times> 'db" where
  "Stream_WriteSnapshot fmtTime s db snap =
     (let sid = snapshotStreamID (AggregateID snap) in
      case ss_append s db sid [snapshot_event fmtTime snap]
             \<lparr>ExpectVersion = None, StreamMustNotExist = False\<rparr> of
        (Inl err, db') \<Rightarrow> (Some (fmt_wrap ''appending snapshot stream'' err), db')
      | (Inr written, db') \<Rightarrow>
          (case ss_delete s of
             Some del \<Rightarrow>
               if length written = 1 then
                 let toVersion = wrap64 (ev_StreamVersion (hd written) - maxSnapshots s)
                 in if 0 < toVersion then (None, snd (del db' sid \<lparr>ToVersion = toVersion\<rparr>))
                    else (None, db')
               else (None, db')
           | None \<Rightarrow> (None, db')))"

section \<open>The in-memory store's invariant\<close>

definition snapshots_ok :: "snapshot_store \<Rightarrow> bool" where
  "snapshots_ok s \<longleftrightarrow> (\<forall>i snaps. snapshots s i = Some snaps \<longrightarrow>
     sorted_wrt (\<lambda>a b. AggregateVersion a < AggregateVersion b) snaps
     \<and> (\<forall>snap \<in> set snaps. AggregateID snap = i))"

lemma snapshots_ok_New [simp]: "snapshots_ok NewSnapshotStore"
  by (simp add: snapshots_ok_def NewSnapshotStore_def)

lemma scan_back_Some:
  assumes "sorted_wrt (\<lambda>a b. AggregateVersion b < AggregateVersion a) snaps"
    "scan_back bound snaps = Some snap"
  shows "snap \<in> set snaps \<and> AggregateVersion snap \<le> bound
    \<and> (\<forall>c \<in> set snaps. AggregateVersion c \<le> bound \<longrightarrow> AggregateVersion c \<le> AggregateVersion snap)"
  using assms
proof (induction snaps)
  case (Cons a snaps)
  then show ?case by (cases "AggregateVersion a \<le> bound") auto
qed simp

lemma scan_back_None: "scan_back bound snaps = None \<longleftrightarrow> (\<forall>c \<in> set snaps. bound < AggregateVersion c)"
  by (induction snaps) auto

lemma sorted_retained:
  "sorted_wrt R xs \<Longrightarrow> sorted_wrt R (map snd (filter P (enumerate k xs)))"
proof -
  assume "sorted_wrt R xs"
  then have "sorted_wrt (\<lambda>x y. R (snd x) (snd y)) (enumerate k xs)"
    by (simp flip: sorted_wrt_map)
  then show ?thesis by (simp add: sorted_wrt_map sorted_wrt_filter)
qed

lemma set_retained: "set (map snd (filter P (enumerate k xs))) \<subseteq> set xs"
  by (auto simp: in_set_enumerate_eq)

lemma last_is_newest:
  assumes "sorted_wrt (\<lambda>a b. AggregateVersion a < AggregateVersion b) l" "c \<in> set l"
  shows "AggregateVersion c \<le> AggregateVersion (last l)"
  using assms by (induction l) (auto intro: less_imp_le)

lemma Memory_ReadSnapshot_unfold:
  assumes "snapshots s i = Some l" "l \<noteq> []"
  shows "Memory_ReadSnapshot s i opts = (if 0 < MaxVersion opts
     then (case scan_back (MaxVersion opts) (rev l) of
             Some snap \<Rightarrow> Inr snap | None \<Rightarrow> Inl (Sentinel ErrSnapshotNotFound))
     else Inr (last l))"
  using assms by (cases l) (simp_all add: Memory_ReadSnapshot_def)

lemma Memory_WriteSnapshot_ok:
  assumes "snapshots_ok s" shows "snapshots_ok (snd (Memory_WriteSnapshot s snap))"
proof -
  define old where "old = (case snapshots s (AggregateID snap) of None \<Rightarrow> [] | Some snaps \<Rightarrow> snaps)"
  have old: "sorted_wrt (\<lambda>a b. AggregateVersion a < AggregateVersion b) old"
    "\<forall>c \<in> set old. AggregateID c = AggregateID snap"
    using assms by (cases "snapshots s (AggregateID snap)"; simp add: old_def snapshots_ok_def)+
  show ?thesis
  proof (cases "old \<noteq> [] \<and> AggregateVersion snap \<le> AggregateVersion (last old)")
    case True
    then show ?thesis using assms by (simp add: Memory_WriteSnapshot_def Let_def flip: old_def)
  next
    case False
    have "AggregateVersion c < AggregateVersion snap" if "c \<in> set old" for c
      using last_is_newest [OF old(1) that] False that by (cases old) auto
    then have all: "sorted_wrt (\<lambda>a b. AggregateVersion a < AggregateVersion b) (old @ [snap])"
      using old(1) by (simp add: sorted_wrt_append)
    show ?thesis
      unfolding snapshots_ok_def
    proof (intro allI impI)
      fix i snaps assume s: "snapshots (snd (Memory_WriteSnapshot s snap)) i = Some snaps"
      show "sorted_wrt (\<lambda>a b. AggregateVersion a < AggregateVersion b) snaps \<and> (\<forall>snap \<in> set snaps. AggregateID snap = i)"
      proof (cases "i = AggregateID snap")
        case True
        then obtain P where P: "snaps = map snd (filter P (enumerate 0 (old @ [snap])))"
          using s False by (auto simp: Memory_WriteSnapshot_def Let_def simp flip: old_def)
        then show ?thesis
          using sorted_retained [OF all] set_retained [of P 0 "old @ [snap]"] old(2) True by fastforce
      next
        case False
        then show ?thesis
          using s assms \<open>\<not> (old \<noteq> [] \<and> _)\<close>
          by (simp add: Memory_WriteSnapshot_def Let_def snapshots_ok_def flip: old_def)
      qed
    qed
  qed
qed

text \<open>Every store the in-memory implementation can reach, under any retention policy.\<close>

inductive snapshot_reachable :: "snapshot_store \<Rightarrow> bool" where
  init: "snapshot_reachable \<lparr>snapshots = Map.empty, retention = policy\<rparr>"
| step: "snapshot_reachable s \<Longrightarrow> snapshot_reachable (snd (Memory_WriteSnapshot s snap))"

lemma snapshot_reachable_ok: "snapshot_reachable s \<Longrightarrow> snapshots_ok s"
  by (induction rule: snapshot_reachable.induct)
    (simp add: snapshots_ok_def, rule Memory_WriteSnapshot_ok)

text \<open>
  A read of the in-memory snapshot store finds the newest eligible snapshot of the aggregate:
  one of those retained for it, within the version bound when there is one, and no retained one
  within the bound is newer; it finds nothing exactly when none is eligible. This holds in every
  reachable store under every retention policy.
\<close>

theorem Memory_ReadSnapshot_newest:
  assumes "snapshot_reachable s" and "snaps = (case snapshots s i of None \<Rightarrow> [] | Some l \<Rightarrow> l)"
    and "eligible = (\<lambda>snap. MaxVersion opts \<le> 0 \<or> AggregateVersion snap \<le> MaxVersion opts)"
  shows "case Memory_ReadSnapshot s i opts of
      Inl e \<Rightarrow> e = Sentinel ErrSnapshotNotFound \<and> filter eligible snaps = []
    | Inr snap \<Rightarrow> snap \<in> set snaps \<and> AggregateID snap = i \<and> eligible snap
        \<and> (\<forall>c \<in> set (filter eligible snaps). AggregateVersion c \<le> AggregateVersion snap)"
proof (cases "snapshots s i = None \<or> snapshots s i = Some []")
  case True
  then show ?thesis using assms(2) by (auto simp: Memory_ReadSnapshot_def)
next
  case False
  then obtain l where l: "snapshots s i = Some l" "l \<noteq> []" by auto
  then have snaps: "snaps = l" by (simp add: assms(2))
  have ok: "sorted_wrt (\<lambda>a b. AggregateVersion a < AggregateVersion b) l" "\<forall>c \<in> set l. AggregateID c = i"
    using snapshot_reachable_ok [OF assms(1)] l(1) by (auto simp: snapshots_ok_def)
  show ?thesis
  proof (cases "0 < MaxVersion opts")
    case True
    have rev: "sorted_wrt (\<lambda>a b. AggregateVersion b < AggregateVersion a) (rev l)"
      using ok(1) by (simp add: sorted_wrt_rev)
    show ?thesis
    proof (cases "scan_back (MaxVersion opts) (rev l)")
      case None
      then have "\<forall>c \<in> set l. MaxVersion opts < AggregateVersion c" by (simp add: scan_back_None)
      then show ?thesis using True None
        by (simp add: Memory_ReadSnapshot_unfold [OF l] snaps assms(3) filter_empty_conv not_le)
    next
      case (Some snap)
      then show ?thesis using True ok(2) scan_back_Some [OF rev Some]
        by (simp add: Memory_ReadSnapshot_unfold [OF l] snaps assms(3))
    qed
  next
    case False
    then show ?thesis using ok(2) last_is_newest [OF ok(1)] l(2)
      by (simp add: Memory_ReadSnapshot_unfold [OF l] snaps assms(3))
  qed
qed

lemma Memory_ReadSnapshot_newest_witness:
  "case Memory_ReadSnapshot (snd (Memory_WriteSnapshot NewSnapshotStore
       \<lparr>AggregateID = New_id ''a'' 1, AggregateVersion = 4, sn_Timestamp = 0, sn_Data = [], sn_DataContentType = ''x''\<rparr>))
      (New_id ''a'' 1) \<lparr>MaxVersion = 9\<rparr> of
     Inl e \<Rightarrow> False | Inr snap \<Rightarrow> AggregateVersion snap = 4"
proof -
  let ?snap = "\<lparr>AggregateID = New_id ''a'' 1, AggregateVersion = 4, sn_Timestamp = 0, sn_Data = [], sn_DataContentType = ''x''\<rparr>"
  let ?s = "snd (Memory_WriteSnapshot NewSnapshotStore ?snap)"
  have r: "snapshot_reachable ?s"
    unfolding NewSnapshotStore_def by (intro snapshot_reachable.intros)
  have "snapshots ?s (New_id ''a'' 1) = Some [?snap]"
    by (simp add: Memory_WriteSnapshot_def NewSnapshotStore_def MaxSnapshots_ShouldRetain_def)
  then show ?thesis
    using Memory_ReadSnapshot_newest [OF r refl refl, of "\<lparr>MaxVersion = 9\<rparr>" "New_id ''a'' 1"]
    by (auto split: sum.splits)
qed

section \<open>The event-backed store\<close>

lemma read_snapshot_loop_yields:
  "yields nxt it es \<Longrightarrow> read_snapshot_loop nxt f it =
     Some (case first_some (map f es) of None \<Rightarrow> Inl (Sentinel ErrSnapshotNotFound) | Some snap \<Rightarrow> Inr snap)"
proof (induction es arbitrary: it)
  case Nil
  then show ?case
    by (cases "nxt it") (simp add: read_snapshot_loop.simps [of nxt f it] first_some_def map_filter_simps)
next
  case (Cons e es)
  then show ?case
    by (cases "nxt it"; cases "f e")
      (simp_all add: read_snapshot_loop.simps [of nxt f it] first_some_def map_filter_simps)
qed

text \<open>The store over the in-memory event store; \<open>prune\<close> says whether pruning is configured.\<close>

definition memory_snapshot_stream ::
  "(uuid \<Rightarrow> string) \<Rightarrow> (nat \<Rightarrow> uuid) \<Rightarrow> (nat \<Rightarrow> time) \<Rightarrow> bool \<Rightarrow> int64
   \<Rightarrow> (event_store, stream_iterator) snapshot_stream_store" where
  "memory_snapshot_stream ustr fresh now prune n =
     \<lparr>ss_read = ReadStream ustr, ss_next = Next, ss_append = AppendStream ustr fresh now,
      ss_delete = (if prune then Some (DeleteStream ustr) else None), maxSnapshots = n\<rparr>"

text \<open>The snapshot a read should find, given the retained events of the snapshot stream.\<close>

definition newest_snapshot ::
  "(string \<Rightarrow> time option) \<Rightarrow> typeid \<Rightarrow> int64 \<Rightarrow> (int64 \<times> event list) option \<Rightarrow> aggregate_snapshot option" where
  "newest_snapshot parseTime i maxVersion v = (case v of
     None \<Rightarrow> None
   | Some (fv, es) \<Rightarrow> first_some (map (snapshot_of_event parseTime i maxVersion)
       (if maxVersion \<le> 0 then take 1 (rev es) else rev es)))"

lemma Stream_ReadSnapshot_view:
  assumes "store_valid ustr st"
  shows "Stream_ReadSnapshot parseTime (memory_snapshot_stream ustr fresh now prune n) st i opts =
    Some (case newest_snapshot parseTime i (MaxVersion opts) (stream_view ustr st (snapshotStreamID i)) of
       None \<Rightarrow> Inl (Sentinel ErrSnapshotNotFound) | Some snap \<Rightarrow> Inr snap)"
proof (cases "stream_view ustr st (snapshotStreamID i)")
  case None
  then show ?thesis
    by (simp add: Stream_ReadSnapshot_def memory_snapshot_stream_def ReadStream_view newest_snapshot_def)
next
  case (Some v)
  obtain fv es where v: "v = (fv, es)" by (cases v)
  let ?ro = "\<lparr>rs_AfterVersion = 0, rs_Count = (if MaxVersion opts \<le> 0 then 1 else 0), rs_Direction = Reverse\<rparr>"
  obtain it where it: "ReadStream ustr st (snapshotStreamID i) ?ro = Inr it" "yields Next it (read_view v ?ro)"
    using memory.read_found [OF assms Some, of ?ro] by (auto simp: max_int64_def)
  have "read_view v ?ro = (if MaxVersion opts \<le> 0 then take 1 (rev es) else rev es)"
    by (simp add: read_view_def limited_def v)
  then show ?thesis
    using it(1) read_snapshot_loop_yields [OF it(2)]
    by (simp add: Stream_ReadSnapshot_def memory_snapshot_stream_def newest_snapshot_def Some v)
qed

text \<open>The metadata of a snapshot event is ASCII where the text of its instant is.\<close>

lemma snapshot_metadata_wire:
  assumes "is_utf8 (fmtTime (sn_Timestamp snap))"
  shows "map_option utf8_dict (we_Metadata (snapshot_event fmtTime snap)) = we_Metadata (snapshot_event fmtTime snap)"
proof -
  have "is_utf8 SnapshotVersionMetadataKey" "is_utf8 SnapshotTimestampMetadataKey"
    by (rule ascii_is_utf8, simp add: SnapshotVersionMetadataKey_def SnapshotTimestampMetadataKey_def byte_in_def)+
  then show ?thesis
    using assms itoa_utf8 by (auto simp: snapshot_event_def Let_def intro!: utf8_dict_id split: if_splits)
qed

lemma snapshot_of_event_written:
  assumes "in64 (AggregateVersion snap)" "parseTime (fmtTime (sn_Timestamp snap)) = Some (sn_Timestamp snap)"
    "ev_Metadata e = we_Metadata (snapshot_event fmtTime snap)" "ev_Data e = sn_Data snap"
    "maxVersion \<le> 0 \<or> AggregateVersion snap \<le> maxVersion"
  shows "snapshot_of_event parseTime (AggregateID snap) maxVersion e =
    Some (snap\<lparr>sn_Timestamp := if isZero (sn_Timestamp snap) then ev_Timestamp e else sn_Timestamp snap,
      sn_DataContentType := ev_DataContentType e\<rparr>)"
proof -
  have "SnapshotVersionMetadataKey \<noteq> SnapshotTimestampMetadataKey"
    by (simp add: SnapshotVersionMetadataKey_def SnapshotTimestampMetadataKey_def)
  then show ?thesis
    using assms by (auto simp: snapshot_of_event_def snapshot_event_def metadata_get_def ParseInt_itoa Let_def)
qed

text \<open>
  C40. Snapshots kept as events round-trip. After a successful write on any reachable store, with or
  without pruning, a read with no version bound, or with a bound at or above the snapshot's version,
  returns the snapshot written: its version and payload, its content type as JSON carries it
  (unchanged where it is UTF-8), and its timestamp when it has one, given that an instant's text is
  UTF-8 and parses back to the instant. Pruning to the newest \<open>n\<close> never removes it.
\<close>

theorem Stream_snapshot_roundtrip:
  assumes "store_steps ustr NewEventStore st" "globalCounter st + 1 < max_int64"
    and "s = memory_snapshot_stream ustr fresh now prune n" "1 \<le> n" "n \<le> max_int64"
    and "in64 (AggregateVersion snap)" "parseTime (fmtTime (sn_Timestamp snap)) = Some (sn_Timestamp snap)"
    and "is_utf8 (fmtTime (sn_Timestamp snap))"
    and "Stream_WriteSnapshot fmtTime s st snap = (None, st')"
    and "MaxVersion opts \<le> 0 \<or> AggregateVersion snap \<le> MaxVersion opts"
  shows "\<exists>t. Stream_ReadSnapshot parseTime s st' (AggregateID snap) opts
      = Some (Inr (snap\<lparr>sn_Timestamp := t, sn_DataContentType := to_utf8 (sn_DataContentType snap)\<rparr>))
    \<and> (sn_Timestamp snap = 0 \<or> t = sn_Timestamp snap)"
proof -
  note valid = reachable_valid [OF assms(1)]
  let ?sid = "snapshotStreamID (AggregateID snap)"
  let ?ao = "\<lparr>ExpectVersion = None, StreamMustNotExist = False\<rparr>"
  let ?ws = "[snapshot_event fmtTime snap]"
  obtain es st1 where app: "AppendStream ustr fresh now st ?sid ?ws ?ao = (Inr es, st1)"
    using assms(3,9) by (auto simp: Stream_WriteSnapshot_def memory_snapshot_stream_def Let_def split: sum.splits prod.splits)
  have room: "globalCounter st + int (length ?ws) < max_int64" using assms(2) by simp
  have valid1: "store_valid ustr st1"
    using memory.append_valid [OF valid room, of fresh now ?sid ?ao] app by simp
  have w: "written_for ?sid (view_tip (stream_view ustr st ?sid)) ?ws es"
    "stream_view ustr st1 ?sid = extend_view (stream_view ustr st ?sid) es"
    using memory.append_written [OF valid room, of fresh now ?sid ?ao es] app by auto
  obtain e where e: "es = [e]" "ev_Metadata e = we_Metadata (snapshot_event fmtTime snap)"
    "ev_Data e = sn_Data snap" "ev_DataContentType e = to_utf8 (sn_DataContentType snap)"
    using w(1) snapshot_metadata_wire [where fmtTime = fmtTime, OF assms(8)]
    by (auto simp: written_for_def list_all2_Cons1 snapshot_event_def Let_def)
  obtain fv pre where v1: "stream_view ustr st1 ?sid = Some (fv, pre @ [e])"
    using w(2) e(1) by (auto simp: extend_view_def split: option.splits)
  have ver: "ev_StreamVersion e = fv + int (length pre)" "1 \<le> fv" "fv + int (length pre) < max_int64"
    using stream_view_ok [OF valid1 v1] by (auto simp: view_ok_def)
  have "store_valid ustr st' \<and> (\<exists>fv' pre'. stream_view ustr st' ?sid = Some (fv', pre' @ [e]))"
  proof (cases "prune \<and> 0 < ev_StreamVersion e - n")
    case False
    then have "st' = st1"
      using assms(3-5,9) app e(1) ver
      by (auto simp: Stream_WriteSnapshot_def memory_snapshot_stream_def Let_def in64_def min_int64_def max_int64_def
          split: if_splits)
    then show ?thesis using valid1 v1 by auto
  next
    case True
    let ?to = "ev_StreamVersion e - n"
    have "wrap64 ?to = ?to"
      using True assms(4) ver by (intro wrap64_id in64_nonneg) auto
    then obtain r where del: "DeleteStream ustr st1 ?sid \<lparr>ToVersion = ?to\<rparr> = (r, st')"
      using assms(3,9) app e(1) True
      by (cases "DeleteStream ustr st1 ?sid \<lparr>ToVersion = ?to\<rparr>")
        (auto simp: Stream_WriteSnapshot_def memory_snapshot_stream_def Let_def)
    have keep: "?to < ev_StreamVersion e" using assms(4) by simp
    have "stream_view ustr st' ?sid = delete_view (Some (fv, pre @ [e])) ?to \<and> store_valid ustr st'"
      using DeleteStream_succeeds [OF store_validD [OF valid1] del v1 [symmetric]] True
        store_validD(2) [OF valid1] v1 by (auto simp: store_valid_def)
    then show ?thesis using True keep by (auto simp: delete_view_def)
  qed
  then obtain fv' pre' where st': "store_valid ustr st'" "stream_view ustr st' ?sid = Some (fv', pre' @ [e])"
    by blast
  have "newest_snapshot parseTime (AggregateID snap) (MaxVersion opts) (stream_view ustr st' ?sid)
      = snapshot_of_event parseTime (AggregateID snap) (MaxVersion opts) e"
    using snapshot_of_event_written [where parseTime = parseTime and fmtTime = fmtTime and
        maxVersion = "MaxVersion opts", OF assms(6,7) e(2,3) assms(10)]
    by (simp add: newest_snapshot_def st'(2) first_some_def map_filter_simps)
  then show ?thesis
    using Stream_ReadSnapshot_view [OF st'(1), of parseTime fresh now prune n "AggregateID snap" opts]
      snapshot_of_event_written [where parseTime = parseTime and fmtTime = fmtTime and
        maxVersion = "MaxVersion opts", OF assms(6,7) e(2,3) assms(10)] assms(3) e(4)
    by auto
qed

lemma Stream_snapshot_roundtrip_witness:
  "let s = memory_snapshot_stream (\<lambda>_. '''') (\<lambda>_. 7) (\<lambda>_. 0) True 2;
       snap = \<lparr>AggregateID = New_id ''a'' 1, AggregateVersion = 4, sn_Timestamp = 5,
               sn_Data = [9], sn_DataContentType = ''x''\<rparr>
   in \<exists>st'. Stream_WriteSnapshot itoa s NewEventStore snap = (None, st')
      \<and> Stream_ReadSnapshot ParseInt s st' (New_id ''a'' 1) \<lparr>MaxVersion = 0\<rparr> = Some (Inr snap)"
proof -
  let ?s = "memory_snapshot_stream (\<lambda>_. '''') (\<lambda>_. 7) (\<lambda>_. 0) True 2"
  let ?snap = "\<lparr>AggregateID = New_id ''a'' 1, AggregateVersion = 4, sn_Timestamp = 5,
               sn_Data = [9], sn_DataContentType = ''x''\<rparr>"
  have "fst (Stream_WriteSnapshot itoa ?s NewEventStore ?snap) = None"
    by (simp add: Stream_WriteSnapshot_def memory_snapshot_stream_def AppendStream_def
        NewEventStore_def Let_def json_marshal_def json_year_ok_def New_id_def snapshotStreamID_def
        snapshot_event_def)
  then obtain st' where w: "Stream_WriteSnapshot itoa ?s NewEventStore ?snap = (None, st')"
    by (metis prod.collapse)
  have "in64 4" "in64 5" by (simp_all add: in64_def max_int64_def min_int64_def)
  then show ?thesis
    using Stream_snapshot_roundtrip [OF rtranclp.rtrancl_refl _ refl _ _ _ _ _ w,
        of ParseInt "\<lparr>MaxVersion = 0\<rparr>"] w
    by (auto simp: NewEventStore_def max_int64_def ParseInt_itoa itoa_utf8 byte_in_def)
qed

text \<open>
  A read without a version bound looks at one event only, the newest of the snapshot stream. If
  that event is not a readable snapshot (no version metadata, or an unparseable version) the read
  reports that there is no snapshot, whatever readable snapshots precede it, while a bounded read
  skips the event and finds them.
\<close>

theorem Stream_ReadSnapshot_hidden:
  assumes "store_steps ustr NewEventStore st"
    and "s = memory_snapshot_stream ustr fresh now prune n"
    and "stream_view ustr st (snapshotStreamID i) = Some (fv, older @ [good, bad])"
    and "snapshot_of_event parseTime i 0 bad = None"
    and "snapshot_of_event parseTime i 0 good = Some snap" "0 < AggregateVersion snap"
  shows "Stream_ReadSnapshot parseTime s st i \<lparr>MaxVersion = 0\<rparr> = Some (Inl (Sentinel ErrSnapshotNotFound))
    \<and> Stream_ReadSnapshot parseTime s st i \<lparr>MaxVersion = AggregateVersion snap\<rparr> = Some (Inr snap)"
proof -
  have bad: "snapshot_of_event parseTime i m bad = None" for m
    using assms(4) by (auto simp: snapshot_of_event_def split: option.splits)
  have good: "snapshot_of_event parseTime i (AggregateVersion snap) good = Some snap"
    using assms(5) by (auto simp: snapshot_of_event_def split: option.splits)
  show ?thesis
    using Stream_ReadSnapshot_view [OF reachable_valid [OF assms(1)]] assms(2,3,6) bad good
    by (simp add: newest_snapshot_def first_some_def map_filter_simps)
qed

lemma Stream_ReadSnapshot_hidden_witness:
  "let s = memory_snapshot_stream (\<lambda>_. '''') (\<lambda>_. 7) (\<lambda>_. 0) False 0
   in \<exists>st snap. Stream_ReadSnapshot ParseInt s st (New_id ''a'' 1) \<lparr>MaxVersion = 0\<rparr>
        = Some (Inl (Sentinel ErrSnapshotNotFound))
      \<and> Stream_ReadSnapshot ParseInt s st (New_id ''a'' 1) \<lparr>MaxVersion = 4\<rparr> = Some (Inr snap)"
proof -
  let ?sid = "snapshotStreamID (New_id ''a'' 1)"
  let ?snap = "\<lparr>AggregateID = New_id ''a'' 1, AggregateVersion = 4, sn_Timestamp = 5,
               sn_Data = [9], sn_DataContentType = ''x''\<rparr>"
  let ?ws = "[snapshot_event itoa ?snap, \<lparr>we_Type = ''other'', we_Data = [], we_DataContentType = '''', we_Metadata = None\<rparr>]"
  let ?ao = "\<lparr>ExpectVersion = None, StreamMustNotExist = False\<rparr>"
  obtain r st where run: "AppendStream (\<lambda>_. '''') (\<lambda>_. 7) (\<lambda>_. 0) NewEventStore ?sid ?ws ?ao = (r, st)"
    by fastforce
  have room: "globalCounter NewEventStore + int (length ?ws) < max_int64"
    by (simp add: NewEventStore_def max_int64_def)
  have steps: "store_steps (\<lambda>_. '''') NewEventStore st"
    using store_step.append [OF room run] by blast
  have none: "stream_view (\<lambda>_. '''') NewEventStore ?sid = None"
    by (simp add: stream_view_def NewEventStore_def never_written_def)
  have ref: "append_refusal ?sid (view_tip (stream_view (\<lambda>_. '''') NewEventStore ?sid)) ?ao = None"
    by (simp add: append_refusal_def)
  obtain es where "r = Inr es"
    using memory.append_failed [OF store_valid_New room ref, where fresh = "\<lambda>_. 7" and now = "\<lambda>_. 0"] run
    by (cases r) (auto simp: json_year_ok_def)
  then have es: "written_for ?sid 0 ?ws es" "stream_view (\<lambda>_. '''') st ?sid = extend_view None es"
    using memory.append_written [OF store_valid_New room, where ustr = "\<lambda>_. []" and fresh = "\<lambda>_. 7"
        and now = "\<lambda>_. 0" and i = ?sid and aopts = ?ao and es = es] run none
    by (auto simp: view_tip_def)
  then obtain good bad where e: "es = [good, bad]" "ev_Metadata bad = None"
    "ev_Metadata good = we_Metadata (snapshot_event itoa ?snap)" "ev_Data good = sn_Data ?snap"
    "ev_DataContentType good = sn_DataContentType ?snap"
    using snapshot_metadata_wire [of itoa ?snap, OF itoa_utf8]
    by (auto simp: byte_in_def written_for_def list_all2_Cons1 snapshot_event_def Let_def)
  have "in64 4" "in64 5" by (simp_all add: in64_def max_int64_def min_int64_def)
  then have good: "snapshot_of_event ParseInt (New_id ''a'' 1) 0 good = Some ?snap"
    using snapshot_of_event_written [of ?snap ParseInt itoa good 0] e(3-5) by (simp add: ParseInt_itoa)
  have bad: "snapshot_of_event ParseInt (New_id ''a'' 1) 0 bad = None"
    using e(2) by (simp add: snapshot_of_event_def metadata_get_def)
  have "stream_view (\<lambda>_. '''') st ?sid = Some (1, [] @ [good, bad])"
    using es(2) e(1) by (simp add: extend_view_def)
  from Stream_ReadSnapshot_hidden [OF steps refl this bad good]
  show ?thesis by (simp add: Let_def) blast
qed

end
