(* ===== verification/StoreDecorators.thy ===== *)
theory StoreDecorators
  imports AggregateProps SnapshotStore
begin

text \<open>
  The stores that wrap another aggregate store: \<open>SnapshottingStore\<close>
  (\<open>aggregatestore/snapshotting_store.go\<close>) and \<open>CachedStore\<close> (\<open>aggregatestore/cached_store.go\<close>).
  The state \<open>'db\<close> is that of everything behind the wrapped store, the snapshot store and the cache.
\<close>

section \<open>The snapshotting store\<close>

record 's state_codec =
  MarshalState :: "'s \<Rightarrow> bytes result"
  UnmarshalState :: "bytes \<Rightarrow> 's \<Rightarrow> 's result"
  sc_ContentType :: string

text \<open>
  What a state type offers as \<open>SnapshotStateValidator\<close>: nothing, a method on the value, one on its
  address (which may change what it is given), or, for an interface state type, one on the address
  of a copy of the dynamic value.
\<close>

datatype 's snapshot_validator =
    No_validator
  | On_value "'s \<Rightarrow> go_error option"
  | On_address "'s \<Rightarrow> go_error option \<times> 's"
  | On_dynamic "'s \<Rightarrow> go_error option \<times> 's"

record ('e, 's, 'db) snapshotting_store =
  inner :: "('e, 's, 'db) store_ops"
  snap_reader :: "('db \<Rightarrow> typeid \<Rightarrow> read_snapshot_options \<Rightarrow> aggregate_snapshot result option) option"
  snap_writer :: "'db \<Rightarrow> aggregate_snapshot \<Rightarrow> go_error option \<times> 'db"
  snap_policy :: "typeid \<Rightarrow> int64 \<Rightarrow> time \<Rightarrow> bool"
  stateCodec :: "'s state_codec"
  state_validator :: "'s snapshot_validator"
  nilState :: "'s \<Rightarrow> bool"

text \<open>\<open>validateSnapshotState\<close>, which writes the vouched-for value back through its pointer.\<close>

fun validateSnapshotState :: "'s snapshot_validator \<Rightarrow> 's \<Rightarrow> go_error option \<times> 's" where
  "validateSnapshotState No_validator state = (None, state)"
| "validateSnapshotState (On_value f) state = (f state, state)"
| "validateSnapshotState (On_address f) state = f state"
| "validateSnapshotState (On_dynamic f) state = (case f state of
     (Some err, _) \<Rightarrow> (Some err, state)
   | (None, accepted) \<Rightarrow> (None, accepted))"

definition NewSnapshottingStore ::
  "('e, 's, 'db) store_ops option
   \<Rightarrow> (('db \<Rightarrow> typeid \<Rightarrow> read_snapshot_options \<Rightarrow> aggregate_snapshot result option)
       \<times> ('db \<Rightarrow> aggregate_snapshot \<Rightarrow> go_error option \<times> 'db)) option
   \<Rightarrow> (typeid \<Rightarrow> int64 \<Rightarrow> time \<Rightarrow> bool) option
   \<Rightarrow> 's state_codec \<Rightarrow> 's snapshot_validator \<Rightarrow> ('s \<Rightarrow> bool)
   \<Rightarrow> ('e, 's, 'db) snapshotting_store result" where
  "NewSnapshottingStore inn store pol codec validator isNil =
     (case inn of
        None \<Rightarrow> Inl (Wrap (InitializeError '''') (Text ''inner store is required''))
      | Some inn' \<Rightarrow> (case store of
        None \<Rightarrow> Inl (Wrap (InitializeError '''') (Text ''snapshot store is required''))
      | Some (rd, wr) \<Rightarrow> (case pol of
        None \<Rightarrow> Inl (Wrap (InitializeError '''') (Text ''snapshot policy is required''))
      | Some pol' \<Rightarrow> Inr \<lparr>inner = inn', snap_reader = Some rd, snap_writer = wr, snap_policy = pol',
            stateCodec = codec, state_validator = validator, nilState = isNil\<rparr>)))"

definition Snap_Hydrate ::
  "('e, 's, 'db) snapshotting_store \<Rightarrow> 'db \<Rightarrow> ('e, 's) aggregate option \<Rightarrow> hydrate_options option
   \<Rightarrow> (go_error option \<times> ('e, 's) aggregate option) option" where
  "Snap_Hydrate s db agg opts =
     (let o' = (case opts of None \<Rightarrow> \<lparr>ho_ToVersion = 0\<rparr> | Some o' \<Rightarrow> o') in
      case agg of
        None \<Rightarrow> Some (Some (Wrap (HydrateError zero_id '''') (Sentinel ErrNilAggregate)), None)
      | Some a \<Rightarrow>
          if ho_ToVersion o' < 0
          then Some (Some (Wrap (HydrateError (agg_id a) '''') (Text ''invalid target version'')), Some a)
          else case snap_reader s of
            None \<Rightarrow> Some (Some (Wrap (HydrateError (agg_id a) '''')
                       (Text ''snapshot store has no snapshot reader'')), Some a)
          | Some readSnapshot \<Rightarrow>
              let fallback = Hydrate (inner s) db (Some a) (Some o') in
              if 0 < ho_ToVersion o' \<and> ho_ToVersion o' \<le> agg_version a then fallback
              else case readSnapshot db (agg_id a) \<lparr>MaxVersion = ho_ToVersion o'\<rparr> of
                None \<Rightarrow> None
              | Some (Inl err) \<Rightarrow> fallback
              | Some (Inr snap) \<Rightarrow>
                  if sn_DataContentType snap \<noteq> '''' \<and> sn_DataContentType snap \<noteq> sc_ContentType (stateCodec s)
                  then fallback
                  else case UnmarshalState (stateCodec s) (sn_Data snap)
                              (agg_state (New (inner s) (id_uuid (agg_id a)))) of
                    Inl err \<Rightarrow> fallback
                  | Inr state \<Rightarrow>
                      if nilState s state then fallback
                      else case validateSnapshotState (state_validator s) state of
                        (Some err, _) \<Rightarrow> fallback
                      | (None, state') \<Rightarrow>
                          if nilState s state' then fallback
                          else
                            let a' = setStateAtVersion state' (AggregateVersion snap) a
                            in if 0 < ho_ToVersion o' \<and> AggregateVersion snap = ho_ToVersion o'
                               then Some (None, Some a')
                               else Hydrate (inner s) db (Some a') (Some o'))"

definition Snap_Load ::
  "('e, 's, 'db) snapshotting_store \<Rightarrow> 'db \<Rightarrow> uuid \<Rightarrow> load_options option
   \<Rightarrow> (('e, 's) aggregate result \<times> 'db) option" where
  "Snap_Load s db i opts =
     (let a = New (inner s) i in
      case Snap_Hydrate s db (Some a) (map_option (\<lambda>o'. \<lparr>ho_ToVersion = lo_ToVersion o'\<rparr>) opts) of
        None \<Rightarrow> None
      | Some (Some err, _) \<Rightarrow> Some (Inl (Wrap (LoadError (agg_id a) ''hydrating aggregate'') err), db)
      | Some (None, None) \<Rightarrow> None
      | Some (None, Some a') \<Rightarrow> Some (Inr a', db))"

text \<open>The loop that applies the queue and takes snapshots at exact versions.\<close>

function snapshot_loop ::
  "('e, 's) domain \<Rightarrow> ('e, 's, 'db) snapshotting_store \<Rightarrow> time \<Rightarrow> 'db \<Rightarrow> ('e, 's) aggregate
   \<Rightarrow> go_error option \<times> ('e, 's) aggregate \<times> 'db" where
  "snapshot_loop d s now db a = (case applyNext d a of
     (Some err, a') \<Rightarrow>
       if errors_is err ErrNoUnappliedEvents then (None, a', db)
       else (Some (Wrap (SaveError (agg_id a') ''applying next aggregate event'')
               (withSaveOutcome ErrEventsAppended
                 (fmt_wrap ''events appended but not applied to the aggregate'' err))), a', db)
   | (None, a') \<Rightarrow>
       if \<not> snap_policy s (agg_id a') (agg_version a') now then snapshot_loop d s now db a'
       else case MarshalState (stateCodec s) (agg_state a') of
         Inl err \<Rightarrow> snapshot_loop d s now db a'
       | Inr data \<Rightarrow> snapshot_loop d s now
           (snd (snap_writer s db \<lparr>AggregateID = agg_id a', AggregateVersion = agg_version a',
              sn_Timestamp = 0, sn_Data = data, sn_DataContentType = sc_ContentType (stateCodec s)\<rparr>)) a')"
  by pat_completeness auto
termination
  by (relation "measure (\<lambda>(d, s, now, db, a). length (unappliedEvents a))")
    (auto dest: sym applyNext_shorter)

declare snapshot_loop.simps [simp del]

definition Snap_Save ::
  "('e, 's) domain \<Rightarrow> ('e, 's, 'db) snapshotting_store \<Rightarrow> time \<Rightarrow> 'db \<Rightarrow> ('e, 's) aggregate option
   \<Rightarrow> save_options option \<Rightarrow> go_error option \<times> ('e, 's) aggregate option \<times> 'db" where
  "Snap_Save d s now db agg opts =
     (case agg of
        None \<Rightarrow> (Some (Wrap (SaveError zero_id '''')
                   (withSaveOutcome ErrNoEventsAppended (Sentinel ErrNilAggregate))), None, db)
      | Some a \<Rightarrow>
          let innerOpts = (case opts of None \<Rightarrow> \<lparr>SkipApply = False\<rparr> | Some o' \<Rightarrow> o')\<lparr>SkipApply := True\<rparr>
          in case Save (inner s) db (Some a) (Some innerOpts) of
               (Some err, a', db') \<Rightarrow>
                 (Some (Wrap (SaveError (agg_id a) ''saving aggregate using inner store'') err), a', db')
             | (None, None, db') \<Rightarrow> (None, None, db')
             | (None, Some a', db') \<Rightarrow>
                 (case snapshot_loop d s now db' a' of (r, a'', db'') \<Rightarrow> (r, Some a'', db'')))"

section \<open>The cached store\<close>

record 's cached_aggregate =
  ca_State :: 's
  ca_Version :: int64

record ('e, 's, 'db) cached_store =
  c_inner :: "('e, 's, 'db) store_ops"
  GetAggregate :: "'db \<Rightarrow> typeid \<Rightarrow> 's cached_aggregate option result"
  PutAggregate :: "'db \<Rightarrow> typeid \<Rightarrow> 's cached_aggregate \<Rightarrow> go_error option \<times> 'db"

definition put_current :: "('e, 's, 'db) cached_store \<Rightarrow> 'db \<Rightarrow> ('e, 's) aggregate \<Rightarrow> 'db" where
  "put_current s db a =
     snd (PutAggregate s db (agg_id a) \<lparr>ca_State = agg_state a, ca_Version = agg_version a\<rparr>)"

definition Cached_Load ::
  "('e, 's, 'db) cached_store \<Rightarrow> 'db \<Rightarrow> uuid \<Rightarrow> load_options option
   \<Rightarrow> (('e, 's) aggregate result \<times> 'db) option" where
  "Cached_Load s db i opts =
     (if (case opts of None \<Rightarrow> False | Some o' \<Rightarrow> 0 < lo_ToVersion o') then
        (case Load (c_inner s) db i opts of
           None \<Rightarrow> None
         | Some (Inl err, db') \<Rightarrow>
             Some (Inl (Wrap (LoadError zero_id ''loading from inner aggregate store'') err), db')
         | Some (Inr a, db') \<Rightarrow> Some (Inr a, db'))
      else
        let aggregateID = New_id (AggregateType (c_inner s)) i;
            load = (case Load (c_inner s) db i opts of
                 None \<Rightarrow> None
               | Some (Inl err, db') \<Rightarrow>
                   Some (Inl (Wrap (LoadError zero_id ''loading from inner aggregate store'') err), db')
               | Some (Inr a, db') \<Rightarrow> Some (Inr a, put_current s db' a))
        in case GetAggregate s db aggregateID of
             Inr (Some entry) \<Rightarrow> Some (Inr (newAggregate aggregateID (ca_State entry) (ca_Version entry)), db)
           | Inr None \<Rightarrow> load
           | Inl err \<Rightarrow> load)"

definition Cached_Hydrate ::
  "('e, 's, 'db) cached_store \<Rightarrow> 'db \<Rightarrow> ('e, 's) aggregate option \<Rightarrow> hydrate_options option
   \<Rightarrow> (go_error option \<times> ('e, 's) aggregate option) option" where
  "Cached_Hydrate s db agg opts = Hydrate (c_inner s) db agg opts"

definition Cached_Save ::
  "('e, 's, 'db) cached_store \<Rightarrow> 'db \<Rightarrow> ('e, 's) aggregate option \<Rightarrow> save_options option
   \<Rightarrow> go_error option \<times> ('e, 's) aggregate option \<times> 'db" where
  "Cached_Save s db agg opts =
     (case agg of
        None \<Rightarrow> (Some (Wrap (SaveError zero_id '''') (Sentinel ErrNilAggregate)), None, db)
      | Some a \<Rightarrow>
          (case Save (c_inner s) db (Some a) opts of
             (Some err, a', db') \<Rightarrow>
               (Some (Wrap (SaveError (agg_id a) ''saving to inner aggregate store'') err), a', db')
           | (None, None, db') \<Rightarrow> (None, None, db')
           | (None, Some a', db') \<Rightarrow>
               if unappliedEvents a' \<noteq> [] then (None, Some a', db')
               else (None, Some a', put_current s db' a')))"

end
