(* ===== verification/DecoratorProps.thy ===== *)
theory DecoratorProps
  imports StoreDecorators AggregateClaims
begin

text \<open>
  The decorating stores add no behaviour of their own to what is loaded: a snapshotting store over
  genuine snapshots loads exactly what full hydration loads and writes only genuine snapshots, and
  the decorators pass on the outcome of a save.
\<close>

section \<open>Installing a snapshot\<close>

text \<open>The state a snapshot installs, if it survives every check.\<close>

definition install ::
  "('e, 's, 'db) snapshotting_store \<Rightarrow> 's \<Rightarrow> aggregate_snapshot \<Rightarrow> 's option" where
  "install sn fresh snap =
     (if sn_DataContentType snap \<noteq> '''' \<and> sn_DataContentType snap \<noteq> sc_ContentType (stateCodec sn) then None
      else case UnmarshalState (stateCodec sn) (sn_Data snap) fresh of
        Inl _ \<Rightarrow> None
      | Inr state \<Rightarrow> if nilState sn state then None
          else case validateSnapshotState (state_validator sn) state of
            (Some _, _) \<Rightarrow> None
          | (None, state') \<Rightarrow> if nilState sn state' then None else Some state')"

lemma Snap_Hydrate_install:
  assumes "snap_reader sn = Some readSnap" "0 \<le> to"
    "fresh = agg_state (New (inner sn) (id_uuid (agg_id a)))"
  shows "Snap_Hydrate sn db (Some a) (Some \<lparr>ho_ToVersion = to\<rparr>) =
    (let fallback = Hydrate (inner sn) db (Some a) (Some \<lparr>ho_ToVersion = to\<rparr>) in
     if 0 < to \<and> to \<le> agg_version a then fallback
     else case readSnap db (agg_id a) \<lparr>MaxVersion = to\<rparr> of
       None \<Rightarrow> None
     | Some (Inl err) \<Rightarrow> fallback
     | Some (Inr snap) \<Rightarrow> (case install sn fresh snap of
         None \<Rightarrow> fallback
       | Some state \<Rightarrow> (let a' = setStateAtVersion state (AggregateVersion snap) a in
           if 0 < to \<and> AggregateVersion snap = to then Some (None, Some a')
           else Hydrate (inner sn) db (Some a') (Some \<lparr>ho_ToVersion = to\<rparr>))))"
proof (cases "readSnap db (agg_id a) \<lparr>MaxVersion = to\<rparr>")
  case None
  then show ?thesis using assms(1,2) by (cases "to = 0"; simp add: Snap_Hydrate_def Let_def)
next
  case (Some r)
  show ?thesis
  proof (cases r)
    case (Inl e)
    then show ?thesis using assms(1,2) Some by (cases "to = 0"; simp add: Snap_Hydrate_def Let_def)
  next
    case (Inr snap)
    show ?thesis
    proof (cases "UnmarshalState (stateCodec sn) (sn_Data snap) fresh")
      case (Inl e)
      then show ?thesis using assms Some Inr by (cases "to = 0"; simp add: Snap_Hydrate_def install_def Let_def)
    next
      case st: (Inr st)
      obtain e st' where val: "validateSnapshotState (state_validator sn) st = (e, st')" by fastforce
      show ?thesis
        using assms Some Inr st val
        by (cases e; cases "to = 0"; simp add: Snap_Hydrate_def install_def Let_def)
    qed
  qed
qed

text \<open>
  A snapshot is genuine for a history when what it installs, if anything, is the fold of the
  history up to the snapshot's version.
\<close>

definition genuine ::
  "('e, 's) domain \<Rightarrow> ('e, 's, 'db, 'i) es_store \<Rightarrow> ('e, 's, 'db) snapshotting_store
   \<Rightarrow> event list \<Rightarrow> uuid \<Rightarrow> aggregate_snapshot \<Rightarrow> bool" where
  "genuine d s sn H i snap \<longleftrightarrow> 0 \<le> AggregateVersion snap \<and> AggregateVersion snap \<le> int (length H)
     \<and> (\<forall>st. install sn (newState s i) snap = Some st
          \<longrightarrow> st = fold_state d s (take (nat (AggregateVersion snap)) H) (newState s i))"

lemma genuine_extend:
  "genuine d s sn H i snap \<Longrightarrow> genuine d s sn (H @ es) i snap"
proof -
  assume g: "genuine d s sn H i snap"
  then have "nat (AggregateVersion snap) \<le> length H" by (simp add: genuine_def nat_le_iff)
  then show ?thesis using g by (auto simp: genuine_def)
qed

locale snapshotting =
  es_aggregates readStream nxt appendStream view valid room healthy d s
  for readStream :: "'db \<Rightarrow> typeid \<Rightarrow> read_stream_options \<Rightarrow> 'i result" and nxt appendStream view
    and valid :: "'db \<Rightarrow> bool" and room healthy and d :: "('e, 'st) domain"
    and s :: "('e, 'st, 'db, 'i) es_store" +
  fixes sn :: "('e, 'st, 'db) snapshotting_store"
    and readSnap :: "'db \<Rightarrow> typeid \<Rightarrow> read_snapshot_options \<Rightarrow> aggregate_snapshot result"
  assumes inner_es: "inner sn = ES_ops d s"
    and snap_reads: "snap_reader sn = Some (\<lambda>db i opts. Some (readSnap db i opts))"
    and snap_bounded: "readSnap db i opts = Inr snap \<Longrightarrow> 0 < MaxVersion opts \<Longrightarrow>
      AggregateVersion snap \<le> MaxVersion opts"
begin

lemma fresh_state: "agg_state (New (inner sn) i) = newState s i"
  by (simp add: inner_es ES_ops_def ES_New_def newAggregate_def)

text \<open>
  Hydrating through genuine snapshots reaches the target version of the history. The prefix the
  event store has truncated may be covered by the aggregate's own version or by the snapshot.
\<close>

lemma Snap_Hydrate_history:
  assumes "valid db" and v: "view db (agg_id a) = Some (fv, es)" "shows_history (Some (fv, es)) H"
    and a: "at_version d s H k a" and to: "0 \<le> to" "to = 0 \<or> k \<le> to" "to \<le> max_int64"
    and dec: "\<forall>ev \<in> set H. decoded s ev \<noteq> None"
    and snaps: "\<And>snap. readSnap db (agg_id a) \<lparr>MaxVersion = to\<rparr> = Inr snap \<Longrightarrow>
      genuine d s sn H (id_uuid (agg_id a)) snap \<and> fv - 1 \<le> AggregateVersion snap"
    and cover: "fv - 1 \<le> k \<or> (k < to \<or> to = 0) \<and> (\<exists>snap st. readSnap db (agg_id a) \<lparr>MaxVersion = to\<rparr> = Inr snap
      \<and> install sn (newState s (id_uuid (agg_id a))) snap = Some st)"
  shows "\<exists>a'. Snap_Hydrate sn db (Some a) (Some \<lparr>ho_ToVersion = to\<rparr>) = Some (None, Some a')
    \<and> at_version d s H (target_version to H) a' \<and> agg_id a' = agg_id a
    \<and> unsavedEvents a' = unsavedEvents a"
proof -
  let ?i = "id_uuid (agg_id a)" and ?o = "\<lparr>ho_ToVersion = to\<rparr>"
  note unf = Snap_Hydrate_install [OF snap_reads to(1) refl, where a = a and db = db, unfolded fresh_state]
  have es: "Hydrate (inner sn) db = ES_Hydrate d s db" by (simp add: inner_es ES_ops_def)
  have k: "agg_version a = k" using a by (simp add: at_version_def)
  show ?thesis
  proof (cases "(0 < to \<and> to \<le> k) \<or> (\<forall>snap. readSnap db (agg_id a) \<lparr>MaxVersion = to\<rparr> = Inr snap
      \<longrightarrow> install sn (newState s ?i) snap = None)")
    case True
    then have "fv - 1 \<le> k" using cover by auto
    then have "\<exists>a'. ES_Hydrate d s db (Some a) (Some ?o) = Some (None, Some a')
      \<and> at_version d s H (target_version to H) a' \<and> agg_id a' = agg_id a \<and> unsavedEvents a' = unsavedEvents a"
      by (rule Hydrate_history [OF assms(1) v a _ to dec])
    moreover have "Snap_Hydrate sn db (Some a) (Some ?o) = ES_Hydrate d s db (Some a) (Some ?o)"
      using True k unfolding unf es
      by (auto simp: Let_def split: sum.split)
    ultimately show ?thesis by simp
  next
    case False
    then obtain snap st where st: "readSnap db (agg_id a) \<lparr>MaxVersion = to\<rparr> = Inr snap"
      "install sn (newState s ?i) snap = Some st" "\<not> (0 < to \<and> to \<le> k)"
      by (metis (lifting) not_None_eq)
    let ?v = "AggregateVersion snap"
    let ?a = "setStateAtVersion st ?v a"
    note g = snaps [OF st(1)]
    have at: "at_version d s H ?v ?a"
      using g st(2) a by (auto simp: genuine_def at_version_def setStateAtVersion_def)
    have bound: "to = 0 \<or> ?v \<le> to" using snap_bounded [OF st(1)] to(1) by fastforce
    have same: "agg_id ?a = agg_id a" "unsavedEvents ?a = unsavedEvents a"
      by (simp_all add: setStateAtVersion_def)
    show ?thesis
    proof (cases "0 < to \<and> ?v = to")
      case True
      then have "target_version to H = ?v" using g by (simp add: target_version_def genuine_def)
      then show ?thesis
        using True st k at same unfolding unf es by (auto simp: Let_def)
    next
      case False
      have "\<exists>a'. ES_Hydrate d s db (Some ?a) (Some ?o) = Some (None, Some a')
        \<and> at_version d s H (target_version to H) a' \<and> agg_id a' = agg_id ?a \<and> unsavedEvents a' = unsavedEvents ?a"
        by (rule Hydrate_history [OF assms(1) _ v(2) at _ to(1) bound to(3) dec]) (use v(1) g same in auto)
      then show ?thesis
        using False st k same unfolding unf es by (auto simp: Let_def)
    qed
  qed
qed

end

section \<open>Taking snapshots\<close>

lemma snapshot_loop_runs:
  assumes "list_all2 (\<lambda>q ev. decoded s ev = Some (ae_DomainEvent q)) (unappliedEvents a) es"
    and "consecutive ae_Version (agg_version a + 1) (unappliedEvents a)"
    and "0 \<le> agg_version a" "agg_version a + int (length es) \<le> max_int64" "P db"
    and step: "\<And>db n data. P db \<Longrightarrow> n \<le> length es \<Longrightarrow>
      MarshalState (stateCodec sn) (fold_state d s (take n es) (agg_state a)) = Inr data \<Longrightarrow>
      P (snd (snap_writer sn db \<lparr>AggregateID = agg_id a, AggregateVersion = agg_version a + int n,
         sn_Timestamp = 0, sn_Data = data, sn_DataContentType = sc_ContentType (stateCodec sn)\<rparr>))"
  shows "\<exists>db'. snapshot_loop d sn now db a = (None, a\<lparr>agg_state := fold_state d s es (agg_state a),
      agg_version := agg_version a + int (length es), unappliedEvents := []\<rparr>, db') \<and> P db'"
  using assms
proof (induction es arbitrary: a db rule: list.induct)
  case Nil
  have "unappliedEvents a = []" using Nil.prems(1) by simp
  moreover then have "a\<lparr>unappliedEvents := []\<rparr> = a" by (cases a) simp
  ultimately show ?case
    using Nil.prems(5) by (subst snapshot_loop.simps) (simp add: applyNext_def fold_state_def)
next
  case (Cons ev es)
  then obtain q qs where q: "unappliedEvents a = q # qs" "decoded s ev = Some (ae_DomainEvent q)"
    "list_all2 (\<lambda>q ev. decoded s ev = Some (ae_DomainEvent q)) qs es"
    by (auto simp: list_all2_Cons2)
  have w: "wrap64 (agg_version a + 1) = agg_version a + 1"
    using Cons.prems(3,4) by (intro wrap64_id in64_nonneg) auto
  let ?a = "a\<lparr>agg_state := applyTo d (ae_DomainEvent q) (agg_state a),
     agg_version := agg_version a + 1, unappliedEvents := qs\<rparr>"
  have nx: "applyNext d a = (None, ?a)"
    using Cons.prems(2,4) q(1) w by (auto simp: applyNext_def)
  have fs: "fold_state d s (ev # xs) st = fold_state d s xs (applyTo d (ae_DomainEvent q) st)" for xs st
    by (simp add: fold_state_def q(2))
  have go: "\<exists>db'. snapshot_loop d sn now db1 ?a = (None, ?a\<lparr>agg_state := fold_state d s es (agg_state ?a),
      agg_version := agg_version ?a + int (length es), unappliedEvents := []\<rparr>, db') \<and> P db'"
    if "P db1" for db1
  proof (rule Cons.IH)
    show "P (snd (snap_writer sn db2 \<lparr>AggregateID = agg_id ?a, AggregateVersion = agg_version ?a + int n,
         sn_Timestamp = 0, sn_Data = data, sn_DataContentType = sc_ContentType (stateCodec sn)\<rparr>))"
      if "P db2" "n \<le> length es"
        "MarshalState (stateCodec sn) (fold_state d s (take n es) (agg_state ?a)) = Inr data" for db2 n data
      using Cons.prems(6) [OF that(1), of "Suc n" data] that(2,3) by (simp add: fs add_ac)
  qed (use that q Cons.prems in auto)
  have "P (snd (snap_writer sn db \<lparr>AggregateID = agg_id a, AggregateVersion = agg_version a + 1,
         sn_Timestamp = 0, sn_Data = data, sn_DataContentType = sc_ContentType (stateCodec sn)\<rparr>))"
    if "MarshalState (stateCodec sn) (agg_state ?a) = Inr data" for data
    using Cons.prems(6) [OF Cons.prems(5), of 1 data] that by (simp add: fs) (simp add: fold_state_def)
  note wr = go [OF this]
  have "snapshot_loop d sn now db a = (if \<not> snap_policy sn (agg_id a) (agg_version a + 1) now
      then snapshot_loop d sn now db ?a
      else case MarshalState (stateCodec sn) (agg_state ?a) of
         Inl err \<Rightarrow> snapshot_loop d sn now db ?a
       | Inr data \<Rightarrow> snapshot_loop d sn now
           (snd (snap_writer sn db \<lparr>AggregateID = agg_id a, AggregateVersion = agg_version a + 1,
              sn_Timestamp = 0, sn_Data = data, sn_DataContentType = sc_ContentType (stateCodec sn)\<rparr>)) ?a)"
    by (subst snapshot_loop.simps, cases "MarshalState (stateCodec sn) (agg_state ?a)")
      (simp_all add: nx)
  then have "\<exists>db1. snapshot_loop d sn now db a = snapshot_loop d sn now db1 ?a
      \<and> (\<exists>db'. snapshot_loop d sn now db1 ?a = (None, ?a\<lparr>agg_state := fold_state d s es (agg_state ?a),
      agg_version := agg_version ?a + int (length es), unappliedEvents := []\<rparr>, db') \<and> P db')"
    using go [OF Cons.prems(5)] wr
    by (cases "snap_policy sn (agg_id a) (agg_version a + 1) now";
        cases "MarshalState (stateCodec sn) (agg_state ?a)") (simp only: if_True if_False not_True_eq_False not_False_eq_True sum.case; blast)+
  then show ?case by (auto simp: fs add_ac)
qed

section \<open>Over the in-memory stores\<close>

text \<open>
  The combined state: an event store and a snapshot store. The event store's operations act on the
  first component.
\<close>

definition pair_append ::
  "(uuid \<Rightarrow> string) \<Rightarrow> (nat \<Rightarrow> uuid) \<Rightarrow> (nat \<Rightarrow> time) \<Rightarrow> event_store \<times> snapshot_store \<Rightarrow> typeid
   \<Rightarrow> writable_event list \<Rightarrow> append_stream_options \<Rightarrow> event list result \<times> event_store \<times> snapshot_store" where
  "pair_append ustr fresh now db i ws opts =
     (case AppendStream ustr fresh now (fst db) i ws opts of (r, st') \<Rightarrow> (r, st', snd db))"

definition pair_es_store ::
  "(uuid \<Rightarrow> string) \<Rightarrow> (nat \<Rightarrow> uuid) \<Rightarrow> (nat \<Rightarrow> time) \<Rightarrow> string \<Rightarrow> (uuid \<Rightarrow> 's) \<Rightarrow> 'e event_codec
   \<Rightarrow> (string \<rightharpoonup> 'e event_value) \<Rightarrow> ('e, 's, event_store \<times> snapshot_store, stream_iterator) es_store" where
  "pair_es_store ustr fresh now atype stateFactory codec protos =
     \<lparr>eventReader = Some (\<lambda>db. ReadStream ustr (fst db), Next),
      eventWriter = Some (pair_append ustr fresh now), aggregateType = atype, newState = stateFactory,
      domainEventPrototypes = protos, domainEventCodec = codec\<rparr>"

definition memory_snapshotting ::
  "('e, 's) domain \<Rightarrow> ('e, 's, event_store \<times> snapshot_store, stream_iterator) es_store
   \<Rightarrow> (typeid \<Rightarrow> int64 \<Rightarrow> time \<Rightarrow> bool) \<Rightarrow> 's state_codec \<Rightarrow> 's snapshot_validator \<Rightarrow> ('s \<Rightarrow> bool)
   \<Rightarrow> ('e, 's, event_store \<times> snapshot_store) snapshotting_store" where
  "memory_snapshotting d S pol codec validator isNil =
     \<lparr>inner = ES_ops d S,
      snap_reader = Some (\<lambda>db i opts. Some (Memory_ReadSnapshot (snd db) i opts)),
      snap_writer = (\<lambda>db snap. case Memory_WriteSnapshot (snd db) snap of (r, ss') \<Rightarrow> (r, fst db, ss')),
      snap_policy = pol, stateCodec = codec, state_validator = validator, nilState = isNil\<rparr>"

lemma pair_append_split:
  "fst (pair_append ustr fresh now db i ws opts) = fst (AppendStream ustr fresh now (fst db) i ws opts)"
  "fst (snd (pair_append ustr fresh now db i ws opts)) = snd (AppendStream ustr fresh now (fst db) i ws opts)"
  by (simp_all add: pair_append_def split: prod.split)

lemma Memory_ReadSnapshot_stored:
  assumes "Memory_ReadSnapshot ss i opts = Inr snap"
  shows "(\<exists>l. snapshots ss i = Some l \<and> snap \<in> set l) \<and>
   (0 < MaxVersion opts \<longrightarrow> AggregateVersion snap \<le> MaxVersion opts)"
proof -
  obtain l where l: "snapshots ss i = Some l" "l \<noteq> []"
    using assms by (auto simp: Memory_ReadSnapshot_def split: option.splits list.splits)
  have scan: "scan_back b l = Some snap \<Longrightarrow> snap \<in> set l \<and> AggregateVersion snap \<le> b" for b l
    by (induction l) (auto split: if_splits)
  show ?thesis
    using assms l scan [of "MaxVersion opts" "rev l"]
    unfolding Memory_ReadSnapshot_unfold [OF l]
    by (cases "0 < MaxVersion opts"; cases "scan_back (MaxVersion opts) (rev l)") auto
qed

interpretation memory_snap: snapshotting "\<lambda>db. ReadStream ustr (fst db)" Next
    "pair_append ustr fresh now" "\<lambda>db. stream_view ustr (fst db)" "\<lambda>db. store_valid ustr (fst db)"
    "\<lambda>db n. globalCounter (fst db) + int n < max_int64" "\<forall>i. json_year_ok (now i)" d
    "pair_es_store ustr fresh now atype stateFactory codec protos"
    "memory_snapshotting d (pair_es_store ustr fresh now atype stateFactory codec protos) pol scodec validator isNil"
    "\<lambda>db. Memory_ReadSnapshot (snd db)"
  for ustr fresh now d atype stateFactory codec protos pol scodec validator isNil
proof (unfold_locales, goal_cases)
  case 1 then show ?case by (rule memory.read_missing)
next
  case 2 then show ?case by (rule memory.read_found)
next
  case 3 then show ?case by (rule memory.view_valid)
next
  case 4 then show ?case unfolding pair_append_split by (rule memory.append_valid)
next
  case 5 then show ?case unfolding pair_append_split by (rule memory.append_refused)
next
  case 6 then show ?case unfolding pair_append_split by (rule memory.append_written)
next
  case 7 then show ?case unfolding pair_append_split by (rule memory.append_failed)
next
  case (12 db i opts snap)
  then show ?case using Memory_ReadSnapshot_stored by blast
qed (simp_all add: pair_es_store_def memory_snapshotting_def)

text \<open>Every snapshot the snapshot store holds for an aggregate is genuine for its history.\<close>

definition all_genuine ::
  "('e, 's) domain \<Rightarrow> ('e, 's, 'db, 'i) es_store \<Rightarrow> ('e, 's, 'db) snapshotting_store
   \<Rightarrow> event list \<Rightarrow> typeid \<Rightarrow> snapshot_store \<Rightarrow> bool" where
  "all_genuine d s sn H i ss \<longleftrightarrow> (\<forall>l. snapshots ss i = Some l \<longrightarrow>
     (\<forall>snap \<in> set l. genuine d s sn H (id_uuid i) snap))"

text \<open>
  A state codec may be trusted when what it encoded, if it installs at all, installs as it was.
\<close>

definition state_codec_ok :: "('e, 's, 'db) snapshotting_store \<Rightarrow> bool" where
  "state_codec_ok sn \<longleftrightarrow> (\<forall>st fresh snap st'. MarshalState (stateCodec sn) st = Inr (sn_Data snap)
     \<longrightarrow> install sn fresh snap = Some st' \<longrightarrow> st' = st)"

lemma all_genuine_write:
  assumes "all_genuine d s sn H i ss"
    "AggregateID snap = i \<longrightarrow> genuine d s sn H (id_uuid i) snap"
  shows "all_genuine d s sn H i (snd (Memory_WriteSnapshot ss snap))"
proof -
  have sub: "set (map snd (filter P (enumerate 0 (l @ [snap])))) \<subseteq> insert snap (set l)" for P l
    using set_retained [of P 0 "l @ [snap]"] by auto
  show ?thesis
    using assms sub
    by (auto simp: all_genuine_def Memory_WriteSnapshot_def Let_def simp del: set_map split: if_splits option.splits)
      (blast+)?
qed

lemma pair_append_snapshots: "snd (snd (pair_append ustr fresh now db i ws opts)) = snd db"
  by (simp add: pair_append_def split: prod.split)

lemma ES_Save_db:
  assumes "eventWriter s = Some w"
  shows "snd (snd (ES_Save d s db (Some a) opts)) = db
    \<or> (\<exists>i ws o'. snd (snd (ES_Save d s db (Some a) opts)) = snd (w db i ws o'))"
proof (cases "unsavedEvents a = [] \<or> agg_version a < 0 \<or> max_int64 - agg_version a < int (length (unsavedEvents a))")
  case True
  then show ?thesis by (auto simp: ES_Save_def assms)
next
  case False
  show ?thesis
  proof (cases "writable_events d (domainEventCodec s) (agg_id a) (unsavedEvents a)")
    case (Inl e)
    then show ?thesis using False by (simp add: ES_Save_def assms)
  next
    case (Inr ws)
    let ?o = "\<lparr>ExpectVersion = VersionPtr (agg_version a), StreamMustNotExist = False\<rparr>"
    obtain r db1 where app: "w db (agg_id a) ws ?o = (r, db1)" by fastforce
    have "snd (snd (ES_Save d s db (Some a) opts)) = db1"
      using False Inr app
      by (cases r) (auto simp: ES_Save_def assms Let_def split: prod.split option.split)
    then show ?thesis using app by (metis snd_conv)
  qed
qed

text \<open>The counter domain over the two in-memory stores, with a one-byte state codec.\<close>

definition counter_pair :: "(8 word, nat, event_store \<times> snapshot_store, stream_iterator) es_store" where
  "counter_pair = pair_es_store (\<lambda>_. '''') (\<lambda>_. 7) (\<lambda>_. 0) ''counter'' (\<lambda>_. 0) byte_codec
     [''added'' \<mapsto> Pointer 0]"

definition nat_codec :: "nat state_codec" where
  "nat_codec = \<lparr>MarshalState = (\<lambda>n. if n < 256 then Inr [of_nat n] else Inl (Text ''too large'')),
     UnmarshalState = (\<lambda>bs _. case bs of [b] \<Rightarrow> Inr (unat b) | _ \<Rightarrow> Inl (Text ''invalid'')),
     sc_ContentType = ''raw''\<rparr>"

definition counter_snapshotting :: "(8 word, nat, event_store \<times> snapshot_store) snapshotting_store" where
  "counter_snapshotting = memory_snapshotting counter_domain counter_pair (EventCount_ShouldSnapshot 1)
     nat_codec No_validator (\<lambda>_. False)"

lemma counter_pair_sel:
  "eventWriter counter_pair = Some (pair_append (\<lambda>_. '''') (\<lambda>_. 7) (\<lambda>_. 0))"
  "domainEventPrototypes counter_pair = domainEventPrototypes counter_store"
  "domainEventCodec counter_pair = domainEventCodec counter_store"
  "newState counter_pair = newState counter_store"
  by (simp_all add: counter_pair_def pair_es_store_def counter_store_sel)

lemma counter_pair_type: "aggregateType counter_pair = ''counter''"
  by (simp add: counter_pair_def pair_es_store_def)

lemma counter_pair_decoded: "decoded counter_pair = decoded counter_store"
  by (rule ext) (unfold decoded_def counter_pair_sel, rule refl)

lemma counter_pair_same:
  "decoded counter_pair = decoded counter_store" "fold_state d counter_pair = fold_state d counter_store"
  "codec_ok d counter_pair = codec_ok d counter_store"
  by (simp_all add: fun_eq_iff counter_pair_decoded fold_state_def codec_ok_def counter_pair_sel)

lemma counter_state_codec: "state_codec_ok counter_snapshotting"
  by (auto simp: state_codec_ok_def install_def counter_snapshotting_def memory_snapshotting_def
      nat_codec_def unat_of_nat split: if_splits sum.splits option.splits list.splits prod.splits)

lemma counter_pair_save:
  "\<exists>a' st'. ES_Save counter_domain counter_pair (NewEventStore, ss) (Some counter_new) (Some \<lparr>SkipApply = True\<rparr>)
     = (None, Some a', (st', ss))"
proof -
  obtain ev st' where app: "AppendStream (\<lambda>_. '''') (\<lambda>_. 7) (\<lambda>_. 0) NewEventStore (New_id ''counter'' 1)
      [\<lparr>we_Type = ''added'', we_Data = [5], we_DataContentType = ''raw'', we_Metadata = None\<rparr>]
      \<lparr>ExpectVersion = VersionPtr 0, StreamMustNotExist = False\<rparr> = (Inr [ev], st')"
    using counter_append by blast
  have wr: "writable_events counter_domain byte_codec (New_id ''counter'' 1) (unsavedEvents counter_new)
      = Inr [\<lparr>we_Type = ''added'', we_Data = [5], we_DataContentType = ''raw'', we_Metadata = None\<rparr>]"
    by (simp add: counter_new_facts byte_codec_def counter_domain_def reserved_key_def)
  show ?thesis
    using app wr by (auto simp: ES_Save_def counter_pair_sel counter_store_sel counter_new_facts(1,2)
        max_int64_def pair_append_def Let_def) (auto simp: counter_new_facts)
qed

lemma counter_snap_save:
  "\<exists>a' db'. Snap_Save counter_domain counter_snapshotting 0 (NewEventStore, ss) (Some counter_new) None
     = (None, a', db')"
proof -
  obtain a1 st1 where run: "ES_Save counter_domain counter_pair (NewEventStore, ss) (Some counter_new)
      (Some \<lparr>SkipApply = True\<rparr>) = (None, Some a1, (st1, ss))"
    using counter_pair_save by blast
  have valid: "store_valid (\<lambda>_. '''') (fst (NewEventStore, ss))" by (simp add: store_valid_New)
  have room: "globalCounter (fst (NewEventStore, ss)) + int (length (unsavedEvents counter_new)) < max_int64"
    "unsavedEvents counter_new \<noteq> []" by (simp_all add: counter_new_facts max_int64_def)
  obtain es where es: "save_extended counter_domain counter_pair None
      (stream_view (\<lambda>_. '''') st1 (New_id ''counter'' 1)) counter_new es"
    and a1: "a1 = counter_new\<lparr>unappliedEvents := queued_events (unsavedEvents counter_new) es, unsavedEvents := []\<rparr>"
    using memory_snap.Save_cases [where db = "(NewEventStore, ss)", OF valid room, where fresh = "\<lambda>_. 7"
        and now = "\<lambda>_. 0" and d = counter_domain and atype = "''counter''" and stateFactory = "\<lambda>_. 0"
        and codec = byte_codec and protos = "[''added'' \<mapsto> Pointer 0]", folded counter_pair_def, OF run]
    by (auto simp: counter_view counter_new_facts)
  have len: "length es = length (unsavedEvents counter_new)" using es by (simp add: save_extended_def)
  have dec: "list_all2 (\<lambda>u ev. decoded counter_pair ev = Some (ae_DomainEvent u)) (unsavedEvents counter_new) es"
    by (rule saved_decodes [OF es]) (simp add: counter_pair_same counter_codec)
  have ver: "consecutive ae_Version (agg_version a1 + 1) (unappliedEvents a1)"
    using es queued_versions [OF len [symmetric]] unfolding a1 save_extended_def
    by (simp add: counter_new_facts)
  have "\<exists>db'. snapshot_loop counter_domain counter_snapshotting 0 (st1, ss) a1 = (None, a1\<lparr>agg_state :=
      fold_state counter_domain counter_pair es (agg_state a1), agg_version := agg_version a1 + int (length es),
      unappliedEvents := []\<rparr>, db') \<and> True"
    by (rule snapshot_loop_runs [OF _ ver])
      (use dec len in \<open>auto simp: a1 list_all2_conv_all_nth queued_events_def counter_new_facts max_int64_def\<close>)
  moreover have "Save (inner counter_snapshotting) = ES_Save counter_domain counter_pair"
    by (simp add: counter_snapshotting_def memory_snapshotting_def ES_ops_def)
  ultimately show ?thesis using run by (auto simp: Snap_Save_def Let_def)
qed

lemma counter_pair_current: "at_version counter_domain counter_pair [] 0 counter_new"
  by (simp add: at_version_def counter_new_facts fold_state_def counter_pair_sel counter_store_sel)

text \<open>
  C35. Snapshots are transparent. Over any reachable event store and any snapshot store whose
  snapshots of the aggregate are genuine, corrupt or not, loading through the snapshotting store
  succeeds exactly like loading without it, with the same version and the same state, for the
  latest version and for any requested one, and leaves both stores unchanged.
\<close>

theorem Snap_Load_transparent:
  assumes "store_steps ustr NewEventStore st" "i \<noteq> uuid_nil"
    and "S = pair_es_store ustr fresh now atype stateFactory codec protos"
    and "sn = memory_snapshotting d S pol scodec validator isNil"
    and "stream_view ustr st (New_id atype i) = Some (1, H)" "\<forall>ev \<in> set H. decoded S ev \<noteq> None"
    and "all_genuine d S sn H (New_id atype i) ss" "0 \<le> to" "to \<le> max_int64"
  shows "\<exists>a b. Snap_Load sn (st, ss) i (Some \<lparr>lo_ToVersion = to\<rparr>) = Some (Inr a, (st, ss))
    \<and> ES_Load d S (st, ss) i (Some \<lparr>lo_ToVersion = to\<rparr>) = Some (Inr b)
    \<and> agg_version a = agg_version b \<and> agg_state a = agg_state b \<and> agg_id a = agg_id b"
proof -
  have t: "aggregateType S = atype" by (simp add: assms(3) pair_es_store_def)
  have inn: "New (inner sn) i = ES_New S i"
    by (simp add: assms(4) memory_snapshotting_def ES_ops_def)
  have new: "agg_id (ES_New S i) = New_id atype i" by (simp add: ES_New_def newAggregate_def t)
  have valid: "store_valid ustr (fst (st, ss))" using reachable_valid [OF assms(1)] by simp
  have v: "stream_view ustr (fst (st, ss)) (agg_id (ES_New S i)) = Some (1, H)"
    using assms(5) new by simp
  have hist: "shows_history (Some (1, H)) H" by (simp add: shows_history_def)
  have gen: "genuine d S sn H (id_uuid (agg_id (ES_New S i))) snap \<and> 1 - 1 \<le> AggregateVersion snap"
    if "Memory_ReadSnapshot (snd (st, ss)) (agg_id (ES_New S i)) \<lparr>MaxVersion = to\<rparr> = Inr snap" for snap
    using Memory_ReadSnapshot_stored [OF that] assms(7) new by (auto simp: all_genuine_def genuine_def)
  obtain a where a: "Snap_Hydrate sn (st, ss) (Some (ES_New S i)) (Some \<lparr>ho_ToVersion = to\<rparr>) = Some (None, Some a)"
    "at_version d S H (target_version to H) a" "agg_id a = agg_id (ES_New S i)"
    using memory_snap.Snap_Hydrate_history [where db = "(st, ss)", OF valid, where fresh = fresh and now = now
        and d = d and atype = atype and stateFactory = stateFactory and codec = codec and protos = protos
        and pol = pol and scodec = scodec and validator = validator and isNil = isNil,
        folded assms(3), folded assms(4), OF v hist at_version_New assms(8) _ assms(9,6) gen] assms(8)
    by auto
  obtain b where b: "ES_Load d S (st, ss) i (Some \<lparr>lo_ToVersion = to\<rparr>) = Some (Inr b)"
    "at_version d S H (target_version to H) b" "agg_id b = New_id (aggregateType S) i"
    using memory_snap.Load_history [where db = "(st, ss)", OF valid assms(2), where fresh = fresh and now = now
        and d = d and atype = atype and stateFactory = stateFactory and codec = codec and protos = protos,
        folded assms(3), of H to] v assms(6,8,9) new t by auto
  show ?thesis
    using a b new t by (auto simp: Snap_Load_def inn Let_def at_version_def)
qed

text \<open>
  C36. Only genuine snapshots are written. Saving a current aggregate through the snapshotting store
  with an empty or genuine snapshot store leaves the aggregate current with the extended history,
  and every snapshot then held for it is genuine, whatever the policy and whatever the snapshot
  store refused or retained: in particular the next load is transparent again.
\<close>

theorem Snap_Save_genuine:
  assumes "store_steps ustr NewEventStore st"
    and "globalCounter st + int (length (unsavedEvents a)) < max_int64" "unsavedEvents a \<noteq> []"
    and "S = pair_es_store ustr fresh now atype stateFactory codec protos"
    and "sn = memory_snapshotting d S pol scodec validator isNil" "state_codec_ok sn"
    and "shows_history (stream_view ustr st (agg_id a)) H" "at_version d S H (int (length H)) a"
    and "\<forall>u \<in> set (unsavedEvents a). codec_ok d S (ae_DomainEvent u)"
    and "all_genuine d S sn H (agg_id a) ss"
    and "Snap_Save d sn nw (st, ss) (Some a) opts = (None, a', (st', ss'))"
  shows "\<exists>es b. a' = Some b \<and> length es = length (unsavedEvents a)
    \<and> shows_history (stream_view ustr st' (agg_id a)) (H @ es)
    \<and> at_version d S (H @ es) (int (length (H @ es))) b \<and> unsavedEvents b = []
    \<and> all_genuine d S sn (H @ es) (agg_id a) ss'"
proof -
  have valid: "store_valid ustr (fst (st, ss))" using reachable_valid [OF assms(1)] by simp
  have room: "globalCounter (fst (st, ss)) + int (length (unsavedEvents a)) < max_int64" using assms(2) by simp
  have inn: "Save (inner sn) = ES_Save d S" by (simp add: assms(5) memory_snapshotting_def ES_ops_def)
  have at: "unappliedEvents a = []" "agg_version a = int (length H)"
    "agg_state a = fold_state d S H (newState S (id_uuid (agg_id a)))"
    using assms(8) by (auto simp: at_version_def)
  obtain r a1 db1 where run: "ES_Save d S (st, ss) (Some a) (Some \<lparr>SkipApply = True\<rparr>) = (r, a1, db1)"
    by (metis prod_cases3)
  have opts: "(case opts of None \<Rightarrow> \<lparr>SkipApply = False\<rparr> | Some o' \<Rightarrow> o')\<lparr>SkipApply := True\<rparr> = \<lparr>SkipApply = True\<rparr>"
    by (cases opts) auto
  have r: "r = None" using assms(11) run by (cases r) (auto simp: Snap_Save_def inn opts Let_def)
  obtain es where es: "save_extended d S (stream_view ustr st (agg_id a)) (stream_view ustr (fst db1) (agg_id a)) a es"
    "agg_version a + int (length es) \<le> max_int64"
    and a1: "a1 = Some (a\<lparr>unappliedEvents := queued_events (unsavedEvents a) es, unsavedEvents := []\<rparr>)"
    using memory_snap.Save_cases [where db = "(st, ss)", OF valid room assms(3), where fresh = fresh and now = now
        and d = d and atype = atype and stateFactory = stateFactory and codec = codec and protos = protos,
        folded assms(4), OF run] r at(1) by auto
  have db1: "snd db1 = ss"
  proof -
    have "eventWriter S = Some (pair_append ustr fresh now)" by (simp add: assms(4) pair_es_store_def)
    from ES_Save_db [OF this, of d "(st, ss)" a "Some \<lparr>SkipApply = True\<rparr>"]
    have "snd (snd (snd (ES_Save d S (st, ss) (Some a) (Some \<lparr>SkipApply = True\<rparr>)))) = ss"
      using pair_append_snapshots by (metis snd_conv)
    then show ?thesis using run by simp
  qed
  let ?q = "queued_events (unsavedEvents a) es"
  let ?a = "a\<lparr>unappliedEvents := ?q, unsavedEvents := []\<rparr>"
  have dec: "list_all2 (\<lambda>u ev. decoded S ev = Some (ae_DomainEvent u)) (unsavedEvents a) es"
    by (rule saved_decodes [OF es(1) assms(9)])
  have len: "length es = length (unsavedEvents a)" "es \<noteq> []"
    using es(1) assms(3) by (auto simp: save_extended_def)
  have qdec: "list_all2 (\<lambda>q ev. decoded S ev = Some (ae_DomainEvent q)) (unappliedEvents ?a) es"
    using dec len(1) by (auto simp: list_all2_conv_all_nth queued_events_def)
  have qver: "consecutive ae_Version (agg_version ?a + 1) (unappliedEvents ?a)"
  proof -
    have "consecutive ev_StreamVersion (agg_version a + 1) es" using es(1) unfolding save_extended_def by blast
    then show ?thesis using queued_versions [OF len(1) [symmetric]] by simp
  qed
  let ?P = "\<lambda>db. fst db = fst db1 \<and> all_genuine d S sn (H @ es) (agg_id a) (snd db)"
  have "\<exists>db'. snapshot_loop d sn nw db1 ?a = (None, ?a\<lparr>agg_state := fold_state d S es (agg_state ?a),
      agg_version := agg_version ?a + int (length es), unappliedEvents := []\<rparr>, db') \<and> ?P db'"
  proof (rule snapshot_loop_runs [OF qdec qver])
    show "fst db1 = fst db1 \<and> all_genuine d S sn (H @ es) (agg_id a) (snd db1)"
      using assms(10) genuine_extend db1 by (fastforce simp: all_genuine_def)
    fix db n data
    assume P: "?P db" and n: "n \<le> length es"
      and data: "MarshalState (stateCodec sn) (fold_state d S (take n es) (agg_state ?a)) = Inr data"
    let ?snap = "\<lparr>AggregateID = agg_id ?a, AggregateVersion = agg_version ?a + int n, sn_Timestamp = 0,
       sn_Data = data, sn_DataContentType = sc_ContentType (stateCodec sn)\<rparr>"
    have "fold_state d S (take n es) (agg_state a)
        = fold_state d S (take (nat (AggregateVersion ?snap)) (H @ es)) (newState S (id_uuid (agg_id a)))"
      using at(2,3) by (simp add: nat_add_distrib fold_state_append)
    moreover have "st = fold_state d S (take n es) (agg_state a)" if "install sn fresh ?snap = Some st" for fresh st
    proof -
      have "MarshalState (stateCodec sn) (fold_state d S (take n es) (agg_state a)) = Inr (sn_Data ?snap)"
        using data by simp
      then show ?thesis using assms(6) that unfolding state_codec_ok_def by blast
    qed
    ultimately have "genuine d S sn (H @ es) (id_uuid (agg_id a)) ?snap"
      using n at(2) unfolding genuine_def by auto
    then show "?P (snd (snap_writer sn db ?snap))"
      using P all_genuine_write [of d S sn "H @ es" "agg_id a" "snd db" ?snap]
      by (auto simp: assms(5) memory_snapshotting_def split: prod.split)
  qed (use at es in auto)
  then obtain db' where loop: "snapshot_loop d sn nw db1 ?a = (None, ?a\<lparr>agg_state := fold_state d S es (agg_state ?a),
      agg_version := agg_version ?a + int (length es), unappliedEvents := []\<rparr>, db')" "?P db'" by blast
  have fin: "a' = Some (?a\<lparr>agg_state := fold_state d S es (agg_state ?a),
      agg_version := agg_version ?a + int (length es), unappliedEvents := []\<rparr>)" "db' = (st', ss')"
    using assms(11) run r a1 loop(1) by (auto simp: Snap_Save_def inn opts Let_def)
  have "shows_history (stream_view ustr st' (agg_id a)) (H @ es)"
    using history_extend [OF assms(7) len(2)] es(1) fin(2) loop(2) by (simp add: save_extended_def)
  moreover have "at_version d S (H @ es) (int (length (H @ es))) (the a')"
    using at fin(1) by (simp add: at_version_def fold_state_append)
  ultimately show ?thesis using fin len(1) loop(2) by auto
qed

lemma Snap_Save_genuine_witness:
  "\<exists>es b st' ss'. Snap_Save counter_domain counter_snapshotting 0 (NewEventStore, NewSnapshotStore)
       (Some counter_new) None = (None, Some b, (st', ss'))
     \<and> at_version counter_domain counter_pair es (int (length es)) b
     \<and> all_genuine counter_domain counter_pair counter_snapshotting es (New_id ''counter'' 1) ss'"
proof -
  obtain a' db' where run: "Snap_Save counter_domain counter_snapshotting 0 (NewEventStore, NewSnapshotStore)
       (Some counter_new) None = (None, a', db')"
    using counter_snap_save by blast
  obtain st' ss' where db': "db' = (st', ss')" by (cases db')
  have gen: "all_genuine counter_domain counter_pair counter_snapshotting [] (agg_id counter_new) NewSnapshotStore"
    by (simp add: all_genuine_def NewSnapshotStore_def)
  show ?thesis
    using Snap_Save_genuine [OF rtranclp.rtrancl_refl _ _ counter_pair_def counter_snapshotting_def
        counter_state_codec _ _ _ gen run [unfolded db']] run counter_pair_current db'
    by (fastforce simp: counter_new_facts max_int64_def counter_view shows_history_def counter_pair_same counter_codec)
qed

text \<open>A counter with one event, and the snapshot of its state at version 1.\<close>

definition counter_snapshot :: "8 word \<Rightarrow> aggregate_snapshot" where
  "counter_snapshot e = \<lparr>AggregateID = New_id ''counter'' 1, AggregateVersion = 1, sn_Timestamp = 0, sn_Data = [e],
     sn_DataContentType = ''raw''\<rparr>"

abbreviation counter_snapshots :: "8 word \<Rightarrow> snapshot_store" where
  "counter_snapshots e \<equiv> snd (Memory_WriteSnapshot NewSnapshotStore (counter_snapshot e))"

lemma counter_snapshot_stored:
  "snapshots (counter_snapshots e) (New_id ''counter'' 1) = Some [counter_snapshot e]"
  "Memory_ReadSnapshot (counter_snapshots e) (New_id ''counter'' 1) \<lparr>MaxVersion = 0\<rparr> = Inr (counter_snapshot e)"
  by (simp_all add: Memory_WriteSnapshot_def Memory_ReadSnapshot_def NewSnapshotStore_def counter_snapshot_def
      MaxSnapshots_ShouldRetain_def)

lemma counter_snapshot_installs: "install counter_snapshotting k (counter_snapshot e) = Some (unat e)"
  by (simp add: install_def counter_snapshotting_def memory_snapshotting_def counter_snapshot_def nat_codec_def)

lemma counter_snapshot_genuine:
  assumes "decoded counter_store ev = Some e"
  shows "all_genuine counter_domain counter_pair counter_snapshotting [ev] (New_id ''counter'' 1) (counter_snapshots e)"
  using assms
  by (simp add: all_genuine_def genuine_def counter_snapshot_stored counter_snapshot_installs counter_pair_same
      fold_state_def counter_domain_def counter_pair_sel counter_store_sel) (simp add: counter_snapshot_def)

lemma Snap_Load_transparent_witness:
  "\<exists>st snap a b. Memory_ReadSnapshot (counter_snapshots snap) (New_id ''counter'' 1) \<lparr>MaxVersion = 0\<rparr>
        = Inr (counter_snapshot snap)
     \<and> Snap_Load counter_snapshotting (st, counter_snapshots snap) 1 (Some \<lparr>lo_ToVersion = 0\<rparr>)
       = Some (Inr a, (st, counter_snapshots snap))
     \<and> ES_Load counter_domain counter_pair (st, counter_snapshots snap) 1 (Some \<lparr>lo_ToVersion = 0\<rparr>) = Some (Inr b)
     \<and> install counter_snapshotting 0 (counter_snapshot snap) = Some (agg_state a)
     \<and> agg_version a = 1 \<and> agg_version b = 1 \<and> agg_state a = agg_state b"
proof -
  obtain es st where es: "store_steps (\<lambda>_. '''') NewEventStore st" "length es = 1"
    "stream_view (\<lambda>_. '''') st (New_id ''counter'' 1) = Some (1, es)"
    "\<forall>ev \<in> set es. decoded counter_store ev \<noteq> None"
    using counter_saved by blast
  then obtain ev e where ev: "es = [ev]" "decoded counter_store ev = Some e" by (auto simp: length_Suc_conv)
  let ?db = "(st, counter_snapshots e)"
  obtain a b where loads: "Snap_Load counter_snapshotting ?db 1 (Some \<lparr>lo_ToVersion = 0\<rparr>) = Some (Inr a, ?db)"
    "ES_Load counter_domain counter_pair ?db 1 (Some \<lparr>lo_ToVersion = 0\<rparr>) = Some (Inr b)"
    "agg_version a = agg_version b" "agg_state a = agg_state b"
    using Snap_Load_transparent [OF es(1) _ counter_pair_def counter_snapshotting_def es(3) _
        counter_snapshot_genuine [OF ev(2), folded ev(1)], of 0] es(4)
    by (fastforce simp: uuid_nil_def max_int64_def counter_pair_same)
  have valid: "store_valid (\<lambda>_. '''') (fst ?db)" using reachable_valid [OF es(1)] by simp
  have "at_version counter_domain counter_pair es 1 b"
    using memory_snap.Load_history [where db = ?db, OF valid, where i = 1 and fresh = "\<lambda>_. 7" and now = "\<lambda>_. 0"
        and d = counter_domain and atype = "''counter''" and stateFactory = "\<lambda>_. 0" and codec = byte_codec
        and protos = "[''added'' \<mapsto> Pointer 0]", folded counter_pair_def, of es 0] es loads(2)
    by (simp add: uuid_nil_def max_int64_def counter_pair_same counter_pair_type target_version_def)
  then have "agg_version b = 1" "agg_state b = unat e"
    using ev by (simp_all add: at_version_def fold_state_def counter_pair_same counter_pair_sel counter_store_sel
        counter_domain_def)
  then show ?thesis using loads counter_snapshot_stored(2) counter_snapshot_installs by metis
qed

section \<open>Outcomes through the decorators\<close>

text \<open>
  The decorators pass on what the inner store's save vouches for. For any inner store, a save
  of an aggregate through the caching store fails exactly when the inner save fails, with the same
  outcome; one through the snapshotting store fails with the inner outcome when the inner save
  fails, and otherwise only with the outcome "appended".
\<close>

theorem decorators_keep_save_outcome:
  assumes "Save (c_inner c) db (Some a) opts = (r, a', db')"
    and "Save (inner sn) db (Some a) (Some \<lparr>SkipApply = True\<rparr>) = (q, Some b, db'')"
  shows "(fst (Cached_Save c db (Some a) opts) = None \<longleftrightarrow> r = None)
    \<and> SaveOutcome (fst (Cached_Save c db (Some a) opts)) = SaveOutcome r
    \<and> (if q = None
       then fst (Snap_Save d sn now db (Some a) opts) = None
          \<or> SaveOutcome (fst (Snap_Save d sn now db (Some a) opts)) = AppendOutcomeAppended
       else fst (Snap_Save d sn now db (Some a) opts) \<noteq> None
          \<and> SaveOutcome (fst (Snap_Save d sn now db (Some a) opts)) = SaveOutcome q)"
proof -
  have opts: "(case opts of None \<Rightarrow> \<lparr>SkipApply = False\<rparr> | Some o' \<Rightarrow> o')\<lparr>SkipApply := True\<rparr> = \<lparr>SkipApply = True\<rparr>"
    by (cases opts) auto
  have loop: "fst (snapshot_loop d sn now db1 b1) = None
      \<or> SaveOutcome (fst (snapshot_loop d sn now db1 b1)) = AppendOutcomeAppended" for db1 b1
  proof (induction d sn now db1 b1 rule: snapshot_loop.induct)
    case (1 d sn now db1 b1)
    obtain e b2 where nx: "applyNext d b1 = (e, b2)" by fastforce
    show ?case
    proof (cases e)
      case (Some err)
      then show ?thesis by (subst (1 2) snapshot_loop.simps) (simp add: nx outcome_simps resolved_def)
    next
      case None
      note IH = 1 [OF nx [symmetric, unfolded None]]
      show ?thesis
      proof (cases "snap_policy sn (agg_id b2) (agg_version b2) now")
        case False
        then show ?thesis using IH(1) by (subst (1 2) snapshot_loop.simps) (simp add: nx None)
      next
        case True
        then show ?thesis using IH(2,3)
          by (subst (1 2) snapshot_loop.simps, cases "MarshalState (stateCodec sn) (agg_state b2)")
            (simp_all add: nx None)
      qed
    qed
  qed
  have "(fst (Cached_Save c db (Some a) opts) = None \<longleftrightarrow> r = None)
    \<and> SaveOutcome (fst (Cached_Save c db (Some a) opts)) = SaveOutcome r"
    using assms(1) by (cases r; cases a') (simp_all add: Cached_Save_def outcome_simps)
  moreover have "fst (Snap_Save d sn now db (Some a) opts) = (case q of
      None \<Rightarrow> fst (snapshot_loop d sn now db'' b)
    | Some err \<Rightarrow> Some (Wrap (SaveError (agg_id a) ''saving aggregate using inner store'') err))"
    using assms(2) unfolding Snap_Save_def Let_def option.case opts
    by (cases q) (simp_all split: prod.split)
  ultimately show ?thesis
    using loop [of db'' b] by (cases q) (auto simp: outcome_simps)
qed

text \<open>
  Two gaps in the decorators' contracts. A caching store asked to save a nil aggregate reports
  an error whose outcome is unknown, where the event-sourced and the snapshotting store vouch that
  nothing was appended; and a snapshotting store applies the saved events even when the caller asks
  it to skip that: its save does not depend on the caller's options at all.
\<close>

theorem decorator_contract_gaps:
  "SaveOutcome (fst (Cached_Save c db None opts)) = AppendOutcomeUnknown
   \<and> SaveOutcome (fst (ES_Save d s db' None opts)) = AppendOutcomeNothingAppended
   \<and> SaveOutcome (fst (Snap_Save d sn now db'' None opts)) = AppendOutcomeNothingAppended
   \<and> Snap_Save d sn now db'' agg (Some \<lparr>SkipApply = True\<rparr>) = Snap_Save d sn now db'' agg None"
  by (auto simp: Cached_Save_def ES_Save_def Snap_Save_def outcome_simps resolved_def Let_def
      split: option.split)

lemma decorators_keep_save_outcome_witness:
  "\<exists>r. fst (Snap_Save counter_domain counter_snapshotting 0 (NewEventStore, NewSnapshotStore)
       (Some counter_new) None) = r \<and> (r = None \<or> SaveOutcome r = AppendOutcomeAppended)
     \<and> fst (Cached_Save \<lparr>c_inner = ES_ops counter_domain counter_pair, GetAggregate = (\<lambda>db i. Inr None),
          PutAggregate = (\<lambda>db i e. (None, db))\<rparr> (NewEventStore, NewSnapshotStore) (Some counter_new)
          (Some \<lparr>SkipApply = True\<rparr>)) = None"
proof -
  let ?db = "(NewEventStore, NewSnapshotStore)" and ?sk = "Some \<lparr>SkipApply = True\<rparr>"
  let ?c = "\<lparr>c_inner = ES_ops counter_domain counter_pair, GetAggregate = (\<lambda>db i. Inr None),
          PutAggregate = (\<lambda>db i e. (None, db))\<rparr>"
  obtain a1 db1 where run: "ES_Save counter_domain counter_pair ?db (Some counter_new) ?sk = (None, Some a1, db1)"
    using counter_pair_save by blast
  have c: "Save (c_inner ?c) ?db (Some counter_new) ?sk = (None, Some a1, db1)"
    and i: "Save (inner counter_snapshotting) ?db (Some counter_new) ?sk = (None, Some a1, db1)"
    using run by (simp_all add: ES_ops_def counter_snapshotting_def memory_snapshotting_def)
  have o: "Snap_Save counter_domain counter_snapshotting 0 ?db (Some counter_new) None
      = Snap_Save counter_domain counter_snapshotting 0 ?db (Some counter_new) ?sk"
    by (simp add: Snap_Save_def)
  show ?thesis
    using decorators_keep_save_outcome [OF c i, of counter_domain 0] unfolding o by simp
qed

end
