(* ===== verification/LifecycleState.thy ===== *)
theory LifecycleState
  imports Projection
begin

text \<open>
  The projection lifecycle aggregate: its state and structural validation
  (\<open>projection/lifecycle/state.go\<close>), the retirement policy and its receipts
  (\<open>projection/lifecycle/retirement.go\<close>), and the fold of each of its eleven events
  (\<open>projection/lifecycle/events.go\<close>). A nil and an empty witness slice are one list. The
  messages handed to the ambient logger are dropped; the reason a poisoned state records is kept.
\<close>

section \<open>State\<close>

datatype phase =
    PhaseNone
  | PhaseCreated
  | PhaseBuilding
  | PhaseCaughtUp
  | PhasePromoted
  | PhaseRetiring
  | PhaseUnknown int

text \<open>\<open>Phase.String\<close>, which the refusals below quote.\<close>

fun Phase_String :: "phase \<Rightarrow> string" where
  "Phase_String PhaseNone = ''none''"
| "Phase_String PhaseCreated = ''created''"
| "Phase_String PhaseBuilding = ''building''"
| "Phase_String PhaseCaughtUp = ''caught_up''"
| "Phase_String PhasePromoted = ''promoted''"
| "Phase_String PhaseRetiring = ''retiring''"
| "Phase_String (PhaseUnknown n) = ''unknown('' @ itoa n @ '')''"

definition zero_pid :: projection_id where
  "zero_pid = \<lparr>Name = '''', Version = 0\<rparr>"

record attempt_state =
  at_ID :: uuid
  Target :: projection_id
  Previous :: projection_id
  at_Phase :: phase
  at_Reason :: string
  Runner :: uuid
  Released :: bool
  ReleasedAt :: time
  InitiatedAt :: time
  ClaimedAt :: time
  CaughtUpAt :: time
  CaughtUpPos :: int64
  PromotedAt :: time
  RetiringAt :: time
  RetiringWitnesses :: "string list"

definition zero_attempt :: attempt_state where
  "zero_attempt = \<lparr>at_ID = uuid_nil, Target = zero_pid, Previous = zero_pid, at_Phase = PhaseNone,
     at_Reason = '''', Runner = uuid_nil, Released = False, ReleasedAt = 0, InitiatedAt = 0,
     ClaimedAt = 0, CaughtUpAt = 0, CaughtUpPos = 0, PromotedAt = 0, RetiringAt = 0,
     RetiringWitnesses = []\<rparr>"

definition Vacant :: "attempt_state \<Rightarrow> bool" where
  "Vacant a \<longleftrightarrow> at_ID a = uuid_nil \<and> Target a = zero_pid \<and> Previous a = zero_pid
     \<and> at_Phase a = PhaseNone \<and> at_Reason a = '''' \<and> Runner a = uuid_nil \<and> \<not> Released a
     \<and> isZero (InitiatedAt a) \<and> isZero (ClaimedAt a) \<and> isZero (CaughtUpAt a) \<and> CaughtUpPos a = 0
     \<and> isZero (PromotedAt a) \<and> isZero (RetiringAt a) \<and> isZero (ReleasedAt a)
     \<and> length (RetiringWitnesses a) = 0"

record retirement_policy =
  Generation :: int64
  Witnesses :: "string list"
  Unwitnessed :: bool

definition zero_policy :: retirement_policy where
  "zero_policy = \<lparr>Generation = 0, Witnesses = [], Unwitnessed = False\<rparr>"

definition policy_zero :: "retirement_policy \<Rightarrow> bool" where
  "policy_zero p \<longleftrightarrow> Generation p = 0 \<and> length (Witnesses p) = 0 \<and> \<not> Unwitnessed p"

record state =
  st_Name :: string
  Live :: projection_id
  CutoverRevision :: int64
  Allocated :: int64
  Attempt :: attempt_state
  RetirementPolicy :: retirement_policy
  InvalidReason :: string

definition NewState :: "uuid \<Rightarrow> state" where
  "NewState i = \<lparr>st_Name = '''', Live = zero_pid, CutoverRevision = 0, Allocated = 0,
     Attempt = zero_attempt, RetirementPolicy = zero_policy, InvalidReason = ''''\<rparr>"

definition poison :: "string \<Rightarrow> state \<Rightarrow> state" where
  "poison msg s = (if InvalidReason s = '''' then s\<lparr>InvalidReason := msg\<rparr> else s)"

record cutover =
  co_Live :: projection_id
  co_Revision :: int64

record witness_receipt =
  rc_Witness :: string
  rc_Cutover :: cutover

record runner_takeover =
  to_Actor :: string
  to_Reason :: string

definition zero_takeover :: runner_takeover where
  "zero_takeover = \<lparr>to_Actor = '''', to_Reason = ''''\<rparr>"

record retirement_override =
  ov_Actor :: string
  ov_Reason :: string

definition zero_override :: retirement_override where
  "zero_override = \<lparr>ov_Actor = '''', ov_Reason = ''''\<rparr>"

section \<open>Validation\<close>

text \<open>\<open>invalidWitnessSet\<close>, the loop from index \<open>i\<close> with the previous ID at hand.\<close>

fun invalidWitnessSet_from :: "string option \<Rightarrow> string list \<Rightarrow> go_error option" where
  "invalidWitnessSet_from prev [] = None"
| "invalidWitnessSet_from prev (i # ids) =
     (if i = '''' then Some (Text ''witness IDs must not be empty'')
      else if (case prev of None \<Rightarrow> False | Some p \<Rightarrow> i \<le> p)
      then Some (Text ''witness IDs must be unique and sorted'')
      else invalidWitnessSet_from (Some i) ids)"

definition invalidWitnessSet :: "string list \<Rightarrow> go_error option" where
  "invalidWitnessSet ids = invalidWitnessSet_from None ids"

definition policy_validate :: "retirement_policy \<Rightarrow> go_error option" where
  "policy_validate p =
     (if Generation p < 0 then Some (Text ''negative policy generation'')
      else if Generation p = max_int64 then Some (Text ''policy generation exceeds the reachable transition count'')
      else if Generation p = 0 \<and> (length (Witnesses p) \<noteq> 0 \<or> Unwitnessed p)
      then Some (Text ''policy content recorded with no generation'')
      else if 0 < Generation p \<and> Unwitnessed p \<and> length (Witnesses p) \<noteq> 0
      then Some (Text ''witnesses recorded alongside the unwitnessed mode'')
      else if 0 < Generation p \<and> \<not> Unwitnessed p \<and> length (Witnesses p) = 0
      then Some (Text ''neither witnesses nor the unwitnessed mode recorded'')
      else invalidWitnessSet (Witnesses p))"

fun receipts_mismatch :: "witness_receipt list \<Rightarrow> string list \<Rightarrow> cutover \<Rightarrow> go_error option" where
  "receipts_mismatch (r # rs) (w # ws) c =
     (if rc_Witness r \<noteq> w then Some (Text ''receipt attests another witness'')
      else if rc_Cutover r \<noteq> c then Some (Text ''witness attests another cutover'')
      else receipts_mismatch rs ws c)"
| "receipts_mismatch _ _ c = None"

definition invalidReceipts :: "witness_receipt list \<Rightarrow> string list \<Rightarrow> cutover \<Rightarrow> go_error option" where
  "invalidReceipts receipts witnesses c =
     (if length receipts \<noteq> length witnesses
      then Some (Text ''receipts recorded for another number of required witnesses'')
      else receipts_mismatch receipts witnesses c)"

definition unreachableRest :: "projection_id \<Rightarrow> int64 \<Rightarrow> int64 \<Rightarrow> go_error option" where
  "unreachableRest live recorded completed =
     (if live = zero_pid \<and> recorded \<noteq> 0
      then Some (Text ''cutovers recorded with no version left live'')
      else if live \<noteq> zero_pid \<and> recorded < 1
      then Some (Text ''live with no cutover recorded'')
      else if 0 < recorded \<and> completed \<le> recorded div 2
      then Some (Text ''revision cannot arise from the completed allocations'')
      else if Version live = 1 \<and> recorded mod 2 = 0
      then Some (Text ''revision cannot rest at the first version'')
      else if 1 < Version live \<and> wrap64 (completed - 1) \<le> (recorded - 1) div 2
      then Some (Text ''revision cannot rest at a later version'')
      else None)"

definition validateAttempt :: "state \<Rightarrow> go_error option" where
  "validateAttempt s =
     (let a = Attempt s; p = RetirementPolicy s in
      if at_Phase a = PhaseNone then
        (if \<not> Vacant a then Some (Text ''attempt slot records no phase but is not vacant'') else None)
      else if (case at_Phase a of PhaseUnknown n \<Rightarrow> True | _ \<Rightarrow> False)
      then Some (Text ''unknown attempt phase'')
      else if at_Phase a \<noteq> PhaseRetiring \<and> length (RetiringWitnesses a) \<noteq> 0
      then Some (Text ''captured retirement witnesses outside the retiring phase'')
      else case invalidWitnessSet (RetiringWitnesses a) of
        Some err \<Rightarrow> Some (fmt_wrap ''captured retirement witnesses'' err)
      | None \<Rightarrow>
      if length (RetiringWitnesses a) \<noteq> 0 \<and> Generation p = 0
      then Some (Text ''captured retirement witnesses with no recorded policy'')
      else if length (RetiringWitnesses a) \<noteq> 0 \<and> Generation p = 1 \<and> Unwitnessed p
      then Some (Text ''captured retirement witnesses under a sole unwitnessed policy generation'')
      else if length (RetiringWitnesses a) \<noteq> 0 \<and> Generation p = 1 \<and> RetiringWitnesses a \<noteq> Witnesses p
      then Some (Text ''captured retirement witnesses diverge from the sole policy generation'')
      else if at_ID a = uuid_nil then Some (Text ''in-flight attempt has no ID'')
      else case projection_Validate (Target a) of
        Some err \<Rightarrow> Some (fmt_wrap ''attempt target'' err)
      | None \<Rightarrow>
      if Name (Target a) \<noteq> st_Name s
      then Some (Text ''attempt target does not belong to the projection'')
      else if Version (Target a) \<noteq> Allocated s
      then Some (Text ''attempt target is not the latest allocation'')
      else if at_Phase a \<noteq> PhaseCreated \<and> Runner a = uuid_nil
      then Some (Text ''attempt records no claimed runner'')
      else if Released a \<and> Runner a = uuid_nil
      then Some (Text ''attempt records a released claim with no claimed runner'')
      else case (if Previous a = zero_pid then None
          else case projection_Validate (Previous a) of
            Some err \<Rightarrow> Some (fmt_wrap ''attempt previous'' err)
          | None \<Rightarrow>
              if Name (Previous a) \<noteq> st_Name s
              then Some (Text ''attempt previous does not belong to the projection'')
              else if Version (Target a) \<le> Version (Previous a)
              then Some (Text ''attempt previous is not older than the target'')
              else None) of
        Some err \<Rightarrow> Some err
      | None \<Rightarrow>
      (if at_Phase a \<in> {PhaseCreated, PhaseBuilding, PhaseCaughtUp} then
         (if Live s \<noteq> Previous a then Some (Text ''live version diverges from the previous version'')
          else None)
       else if at_Phase a \<in> {PhasePromoted, PhaseRetiring} then
         (if Live s \<noteq> Target a then Some (Text ''live version diverges from the promoted target'')
          else if at_Phase a = PhaseRetiring \<and> Previous a = zero_pid
          then Some (Text ''retiring with no previous version recorded'')
          else None)
       else None))"

definition validate :: "state \<Rightarrow> go_error option" where
  "validate s =
     (if InvalidReason s \<noteq> '''' then Some (Text ''the fold observed an inconsistent event'')
      else if st_Name s = '''' then
        (if Allocated s \<noteq> 0 \<or> Live s \<noteq> zero_pid \<or> CutoverRevision s \<noteq> 0 \<or> \<not> Vacant (Attempt s)
            \<or> \<not> policy_zero (RetirementPolicy s)
         then Some (Text ''state records no projection name but is not empty'') else None)
      else case policy_validate (RetirementPolicy s) of
        Some err \<Rightarrow> Some (fmt_wrap ''retirement policy'' err)
      | None \<Rightarrow> (case projection_Validate \<lparr>Name = st_Name s, Version = 1\<rparr> of
        Some err \<Rightarrow> Some (fmt_wrap ''projection name'' err)
      | None \<Rightarrow>
      if Allocated s < 1 then Some (Text ''named state records no allocated versions'')
      else case (if Live s = zero_pid then None
          else case projection_Validate (Live s) of
            Some err \<Rightarrow> Some (fmt_wrap ''live version'' err)
          | None \<Rightarrow>
              if Name (Live s) \<noteq> st_Name s then Some (Text ''live version does not belong to the projection'')
              else if Allocated s < Version (Live s)
              then Some (Text ''live version exceeds the allocation high-water mark'')
              else None) of
        Some err \<Rightarrow> Some err
      | None \<Rightarrow>
      if Live s = zero_pid \<and> CutoverRevision s \<noteq> 0
      then Some (Text ''cutover revision recorded with no live version'')
      else if Live s \<noteq> zero_pid \<and> CutoverRevision s < 1
      then Some (Text ''live version recorded with no cutover revision'')
      else
        let promoted = (\<not> Vacant (Attempt s) \<and> at_Phase (Attempt s) \<in> {PhasePromoted, PhaseRetiring});
            live = (if promoted then Previous (Attempt s) else Live s);
            recorded = (if promoted then wrap64 (CutoverRevision s - 1) else CutoverRevision s);
            completed = (if Vacant (Attempt s) then Allocated s else wrap64 (Allocated s - 1))
        in case unreachableRest live recorded completed of
             Some err \<Rightarrow> Some (fmt_wrap (if Vacant (Attempt s) then ''cutover history''
                               else ''cutover history before the attempt'') err)
           | None \<Rightarrow> validateAttempt s))"

definition ValidateSnapshotState :: "state \<Rightarrow> go_error option" where
  "ValidateSnapshotState s =
     (if InvalidReason s \<noteq> '''' then None
      else case validate s of
        Some err \<Rightarrow> Some err
      | None \<Rightarrow> if st_Name s = ''''
          then Some (Text ''a lifecycle snapshot cannot hold uninitialized state'') else None)"

section \<open>Events\<close>

datatype lifecycle_event =
    RebuildInitiated uuid projection_id projection_id string time
  | RunnerClaimed uuid uuid int64 runner_takeover time
  | RunnerReleased uuid uuid time
  | BuildStarted
  | CaughtUp int64 int64 time
  | Promoted projection_id projection_id int64 int64 time
  | RolledBack projection_id projection_id int64 time
  | Abandoned string
  | RetireStarted projection_id int64 "string list" "witness_receipt list" retirement_override time
  | PreviousRetired projection_id "witness_receipt list"
  | RetirementPolicySet int64 "string list" bool string string time

fun lifecycle_EventType :: "lifecycle_event \<Rightarrow> string" where
  "lifecycle_EventType (RebuildInitiated _ _ _ _ _) = ''rebuildinitiated''"
| "lifecycle_EventType (RunnerClaimed _ _ _ _ _) = ''runnerclaimed''"
| "lifecycle_EventType (RunnerReleased _ _ _) = ''runnerreleased''"
| "lifecycle_EventType BuildStarted = ''buildstarted''"
| "lifecycle_EventType (CaughtUp _ _ _) = ''caughtup''"
| "lifecycle_EventType (Promoted _ _ _ _ _) = ''promoted''"
| "lifecycle_EventType (RolledBack _ _ _ _) = ''rolledback''"
| "lifecycle_EventType (Abandoned _) = ''abandoned''"
| "lifecycle_EventType (RetireStarted _ _ _ _ _ _) = ''retirestarted''"
| "lifecycle_EventType (PreviousRetired _ _) = ''previousretired''"
| "lifecycle_EventType (RetirementPolicySet _ _ _ _ _ _) = ''retirementpolicyset''"

definition apply_RebuildInitiated ::
  "uuid \<Rightarrow> projection_id \<Rightarrow> projection_id \<Rightarrow> string \<Rightarrow> time \<Rightarrow> state \<Rightarrow> state" where
  "apply_RebuildInitiated attempt tgt prev reason at s0 =
     (let s1 =
        (if attempt = uuid_nil then poison ''rebuild initiated with no attempt ID'' s0
         else if projection_Validate tgt \<noteq> None then poison ''rebuild initiated with an invalid target'' s0
         else if at_Phase (Attempt s0) \<noteq> PhaseNone
         then poison ''rebuild initiated while the attempt slot is occupied'' s0
         else if st_Name s0 \<noteq> '''' \<and> Name tgt \<noteq> st_Name s0
         then poison ''rebuild initiated for a different projection name'' s0
         else if prev \<noteq> Live s0
         then poison ''rebuild initiated with a previous version that was not live'' s0
         else if Version tgt \<noteq> wrap64 (Allocated s0 + 1)
         then poison ''rebuild initiated with a target version outside the allocation sequence'' s0
         else s0)
      in s1\<lparr>st_Name := (if st_Name s1 = '''' then Name tgt else st_Name s1),
            Allocated := max (Allocated s1) (Version tgt),
            Attempt := zero_attempt\<lparr>at_ID := attempt, Target := tgt, Previous := prev,
              at_Phase := PhaseCreated, at_Reason := reason, InitiatedAt := at\<rparr>\<rparr>)"

definition standing :: "state \<Rightarrow> bool" where
  "standing s \<longleftrightarrow> Runner (Attempt s) \<noteq> uuid_nil \<and> \<not> Released (Attempt s)"

definition apply_RunnerClaimed ::
  "uuid \<Rightarrow> uuid \<Rightarrow> runner_takeover \<Rightarrow> time \<Rightarrow> state \<Rightarrow> state" where
  "apply_RunnerClaimed attempt runner takeover at s0 =
     (let s1 =
        (if attempt = uuid_nil then poison ''runner claim recorded with no attempt ID'' s0
         else if runner = uuid_nil then poison ''runner claim recorded with no runner ID'' s0
         else s0);
        s2 = (case at_Phase (Attempt s1) of
           PhaseNone \<Rightarrow> poison ''runner claim recorded with no rebuild in flight'' s1
         | PhaseUnknown n \<Rightarrow> poison ''runner claim recorded in an unknown phase'' s1
         | _ \<Rightarrow> if attempt \<noteq> at_ID (Attempt s1)
                then poison ''runner claim recorded for a different attempt'' s1 else s1);
        s3 =
        (if takeover \<noteq> zero_takeover \<and> (to_Actor takeover = '''' \<or> to_Reason takeover = '''')
         then poison ''runner takeover recorded without an actor and reason'' s2
         else if standing s2 \<and> takeover = zero_takeover
         then poison ''runner claim recorded over a standing claim without an attested takeover'' s2
         else if \<not> standing s2 \<and> takeover \<noteq> zero_takeover
         then poison ''runner takeover attested with no standing claim to take over'' s2
         else s2)
      in s3\<lparr>Attempt := (Attempt s3)\<lparr>Runner := runner, ClaimedAt := at, Released := False, ReleasedAt := 0\<rparr>\<rparr>)"

definition apply_RunnerReleased :: "uuid \<Rightarrow> uuid \<Rightarrow> time \<Rightarrow> state \<Rightarrow> state" where
  "apply_RunnerReleased attempt runner at s0 =
     (let s1 =
        (if attempt = uuid_nil then poison ''runner release recorded with no attempt ID'' s0
         else if runner = uuid_nil then poison ''runner release recorded with no runner ID'' s0
         else s0);
        s2 = (case at_Phase (Attempt s1) of
           PhaseNone \<Rightarrow> poison ''runner release recorded with no rebuild in flight'' s1
         | PhaseUnknown n \<Rightarrow> poison ''runner release recorded in an unknown phase'' s1
         | _ \<Rightarrow>
             if attempt \<noteq> at_ID (Attempt s1)
             then poison ''runner release recorded for a different attempt'' s1
             else if runner \<noteq> Runner (Attempt s1)
             then poison ''runner release recorded by a runner that is not the recorded claimant'' s1
             else if Released (Attempt s1)
             then poison ''runner release recorded over a claim already released'' s1
             else s1)
      in s2\<lparr>Attempt := (Attempt s2)\<lparr>Released := True, ReleasedAt := at\<rparr>\<rparr>)"

definition apply_BuildStarted :: "state \<Rightarrow> state" where
  "apply_BuildStarted s0 =
     (let s1 =
        (if at_Phase (Attempt s0) \<noteq> PhaseCreated then poison ''build started outside the created phase'' s0
         else if Runner (Attempt s0) = uuid_nil then poison ''build started without a claimed runner'' s0
         else s0)
      in s1\<lparr>Attempt := (Attempt s1)\<lparr>at_Phase := PhaseBuilding\<rparr>\<rparr>)"

definition apply_CaughtUp :: "int64 \<Rightarrow> time \<Rightarrow> state \<Rightarrow> state" where
  "apply_CaughtUp position at s0 =
     (let s1 =
        (if at_Phase (Attempt s0) \<noteq> PhaseBuilding \<and> at_Phase (Attempt s0) \<noteq> PhaseCaughtUp
         then poison ''catch-up recorded outside the building and caught-up phases'' s0 else s0)
      in s1\<lparr>Attempt := (Attempt s1)\<lparr>at_Phase := PhaseCaughtUp, CaughtUpAt := at, CaughtUpPos := position\<rparr>\<rparr>)"

definition apply_Promoted ::
  "projection_id \<Rightarrow> projection_id \<Rightarrow> int64 \<Rightarrow> int64 \<Rightarrow> time \<Rightarrow> state \<Rightarrow> state" where
  "apply_Promoted prev nxt revision policyGeneration at s0 =
     (let s1 =
        (if at_Phase (Attempt s0) \<noteq> PhaseCaughtUp
         then poison ''promotion recorded outside the caught-up phase'' s0
         else if prev \<noteq> Live s0 then poison ''promotion recorded from a version that was not live'' s0
         else if nxt \<noteq> Target (Attempt s0)
         then poison ''promotion recorded for a version that was not the attempt's target'' s0
         else if CutoverRevision s0 = max_int64
         then poison ''promotion recorded past an exhausted cutover revision'' s0
         else if revision \<noteq> wrap64 (CutoverRevision s0 + 1)
         then poison ''promotion recorded outside the cutover revision sequence'' s0
         else if policyGeneration \<noteq> Generation (RetirementPolicy s0)
         then poison ''promotion bound to an inactive retirement policy generation'' s0
         else s0)
      in s1\<lparr>Live := nxt, CutoverRevision := max (CutoverRevision s1) revision,
            Attempt := (Attempt s1)\<lparr>at_Phase := PhasePromoted, PromotedAt := at\<rparr>\<rparr>)"

definition apply_RolledBack :: "projection_id \<Rightarrow> projection_id \<Rightarrow> int64 \<Rightarrow> state \<Rightarrow> state" where
  "apply_RolledBack fromv revertedTo revision s0 =
     (let s1 =
        (if at_Phase (Attempt s0) \<noteq> PhasePromoted
         then poison ''rollback recorded outside the promoted phase'' s0
         else if fromv \<noteq> Live s0 then poison ''rollback recorded from a version that was not live'' s0
         else if Previous (Attempt s0) = zero_pid
         then poison ''rollback recorded for an attempt with no previous version'' s0
         else if revertedTo \<noteq> Previous (Attempt s0)
         then poison ''rollback recorded to a version that was not the attempt's previous'' s0
         else if CutoverRevision s0 = max_int64
         then poison ''rollback recorded past an exhausted cutover revision'' s0
         else if revision \<noteq> wrap64 (CutoverRevision s0 + 1)
         then poison ''rollback recorded outside the cutover revision sequence'' s0
         else s0)
      in s1\<lparr>Live := revertedTo, CutoverRevision := max (CutoverRevision s1) revision,
            Attempt := zero_attempt\<rparr>)"

definition apply_Abandoned :: "state \<Rightarrow> state" where
  "apply_Abandoned s0 =
     (let s1 = (case at_Phase (Attempt s0) of
           PhaseCreated \<Rightarrow> s0 | PhaseBuilding \<Rightarrow> s0 | PhaseCaughtUp \<Rightarrow> s0
         | PhaseUnknown n \<Rightarrow> poison ''abandonment recorded in an unknown phase'' s0
         | _ \<Rightarrow> poison ''abandonment recorded outside the pre-promotion phases'' s0)
      in s1\<lparr>Attempt := zero_attempt\<rparr>)"

definition apply_RetireStarted ::
  "projection_id \<Rightarrow> int64 \<Rightarrow> string list \<Rightarrow> witness_receipt list \<Rightarrow> retirement_override \<Rightarrow> time
   \<Rightarrow> state \<Rightarrow> state" where
  "apply_RetireStarted retiring policyGeneration witnesses receipts override at s0 =
     (let s1 =
        (if at_Phase (Attempt s0) \<noteq> PhasePromoted
         then poison ''retirement reserved outside the promoted phase'' s0
         else if Previous (Attempt s0) = zero_pid
         then poison ''retirement reserved for an attempt with no previous version'' s0
         else if retiring \<noteq> Previous (Attempt s0)
         then poison ''retirement reserved for a version that was not the attempt's previous'' s0
         else if policyGeneration \<noteq> Generation (RetirementPolicy s0)
         then poison ''retirement reserved under an inactive policy generation'' s0
         else s0);
        s2 =
        (if override \<noteq> zero_override then
           (if ov_Actor override = '''' \<or> ov_Reason override = ''''
            then poison ''retirement override recorded without an actor and reason'' s1
            else if length witnesses \<noteq> 0 \<or> length receipts \<noteq> 0
            then poison ''overridden retirement records witnesses'' s1
            else s1)
         else if policy_zero (RetirementPolicy s1)
         then poison ''retirement reserved with neither a policy nor an audited override'' s1
         else if Unwitnessed (RetirementPolicy s1) then
           (if length witnesses \<noteq> 0 \<or> length receipts \<noteq> 0
            then poison ''unwitnessed retirement records witnesses'' s1 else s1)
         else if witnesses \<noteq> Witnesses (RetirementPolicy s1)
         then poison ''retirement captured a witness set that is not the active policy's'' s1
         else if invalidReceipts receipts witnesses \<lparr>co_Live = Live s1, co_Revision = CutoverRevision s1\<rparr> \<noteq> None
         then poison ''retirement receipts do not attest the live cutover'' s1
         else s1)
      in s2\<lparr>Attempt := (Attempt s2)\<lparr>at_Phase := PhaseRetiring, RetiringAt := at,
            RetiringWitnesses := witnesses\<rparr>\<rparr>)"

definition apply_PreviousRetired ::
  "projection_id \<Rightarrow> witness_receipt list \<Rightarrow> state \<Rightarrow> state" where
  "apply_PreviousRetired retired receipts s0 =
     (let reserved = (at_Phase (Attempt s0) = PhaseRetiring \<and> Previous (Attempt s0) \<noteq> zero_pid);
          firstVersion = (at_Phase (Attempt s0) = PhasePromoted \<and> Previous (Attempt s0) = zero_pid);
          s1 =
        (if at_Phase (Attempt s0) = PhaseRetiring \<and> Previous (Attempt s0) = zero_pid
         then poison ''retirement completed for a reservation with no previous version'' s0
         else if \<not> reserved \<and> \<not> firstVersion
         then poison ''retirement completed outside the retiring phase'' s0
         else if retired \<noteq> Previous (Attempt s0)
         then poison ''retirement completed for a version that was not the attempt's previous'' s0
         else if firstVersion \<and> length receipts \<noteq> 0
         then poison ''first-version retirement completion records receipts'' s0
         else if reserved \<and> invalidReceipts receipts (RetiringWitnesses (Attempt s0))
              \<lparr>co_Live = Live s0, co_Revision = CutoverRevision s0\<rparr> \<noteq> None
         then poison ''retirement completion receipts do not re-attest the captured witnesses'' s0
         else s0)
      in s1\<lparr>Attempt := zero_attempt\<rparr>)"

definition apply_RetirementPolicySet ::
  "int64 \<Rightarrow> string list \<Rightarrow> bool \<Rightarrow> string \<Rightarrow> string \<Rightarrow> state \<Rightarrow> state" where
  "apply_RetirementPolicySet generation witnesses unwitnessed reason actor s0 =
     (let s1 =
        (if st_Name s0 = '''' then poison ''retirement policy recorded before lifecycle initialization'' s0
         else if max_int64 - 1 \<le> Generation (RetirementPolicy s0)
         then poison ''retirement policy generations are exhausted'' s0
         else if generation \<noteq> wrap64 (Generation (RetirementPolicy s0) + 1)
         then poison ''retirement policy generation is discontinuous'' s0
         else if actor = '''' \<or> reason = ''''
         then poison ''retirement policy transition recorded without an actor and reason'' s0
         else if unwitnessed \<and> length witnesses \<noteq> 0
         then poison ''retirement policy records witnesses alongside the unwitnessed mode'' s0
         else if \<not> unwitnessed \<and> length witnesses = 0
         then poison ''retirement policy records neither witnesses nor the unwitnessed mode'' s0
         else if invalidWitnessSet witnesses \<noteq> None
         then poison ''retirement policy witness set is not canonical'' s0
         else s0)
      in s1\<lparr>RetirementPolicy := \<lparr>Generation = generation, Witnesses = witnesses,
            Unwitnessed = unwitnessed\<rparr>\<rparr>)"

fun ApplyTo :: "lifecycle_event \<Rightarrow> state \<Rightarrow> state" where
  "ApplyTo (RebuildInitiated a t p r w) s = apply_RebuildInitiated a t p r w s"
| "ApplyTo (RunnerClaimed a r pos t w) s = apply_RunnerClaimed a r t w s"
| "ApplyTo (RunnerReleased a r w) s = apply_RunnerReleased a r w s"
| "ApplyTo BuildStarted s = apply_BuildStarted s"
| "ApplyTo (CaughtUp p d w) s = apply_CaughtUp p w s"
| "ApplyTo (Promoted p n r g w) s = apply_Promoted p n r g w s"
| "ApplyTo (RolledBack f t r w) s = apply_RolledBack f t r s"
| "ApplyTo (Abandoned c) s = apply_Abandoned s"
| "ApplyTo (RetireStarted r g ws rs ov w) s = apply_RetireStarted r g ws rs ov w s"
| "ApplyTo (PreviousRetired r rs) s = apply_PreviousRetired r rs s"
| "ApplyTo (RetirementPolicySet g ws u r a w) s = apply_RetirementPolicySet g ws u r a s"

text \<open>The fold of a lifecycle stream.\<close>

definition lifecycle_fold :: "lifecycle_event list \<Rightarrow> state" where
  "lifecycle_fold es = fold ApplyTo es (NewState uuid_nil)"

end
