(* ===== verification/LifecycleSound.thy ===== *)
theory LifecycleSound
  imports LifecycleState
begin

text \<open>
  What the lifecycle fold guarantees. \<open>legal\<close> is the abstract state machine the events describe:
  one rule per transition, over unbounded integers and without poison. The fold refines it
  (\<open>fold_refines_legal\<close>), every fold is poisoned or structurally valid, and the
  histories of the machine fix which version numbers, revisions and routes can occur.
\<close>

section \<open>Poison\<close>

lemma poison_reason [simp]: "msg \<noteq> '''' \<Longrightarrow> InvalidReason (poison msg s) \<noteq> ''''"
  by (simp add: poison_def)

lemma poison_keeps [poison_simps]:
  "InvalidReason s \<noteq> '''' \<Longrightarrow> poison msg s = s"
  "Attempt (poison msg s) = Attempt s" "Live (poison msg s) = Live s"
  "st_Name (poison msg s) = st_Name s" "Allocated (poison msg s) = Allocated s"
  "CutoverRevision (poison msg s) = CutoverRevision s"
  "RetirementPolicy (poison msg s) = RetirementPolicy s"
  by (simp_all add: poison_def)

lemmas apply_defs = apply_RebuildInitiated_def apply_RunnerClaimed_def apply_RunnerReleased_def
  apply_BuildStarted_def apply_CaughtUp_def apply_Promoted_def apply_RolledBack_def
  apply_Abandoned_def apply_RetireStarted_def apply_PreviousRetired_def
  apply_RetirementPolicySet_def

lemma ApplyTo_poisoned:
  assumes "InvalidReason s \<noteq> ''''"
  shows "InvalidReason (ApplyTo e s) = InvalidReason s"
proof -
  have stuck: "poison m s = s" for m using assms by (simp add: poison_def)
  show ?thesis
    by (cases e; cases "at_Phase (Attempt s)")
      (simp_all add: apply_defs stuck Let_def cong: if_cong)
qed

section \<open>The legal transitions\<close>

inductive legal :: "state \<Rightarrow> lifecycle_event \<Rightarrow> state \<Rightarrow> bool" where
  admit: "\<lbrakk>attempt \<noteq> uuid_nil; projection_Validate tgt = None; at_Phase (Attempt s) = PhaseNone;
     st_Name s = '''' \<or> Name tgt = st_Name s; Allocated s < max_int64; Version tgt = Allocated s + 1\<rbrakk>
   \<Longrightarrow> legal s (RebuildInitiated attempt tgt (Live s) reason w)
     (s\<lparr>st_Name := Name tgt, Allocated := Allocated s + 1,
        Attempt := zero_attempt\<lparr>at_ID := attempt, Target := tgt, Previous := Live s,
          at_Phase := PhaseCreated, at_Reason := reason, InitiatedAt := w\<rparr>\<rparr>)"
| claim: "\<lbrakk>at_ID (Attempt s) \<noteq> uuid_nil; runner \<noteq> uuid_nil;
     at_Phase (Attempt s) \<in> {PhaseCreated, PhaseBuilding, PhaseCaughtUp, PhasePromoted, PhaseRetiring};
     if standing s then to_Actor takeover \<noteq> '''' \<and> to_Reason takeover \<noteq> '''' else takeover = zero_takeover\<rbrakk>
   \<Longrightarrow> legal s (RunnerClaimed (at_ID (Attempt s)) runner pos takeover w)
     (s\<lparr>Attempt := (Attempt s)\<lparr>Runner := runner, ClaimedAt := w, Released := False, ReleasedAt := 0\<rparr>\<rparr>)"
| release: "\<lbrakk>at_ID (Attempt s) \<noteq> uuid_nil; standing s;
     at_Phase (Attempt s) \<in> {PhaseCreated, PhaseBuilding, PhaseCaughtUp, PhasePromoted, PhaseRetiring}\<rbrakk>
   \<Longrightarrow> legal s (RunnerReleased (at_ID (Attempt s)) (Runner (Attempt s)) w)
     (s\<lparr>Attempt := (Attempt s)\<lparr>Released := True, ReleasedAt := w\<rparr>\<rparr>)"
| start: "\<lbrakk>at_Phase (Attempt s) = PhaseCreated; Runner (Attempt s) \<noteq> uuid_nil\<rbrakk>
   \<Longrightarrow> legal s BuildStarted (s\<lparr>Attempt := (Attempt s)\<lparr>at_Phase := PhaseBuilding\<rparr>\<rparr>)"
| catch_up: "at_Phase (Attempt s) \<in> {PhaseBuilding, PhaseCaughtUp}
   \<Longrightarrow> legal s (CaughtUp pos d w)
     (s\<lparr>Attempt := (Attempt s)\<lparr>at_Phase := PhaseCaughtUp, CaughtUpAt := w, CaughtUpPos := pos\<rparr>\<rparr>)"
| promote: "\<lbrakk>at_Phase (Attempt s) = PhaseCaughtUp; CutoverRevision s < max_int64\<rbrakk>
   \<Longrightarrow> legal s (Promoted (Live s) (Target (Attempt s)) (CutoverRevision s + 1)
       (Generation (RetirementPolicy s)) w)
     (s\<lparr>Live := Target (Attempt s), CutoverRevision := CutoverRevision s + 1,
        Attempt := (Attempt s)\<lparr>at_Phase := PhasePromoted, PromotedAt := w\<rparr>\<rparr>)"
| roll_back: "\<lbrakk>at_Phase (Attempt s) = PhasePromoted; Previous (Attempt s) \<noteq> zero_pid;
     CutoverRevision s < max_int64\<rbrakk>
   \<Longrightarrow> legal s (RolledBack (Live s) (Previous (Attempt s)) (CutoverRevision s + 1) w)
     (s\<lparr>Live := Previous (Attempt s), CutoverRevision := CutoverRevision s + 1, Attempt := zero_attempt\<rparr>)"
| abandon: "at_Phase (Attempt s) \<in> {PhaseCreated, PhaseBuilding, PhaseCaughtUp}
   \<Longrightarrow> legal s (Abandoned cause) (s\<lparr>Attempt := zero_attempt\<rparr>)"
| reserve: "\<lbrakk>at_Phase (Attempt s) = PhasePromoted; Previous (Attempt s) \<noteq> zero_pid;
     if override \<noteq> zero_override
     then ov_Actor override \<noteq> '''' \<and> ov_Reason override \<noteq> '''' \<and> ws = [] \<and> rs = []
     else Generation (RetirementPolicy s) \<noteq> 0 \<and> ws = Witnesses (RetirementPolicy s)
       \<and> rs = map (\<lambda>x. \<lparr>rc_Witness = x, rc_Cutover = \<lparr>co_Live = Live s, co_Revision = CutoverRevision s\<rparr>\<rparr>) ws\<rbrakk>
   \<Longrightarrow> legal s (RetireStarted (Previous (Attempt s)) (Generation (RetirementPolicy s)) ws rs override w)
     (s\<lparr>Attempt := (Attempt s)\<lparr>at_Phase := PhaseRetiring, RetiringAt := w, RetiringWitnesses := ws\<rparr>\<rparr>)"
| retire: "\<lbrakk>at_Phase (Attempt s) = PhaseRetiring; Previous (Attempt s) \<noteq> zero_pid;
     rs = map (\<lambda>x. \<lparr>rc_Witness = x, rc_Cutover = \<lparr>co_Live = Live s, co_Revision = CutoverRevision s\<rparr>\<rparr>)
       (RetiringWitnesses (Attempt s))\<rbrakk>
   \<Longrightarrow> legal s (PreviousRetired (Previous (Attempt s)) rs) (s\<lparr>Attempt := zero_attempt\<rparr>)"
| conclude: "\<lbrakk>at_Phase (Attempt s) = PhasePromoted; Previous (Attempt s) = zero_pid\<rbrakk>
   \<Longrightarrow> legal s (PreviousRetired zero_pid []) (s\<lparr>Attempt := zero_attempt\<rparr>)"
| set_policy: "\<lbrakk>st_Name s \<noteq> ''''; Generation (RetirementPolicy s) < max_int64 - 1; actor \<noteq> ''''; reason \<noteq> '''';
     if unwitnessed then ws = [] else ws \<noteq> []; invalidWitnessSet ws = None\<rbrakk>
   \<Longrightarrow> legal s (RetirementPolicySet (Generation (RetirementPolicy s) + 1) ws unwitnessed reason actor w)
     (s\<lparr>RetirementPolicy := \<lparr>Generation = Generation (RetirementPolicy s) + 1, Witnesses = ws,
        Unwitnessed = unwitnessed\<rparr>\<rparr>)"

lemma invalidReceipts_iff:
  "invalidReceipts rs ws c = None \<longleftrightarrow> rs = map (\<lambda>w. \<lparr>rc_Witness = w, rc_Cutover = c\<rparr>) ws"
proof -
  have "length rs = length ws \<Longrightarrow>
    receipts_mismatch rs ws c = None \<longleftrightarrow> rs = map (\<lambda>w. \<lparr>rc_Witness = w, rc_Cutover = c\<rparr>) ws"
  proof (induction rs ws c rule: receipts_mismatch.induct)
    case (1 r rs w ws c)
    have "r = \<lparr>rc_Witness = w, rc_Cutover = c\<rparr> \<longleftrightarrow> rc_Witness r = w \<and> rc_Cutover r = c"
      by (cases r) auto
    then show ?case using 1 by auto
  qed auto
  then show ?thesis by (auto simp: invalidReceipts_def)
qed


section \<open>What validation accepts\<close>

lemma Vacant_iff: "Vacant a \<longleftrightarrow> a = zero_attempt"
  by (cases a) (auto simp: Vacant_def zero_attempt_def)

lemma policy_zero_iff: "policy_zero p \<longleftrightarrow> p = zero_policy"
  by (cases p) (auto simp: policy_zero_def zero_policy_def)

definition in_flight :: "phase set" where
  "in_flight = {PhaseCreated, PhaseBuilding, PhaseCaughtUp, PhasePromoted, PhaseRetiring}"

text \<open>The rest states \<open>unreachableRest\<close> accepts, over unbounded integers.\<close>

definition rest_ok :: "int \<Rightarrow> int \<Rightarrow> int \<Rightarrow> bool" where
  "rest_ok v r k \<longleftrightarrow> (if v = 0 then r = 0
     else if v = 1 then 1 \<le> r \<and> odd r \<and> r \<le> 2 * k - 1
     else 1 \<le> r \<and> r \<le> 2 * k - 2)"

lemma unreachableRest_iff:
  assumes "live = zero_pid \<or> 1 \<le> Version live" "0 \<le> k" "k \<le> max_int64"
  shows "unreachableRest live r k = None \<longleftrightarrow> rest_ok (Version live) r k"
proof (cases "live = zero_pid")
  case True
  then show ?thesis by (auto simp: unreachableRest_def rest_ok_def zero_pid_def)
next
  case False
  then have v: "1 \<le> Version live" using assms(1) by simp
  have w: "wrap64 (k - 1) = k - 1"
    using assms(2,3) by (simp add: in64_def min_int64_def)
  have half: "k \<le> r div 2 \<longleftrightarrow> 2 * k \<le> r" for k r :: int by linarith
  have even_iff: "r mod 2 = 0 \<longleftrightarrow> even r" by (simp add: even_iff_mod_2_eq_zero)
  show ?thesis
    using False v by (auto simp: unreachableRest_def rest_ok_def w half even_iff elim!: oddE)
qed

lemma rest_ok_abandon: "rest_ok v r k \<Longrightarrow> rest_ok v r (k + 1)"
  by (auto simp: rest_ok_def)

lemma rest_ok_promote: "rest_ok v r k \<Longrightarrow> 0 \<le> k \<Longrightarrow> 0 \<le> v \<Longrightarrow> v \<le> k \<Longrightarrow> rest_ok (k + 1) (r + 1) (k + 1)"
  by (auto simp: rest_ok_def split: if_splits)

lemma rest_ok_pair: "rest_ok v r k \<Longrightarrow> 1 \<le> v \<Longrightarrow> rest_ok v (r + 2) (k + 1)"
  by (auto simp: rest_ok_def split: if_splits)

lemma rest_ok_nonneg: "rest_ok v r k \<Longrightarrow> 0 \<le> r"
  by (auto simp: rest_ok_def split: if_splits)

text \<open>The versions of a projection: absent, or valid under its name.\<close>

definition version_of :: "string \<Rightarrow> projection_id \<Rightarrow> int \<Rightarrow> bool" where
  "version_of n i k \<longleftrightarrow> i = zero_pid \<or> Name i = n \<and> 1 \<le> Version i \<and> Version i \<le> k"

definition valid_name :: "string \<Rightarrow> bool" where
  "valid_name n \<longleftrightarrow> projection_Validate \<lparr>Name = n, Version = 1\<rparr> = None"

lemma projection_Validate_iff:
  "projection_Validate i = None \<longleftrightarrow> valid_name (Name i) \<and> 1 \<le> Version i"
  by (simp add: valid_name_def projection_Validate_def)

lemma valid_name_nonempty [simp]: "\<not> valid_name ''''"
  by (simp add: valid_name_def projection_Validate_def)

text \<open>The attempt of a named state.\<close>

definition attempt_ok :: "state \<Rightarrow> bool" where
  "attempt_ok s \<longleftrightarrow> (let a = Attempt s; p = RetirementPolicy s in
     if at_Phase a = PhaseNone then a = zero_attempt
     else at_Phase a \<in> in_flight \<and> at_ID a \<noteq> uuid_nil
       \<and> Name (Target a) = st_Name s \<and> Version (Target a) = Allocated s
       \<and> version_of (st_Name s) (Previous a) (Allocated s - 1)
       \<and> (at_Phase a = PhaseCreated \<or> Runner a \<noteq> uuid_nil)
       \<and> (Released a \<longrightarrow> Runner a \<noteq> uuid_nil)
       \<and> (if at_Phase a \<in> {PhasePromoted, PhaseRetiring} then Live s = Target a else Live s = Previous a)
       \<and> (at_Phase a = PhaseRetiring \<longrightarrow> Previous a \<noteq> zero_pid)
       \<and> (RetiringWitnesses a = [] \<or> at_Phase a = PhaseRetiring
           \<and> invalidWitnessSet (RetiringWitnesses a) = None \<and> 1 \<le> Generation p
           \<and> (Generation p = 1 \<longrightarrow> \<not> Unwitnessed p \<and> RetiringWitnesses a = Witnesses p)))"

lemma invalidWitnessSet_Nil [simp]: "invalidWitnessSet [] = None"
  by (simp add: invalidWitnessSet_def)

lemma validateAttempt_vacant:
  "at_Phase (Attempt s) = PhaseNone \<Longrightarrow> validateAttempt s = None \<longleftrightarrow> Attempt s = zero_attempt"
  by (simp add: validateAttempt_def Let_def Vacant_iff)

text \<open>Guards in sequence: no error exactly when each passes.\<close>

lemma refuse_iff:
  "(if c then x else y) = None \<longleftrightarrow> (c \<longrightarrow> x = None) \<and> (\<not> c \<longrightarrow> y = None)"
  "(case z of Some e \<Rightarrow> Some (f e) | None \<Rightarrow> x) = None \<longleftrightarrow> z = None \<and> x = None"
  "Some e = None \<longleftrightarrow> False"
  by (auto split: option.split)

lemma Previous_ok:
  "valid_name n \<Longrightarrow> version_of n i (k - 1) \<longleftrightarrow>
     i = zero_pid \<or> projection_Validate i = None \<and> Name i = n \<and> Version i < k"
  by (auto simp: version_of_def projection_Validate_iff)

lemma validateAttempt_iff:
  assumes "valid_name (st_Name s)" "1 \<le> Allocated s" "0 \<le> Generation (RetirementPolicy s)"
  shows "validateAttempt s = None \<longleftrightarrow> attempt_ok s"
proof (cases "at_Phase (Attempt s) = PhaseNone")
  case True
  then show ?thesis by (simp add: validateAttempt_vacant attempt_ok_def)
next
  case occupied: False
  show ?thesis
  proof (cases "at_Phase (Attempt s) \<in> in_flight")
    case False
    then have "\<exists>n. at_Phase (Attempt s) = PhaseUnknown n"
      using occupied by (cases "at_Phase (Attempt s)") (auto simp: in_flight_def)
    then obtain n where "at_Phase (Attempt s) = PhaseUnknown n" by blast
    then show ?thesis by (simp add: validateAttempt_def attempt_ok_def Let_def in_flight_def)
  next
    case True
    then have known: "(case at_Phase (Attempt s) of PhaseUnknown n \<Rightarrow> True | _ \<Rightarrow> False) = False"
      by (auto simp: in_flight_def)
    note accepted = validateAttempt_def attempt_ok_def Let_def refuse_iff in_flight_def
      Previous_ok [OF assms(1)] projection_Validate_iff [of "Target (Attempt s)"]
    consider "at_Phase (Attempt s) = PhaseCreated" | "at_Phase (Attempt s) = PhaseBuilding"
      | "at_Phase (Attempt s) = PhaseCaughtUp" | "at_Phase (Attempt s) = PhasePromoted"
      | "at_Phase (Attempt s) = PhaseRetiring"
      using True by (auto simp: in_flight_def)
    then show ?thesis
      using assms by cases (simp only: accepted known, simp, (auto)?)+
  qed
qed

text \<open>
  The invariant of an unpoisoned fold: before its first event nothing is recorded; afterwards the
  attempt agrees with the projection's facts, and the cutover history before the attempt is one
  that can come to rest. \<open>InvalidReason\<close> empty is part of it.
\<close>

definition cut_over :: "state \<Rightarrow> bool" where
  "cut_over s \<longleftrightarrow> at_Phase (Attempt s) \<in> {PhasePromoted, PhaseRetiring}"

definition rest_live :: "state \<Rightarrow> projection_id" where
  "rest_live s = (if cut_over s then Previous (Attempt s) else Live s)"

definition rest_revision :: "state \<Rightarrow> int" where
  "rest_revision s = (if cut_over s then CutoverRevision s - 1 else CutoverRevision s)"

definition completed :: "state \<Rightarrow> int" where
  "completed s = (if at_Phase (Attempt s) = PhaseNone then Allocated s else Allocated s - 1)"

definition policy_ok :: "retirement_policy \<Rightarrow> bool" where
  "policy_ok p \<longleftrightarrow> (if Generation p = 0 then p = zero_policy
     else 1 \<le> Generation p \<and> Generation p < max_int64 \<and> Unwitnessed p = (Witnesses p = [])
       \<and> invalidWitnessSet (Witnesses p) = None)"

definition sound :: "state \<Rightarrow> bool" where
  "sound s \<longleftrightarrow> InvalidReason s = '''' \<and> (if st_Name s = '''' then s = NewState uuid_nil
     else valid_name (st_Name s) \<and> policy_ok (RetirementPolicy s)
       \<and> 1 \<le> Allocated s \<and> Allocated s \<le> max_int64 \<and> CutoverRevision s \<le> max_int64
       \<and> version_of (st_Name s) (rest_live s) (completed s)
       \<and> rest_ok (Version (rest_live s)) (rest_revision s) (completed s) \<and> attempt_ok s)"

lemma policy_ok_validate: "policy_ok p \<Longrightarrow> policy_validate p = None"
  by (cases p) (auto simp: policy_ok_def policy_validate_def zero_policy_def max_int64_def)

lemma version_of_mono: "version_of n i k \<Longrightarrow> k \<le> k' \<Longrightarrow> version_of n i k'"
  by (auto simp: version_of_def)

lemma zero_pid_version [simp]: "Version zero_pid = 0" "Name zero_pid = ''''"
  by (simp_all add: zero_pid_def)

lemma version_of_nonneg: "version_of n i k \<Longrightarrow> 0 \<le> k \<Longrightarrow> 0 \<le> Version i \<and> Version i \<le> k"
  by (auto simp: version_of_def)

lemma version_of_zero: "version_of n i k \<Longrightarrow> Version i = 0 \<longleftrightarrow> i = zero_pid"
  by (auto simp: version_of_def)

text \<open>What \<open>sound\<close> says of the live version itself.\<close>

lemma sound_live:
  assumes "sound s" "st_Name s \<noteq> ''''"
  shows "version_of (st_Name s) (Live s) (Allocated s)
    \<and> (Live s = zero_pid \<longleftrightarrow> CutoverRevision s = 0) \<and> 0 \<le> CutoverRevision s
    \<and> (cut_over s \<longrightarrow> Live s = Target (Attempt s) \<and> 1 \<le> CutoverRevision s)"
proof -
  have ok: "attempt_ok s" "1 \<le> Allocated s" "valid_name (st_Name s)"
    and rest: "version_of (st_Name s) (rest_live s) (completed s)"
      "rest_ok (Version (rest_live s)) (rest_revision s) (completed s)"
    using assms by (simp_all add: sound_def)
  show ?thesis
  proof (cases "cut_over s")
    case True
    then have "Live s = Target (Attempt s)" "Name (Live s) = st_Name s" "Version (Live s) = Allocated s"
      using ok(1) by (auto simp: cut_over_def attempt_ok_def Let_def split: if_splits)
    then show ?thesis
      using True ok(2) rest_ok_nonneg [OF rest(2)] by (auto simp: version_of_def rest_revision_def)
  next
    case False
    then have "version_of (st_Name s) (Live s) (completed s)"
      "rest_ok (Version (Live s)) (CutoverRevision s) (completed s)"
      using rest by (simp_all add: rest_live_def rest_revision_def)
    moreover have "completed s \<le> Allocated s" by (simp add: completed_def)
    ultimately show ?thesis
      using False by (auto simp: rest_ok_def version_of_def split: if_splits)
  qed
qed

lemma attempt_ok_cases:
  assumes "attempt_ok s"
  shows "at_Phase (Attempt s) \<in> insert PhaseNone in_flight"
    and "at_Phase (Attempt s) = PhaseNone \<longleftrightarrow> Attempt s = zero_attempt"
  using assms by (auto simp: attempt_ok_def Let_def zero_attempt_def split: if_splits)

lemma sound_validate:
  assumes "sound s"
  shows "validate s = None"
proof (cases "st_Name s = ''''")
  case True
  then have "s = NewState uuid_nil" using assms by (simp add: sound_def)
  then show ?thesis by (simp add: validate_def NewState_def Vacant_iff policy_zero_iff)
next
  case named: False
  have ok: "attempt_ok s" "1 \<le> Allocated s" "Allocated s \<le> max_int64" "valid_name (st_Name s)"
      "policy_ok (RetirementPolicy s)" "InvalidReason s = ''''" "CutoverRevision s \<le> max_int64"
    and rest: "version_of (st_Name s) (rest_live s) (completed s)"
      "rest_ok (Version (rest_live s)) (rest_revision s) (completed s)"
    using assms named by (simp_all add: sound_def)
  note live = sound_live [OF assms named]
  have vacant: "Vacant (Attempt s) \<longleftrightarrow> at_Phase (Attempt s) = PhaseNone"
    by (simp add: Vacant_iff attempt_ok_cases(2) [OF ok(1)])
  have recorded: "(if \<not> Vacant (Attempt s) \<and> at_Phase (Attempt s) \<in> {PhasePromoted, PhaseRetiring}
      then wrap64 (CutoverRevision s - 1) else CutoverRevision s) = rest_revision s"
    using live ok(7) by (auto simp: rest_revision_def cut_over_def vacant in64_nonneg)
  have finished: "(if Vacant (Attempt s) then Allocated s else wrap64 (Allocated s - 1)) = completed s"
    using ok(2,3) by (auto simp: completed_def vacant in64_nonneg)
  have before: "(if \<not> Vacant (Attempt s) \<and> at_Phase (Attempt s) \<in> {PhasePromoted, PhaseRetiring}
      then Previous (Attempt s) else Live s) = rest_live s"
    by (auto simp: rest_live_def cut_over_def vacant)
  have "0 \<le> completed s" "completed s \<le> max_int64" using ok(2,3) by (auto simp: completed_def)
  then have reachable: "unreachableRest (rest_live s) (rest_revision s) (completed s) = None"
    using rest unreachableRest_iff [of "rest_live s"] by (auto simp: version_of_def)
  have attempt: "validateAttempt s = None"
    using ok validateAttempt_iff [of s] by (simp add: policy_ok_def zero_policy_def split: if_splits)
  have name: "projection_Validate \<lparr>Name = st_Name s, Version = 1\<rparr> = None"
    using ok(4) by (simp add: valid_name_def)
  have lived: "Live s = zero_pid \<or> projection_Validate (Live s) = None \<and> Name (Live s) = st_Name s
      \<and> Version (Live s) \<le> Allocated s"
    using live ok(4) by (auto simp: version_of_def projection_Validate_iff)
  show ?thesis
    using named ok live lived
    by (simp only: validate_def Let_def recorded finished before reachable attempt name refuse_iff
        policy_ok_validate [OF ok(5)])
      (auto simp: reachable)
qed

section \<open>Legal transitions keep a state sound\<close>

lemma sound_NewState: "sound (NewState uuid_nil)"
  by (simp add: sound_def NewState_def)

lemma sound_named: "sound s \<Longrightarrow> at_Phase (Attempt s) \<noteq> PhaseNone \<Longrightarrow> st_Name s \<noteq> ''''"
  by (auto simp: sound_def NewState_def zero_attempt_def)

text \<open>A transition inside the attempt: everything the invariant reads but the attempt stays.\<close>

lemma sound_attempt:
  assumes "sound s" "at_Phase (Attempt s) \<noteq> PhaseNone" "at_Phase a \<noteq> PhaseNone"
    and "cut_over s \<longleftrightarrow> at_Phase a \<in> {PhasePromoted, PhaseRetiring}"
    and "Previous a = Previous (Attempt s)"
    and "attempt_ok (s\<lparr>Attempt := a\<rparr>)"
  shows "sound (s\<lparr>Attempt := a\<rparr>)"
  using assms sound_named [OF assms(1,2)]
  by (simp add: sound_def rest_live_def rest_revision_def completed_def cut_over_def split: if_splits) blast+

lemma attempt_ok_occupied:
  assumes "sound s" "at_Phase (Attempt s) \<noteq> PhaseNone"
  shows "attempt_ok s" "st_Name s \<noteq> ''''" "0 \<le> Generation (RetirementPolicy s)"
    "policy_ok (RetirementPolicy s)" "valid_name (st_Name s)"
  using assms sound_named [OF assms] by (auto simp: sound_def policy_ok_def split: if_splits)

lemma sound_claim:
  assumes "sound s" "at_Phase (Attempt s) \<in> in_flight" "runner \<noteq> uuid_nil"
  shows "sound (s\<lparr>Attempt := (Attempt s)\<lparr>Runner := runner, ClaimedAt := w, Released := False, ReleasedAt := v\<rparr>\<rparr>)"
proof -
  have occ: "at_Phase (Attempt s) \<noteq> PhaseNone" using assms(2) by (auto simp: in_flight_def)
  show ?thesis
    using assms occ attempt_ok_occupied(1) [OF assms(1) occ]
    by (intro sound_attempt) (auto simp: cut_over_def attempt_ok_def Let_def)
qed

lemma sound_release:
  assumes "sound s" "at_Phase (Attempt s) \<in> in_flight" "Runner (Attempt s) \<noteq> uuid_nil"
  shows "sound (s\<lparr>Attempt := (Attempt s)\<lparr>Released := True, ReleasedAt := w\<rparr>\<rparr>)"
proof -
  have occ: "at_Phase (Attempt s) \<noteq> PhaseNone" using assms(2) by (auto simp: in_flight_def)
  show ?thesis
    using assms occ attempt_ok_occupied(1) [OF assms(1) occ]
    by (intro sound_attempt) (auto simp: cut_over_def attempt_ok_def Let_def)
qed

lemma sound_build:
  assumes "sound s" "at_Phase (Attempt s) = PhaseCreated" "Runner (Attempt s) \<noteq> uuid_nil"
  shows "sound (s\<lparr>Attempt := (Attempt s)\<lparr>at_Phase := PhaseBuilding\<rparr>\<rparr>)"
  using assms attempt_ok_occupied(1) [OF assms(1)]
  by (intro sound_attempt) (auto simp: cut_over_def attempt_ok_def Let_def in_flight_def)

lemma sound_caught_up:
  assumes "sound s" "at_Phase (Attempt s) \<in> {PhaseBuilding, PhaseCaughtUp}"
  shows "sound (s\<lparr>Attempt := (Attempt s)\<lparr>at_Phase := PhaseCaughtUp, CaughtUpAt := w, CaughtUpPos := p\<rparr>\<rparr>)"
  using assms attempt_ok_occupied(1) [OF assms(1)]
  by (intro sound_attempt) (auto simp: cut_over_def attempt_ok_def Let_def in_flight_def)

lemma sound_reserve:
  assumes "sound s" "at_Phase (Attempt s) = PhasePromoted" "Previous (Attempt s) \<noteq> zero_pid"
    and "ws = [] \<or> Generation (RetirementPolicy s) \<noteq> 0 \<and> ws = Witnesses (RetirementPolicy s)"
  shows "sound (s\<lparr>Attempt := (Attempt s)\<lparr>at_Phase := PhaseRetiring, RetiringAt := w, RetiringWitnesses := ws\<rparr>\<rparr>)"
  using assms attempt_ok_occupied [OF assms(1)]
  by (intro sound_attempt)
    (auto simp: cut_over_def attempt_ok_def Let_def in_flight_def policy_ok_def)

text \<open>An attempt that ends without a cutover of its own leaves the rest state before it.\<close>

lemma attempt_ok_vacated [simp]: "Attempt s = zero_attempt \<Longrightarrow> attempt_ok s"
  by (simp add: attempt_ok_def zero_attempt_def)

lemma zero_attempt_phase [simp]: "at_Phase zero_attempt = PhaseNone"
  "RetiringWitnesses zero_attempt = []"
  by (simp_all add: zero_attempt_def)

lemma sound_abandon:
  assumes "sound s" "at_Phase (Attempt s) \<in> {PhaseCreated, PhaseBuilding, PhaseCaughtUp}"
  shows "sound (s\<lparr>Attempt := zero_attempt\<rparr>)"
proof -
  have occ: "at_Phase (Attempt s) \<noteq> PhaseNone" using assms(2) by auto
  have "rest_live s = Live s" "rest_revision s = CutoverRevision s" "completed s = Allocated s - 1"
    using assms(2) by (auto simp: rest_live_def rest_revision_def cut_over_def completed_def)
  then show ?thesis
    using assms(1) sound_named [OF assms(1) occ]
      rest_ok_abandon [of "Version (Live s)" "CutoverRevision s" "Allocated s - 1"]
      version_of_mono [of "st_Name s" "Live s" "Allocated s - 1" "Allocated s"]
    by (simp add: sound_def rest_live_def rest_revision_def cut_over_def completed_def)
qed

lemma sound_promote:
  assumes "sound s" "at_Phase (Attempt s) = PhaseCaughtUp" "CutoverRevision s < max_int64"
  shows "sound (s\<lparr>Live := Target (Attempt s), CutoverRevision := CutoverRevision s + 1,
        Attempt := (Attempt s)\<lparr>at_Phase := PhasePromoted, PromotedAt := w\<rparr>\<rparr>)"
proof -
  have occ: "at_Phase (Attempt s) \<noteq> PhaseNone" using assms(2) by auto
  then show ?thesis
    using assms sound_named [OF assms(1) occ]
    by (auto simp: sound_def rest_live_def rest_revision_def cut_over_def completed_def attempt_ok_def
        Let_def in_flight_def)
qed

lemma sound_roll_back:
  assumes "sound s" "at_Phase (Attempt s) = PhasePromoted" "Previous (Attempt s) \<noteq> zero_pid"
    "CutoverRevision s < max_int64"
  shows "sound (s\<lparr>Live := Previous (Attempt s), CutoverRevision := CutoverRevision s + 1,
    Attempt := zero_attempt\<rparr>)"
proof -
  have occ: "at_Phase (Attempt s) \<noteq> PhaseNone" using assms(2) by auto
  have rest: "rest_live s = Previous (Attempt s)" "rest_revision s = CutoverRevision s - 1"
      "completed s = Allocated s - 1"
    using assms(2) by (auto simp: rest_live_def rest_revision_def cut_over_def completed_def)
  then have "version_of (st_Name s) (Previous (Attempt s)) (Allocated s - 1)"
    "rest_ok (Version (Previous (Attempt s))) (CutoverRevision s - 1) (Allocated s - 1)"
    using assms(1) sound_named [OF assms(1) occ] by (auto simp: sound_def)
  then show ?thesis
    using assms sound_named [OF assms(1) occ]
      rest_ok_pair [of "Version (Previous (Attempt s))" "CutoverRevision s - 1" "Allocated s - 1"]
      version_of_mono [of "st_Name s" "Previous (Attempt s)" "Allocated s - 1" "Allocated s"]
    by (auto simp: sound_def rest_live_def rest_revision_def cut_over_def completed_def version_of_def
        add.commute)
qed

lemma sound_complete:
  assumes "sound s" "cut_over s"
  shows "sound (s\<lparr>Attempt := zero_attempt\<rparr>)"
proof -
  have occ: "at_Phase (Attempt s) \<noteq> PhaseNone" using assms(2) by (auto simp: cut_over_def)
  note named = sound_named [OF assms(1) occ]
  have rest: "rest_live s = Previous (Attempt s)" "rest_revision s = CutoverRevision s - 1"
      "completed s = Allocated s - 1"
    using assms(2) occ by (auto simp: rest_live_def rest_revision_def completed_def)
  then have prev: "version_of (st_Name s) (Previous (Attempt s)) (Allocated s - 1)"
    "rest_ok (Version (Previous (Attempt s))) (CutoverRevision s - 1) (Allocated s - 1)"
    and k: "1 \<le> Allocated s"
    using assms(1) named by (auto simp: sound_def)
  have "Version (Live s) = Allocated s"
    using assms attempt_ok_occupied(1) [OF assms(1) occ]
    by (auto simp: cut_over_def attempt_ok_def Let_def split: if_splits)
  moreover have "rest_ok (Allocated s) (CutoverRevision s) (Allocated s)"
    using rest_ok_promote [OF prev(2)] version_of_nonneg [OF prev(1)] k by simp
  ultimately show ?thesis
    using assms(1) named sound_live [OF assms(1) named]
    by (simp add: sound_def rest_live_def rest_revision_def cut_over_def completed_def)
qed


lemma sound_admit:
  assumes "sound s" "at_Phase (Attempt s) = PhaseNone" "attempt \<noteq> uuid_nil" "projection_Validate tgt = None"
    "st_Name s = '''' \<or> Name tgt = st_Name s" "Allocated s < max_int64" "Version tgt = Allocated s + 1"
  shows "sound (s\<lparr>st_Name := Name tgt, Allocated := Allocated s + 1,
        Attempt := zero_attempt\<lparr>at_ID := attempt, Target := tgt, Previous := Live s,
          at_Phase := PhaseCreated, at_Reason := reason, InitiatedAt := w\<rparr>\<rparr>)"
proof (cases "st_Name s = ''''")
  case True
  then have "s = NewState uuid_nil" using assms(1) by (simp add: sound_def)
  then show ?thesis
    using assms by (simp add: sound_def NewState_def policy_ok_def rest_live_def rest_revision_def
        cut_over_def completed_def version_of_def rest_ok_def attempt_ok_def in_flight_def
        zero_policy_def zero_attempt_def projection_Validate_iff max_int64_def)
      (metis valid_name_nonempty)
next
  case False
  then show ?thesis
    using assms by (simp add: sound_def rest_live_def rest_revision_def
        cut_over_def completed_def version_of_def attempt_ok_def in_flight_def
        zero_attempt_def projection_Validate_iff)
qed

lemma sound_policy:
  assumes "sound s" "st_Name s \<noteq> ''''" "Generation (RetirementPolicy s) < max_int64 - 1"
    "if unwitnessed then ws = [] else ws \<noteq> []" "invalidWitnessSet ws = None"
  shows "sound (s\<lparr>RetirementPolicy := \<lparr>Generation = Generation (RetirementPolicy s) + 1, Witnesses = ws,
        Unwitnessed = unwitnessed\<rparr>\<rparr>)"
proof -
  have "0 \<le> Generation (RetirementPolicy s)"
    using assms(1,2) by (simp add: sound_def policy_ok_def split: if_splits)
  moreover have "attempt_ok (s\<lparr>RetirementPolicy := \<lparr>Generation = Generation (RetirementPolicy s) + 1,
      Witnesses = ws, Unwitnessed = unwitnessed\<rparr>\<rparr>)"
    using assms(1,2) by (auto simp: sound_def attempt_ok_def Let_def)
  ultimately show ?thesis
    using assms by (auto simp: sound_def rest_live_def rest_revision_def cut_over_def completed_def
        policy_ok_def split: if_splits)
qed

lemma legal_sound:
  assumes "legal s e s'" "sound s"
  shows "sound s'"
  using assms
proof cases
  case claim
  then show ?thesis using assms(2) by (auto simp: in_flight_def intro!: sound_claim)
next
  case release
  then show ?thesis using assms(2) by (auto simp: in_flight_def standing_def intro!: sound_release)
next
  case admit
  then show ?thesis using assms(2) by (auto intro!: sound_admit)
next
  case roll_back
  then show ?thesis using sound_roll_back [OF assms(2)] by simp
next
  case promote
  then show ?thesis using assms(2) by (auto intro!: sound_promote)
next
  case reserve
  then show ?thesis using assms(2) by (auto intro!: sound_reserve split: if_splits)
next
  case retire
  then show ?thesis using assms(2) by (auto simp: cut_over_def intro!: sound_complete)
next
  case conclude
  then show ?thesis using assms(2) by (auto simp: cut_over_def intro!: sound_complete)
next
  case set_policy
  then show ?thesis using assms(2) by (auto intro!: sound_policy)
qed (auto simp: assms(2) intro!: sound_build sound_caught_up sound_abandon)


section \<open>The fold refines the legal transitions\<close>

lemma clean_guard:
  "m \<noteq> '''' \<Longrightarrow> InvalidReason (if c then poison m s else x) = '''' \<longleftrightarrow> \<not> c \<and> InvalidReason x = ''''"
  by simp

lemma guard_keeps [poison_simps]:
  "Attempt (if c then poison m s else x) = (if c then Attempt s else Attempt x)"
  "Live (if c then poison m s else x) = (if c then Live s else Live x)"
  "RetirementPolicy (if c then poison m s else x) = (if c then RetirementPolicy s else RetirementPolicy x)"
  "CutoverRevision (if c then poison m s else x) = (if c then CutoverRevision s else CutoverRevision x)"
  by (simp_all add: poison_simps)

lemma sound_counters:
  assumes "sound s"
  shows "wrap64 (Allocated s + 1) = (if Allocated s = max_int64 then min_int64 else Allocated s + 1)"
    and "Allocated s \<le> max_int64" "0 \<le> Allocated s"
    and "CutoverRevision s \<noteq> max_int64 \<Longrightarrow> CutoverRevision s < max_int64 \<and> wrap64 (CutoverRevision s + 1) = CutoverRevision s + 1"
    and "Generation (RetirementPolicy s) < max_int64 - 1 \<Longrightarrow>
      wrap64 (Generation (RetirementPolicy s) + 1) = Generation (RetirementPolicy s) + 1"
proof -
  have "0 \<le> Allocated s \<and> Allocated s \<le> max_int64 \<and> 0 \<le> CutoverRevision s \<and> CutoverRevision s \<le> max_int64
    \<and> 0 \<le> Generation (RetirementPolicy s)"
    using assms sound_live [OF assms]
    by (cases "st_Name s = ''''")
      (auto simp: sound_def NewState_def max_int64_def policy_ok_def zero_policy_def split: if_splits)
  then show "wrap64 (Allocated s + 1) = (if Allocated s = max_int64 then min_int64 else Allocated s + 1)"
    and "Allocated s \<le> max_int64" "0 \<le> Allocated s"
    and "CutoverRevision s \<noteq> max_int64 \<Longrightarrow> CutoverRevision s < max_int64 \<and> wrap64 (CutoverRevision s + 1) = CutoverRevision s + 1"
    and "Generation (RetirementPolicy s) < max_int64 - 1 \<Longrightarrow>
      wrap64 (Generation (RetirementPolicy s) + 1) = Generation (RetirementPolicy s) + 1"
    by (auto simp: wrap64_succ in64_nonneg)
qed

lemma sound_policy_zero:
  "sound s \<Longrightarrow> policy_zero (RetirementPolicy s) \<longleftrightarrow> Generation (RetirementPolicy s) = 0"
  by (auto simp: sound_def NewState_def policy_ok_def policy_zero_iff zero_policy_def split: if_splits)

lemma sound_unwitnessed:
  "sound s \<Longrightarrow> Unwitnessed (RetirementPolicy s) \<Longrightarrow> Witnesses (RetirementPolicy s) = []"
  by (auto simp: sound_def NewState_def policy_ok_def zero_policy_def split: if_splits)

lemma sound_phase: "sound s \<Longrightarrow> at_Phase (Attempt s) \<in> insert PhaseNone in_flight"
  using attempt_ok_cases(1) [of s] by (auto simp: sound_def NewState_def split: if_splits)

lemma takeover_zero: "to_Actor t \<noteq> [] \<Longrightarrow> t \<noteq> zero_takeover"
  by (auto simp: zero_takeover_def)

lemma legal_ApplyTo:
  assumes "legal s e s'" "sound s"
  shows "ApplyTo e s = s'"
  using assms(1)
proof cases
  case admit
  then show ?thesis using sound_counters [OF assms(2)]
    by (auto simp: apply_RebuildInitiated_def)
next
  case claim
  then show ?thesis
    by (cases "standing s"; elim insertE emptyE)
      (simp_all add: apply_RunnerClaimed_def Let_def takeover_zero)
next
  case release
  then show ?thesis
    by (elim insertE emptyE) (simp_all add: apply_RunnerReleased_def Let_def standing_def)
next
  case start
  then show ?thesis by (simp add: apply_BuildStarted_def)
next
  case catch_up
  then show ?thesis by (auto simp: apply_CaughtUp_def)
next
  case promote
  then show ?thesis using sound_counters [OF assms(2)] by (simp add: apply_Promoted_def)
next
  case roll_back
  then show ?thesis using sound_counters [OF assms(2)] by (simp add: apply_RolledBack_def)
next
  case abandon
  then show ?thesis by (auto simp: apply_Abandoned_def)
next
  case reserve
  then show ?thesis
    using sound_policy_zero [OF assms(2)] sound_unwitnessed [OF assms(2)]
    by (auto simp: apply_RetireStarted_def Let_def invalidReceipts_iff split: if_splits)
next
  case retire
  then show ?thesis by (simp add: apply_PreviousRetired_def invalidReceipts_iff)
next
  case conclude
  then show ?thesis by (simp add: apply_PreviousRetired_def)
next
  case set_policy
  then show ?thesis using sound_counters(5) [OF assms(2)]
    by (auto simp: apply_RetirementPolicySet_def split: if_splits)
qed


text \<open>Conversely, an event that leaves the fold unpoisoned was a legal transition.\<close>

lemma cases_guard:
  "(case p of PhaseNone \<Rightarrow> poison m s | PhaseUnknown n \<Rightarrow> poison m' s | _ \<Rightarrow> x)
   = (if p \<in> in_flight then x else if p = PhaseNone then poison m s else poison m' s)"
  by (cases p) (simp_all add: in_flight_def)

lemma ApplyTo_legal:
  assumes "sound s" "InvalidReason (ApplyTo e s) = ''''"
  shows "\<exists>s'. legal s e s'"
proof -
  note clean = assms(2)
  note phase = sound_phase [OF assms(1)]
  show ?thesis
  proof (cases e)
    case (RebuildInitiated a t p r w)
    have "a \<noteq> uuid_nil \<and> projection_Validate t = None \<and> at_Phase (Attempt s) = PhaseNone
      \<and> (st_Name s = '''' \<or> Name t = st_Name s) \<and> p = Live s \<and> Version t = wrap64 (Allocated s + 1)"
      using clean by (simp add: RebuildInitiated apply_RebuildInitiated_def Let_def clean_guard split: if_splits)
    moreover from this have "1 \<le> Version t" by (simp add: projection_Validate_iff)
    ultimately show ?thesis
      using sound_counters(1-3) [OF assms(1)] legal.admit [of a t s r w]
      by (auto simp: RebuildInitiated min_int64_def split: if_splits)
  next
    case (RunnerClaimed a r pos t w)
    have flight: "at_Phase (Attempt s) \<in> in_flight"
      using clean phase
      by (cases "a = uuid_nil"; cases "r = uuid_nil"; cases "at_Phase (Attempt s)")
        (simp_all add: RunnerClaimed apply_RunnerClaimed_def Let_def clean_guard poison_simps in_flight_def)
    then have "a \<noteq> uuid_nil \<and> r \<noteq> uuid_nil \<and> a = at_ID (Attempt s)
      \<and> (if standing s then to_Actor t \<noteq> '''' \<and> to_Reason t \<noteq> '''' else t = zero_takeover)"
      using clean
      by (cases "a = uuid_nil"; cases "r = uuid_nil"; cases "at_Phase (Attempt s)")
        (simp_all add: RunnerClaimed apply_RunnerClaimed_def Let_def clean_guard poison_simps in_flight_def
          standing_def split: if_splits, blast+)
    then show ?thesis
      using RunnerClaimed flight legal.claim [of s r t pos w] by (auto simp: in_flight_def)
  next
    case (RunnerReleased a r w)
    have flight: "at_Phase (Attempt s) \<in> in_flight"
      using clean phase
      by (cases "a = uuid_nil"; cases "r = uuid_nil"; cases "at_Phase (Attempt s)")
        (simp_all add: RunnerReleased apply_RunnerReleased_def Let_def clean_guard poison_simps in_flight_def)
    then have "a \<noteq> uuid_nil \<and> r \<noteq> uuid_nil \<and> a = at_ID (Attempt s) \<and> r = Runner (Attempt s)
      \<and> \<not> Released (Attempt s)"
      using clean
      by (cases "a = uuid_nil"; cases "r = uuid_nil"; cases "at_Phase (Attempt s)")
        (simp_all add: RunnerReleased apply_RunnerReleased_def Let_def clean_guard poison_simps in_flight_def
          standing_def split: if_splits)
    then show ?thesis
      using RunnerReleased flight legal.release [of s w] by (auto simp: in_flight_def standing_def)
  next
    case BuildStarted
    have "at_Phase (Attempt s) = PhaseCreated \<and> Runner (Attempt s) \<noteq> uuid_nil"
      using clean by (simp add: BuildStarted apply_BuildStarted_def Let_def clean_guard split: if_splits)
    then show ?thesis using BuildStarted legal.start by blast
  next
    case (CaughtUp p d w)
    have "at_Phase (Attempt s) \<in> {PhaseBuilding, PhaseCaughtUp}"
      using clean by (simp add: CaughtUp apply_CaughtUp_def Let_def clean_guard split: if_splits)
    then show ?thesis using CaughtUp legal.catch_up by blast
  next
    case (Promoted p n r g w)
    have "at_Phase (Attempt s) = PhaseCaughtUp \<and> p = Live s \<and> n = Target (Attempt s)
      \<and> CutoverRevision s \<noteq> max_int64 \<and> r = wrap64 (CutoverRevision s + 1) \<and> g = Generation (RetirementPolicy s)"
      using clean by (simp add: Promoted apply_Promoted_def Let_def clean_guard split: if_splits)
    then show ?thesis
      using Promoted sound_counters(4) [OF assms(1)] legal.promote [of s w] by auto
  next
    case (RolledBack f t r w)
    have "at_Phase (Attempt s) = PhasePromoted \<and> f = Live s \<and> Previous (Attempt s) \<noteq> zero_pid
      \<and> t = Previous (Attempt s) \<and> CutoverRevision s \<noteq> max_int64 \<and> r = wrap64 (CutoverRevision s + 1)"
      using clean by (simp add: RolledBack apply_RolledBack_def Let_def clean_guard split: if_splits)
    then show ?thesis
      using RolledBack sound_counters(4) [OF assms(1)] legal.roll_back [of s w] by auto
  next
    case (Abandoned c)
    have "at_Phase (Attempt s) \<in> {PhaseCreated, PhaseBuilding, PhaseCaughtUp}"
      using clean by (cases "at_Phase (Attempt s)") (simp_all add: Abandoned apply_Abandoned_def Let_def)
    then show ?thesis using Abandoned legal.abandon by blast
  next
    case (RetireStarted r g ws rs ov w)
    have "at_Phase (Attempt s) = PhasePromoted \<and> Previous (Attempt s) \<noteq> zero_pid
      \<and> r = Previous (Attempt s) \<and> g = Generation (RetirementPolicy s)
      \<and> (if ov \<noteq> zero_override
         then ov_Actor ov \<noteq> '''' \<and> ov_Reason ov \<noteq> '''' \<and> ws = [] \<and> rs = []
         else Generation (RetirementPolicy s) \<noteq> 0 \<and> ws = Witnesses (RetirementPolicy s)
           \<and> invalidReceipts rs ws \<lparr>co_Live = Live s, co_Revision = CutoverRevision s\<rparr> = None)"
      using clean sound_policy_zero [OF assms(1)] sound_unwitnessed [OF assms(1)]
      by (simp add: RetireStarted apply_RetireStarted_def Let_def clean_guard poison_simps
          split: if_splits) (auto simp: invalidReceipts_iff)
    then show ?thesis
      using RetireStarted legal.reserve [of s ov ws rs w] by (auto simp: invalidReceipts_iff split: if_splits)
  next
    case (PreviousRetired r rs)
    have "r = Previous (Attempt s) \<and> (at_Phase (Attempt s) = PhaseRetiring \<and> Previous (Attempt s) \<noteq> zero_pid
        \<and> invalidReceipts rs (RetiringWitnesses (Attempt s)) \<lparr>co_Live = Live s, co_Revision = CutoverRevision s\<rparr> = None
      \<or> at_Phase (Attempt s) = PhasePromoted \<and> Previous (Attempt s) = zero_pid \<and> rs = [])"
      using clean
      by (cases "at_Phase (Attempt s)"; cases "Previous (Attempt s) = zero_pid")
        (simp_all add: PreviousRetired apply_PreviousRetired_def Let_def clean_guard split: if_splits)
    then show ?thesis
      using PreviousRetired legal.retire [of s rs] legal.conclude [of s] by (auto simp: invalidReceipts_iff)
  next
    case (RetirementPolicySet g ws u r a w)
    have "st_Name s \<noteq> '''' \<and> Generation (RetirementPolicy s) < max_int64 - 1
      \<and> g = wrap64 (Generation (RetirementPolicy s) + 1) \<and> a \<noteq> '''' \<and> r \<noteq> ''''
      \<and> (if u then ws = [] else ws \<noteq> []) \<and> invalidWitnessSet ws = None"
      using clean
      by (simp add: RetirementPolicySet apply_RetirementPolicySet_def Let_def clean_guard split: if_splits) auto
    then show ?thesis
      using RetirementPolicySet sound_counters(5) [OF assms(1)] legal.set_policy [of s a r u ws w] by auto
  qed
qed


lemma legal_iff:
  assumes "sound s"
  shows "legal s e s' \<longleftrightarrow> InvalidReason (ApplyTo e s) = '''' \<and> s' = ApplyTo e s"
proof
  assume l: "legal s e s'"
  have "InvalidReason s' = ''''" using legal_sound [OF l assms] by (simp add: sound_def)
  then show "InvalidReason (ApplyTo e s) = '''' \<and> s' = ApplyTo e s"
    using legal_ApplyTo [OF l assms] by simp
next
  assume "InvalidReason (ApplyTo e s) = '''' \<and> s' = ApplyTo e s"
  then show "legal s e s'" using ApplyTo_legal [OF assms] legal_ApplyTo assms by fastforce
qed

text \<open>Histories of the machine, and the folds that observe no inconsistency.\<close>

inductive history :: "lifecycle_event list \<Rightarrow> state \<Rightarrow> bool" where
  history_start: "history [] (NewState uuid_nil)"
| history_step: "history es s \<Longrightarrow> legal s e s' \<Longrightarrow> history (es @ [e]) s'"

inductive_cases history_snocE: "history (es @ [e]) s"

lemma history_sound: "history es s \<Longrightarrow> sound s"
  by (induction rule: history.induct) (auto intro: sound_NewState legal_sound)

lemma fold_snoc: "lifecycle_fold (es @ [e]) = ApplyTo e (lifecycle_fold es)"
  by (simp add: lifecycle_fold_def)

lemma fold_Nil: "lifecycle_fold [] = NewState uuid_nil"
  by (simp add: lifecycle_fold_def)

lemma history_iff: "history es s \<longleftrightarrow> InvalidReason (lifecycle_fold es) = '''' \<and> s = lifecycle_fold es"
proof (induction es arbitrary: s rule: rev_induct)
  case Nil
  show ?case
    by (auto simp: fold_Nil NewState_def elim: history.cases intro: history_start [unfolded NewState_def])
next
  case (snoc e es)
  show ?case
  proof
    assume "history (es @ [e]) s"
    then obtain t where t: "history es t" "legal t e s" by (auto elim: history_snocE)
    then show "InvalidReason (lifecycle_fold (es @ [e])) = '''' \<and> s = lifecycle_fold (es @ [e])"
      using snoc.IH [of t] legal_iff [OF history_sound [OF t(1)]] by (simp add: fold_snoc)
  next
    assume clean: "InvalidReason (lifecycle_fold (es @ [e])) = '''' \<and> s = lifecycle_fold (es @ [e])"
    then have "InvalidReason (lifecycle_fold es) = ''''"
      using ApplyTo_poisoned [of "lifecycle_fold es" e] by (auto simp: fold_snoc)
    then have h: "history es (lifecycle_fold es)" using snoc.IH by simp
    then show "history (es @ [e]) s"
      using clean legal_iff [OF history_sound [OF h]] by (auto simp: fold_snoc intro: history_step)
  qed
qed

lemma clean_sound: "InvalidReason (lifecycle_fold es) = '''' \<Longrightarrow> sound (lifecycle_fold es)"
  using history_iff history_sound by blast

lemma clean_snoc:
  assumes "InvalidReason (lifecycle_fold (es @ [e])) = ''''"
  shows "InvalidReason (lifecycle_fold es) = ''''" "sound (lifecycle_fold es)"
    "legal (lifecycle_fold es) e (lifecycle_fold (es @ [e]))"
proof -
  show 1: "InvalidReason (lifecycle_fold es) = ''''"
    using assms ApplyTo_poisoned [of "lifecycle_fold es" e] by (auto simp: fold_snoc)
  show 2: "sound (lifecycle_fold es)" by (rule clean_sound [OF 1])
  show "legal (lifecycle_fold es) e (lifecycle_fold (es @ [e]))"
    using assms legal_iff [OF 2] by (simp add: fold_snoc)
qed

lemma clean_prefix: "InvalidReason (lifecycle_fold (es @ fs)) = '''' \<Longrightarrow> InvalidReason (lifecycle_fold es) = ''''"
  by (induction fs rule: rev_induct) (auto simp flip: append_assoc dest: clean_snoc(1))

lemma legal_named: "legal s e s' \<Longrightarrow> sound s \<Longrightarrow> st_Name s' \<noteq> ''''"
proof (induction rule: legal.induct)
  case (admit attempt tgt s reason w)
  then show ?case by (auto simp: projection_Validate_iff)
qed (auto dest: sound_named)

end
