(* ===== verification/LifecycleProps.thy ===== *)
theory LifecycleProps
  imports LifecycleSound
begin

text \<open>
  The lifecycle's guarantees over whole event streams: the fold refines the legal transitions, a
  fold is poisoned or passes validation, \<open>unreachableRest\<close> accepts exactly the rest states some
  history reaches, and what clean streams can record about versions, revisions, claims and
  retirements.
\<close>

section \<open>Poison and validation\<close>

text \<open>
  C3. The lifecycle fold refines the state machine \<open>legal\<close>: an event stream folds without poison
  exactly when it is a history of legal transitions from the empty state, and the fold is then the
  state that history reaches. Once a fold has observed an inconsistency, no continuation changes
  the recorded reason.
\<close>

theorem fold_refines_history:
  "(history es s \<longleftrightarrow> InvalidReason (lifecycle_fold es) = '''' \<and> s = lifecycle_fold es)
   \<and> (InvalidReason (lifecycle_fold es) = ''''
      \<or> InvalidReason (lifecycle_fold (es @ fs)) = InvalidReason (lifecycle_fold es))"
proof -
  have "InvalidReason (lifecycle_fold es) \<noteq> '''' \<Longrightarrow>
    InvalidReason (lifecycle_fold (es @ fs)) = InvalidReason (lifecycle_fold es)"
    by (induction fs rule: rev_induct)
      (simp_all add: fold_snoc ApplyTo_poisoned flip: append_assoc)
  then show ?thesis using history_iff by blast
qed

text \<open>
  C20. Validation is exact on folds. However malformed the events, the fold of a lifecycle stream
  passes \<open>validate\<close> if and only if it observed no inconsistency, so no legitimate stream is ever
  refused and every unpoisoned fold satisfies all the structural invariants the commands rely on;
  and a snapshot payload holding the fold of any stream with at least one event is accepted.
\<close>

theorem validate_exact_on_folds:
  "(validate (lifecycle_fold es) = None \<longleftrightarrow> InvalidReason (lifecycle_fold es) = '''')
   \<and> (ValidateSnapshotState (lifecycle_fold es) = None \<longleftrightarrow> es \<noteq> [])"
proof -
  have valid: "validate (lifecycle_fold es) = None \<longleftrightarrow> InvalidReason (lifecycle_fold es) = ''''"
    using sound_validate [OF clean_sound] by (auto simp: validate_def)
  have "st_Name (lifecycle_fold es) \<noteq> ''''" if clean: "InvalidReason (lifecycle_fold es) = ''''" and some: "es \<noteq> []"
  proof -
    obtain fs e where "es = fs @ [e]" using some by (cases es rule: rev_cases) auto
    then show ?thesis using clean clean_snoc legal_named by blast
  qed
  moreover have "st_Name (lifecycle_fold []) = '''' \<and> InvalidReason (lifecycle_fold []) = ''''"
    by (simp add: fold_Nil NewState_def)
  ultimately show ?thesis
    using valid by (auto simp: ValidateSnapshotState_def split: option.split)
qed

section \<open>Rest states\<close>

text \<open>The slot is vacant and the projection rests at version \<open>v\<close>, revision \<open>r\<close>, after \<open>k\<close> allocations.\<close>

definition at_rest :: "string \<Rightarrow> int \<Rightarrow> int \<Rightarrow> int \<Rightarrow> state \<Rightarrow> bool" where
  "at_rest n v r k s \<longleftrightarrow> Attempt s = zero_attempt \<and> (st_Name s = n \<or> k = 0 \<and> st_Name s = '''')
     \<and> Live s = (if v = 0 then zero_pid else \<lparr>Name = n, Version = v\<rparr>)
     \<and> CutoverRevision s = r \<and> Allocated s = k"

definition rests :: "string \<Rightarrow> int \<Rightarrow> int \<Rightarrow> int \<Rightarrow> bool" where
  "rests n v r k \<longleftrightarrow> (\<exists>es s. history es s \<and> at_rest n v r k s)"

text \<open>The events that move the read route; the constructions below add to them what they say.\<close>

definition flips :: "lifecycle_event list \<Rightarrow> lifecycle_event list" where
  "flips es = filter (\<lambda>e. case e of Promoted p n r g w \<Rightarrow> True | RolledBack f t r w \<Rightarrow> True | _ \<Rightarrow> False) es"

lemma flips_simps [simp]:
  "flips [] = []" "flips (es @ fs) = flips es @ flips fs"
  "flips (e # es) = (case e of Promoted p n r g w \<Rightarrow> e # flips es | RolledBack f t r w \<Rightarrow> e # flips es | _ \<Rightarrow> flips es)"
  by (cases e; simp add: flips_def)+

lemma rest_admit:
  assumes "history es s" "at_rest n v r k s" "valid_name n" "0 \<le> k" "k < max_int64"
  shows "\<exists>es' s'. history es' s' \<and> flips es' = flips es \<and> at_Phase (Attempt s') = PhaseCreated
    \<and> st_Name s' = n \<and> Live s' = Live s \<and> CutoverRevision s' = r \<and> Allocated s' = k + 1
    \<and> Previous (Attempt s') = Live s \<and> Target (Attempt s') = \<lparr>Name = n, Version = k + 1\<rparr>
    \<and> at_ID (Attempt s') = 1 \<and> \<not> standing s'"
proof -
  have "legal s (RebuildInitiated 1 \<lparr>Name = n, Version = k + 1\<rparr> (Live s) '''' 0)
    (s\<lparr>st_Name := n, Allocated := k + 1, Attempt := zero_attempt\<lparr>at_ID := 1,
       Target := \<lparr>Name = n, Version = k + 1\<rparr>, Previous := Live s, at_Phase := PhaseCreated,
       at_Reason := '''', InitiatedAt := 0\<rparr>\<rparr>)"
    using legal.admit [of 1 "\<lparr>Name = n, Version = k + 1\<rparr>" s "''''" 0] assms(2-5)
    by (auto simp: at_rest_def projection_Validate_iff uuid_nil_def)
  from history_step [OF assms(1) this] show ?thesis
    using assms(2) by (intro exI conjI) (assumption, auto simp: at_rest_def standing_def zero_attempt_def)
qed

lemma rest_promote:
  assumes "history es s" "at_rest n v r k s" "valid_name n" "0 \<le> k" "k < max_int64" "r < max_int64"
  shows "\<exists>es' s' g. history es' s' \<and> at_Phase (Attempt s') = PhasePromoted
    \<and> flips es' = flips es @ [Promoted (Live s) \<lparr>Name = n, Version = k + 1\<rparr> (r + 1) g 0]
    \<and> st_Name s' = n \<and> Live s' = \<lparr>Name = n, Version = k + 1\<rparr> \<and> CutoverRevision s' = r + 1
    \<and> Allocated s' = k + 1 \<and> Previous (Attempt s') = Live s"
proof -
  obtain es1 s1 where s1: "history es1 s1" "flips es1 = flips es" "at_Phase (Attempt s1) = PhaseCreated" "st_Name s1 = n"
      "Live s1 = Live s" "CutoverRevision s1 = r" "Allocated s1 = k + 1" "Previous (Attempt s1) = Live s"
      "Target (Attempt s1) = \<lparr>Name = n, Version = k + 1\<rparr>" "at_ID (Attempt s1) = 1" "\<not> standing s1"
    using rest_admit [OF assms(1-5)] by blast
  have one: "(1 :: uuid) \<noteq> uuid_nil" by (simp add: uuid_nil_def)
  let ?s2 = "s1\<lparr>Attempt := (Attempt s1)\<lparr>Runner := 1, ClaimedAt := 0, Released := False, ReleasedAt := 0\<rparr>\<rparr>"
  have "legal s1 (RunnerClaimed (at_ID (Attempt s1)) 1 0 zero_takeover 0) ?s2"
    using s1 one by (intro legal.claim) auto
  note h2 = history_step [OF s1(1) this]
  let ?s3 = "?s2\<lparr>Attempt := (Attempt ?s2)\<lparr>at_Phase := PhaseBuilding\<rparr>\<rparr>"
  have "legal ?s2 BuildStarted ?s3" using s1(3) one by (intro legal.start) auto
  note h3 = history_step [OF h2 this]
  let ?s4 = "?s3\<lparr>Attempt := (Attempt ?s3)\<lparr>at_Phase := PhaseCaughtUp, CaughtUpAt := 0, CaughtUpPos := 0\<rparr>\<rparr>"
  have "legal ?s3 (CaughtUp 0 0 0) ?s4" by (intro legal.catch_up) auto
  note h4 = history_step [OF h3 this]
  let ?s5 = "?s4\<lparr>Live := Target (Attempt ?s4), CutoverRevision := CutoverRevision ?s4 + 1,
    Attempt := (Attempt ?s4)\<lparr>at_Phase := PhasePromoted, PromotedAt := 0\<rparr>\<rparr>"
  have "legal ?s4 (Promoted (Live ?s4) (Target (Attempt ?s4)) (CutoverRevision ?s4 + 1)
      (Generation (RetirementPolicy ?s4)) 0) ?s5"
    using s1(6) assms(6) by (intro legal.promote) auto
  from history_step [OF h4 this] show ?thesis
    using s1 by (intro exI conjI) (assumption, auto)
qed

lemma rest_abandon:
  assumes "history es s" "at_rest n v r k s" "valid_name n" "0 \<le> k" "k < max_int64"
  shows "\<exists>es' s'. history es' s' \<and> flips es' = flips es \<and> at_rest n v r (k + 1) s'"
proof -
  obtain es1 s1 where s1: "history es1 s1" "flips es1 = flips es" "at_Phase (Attempt s1) = PhaseCreated"
      "st_Name s1 = n" "Live s1 = Live s" "CutoverRevision s1 = r" "Allocated s1 = k + 1"
    using rest_admit [OF assms] by blast
  have "legal s1 (Abandoned '''') (s1\<lparr>Attempt := zero_attempt\<rparr>)"
    using s1(3) by (intro legal.abandon) simp
  from history_step [OF s1(1) this] show ?thesis
    using s1 assms(2) unfolding at_rest_def by (intro exI conjI) (assumption, auto)
qed

lemma rests_abandon:
  assumes "rests n v r k" "valid_name n" "0 \<le> k" "k < max_int64"
  shows "rests n v r (k + 1)"
  using assms rest_abandon unfolding rests_def by blast

text \<open>A promoted attempt can always be concluded, here by an overridden retirement.\<close>

lemma rest_vacate:
  assumes "history es s" "at_Phase (Attempt s) = PhasePromoted"
  shows "\<exists>es'. history es' (s\<lparr>Attempt := zero_attempt\<rparr>) \<and> flips es' = flips es"
proof (cases "Previous (Attempt s) = zero_pid")
  case True
  from history_step [OF assms(1) legal.conclude [OF assms(2) True]] show ?thesis by fastforce
next
  case False
  let ?ov = "\<lparr>ov_Actor = ''a'', ov_Reason = ''r''\<rparr>"
  let ?s2 = "s\<lparr>Attempt := (Attempt s)\<lparr>at_Phase := PhaseRetiring, RetiringAt := 0, RetiringWitnesses := []\<rparr>\<rparr>"
  have "legal s (RetireStarted (Previous (Attempt s)) (Generation (RetirementPolicy s)) [] [] ?ov 0) ?s2"
    using assms(2) False by (intro legal.reserve) (auto simp: zero_override_def)
  note h2 = history_step [OF assms(1) this]
  have "legal ?s2 (PreviousRetired (Previous (Attempt ?s2)) []) (?s2\<lparr>Attempt := zero_attempt\<rparr>)"
    using False by (intro legal.retire) auto
  from history_step [OF h2 this] show ?thesis by (intro exI conjI) (simp, simp)
qed

lemma rests_pair:
  assumes "rests n v r k" "valid_name n" "1 \<le> k" "k < max_int64" "v \<noteq> 0" "r + 1 < max_int64"
  shows "rests n v (r + 2) (k + 1)"
proof -
  obtain es s where s: "history es s" "at_rest n v r k s" using assms(1) by (auto simp: rests_def)
  obtain es1 s1 where s1: "history es1 s1" "at_Phase (Attempt s1) = PhasePromoted" "st_Name s1 = n"
      "CutoverRevision s1 = r + 1" "Allocated s1 = k + 1" "Previous (Attempt s1) = Live s"
    using rest_promote [OF s assms(2)] assms(3,4,6) by auto
  have live: "Live s = \<lparr>Name = n, Version = v\<rparr>" using s(2) assms(5) by (simp add: at_rest_def)
  have "legal s1 (RolledBack (Live s1) (Previous (Attempt s1)) (CutoverRevision s1 + 1) 0)
    (s1\<lparr>Live := Previous (Attempt s1), CutoverRevision := CutoverRevision s1 + 1, Attempt := zero_attempt\<rparr>)"
    using s1 live assms(5,6) by (intro legal.roll_back) (auto simp: zero_pid_def)
  from history_step [OF s1(1) this] show ?thesis
    using s1 live assms(5) unfolding rests_def at_rest_def by (intro exI conjI) (assumption, auto)
qed

lemma rests_complete:
  assumes "rests n v r k" "valid_name n" "0 \<le> k" "k < max_int64" "r < max_int64"
  shows "rests n (k + 1) (r + 1) (k + 1)"
proof -
  obtain es s where s: "history es s" "at_rest n v r k s" using assms(1) by (auto simp: rests_def)
  obtain es1 s1 where s1: "history es1 s1" "at_Phase (Attempt s1) = PhasePromoted" "st_Name s1 = n"
      "Live s1 = \<lparr>Name = n, Version = k + 1\<rparr>"
      "CutoverRevision s1 = r + 1" "Allocated s1 = k + 1"
    using rest_promote [OF s assms(2-5)] by blast
  obtain es2 where "history es2 (s1\<lparr>Attempt := zero_attempt\<rparr>)" using rest_vacate [OF s1(1,2)] by blast
  then show ?thesis
    using s1 assms(3) unfolding rests_def at_rest_def by (intro exI conjI) (assumption, auto)
qed

text \<open>A rest state over one more allocation arises from an abandoned, a rolled back or a concluded one.\<close>

lemma rest_ok_step:
  assumes "rest_ok v r (k + 1)" "0 \<le> v" "v \<le> k + 1" "0 \<le> k"
  shows "v \<le> k \<and> rest_ok v r k \<or> 1 \<le> v \<and> v \<le> k \<and> rest_ok v (r - 2) k \<and> 1 \<le> k
    \<or> v = k + 1 \<and> (\<exists>u. 0 \<le> u \<and> u \<le> k \<and> rest_ok u (r - 1) k)"
proof -
  consider "v = 0" | "v = 1" "k = 0" | "v = 1" "1 \<le> k" | "1 < v" "v \<le> k" | "1 < v" "v = k + 1" "r = 1"
    | "1 < v" "v = k + 1" "r \<noteq> 1" "odd (r - 1)" | "1 < v" "v = k + 1" "r \<noteq> 1" "even (r - 1)"
    using assms(2-4) by atomize_elim presburger
  then show ?thesis
  proof cases
    case 1
    then show ?thesis using assms by (simp add: rest_ok_def)
  next
    case 2
    then have "r = 1" using assms by (simp add: rest_ok_def)
    then have "rest_ok 0 (r - 1) k" by (simp add: rest_ok_def)
    then show ?thesis using 2 by fastforce
  next
    case 3
    then have "odd r \<and> 1 \<le> r \<and> r \<le> 2 * k + 1" using assms by (simp add: rest_ok_def)
    then show ?thesis using 3 by (cases "r \<le> 2 * k - 1") (auto simp: rest_ok_def elim!: oddE)
  next
    case 4
    then have "1 \<le> r \<and> r \<le> 2 * k" using assms by (simp add: rest_ok_def)
    then show ?thesis using 4 by (cases "r \<le> 2 * k - 2") (auto simp: rest_ok_def)
  next
    case 5
    then have "rest_ok 0 (r - 1) k" by (simp add: rest_ok_def)
    then show ?thesis using 5 assms(4) by blast
  next
    case 6
    then have "1 \<le> r \<and> r \<le> 2 * k" using assms by (simp add: rest_ok_def)
    then have "rest_ok 1 (r - 1) k" using 6 by (auto simp: rest_ok_def)
    moreover have "1 \<le> k" using 6 by simp
    ultimately show ?thesis using 6 by force
  next
    case 7
    then have "1 \<le> r \<and> r \<le> 2 * k" using assms by (simp add: rest_ok_def)
    moreover from 7 obtain j where "r = 2 * j + 1" by (auto elim!: oddE)
    ultimately have "2 \<le> r - 1 \<and> r - 1 \<le> 2 * k - 2" using 7(3) by presburger
    then have "rest_ok k (r - 1) k" using 7 by (auto simp: rest_ok_def)
    then show ?thesis using 7 assms(4) by blast
  qed
qed

lemma rests_all:
  "rest_ok v r (int k) \<Longrightarrow> 0 \<le> v \<Longrightarrow> v \<le> int k \<Longrightarrow> valid_name n \<Longrightarrow> int k \<le> max_int64 \<Longrightarrow> r \<le> max_int64
   \<Longrightarrow> rests n v r (int k)"
proof (induction k arbitrary: v r)
  case 0
  then have "at_rest n v r 0 (NewState uuid_nil)"
    by (simp add: at_rest_def NewState_def rest_ok_def)
  then show ?case unfolding rests_def using history_start by auto
next
  case (Suc k)
  have k: "0 \<le> int k" "int k < max_int64" and suc: "int (Suc k) = int k + 1" using Suc.prems by auto
  consider (abandon) "v \<le> int k" "rest_ok v r (int k)"
    | (pair) "1 \<le> v" "v \<le> int k" "rest_ok v (r - 2) (int k)" "1 \<le> int k"
    | (complete) u where "v = int k + 1" "0 \<le> u" "u \<le> int k" "rest_ok u (r - 1) (int k)"
    using rest_ok_step [of v r "int k"] Suc.prems(1,2,3) suc k(1) by metis
  then show ?case
  proof cases
    case abandon
    then show ?thesis using Suc.IH [of v r] Suc.prems rests_abandon [of n v r "int k"] k unfolding suc by simp
  next
    case pair
    then have "rests n v (r - 2) (int k)" using Suc.IH [of v "r - 2"] Suc.prems by simp
    then show ?thesis using rests_pair [of n v "r - 2" "int k"] pair Suc.prems k unfolding suc by simp
  next
    case (complete u)
    then have "rests n u (r - 1) (int k)" using Suc.IH [of u "r - 1"] Suc.prems by simp
    then show ?thesis using rests_complete [of n u "r - 1" "int k"] complete Suc.prems k unfolding suc by simp
  qed
qed


lemma at_rest_unreachable:
  assumes "history es s" "at_rest n v r k s" "0 \<le> v" "v \<le> k"
  shows "rest_ok v r k"
proof (cases "st_Name s = ''''")
  case True
  then have "s = NewState uuid_nil" using history_sound [OF assms(1)] by (simp add: sound_def)
  then show ?thesis using assms(2) by (auto simp: at_rest_def NewState_def rest_ok_def zero_pid_def split: if_splits)
next
  case False
  have "\<not> cut_over s" "completed s = k" using assms(2) by (auto simp: at_rest_def cut_over_def completed_def)
  then show ?thesis
    using False history_sound [OF assms(1)] assms(2)
    by (auto simp: sound_def at_rest_def rest_live_def rest_revision_def split: if_splits)
qed

text \<open>
  C22. \<open>unreachableRest\<close> is exact: for a projection name, a live version (none, or one the projection
  allocated), a revision and a number of completed allocations, the check accepts exactly when some
  unpoisoned lifecycle stream comes to rest there, its slot vacant. The check therefore neither
  refuses a reachable cutover history nor admits one no sequence of events produces.
\<close>

theorem unreachableRest_exact:
  assumes "valid_name n" "0 \<le> v" "v \<le> k" "k \<le> max_int64" "r \<le> max_int64"
  shows "unreachableRest (if v = 0 then zero_pid else \<lparr>Name = n, Version = v\<rparr>) r k = None
    \<longleftrightarrow> (\<exists>es. InvalidReason (lifecycle_fold es) = '''' \<and> at_rest n v r k (lifecycle_fold es))"
proof -
  let ?live = "if v = 0 then zero_pid else \<lparr>Name = n, Version = v\<rparr>"
  have "unreachableRest ?live r k = None \<longleftrightarrow> rest_ok v r k"
    using unreachableRest_iff [of ?live k r] assms(2-4) by (auto simp: zero_pid_def)
  moreover have "rest_ok v r k \<longleftrightarrow> rests n v r k"
    using rests_all [of v r "nat k" n] at_rest_unreachable assms by (auto simp: rests_def)
  ultimately show ?thesis by (auto simp: rests_def history_iff)
qed

lemma unreachableRest_exact_witness:
  "(\<exists>es. InvalidReason (lifecycle_fold es) = '''' \<and> at_rest ''orders'' 3 4 3 (lifecycle_fold es))
   \<and> (\<nexists>es. InvalidReason (lifecycle_fold es) = '''' \<and> at_rest ''orders'' 3 5 3 (lifecycle_fold es))"
proof -
  have n: "valid_name ''orders''"
    by (simp add: valid_name_def projection_Validate_def MaxNameLength_def is_lower_def is_digit_def
        less_eq_char_def)
  have "unreachableRest \<lparr>Name = ''orders'', Version = 3\<rparr> 4 3 = None"
    "unreachableRest \<lparr>Name = ''orders'', Version = 3\<rparr> 5 3 \<noteq> None"
    by (simp_all add: unreachableRest_def zero_pid_def wrap64_def)
  moreover have "(3 :: int) \<le> max_int64" "(4 :: int) \<le> max_int64" "(5 :: int) \<le> max_int64"
    by (simp_all add: max_int64_def)
  ultimately show ?thesis
    using unreachableRest_exact [OF n, of 3 3 4] unreachableRest_exact [OF n, of 3 3 5] by auto
qed


section \<open>What a stream records\<close>

definition admitted :: "lifecycle_event list \<Rightarrow> projection_id list" where
  "admitted es = List.map_filter (\<lambda>e. case e of RebuildInitiated a t p r w \<Rightarrow> Some t | _ \<Rightarrow> None) es"

definition cutovers :: "lifecycle_event list \<Rightarrow> cutover list" where
  "cutovers es = List.map_filter (\<lambda>e. case e of
      Promoted p n r g w \<Rightarrow> Some \<lparr>co_Live = n, co_Revision = r\<rparr>
    | RolledBack f t r w \<Rightarrow> Some \<lparr>co_Live = t, co_Revision = r\<rparr> | _ \<Rightarrow> None) es"

definition generations :: "lifecycle_event list \<Rightarrow> int64 list" where
  "generations es = List.map_filter (\<lambda>e. case e of RetirementPolicySet g ws u r a w \<Rightarrow> Some g | _ \<Rightarrow> None) es"

lemma recorded_Nil [simp]: "admitted [] = []" "cutovers [] = []" "generations [] = []"
  by (simp_all add: admitted_def cutovers_def generations_def map_filter_simps)

lemma recorded_snoc:
  "admitted (es @ [e]) = admitted es @ (case e of RebuildInitiated a t p r w \<Rightarrow> [t] | _ \<Rightarrow> [])"
  "cutovers (es @ [e]) = cutovers es @ (case e of
      Promoted p n r g w \<Rightarrow> [\<lparr>co_Live = n, co_Revision = r\<rparr>]
    | RolledBack f t r w \<Rightarrow> [\<lparr>co_Live = t, co_Revision = r\<rparr>] | _ \<Rightarrow> [])"
  "generations (es @ [e]) = generations es @ (case e of RetirementPolicySet g ws u r a w \<Rightarrow> [g] | _ \<Rightarrow> [])"
  by (cases e; simp add: admitted_def cutovers_def generations_def map_filter_def)+

lemma upto_snoc: "1 \<le> k + 1 \<Longrightarrow> [1..k + 1] = [1..k] @ [k + 1 :: int]"
  by (simp add: upto_rec2)

text \<open>The record a sound state keeps of its stream.\<close>

definition recorded :: "lifecycle_event list \<Rightarrow> state \<Rightarrow> bool" where
  "recorded es s \<longleftrightarrow> admitted es = map (\<lambda>v. \<lparr>Name = st_Name s, Version = v\<rparr>) [1..Allocated s]
     \<and> map co_Revision (cutovers es) = [1..CutoverRevision s]
     \<and> Live s = (if cutovers es = [] then zero_pid else co_Live (last (cutovers es)))
     \<and> generations es = [1..Generation (RetirementPolicy s)]"

lemma sound_nonneg:
  assumes "sound s"
  shows "0 \<le> Allocated s" "0 \<le> CutoverRevision s" "0 \<le> Generation (RetirementPolicy s)"
proof -
  have "0 \<le> Allocated s \<and> 0 \<le> CutoverRevision s \<and> 0 \<le> Generation (RetirementPolicy s)"
    using assms sound_live [OF assms]
    by (cases "st_Name s = ''''")
      (auto simp: sound_def NewState_def policy_ok_def zero_policy_def split: if_splits)
  then show "0 \<le> Allocated s" "0 \<le> CutoverRevision s" "0 \<le> Generation (RetirementPolicy s)" by auto
qed

lemma legal_recorded:
  assumes "legal s e s'" "sound s" "recorded es s"
  shows "recorded (es @ [e]) s'"
  using assms(1)
proof cases
  case (admit attempt tgt reason w)
  have "[1..Allocated s] = []" if "st_Name s = ''''"
    using that assms(2) by (simp add: sound_def NewState_def)
  moreover have "tgt = \<lparr>Name = Name tgt, Version = Allocated s + 1\<rparr>" using admit by (cases tgt) simp
  ultimately show ?thesis
    using admit assms(3) sound_nonneg [OF assms(2)]
    by (auto simp: recorded_def recorded_snoc upto_snoc)
qed (use assms(3) sound_nonneg [OF assms(2)] in \<open>auto simp: recorded_def recorded_snoc upto_snoc\<close>)

lemma history_recorded: "history es s \<Longrightarrow> recorded es s"
proof (induction rule: history.induct)
  case history_start
  then show ?case by (simp add: recorded_def NewState_def zero_policy_def)
qed (auto intro: legal_recorded history_sound)

text \<open>
  The ledger is dense and never reuses a number. An unpoisoned lifecycle stream admits exactly
  the versions 1, 2, ..., \<open>Allocated\<close> of its projection, in that order, whatever became of
  each build; its cutovers carry exactly the revisions 1, 2, ..., \<open>CutoverRevision\<close>, the last of
  them naming the live version; and its policy transitions carry exactly the generations
  1, 2, ..., \<open>Generation\<close>.
\<close>

theorem ledger_dense:
  assumes "InvalidReason (lifecycle_fold es) = ''''"
  shows "let s = lifecycle_fold es in
      admitted es = map (\<lambda>v. \<lparr>Name = st_Name s, Version = v\<rparr>) [1..Allocated s]
    \<and> map co_Revision (cutovers es) = [1..CutoverRevision s]
    \<and> Live s = (if cutovers es = [] then zero_pid else co_Live (last (cutovers es)))
    \<and> generations es = [1..Generation (RetirementPolicy s)]"
  using history_recorded assms by (auto simp: history_iff recorded_def Let_def)


text \<open>A stream with a first rebuild, a witnessed policy, and a second rebuild that retires the first.\<close>

definition orders :: "int \<Rightarrow> projection_id" where
  "orders v = \<lparr>Name = ''orders'', Version = v\<rparr>"

definition demo_receipt :: witness_receipt where
  "demo_receipt = \<lparr>rc_Witness = ''router'', rc_Cutover = \<lparr>co_Live = orders 2, co_Revision = 2\<rparr>\<rparr>"

definition demo_first :: "lifecycle_event list" where
  "demo_first = [RebuildInitiated 1 (orders 1) zero_pid ''first'' 10, RunnerClaimed 1 7 0 zero_takeover 11,
     BuildStarted, CaughtUp 5 1 12, Promoted zero_pid (orders 1) 1 0 13, PreviousRetired zero_pid [],
     RetirementPolicySet 1 [''router''] False ''safety'' ''ops'' 14]"

definition demo_second :: "lifecycle_event list" where
  "demo_second = [BuildStarted, CaughtUp 9 1 19,
     Promoted (orders 1) (orders 2) 2 1 20,
     RetireStarted (orders 1) 1 [''router''] [demo_receipt] zero_override 21]"

definition demo_stream :: "lifecycle_event list" where
  "demo_stream = demo_first @ [RebuildInitiated 2 (orders 2) (orders 1) ''second'' 15]
     @ [RunnerClaimed 2 7 0 zero_takeover 16] @ [RunnerReleased 2 7 17]
     @ [RunnerClaimed 2 8 0 zero_takeover 18] @ demo_second @ [PreviousRetired (orders 1) [demo_receipt]]"

lemma demo_clean: "InvalidReason (lifecycle_fold demo_stream) = ''''"
  by code_simp


lemma ledger_dense_witness:
  "admitted demo_stream = map orders [1..2]
   \<and> map co_Revision (cutovers demo_stream) = [1..2] \<and> generations demo_stream = [1..1]"
proof -
  have "st_Name (lifecycle_fold demo_stream) = ''orders''" "Allocated (lifecycle_fold demo_stream) = 2"
    "CutoverRevision (lifecycle_fold demo_stream) = 2"
    "Generation (RetirementPolicy (lifecycle_fold demo_stream)) = 1"
    by code_simp+
  then show ?thesis
    using ledger_dense [OF demo_clean] by (simp add: Let_def orders_def)
qed

section \<open>Runner claims\<close>

text \<open>The runner of attempt \<open>a\<close> is \<open>r\<close>, standing unless the events \<open>gs\<close> released it.\<close>

definition claimed_by :: "uuid \<Rightarrow> uuid \<Rightarrow> lifecycle_event list \<Rightarrow> state \<Rightarrow> bool" where
  "claimed_by a r gs s \<longleftrightarrow> at_Phase (Attempt s) = PhaseNone
     \<or> at_ID (Attempt s) = a \<and> Runner (Attempt s) = r
       \<and> (Released (Attempt s) \<longrightarrow> (\<exists>w. RunnerReleased a r w \<in> set gs))"

fun takes_slot :: "lifecycle_event \<Rightarrow> bool" where
  "takes_slot (RebuildInitiated a t p r w) = True"
| "takes_slot (RunnerClaimed a r p t w) = True"
| "takes_slot _ = False"

lemma legal_claimed_by:
  assumes "legal s e s'" "\<not> takes_slot e" "claimed_by a r gs s"
  shows "claimed_by a r (gs @ [e]) s'"
  using assms by cases (auto simp: claimed_by_def)

lemma clean_claimed_by:
  assumes "InvalidReason (lifecycle_fold (es @ [RunnerClaimed a r p t w] @ gs)) = ''''"
    and "\<forall>e \<in> set gs. \<not> takes_slot e"
  shows "claimed_by a r gs (lifecycle_fold (es @ [RunnerClaimed a r p t w] @ gs)) \<and> r \<noteq> uuid_nil"
  using assms
proof (induction gs rule: rev_induct)
  case Nil
  then have "legal (lifecycle_fold es) (RunnerClaimed a r p t w) (lifecycle_fold (es @ [RunnerClaimed a r p t w]))"
    using clean_snoc(3) by simp
  then show ?case by cases (auto simp: claimed_by_def)
next
  case (snoc e gs)
  have app: "es @ [RunnerClaimed a r p t w] @ gs @ [e] = (es @ [RunnerClaimed a r p t w] @ gs) @ [e]" by simp
  note last = clean_snoc [OF snoc.prems(1) [unfolded app]]
  show ?case
    using snoc.IH [OF last(1)] legal_claimed_by [OF last(3)] snoc.prems(2) unfolding app by auto
qed

text \<open>
  No runner takes an attempt over silently. In an unpoisoned stream, when two claims follow each
  other with no other claim and no admission in between, and the second carries no attested
  takeover, both claim the same attempt and the first claimant released it in between: its
  processor had exited before another could start.
\<close>

theorem transparent_claim_follows_release:
  assumes "InvalidReason (lifecycle_fold (es @ [RunnerClaimed a r p t w] @ gs
      @ [RunnerClaimed a' r' p' zero_takeover w'])) = ''''"
    and "\<forall>e \<in> set gs. \<not> takes_slot e"
  shows "a' = a \<and> (\<exists>w''. RunnerReleased a r w'' \<in> set gs)"
proof -
  have app: "es @ [RunnerClaimed a r p t w] @ gs @ [RunnerClaimed a' r' p' zero_takeover w']
    = (es @ [RunnerClaimed a r p t w] @ gs) @ [RunnerClaimed a' r' p' zero_takeover w']" by simp
  note last = clean_snoc [OF assms(1) [unfolded app]]
  have "claimed_by a r gs (lifecycle_fold (es @ [RunnerClaimed a r p t w] @ gs)) \<and> r \<noteq> uuid_nil"
    by (rule clean_claimed_by [OF last(1) assms(2)])
  with last(3) show ?thesis
    by cases (auto simp: claimed_by_def standing_def zero_takeover_def split: if_splits)
qed

lemma transparent_claim_follows_release_witness:
  "\<exists>w''. RunnerReleased 2 7 w'' \<in> set [RunnerReleased 2 7 17]"
proof -
  let ?es = "demo_first @ [RebuildInitiated 2 (orders 2) (orders 1) ''second'' 15]"
  have "InvalidReason (lifecycle_fold ((?es @ [RunnerClaimed 2 7 0 zero_takeover 16] @ [RunnerReleased 2 7 17]
      @ [RunnerClaimed 2 8 0 zero_takeover 18]) @ demo_second @ [PreviousRetired (orders 1) [demo_receipt]])) = ''''"
    using demo_clean by (simp add: demo_stream_def)
  from transparent_claim_follows_release [OF clean_prefix [OF this]] show ?thesis by simp
qed

section \<open>Retirement\<close>

definition gone :: "projection_id \<Rightarrow> state \<Rightarrow> bool" where
  "gone r s \<longleftrightarrow> r \<noteq> zero_pid \<and> Version r \<le> Allocated s \<and> Live s \<noteq> r
     \<and> Target (Attempt s) \<noteq> r \<and> Previous (Attempt s) \<noteq> r"

lemma legal_gone: "legal s e s' \<Longrightarrow> gone r s \<Longrightarrow> gone r s'"
  by (induction rule: legal.induct) (auto simp: gone_def zero_attempt_def)

lemma retire_gone:
  assumes "legal s (PreviousRetired r rs) s'" "sound s" "r \<noteq> zero_pid"
  shows "gone r s' \<and> Live s \<noteq> r \<and> r = Previous (Attempt s)
    \<and> rs = map (\<lambda>x. \<lparr>rc_Witness = x, rc_Cutover = \<lparr>co_Live = Live s, co_Revision = CutoverRevision s\<rparr>\<rparr>)
        (RetiringWitnesses (Attempt s))"
  using assms(1)
proof cases
  case retire
  have "attempt_ok s" using attempt_ok_occupied(1) [OF assms(2)] retire by simp
  then have "version_of (st_Name s) r (Allocated s - 1)" "Live s = Target (Attempt s)"
      "Version (Target (Attempt s)) = Allocated s"
    using retire by (simp_all add: attempt_ok_def Let_def)
  then show ?thesis using retire assms(3) by (auto simp: gone_def version_of_def zero_attempt_def)
qed (use assms(3) in simp)

text \<open>
  C38. A retired version never serves reads again. When an unpoisoned stream retires a version, the
  version was the reserved previous one, every witness the reservation captured attested in order
  to serving exactly the live cutover of that moment, the live version is another one; and in every
  unpoisoned continuation the retired version is neither live nor the target or rollback target of
  any attempt.
\<close>

theorem retired_version_never_serves:
  assumes "InvalidReason (lifecycle_fold (es @ [PreviousRetired r rs] @ fs)) = ''''" "r \<noteq> zero_pid"
  shows "let s = lifecycle_fold es; s' = lifecycle_fold (es @ [PreviousRetired r rs] @ fs) in
      r = Previous (Attempt s) \<and> Live s \<noteq> r
    \<and> rs = map (\<lambda>x. \<lparr>rc_Witness = x, rc_Cutover = \<lparr>co_Live = Live s, co_Revision = CutoverRevision s\<rparr>\<rparr>)
        (RetiringWitnesses (Attempt s))
    \<and> Live s' \<noteq> r \<and> Target (Attempt s') \<noteq> r \<and> Previous (Attempt s') \<noteq> r"
proof -
  have step: "InvalidReason (lifecycle_fold (es @ [PreviousRetired r rs])) = ''''"
    using assms(1) clean_prefix [of "es @ [PreviousRetired r rs]" fs] by simp
  have start: "gone r (lifecycle_fold (es @ [PreviousRetired r rs]))"
    and facts: "Live (lifecycle_fold es) \<noteq> r" "r = Previous (Attempt (lifecycle_fold es))"
      "rs = map (\<lambda>x. \<lparr>rc_Witness = x, rc_Cutover = \<lparr>co_Live = Live (lifecycle_fold es),
        co_Revision = CutoverRevision (lifecycle_fold es)\<rparr>\<rparr>) (RetiringWitnesses (Attempt (lifecycle_fold es)))"
    using retire_gone [OF clean_snoc(3) [OF step] clean_snoc(2) [OF step] assms(2)] by blast+
  have "gone r (lifecycle_fold (es @ [PreviousRetired r rs] @ fs))"
    using assms(1)
  proof (induction fs rule: rev_induct)
    case (snoc e fs)
    have app: "es @ [PreviousRetired r rs] @ fs @ [e] = (es @ [PreviousRetired r rs] @ fs) @ [e]" by simp
    show ?case
      using snoc legal_gone clean_snoc [OF snoc.prems [unfolded app]] unfolding app by blast
  qed (use start in simp)
  then show ?thesis using facts by (simp add: gone_def Let_def)
qed

lemma retired_version_never_serves_witness:
  "Live (lifecycle_fold demo_stream) \<noteq> orders 1"
proof -
  let ?es = "butlast demo_stream"
  have all: "?es @ [PreviousRetired (orders 1) [demo_receipt]] @ [] = demo_stream"
    by (simp add: demo_stream_def butlast_append)
  have "orders 1 \<noteq> zero_pid" by (simp add: orders_def zero_pid_def)
  with retired_version_never_serves [of ?es "orders 1" "[demo_receipt]" "[]"] demo_clean
  show ?thesis unfolding all Let_def by blast
qed

end
