(* ===== verification/GlobalReader.thy ===== *)
theory GlobalReader
  imports StoreContract Cancellation
begin

text \<open>
  The contract of a \<open>GlobalReader\<close> (\<open>eventstore/event_store.go\<close>), which the processor, the stream
  router and the cutover worker read through, and a caller's context. The locale \<open>global_reader\<close>
  says what a reader may yield, failures included; \<open>healthy_reader\<close> adds that it does not fail.
  The in-memory store provides both.
\<close>

section \<open>Contexts\<close>

text \<open>
  A context is the sequence of answers its \<open>Err\<close> gives, consultation by consultation; code that
  holds one carries the number of consultations so far. A context that has ended stays ended.
\<close>

type_synonym go_context = "nat \<Rightarrow> sentinel option"

definition background :: go_context where
  "background n = None"

definition ends_for_good :: "go_context \<Rightarrow> bool" where
  "ends_for_good ctx \<longleftrightarrow> (\<forall>n c. ctx n = Some c \<longrightarrow> ctx (Suc n) = Some c)"

section \<open>What an iterator may yield\<close>

text \<open>
  An event reaches the consumer as a possibly nil pointer. An iterator is faithful to a list when
  what it yields, up to its first error, is an initial part of the list, and it only reports the
  end of the stream once the list is exhausted.
\<close>

fun faithful_upto :: "('i \<Rightarrow> event option result \<times> 'i) \<Rightarrow> nat \<Rightarrow> 'i \<Rightarrow> event list \<Rightarrow> bool" where
  "faithful_upto nxt 0 it es = True"
| "faithful_upto nxt (Suc n) it es = (case nxt it of
     (Inr e, it') \<Rightarrow> es \<noteq> [] \<and> e = Some (hd es) \<and> faithful_upto nxt n it' (tl es)
   | (Inl err, it') \<Rightarrow> errorLeavesMatch err [ErrEndOfEventStream] \<longrightarrow> es = [])"

definition faithful :: "('i \<Rightarrow> event option result \<times> 'i) \<Rightarrow> 'i \<Rightarrow> event list \<Rightarrow> bool" where
  "faithful nxt it es \<longleftrightarrow> (\<forall>n. faithful_upto nxt n it es)"

lemma faithful_yield:
  assumes "faithful nxt it es" "nxt it = (Inr e, it')"
  shows "es \<noteq> [] \<and> e = Some (hd es) \<and> faithful nxt it' (tl es)"
proof -
  have step: "es \<noteq> [] \<and> e = Some (hd es) \<and> faithful_upto nxt n it' (tl es)" for n
    using assms spec [of "\<lambda>n. faithful_upto nxt n it es" "Suc n"] by (simp add: faithful_def)
  then show ?thesis using step [of 0] by (simp add: faithful_def)
qed

lemma faithful_end:
  assumes "faithful nxt it es" "nxt it = (Inl err, it')" "errorLeavesMatch err [ErrEndOfEventStream]"
  shows "es = []"
  using assms spec [of "\<lambda>n. faithful_upto nxt n it es" "Suc 0"] by (simp add: faithful_def)

text \<open>An iterator that delivers a list yields all of it, then its end, and closes cleanly at any point.\<close>

fun delivers ::
  "('i \<Rightarrow> event option result \<times> 'i) \<Rightarrow> ('i \<Rightarrow> go_error option) \<Rightarrow> 'i \<Rightarrow> event list \<Rightarrow> bool" where
  "delivers nxt closeIter it [] = (closeIter it = None \<and>
     (case nxt it of (r, it') \<Rightarrow> r = Inl (Sentinel ErrEndOfEventStream) \<and> closeIter it' = None))"
| "delivers nxt closeIter it (e # es) = (closeIter it = None \<and>
     (case nxt it of (r, it') \<Rightarrow> r = Inr (Some e) \<and> delivers nxt closeIter it' es))"

lemma delivers_faithful_upto: "delivers nxt closeIter it es \<Longrightarrow> faithful_upto nxt n it es"
proof (induction n arbitrary: it es)
  case (Suc n)
  then show ?case by (cases es) (auto split: prod.splits)
qed simp

lemma delivers_faithful: "delivers nxt closeIter it es \<Longrightarrow> faithful nxt it es"
  by (simp add: faithful_def delivers_faithful_upto)

section \<open>The contract\<close>

definition event_position :: "event \<Rightarrow> int64" where
  "event_position e = the (ev_GlobalPosition e)"

definition log_ordered :: "event list \<Rightarrow> bool" where
  "log_ordered es \<longleftrightarrow> sorted_wrt (\<lambda>a b. event_position a < event_position b) es
     \<and> list_all (\<lambda>e. ev_GlobalPosition e \<noteq> None \<and> 0 < event_position e) es"

locale global_reader =
  fixes readAll :: "'db \<Rightarrow> read_all_options \<Rightarrow> 'i option result"
    and nxt :: "'i \<Rightarrow> event option result \<times> 'i"
    and closeIter :: "'i \<Rightarrow> go_error option"
    and log :: "'db \<Rightarrow> event list"
    and valid :: "'db \<Rightarrow> bool"
  assumes ordered: "valid db \<Longrightarrow> log_ordered (log db)"
    and read_faithful: "valid db \<Longrightarrow> readAll db opts = Inr (Some it) \<Longrightarrow>
      faithful nxt it (read_all_view (log db) opts)"

locale healthy_reader = global_reader +
  assumes read_delivers: "valid db \<Longrightarrow> \<exists>it. readAll db opts = Inr (Some it)
      \<and> delivers nxt closeIter it (read_all_view (log db) opts)"

section \<open>The in-memory store as a global reader\<close>

definition Memory_ReadAll :: "event_store \<Rightarrow> read_all_options \<Rightarrow> stream_iterator option result" where
  "Memory_ReadAll st opts = Inr (Some (ReadAll st opts))"

definition Memory_Next :: "stream_iterator \<Rightarrow> event option result \<times> stream_iterator" where
  "Memory_Next it = (case Next it of (r, it') \<Rightarrow> (map_sum (\<lambda>e. e) Some r, it'))"

definition Memory_Close :: "stream_iterator \<Rightarrow> go_error option" where
  "Memory_Close it = None"

lemma yields_delivers: "yields Next it es \<Longrightarrow> delivers Memory_Next Memory_Close it es"
  by (induction es arbitrary: it) (auto simp: Memory_Next_def Memory_Close_def split: prod.splits)

lemma memory_delivers:
  assumes "store_valid ustr st"
  shows "delivers Memory_Next Memory_Close (ReadAll st opts) (read_all_view (log_view st) opts)"
proof -
  have "int (length (globalLog st)) \<le> max_int64"
    using log_length [OF store_validD(1) [OF assms]] store_validD(2) [OF assms] by linarith
  then show ?thesis
    using ReadAll_selects [OF store_validD(1) [OF assms]] yields_remaining yields_delivers by metis
qed

lemma memory_log_ordered:
  assumes "store_valid ustr st"
  shows "log_ordered (log_view st)"
proof -
  have wf: "wf_log ustr (globalLog st) (globalCounter st)"
    using store_validD(1) [OF assms] by (simp add: wf_store_def)
  have pos: "event_position (decode (gl_data g)) = gl_position g
      \<and> ev_GlobalPosition (decode (gl_data g)) \<noteq> None \<and> 1 \<le> gl_position g"
    if "g \<in> set (globalLog st)" for g
    using wf that by (auto simp: wf_log_def entry_ok_def event_position_def)
  have "sorted_wrt (\<lambda>a b. event_position (decode (gl_data a)) < event_position (decode (gl_data b))) (globalLog st)"
    using wf pos by (auto simp: wf_log_def intro: sorted_wrt_mono_rel [rotated])
  then show ?thesis
    using pos by (force simp: log_ordered_def log_view_def sorted_wrt_map list_all_iff)
qed

interpretation memory_reader: healthy_reader Memory_ReadAll Memory_Next Memory_Close log_view "store_valid ustr"
proof
  fix db opts it
  assume "store_valid ustr db"
  then show "log_ordered (log_view db)" by (rule memory_log_ordered)
next
  fix db opts it
  assume "store_valid ustr db" "Memory_ReadAll db opts = Inr (Some it)"
  then show "faithful Memory_Next it (read_all_view (log_view db) opts)"
    using memory_delivers delivers_faithful by (fastforce simp: Memory_ReadAll_def)
next
  fix db opts
  assume "store_valid ustr db"
  then show "\<exists>it. Memory_ReadAll db opts = Inr (Some it)
      \<and> delivers Memory_Next Memory_Close it (read_all_view (log_view db) opts)"
    using memory_delivers by (auto simp: Memory_ReadAll_def)
qed

end
