(* ===== verification/CheckpointStore.thy ===== *)
theory CheckpointStore
  imports Projection
begin

text \<open>
  Projection checkpoints (\<open>projection/checkpointstore/store.go\<close>) and the in-memory store of them
  (\<open>projection/checkpointstore/memory/checkpoint_store.go\<close>). The locale \<open>checkpoint_contract\<close> is the
  contract the processor and the rebuild handle rely on: saves are last-write-wins, the position
  saved is the position loaded, and a deleted checkpoint is gone.
\<close>

section \<open>The in-memory store\<close>

record checkpoint =
  cp_ProjectionID :: projection_id
  cp_Position :: int64
  cp_UpdatedAt :: time

record checkpoint_store =
  checkpoints :: "projection_id \<Rightarrow> checkpoint option"

definition NewCheckpointStore :: checkpoint_store where
  "NewCheckpointStore = \<lparr>checkpoints = Map.empty\<rparr>"

definition Checkpoint_Load :: "checkpoint_store \<Rightarrow> projection_id \<Rightarrow> checkpoint result" where
  "Checkpoint_Load s i = (case checkpoints s i of
     None \<Rightarrow> Inl (Sentinel ErrCheckpointNotFound) | Some c \<Rightarrow> Inr c)"

definition Checkpoint_Save ::
  "time \<Rightarrow> checkpoint_store \<Rightarrow> projection_id \<Rightarrow> int64 \<Rightarrow> go_error option \<times> checkpoint_store" where
  "Checkpoint_Save now s i position =
     (None, s\<lparr>checkpoints := (checkpoints s)(i \<mapsto>
        \<lparr>cp_ProjectionID = i, cp_Position = position, cp_UpdatedAt = now\<rparr>)\<rparr>)"

definition Checkpoint_Delete ::
  "checkpoint_store \<Rightarrow> projection_id \<Rightarrow> go_error option \<times> checkpoint_store" where
  "Checkpoint_Delete s i =
     (case checkpoints s i of
        None \<Rightarrow> (Some (Sentinel ErrCheckpointNotFound), s)
      | Some c \<Rightarrow> (None, s\<lparr>checkpoints := (checkpoints s)(i := None)\<rparr>))"

section \<open>The contract\<close>

text \<open>
  \<open>position_of\<close> is the position a store holds for a projection, if any. A load, a save or a delete
  may fail for reasons of its own; a save that fails may or may not have taken effect, but never
  touches another projection's checkpoint.
\<close>

locale checkpoint_contract =
  fixes position_of :: "'c \<Rightarrow> projection_id \<Rightarrow> int64 option"
    and load :: "'c \<Rightarrow> projection_id \<Rightarrow> checkpoint result"
    and save :: "'c \<Rightarrow> projection_id \<Rightarrow> int64 \<Rightarrow> go_error option \<times> 'c"
    and delete :: "'c \<Rightarrow> projection_id \<Rightarrow> go_error option \<times> 'c"
  assumes load_found: "load s i = Inr c \<Longrightarrow> position_of s i = Some (cp_Position c)"
    and load_absent: "load s i = Inl e \<Longrightarrow> errors_is e ErrCheckpointNotFound \<Longrightarrow> position_of s i = None"
    and save_done: "save s i p = (None, s') \<Longrightarrow> position_of s' = (position_of s)(i \<mapsto> p)"
    and save_failed: "save s i p = (Some e, s') \<Longrightarrow>
      position_of s' = position_of s \<or> position_of s' = (position_of s)(i \<mapsto> p)"
    and delete_done: "delete s i = (None, s') \<Longrightarrow> position_of s' = (position_of s)(i := None)"
    and delete_absent: "delete s i = (Some e, s') \<Longrightarrow> errors_is e ErrCheckpointNotFound \<Longrightarrow>
      position_of s' = position_of s \<and> position_of s i = None"
begin

text \<open>Whatever a save reports, it leaves the position before it or the one it was given.\<close>

lemma save_cases:
  assumes "save s i p = (r, s')"
  shows "position_of s' i = Some p \<or> position_of s' i = position_of s i"
    and "j \<noteq> i \<Longrightarrow> position_of s' j = position_of s j"
    and "r = None \<Longrightarrow> position_of s' i = Some p"
  using assms save_done save_failed by (cases r; fastforce)+

lemma load_cases:
  assumes "load s i = r"
  shows "(case r of Inr c \<Rightarrow> position_of s i = Some (cp_Position c)
    | Inl e \<Rightarrow> errors_is e ErrCheckpointNotFound \<longrightarrow> position_of s i = None)"
  using assms load_found load_absent by (cases r) auto

end

definition checkpoint_position :: "checkpoint_store \<Rightarrow> projection_id \<Rightarrow> int64 option" where
  "checkpoint_position s i = map_option cp_Position (checkpoints s i)"

interpretation memory_checkpoints:
  checkpoint_contract checkpoint_position Checkpoint_Load "Checkpoint_Save now" Checkpoint_Delete
  by unfold_locales
    (auto simp: checkpoint_position_def Checkpoint_Load_def Checkpoint_Save_def Checkpoint_Delete_def
      split: option.splits)

end
