(* ===== verification/Processor.thy ===== *)
theory Processor
  imports GlobalReader CheckpointStore
begin

text \<open>
  The projection processor (\<open>projection/processor/processor.go\<close>): it resumes from a checkpoint,
  reads the global sequence in bounded batches, closes each batch's iterator before handling any of
  its events, and saves its progress. \<open>Run\<close> is the loop of \<open>run_cycle\<close>s. The event store changes
  under it: \<open>dbs n\<close> is the store when the context has been consulted \<open>n\<close> times, which is the
  model's clock. The atomics, the \<open>sync.Once\<close> and the channel are fields of the state, which only
  the goroutine inside \<open>Run\<close> writes. The wait between polls is one consultation of the context.
\<close>

section \<open>Configuration and state\<close>

record ('db, 'i, 'c, 'h) processor =
  pr_readAll :: "'db \<Rightarrow> read_all_options \<Rightarrow> 'i option result"
  pr_next :: "'i \<Rightarrow> event option result \<times> 'i"
  pr_close :: "'i \<Rightarrow> go_error option"
  pr_load :: "'c \<Rightarrow> projection_id \<Rightarrow> checkpoint result"
  pr_save :: "'c \<Rightarrow> projection_id \<Rightarrow> int64 \<Rightarrow> go_error option \<times> 'c"
  pr_id :: projection_id
  pr_handle :: "event option \<Rightarrow> 'h \<Rightarrow> go_error option \<times> 'h"
  pollInterval :: int64
  batchSize :: int64
  checkpointEvery :: int64
  continueOnHandlerError :: bool
  pr_has_log :: bool

record ('c, 'h) run_state =
  position :: int64
  caughtUpPosition :: int64
  caughtUp :: bool
  running :: bool
  sinceCheckpoint :: int64
  rs_store :: 'c
  rs_handler :: 'h
  clock :: nat

definition DefaultPollInterval :: int64 where
  "DefaultPollInterval = 1000000000"

definition DefaultBatchSize :: int64 where
  "DefaultBatchSize = 500"

text \<open>The options; \<open>WithLogger\<close> is told whether its logger is non-nil.\<close>

type_synonym ('db, 'i, 'c, 'h) processor_option =
  "('db, 'i, 'c, 'h) processor \<Rightarrow> ('db, 'i, 'c, 'h) processor"

definition WithBatchSize :: "int64 \<Rightarrow> ('db, 'i, 'c, 'h) processor_option" where
  "WithBatchSize n p = p\<lparr>batchSize := n\<rparr>"

definition WithCheckpointEvery :: "int64 \<Rightarrow> ('db, 'i, 'c, 'h) processor_option" where
  "WithCheckpointEvery n p = p\<lparr>checkpointEvery := n\<rparr>"

definition WithContinueOnHandlerError :: "bool \<Rightarrow> ('db, 'i, 'c, 'h) processor_option" where
  "WithContinueOnHandlerError b p = p\<lparr>continueOnHandlerError := b\<rparr>"

definition WithPollInterval :: "int64 \<Rightarrow> ('db, 'i, 'c, 'h) processor_option" where
  "WithPollInterval d p = p\<lparr>pollInterval := d\<rparr>"

definition WithLogger :: "bool \<Rightarrow> ('db, 'i, 'c, 'h) processor_option" where
  "WithLogger b p = p\<lparr>pr_has_log := b\<rparr>"

text \<open>Applying options in order; a nil one is an error.\<close>

fun apply_options :: "string \<Rightarrow> ('p \<Rightarrow> 'p) option list \<Rightarrow> 'p \<Rightarrow> 'p result" where
  "apply_options msg [] p = Inr p"
| "apply_options msg (None # opts) p = Inl (Text msg)"
| "apply_options msg (Some opt # opts) p = apply_options msg opts (opt p)"

definition New_Processor ::
  "(('db \<Rightarrow> read_all_options \<Rightarrow> 'i option result) \<times> ('i \<Rightarrow> event option result \<times> 'i) \<times> ('i \<Rightarrow> go_error option)) option
   \<Rightarrow> (('c \<Rightarrow> projection_id \<Rightarrow> checkpoint result) \<times> ('c \<Rightarrow> projection_id \<Rightarrow> int64 \<Rightarrow> go_error option \<times> 'c)) option
   \<Rightarrow> projection_id \<Rightarrow> (event option \<Rightarrow> 'h \<Rightarrow> go_error option \<times> 'h) option
   \<Rightarrow> ('db, 'i, 'c, 'h) processor_option option list \<Rightarrow> ('db, 'i, 'c, 'h) processor result" where
  "New_Processor events ckpts i handler opts =
     (case events of
        None \<Rightarrow> Inl (Text ''global event reader is required'')
      | Some (rd, nx, cl) \<Rightarrow> (case ckpts of
        None \<Rightarrow> Inl (Text ''checkpoint store is required'')
      | Some (ld, sv) \<Rightarrow> (case handler of
        None \<Rightarrow> Inl (Text ''event handler is required'')
      | Some handle \<Rightarrow> (case projection_Validate i of
        Some err \<Rightarrow> Inl (fmt_wrap ''invalid projection ID'' err)
      | None \<Rightarrow> (case apply_options ''processor option must not be nil'' opts
          \<lparr>pr_readAll = rd, pr_next = nx, pr_close = cl, pr_load = ld, pr_save = sv, pr_id = i,
           pr_handle = handle, pollInterval = DefaultPollInterval, batchSize = DefaultBatchSize,
           checkpointEvery = 1, continueOnHandlerError = False, pr_has_log = True\<rparr> of
        Inl err \<Rightarrow> Inl err
      | Inr p \<Rightarrow>
          if pollInterval p \<le> 0 then Inl (Text ''poll interval must be positive'')
          else if batchSize p < 1 then Inl (Text ''batch size must be positive'')
          else if checkpointEvery p < 1 then Inl (Text ''checkpoint interval must be positive'')
          else if \<not> pr_has_log p then Inl (Text ''logger must not be nil'')
          else Inr p)))))"

definition new_run_state :: "'c \<Rightarrow> 'h \<Rightarrow> nat \<Rightarrow> ('c, 'h) run_state" where
  "new_run_state c h n = \<lparr>position = 0, caughtUpPosition = 0, caughtUp = False, running = False,
     sinceCheckpoint = 0, rs_store = c, rs_handler = h, clock = n\<rparr>"

section \<open>Checkpoints\<close>

definition loadPosition :: "('db, 'i, 'c, 'h) processor \<Rightarrow> ('c, 'h) run_state \<Rightarrow> int64 result" where
  "loadPosition p s = (case pr_load p (rs_store s) (pr_id p) of
     Inl err \<Rightarrow> if errors_is err ErrCheckpointNotFound then Inr 0
                else Inl (fmt_wrap ''loading checkpoint'' err)
   | Inr checkpoint \<Rightarrow> Inr (cp_Position checkpoint))"

definition saveCheckpoint ::
  "('db, 'i, 'c, 'h) processor \<Rightarrow> ('c, 'h) run_state \<Rightarrow> go_error option \<times> ('c, 'h) run_state" where
  "saveCheckpoint p s = (case pr_save p (rs_store s) (pr_id p) (position s) of
     (Some err, c) \<Rightarrow> (Some (fmt_wrap ''saving checkpoint'' err), s\<lparr>rs_store := c\<rparr>)
   | (None, c) \<Rightarrow> (None, s\<lparr>rs_store := c, sinceCheckpoint := 0\<rparr>))"

section \<open>Draining\<close>

definition ctx_Err :: "go_context \<Rightarrow> ('c, 'h) run_state \<Rightarrow> sentinel option \<times> ('c, 'h) run_state" where
  "ctx_Err ctx s = (ctx (clock s), s\<lparr>clock := Suc (clock s)\<rparr>)"

text \<open>
  The read loop of \<open>drain\<close>: the events buffered with their positions, the read error, the iterator
  and the state when the loop breaks.
\<close>

function read_batch ::
  "go_context \<Rightarrow> ('db, 'i, 'c, 'h) processor \<Rightarrow> 'i \<Rightarrow> (event \<times> int64) list \<Rightarrow> ('c, 'h) run_state
   \<Rightarrow> (event \<times> int64) list \<times> go_error option \<times> 'i \<times> ('c, 'h) run_state"
where
  "read_batch ctx p iter events s =
     (if int (length events) < batchSize p then
        (case ctx_Err ctx s of
           (Some ctxErr, s1) \<Rightarrow> (events, Some (joinCancellation ctxErr None), iter, s1)
         | (None, s1) \<Rightarrow>
        (case pr_next p iter of (r, iter') \<Rightarrow>
        (case ctx_Err ctx s1 of
           (Some ctxErr, s2) \<Rightarrow> (events, Some (joinCancellation ctxErr
              (case r of Inl err \<Rightarrow> Some (fmt_wrap ''reading event'' err) | Inr e \<Rightarrow> None)), iter', s2)
         | (None, s2) \<Rightarrow>
             (case r of
                Inl err \<Rightarrow>
                  if errorLeavesMatch err [ErrEndOfEventStream] then (events, None, iter', s2)
                  else (events, Some (fmt_wrap ''reading event'' err), iter', s2)
              | Inr None \<Rightarrow> (events, Some (Text ''global reader yielded a nil event''), iter', s2)
              | Inr (Some event) \<Rightarrow>
                  (case ev_GlobalPosition event of
                     None \<Rightarrow> (events, Some (Text ''event has no global position''), iter', s2)
                   | Some pos \<Rightarrow> read_batch ctx p iter' (events @ [(event, pos)]) s2)))))
      else (events, None, iter, s))"
  by pat_completeness auto

termination
  by (relation "measure (\<lambda>(ctx, p, iter, events, s). nat (batchSize p - int (length events)))") auto

declare read_batch.simps [simp del]

text \<open>The handling loop of \<open>drain\<close>; \<open>Some\<close> is an early return of its error.\<close>

fun handle_batch ::
  "go_context \<Rightarrow> ('db, 'i, 'c, 'h) processor \<Rightarrow> go_error option \<Rightarrow> (event \<times> int64) list
   \<Rightarrow> ('c, 'h) run_state \<Rightarrow> go_error option \<times> ('c, 'h) run_state"
where
  "handle_batch ctx p readErr [] s = (None, s)"
| "handle_batch ctx p readErr ((event, pos) # events) s =
     (case ctx_Err ctx s of
        (Some ctxErr, s1) \<Rightarrow> (Some (joinCancellation ctxErr readErr), s1)
      | (None, s1) \<Rightarrow>
     (case pr_handle p (Some event) (rs_handler s1) of (r, h) \<Rightarrow>
        (let s2 = s1\<lparr>rs_handler := h\<rparr> in
         if r \<noteq> None \<and> \<not> continueOnHandlerError p
         then (Some (fmt_wrap ''handling event'' (the r)), s2)
         else
           let s3 = s2\<lparr>position := pos, sinceCheckpoint := wrap64 (sinceCheckpoint s2 + 1)\<rparr>
           in if checkpointEvery p \<le> sinceCheckpoint s3
              then (case saveCheckpoint p s3 of
                 (Some err, s4) \<Rightarrow> (Some err, s4)
               | (None, s4) \<Rightarrow> handle_batch ctx p readErr events s4)
              else handle_batch ctx p readErr events s3)))"

text \<open>
  \<open>drain\<close>: an error, or whether the read reached the head. The events buffered before a read
  failure are still handled before it is reported.
\<close>

definition drain ::
  "(nat \<Rightarrow> 'db) \<Rightarrow> go_context \<Rightarrow> ('db, 'i, 'c, 'h) processor \<Rightarrow> ('c, 'h) run_state
   \<Rightarrow> bool result \<times> ('c, 'h) run_state" where
  "drain dbs ctx p s =
     (case pr_readAll p (dbs (clock s)) \<lparr>AfterPosition = position s, ra_Count = batchSize p\<rparr> of
        Inl err \<Rightarrow>
          (let err' = fmt_wrap ''reading global event sequence'' err in
           case ctx_Err ctx s of
             (Some ctxErr, s1) \<Rightarrow> (Inl (joinCancellation ctxErr (Some err')), s1)
           | (None, s1) \<Rightarrow> (Inl err', s1))
      | Inr None \<Rightarrow> (Inl (Text ''global event reader returned a nil iterator''), s)
      | Inr (Some iter) \<Rightarrow>
     (case read_batch ctx p iter [] s of (events, readErr, iter', s1) \<Rightarrow>
        (let closeErr = pr_close p iter' in
         case ctx_Err ctx s1 of (ctxErr, s2) \<Rightarrow>
        (let readErr' = (case ctxErr of None \<Rightarrow> readErr | Some c \<Rightarrow> Some (joinCancellation c readErr)) in
         case closeErr of
           Some err \<Rightarrow> (Inl (the (errors_join [readErr', Some (fmt_wrap ''closing event iterator'' err)])), s2)
         | None \<Rightarrow>
             if ctxErr \<noteq> None then (Inl (the readErr'), s2)
             else (case handle_batch ctx p readErr' events s2 of
                (Some err, s3) \<Rightarrow> (Inl err, s3)
              | (None, s3) \<Rightarrow>
                  (case ctx_Err ctx s3 of
                     (Some c, s4) \<Rightarrow> (Inl (joinCancellation c readErr'), s4)
                   | (None, s4) \<Rightarrow>
                       (case readErr' of
                          Some err \<Rightarrow> (Inl err, s4)
                        | None \<Rightarrow> (Inr (int (length events) < batchSize p), s4))))))))"

section \<open>Running\<close>

text \<open>One iteration of \<open>Run\<close>'s loop: the error it returns, or the state at the next iteration.\<close>

definition run_cycle ::
  "(nat \<Rightarrow> 'db) \<Rightarrow> go_context \<Rightarrow> ('db, 'i, 'c, 'h) processor \<Rightarrow> ('c, 'h) run_state
   \<Rightarrow> go_error option \<times> ('c, 'h) run_state" where
  "run_cycle dbs ctx p s =
     (case ctx_Err ctx s of
        (Some c, s1) \<Rightarrow> (Some (Sentinel c), s1)
      | (None, s1) \<Rightarrow>
     (case drain dbs ctx p s1 of
        (Inl err, s2) \<Rightarrow> (Some err, s2)
      | (Inr atHead, s2) \<Rightarrow>
          if \<not> atHead then (None, s2)
          else (case ctx_Err ctx s2 of
             (Some c, s3) \<Rightarrow> (Some (Sentinel c), s3)
           | (None, s3) \<Rightarrow>
          (case saveCheckpoint p s3 of
             (Some err, s4) \<Rightarrow> (Some err, s4)
           | (None, s4) \<Rightarrow>
          (case ctx_Err ctx s4 of
             (Some c, s5) \<Rightarrow> (Some (Sentinel c), s5)
           | (None, s5) \<Rightarrow>
               (let s6 = (if caughtUp s5 then s5
                          else s5\<lparr>caughtUpPosition := position s5, caughtUp := True\<rparr>)
                in case ctx_Err ctx s6 of
                     (Some c, s7) \<Rightarrow> (Some (Sentinel c), s7)
                   | (None, s7) \<Rightarrow> (None, s7)))))))"

partial_function (option) run_loop ::
  "(nat \<Rightarrow> 'db) \<Rightarrow> go_context \<Rightarrow> ('db, 'i, 'c, 'h) processor \<Rightarrow> ('c, 'h) run_state
   \<Rightarrow> (go_error \<times> ('c, 'h) run_state) option" where
  "run_loop dbs ctx p s =
     (case run_cycle dbs ctx p s of
        (Some err, s') \<Rightarrow> Some (err, s')
      | (None, s') \<Rightarrow> run_loop dbs ctx p s')"

definition Processor_Run ::
  "(nat \<Rightarrow> 'db) \<Rightarrow> go_context \<Rightarrow> ('db, 'i, 'c, 'h) processor \<Rightarrow> ('c, 'h) run_state
   \<Rightarrow> (go_error \<times> ('c, 'h) run_state) option" where
  "Processor_Run dbs ctx p s =
     (if running s then Some (Text ''processor has already been run'', s)
      else let s1 = s\<lparr>running := True\<rparr> in
        case loadPosition p s1 of
          Inl err \<Rightarrow> Some (err, s1)
        | Inr pos \<Rightarrow> run_loop dbs ctx p (s1\<lparr>position := pos\<rparr>))"

end
