(* ===== verification/LogPositions.thy ===== *)
theory LogPositions
  imports GlobalReader
begin

text \<open>
  Positions in an ordered global log: the events between two positions, the position reached after
  handling some of them, and what a log that has only grown still says about them.
\<close>

definition pos_after :: "int64 \<Rightarrow> event list \<Rightarrow> nat \<Rightarrow> int64" where
  "pos_after q es j = last (q # map event_position (take j es))"

lemma pos_after_simps [simp]:
  "pos_after q es 0 = q" "pos_after q (e # es) (Suc j) = pos_after (event_position e) es j"
  by (simp_all add: pos_after_def)

definition between :: "int64 \<Rightarrow> int64 \<Rightarrow> event list \<Rightarrow> event list" where
  "between a b es = filter (\<lambda>e. a < event_position e \<and> event_position e \<le> b) es"

abbreviation ascending :: "event list \<Rightarrow> bool" where
  "ascending es \<equiv> sorted_wrt (\<lambda>a b. event_position a < event_position b) es"

lemma pos_after_ge:
  "ascending es \<Longrightarrow> \<forall>e \<in> set es. q < event_position e \<Longrightarrow> q \<le> pos_after q es j"
proof (induction es arbitrary: q j)
  case (Cons e es)
  then show ?case by (cases j) (fastforce intro: order_trans [of q "event_position e"])+
qed (simp add: pos_after_def)

lemma filter_upto:
  "ascending es \<Longrightarrow> \<forall>e \<in> set es. q < event_position e \<Longrightarrow> j \<le> length es \<Longrightarrow>
     filter (\<lambda>e. event_position e \<le> pos_after q es j) es = take j es"
proof (induction es arbitrary: q j)
  case (Cons e es)
  show ?case
  proof (cases j)
    case 0
    then show ?thesis using Cons.prems(2) by (auto simp: filter_empty_conv)
  next
    case (Suc k)
    then show ?thesis
      using Cons.IH [of "event_position e" k] Cons.prems pos_after_ge [of es "event_position e" k] by auto
  qed
qed (simp add: pos_after_def)

lemma pos_after_mono:
  "ascending es \<Longrightarrow> \<forall>e \<in> set es. q < event_position e \<Longrightarrow> m \<le> j \<Longrightarrow> pos_after q es m \<le> pos_after q es j"
proof (induction es arbitrary: q m j)
  case (Cons e es)
  show ?case
  proof (cases m)
    case 0
    then show ?thesis using pos_after_ge [OF Cons.prems(1,2), of j] by simp
  next
    case (Suc k)
    then obtain l where "j = Suc l" "k \<le> l" using Cons.prems(3) by (cases j) auto
    then show ?thesis using Suc Cons.IH [of "event_position e" k l] Cons.prems by auto
  qed
qed (simp add: pos_after_def)

lemma ascending_split:
  "ascending es \<Longrightarrow> es = filter (\<lambda>e. event_position e \<le> q) es @ filter (\<lambda>e. q < event_position e) es"
proof (induction es)
  case (Cons e es)
  have "filter (\<lambda>e. event_position e \<le> q) es = []" if "q < event_position e"
    using Cons.prems that by (force simp: filter_empty_conv)
  then show ?case using Cons by (cases "event_position e \<le> q") auto
qed simp

lemma filter_above:
  "ascending es \<Longrightarrow> \<forall>e \<in> set es. q < event_position e \<Longrightarrow> m \<le> length es \<Longrightarrow>
     filter (\<lambda>e. pos_after q es m < event_position e) es = drop m es"
proof (induction es arbitrary: q m)
  case (Cons e es)
  show ?case
  proof (cases m)
    case 0
    then show ?thesis using Cons.prems(2) by (auto simp: filter_id_conv)
  next
    case (Suc k)
    then show ?thesis
      using Cons.IH [of "event_position e" k] Cons.prems pos_after_ge [of es "event_position e" k] by auto
  qed
qed (simp add: pos_after_def)

lemma between_after:
  assumes "ascending L" "a \<le> q" "j \<le> length (filter (\<lambda>e. q < event_position e) L)"
  defines "F \<equiv> filter (\<lambda>e. q < event_position e) L"
  shows "between a (pos_after q F j) L = between a q L @ take j F"
proof -
  let ?A = "filter (\<lambda>e. event_position e \<le> q) L"
  have L: "L = ?A @ F" using ascending_split [OF assms(1)] by (simp add: F_def)
  have F: "ascending F" "\<forall>e \<in> set F. q < event_position e"
    using assms(1) by (auto simp: F_def sorted_wrt_filter)
  have "between a (pos_after q F j) ?A = between a q ?A"
    using pos_after_ge [OF F, of j] by (auto simp: between_def intro: filter_cong)
  moreover have "between a q F = []" using F(2) by (auto simp: between_def filter_empty_conv)
  moreover have "between a (pos_after q F j) F = take j F"
  proof -
    have "between a (pos_after q F j) F = filter (\<lambda>e. event_position e \<le> pos_after q F j) F"
      using F(2) assms(2) by (force simp: between_def intro: filter_cong)
    then show ?thesis using filter_upto [OF F, of j] assms(3) by (simp add: F_def)
  qed
  ultimately show ?thesis
    by (subst (1 2) L) (simp add: between_def)
qed

lemma filter_beyond:
  assumes "ascending L" "j \<le> length (filter (\<lambda>e. q < event_position e) L)"
  defines "F \<equiv> filter (\<lambda>e. q < event_position e) L"
  shows "filter (\<lambda>e. pos_after q F j < event_position e) L = drop j F"
proof -
  let ?A = "filter (\<lambda>e. event_position e \<le> q) L"
  have L: "L = ?A @ F" using ascending_split [OF assms(1)] by (simp add: F_def)
  have F: "ascending F" "\<forall>e \<in> set F. q < event_position e" "j \<le> length F"
    using assms(1,2) by (auto simp: F_def sorted_wrt_filter)
  have "filter (\<lambda>e. pos_after q F j < event_position e) ?A = []"
    using pos_after_ge [OF F(1,2), of j] by (auto simp: filter_empty_conv)
  then show ?thesis using filter_above [OF F] by (subst L) simp
qed

lemma pos_after_take: "j \<le> k \<Longrightarrow> pos_after q (take k es) j = pos_after q es j"
  by (simp add: pos_after_def min_absorb1)

lemma pos_after_append: "j \<le> length es \<Longrightarrow> pos_after q (es @ fs) j = pos_after q es j"
  by (simp add: pos_after_def)

text \<open>A position that is recorded, or where we began, splits a log the same however it has grown.\<close>

definition settled :: "int64 \<Rightarrow> int64 \<Rightarrow> event list \<Rightarrow> bool" where
  "settled a q L \<longleftrightarrow> q = a \<or> q \<in> event_position ` set L"

lemma between_grown:
  assumes "ascending (L @ ext)" "settled a q L"
  shows "between a q (L @ ext) = between a q L"
  using assms by (fastforce simp: settled_def between_def sorted_wrt_append filter_empty_conv)

lemma pos_after_settled:
  assumes "j \<le> length es" "set es \<subseteq> set L" "settled a q L"
  shows "settled a (pos_after q es j) L"
proof (cases j)
  case (Suc k)
  then have "pos_after q es j = event_position (es ! k)"
    using assms(1) by (simp add: pos_after_def take_Suc_conv_app_nth)
  moreover have "es ! k \<in> set L" using Suc assms(1,2) by (auto dest: nth_mem)
  ultimately show ?thesis by (simp add: settled_def)
qed (use assms(3) in simp)

lemma between_pending:
  assumes "ascending L" "j \<le> length (filter (\<lambda>e. q < event_position e) L)" "m \<le> j"
  defines "F \<equiv> filter (\<lambda>e. q < event_position e) L"
  shows "between (pos_after q F m) (pos_after q F j) L = drop m (take j F)"
proof -
  let ?A = "filter (\<lambda>e. event_position e \<le> q) L"
  have L: "L = ?A @ F" using ascending_split [OF assms(1)] by (simp add: F_def)
  have F: "ascending F" "\<forall>e \<in> set F. q < event_position e" "j \<le> length F"
    using assms(1,2) by (auto simp: F_def sorted_wrt_filter)
  have "between (pos_after q F m) (pos_after q F j) ?A = []"
    using pos_after_ge [OF F(1,2), of m] by (auto simp: between_def filter_empty_conv)
  moreover have "between (pos_after q F m) (pos_after q F j) F
    = filter (\<lambda>e. pos_after q F m < event_position e) (filter (\<lambda>e. event_position e \<le> pos_after q F j) F)"
    by (simp add: between_def conj_commute)
  moreover have "\<dots> = drop m (take j F)"
    using filter_upto [OF F] filter_above [of "take j F" q m] F assms(3)
    by (auto simp: sorted_wrt_take pos_after_take dest: in_set_takeD)
  ultimately show ?thesis by (subst L) (simp add: between_def)
qed

end
