(* ===== verification/ProcessorProps.thy ===== *)
theory ProcessorProps
  imports Processor LogPositions
begin

text \<open>
  What the processor guarantees over any reader and checkpoint store that keep their contracts,
  whatever fails and whenever the context ends: events are handled in log order without a gap, the
  checkpoint never runs ahead of them and trails them by a bounded number, and \<open>CaughtUp\<close> certifies
  a durable position. Over a healthy reader and store it does catch up.
\<close>

section \<open>Reading a batch\<close>

definition with_positions :: "event list \<Rightarrow> (event \<times> int64) list" where
  "with_positions es = map (\<lambda>e. (e, event_position e)) es"

lemma with_positions_simps [simp]:
  "with_positions [] = []" "with_positions (e # es) = (e, event_position e) # with_positions es"
  "with_positions (es @ fs) = with_positions es @ with_positions fs"
  "length (with_positions es) = length es"
  by (simp_all add: with_positions_def)

text \<open>What \<open>read_batch\<close> leaves behind: a state that differs in its clock only.\<close>

definition later :: "('c, 'h) run_state \<Rightarrow> ('c, 'h) run_state \<Rightarrow> bool" where
  "later s s' \<longleftrightarrow> (\<exists>n. s' = s\<lparr>clock := n\<rparr> \<and> clock s \<le> n)"

lemma later_refl [simp, intro]: "later s s"
  by (auto simp: later_def intro: exI [of _ "clock s"])

lemma later_trans: "later s t \<Longrightarrow> later t u \<Longrightarrow> later s u"
  by (auto simp: later_def)

lemma ctx_Err_later: "ctx_Err ctx s = (r, s') \<Longrightarrow> later s s' \<and> r = ctx (clock s) \<and> clock s' = Suc (clock s)"
  by (auto simp: ctx_Err_def later_def)

lemma later_fields:
  assumes "later s s'"
  shows "position s' = position s" "rs_handler s' = rs_handler s" "rs_store s' = rs_store s"
    "sinceCheckpoint s' = sinceCheckpoint s" "caughtUp s' = caughtUp s"
    "caughtUpPosition s' = caughtUpPosition s" "running s' = running s" "clock s \<le> clock s'"
  using assms by (auto simp: later_def)

lemma read_batch_spec:
  assumes "faithful (pr_next p) iter es" "list_all (\<lambda>e. ev_GlobalPosition e \<noteq> None) es"
    and "read_batch ctx p iter events s = (events', err, iter', s')"
  shows "\<exists>k. k \<le> length es \<and> events' = events @ with_positions (take k es) \<and> later s s'
    \<and> (err = None \<longrightarrow> k = length es \<or> batchSize p \<le> int (length events'))"
  using assms
proof (induction "nat (batchSize p - int (length events))" arbitrary: iter events s es rule: less_induct)
  case less
  note unfold = read_batch.simps [of ctx p iter events s]
  obtain c1 s1 where c1: "ctx_Err ctx s = (c1, s1)" by fastforce
  obtain r it1 where r: "pr_next p iter = (r, it1)" by fastforce
  obtain c2 s2 where c2: "ctx_Err ctx s1 = (c2, s2)" by fastforce
  have late: "later s s1" "later s s2"
    using ctx_Err_later [OF c1] ctx_Err_later [OF c2] later_trans by blast+
  show ?case
  proof (cases "int (length events) < batchSize p \<and> c1 = None \<and> c2 = None \<and>
      (\<exists>e pos. r = Inr (Some e) \<and> ev_GlobalPosition e = Some pos)")
    case True
    then obtain e pos where e: "r = Inr (Some e)" "ev_GlobalPosition e = Some pos" by blast
    have y: "es \<noteq> [] \<and> Some e = Some (hd es) \<and> faithful (pr_next p) it1 (tl es)"
      using faithful_yield [OF less.prems(1), of "Some e" it1] r e by simp
    then obtain es' where es: "es = e # es'" by (cases es) auto
    have pos: "pos = event_position e" using e by (simp add: event_position_def)
    have rec: "read_batch ctx p it1 (events @ [(e, pos)]) s2 = (events', err, iter', s')"
      using less.prems(3) True r c1 c2 e unfolding unfold by simp
    have "\<exists>k. k \<le> length es' \<and> events' = (events @ [(e, pos)]) @ with_positions (take k es') \<and> later s2 s'
      \<and> (err = None \<longrightarrow> k = length es' \<or> batchSize p \<le> int (length events'))"
      using less.hyps [OF _ _ _ rec, of es'] True y es less.prems(2) by simp
    then obtain k where "k \<le> length es'" "events' = (events @ [(e, pos)]) @ with_positions (take k es')"
      "later s2 s'" "err = None \<longrightarrow> k = length es' \<or> batchSize p \<le> int (length events')" by blast
    then show ?thesis
      using es pos late later_trans [of s s2 s'] by (intro exI [of _ "Suc k"]) auto
  next
    case False
    have "events' = events \<and> later s s' \<and> (err = None \<longrightarrow> es = [] \<or> batchSize p \<le> int (length events))"
    proof -
      consider "batchSize p \<le> int (length events)" | c where "int (length events) < batchSize p" "c1 = Some c"
        | c where "int (length events) < batchSize p" "c1 = None" "c2 = Some c"
        | e where "int (length events) < batchSize p" "c1 = None" "c2 = None" "r = Inl e"
        | "int (length events) < batchSize p" "c1 = None" "c2 = None" "r = Inr None"
        | e where "int (length events) < batchSize p" "c1 = None" "c2 = None" "r = Inr (Some e)" "ev_GlobalPosition e = None"
        using False by (cases r; cases c1; cases c2) (force simp: not_less)+
      then show ?thesis
      proof cases
        case (4 e)
        then show ?thesis
          using less.prems(3) c1 r c2 late faithful_end [OF less.prems(1), of e it1] unfolding unfold
          by (auto split: if_splits)
      qed (use less.prems(3) c1 r c2 late in \<open>auto simp: unfold\<close>)
    qed
    then show ?thesis by (intro exI [of _ 0]) auto
  qed
qed


section \<open>Handling a batch\<close>

text \<open>
  The checkpointed position of the processor's projection, and the effect of handling the first
  \<open>j\<close> of some events, the \<open>m\<close>-th of them being the last one checkpointed (none, when \<open>m = 0\<close>).
\<close>

definition ckpt :: "('c \<Rightarrow> projection_id \<Rightarrow> int64 option) \<Rightarrow> ('db, 'i, 'c, 'h) processor
  \<Rightarrow> ('c, 'h) run_state \<Rightarrow> int64" where
  "ckpt pos_of p s = (case pos_of (rs_store s) (pr_id p) of None \<Rightarrow> 0 | Some q \<Rightarrow> q)"

definition others_kept :: "('c \<Rightarrow> projection_id \<Rightarrow> int64 option) \<Rightarrow> ('db, 'i, 'c, 'h) processor
  \<Rightarrow> ('c, 'h) run_state \<Rightarrow> ('c, 'h) run_state \<Rightarrow> bool" where
  "others_kept pos_of p s s' \<longleftrightarrow>
     (\<forall>i. i \<noteq> pr_id p \<longrightarrow> pos_of (rs_store s') i = pos_of (rs_store s) i)"

definition batch_handled ::
  "('c \<Rightarrow> projection_id \<Rightarrow> int64 option) \<Rightarrow> ('db, 'i, 'c, 'h) processor \<Rightarrow> event list
   \<Rightarrow> ('c, 'h) run_state \<Rightarrow> bool \<Rightarrow> ('c, 'h) run_state \<Rightarrow> nat \<Rightarrow> nat \<Rightarrow> bool" where
  "batch_handled pos_of p es s finished s' j m \<longleftrightarrow>
     m \<le> j \<and> j \<le> length es \<and> (finished \<longrightarrow> j = length es)
     \<and> clock s \<le> clock s' \<and> caughtUp s' = caughtUp s \<and> caughtUpPosition s' = caughtUpPosition s
     \<and> running s' = running s \<and> others_kept pos_of p s s'
     \<and> position s' = pos_after (position s) es j
     \<and> (continueOnHandlerError p \<or> list_all (\<lambda>r. r = None) (fst (handle_each (pr_handle p) (take j es) (rs_handler s))))
     \<and> (rs_handler s' = snd (handle_each (pr_handle p) (take j es) (rs_handler s))
        \<or> \<not> finished \<and> j < length es
          \<and> rs_handler s' = snd (handle_each (pr_handle p) (take (Suc j) es) (rs_handler s)))
     \<and> ckpt pos_of p s' = (if m = 0 then ckpt pos_of p s else pos_after (position s) es m)
     \<and> (let pending = (if m = 0 then sinceCheckpoint s + int j else int j - int m)
        in pending \<le> checkpointEvery p
          \<and> (finished \<longrightarrow> sinceCheckpoint s' = pending \<and> pending < checkpointEvery p))"

lemma others_kept_trans: "others_kept f p s t \<Longrightarrow> others_kept f p t u \<Longrightarrow> others_kept f p s u"
  by (simp add: others_kept_def)

text \<open>The first event handled and no checkpoint due: the rest continues from the advanced state.\<close>

lemma batch_handled_Cons:
  assumes rest: "batch_handled pos_of p es s' b s'' j m"
    and first: "pr_handle p (Some e) (rs_handler s) = (r, rs_handler s')"
    and ok: "r = None \<or> continueOnHandlerError p"
    and pos: "position s' = event_position e"
    and keep: "clock s \<le> clock s'" "caughtUp s' = caughtUp s" "caughtUpPosition s' = caughtUpPosition s"
      "running s' = running s" "others_kept pos_of p s s'"
    and saved: "sinceCheckpoint s' = sinceCheckpoint s + 1 \<and> ckpt pos_of p s' = ckpt pos_of p s \<and> m' = (if m = 0 then 0 else Suc m)
      \<or> sinceCheckpoint s' = 0 \<and> ckpt pos_of p s' = event_position e \<and> m' = Suc m"
  shows "batch_handled pos_of p (e # es) s b s'' (Suc j) m'"
proof -
  have step: "handle_each (pr_handle p) (e # fs) (rs_handler s)
    = (r # fst (handle_each (pr_handle p) fs (rs_handler s')), snd (handle_each (pr_handle p) fs (rs_handler s')))" for fs
    using first by (simp split: prod.split)
  have others: "others_kept pos_of p s s''"
    using rest keep(5) others_kept_trans by (auto simp: batch_handled_def)
  note tail = rest [unfolded batch_handled_def Let_def]
  have pending: "(if m' = 0 then sinceCheckpoint s + int (Suc j) else int (Suc j) - int m')
      = (if m = 0 then sinceCheckpoint s' + int j else int j - int m)"
    using saved by auto
  have ck: "ckpt pos_of p s'' = (if m' = 0 then ckpt pos_of p s else pos_after (position s) (e # es) m')"
    using tail saved pos by (cases m) auto
  have small: "m' \<le> Suc j" using tail saved by auto
  have results: "continueOnHandlerError p
      \<or> list_all (\<lambda>r. r = None) (fst (handle_each (pr_handle p) (take (Suc j) (e # es)) (rs_handler s)))"
    using tail ok by (auto simp: step simp del: handle_each.simps)
  have final: "rs_handler s'' = snd (handle_each (pr_handle p) (take (Suc j) (e # es)) (rs_handler s))
      \<or> \<not> b \<and> Suc j < length (e # es)
        \<and> rs_handler s'' = snd (handle_each (pr_handle p) (take (Suc (Suc j)) (e # es)) (rs_handler s))"
    using tail by (auto simp: step simp del: handle_each.simps)
  show ?thesis
    unfolding batch_handled_def Let_def pending
    using tail small results final ck others keep pos by simp
qed


section \<open>The invariant of a run\<close>

text \<open>
  A run that began in \<open>s0\<close> is on course in \<open>s\<close>, over the log \<open>L\<close>: the handler has seen exactly
  the events between the two positions, in order, and the checkpoint trails the position by the
  events counted since. A halted run may in addition have handed the handler the next event.
\<close>

definition on_course ::
  "('c \<Rightarrow> projection_id \<Rightarrow> int64 option) \<Rightarrow> ('db, 'i, 'c, 'h) processor \<Rightarrow> ('c, 'h) run_state
   \<Rightarrow> event list \<Rightarrow> ('c, 'h) run_state \<Rightarrow> bool" where
  "on_course pos_of p s0 L s \<longleftrightarrow>
     (let past = between (position s0) (position s) L; seen = handle_each (pr_handle p) past (rs_handler s0) in
      position s0 \<le> position s \<and> settled (position s0) (position s) L
      \<and> rs_handler s = snd seen \<and> (continueOnHandlerError p \<or> list_all (\<lambda>r. r = None) (fst seen))
      \<and> position s0 \<le> ckpt pos_of p s \<and> ckpt pos_of p s \<le> position s
      \<and> settled (position s0) (ckpt pos_of p s) L
      \<and> sinceCheckpoint s = int (length (between (ckpt pos_of p s) (position s) L))
      \<and> sinceCheckpoint s < checkpointEvery p \<and> others_kept pos_of p s0 s
      \<and> (caughtUp s \<longrightarrow> position s0 \<le> caughtUpPosition s \<and> caughtUpPosition s \<le> ckpt pos_of p s))"

definition halted ::
  "('c \<Rightarrow> projection_id \<Rightarrow> int64 option) \<Rightarrow> ('db, 'i, 'c, 'h) processor \<Rightarrow> ('c, 'h) run_state
   \<Rightarrow> event list \<Rightarrow> ('c, 'h) run_state \<Rightarrow> bool" where
  "halted pos_of p s0 L s \<longleftrightarrow>
     (let past = between (position s0) (position s) L; seen = handle_each (pr_handle p) past (rs_handler s0) in
      position s0 \<le> position s \<and> settled (position s0) (position s) L
      \<and> (rs_handler s = snd seen
         \<or> (\<exists>e es. filter (\<lambda>e. position s < event_position e) L = e # es
              \<and> rs_handler s = snd (pr_handle p (Some e) (snd seen))))
      \<and> (continueOnHandlerError p \<or> list_all (\<lambda>r. r = None) (fst seen))
      \<and> position s0 \<le> ckpt pos_of p s \<and> ckpt pos_of p s \<le> position s
      \<and> settled (position s0) (ckpt pos_of p s) L
      \<and> int (length (between (ckpt pos_of p s) (position s) L)) \<le> checkpointEvery p
      \<and> others_kept pos_of p s0 s
      \<and> (caughtUp s \<longrightarrow> position s0 \<le> caughtUpPosition s \<and> caughtUpPosition s \<le> ckpt pos_of p s))"

lemma on_course_halted: "on_course pos_of p s0 L s \<Longrightarrow> halted pos_of p s0 L s"
  by (simp add: on_course_def halted_def Let_def)

lemma handle_each_append:
  "handle_each H (xs @ ys) h = (fst (handle_each H xs h) @ fst (handle_each H ys (snd (handle_each H xs h))),
     snd (handle_each H ys (snd (handle_each H xs h))))"
  by (induction xs arbitrary: h) (auto split: prod.splits)

lemma settled_grown: "settled a q L \<Longrightarrow> settled a q (L @ ext)"
  by (auto simp: settled_def)

lemma between_mid_grown:
  assumes "ascending (L @ ext)" "settled a q L" "settled a c L" "a \<le> c" "c \<le> q"
  shows "between c q (L @ ext) = between c q L"
proof (cases "q = a")
  case True
  then have "c = q" using assms(4,5) by simp
  then show ?thesis by (simp add: between_def filter_empty_conv)
next
  case False
  then have "settled c q L" using assms(2) by (auto simp: settled_def)
  then show ?thesis by (rule between_grown [OF assms(1)])
qed

lemma on_course_grown:
  assumes "on_course pos_of p s0 L s" "ascending (L @ ext)"
  shows "on_course pos_of p s0 (L @ ext) s"
  using assms between_grown [OF assms(2), of "position s0" "position s"]
    between_mid_grown [OF assms(2), of "position s0" "position s" "ckpt pos_of p s"]
  by (simp add: on_course_def Let_def settled_grown)

lemma halted_grown:
  assumes "halted pos_of p s0 L s" "ascending (L @ ext)"
  shows "halted pos_of p s0 (L @ ext) s"
  using assms between_grown [OF assms(2), of "position s0" "position s"]
    between_mid_grown [OF assms(2), of "position s0" "position s" "ckpt pos_of p s"]
  by (auto simp: halted_def Let_def settled_grown)

lemma on_course_later: "on_course pos_of p s0 L s \<Longrightarrow> later s s' \<Longrightarrow> on_course pos_of p s0 L s'"
  by (auto simp: on_course_def later_def ckpt_def others_kept_def Let_def)

text \<open>Handling part of what the log holds past the position.\<close>

lemma batch_on_course:
  assumes course: "on_course pos_of p s0 L s" and asc: "ascending L"
    and batch: "batch_handled pos_of p (take k (filter (\<lambda>e. position s < event_position e) L)) s b s' j m"
    and small: "checkpointEvery p \<le> max_int64"
  shows "if b then on_course pos_of p s0 L s' else halted pos_of p s0 L s'"
proof -
  define F where "F = filter (\<lambda>e. position s < event_position e) L"
  note c = course [unfolded on_course_def Let_def]
  note h = batch [unfolded batch_handled_def Let_def, folded F_def]
  have q: "position s0 \<le> position s" "settled (position s0) (position s) L"
      "position s0 \<le> ckpt pos_of p s" "ckpt pos_of p s \<le> position s"
      "settled (position s0) (ckpt pos_of p s) L"
      "sinceCheckpoint s = int (length (between (ckpt pos_of p s) (position s) L))"
      "others_kept pos_of p s0 s" "rs_handler s = snd (handle_each (pr_handle p)
        (between (position s0) (position s) L) (rs_handler s0))"
      "continueOnHandlerError p \<or> list_all (\<lambda>r. r = None) (fst (handle_each (pr_handle p)
        (between (position s0) (position s) L) (rs_handler s0)))"
      "caughtUp s \<longrightarrow> position s0 \<le> caughtUpPosition s \<and> caughtUpPosition s \<le> ckpt pos_of p s"
    using c by blast+
  have j: "m \<le> j" "j \<le> length F" "j \<le> k" using h by auto
  have take: "take j (take k F) = take j F" "pos_after q (take k F) j = pos_after q F j"
      "pos_after q (take k F) m = pos_after q F m" for q
    using j by (auto simp: pos_after_take min_absorb1)
  have pos: "position s' = pos_after (position s) F j" using h take by simp
  have F: "ascending F" "\<forall>e \<in> set F. position s < event_position e"
    using asc by (auto simp: F_def sorted_wrt_filter)
  have settled': "settled (position s0) (pos_after (position s) F i) L" if "i \<le> length F" for i
    using pos_after_settled [OF that, of L] q(2) by (auto simp: F_def)
  have ck: "ckpt pos_of p s' = (if m = 0 then ckpt pos_of p s else pos_after (position s) F m)"
    using h take by simp
  have le: "position s \<le> pos_after (position s) F i" for i by (rule pos_after_ge [OF F])
  define past where "past = between (position s0) (position s) L"
  have handled': "between (position s0) (position s') L = past @ take j F"
    using between_after [OF asc, of "position s0" "position s" j] q(1) j(2) unfolding pos past_def F_def by simp
  have seen': "handle_each (pr_handle p) (past @ take j F) (rs_handler s0)
      = (fst (handle_each (pr_handle p) past (rs_handler s0)) @ fst (handle_each (pr_handle p) (take j F) (rs_handler s)),
         snd (handle_each (pr_handle p) (take j F) (rs_handler s)))"
    by (simp add: handle_each_append past_def q(8))
  have ok: "continueOnHandlerError p \<or> list_all (\<lambda>r. r = None)
      (fst (handle_each (pr_handle p) (past @ take j F) (rs_handler s0)))"
  proof -
    have "continueOnHandlerError p
      \<or> list_all (\<lambda>r. r = None) (fst (handle_each (pr_handle p) (take j F) (rs_handler s)))"
      using h unfolding take(1) by blast
    then show ?thesis using q(9) [folded past_def] unfolding seen' by auto
  qed
  have bounds: "position s0 \<le> ckpt pos_of p s'" "ckpt pos_of p s' \<le> position s'"
      "settled (position s0) (ckpt pos_of p s') L" "ckpt pos_of p s \<le> ckpt pos_of p s'"
    using q(3-5) ck le [of m] le [of j] pos_after_mono [OF F j(1)] settled' [of m] j unfolding pos
    by (cases "m = 0"; simp)+
  have pending: "int (length (between (ckpt pos_of p s') (position s') L))
      = (if m = 0 then sinceCheckpoint s + int j else int j - int m)"
  proof (cases "m = 0")
    case True
    then show ?thesis
      using between_after [OF asc, of "ckpt pos_of p s" "position s" j] q(4,6) j(2) ck unfolding pos F_def by simp
  next
    case False
    then show ?thesis
      using between_pending [OF asc, of j "position s" m] j(1,2) ck unfolding pos F_def by simp
  qed
  have beyond: "filter (\<lambda>e. position s' < event_position e) L = drop j F"
    using filter_beyond [OF asc, of j "position s"] j(2) unfolding pos F_def by simp
  have more: "\<exists>e es. drop j F = e # es \<and> rs_handler s' = snd (pr_handle p (Some e) (snd (handle_each (pr_handle p) (take j F) (rs_handler s))))"
    if "j < length (take k F)" "rs_handler s' = snd (handle_each (pr_handle p) (take (Suc j) (take k F)) (rs_handler s))"
  proof -
    have "take (Suc j) (take k F) = take j F @ [F ! j]"
      using that(1) take(1) by (simp add: take_Suc_conv_app_nth)
    moreover have "drop j F = F ! j # drop (Suc j) F" using that(1) by (simp add: Cons_nth_drop_Suc)
    ultimately show ?thesis
      using that(2) by (auto simp: handle_each_append split: prod.splits)
  qed
  have common: "position s0 \<le> position s'" "settled (position s0) (position s') L" "others_kept pos_of p s0 s'"
      "caughtUp s' \<longrightarrow> position s0 \<le> caughtUpPosition s' \<and> caughtUpPosition s' \<le> ckpt pos_of p s'"
  proof -
    have "caughtUp s' = caughtUp s" "caughtUpPosition s' = caughtUpPosition s" "others_kept pos_of p s s'"
      using h by blast+
    then show "position s0 \<le> position s'" "settled (position s0) (position s') L" "others_kept pos_of p s0 s'"
      "caughtUp s' \<longrightarrow> position s0 \<le> caughtUpPosition s' \<and> caughtUpPosition s' \<le> ckpt pos_of p s'"
      using q(1,10) le [of j] settled' [OF j(2)] pos bounds(4) others_kept_trans [OF q(7)] by auto
  qed
  have counted: "int (length (between (ckpt pos_of p s') (position s') L)) \<le> checkpointEvery p"
    and since: "b \<longrightarrow> sinceCheckpoint s' = int (length (between (ckpt pos_of p s') (position s') L))
      \<and> sinceCheckpoint s' < checkpointEvery p"
    using h unfolding pending by simp_all
  have next_event: "rs_handler s' = snd (handle_each (pr_handle p) (take j F) (rs_handler s)) \<or>
      (\<exists>e es. drop j F = e # es \<and> rs_handler s' = snd (pr_handle p (Some e) (snd (handle_each (pr_handle p) (take j F) (rs_handler s)))))"
    and whole: "b \<longrightarrow> rs_handler s' = snd (handle_each (pr_handle p) (take j F) (rs_handler s))"
    using h more unfolding take(1) by blast+
  show ?thesis
  proof (cases b)
    case True
    have "on_course pos_of p s0 L s'"
      unfolding on_course_def Let_def handled' seen'
      using common ok [unfolded seen'] bounds(1-3) since whole True by (intro conjI) simp_all
    then show ?thesis using True by simp
  next
    case False
    have "halted pos_of p s0 L s'"
      unfolding halted_def Let_def handled' seen' beyond snd_conv
      using common ok [unfolded seen'] bounds(1-3) counted next_event by (intro conjI) simp_all
    then show ?thesis using False by simp
  qed
qed

section \<open>The processor over its contracts\<close>

locale processing =
  global_reader "pr_readAll p" "pr_next p" "pr_close p" log valid +
  checkpoint_contract position_of "pr_load p" "pr_save p" delete
  for p :: "('db, 'i, 'c, 'h) processor" and log valid position_of delete +
  fixes dbs :: "nat \<Rightarrow> 'db"
  assumes batch_pos: "1 \<le> batchSize p"
    and every_pos: "1 \<le> checkpointEvery p" "checkpointEvery p \<le> max_int64"
    and dbs_valid: "valid (dbs n)"
    and grows: "i \<le> j \<Longrightarrow> \<exists>ext. log (dbs j) = log (dbs i) @ ext"
begin

lemma saveCheckpoint_cases:
  assumes "saveCheckpoint p s = (r, s')"
  shows "position s' = position s \<and> rs_handler s' = rs_handler s \<and> clock s' = clock s
    \<and> caughtUp s' = caughtUp s \<and> caughtUpPosition s' = caughtUpPosition s \<and> running s' = running s
    \<and> others_kept position_of p s s'
    \<and> (ckpt position_of p s' = position s \<or> r \<noteq> None \<and> ckpt position_of p s' = ckpt position_of p s)
    \<and> (r = None \<longrightarrow> sinceCheckpoint s' = 0 \<and> ckpt position_of p s' = position s
        \<and> position_of (rs_store s') (pr_id p) = Some (position s))"
proof -
  obtain r0 c where save: "pr_save p (rs_store s) (pr_id p) (position s) = (r0, c)" by fastforce
  note facts = save_cases [OF save]
  show ?thesis
    using assms save facts
    by (cases r0) (auto simp: saveCheckpoint_def ckpt_def others_kept_def split: option.splits)
qed

lemma batch_handled_stop:
  assumes "0 \<le> sinceCheckpoint s" "sinceCheckpoint s \<le> checkpointEvery p" "later s s'"
  shows "batch_handled position_of p (e # es) s False s' 0 0"
  using assms(1,2) later_fields [OF assms(3)]
  by (simp add: batch_handled_def others_kept_def ckpt_def)

lemma handle_batch_spec:
  assumes "handle_batch ctx p readErr (with_positions es) s = (r, s')"
    and "0 \<le> sinceCheckpoint s" "sinceCheckpoint s < checkpointEvery p"
  shows "\<exists>j m. batch_handled position_of p es s (r = None) s' j m"
  using assms
proof (induction es arbitrary: s)
  case Nil
  then show ?case
    by (intro exI [of _ 0]) (auto simp: batch_handled_def others_kept_def Let_def)
next
  case (Cons e es)
  obtain c1 s1 where c1: "ctx_Err ctx s = (c1, s1)" by fastforce
  have late: "later s s1" using ctx_Err_later [OF c1] by simp
  note f = later_fields [OF late]
  show ?case
  proof (cases c1)
    case (Some c)
    then have "s' = s1 \<and> r \<noteq> None" using Cons.prems(1) c1 by auto
    then show ?thesis using batch_handled_stop [OF _ _ late] Cons.prems(2,3) by fastforce
  next
    case None
    obtain rh h where rh: "pr_handle p (Some e) (rs_handler s1) = (rh, h)" by fastforce
    show ?thesis
    proof (cases "rh \<noteq> None \<and> \<not> continueOnHandlerError p")
      case True
      then have "s' = s1\<lparr>rs_handler := h\<rparr> \<and> r \<noteq> None" using Cons.prems(1) c1 None rh by auto
      then have "batch_handled position_of p (e # es) s (r = None) s' 0 0"
        using f rh Cons.prems(2,3) by (simp add: batch_handled_def others_kept_def ckpt_def)
      then show ?thesis by blast
    next
      case False
      define s3 where "s3 = s1\<lparr>rs_handler := h, position := event_position e,
        sinceCheckpoint := wrap64 (sinceCheckpoint s1 + 1)\<rparr>"
      have since: "sinceCheckpoint s3 = sinceCheckpoint s + 1"
        using Cons.prems(2,3) every_pos f by (simp add: s3_def in64_nonneg)
      have s3: "position s3 = event_position e" "clock s \<le> clock s3" "caughtUp s3 = caughtUp s"
        "caughtUpPosition s3 = caughtUpPosition s" "running s3 = running s" "others_kept position_of p s s3"
        "rs_handler s3 = h" "ckpt position_of p s3 = ckpt position_of p s"
        using f by (simp_all add: s3_def others_kept_def ckpt_def)
      have ok: "rh = None \<or> continueOnHandlerError p" using False by blast
      have first: "pr_handle p (Some e) (rs_handler s) = (rh, rs_handler s3)" using rh f s3 by simp
      show ?thesis
      proof (cases "checkpointEvery p \<le> sinceCheckpoint s3")
        case due: True
        obtain rs s4 where sv: "saveCheckpoint p s3 = (rs, s4)" by fastforce
        note saved = saveCheckpoint_cases [OF sv]
        show ?thesis
        proof (cases rs)
          case (Some err)
          have "s' = s4 \<and> r \<noteq> None"
            using Cons.prems(1) c1 None rh False due sv Some by (auto simp: s3_def Let_def)
          moreover have "clock s \<le> clock s4" "others_kept position_of p s s4"
            using saved s3 others_kept_trans by auto
          ultimately have "batch_handled position_of p (e # es) s (r = None) s' 1
              (if ckpt position_of p s4 = position s3 then 1 else 0)"
            using saved s3 ok rh f Cons.prems(2,3) since every_pos Some
            unfolding batch_handled_def Let_def by (intro conjI) (simp_all split: prod.splits, auto)
          then show ?thesis by blast
        next
          case none: None
          have rec: "handle_batch ctx p readErr (with_positions es) s4 = (r, s')"
            using Cons.prems(1) c1 None rh False due sv none by (auto simp: s3_def Let_def)
          have "0 \<le> sinceCheckpoint s4" "sinceCheckpoint s4 < checkpointEvery p"
            using saved none every_pos by auto
          from Cons.IH [OF rec this] obtain j m where "batch_handled position_of p es s4 (r = None) s' j m" by blast
          moreover have "rs_handler s4 = rs_handler s3" "position s4 = event_position e" "clock s \<le> clock s4"
            "caughtUp s4 = caughtUp s" "caughtUpPosition s4 = caughtUpPosition s" "running s4 = running s"
            "others_kept position_of p s s4" "sinceCheckpoint s4 = 0" "ckpt position_of p s4 = event_position e"
            using saved none s3 others_kept_trans by auto
          ultimately show ?thesis
            using batch_handled_Cons [of position_of p es s4 "r = None" s' j m e s rh "Suc m"] first ok by auto
        qed
      next
        case False
        have rec: "handle_batch ctx p readErr (with_positions es) s3 = (r, s')"
          using Cons.prems(1) c1 None rh ok False by (auto simp: s3_def Let_def)
        have "0 \<le> sinceCheckpoint s3" "sinceCheckpoint s3 < checkpointEvery p"
          using since False Cons.prems(2) by auto
        from Cons.IH [OF rec this] obtain j m where "batch_handled position_of p es s3 (r = None) s' j m" by blast
        from batch_handled_Cons [OF this first ok s3(1-6), of "if m = 0 then 0 else Suc m"] since s3(8)
        show ?thesis by blast
      qed
    qed
  qed
qed

end

end
