(* ===== verification/ProcessorRun.thy ===== *)
theory ProcessorRun
  imports ProcessorProps
begin

text \<open>
  The processor's loop: a drain, a cycle and a whole run keep the invariant of \<open>ProcessorProps\<close>
  over readers and checkpoint stores that keep their contracts; a run whose context ends returns;
  over a healthy reader and store a run that is given the time catches up with the log.
\<close>

section \<open>A drain\<close>

context processing
begin

lemma log_facts: "ascending (log (dbs n))" "list_all (\<lambda>e. ev_GlobalPosition e \<noteq> None) (log (dbs n))"
  using ordered [OF dbs_valid [of n]] by (auto simp: log_ordered_def list_all_iff)

lemma course_grows:
  assumes "i \<le> n"
  shows "on_course position_of p s0 (log (dbs i)) s \<Longrightarrow> on_course position_of p s0 (log (dbs n)) s"
    and "halted position_of p s0 (log (dbs i)) s \<Longrightarrow> halted position_of p s0 (log (dbs n)) s"
  using grows [OF assms] log_facts(1) [of n] on_course_grown halted_grown by fastforce+

lemma course_later:
  assumes "on_course position_of p s0 (log (dbs (clock s))) s" "later s s'"
  shows "on_course position_of p s0 (log (dbs (clock s'))) s'"
  using on_course_later [OF assms] course_grows(1) [of "clock s" "clock s'"] later_fields(8) [OF assms(2)] by blast

lemma since_bounds: "on_course position_of p s0 L s \<Longrightarrow> 0 \<le> sinceCheckpoint s \<and> sinceCheckpoint s < checkpointEvery p"
  by (simp add: on_course_def Let_def)

text \<open>What a drain may read past its position: all of it, when fewer events than the limit came.\<close>

lemma view_of_batch:
  "read_all_view L \<lparr>AfterPosition = q, ra_Count = batchSize p\<rparr>
     = take (nat (batchSize p)) (filter (\<lambda>e. q < event_position e) L)"
  using batch_pos by (simp add: read_all_view_def limited_def event_position_def)

definition steady :: "('c, 'h) run_state \<Rightarrow> ('c, 'h) run_state \<Rightarrow> bool" where
  "steady s s' \<longleftrightarrow> clock s \<le> clock s' \<and> caughtUp s' = caughtUp s
     \<and> caughtUpPosition s' = caughtUpPosition s \<and> running s' = running s"

lemma steady_later: "later s s' \<Longrightarrow> steady s s'"
  by (auto simp: steady_def later_def)

lemma steady_trans: "steady s t \<Longrightarrow> steady t u \<Longrightarrow> steady s u"
  by (simp add: steady_def)

lemma drain_spec:
  assumes dr: "drain dbs ctx p s = (r, s')"
    and course: "on_course position_of p s0 (log (dbs (clock s))) s"
  shows "steady s s' \<and> (case r of
      Inl err \<Rightarrow> halted position_of p s0 (log (dbs (clock s'))) s'
    | Inr atHead \<Rightarrow> on_course position_of p s0 (log (dbs (clock s'))) s'
        \<and> (atHead \<longrightarrow> filter (\<lambda>e. position s' < event_position e) (log (dbs (clock s))) = []))"
proof -
  let ?L = "log (dbs (clock s))"
  have stop: "steady s t \<and> halted position_of p s0 (log (dbs (clock t))) t" if "later s t" for t
    using course_later [OF course that] on_course_halted steady_later [OF that] by blast
  show ?thesis
  proof (cases "pr_readAll p (dbs (clock s)) \<lparr>AfterPosition = position s, ra_Count = batchSize p\<rparr>")
    case (Inl err)
    obtain c1 s1 where c1: "ctx_Err ctx s = (c1, s1)" by fastforce
    then show ?thesis
      using dr Inl stop [of s1] ctx_Err_later [OF c1] by (auto simp: drain_def Let_def split: option.splits)
  next
    case read: (Inr oi)
    show ?thesis
    proof (cases oi)
      case None
      then show ?thesis using dr read stop [of s] by (auto simp: drain_def)
    next
      case (Some iter)
      let ?F = "filter (\<lambda>e. position s < event_position e) ?L"
      let ?es = "take (nat (batchSize p)) ?F"
      obtain events readErr iter' s1 where rb: "read_batch ctx p iter [] s = (events, readErr, iter', s1)"
        by (metis prod_cases4)
      have faith: "faithful (pr_next p) iter ?es"
        using read_faithful [OF dbs_valid] read Some view_of_batch by metis
      have "list_all (\<lambda>e. ev_GlobalPosition e \<noteq> None) ?es"
        using log_facts(2) [of "clock s"] by (auto simp: list_all_iff dest: in_set_takeD)
      from read_batch_spec [OF faith this rb] obtain k where k: "k \<le> length ?es"
        "events = with_positions (take k ?es)" "later s s1"
        "readErr = None \<longrightarrow> k = length ?es \<or> batchSize p \<le> int (length events)"
        unfolding append_Nil by blast
      obtain c2 s2 where c2: "ctx_Err ctx s1 = (c2, s2)" by fastforce
      have late2: "later s s2" using later_trans [OF k(3)] ctx_Err_later [OF c2] by blast
      define rest where "rest = handle_batch ctx p readErr events s2"
      show ?thesis
      proof (cases "pr_close p iter' \<noteq> None \<or> c2 \<noteq> None")
        case True
        then have "s' = s2 \<and> (\<exists>err. r = Inl err)"
          using dr read Some rb c2 by (auto simp: drain_def Let_def split: option.splits)
        then show ?thesis using stop [OF late2] by auto
      next
        case False
        obtain rh s3 where hb: "handle_batch ctx p readErr events s2 = (rh, s3)" by fastforce
        have course2: "on_course position_of p s0 ?L s2" using on_course_later [OF course late2] .
        have part: "take k ?es = take (min k (nat (batchSize p))) ?F" by (simp add: min.commute)
        obtain j m where bh: "batch_handled position_of p (take k ?es) s2 (rh = None) s3 j m"
          using handle_batch_spec [of ctx readErr "take k ?es" s2 rh s3] hb k(2) since_bounds [OF course2] by auto
        have res: "if rh = None then on_course position_of p s0 ?L s3 else halted position_of p s0 ?L s3"
          using batch_on_course [OF course2 log_facts(1) _ every_pos(2)] bh part later_fields(1) [OF late2] by metis
        have st3: "steady s s3"
          using bh steady_later [OF late2] by (auto simp: steady_def batch_handled_def)
        show ?thesis
        proof (cases rh)
          case (Some err)
          then have "s' = s3 \<and> r = Inl err"
            using dr read \<open>oi = Some iter\<close> rb c2 False hb by (auto simp: drain_def Let_def)
          then show ?thesis using res Some st3 course_grows(2) [of "clock s" "clock s3" s0 s3]
            by (auto simp: steady_def)
        next
          case None
          obtain c4 s4 where c4: "ctx_Err ctx s3 = (c4, s4)" by fastforce
          have late4: "later s3 s4" using ctx_Err_later [OF c4] by blast
          have st4: "steady s s4" using steady_trans [OF st3 steady_later [OF late4]] .
          have course4: "on_course position_of p s0 (log (dbs (clock s4))) s4"
            using res None on_course_later [OF _ late4] course_grows(1) [of "clock s" "clock s4" s0 s4] st4
            by (auto simp: steady_def)
          have out: "s' = s4 \<and> r = (case c4 of Some c \<Rightarrow> Inl (joinCancellation c readErr)
              | None \<Rightarrow> (case readErr of Some err \<Rightarrow> Inl err | None \<Rightarrow> Inr (int (length events) < batchSize p)))"
            using dr read Some rb c2 False hb None c4
            by (auto simp: drain_def Let_def split: option.splits)
          show ?thesis
          proof (cases "c4 = None \<and> readErr = None")
            case True
            have "filter (\<lambda>e. position s4 < event_position e) ?L = []" if "int (length events) < batchSize p"
            proof -
              have full: "k = length ?es" "length ?es = length ?F"
                using k True that by auto
              then have "j = length ?F" "take k ?es = ?F"
                using bh None by (auto simp: batch_handled_def)
              then have "position s3 = pos_after (position s) ?F (length ?F)"
                using bh later_fields(1) [OF late2] by (simp add: batch_handled_def)
              then show ?thesis
                using filter_beyond [OF log_facts(1), of "length ?F" "position s"] later_fields(1) [OF late4] by simp
            qed
            then show ?thesis using out True st4 course4 by simp
          next
            case False
            then obtain err where "r = Inl err" using out by (auto split: option.splits)
            then show ?thesis using out st4 on_course_halted [OF course4] by simp
          qed
        qed
      qed
    qed
  qed
qed

end

section \<open>A cycle and a run\<close>

context processing
begin

text \<open>
  Catching up happens once: the certified position was the head of the log at some moment since,
  and a later state has the same one.
\<close>

definition certified :: "('c, 'h) run_state \<Rightarrow> ('c, 'h) run_state \<Rightarrow> bool" where
  "certified s0 s \<longleftrightarrow> (if caughtUp s0 then caughtUp s \<and> caughtUpPosition s = caughtUpPosition s0
     else caughtUp s \<longrightarrow> (\<exists>n. clock s0 \<le> n \<and> n \<le> clock s
       \<and> (\<forall>e \<in> set (log (dbs n)). event_position e \<le> caughtUpPosition s)))"

lemma certified_steady: "certified s0 s \<Longrightarrow> steady s s' \<Longrightarrow> certified s0 s'"
  unfolding certified_def steady_def by (metis order_trans)

lemma certified_later: "certified s0 s \<Longrightarrow> later s s' \<Longrightarrow> certified s0 s'"
  using certified_steady steady_later by blast

lemma save_on_course:
  assumes "on_course position_of p s0 L s" "saveCheckpoint p s = (r, s')"
  shows "if r = None then on_course position_of p s0 L s' \<and> ckpt position_of p s' = position s'
    else halted position_of p s0 L s'"
proof -
  note saved = saveCheckpoint_cases [OF assms(2)]
  have others: "others_kept position_of p s0 s'"
    using assms(1) saved others_kept_trans unfolding on_course_def Let_def by blast
  have kept: "position s' = position s" "rs_handler s' = rs_handler s" "caughtUp s' = caughtUp s"
    "caughtUpPosition s' = caughtUpPosition s" using saved by blast+
  have empty: "between (position s) (position s) L = []" by (simp add: between_def filter_empty_conv)
  note q = assms(1) [unfolded on_course_def Let_def]
  have ends: "position s0 \<le> ckpt position_of p s'" "ckpt position_of p s' \<le> position s"
    "settled (position s0) (ckpt position_of p s') L" "ckpt position_of p s \<le> ckpt position_of p s'"
    "int (length (between (ckpt position_of p s') (position s) L)) \<le> checkpointEvery p"
  proof -
    consider "ckpt position_of p s' = position s" | "ckpt position_of p s' = ckpt position_of p s"
      using saved by blast
    then show "position s0 \<le> ckpt position_of p s'" "ckpt position_of p s' \<le> position s"
      "settled (position s0) (ckpt position_of p s') L" "ckpt position_of p s \<le> ckpt position_of p s'"
      "int (length (between (ckpt position_of p s') (position s) L)) \<le> checkpointEvery p"
      using q every_pos empty by (cases; simp)+
  qed
  have caught: "caughtUp s \<longrightarrow> position s0 \<le> caughtUpPosition s \<and> caughtUpPosition s \<le> ckpt position_of p s'"
    using q ends(4) by auto
  have halt: "halted position_of p s0 L s'"
    unfolding halted_def Let_def kept using q ends others caught by (intro conjI) simp_all
  have "on_course position_of p s0 L s' \<and> ckpt position_of p s' = position s'" if "r = None"
  proof -
    have now: "ckpt position_of p s' = position s" "sinceCheckpoint s' = 0" using saved that by blast+
    show ?thesis
      unfolding on_course_def Let_def kept now empty
      using q others caught [unfolded now] every_pos by (intro conjI) simp_all
  qed
  then show ?thesis using halt by simp
qed

text \<open>An invariant of the cycle, and what an error leaves.\<close>

definition going :: "('c, 'h) run_state \<Rightarrow> ('c, 'h) run_state \<Rightarrow> bool" where
  "going s0 s \<longleftrightarrow> on_course position_of p s0 (log (dbs (clock s))) s \<and> certified s0 s \<and> clock s0 \<le> clock s"

definition stopped :: "('c, 'h) run_state \<Rightarrow> ('c, 'h) run_state \<Rightarrow> bool" where
  "stopped s0 s \<longleftrightarrow> halted position_of p s0 (log (dbs (clock s))) s \<and> certified s0 s \<and> clock s0 \<le> clock s"

lemma going_stopped: "going s0 s \<Longrightarrow> stopped s0 s"
  by (simp add: going_def stopped_def on_course_halted)

lemma going_later: "going s0 s \<Longrightarrow> later s s' \<Longrightarrow> going s0 s'"
  using course_later certified_later later_fields(8) unfolding going_def by fastforce

lemma ctx_going: "going s0 s \<Longrightarrow> ctx_Err ctx s = (c, s') \<Longrightarrow> going s0 s'"
  using going_later ctx_Err_later by blast

lemma drain_going:
  assumes "going s0 s" "drain dbs ctx p s = (r, s')"
  shows "(case r of Inl err \<Rightarrow> stopped s0 s' | Inr atHead \<Rightarrow> going s0 s' \<and> clock s \<le> clock s'
    \<and> (atHead \<longrightarrow> (\<forall>e \<in> set (log (dbs (clock s))). event_position e \<le> position s')))"
proof -
  have g: "on_course position_of p s0 (log (dbs (clock s))) s" "certified s0 s" "clock s0 \<le> clock s"
    using assms(1) by (simp_all add: going_def)
  note d = drain_spec [OF assms(2) g(1)]
  have "certified s0 s'" "clock s0 \<le> clock s'" "clock s \<le> clock s'"
    using d certified_steady [OF g(2)] g(3) by (auto simp: steady_def)
  then show ?thesis
    using d by (auto simp: going_def stopped_def filter_empty_conv not_less split: sum.splits)
qed

lemma run_cycle_going:
  assumes "going s0 s" "run_cycle dbs ctx p s = (r, s')"
  shows "if r = None then going s0 s' else stopped s0 s'"
proof -
  obtain c1 s1 where c1: "ctx_Err ctx s = (c1, s1)" by fastforce
  obtain d s2 where d: "drain dbs ctx p s1 = (d, s2)" by fastforce
  obtain c3 s3 where c3: "ctx_Err ctx s2 = (c3, s3)" by fastforce
  obtain rs s4 where sv: "saveCheckpoint p s3 = (rs, s4)" by fastforce
  obtain c5 s5 where c5: "ctx_Err ctx s4 = (c5, s5)" by fastforce
  define s6 where "s6 = (if caughtUp s5 then s5 else s5\<lparr>caughtUpPosition := position s5, caughtUp := True\<rparr>)"
  obtain c7 s7 where c7: "ctx_Err ctx s6 = (c7, s7)" by fastforce
  have g1: "going s0 s1" by (rule ctx_going [OF assms(1) c1])
  note dg = drain_going [OF g1 d]
  show ?thesis
  proof (cases "c1 = None \<and> d = Inr True")
    case False
    then show ?thesis
      using assms(2) c1 d dg g1 going_stopped by (auto simp: run_cycle_def split: option.splits sum.splits)
  next
    case True
    then have g2: "going s0 s2" and head: "\<forall>e \<in> set (log (dbs (clock s1))). event_position e \<le> position s2"
      and n: "clock s1 \<le> clock s2" using dg by auto
    have g3: "going s0 s3" by (rule ctx_going [OF g2 c3])
    note saved = saveCheckpoint_cases [OF sv]
    have st: "steady s3 s4" using saved by (simp add: steady_def)
    have cert4: "certified s0 s4" using g3 certified_steady [OF _ st] by (simp add: going_def)
    have oc4: "if rs = None then on_course position_of p s0 (log (dbs (clock s4))) s4 \<and> ckpt position_of p s4 = position s4
        else halted position_of p s0 (log (dbs (clock s4))) s4"
      using save_on_course [OF _ sv] g3 saved by (simp add: going_def)
    have n4: "clock s0 \<le> clock s4" using g3 saved by (simp add: going_def)
    show ?thesis
    proof (cases "c3 = None \<and> rs = None")
      case False
      then show ?thesis
        using assms(2) c1 d True c3 sv g3 oc4 cert4 n4 going_stopped [OF g3]
        by (auto simp: run_cycle_def stopped_def split: option.splits)
    next
      case ok: True
      then have "going s0 s4" using oc4 cert4 n4 by (simp add: going_def)
      then have g5: "going s0 s5" by (rule ctx_going [OF _ c5])
      have late5: "later s4 s5" using ctx_Err_later [OF c5] by simp
      note f5 = later_fields [OF late5]
      have late3: "later s2 s3" using ctx_Err_later [OF c3] by simp
      have pos5: "position s5 = position s2" "ckpt position_of p s5 = position s5" "clock s1 \<le> clock s5"
        using f5 saved later_fields [OF late3] oc4 ok n by (auto simp: ckpt_def)
      have g6: "going s0 s6"
      proof (cases "caughtUp s5")
        case False
        have "on_course position_of p s0 (log (dbs (clock s6))) s6"
          using g5 pos5(2) False unfolding going_def on_course_def Let_def s6_def by (simp add: ckpt_def others_kept_def)
        moreover have "certified s0 s6"
          using head pos5 g1 g5 False unfolding certified_def s6_def going_def by (auto split: if_splits)
        ultimately show ?thesis using g5 False by (simp add: going_def s6_def)
      qed (use g5 in \<open>simp add: s6_def\<close>)
      have "s' = (if c5 = None then s7 else s5) \<and> (r = None \<longrightarrow> c5 = None)"
        using assms(2) c1 d True c3 sv ok c5 c7 by (auto simp: run_cycle_def s6_def Let_def split: option.splits)
      then show ?thesis using g5 ctx_going [OF g6 c7] going_stopped by auto
    qed
  qed
qed

lemma run_loop_stops:
  assumes "run_loop dbs ctx p s = Some (err, s')" "going s0 s"
  shows "stopped s0 s'"
proof -
  have "dbs = dbs \<longrightarrow> p = p \<longrightarrow> going s0 s \<longrightarrow> stopped s0 (snd (err, s'))"
  proof (rule run_loop.raw_induct [where P = "\<lambda>dbs' ctx' p' s r. dbs' = dbs \<longrightarrow> p' = p \<longrightarrow> going s0 s \<longrightarrow> stopped s0 (snd r)",
        OF _ assms(1)], intro impI)
    fix run dbs' ctx' p' t y
    assume IH: "\<And>dbs' ctx p' s y. run dbs' ctx p' s = Some y \<Longrightarrow> dbs' = dbs \<longrightarrow> p' = p \<longrightarrow> going s0 s \<longrightarrow> stopped s0 (snd y)"
      and "(case run_cycle dbs' ctx' p' t of (None, s') \<Rightarrow> run dbs' ctx' p' s' | (Some err, s') \<Rightarrow> Some (err, s')) = Some y"
      "dbs' = dbs" "p' = p" "going s0 t"
    then show "stopped s0 (snd y)"
      using run_cycle_going [of s0 t ctx'] by (auto split: prod.splits option.splits)
  qed
  then show ?thesis using assms(2) by simp
qed

lemma Run_outcome:
  assumes run: "Processor_Run dbs ctx p (new_run_state c h n) = Some (err, s')"
  shows "case loadPosition p (new_run_state c h n) of
      Inl e \<Rightarrow> err = e \<and> rs_handler s' = h \<and> rs_store s' = c \<and> \<not> caughtUp s'
    | Inr start \<Rightarrow> stopped ((new_run_state c h n)\<lparr>position := start\<rparr>) s'
        \<and> ckpt position_of p (new_run_state c h n) = start"
proof -
  let ?s = "(new_run_state c h n)\<lparr>running := True\<rparr>"
  have lp: "loadPosition p (new_run_state c h n) = loadPosition p ?s"
    by (simp add: loadPosition_def)
  show ?thesis
  proof (cases "loadPosition p ?s")
    case (Inl e)
    then show ?thesis using run unfolding lp by (auto simp: Processor_Run_def new_run_state_def Let_def)
  next
    case (Inr pos)
    have pos: "ckpt position_of p (new_run_state c h n) = pos"
      using Inr load_cases [of c "pr_id p"]
      by (auto simp: loadPosition_def new_run_state_def ckpt_def split: sum.splits if_splits)
    have loop: "run_loop dbs ctx p (?s\<lparr>position := pos\<rparr>) = Some (err, s')"
      using run Inr by (simp add: Processor_Run_def new_run_state_def Let_def)
    have "going ((new_run_state c h n)\<lparr>position := pos\<rparr>) (?s\<lparr>position := pos\<rparr>)"
      using every_pos pos unfolding going_def on_course_def Let_def certified_def
      by (simp add: new_run_state_def ckpt_def others_kept_def settled_def between_def filter_empty_conv)
    from run_loop_stops [OF loop this] show ?thesis using Inr lp pos by simp
  qed
qed

lemma new_run_state_fields [simp]:
  "rs_handler (new_run_state c h n) = h" "rs_store (new_run_state c h n) = c" "clock (new_run_state c h n) = n"
  "\<not> caughtUp (new_run_state c h n)" "\<not> running (new_run_state c h n)" "position (new_run_state c h n) = 0"
  by (simp_all add: new_run_state_def)

text \<open>What a run that has returned has handled, checkpointed and certified.\<close>

lemma Run_handled:
  assumes "Processor_Run dbs ctx p (new_run_state c h n) = Some (err, s')"
    and "loadPosition p (new_run_state c h n) = Inr start"
  shows "start \<le> position s' \<and>
    (let L = log (dbs (clock s')); past = between start (position s') L; seen = handle_each (pr_handle p) past h in
      (rs_handler s' = snd seen
         \<or> (\<exists>e es. filter (\<lambda>e. position s' < event_position e) L = e # es
              \<and> rs_handler s' = snd (pr_handle p (Some e) (snd seen))))
      \<and> (continueOnHandlerError p \<or> list_all (\<lambda>r. r = None) (fst seen)))"
  using Run_outcome [OF assms(1)] assms(2) by (simp add: stopped_def halted_def Let_def)

lemma Run_checkpointed:
  assumes "Processor_Run dbs ctx p (new_run_state c h n) = Some (err, s')"
    and "loadPosition p (new_run_state c h n) = Inr start"
  shows "start \<le> ckpt position_of p s' \<and> ckpt position_of p s' \<le> position s'
    \<and> int (length (between (ckpt position_of p s') (position s') (log (dbs (clock s'))))) \<le> checkpointEvery p
    \<and> (\<forall>i. i \<noteq> pr_id p \<longrightarrow> position_of (rs_store s') i = position_of c i)"
  using Run_outcome [OF assms(1)] assms(2) by (simp add: stopped_def halted_def Let_def others_kept_def)

lemma Run_certified:
  assumes "Processor_Run dbs ctx p (new_run_state c h n) = Some (err, s')" "caughtUp s'"
  shows "caughtUpPosition s' \<le> ckpt position_of p s' \<and> (\<exists>m. n \<le> m \<and> m \<le> clock s'
    \<and> (\<forall>e \<in> set (log (dbs m)). event_position e \<le> caughtUpPosition s'))"
  using Run_outcome [OF assms(1)] assms(2)
  by (auto simp: stopped_def halted_def Let_def certified_def split: sum.splits)

end

section \<open>A run whose context ends returns\<close>

text \<open>This needs no contract: every iteration consults the context.\<close>

lemma ctx_Err_clock: "ctx_Err ctx s = (r, s') \<Longrightarrow> clock s' = Suc (clock s) \<and> r = ctx (clock s)"
  using ctx_Err_later by blast

lemma read_batch_clock: "read_batch ctx p it events s = (events', err, it', s') \<Longrightarrow> clock s \<le> clock s'"
proof (induction ctx p it events s arbitrary: events' err it' s' rule: read_batch.induct)
  case (1 ctx p it events s)
  note step = read_batch.simps [of ctx p it events s]
  obtain c1 s1 where c1: "ctx_Err ctx s = (c1, s1)" by fastforce
  obtain r it1 where r: "pr_next p it = (r, it1)" by fastforce
  obtain c2 s2 where c2: "ctx_Err ctx s1 = (c2, s2)" by fastforce
  have n: "clock s \<le> clock s1" "clock s \<le> clock s2"
    using ctx_Err_clock [OF c1] ctx_Err_clock [OF c2] by simp_all
  show ?case
  proof (cases "int (length events) < batchSize p \<and> c1 = None \<and> c2 = None \<and>
      (\<exists>e pos. r = Inr (Some e) \<and> ev_GlobalPosition e = Some pos)")
    case True
    then show ?thesis using 1 c1 r c2 n by (fastforce simp: step)
  next
    case False
    then show ?thesis
      using 1(2) c1 r c2 n unfolding step
      by (auto split: if_splits option.splits sum.splits)
  qed
qed

lemma saveCheckpoint_clock: "saveCheckpoint p s = (r, s') \<Longrightarrow> clock s' = clock s"
  by (auto simp: saveCheckpoint_def split: prod.splits option.splits)

lemma handle_batch_clock: "handle_batch ctx p readErr es s = (r, s') \<Longrightarrow> clock s \<le> clock s'"
proof (induction ctx p readErr es s arbitrary: r s' rule: handle_batch.induct)
  case (2 ctx p readErr event pos events s)
  obtain c1 s1 where c1: "ctx_Err ctx s = (c1, s1)" by fastforce
  obtain rh h where rh: "pr_handle p (Some event) (rs_handler s1) = (rh, h)" by fastforce
  define s3 where "s3 = s1\<lparr>rs_handler := h, position := pos, sinceCheckpoint := wrap64 (sinceCheckpoint s1 + 1)\<rparr>"
  obtain rs s4 where sv: "saveCheckpoint p s3 = (rs, s4)" by fastforce
  have n: "clock s \<le> clock s1" "clock s3 = clock s1" "clock s4 = clock s1"
    using ctx_Err_clock [OF c1] saveCheckpoint_clock [OF sv] by (simp_all add: s3_def)
  show ?case
    using 2 c1 rh sv n unfolding s3_def
    by (fastforce simp: Let_def split: option.splits if_splits)
qed simp

lemma drain_clock: "drain dbs ctx p s = (r, s') \<Longrightarrow> clock s \<le> clock s'"
  by (auto simp: drain_def Let_def split: sum.splits option.splits prod.splits if_splits
      dest!: ctx_Err_clock read_batch_clock handle_batch_clock)

lemma run_cycle_clock:
  assumes "run_cycle dbs ctx p s = (None, s')"
  shows "clock s < clock s' \<and> ctx (clock s) = None"
proof -
  obtain c1 s1 where c1: "ctx_Err ctx s = (c1, s1)" by fastforce
  obtain d s2 where d: "drain dbs ctx p s1 = (d, s2)" by fastforce
  obtain c3 s3 where c3: "ctx_Err ctx s2 = (c3, s3)" by fastforce
  obtain rs s4 where sv: "saveCheckpoint p s3 = (rs, s4)" by fastforce
  obtain c5 s5 where c5: "ctx_Err ctx s4 = (c5, s5)" by fastforce
  define s6 where "s6 = (if caughtUp s5 then s5 else s5\<lparr>caughtUpPosition := position s5, caughtUp := True\<rparr>)"
  obtain c7 s7 where c7: "ctx_Err ctx s6 = (c7, s7)" by fastforce
  have out: "c1 = None \<and> (s' = s2 \<or> s' = s7)"
  proof (cases "c1 = None \<and> d = Inr True")
    case True
    then show ?thesis
      using assms c1 d c3 sv c5 c7 by (auto simp: run_cycle_def Let_def simp flip: s6_def split: option.splits)
  next
    case False
    then show ?thesis using assms c1 d by (auto simp: run_cycle_def split: option.splits sum.splits)
  qed
  have "clock s < clock s1" "clock s1 \<le> clock s2" "clock s2 \<le> clock s4" "clock s4 \<le> clock s5"
    "clock s6 = clock s5" "clock s6 \<le> clock s7"
    using ctx_Err_clock [OF c1] drain_clock [OF d] ctx_Err_clock [OF c3] saveCheckpoint_clock [OF sv]
      ctx_Err_clock [OF c5] ctx_Err_clock [OF c7] by (simp_all add: s6_def)
  then show ?thesis using out ctx_Err_clock [OF c1] by auto
qed

lemma run_loop_returns:
  assumes "\<forall>n \<ge> N. ctx n \<noteq> None"
  shows "\<exists>r. run_loop dbs ctx p s = Some r"
proof (induction "N - clock s" arbitrary: s rule: less_induct)
  case less
  obtain r s' where cyc: "run_cycle dbs ctx p s = (r, s')" by fastforce
  show ?case
  proof (cases r)
    case None
    have late: "clock s < clock s'" "ctx (clock s) = None"
      using run_cycle_clock [of dbs ctx p s s'] cyc None by simp_all
    have "clock s < N" using late(2) assms not_less by blast
    then have "\<exists>r. run_loop dbs ctx p s' = Some r" using less late(1) by simp
    then show ?thesis using cyc None by (simp add: run_loop.simps [of dbs ctx p s])
  qed (simp add: run_loop.simps [of dbs ctx p s] cyc)
qed

section \<open>Catching up\<close>

text \<open>
  A healthy reader and a store that saves, a handler whose errors do not stop the run, and a
  context that stays live from one consultation up to another.
\<close>

locale healthy_processing =
  processing p log valid position_of delete dbs +
  healthy_reader "pr_readAll p" "pr_next p" "pr_close p" log valid
  for p :: "('db, 'i, 'c, 'h) processor" and log valid position_of delete dbs +
  assumes saves: "\<exists>c'. pr_save p c i q = (None, c')"
    and loads: "pr_load p c i = Inl e \<Longrightarrow> errors_is e ErrCheckpointNotFound"
    and handles: "continueOnHandlerError p \<or> fst (pr_handle p ev h) = None"

definition live :: "go_context \<Rightarrow> nat \<Rightarrow> nat \<Rightarrow> bool" where
  "live ctx a b \<longleftrightarrow> (\<forall>n. a \<le> n \<and> n < b \<longrightarrow> ctx n = None)"

lemma live_step:
  assumes "live ctx (clock s) N" "clock s < N"
  shows "ctx_Err ctx s = (None, s\<lparr>clock := Suc (clock s)\<rparr>)"
  using assms by (simp add: live_def ctx_Err_def)

lemma live_sub: "live ctx a b \<Longrightarrow> a \<le> a' \<Longrightarrow> live ctx a' b"
  by (simp add: live_def)

lemma later_clock: "clock s \<le> n \<Longrightarrow> later s (s\<lparr>clock := n\<rparr>)"
  by (auto simp: later_def)

lemma read_batch_live:
  assumes "delivers (pr_next p) (pr_close p) it es" "list_all (\<lambda>e. ev_GlobalPosition e \<noteq> None) es"
    and "int (length events + length es) \<le> batchSize p"
    and "live ctx (clock s) (clock s + 2 * length es + 2)"
  shows "\<exists>it' s'. read_batch ctx p it events s = (events @ with_positions es, None, it', s')
    \<and> pr_close p it' = None \<and> later s s' \<and> clock s' \<le> clock s + 2 * length es + 2"
  using assms
proof (induction es arbitrary: it events s)
  case Nil
  obtain r it1 where r: "pr_next p it = (r, it1)" by fastforce
  have e: "r = Inl (Sentinel ErrEndOfEventStream)" "pr_close p it1 = None" "pr_close p it = None"
    using Nil.prems(1) r by auto
  have c: "ctx_Err ctx s = (None, s\<lparr>clock := Suc (clock s)\<rparr>)" using live_step Nil.prems(4) by fastforce
  have c': "ctx_Err ctx (s\<lparr>clock := Suc (clock s)\<rparr>) = (None, s\<lparr>clock := Suc (Suc (clock s))\<rparr>)"
    using Nil.prems(4) by (simp add: live_def ctx_Err_def)
  have "errorLeavesMatch (Sentinel ErrEndOfEventStream) [ErrEndOfEventStream]" by (simp add: errors_is.simps)
  then show ?case
    using r e c c' by (cases "int (length events) < batchSize p")
      (auto simp: read_batch.simps [of ctx p it events s] intro: later_clock)
next
  case (Cons e es)
  obtain r it1 where r: "pr_next p it = (r, it1)" by fastforce
  have e: "r = Inr (Some e)" "delivers (pr_next p) (pr_close p) it1 es" using Cons.prems(1) r by auto
  let ?s = "s\<lparr>clock := Suc (Suc (clock s))\<rparr>"
  have c: "ctx_Err ctx s = (None, s\<lparr>clock := Suc (clock s)\<rparr>)"
    "ctx_Err ctx (s\<lparr>clock := Suc (clock s)\<rparr>) = (None, ?s)"
    using Cons.prems(4) by (simp_all add: live_def ctx_Err_def)
  have pos: "ev_GlobalPosition e = Some (event_position e)"
    using Cons.prems(2) by (auto simp: event_position_def)
  have step: "read_batch ctx p it events s = read_batch ctx p it1 (events @ [(e, event_position e)]) ?s"
    using r e(1) c pos Cons.prems(3) by (simp add: read_batch.simps [of ctx p it events s])
  have "live ctx (clock ?s) (clock ?s + 2 * length es + 2)"
    using Cons.prems(4) by (simp add: live_def)
  then obtain it' s' where rec: "read_batch ctx p it1 (events @ [(e, event_position e)]) ?s
      = ((events @ [(e, event_position e)]) @ with_positions es, None, it', s')"
    "pr_close p it' = None" "later ?s s'" "clock s' \<le> clock ?s + 2 * length es + 2"
    using Cons.IH [OF e(2), of "events @ [(e, event_position e)]" ?s] Cons.prems(2,3) by auto
  then show ?case
    using step later_trans [of s ?s s'] later_clock [of s "Suc (Suc (clock s))"] by auto
qed

context healthy_processing
begin

lemma saveCheckpoint_ok: "\<exists>s'. saveCheckpoint p s = (None, s')"
  using saves [of "rs_store s" "pr_id p" "position s"] by (auto simp: saveCheckpoint_def)

lemma handle_batch_live:
  "live ctx (clock s) (clock s + length es) \<Longrightarrow>
   \<exists>s'. handle_batch ctx p readErr es s = (None, s') \<and> clock s' = clock s + length es"
proof (induction es arbitrary: s)
  case (Cons x es)
  obtain e pos where x: "x = (e, pos)" by fastforce
  have c: "ctx_Err ctx s = (None, s\<lparr>clock := Suc (clock s)\<rparr>)"
    using Cons.prems by (simp add: live_def ctx_Err_def)
  obtain r h where rh: "pr_handle p (Some e) (rs_handler s) = (r, h)" by fastforce
  have ok: "\<not> (r \<noteq> None \<and> \<not> continueOnHandlerError p)" using handles [of "Some e" "rs_handler s"] rh by auto
  define s3 where "s3 = s\<lparr>clock := Suc (clock s), rs_handler := h, position := pos,
    sinceCheckpoint := wrap64 (sinceCheckpoint s + 1)\<rparr>"
  obtain s4 where sv: "saveCheckpoint p s3 = (None, s4)" using saveCheckpoint_ok by blast
  define t where "t = (if checkpointEvery p \<le> sinceCheckpoint s3 then s4 else s3)"
  have t: "clock t = Suc (clock s)" using saveCheckpoint_clock [OF sv] by (simp add: t_def s3_def)
  have "handle_batch ctx p readErr (x # es) s = handle_batch ctx p readErr es t"
    using c rh ok sv by (auto simp: x t_def s3_def Let_def)
  moreover have "live ctx (clock t) (clock t + length es)" using Cons.prems t by (simp add: live_def)
  ultimately show ?case using Cons.IH [of t] t by auto
qed simp

lemma drain_live:
  assumes "going s0 s"
  defines "F \<equiv> filter (\<lambda>e. position s < event_position e) (log (dbs (clock s)))"
  defines "k \<equiv> min (nat (batchSize p)) (length F)"
  assumes "live ctx (clock s) (clock s + 3 * k + 4)"
  shows "\<exists>s'. drain dbs ctx p s = (Inr (int k < batchSize p), s')
    \<and> clock s' \<le> clock s + 3 * k + 4 \<and> position s' = pos_after (position s) F k"
proof -
  let ?es = "take (nat (batchSize p)) F"
  obtain iter where iter: "pr_readAll p (dbs (clock s)) \<lparr>AfterPosition = position s, ra_Count = batchSize p\<rparr> = Inr (Some iter)"
    "delivers (pr_next p) (pr_close p) iter ?es"
    using read_delivers [OF dbs_valid] view_of_batch unfolding F_def by metis
  have len: "length ?es = k" by (simp add: k_def min.commute)
  have lim: "live ctx (clock s) (clock s + 2 * length ?es + 2)"
    using assms(4) len by (auto simp: live_def)
  have pos: "list_all (\<lambda>e. ev_GlobalPosition e \<noteq> None) ?es"
    using log_facts(2) [of "clock s"] by (auto simp: F_def list_all_iff dest: in_set_takeD)
  have "int (length ([] :: (event \<times> int64) list) + length ?es) \<le> batchSize p" using batch_pos by auto
  from read_batch_live [OF iter(2) pos this lim] obtain it1 s1 where rb:
    "read_batch ctx p iter [] s = (with_positions ?es, None, it1, s1)" "pr_close p it1 = None"
    "later s s1" "clock s1 \<le> clock s + 2 * k + 2" unfolding append_Nil len by blast
  define s2 where "s2 = s1\<lparr>clock := Suc (clock s1)\<rparr>"
  have n1: "clock s \<le> clock s1" using later_fields(8) [OF rb(3)] .
  have c2: "ctx_Err ctx s1 = (None, s2)" using assms(4) rb(4) n1 by (simp add: live_def ctx_Err_def s2_def)
  have "live ctx (clock s2) (clock s2 + length (with_positions ?es))"
    using assms(4) rb(4) n1 len by (auto simp: live_def s2_def)
  from handle_batch_live [OF this] obtain s3 where hb: "handle_batch ctx p None (with_positions ?es) s2 = (None, s3)"
    "clock s3 = clock s2 + k" unfolding with_positions_simps(4) len by blast
  define s4 where "s4 = s3\<lparr>clock := Suc (clock s3)\<rparr>"
  have c4: "ctx_Err ctx s3 = (None, s4)" using assms(4) rb(4) n1 hb(2) by (simp add: live_def ctx_Err_def s4_def s2_def)
  have "position s3 = pos_after (position s) F k"
  proof -
    have "later s s2" using later_trans [OF rb(3)] ctx_Err_later [OF c2] by blast
    note f = later_fields [OF this]
    obtain j m where "batch_handled position_of p ?es s2 True s3 j m"
      using handle_batch_spec [OF hb(1)] since_bounds assms(1) f unfolding going_def by fastforce
    then have "j = length ?es" "position s3 = pos_after (position s) ?es j"
      using f by (simp_all add: batch_handled_def)
    then show ?thesis unfolding len by (simp add: pos_after_take k_def)
  qed
  then have "drain dbs ctx p s = (Inr (int k < batchSize p), s4) \<and> clock s4 \<le> clock s + 3 * k + 4
      \<and> position s4 = pos_after (position s) F k"
    using iter(1) rb(1,2) c2 hb c4 rb(4) len by (simp add: drain_def Let_def) (simp add: s2_def s4_def)
  then show ?thesis by blast
qed

end

context healthy_processing
begin

lemma run_cycle_live:
  assumes going: "going s0 s" and fresh: "\<not> caughtUp s"
  defines "F \<equiv> filter (\<lambda>e. position s < event_position e) (log (dbs (Suc (clock s))))"
  defines "k \<equiv> min (nat (batchSize p)) (length F)"
  assumes lv: "live ctx (clock s) (clock s + 3 * k + 8)"
  shows "\<exists>s'. run_cycle dbs ctx p s = (None, s') \<and> position s' = pos_after (position s) F k
    \<and> (if int k < batchSize p
       then caughtUp s' \<and> caughtUpPosition s' = position s' \<and> ckpt position_of p s' = position s'
         \<and> sinceCheckpoint s' = 0
       else \<not> caughtUp s' \<and> clock s' \<le> clock s + 3 * k + 5)"
proof -
  define s1 where "s1 = s\<lparr>clock := Suc (clock s)\<rparr>"
  have c1: "ctx_Err ctx s = (None, s1)" using lv by (simp add: live_def ctx_Err_def s1_def)
  have g1: "going s0 s1" by (rule ctx_going [OF going c1])
  have f1: "position s1 = position s" "clock s1 = Suc (clock s)" "\<not> caughtUp s1" using fresh by (simp_all add: s1_def)
  have "live ctx (clock s1) (clock s1 + 3 * k + 4)" using lv by (auto simp: live_def s1_def)
  then obtain s2 where d: "drain dbs ctx p s1 = (Inr (int k < batchSize p), s2)"
    "clock s2 \<le> clock s1 + 3 * k + 4" "position s2 = pos_after (position s) F k"
    using drain_live [OF g1, of ctx] unfolding f1(1,2) F_def k_def by blast
  have f2: "\<not> caughtUp s2" "clock s1 \<le> clock s2"
    using drain_spec [OF d(1)] g1 f1(3) by (auto simp: steady_def going_def)
  show ?thesis
  proof (cases "int k < batchSize p")
    case False
    then have "run_cycle dbs ctx p s = (None, s2)" using c1 d by (simp add: run_cycle_def)
    then show ?thesis using False d f2 f1 by simp
  next
    case True
    define s3 where "s3 = s2\<lparr>clock := Suc (clock s2)\<rparr>"
    have n3: "clock s \<le> clock s2" "clock s2 \<le> clock s + 3 * k + 5" using d(2) f1 f2 by auto
    have c3: "ctx_Err ctx s2 = (None, s3)"
      using lv n3 by (simp add: live_def ctx_Err_def s3_def)
    obtain s4 where sv: "saveCheckpoint p s3 = (None, s4)" using saveCheckpoint_ok by blast
    note saved = saveCheckpoint_cases [OF sv]
    define s5 where "s5 = s4\<lparr>clock := Suc (clock s4)\<rparr>"
    have n4: "clock s4 = Suc (clock s2)" using saved by (simp add: s3_def)
    have c5: "ctx_Err ctx s4 = (None, s5)" using lv n3 n4 by (simp add: live_def ctx_Err_def s5_def)
    define s6 where "s6 = s5\<lparr>caughtUpPosition := position s5, caughtUp := True\<rparr>"
    define s7 where "s7 = s6\<lparr>clock := Suc (clock s6)\<rparr>"
    have c7: "ctx_Err ctx s6 = (None, s7)"
      using lv n3 n4 by (simp add: live_def ctx_Err_def s7_def s6_def s5_def)
    have "\<not> caughtUp s5" using f2 saved by (simp add: s5_def s3_def)
    then have "run_cycle dbs ctx p s = (None, s7)"
      using c1 d True c3 sv c5 c7 by (simp add: run_cycle_def s6_def Let_def)
    moreover have "position s7 = position s2" using saved by (simp add: s7_def s6_def s5_def s3_def)
    moreover have "sinceCheckpoint s7 = 0" "ckpt position_of p s7 = position s7"
      using saved by (simp_all add: s7_def s6_def s5_def ckpt_def)
    ultimately show ?thesis
      using True d(3) by (simp add: s7_def s6_def)
  qed
qed

lemma reaches_head:
  assumes static: "\<And>n. log (dbs n) = L" and "going s0 s" "\<not> caughtUp s"
    and "live ctx (clock s) (clock s + 8 * length (filter (\<lambda>e. position s < event_position e) L) + 10)"
  shows "\<exists>s'. run_loop dbs ctx p s = run_loop dbs ctx p s' \<and> going s0 s' \<and> caughtUp s'
    \<and> caughtUpPosition s' = position s' \<and> ckpt position_of p s' = position s' \<and> sinceCheckpoint s' = 0
    \<and> filter (\<lambda>e. position s' < event_position e) L = []"
  using assms(2-)
proof (induction "length (filter (\<lambda>e. position s < event_position e) L)" arbitrary: s rule: less_induct)
  case less
  define F where "F = filter (\<lambda>e. position s < event_position e) L"
  define k where "k = min (nat (batchSize p)) (length F)"
  have len: "k \<le> length F" by (simp add: k_def)
  have "live ctx (clock s) (clock s + 3 * k + 8)"
    using less.prems(3) len unfolding F_def [symmetric] by (auto simp: live_def)
  then obtain s' where cyc: "run_cycle dbs ctx p s = (None, s')" "position s' = pos_after (position s) F k"
    and out: "if int k < batchSize p
       then caughtUp s' \<and> caughtUpPosition s' = position s' \<and> ckpt position_of p s' = position s'
         \<and> sinceCheckpoint s' = 0
       else \<not> caughtUp s' \<and> clock s' \<le> clock s + 3 * k + 5"
    using run_cycle_live [OF less.prems(1,2), of ctx] unfolding static F_def k_def by blast
  have going': "going s0 s'" using run_cycle_going [OF less.prems(1) cyc(1)] by simp
  have loop: "run_loop dbs ctx p s = run_loop dbs ctx p s'"
    using cyc(1) by (simp add: run_loop.simps [of dbs ctx p s])
  have rest: "filter (\<lambda>e. position s' < event_position e) L = drop k F"
    using filter_beyond [OF log_facts(1) [of 0, unfolded static], of k "position s"] len cyc(2) by (simp add: F_def)
  show ?case
  proof (cases "int k < batchSize p")
    case True
    then have "filter (\<lambda>e. position s' < event_position e) L = []"
      using rest batch_pos by (auto simp: k_def)
    then show ?thesis using True out loop going' by auto
  next
    case False
    have k1: "1 \<le> k" "1 \<le> length F" using False batch_pos len by auto
    have n: "clock s \<le> clock s'" using run_cycle_clock [OF cyc(1)] by simp
    have "live ctx (clock s') (clock s' + 8 * length (filter (\<lambda>e. position s' < event_position e) L) + 10)"
      using less.prems(3) out False k1 len n unfolding rest F_def [symmetric] by (auto simp: live_def)
    moreover have "length (filter (\<lambda>e. position s' < event_position e) L) < length (filter (\<lambda>e. position s < event_position e) L)"
      using k1 unfolding rest F_def [symmetric] by simp
    ultimately obtain t where "run_loop dbs ctx p s' = run_loop dbs ctx p t" "going s0 t" "caughtUp t"
      "caughtUpPosition t = position t" "ckpt position_of p t = position t" "sinceCheckpoint t = 0"
      "filter (\<lambda>e. position t < event_position e) L = []"
      using less.hyps [of s'] going' out False by auto
    then show ?thesis using loop by auto
  qed
qed

text \<open>From the head of a log that stays as it is, a run changes nothing more.\<close>

lemma rests_at_head:
  assumes static: "\<And>n. log (dbs n) = L" and "going s0 s" "caughtUp s" "caughtUpPosition s = position s"
    "ckpt position_of p s = position s" "sinceCheckpoint s = 0"
    "filter (\<lambda>e. position s < event_position e) L = []" "run_loop dbs ctx p s = Some (err, s')"
  shows "position s' = position s \<and> rs_handler s' = rs_handler s \<and> ckpt position_of p s' = position s
    \<and> caughtUp s' \<and> caughtUpPosition s' = position s"
proof -
  have empty: "between (position s) (position s) L = []" by (simp add: between_def filter_empty_conv)
  have "on_course position_of p s L s"
    unfolding on_course_def Let_def assms(5) empty
    using assms(4,6) every_pos by (simp add: settled_def others_kept_def)
  then have "going s s" using assms(3) static by (simp add: going_def certified_def)
  then have "stopped s s'" by (rule run_loop_stops [OF assms(8)])
  then have h: "halted position_of p s L s'" and cert: "certified s s'" using static by (simp_all add: stopped_def)
  have pos: "position s' = position s"
    using h assms(7) unfolding halted_def Let_def settled_def by (auto simp: filter_empty_conv not_less)
  then show ?thesis
    using h [unfolded halted_def Let_def pos empty assms(7)] cert assms(3,4)
    by (auto simp: certified_def)
qed

lemma catches_up:
  assumes static: "\<And>n. log (dbs n) = L"
    and start: "ckpt position_of p (new_run_state c h n) = start"
    and F: "F = filter (\<lambda>e. start < event_position e) L"
    and lv: "live ctx n N" "\<forall>m \<ge> N. ctx m \<noteq> None" "n + 8 * length F + 10 \<le> N"
  shows "\<exists>err s'. Processor_Run dbs ctx p (new_run_state c h n) = Some (err, s')
    \<and> caughtUp s' \<and> position s' = pos_after start F (length F) \<and> caughtUpPosition s' = position s'
    \<and> ckpt position_of p s' = position s' \<and> rs_handler s' = snd (handle_each (pr_handle p) F h)"
proof -
  let ?r = "(new_run_state c h n)\<lparr>running := True\<rparr>"
  let ?s = "?r\<lparr>position := start\<rparr>"
  let ?start = "(new_run_state c h n)\<lparr>position := start\<rparr>"
  have "loadPosition p ?r = Inr start"
    using loads [of c "pr_id p"] load_cases [of c "pr_id p"] start
    by (auto simp: loadPosition_def ckpt_def split: sum.splits)
  then have run: "Processor_Run dbs ctx p (new_run_state c h n) = run_loop dbs ctx p ?s"
    by (simp add: Processor_Run_def Let_def)
  have going: "going ?start ?s"
    using every_pos start unfolding going_def on_course_def Let_def certified_def
    by (simp add: new_run_state_def ckpt_def others_kept_def settled_def between_def filter_empty_conv)
  have "live ctx (clock ?s) (clock ?s + 8 * length (filter (\<lambda>e. position ?s < event_position e) L) + 10)"
    using lv(1,3) F by (auto simp: live_def)
  from reaches_head [OF static going _ this] obtain t where t: "run_loop dbs ctx p ?s = run_loop dbs ctx p t"
    "going ?start t" "caughtUp t" "caughtUpPosition t = position t" "ckpt position_of p t = position t"
    "sinceCheckpoint t = 0" "filter (\<lambda>e. position t < event_position e) L = []" by auto
  obtain err s' where res: "run_loop dbs ctx p t = Some (err, s')" using run_loop_returns [OF lv(2)] by (metis prod.exhaust)
  note final = rests_at_head [OF static t(2-7) res]
  have oc: "on_course position_of p ?start L t" using t(2) static by (simp add: going_def)
  have asc: "ascending L" using log_facts(1) [of 0] static by simp
  have upto: "\<forall>e \<in> set L. event_position e \<le> position t" using t(7) by (auto simp: filter_empty_conv not_less)
  have handled: "between start (position t) L = F"
    using upto unfolding F between_def by (auto intro: filter_cong)
  have pos: "position t = pos_after start F (length F)"
  proof -
    have "start \<le> position t" "settled start (position t) L" using oc by (simp_all add: on_course_def Let_def)
    have ascF: "ascending F" "\<forall>e \<in> set F. start < event_position e" using asc by (auto simp: F sorted_wrt_filter)
    have le: "pos_after start F (length F) \<le> position t"
    proof (cases "F = []")
      case False
      then have "last F \<in> set L" using last_in_set [OF False] by (auto simp: F)
      then show ?thesis using False upto by (simp add: pos_after_def last_map)
    qed (use \<open>start \<le> position t\<close> in simp)
    show ?thesis
    proof (cases "F = []")
      case True
      then have "position t = start"
        using \<open>settled start (position t) L\<close> \<open>start \<le> position t\<close>
        unfolding F settled_def by (auto simp: filter_empty_conv)
      then show ?thesis using True by simp
    next
      case False
      then obtain e where "e \<in> set F" by (cases F) auto
      have "position t \<noteq> start" using \<open>e \<in> set F\<close> upto by (auto simp: F)
      then obtain x where x: "x \<in> set L" "position t = event_position x"
        using \<open>settled start (position t) L\<close> by (auto simp: settled_def)
      then have "x \<in> set F" using \<open>start \<le> position t\<close> \<open>position t \<noteq> start\<close> by (simp add: F)
      then have "event_position x \<le> pos_after start F (length F)"
        using filter_upto [OF ascF, of "length F"] by (auto simp: filter_id_conv)
      then show ?thesis using le x by simp
    qed
  qed
  have "rs_handler t = snd (handle_each (pr_handle p) F h)"
    using oc handled by (simp add: on_course_def Let_def)
  then show ?thesis using run t(1) res final pos by auto
qed

end

section \<open>A run leaves the processor marked as run\<close>

lemma ctx_Err_running: "ctx_Err ctx s = (r, s') \<Longrightarrow> running s' = running s"
  by (auto simp: ctx_Err_def)

lemma saveCheckpoint_running: "saveCheckpoint p s = (r, s') \<Longrightarrow> running s' = running s"
  by (auto simp: saveCheckpoint_def split: prod.splits option.splits)

lemma read_batch_running:
  "read_batch ctx p iter events s = (events', err, iter', s') \<Longrightarrow> running s' = running s"
proof (induction ctx p iter events s rule: read_batch.induct)
  case (1 ctx p iter events s)
  obtain c1 s1 where c1: "ctx_Err ctx s = (c1, s1)" by fastforce
  obtain r it1 where r: "pr_next p iter = (r, it1)" by fastforce
  obtain c2 s2 where c2: "ctx_Err ctx s1 = (c2, s2)" by fastforce
  have same: "running s1 = running s" "running s2 = running s"
    using ctx_Err_running [OF c1] ctx_Err_running [OF c2] by simp_all
  show ?case
  proof (cases "int (length events) < batchSize p \<and> c1 = None \<and> c2 = None \<and>
      (\<exists>e pos. r = Inr (Some e) \<and> ev_GlobalPosition e = Some pos)")
    case True
    then obtain e pos where e: "r = Inr (Some e)" "ev_GlobalPosition e = Some pos" by blast
    have "read_batch ctx p it1 (events @ [(e, pos)]) s2 = (events', err, iter', s')"
      using 1(2) True c1 c2 r e by (simp add: read_batch.simps [of ctx p iter events s])
    then show ?thesis using 1(1) True c1 c2 r e same by simp
  next
    case False
    then show ?thesis
      using 1(2) c1 c2 r same
      by (auto simp: read_batch.simps [of ctx p iter events s] split: if_splits option.splits sum.splits)
  qed
qed

lemma handle_batch_running:
  "handle_batch ctx p readErr events s = (r, s') \<Longrightarrow> running s' = running s"
  by (induction ctx p readErr events s rule: handle_batch.induct)
    (auto simp: Let_def dest!: ctx_Err_running saveCheckpoint_running split: prod.splits option.splits if_splits)

lemma drain_running: "drain dbs ctx p s = (r, s') \<Longrightarrow> running s' = running s"
  by (auto simp: drain_def Let_def dest!: ctx_Err_running read_batch_running handle_batch_running
      split: sum.splits option.splits prod.splits if_splits)

lemma run_cycle_running: "run_cycle dbs ctx p s = (r, s') \<Longrightarrow> running s' = running s"
  by (auto simp: run_cycle_def Let_def dest!: ctx_Err_running saveCheckpoint_running drain_running
      split: sum.splits option.splits prod.splits if_splits)

lemma run_loop_running:
  assumes "run_loop dbs ctx p s = Some (err, s')"
  shows "running s' = running s"
proof -
  have "running (snd r) = running s" if "run_loop dbs ctx p s = Some r" for r
  proof (rule run_loop.raw_induct [where P = "\<lambda>dbs ctx p s r. running (snd r) = running s", OF _ that], goal_cases)
    case (1 loop dbs ctx p s r)
    then show ?case by (auto dest!: run_cycle_running split: prod.splits option.splits)
  qed
  then show ?thesis using assms by fastforce
qed

lemma Processor_Run_running: "Processor_Run dbs ctx p s = Some (err, s') \<Longrightarrow> running s'"
  by (auto simp: Processor_Run_def Let_def dest!: run_loop_running split: if_splits sum.splits)

end
