(* ===== verification/AppendedStore.thy ===== *)
theory AppendedStore
  imports GlobalReader
begin

text \<open>
  A running event store: what the in-memory store has become after the first \<open>n\<close> of a sequence of
  appends by any clients. It is the changing store the processor and the worker are run over.
\<close>

text \<open>
  The store other clients append to while a reader of it runs: the \<open>n\<close>-th consultation of the
  context finds it after the first \<open>n\<close> of their appends.
\<close>

primrec appended_store ::
  "(uuid \<Rightarrow> string) \<Rightarrow> (nat \<Rightarrow> (nat \<Rightarrow> uuid) \<times> (nat \<Rightarrow> time) \<times> typeid \<times> writable_event list \<times> append_stream_options)
   \<Rightarrow> nat \<Rightarrow> event_store" where
  "appended_store ustr reqs 0 = NewEventStore"
| "appended_store ustr reqs (Suc n) = (let st = appended_store ustr reqs n in
     case reqs n of (fresh, now, sid, evs, opts) \<Rightarrow>
       if globalCounter st + int (length evs) < max_int64
       then snd (AppendStream ustr fresh now st sid evs opts) else st)"

lemma appended_store_step:
  assumes "store_valid ustr (appended_store ustr reqs n)"
  shows "store_valid ustr (appended_store ustr reqs (Suc n))
    \<and> (\<exists>ext. log_view (appended_store ustr reqs (Suc n)) = log_view (appended_store ustr reqs n) @ ext)"
proof -
  obtain fresh now sid evs opts where rq: "reqs n = (fresh, now, sid, evs, opts)" by (metis prod_cases5)
  let ?st = "appended_store ustr reqs n"
  obtain r st' where ap: "AppendStream ustr fresh now ?st sid evs opts = (r, st')" by fastforce
  show ?thesis
  proof (cases "globalCounter ?st + int (length evs) < max_int64")
    case True
    have out: "wf_store ustr st' \<and> globalCounter st' \<le> globalCounter ?st + int (length evs)
      \<and> (\<exists>ext. log_view st' = log_view ?st @ ext)"
      using AppendStream_outcome [OF store_validD(1) [OF assms] _ refl ap] True by auto
    have "appended_store ustr reqs (Suc n) = st'" using rq ap True by (simp add: Let_def)
    then show ?thesis using out True by (simp add: store_valid_def)
  next
    case False
    then have "appended_store ustr reqs (Suc n) = ?st" using rq by (simp add: Let_def)
    then show ?thesis using assms by simp
  qed
qed

lemma appended_store_valid: "store_valid ustr (appended_store ustr reqs n)"
proof (induction n)
  case (Suc n)
  then show ?case using appended_store_step by blast
qed (simp add: store_valid_New)

lemma appended_store_grows:
  "i \<le> j \<Longrightarrow> \<exists>ext. log_view (appended_store ustr reqs j) = log_view (appended_store ustr reqs i) @ ext"
proof (induction rule: dec_induct)
  case (step n)
  then show ?case using appended_store_step [OF appended_store_valid, of ustr reqs n] by auto
qed simp

end
