(* ===== verification/ProcessorClaims.thy ===== *)
theory ProcessorClaims
  imports ProcessorRun AppendedStore
begin

text \<open>
  The processor on the in-memory stores, and its guarantees: what a run has handled, what its
  checkpoint and its caught-up signal mean, that it returns, and that it catches up.
\<close>

section \<open>The processor on the in-memory stores\<close>

lemma processing_memory:
  assumes "pr_readAll p = Memory_ReadAll" "pr_next p = Memory_Next" "pr_close p = Memory_Close"
    and "pr_load p = Checkpoint_Load" "pr_save p = Checkpoint_Save now"
    and "1 \<le> batchSize p" "1 \<le> checkpointEvery p" "checkpointEvery p \<le> max_int64"
    and "\<And>n. store_valid ustr (dbs n)" "\<And>i j. i \<le> j \<Longrightarrow> \<exists>ext. log_view (dbs j) = log_view (dbs i) @ ext"
  shows "processing p log_view (store_valid ustr) checkpoint_position Checkpoint_Delete dbs"
  unfolding processing_def processing_axioms_def assms(1-5)
  using assms(6-) memory_reader.global_reader_axioms memory_checkpoints.checkpoint_contract_axioms by blast

lemma healthy_processing_memory:
  assumes "processing p log_view (store_valid ustr) checkpoint_position Checkpoint_Delete dbs"
    and "pr_readAll p = Memory_ReadAll" "pr_next p = Memory_Next" "pr_close p = Memory_Close"
    and "pr_load p = Checkpoint_Load" "pr_save p = Checkpoint_Save now"
    and "\<And>ev h. continueOnHandlerError p \<or> fst (pr_handle p ev h) = None"
  shows "healthy_processing p log_view (store_valid ustr) checkpoint_position Checkpoint_Delete dbs"
proof -
  have "healthy_reader Memory_ReadAll Memory_Next Memory_Close log_view (store_valid ustr)"
    by (rule memory_reader.healthy_reader_axioms)
  then show ?thesis
    unfolding healthy_processing_def healthy_processing_axioms_def assms(2-6)
    using assms(1,7) by (auto simp: Checkpoint_Save_def Checkpoint_Load_def errors_is.simps split: option.splits)
qed

text \<open>What \<open>New\<close> builds over them with its default options.\<close>

definition memory_processor ::
  "time \<Rightarrow> projection_id \<Rightarrow> (event option \<Rightarrow> 'h \<Rightarrow> go_error option \<times> 'h)
   \<Rightarrow> (event_store, stream_iterator, checkpoint_store, 'h) processor" where
  "memory_processor now i H = \<lparr>pr_readAll = Memory_ReadAll, pr_next = Memory_Next, pr_close = Memory_Close,
     pr_load = Checkpoint_Load, pr_save = Checkpoint_Save now, pr_id = i, pr_handle = H,
     pollInterval = DefaultPollInterval, batchSize = DefaultBatchSize, checkpointEvery = 1,
     continueOnHandlerError = False, pr_has_log = True\<rparr>"

lemma New_memory_processor:
  assumes "projection_Validate i = None"
  shows "New_Processor (Some (Memory_ReadAll, Memory_Next, Memory_Close))
    (Some (Checkpoint_Load, Checkpoint_Save now)) i (Some H) [] = Inr (memory_processor now i H)"
  using assms by (simp add: New_Processor_def memory_processor_def DefaultPollInterval_def DefaultBatchSize_def)

lemma memory_processor_fields:
  "pr_readAll (memory_processor now i H) = Memory_ReadAll" "pr_next (memory_processor now i H) = Memory_Next"
  "pr_close (memory_processor now i H) = Memory_Close" "pr_load (memory_processor now i H) = Checkpoint_Load"
  "pr_save (memory_processor now i H) = Checkpoint_Save now" "pr_id (memory_processor now i H) = i"
  "pr_handle (memory_processor now i H) = H" "batchSize (memory_processor now i H) = 500"
  "checkpointEvery (memory_processor now i H) = 1" "continueOnHandlerError (memory_processor now i H) = False"
  by (simp_all add: memory_processor_def DefaultBatchSize_def)

interpretation memory_processing:
  processing "memory_processor now i H" log_view "store_valid ustr" checkpoint_position Checkpoint_Delete
    "appended_store ustr reqs"
  by (rule processing_memory [OF memory_processor_fields(1-5)])
    (simp_all add: memory_processor_fields max_int64_def appended_store_valid appended_store_grows)

lemma continuing_processor_fields:
  "pr_readAll (WithContinueOnHandlerError b p) = pr_readAll p" "pr_next (WithContinueOnHandlerError b p) = pr_next p"
  "pr_close (WithContinueOnHandlerError b p) = pr_close p" "pr_load (WithContinueOnHandlerError b p) = pr_load p"
  "pr_save (WithContinueOnHandlerError b p) = pr_save p" "pr_id (WithContinueOnHandlerError b p) = pr_id p"
  "pr_handle (WithContinueOnHandlerError b p) = pr_handle p" "batchSize (WithContinueOnHandlerError b p) = batchSize p"
  "checkpointEvery (WithContinueOnHandlerError b p) = checkpointEvery p"
  "continueOnHandlerError (WithContinueOnHandlerError b p) = b"
  by (simp_all add: WithContinueOnHandlerError_def)

lemma continuing_memory_processing:
  "processing (WithContinueOnHandlerError b (memory_processor now i H)) log_view (store_valid ustr)
     checkpoint_position Checkpoint_Delete (appended_store ustr reqs)"
  by (rule processing_memory)
    (simp_all add: memory_processor_fields continuing_processor_fields max_int64_def
      appended_store_valid appended_store_grows)

interpretation memory_healthy:
  healthy_processing "WithContinueOnHandlerError True (memory_processor now i H)" log_view "store_valid ustr"
    checkpoint_position Checkpoint_Delete "appended_store ustr reqs"
  by (rule healthy_processing_memory [OF continuing_memory_processing])
    (simp_all add: memory_processor_fields continuing_processor_fields)

section \<open>What a processor is\<close>

text \<open>
  \<open>New\<close> builds a processor only from a reader, a checkpoint store, a handler, a valid projection
  ID and non-nil options that leave a positive poll interval, batch size and checkpoint interval and
  a logger; it then keeps the operations and the ID it was given, as long as the options do.
\<close>

theorem New_processor_checked:
  assumes "New_Processor events ckpts i handler opts = Inr p"
    and "\<forall>opt \<in> set opts. \<forall>f. opt = Some f \<longrightarrow> (\<forall>q. pr_id (f q) = pr_id q \<and> pr_handle (f q) = pr_handle q)"
  shows "1 \<le> batchSize p \<and> 1 \<le> checkpointEvery p \<and> 0 < pollInterval p \<and> pr_has_log p
    \<and> None \<notin> set opts \<and> events \<noteq> None \<and> ckpts \<noteq> None
    \<and> projection_Validate (pr_id p) = None \<and> pr_id p = i \<and> handler = Some (pr_handle p)"
proof -
  have opts: "None \<notin> set opts \<and> pr_id r = pr_id q \<and> pr_handle r = pr_handle q"
    if "apply_options msg opts q = Inr r" "\<forall>opt \<in> set opts. \<forall>f. opt = Some f \<longrightarrow>
      (\<forall>q. pr_id (f q) = pr_id q \<and> pr_handle (f q) = pr_handle q)"
    for msg opts and q r :: "('a, 'b, 'c, 'd) processor"
    using that by (induction msg opts q rule: apply_options.induct) auto
  show ?thesis
    using assms(1) opts [OF _ assms(2)]
    by (fastforce simp: New_Processor_def split: option.splits prod.splits sum.splits if_splits)
qed

lemma New_processor_checked_witness:
  "let p = WithBatchSize 7 (memory_processor 0 \<lparr>Name = ''orders'', Version = 1\<rparr> (\<lambda>e n. (None, n + 1 :: nat)))
   in New_Processor (Some (Memory_ReadAll, Memory_Next, Memory_Close)) (Some (Checkpoint_Load, Checkpoint_Save 0))
        \<lparr>Name = ''orders'', Version = 1\<rparr> (Some (\<lambda>e n. (None, n + 1))) [Some (WithBatchSize 7)] = Inr p
      \<and> 1 \<le> batchSize p \<and> projection_Validate (pr_id p) = None"
proof -
  let ?i = "\<lparr>Name = ''orders'', Version = 1\<rparr> :: projection_id"
  let ?p = "WithBatchSize 7 (memory_processor 0 ?i (\<lambda>e n. (None, n + 1 :: nat)))"
  have new: "New_Processor (Some (Memory_ReadAll, Memory_Next, Memory_Close)) (Some (Checkpoint_Load, Checkpoint_Save 0))
        ?i (Some (\<lambda>e n. (None, n + 1))) [Some (WithBatchSize 7)] = Inr ?p"
    by (simp add: New_Processor_def projection_Validate_def MaxNameLength_def is_lower_def is_digit_def
        memory_processor_def WithBatchSize_def DefaultPollInterval_def)
  show ?thesis
    using new New_processor_checked [OF new]
    by (simp add: Let_def WithBatchSize_def memory_processor_fields)
qed

section \<open>What a run does\<close>

text \<open>
  C23. Whatever the reader, the checkpoint store and the handler report, and whenever the context
  ends, a run that returns has handed its handler exactly the log's events past the checkpoint it
  resumed from up to its position, in log order, each once and none skipped; at most the next
  event's handling was in addition begun. No handler error is passed over unless the processor was
  told to continue. A run that could not load its checkpoint has done nothing.
\<close>

theorem Run_handles_in_order:
  assumes "processing p log valid position_of delete dbs"
    and "Processor_Run dbs ctx p (new_run_state c h n) = Some (err, s')"
  shows "case loadPosition p (new_run_state c h n) of
      Inl e \<Rightarrow> err = e \<and> rs_handler s' = h \<and> rs_store s' = c
    | Inr start \<Rightarrow> start \<le> position s' \<and>
       (let L = log (dbs (clock s')); past = between start (position s') L; seen = handle_each (pr_handle p) past h in
         (rs_handler s' = snd seen
            \<or> (\<exists>e es. filter (\<lambda>e. position s' < event_position e) L = e # es
                 \<and> rs_handler s' = snd (pr_handle p (Some e) (snd seen))))
         \<and> (continueOnHandlerError p \<or> list_all (\<lambda>r. r = None) (fst seen)))"
proof (cases "loadPosition p (new_run_state c h n)")
  case (Inl e)
  then show ?thesis using processing.Run_outcome [OF assms] by simp
next
  case (Inr start)
  then show ?thesis using processing.Run_handled [OF assms Inr] by simp
qed

text \<open>
  C24. The checkpoint a run leaves never precedes the one it resumed from nor runs ahead of what was
  handled, trails its position by at most \<open>checkpointEvery\<close> events even after a failed save, and no
  other projection's checkpoint has changed.
\<close>

theorem Run_checkpoint_trails:
  assumes "processing p log valid position_of delete dbs"
    and "Processor_Run dbs ctx p (new_run_state c h n) = Some (err, s')"
    and "loadPosition p (new_run_state c h n) = Inr start"
  shows "start \<le> ckpt position_of p s' \<and> ckpt position_of p s' \<le> position s'
    \<and> int (length (between (ckpt position_of p s') (position s') (log (dbs (clock s'))))) \<le> checkpointEvery p
    \<and> (\<forall>i. i \<noteq> pr_id p \<longrightarrow> position_of (rs_store s') i = position_of c i)"
  by (rule processing.Run_checkpointed [OF assms])

text \<open>
  C26. \<open>CaughtUp\<close> certifies a durable position: when the channel is closed, \<open>CaughtUpPosition\<close> was
  the head of the log at some moment of the run, and the checkpoint in the store is at or past it.
\<close>

theorem CaughtUp_is_durable:
  assumes "processing p log valid position_of delete dbs"
    and "Processor_Run dbs ctx p (new_run_state c h n) = Some (err, s')" "caughtUp s'"
  shows "caughtUpPosition s' \<le> ckpt position_of p s' \<and> (\<exists>m. n \<le> m \<and> m \<le> clock s'
    \<and> (\<forall>e \<in> set (log (dbs m)). event_position e \<le> caughtUpPosition s'))"
  by (rule processing.Run_certified [OF assms])

text \<open>
  A processor is resumed by building a new one from the checkpoint: between them the two runs
  hand over every event up to the further of their positions, and what is handed over twice is at
  most \<open>checkpointEvery\<close> events of what the first run handled.
\<close>

theorem resumed_run_skips_nothing:
  assumes p: "processing p log valid position_of delete dbs"
    and first: "Processor_Run dbs ctx p (new_run_state c h n) = Some (err, s)"
      "loadPosition p (new_run_state c h n) = Inr start"
    and second: "Processor_Run dbs ctx' p (new_run_state (rs_store s) h' n') = Some (err', s')"
      "loadPosition p (new_run_state (rs_store s) h' n') = Inr start'" "clock s \<le> n'"
  shows "start \<le> start' \<and> start' \<le> position s
    \<and> int (length (between start' (position s) (log (dbs (clock s))))) \<le> checkpointEvery p
    \<and> (\<forall>e \<in> set (log (dbs (clock s'))). start < event_position e \<and> event_position e \<le> max (position s) (position s')
        \<longrightarrow> e \<in> set (between start (position s) (log (dbs (clock s'))))
          \<or> e \<in> set (between start' (position s') (log (dbs (clock s')))))"
proof -
  have "start' = ckpt position_of p s"
    using processing.Run_outcome [OF p second(1)] second(2) by (simp add: ckpt_def)
  then show ?thesis
    using processing.Run_checkpointed [OF p first] processing.Run_checkpointed [OF p second(1,2)]
    by (auto simp: between_def)
qed

section \<open>That it ends, and that it catches up\<close>

lemma Processor_Run_ends:
  assumes "\<forall>n \<ge> N. ctx n \<noteq> None"
  shows "\<exists>err s'. Processor_Run dbs ctx p s = Some (err, s')"
  using run_loop_returns [OF assms, of dbs p] by (auto simp: Processor_Run_def Let_def split: sum.splits)

text \<open>
  C39. A processor runs at most once, and its run ends with its context. Once the context has ended a
  \<open>Run\<close> returns; and whatever a \<open>Run\<close> returned, every later \<open>Run\<close> of the processor, with any context, is
  refused and changes nothing: no event is handled, no checkpoint saved, the position stands.
\<close>

theorem Run_returns:
  "((\<forall>n \<ge> N. ctx n \<noteq> None) \<longrightarrow> (\<exists>err s'. Processor_Run dbs ctx p s = Some (err, s')))
   \<and> (\<forall>err s' dbs' ctx'. Processor_Run dbs ctx p s = Some (err, s') \<longrightarrow>
        Processor_Run dbs' ctx' p s' = Some (Text ''processor has already been run'', s'))"
proof (intro conjI impI allI)
  show "\<exists>err s'. Processor_Run dbs ctx p s = Some (err, s')" if "\<forall>n \<ge> N. ctx n \<noteq> None"
    by (rule Processor_Run_ends [OF that])
next
  show "Processor_Run dbs' ctx' p s' = Some (Text ''processor has already been run'', s')"
    if "Processor_Run dbs ctx p s = Some (err, s')" for err s' dbs' ctx'
    using Processor_Run_running [OF that] by (simp add: Processor_Run_def)
qed

text \<open>
  C25. Over a healthy reader, a store that saves and a handler whose errors do not stop it, a run
  given enough consultations of a live context catches up with a log that stays as it is: its
  handler has been given every event past the checkpoint, and the head is its position, its
  caught-up position and its checkpoint.
\<close>

theorem Run_catches_up:
  assumes "healthy_processing p log valid position_of delete dbs" "\<And>m. log (dbs m) = L"
    and "F = filter (\<lambda>e. ckpt position_of p (new_run_state c h n) < event_position e) L"
    and "\<forall>m. n \<le> m \<and> m < N \<longrightarrow> ctx m = None" "\<forall>m \<ge> N. ctx m \<noteq> None" "n + 8 * length F + 10 \<le> N"
  shows "\<exists>err s'. Processor_Run dbs ctx p (new_run_state c h n) = Some (err, s') \<and> caughtUp s'
    \<and> position s' = pos_after (ckpt position_of p (new_run_state c h n)) F (length F)
    \<and> caughtUpPosition s' = position s' \<and> ckpt position_of p s' = position s'
    \<and> rs_handler s' = snd (handle_each (pr_handle p) F h)"
  by (rule healthy_processing.catches_up [OF assms(1,2) refl assms(3) _ assms(5,6)])
    (use assms(4) in \<open>simp add: live_def\<close>)

declare run_loop.simps [code]

section \<open>Two events, a failing handler and a cancelled context\<close>

definition demo_projection :: projection_id where
  "demo_projection = \<lparr>Name = ''orders'', Version = 1\<rparr>"

definition demo_log :: "nat \<Rightarrow> event_store" where
  "demo_log n = snd (demo_store (New_id ''order'' 3))"

definition demo_handler :: "event option \<Rightarrow> int \<Rightarrow> go_error option \<times> int" where
  "demo_handler e n = (if n = 1 then Some (Text ''broken'') else None, n + 1)"

definition demo_context :: "nat \<Rightarrow> go_context" where
  "demo_context k n = (if n < k then None else Some ContextCanceled)"

definition demo_processor :: "bool \<Rightarrow> (event_store, stream_iterator, checkpoint_store, int) processor" where
  "demo_processor b = WithContinueOnHandlerError b (memory_processor 5 demo_projection demo_handler)"

text \<open>Error, position, caught-up flag and position, handler state, checkpoint and clock of a run.\<close>

definition demo_run :: "bool \<Rightarrow> (checkpoint_store, int) run_state
  \<Rightarrow> (go_error \<times> int64 \<times> bool \<times> int64 \<times> int \<times> int64 option \<times> nat) option" where
  "demo_run b s = map_option (\<lambda>(err, s). (err, position s, caughtUp s, caughtUpPosition s, rs_handler s,
     checkpoint_position (rs_store s) demo_projection, clock s))
   (Processor_Run demo_log (demo_context 27) (demo_processor b) s)"

lemma demo_run_fails:
  "demo_run False (new_run_state NewCheckpointStore 0 1)
   = Some (Wrap (FmtErr ''handling event'') (Text ''broken''), 1, False, 0, 2, Some 1, 11)"
  by code_simp

lemma demo_run_continues:
  "demo_run True (new_run_state NewCheckpointStore 0 1) = Some (Sentinel ContextCanceled, 2, True, 2, 2, Some 2, 28)"
  by code_simp
lemma demo_processing:
  "processing (demo_processor b) log_view (store_valid hex_string) checkpoint_position Checkpoint_Delete demo_log"
  unfolding demo_processor_def
  by (rule processing_memory)
    (simp_all add: memory_processor_fields continuing_processor_fields max_int64_def demo_log_def
      reachable_valid [OF demo_reachable])

lemma demo_healthy:
  "healthy_processing (demo_processor True) log_view (store_valid hex_string) checkpoint_position Checkpoint_Delete demo_log"
  by (rule healthy_processing_memory [OF demo_processing])
    (simp_all add: demo_processor_def memory_processor_fields continuing_processor_fields)

lemma demo_fields [simp]:
  "pr_id (demo_processor b) = demo_projection" "pr_handle (demo_processor b) = demo_handler"
  "pr_load (demo_processor b) = Checkpoint_Load" "continueOnHandlerError (demo_processor b) = b"
  "checkpointEvery (demo_processor b) = 1"
  by (simp_all add: demo_processor_def memory_processor_fields continuing_processor_fields)

lemma demo_load: "loadPosition (demo_processor b) (new_run_state NewCheckpointStore h n) = Inr 0"
  by (simp add: loadPosition_def Checkpoint_Load_def NewCheckpointStore_def errors_is.simps)

abbreviation demo_Run :: "bool \<Rightarrow> (checkpoint_store, int) run_state \<Rightarrow> (go_error \<times> (checkpoint_store, int) run_state) option" where
  "demo_Run b s \<equiv> Processor_Run demo_log (demo_context 27) (demo_processor b) s"

lemma demo_runD:
  assumes "demo_run b s = Some (err, q, b', q', h, k, m)"
  obtains s' where "demo_Run b s = Some (err, s')" "position s' = q" "caughtUp s' = b'" "caughtUpPosition s' = q'"
    "rs_handler s' = h" "checkpoint_position (rs_store s') demo_projection = k" "clock s' = m"
  using assms by (auto simp: demo_run_def)

text \<open>The failing handler stops the run after the first event, with the second one begun.\<close>

lemma Run_handles_in_order_witness:
  "\<exists>s'. demo_Run False (new_run_state NewCheckpointStore 0 1) = Some (Wrap (FmtErr ''handling event'') (Text ''broken''), s')
    \<and> position s' = 1 \<and> rs_handler s' = 2
    \<and> list_all (\<lambda>r. r = None) (fst (handle_each demo_handler (between 0 1 (log_view (demo_log (clock s')))) 0))"
proof -
  obtain s' where s': "demo_Run False (new_run_state NewCheckpointStore 0 1)
      = Some (Wrap (FmtErr ''handling event'') (Text ''broken''), s')" "position s' = 1" "rs_handler s' = 2"
    by (rule demo_runD [OF demo_run_fails])
  then show ?thesis
    using Run_handles_in_order [OF demo_processing s'(1)] by (auto simp: demo_load Let_def)
qed

lemma Run_checkpoint_trails_witness:
  "\<exists>s'. demo_Run False (new_run_state NewCheckpointStore 0 1) = Some (Wrap (FmtErr ''handling event'') (Text ''broken''), s')
    \<and> ckpt checkpoint_position (demo_processor False) s' = 1
    \<and> length (between 1 1 (log_view (demo_log (clock s')))) \<le> 1"
proof -
  obtain s' where s': "demo_Run False (new_run_state NewCheckpointStore 0 1)
      = Some (Wrap (FmtErr ''handling event'') (Text ''broken''), s')" "position s' = 1"
      "checkpoint_position (rs_store s') demo_projection = Some 1"
    by (rule demo_runD [OF demo_run_fails])
  then show ?thesis
    using Run_checkpoint_trails [OF demo_processing s'(1) demo_load] by (auto simp: ckpt_def)
qed

lemma CaughtUp_is_durable_witness:
  "\<exists>s'. demo_Run True (new_run_state NewCheckpointStore 0 1) = Some (Sentinel ContextCanceled, s')
    \<and> caughtUpPosition s' = 2 \<and> 2 \<le> ckpt checkpoint_position (demo_processor True) s'
    \<and> (\<exists>m. m \<le> 28 \<and> (\<forall>e \<in> set (log_view (demo_log m)). event_position e \<le> 2))"
proof -
  obtain s' where s': "demo_Run True (new_run_state NewCheckpointStore 0 1) = Some (Sentinel ContextCanceled, s')"
      "caughtUp s'" "caughtUpPosition s' = 2" "clock s' = 28"
    by (rule demo_runD [OF demo_run_continues]) auto
  then show ?thesis using CaughtUp_is_durable [OF demo_processing s'(1,2)] by auto
qed

text \<open>The second run, from the checkpoint the failure left, handles what the first one did not.\<close>

lemma resumed_run_skips_nothing_witness:
  "\<exists>s err' s'. demo_Run False (new_run_state NewCheckpointStore 0 1)
      = Some (Wrap (FmtErr ''handling event'') (Text ''broken''), s)
    \<and> Processor_Run demo_log (demo_context 40) (demo_processor False) (new_run_state (rs_store s) 5 11) = Some (err', s')
    \<and> (\<forall>e \<in> set (log_view (demo_log (clock s'))). 0 < event_position e \<and> event_position e \<le> position s'
        \<longrightarrow> e \<in> set (between 0 1 (log_view (demo_log (clock s'))))
          \<or> e \<in> set (between 1 (position s') (log_view (demo_log (clock s')))))"
proof -
  obtain s where s: "demo_Run False (new_run_state NewCheckpointStore 0 1)
      = Some (Wrap (FmtErr ''handling event'') (Text ''broken''), s)" "position s = 1"
      "checkpoint_position (rs_store s) demo_projection = Some 1" "clock s = 11"
    by (rule demo_runD [OF demo_run_fails])
  have load: "loadPosition (demo_processor False) (new_run_state (rs_store s) 5 11) = Inr 1"
    using s(3) by (auto simp: loadPosition_def Checkpoint_Load_def checkpoint_position_def)
  have "\<forall>n \<ge> 40. demo_context 40 n \<noteq> None" by (simp add: demo_context_def)
  from Processor_Run_ends [OF this] obtain err' s' where
    run: "Processor_Run demo_log (demo_context 40) (demo_processor False) (new_run_state (rs_store s) 5 11) = Some (err', s')"
    by blast
  note both = resumed_run_skips_nothing [OF demo_processing s(1) demo_load run load]
  show ?thesis using s(1,2,4) run both by fastforce
qed

lemma Run_returns_witness:
  "\<exists>err s'. Processor_Run demo_log (demo_context 3) (demo_processor True) (new_run_state NewCheckpointStore 0 1) = Some (err, s')
    \<and> demo_Run True s' = Some (Text ''processor has already been run'', s')"
proof -
  have "\<forall>n \<ge> 3. demo_context 3 n \<noteq> None" by (simp add: demo_context_def)
  then show ?thesis
    using Run_returns [of 3 "demo_context 3" demo_log "demo_processor True" "new_run_state NewCheckpointStore 0 1"] by blast
qed

lemma demo_log_positions: "map event_position (log_view (demo_log m)) = [1, 2]"
  by code_simp

lemma Run_catches_up_witness:
  "\<exists>err s'. demo_Run True (new_run_state NewCheckpointStore 0 1) = Some (err, s')
     \<and> caughtUp s' \<and> position s' = 2 \<and> rs_handler s' = 2"
proof -
  have two: "\<exists>a b. log_view (demo_log 0) = [a, b] \<and> event_position a = 1 \<and> event_position b = 2"
    using demo_log_positions [of 0] by (auto simp: map_eq_Cons_conv)
  then obtain a b where ab: "log_view (demo_log 0) = [a, b]" "event_position a = 1" "event_position b = 2" by blast
  have start: "ckpt checkpoint_position (demo_processor True) (new_run_state NewCheckpointStore 0 1) = 0"
    by (simp add: ckpt_def checkpoint_position_def NewCheckpointStore_def)
  have "\<exists>err s'. demo_Run True (new_run_state NewCheckpointStore 0 1) = Some (err, s') \<and> caughtUp s'
    \<and> position s' = pos_after (ckpt checkpoint_position (demo_processor True) (new_run_state NewCheckpointStore 0 1)) [a, b] (length [a, b])
    \<and> caughtUpPosition s' = position s' \<and> ckpt checkpoint_position (demo_processor True) s' = position s'
    \<and> rs_handler s' = snd (handle_each (pr_handle (demo_processor True)) [a, b] 0)"
    by (rule Run_catches_up [OF demo_healthy, where L = "[a, b]" and N = 27])
      (use ab start in \<open>simp_all add: demo_log_def demo_context_def\<close>)
  then show ?thesis using ab by (auto simp: start demo_handler_def numeral_2_eq_2)
qed

end
