(* ===== verification/Cutover.thy ===== *)
theory Cutover
  imports LifecycleState GlobalReader "HOL-Library.AList_Mapping"
begin

text \<open>
  Cutovers and who serves them (\<open>projection/lifecycle/router.go\<close>, \<open>cutover.go\<close> and the decoder of
  \<open>worker.go\<close>): the in-memory setter and router, the semantic decoder of cutover events, the
  validating fold over them, and the stream router that caches that fold. The UUID library's
  \<open>NewV5\<close> and the JSON decoding of the two event structs are parameters. A partial function's
  \<open>None\<close> here is a loop that does not return, or a nil pointer dereferenced.
\<close>

section \<open>Addresses\<close>

definition StreamType :: string where
  "StreamType = ProjectionStreamType"

definition streamNamespace :: uuid where
  "streamNamespace = 0x77572c0079774ff6a769fc84e1523857"

definition StreamUUID :: "(uuid \<Rightarrow> string \<Rightarrow> uuid) \<Rightarrow> string \<Rightarrow> uuid" where
  "StreamUUID newV5 nm = newV5 streamNamespace nm"

section \<open>The in-memory router\<close>

record memory_router =
  applied :: "string \<Rightarrow> cutover option"

definition NewMemoryRouter :: memory_router where
  "NewMemoryRouter = \<lparr>applied = Map.empty\<rparr>"

definition Router_Live :: "memory_router \<Rightarrow> string \<Rightarrow> projection_id result" where
  "Router_Live r nm = (case applied r nm of
     None \<Rightarrow> Inl (fmt_wrap nm (Sentinel ErrNoLiveVersion)) | Some c \<Rightarrow> Inr (co_Live c))"

definition ApplyCutover :: "memory_router \<Rightarrow> cutover \<Rightarrow> go_error option \<times> memory_router" where
  "ApplyCutover r c =
     (case projection_Validate (co_Live c) of
        Some err \<Rightarrow> (Some (fmt_wrap ''invalid live version'' err), r)
      | None \<Rightarrow>
     if co_Revision c < 1 then (Some (Text ''invalid cutover revision''), r)
     else let nm = Name (co_Live c); current = applied r nm in
       if current = None \<or> co_Revision (the current) < co_Revision c
       then (None, r\<lparr>applied := (applied r)(nm \<mapsto> c)\<rparr>)
       else if co_Revision c = co_Revision (the current) \<and> co_Live c \<noteq> co_Live (the current)
       then (Some (Text ''conflicting cutovers claim one revision''), r)
       else (None, r))"

definition AppliedCutover :: "memory_router \<Rightarrow> string \<Rightarrow> cutover result" where
  "AppliedCutover r nm = (case applied r nm of
     None \<Rightarrow> Inl (fmt_wrap nm (Sentinel ErrNoLiveVersion)) | Some c \<Rightarrow> Inr c)"

section \<open>Decoding cutover events\<close>

record raw_cutover =
  rw_cutover :: cutover
  rw_from :: projection_id
  rw_rollback :: bool

text \<open>
  What \<open>json.Unmarshal\<close> fills of a \<open>Promoted\<close> (its previous and next version and its revision) and
  of a \<open>RolledBack\<close> (its versions from and to and its revision).
\<close>

record cutover_json =
  unmarshalPromoted :: "bytes \<Rightarrow> (projection_id \<times> projection_id \<times> int64) result"
  unmarshalRolledBack :: "bytes \<Rightarrow> (projection_id \<times> projection_id \<times> int64) result"

definition checkCutover ::
  "(uuid \<Rightarrow> string \<Rightarrow> uuid) \<Rightarrow> event \<Rightarrow> raw_cutover \<Rightarrow> raw_cutover option result" where
  "checkCutover newV5 e raw =
     (case projection_Validate (co_Live (rw_cutover raw)) of
        Some err \<Rightarrow> Inl (fmt_wrap ''cutover event records an invalid live version'' err)
      | None \<Rightarrow>
     if co_Revision (rw_cutover raw) < 1 then Inl (Text ''cutover event records an invalid cutover revision'')
     else if id_uuid (ev_StreamID e) \<noteq> StreamUUID newV5 (Name (co_Live (rw_cutover raw)))
     then Inl (Text ''cutover event on a stream other than the name-derived one'')
     else Inr (Some raw))"

definition decodeCutover ::
  "(uuid \<Rightarrow> string \<Rightarrow> uuid) \<Rightarrow> cutover_json \<Rightarrow> event \<Rightarrow> raw_cutover option result" where
  "decodeCutover newV5 js e =
     (if id_type (ev_StreamID e) \<noteq> StreamType then Inr None
      else if id_type (ev_ID e) = ''promoted'' then
        (case unmarshalPromoted js (ev_Data e) of
           Inl err \<Rightarrow> Inl (fmt_wrap ''decoding promoted event'' err)
         | Inr (prev, nxt, revision) \<Rightarrow> checkCutover newV5 e
             \<lparr>rw_cutover = \<lparr>co_Live = nxt, co_Revision = revision\<rparr>, rw_from = prev, rw_rollback = False\<rparr>)
      else if id_type (ev_ID e) = ''rolledback'' then
        (case unmarshalRolledBack js (ev_Data e) of
           Inl err \<Rightarrow> Inl (fmt_wrap ''decoding rolledback event'' err)
         | Inr (ver, back, revision) \<Rightarrow> checkCutover newV5 e
             \<lparr>rw_cutover = \<lparr>co_Live = back, co_Revision = revision\<rparr>, rw_from = ver, rw_rollback = True\<rparr>)
      else Inr None)"

section \<open>The validating fold\<close>

record cutover_fold =
  cf_current :: cutover
  cf_rollback :: projection_id
  cf_promoted :: int64

definition zero_cutover :: cutover where
  "zero_cutover = \<lparr>co_Live = zero_pid, co_Revision = 0\<rparr>"

definition zero_fold :: cutover_fold where
  "zero_fold = \<lparr>cf_current = zero_cutover, cf_rollback = zero_pid, cf_promoted = 0\<rparr>"

definition cutoverFold_apply :: "cutover_fold \<Rightarrow> raw_cutover \<Rightarrow> cutover_fold result" where
  "cutoverFold_apply f raw =
     (let c = rw_cutover raw in
      if rw_rollback raw \<and> co_Revision (cf_current f) = 0
      then Inl (Text ''the cutover history opens with a rollback'')
      else if rw_rollback raw \<and> cf_rollback f = zero_pid
      then Inl (Text ''the cutover history records a rollback with no promotion to revert'')
      else if co_Revision c \<noteq> wrap64 (co_Revision (cf_current f) + 1)
      then Inl (Text ''the cutover history records a revision out of sequence'')
      else if rw_from raw \<noteq> co_Live (cf_current f)
      then Inl (Text ''the cutover history records a flip from a version that was not live'')
      else if rw_rollback raw then
        (if co_Live c \<noteq> cf_rollback f
         then Inl (Text ''the cutover history records a rollback to a version the promotion did not retain'')
         else Inr \<lparr>cf_current = c, cf_rollback = zero_pid, cf_promoted = cf_promoted f\<rparr>)
      else if Version (co_Live c) \<le> cf_promoted f
      then Inl (Text ''the cutover history promotes at or below the promoted high-water'')
      else Inr \<lparr>cf_current = c, cf_rollback = rw_from raw, cf_promoted = Version (co_Live c)\<rparr>)"

text \<open>One event folded into the per-name map: an absent name is the zero fold.\<close>

type_synonym live_map = "(string, cutover_fold) mapping"

definition name_fold :: "live_map \<Rightarrow> string \<Rightarrow> cutover_fold" where
  "name_fold live nm = (case Mapping.lookup live nm of None \<Rightarrow> zero_fold | Some f \<Rightarrow> f)"

definition fold_cutover :: "live_map \<Rightarrow> raw_cutover \<Rightarrow> live_map result" where
  "fold_cutover live raw = (let nm = Name (co_Live (rw_cutover raw)) in
     case cutoverFold_apply (name_fold live nm) raw of
       Inl err \<Rightarrow> Inl err | Inr f \<Rightarrow> Inr (Mapping.update nm f live))"

section \<open>The stream router\<close>

text \<open>A nil live map is \<open>None\<close>; \<open>refreshedAt\<close> begins at the zero time.\<close>

record stream_router =
  refreshInterval :: int64
  sr_live :: "live_map option"
  sr_position :: int64
  refreshedAt :: time

type_synonym ('db, 'i) global_events =
  "('db \<Rightarrow> read_all_options \<Rightarrow> 'i option result) \<times> ('i \<Rightarrow> event option result \<times> 'i) \<times> ('i \<Rightarrow> go_error option)"

definition WithRefreshInterval :: "int64 \<Rightarrow> stream_router \<Rightarrow> stream_router" where
  "WithRefreshInterval interval r = r\<lparr>refreshInterval := interval\<rparr>"

definition NewStreamRouter ::
  "('db, 'i) global_events option \<Rightarrow> (stream_router \<Rightarrow> stream_router) option list
   \<Rightarrow> (('db, 'i) global_events \<times> stream_router) result" where
  "NewStreamRouter events opts = (case events of
     None \<Rightarrow> Inl (Text ''global event reader is required'')
   | Some rd \<Rightarrow>
       if list_ex Option.is_none opts then Inl (Text ''stream router option must not be nil'')
       else let r = fold (\<lambda>opt. the opt) opts
          \<lparr>refreshInterval = 0, sr_live = None, sr_position = 0, refreshedAt = 0\<rparr>
        in if refreshInterval r < 0 then Inl (Text ''refresh interval must not be negative'')
           else Inr (rd, r))"

text \<open>The fold's loop, up to the return that the deferred close then runs behind.\<close>

partial_function (option) router_fold_loop ::
  "(uuid \<Rightarrow> string \<Rightarrow> uuid) \<Rightarrow> cutover_json \<Rightarrow> ('i \<Rightarrow> event option result \<times> 'i) \<Rightarrow> 'i
   \<Rightarrow> live_map \<Rightarrow> int64 \<Rightarrow> ((live_map \<times> int64) result \<times> 'i) option" where
  "router_fold_loop newV5 js nxt it live position =
     (case nxt it of
        (Inl err, it') \<Rightarrow>
          if leavesMatch err [ErrEndOfEventStream] then Some (Inr (live, position), it')
          else Some (Inl (fmt_wrap ''reading event'' err), it')
      | (Inr None, it') \<Rightarrow> None
      | (Inr (Some e), it') \<Rightarrow>
          (let position' = (case ev_GlobalPosition e of None \<Rightarrow> position | Some p \<Rightarrow> p) in
           case decodeCutover newV5 js e of
             Inl err \<Rightarrow> Some (Inl err, it')
           | Inr None \<Rightarrow> router_fold_loop newV5 js nxt it' live position'
           | Inr (Some raw) \<Rightarrow>
               (case fold_cutover live raw of
                  Inl err \<Rightarrow> Some (Inl err, it')
                | Inr live' \<Rightarrow> router_fold_loop newV5 js nxt it' live' position')))"

definition router_fold ::
  "(uuid \<Rightarrow> string \<Rightarrow> uuid) \<Rightarrow> cutover_json \<Rightarrow> ('db, 'i) global_events \<Rightarrow> 'db \<Rightarrow> stream_router
   \<Rightarrow> (live_map \<times> int64) result option" where
  "router_fold newV5 js rd db r = (case rd of (readAll, nxt, closeIter) \<Rightarrow>
     (case readAll db \<lparr>AfterPosition = sr_position r, ra_Count = 0\<rparr> of
        Inl err \<Rightarrow> Some (Inl (fmt_wrap ''reading events'' err))
      | Inr None \<Rightarrow> None
      | Inr (Some it) \<Rightarrow>
          (case router_fold_loop newV5 js nxt it
             (case sr_live r of None \<Rightarrow> Mapping.empty | Some live \<Rightarrow> live) (sr_position r) of
             None \<Rightarrow> None
           | Some (res, it') \<Rightarrow>
               (case closeIter it' of
                  None \<Rightarrow> Some res
                | Some err \<Rightarrow> Some (Inl (the (errors_join
                    [case res of Inl e \<Rightarrow> Some e | Inr x \<Rightarrow> None,
                     Some (fmt_wrap ''closing event iterator'' err)])))))))"

definition router_advance ::
  "(uuid \<Rightarrow> string \<Rightarrow> uuid) \<Rightarrow> cutover_json \<Rightarrow> ('db, 'i) global_events \<Rightarrow> time \<Rightarrow> 'db \<Rightarrow> stream_router
   \<Rightarrow> (go_error option \<times> stream_router) option" where
  "router_advance newV5 js rd now db r = (case router_fold newV5 js rd db r of
     None \<Rightarrow> None
   | Some (Inl err) \<Rightarrow> Some (Some err, r)
   | Some (Inr (live, position)) \<Rightarrow>
       Some (None, r\<lparr>sr_live := Some live, sr_position := position, refreshedAt := now\<rparr>))"

definition Router_Refresh ::
  "(uuid \<Rightarrow> string \<Rightarrow> uuid) \<Rightarrow> cutover_json \<Rightarrow> ('db, 'i) global_events \<Rightarrow> time \<Rightarrow> 'db \<Rightarrow> stream_router
   \<Rightarrow> (go_error option \<times> stream_router) option" where
  "Router_Refresh newV5 js rd now db r = router_advance newV5 js rd now db r"

text \<open>\<open>time.Since\<close> saturates; \<open>checked\<close> is the time it is asked at, \<open>now\<close> the one an advance records.\<close>

definition since :: "time \<Rightarrow> time \<Rightarrow> int64" where
  "since checked t = max min_int64 (min max_int64 (checked - t))"

definition Stream_Live ::
  "(uuid \<Rightarrow> string \<Rightarrow> uuid) \<Rightarrow> cutover_json \<Rightarrow> ('db, 'i) global_events \<Rightarrow> time \<Rightarrow> time \<Rightarrow> 'db \<Rightarrow> stream_router
   \<Rightarrow> string \<Rightarrow> (projection_id result \<times> stream_router) option" where
  "Stream_Live newV5 js rd checked now db r nm =
     (let stale = (0 < refreshInterval r \<and> refreshInterval r < since checked (refreshedAt r)) in
      case (if sr_live r = None \<or> stale then router_advance newV5 js rd now db r else Some (None, r)) of
        None \<Rightarrow> None
      | Some (Some err, r') \<Rightarrow> Some (Inl err, r')
      | Some (None, r') \<Rightarrow>
          Some (case (case sr_live r' of None \<Rightarrow> None | Some live \<Rightarrow> Mapping.lookup live nm) of
              None \<Rightarrow> Inl (fmt_wrap nm (Sentinel ErrNoLiveVersion))
            | Some f \<Rightarrow> Inr (co_Live (cf_current f)), r'))"

end
