(* ===== verification/CutoverWorker.thy ===== *)
theory CutoverWorker
  imports Cutover
begin

text \<open>
  The cutover worker (\<open>projection/lifecycle/worker.go\<close>): it folds the whole recorded cutover history,
  applies each projection's final cutover through every setter, signals readiness and then tails the
  sequence. Setters are values of a type \<open>'s\<close> with one \<open>ApplyCutover\<close> operation. As for the processor,
  \<open>dbs n\<close> is the event store when the context has been consulted \<open>n\<close> times, and a partial function's
  \<open>None\<close> is a run that does not return or a nil pointer dereferenced.
\<close>

section \<open>Configuration\<close>

record 's worker_config =
  wc_setters :: "'s list"
  wc_poll :: int64
  wc_optionErr :: "go_error option"

definition WithCutoverSetter :: "'s option \<Rightarrow> 's worker_config \<Rightarrow> 's worker_config" where
  "WithCutoverSetter setter c = (case setter of
     None \<Rightarrow> c\<lparr>wc_optionErr := errors_join [wc_optionErr c, Some (Text ''cutover setter must not be nil'')]\<rparr>
   | Some s \<Rightarrow> c\<lparr>wc_setters := wc_setters c @ [s]\<rparr>)"

definition Worker_WithPollInterval :: "int64 \<Rightarrow> 's worker_config \<Rightarrow> 's worker_config" where
  "Worker_WithPollInterval interval c =
     (if interval \<le> 0
      then c\<lparr>wc_optionErr := errors_join [wc_optionErr c, Some (Text ''poll interval must be positive'')]\<rparr>
      else c\<lparr>wc_poll := interval\<rparr>)"

definition defaultWorkerPollInterval :: int64 where
  "defaultWorkerPollInterval = 1000000000"

text \<open>
  A worker's events and poll interval are fixed; its state is the setters, whether it has started,
  whether it is ready, and the clock.
\<close>

record 's worker_state =
  ws_setters :: "'s list"
  ws_started :: bool
  ws_ready :: bool
  ws_clock :: nat

definition NewWorker ::
  "('db, 'i) global_events option \<Rightarrow> ('s worker_config \<Rightarrow> 's worker_config) option list \<Rightarrow> nat
   \<Rightarrow> (('db, 'i) global_events \<times> int64 \<times> 's worker_state) result" where
  "NewWorker events opts n = (case events of
     None \<Rightarrow> Inl (Text ''global event reader is required'')
   | Some rd \<Rightarrow>
       if list_ex Option.is_none opts then Inl (Text ''worker option must not be nil'')
       else let config = fold (\<lambda>opt. the opt) opts
          \<lparr>wc_setters = [], wc_poll = defaultWorkerPollInterval, wc_optionErr = None\<rparr>
        in case wc_optionErr config of
             Some err \<Rightarrow> Inl err
           | None \<Rightarrow>
               if length (wc_setters config) = 0 then Inl (Text ''at least one cutover setter is required'')
               else Inr (rd, wc_poll config,
                 \<lparr>ws_setters = wc_setters config, ws_started = False, ws_ready = False, ws_clock = n\<rparr>))"

section \<open>Delivery\<close>

text \<open>One cutover through the setters in order; the result carries the setters and the clock.\<close>

fun deliver ::
  "go_context \<Rightarrow> ('s \<Rightarrow> cutover \<Rightarrow> go_error option \<times> 's) \<Rightarrow> cutover \<Rightarrow> 's list \<Rightarrow> nat
   \<Rightarrow> go_error option \<times> 's list \<times> nat" where
  "deliver ctx applyTo c [] n = (None, [], n)"
| "deliver ctx applyTo c (s # ss) n = (case ctx n of
     Some ctxErr \<Rightarrow> (Some (Sentinel ctxErr), s # ss, Suc n)
   | None \<Rightarrow> (case applyTo s c of
       (Some err, s') \<Rightarrow> (Some (fmt_wrap ''applying cutover'' err), s' # ss, Suc n)
     | (None, s') \<Rightarrow> (case deliver ctx applyTo c ss (Suc n) of (r, ss', m) \<Rightarrow> (r, s' # ss', m))))"

text \<open>The post-close delivery of a drain: the context is consulted after each cutover too.\<close>

fun deliver_accepted ::
  "go_context \<Rightarrow> ('s \<Rightarrow> cutover \<Rightarrow> go_error option \<times> 's) \<Rightarrow> cutover list \<Rightarrow> 's list \<Rightarrow> nat
   \<Rightarrow> go_error option \<times> 's list \<times> nat" where
  "deliver_accepted ctx applyTo [] ss n = (None, ss, n)"
| "deliver_accepted ctx applyTo (c # cs) ss n = (case deliver ctx applyTo c ss n of
     (Some err, ss', m) \<Rightarrow> (Some err, ss', m)
   | (None, ss', m) \<Rightarrow> (case ctx m of
       Some ctxErr \<Rightarrow> (Some (Sentinel ctxErr), ss', Suc m)
     | None \<Rightarrow> deliver_accepted ctx applyTo cs ss' (Suc m)))"

text \<open>The initial delivery: each projection's current cutover, in ascending name order.\<close>

fun deliver_names ::
  "go_context \<Rightarrow> ('s \<Rightarrow> cutover \<Rightarrow> go_error option \<times> 's) \<Rightarrow> live_map \<Rightarrow> string list \<Rightarrow> 's list \<Rightarrow> nat
   \<Rightarrow> go_error option \<times> 's list \<times> nat" where
  "deliver_names ctx applyTo live [] ss n = (None, ss, n)"
| "deliver_names ctx applyTo live (nm # names) ss n =
     (case deliver ctx applyTo (cf_current (name_fold live nm)) ss n of
        (Some err, ss', m) \<Rightarrow> (Some err, ss', m)
      | (None, ss', m) \<Rightarrow> deliver_names ctx applyTo live names ss' m)"

section \<open>Draining\<close>

text \<open>
  The read of a drain: its error, the folds, the last position, the accepted cutovers (collected only
  when the drain delivers), the iterator and the clock.
\<close>

partial_function (option) worker_read ::
  "go_context \<Rightarrow> (uuid \<Rightarrow> string \<Rightarrow> uuid) \<Rightarrow> cutover_json \<Rightarrow> ('i \<Rightarrow> event option result \<times> 'i) \<Rightarrow> bool
   \<Rightarrow> 'i \<Rightarrow> live_map \<Rightarrow> int64 \<Rightarrow> cutover list \<Rightarrow> nat
   \<Rightarrow> (go_error option \<times> live_map \<times> int64 \<times> cutover list \<times> 'i \<times> nat) option" where
  "worker_read ctx newV5 js nxt tailing it live position accepted n =
     (case ctx n of
        Some ctxErr \<Rightarrow> Some (Some (Sentinel ctxErr), live, position, accepted, it, Suc n)
      | None \<Rightarrow> (case nxt it of (r, it') \<Rightarrow>
     (case ctx (Suc n) of
        Some ctxErr \<Rightarrow> Some (Some (case r of
            Inr e \<Rightarrow> Sentinel ctxErr
          | Inl err \<Rightarrow> if leavesMatch err [ErrEndOfEventStream, ctxErr] then Sentinel ctxErr
              else Join [Sentinel ctxErr, fmt_wrap ''reading event'' err]), live, position, accepted, it', Suc (Suc n))
      | None \<Rightarrow> (case r of
          Inl err \<Rightarrow> Some (if leavesMatch err [ErrEndOfEventStream] then None else Some (fmt_wrap ''reading event'' err),
            live, position, accepted, it', Suc (Suc n))
        | Inr None \<Rightarrow> None
        | Inr (Some e) \<Rightarrow>
            (let position' = (case ev_GlobalPosition e of None \<Rightarrow> position | Some p \<Rightarrow> p) in
             case decodeCutover newV5 js e of
               Inl err \<Rightarrow> Some (Some err, live, position', accepted, it', Suc (Suc n))
             | Inr None \<Rightarrow> worker_read ctx newV5 js nxt tailing it' live position' accepted (Suc (Suc n))
             | Inr (Some raw) \<Rightarrow> (case fold_cutover live raw of
                 Inl err \<Rightarrow> Some (Some err, live, position', accepted, it', Suc (Suc n))
               | Inr live' \<Rightarrow> worker_read ctx newV5 js nxt tailing it' live' position'
                   (if tailing then accepted @ [rw_cutover raw] else accepted) (Suc (Suc n))))))))"

text \<open>How a drain reports a cancellation observed at its close.\<close>

definition with_cancellation :: "sentinel \<Rightarrow> go_error option \<Rightarrow> go_error" where
  "with_cancellation ctxErr readErr = (case readErr of
     None \<Rightarrow> Sentinel ctxErr
   | Some err \<Rightarrow>
       if leavesMatch err [ctxErr] then Sentinel ctxErr
       else if errors_is err ctxErr then err
       else Join [Sentinel ctxErr, err])"

definition worker_drain ::
  "(nat \<Rightarrow> 'db) \<Rightarrow> go_context \<Rightarrow> (uuid \<Rightarrow> string \<Rightarrow> uuid) \<Rightarrow> cutover_json \<Rightarrow> ('db, 'i) global_events
   \<Rightarrow> ('s \<Rightarrow> cutover \<Rightarrow> go_error option \<times> 's) option \<Rightarrow> live_map \<Rightarrow> int64 \<Rightarrow> 's list \<Rightarrow> nat
   \<Rightarrow> (go_error option \<times> int64 \<times> live_map \<times> 's list \<times> nat) option" where
  "worker_drain dbs ctx newV5 js rd delivery live after ss n = (case rd of (readAll, nxt, closeIter) \<Rightarrow>
     (case ctx n of
        Some ctxErr \<Rightarrow> Some (Some (Sentinel ctxErr), after, live, ss, Suc n)
      | None \<Rightarrow>
     (case readAll (dbs (Suc n)) \<lparr>AfterPosition = after, ra_Count = 0\<rparr> of
        Inl err \<Rightarrow> Some (Some (case ctx (Suc n) of
            None \<Rightarrow> fmt_wrap ''reading events'' err
          | Some ctxErr \<Rightarrow> if leavesMatch err [ctxErr] then Sentinel ctxErr
              else Join [Sentinel ctxErr, fmt_wrap ''reading events'' err]), after, live, ss, Suc (Suc n))
      | Inr None \<Rightarrow> None
      | Inr (Some it) \<Rightarrow>
     (case worker_read ctx newV5 js nxt (delivery \<noteq> None) it live after [] (Suc n) of
        None \<Rightarrow> None
      | Some (readErr, live', position, accepted, it', m) \<Rightarrow>
          (let closeErr = closeIter it'; ctxErr = ctx m in
           case closeErr of
             Some err \<Rightarrow>
               (let readErr' = (case ctxErr of None \<Rightarrow> readErr | Some c \<Rightarrow> Some (with_cancellation c readErr)) in
                Some (errors_join [readErr', Some (fmt_wrap ''closing event iterator'' err)], position, live', ss, Suc m))
           | None \<Rightarrow>
               (case ctxErr of
                  Some c \<Rightarrow> Some (Some (with_cancellation c readErr), position, live', ss, Suc m)
                | None \<Rightarrow>
                    (case (case delivery of
                        None \<Rightarrow> (None, ss, Suc m)
                      | Some applyTo \<Rightarrow> deliver_accepted ctx applyTo accepted ss (Suc m)) of
                       (Some err, ss', k) \<Rightarrow> Some (Some err, position, live', ss', k)
                     | (None, ss', k) \<Rightarrow> Some (readErr, position, live', ss', k))))))))"

section \<open>Running\<close>

text \<open>The tail: drains that deliver, with one consultation of the context per wait.\<close>

partial_function (option) worker_tail ::
  "(nat \<Rightarrow> 'db) \<Rightarrow> go_context \<Rightarrow> (uuid \<Rightarrow> string \<Rightarrow> uuid) \<Rightarrow> cutover_json \<Rightarrow> ('db, 'i) global_events
   \<Rightarrow> ('s \<Rightarrow> cutover \<Rightarrow> go_error option \<times> 's) \<Rightarrow> live_map \<Rightarrow> int64 \<Rightarrow> 's worker_state
   \<Rightarrow> (go_error \<times> 's worker_state) option" where
  "worker_tail dbs ctx newV5 js rd applyTo live mark w =
     (case worker_drain dbs ctx newV5 js rd (Some applyTo) live mark (ws_setters w) (ws_clock w) of
        None \<Rightarrow> None
      | Some (Some err, mark', live', ss, n) \<Rightarrow> Some (err, w\<lparr>ws_setters := ss, ws_clock := n\<rparr>)
      | Some (None, mark', live', ss, n) \<Rightarrow>
          (case ctx n of
             Some ctxErr \<Rightarrow> Some (Sentinel ctxErr, w\<lparr>ws_setters := ss, ws_clock := Suc n\<rparr>)
           | None \<Rightarrow> worker_tail dbs ctx newV5 js rd applyTo live' mark' (w\<lparr>ws_setters := ss, ws_clock := Suc n\<rparr>)))"

definition Worker_Run ::
  "(nat \<Rightarrow> 'db) \<Rightarrow> go_context \<Rightarrow> (uuid \<Rightarrow> string \<Rightarrow> uuid) \<Rightarrow> cutover_json \<Rightarrow> ('db, 'i) global_events
   \<Rightarrow> ('s \<Rightarrow> cutover \<Rightarrow> go_error option \<times> 's) \<Rightarrow> 's worker_state \<Rightarrow> (go_error \<times> 's worker_state) option" where
  "Worker_Run dbs ctx newV5 js rd applyTo w =
     (if ws_started w then Some (Text ''the worker has already run: create a new worker to refold from zero'', w)
      else let w1 = w\<lparr>ws_started := True\<rparr> in
        (case worker_drain dbs ctx newV5 js rd None Mapping.empty 0 (ws_setters w1) (ws_clock w1) of
           None \<Rightarrow> None
         | Some (Some err, mark, live, ss, n) \<Rightarrow> Some (err, w1\<lparr>ws_setters := ss, ws_clock := n\<rparr>)
         | Some (None, mark, live, ss, n) \<Rightarrow>
        (case deliver_names ctx applyTo live (Mapping.ordered_keys live) ss n of
           (Some err, ss', m) \<Rightarrow> Some (err, w1\<lparr>ws_setters := ss', ws_clock := m\<rparr>)
         | (None, ss', m) \<Rightarrow>
             (case ctx m of
                Some ctxErr \<Rightarrow> Some (Sentinel ctxErr, w1\<lparr>ws_setters := ss', ws_clock := Suc m\<rparr>)
              | None \<Rightarrow> worker_tail dbs ctx newV5 js rd applyTo live mark
                  (w1\<lparr>ws_setters := ss', ws_ready := True, ws_clock := Suc m\<rparr>)))))"

declare worker_read.simps [code] worker_tail.simps [code]

end
