(* ===== verification/CutoverHistory.thy ===== *)
theory CutoverHistory
  imports Cutover LifecycleProps
begin

text \<open>
  The routers' validating fold against the lifecycle's own: the two accept the same cutover
  histories and agree on what they leave live.
\<close>

fun raw_of :: "lifecycle_event \<Rightarrow> raw_cutover option" where
  "raw_of (Promoted prev nxt revision g w) =
     Some \<lparr>rw_cutover = \<lparr>co_Live = nxt, co_Revision = revision\<rparr>, rw_from = prev, rw_rollback = False\<rparr>"
| "raw_of (RolledBack ver back revision w) =
     Some \<lparr>rw_cutover = \<lparr>co_Live = back, co_Revision = revision\<rparr>, rw_from = ver, rw_rollback = True\<rparr>"
| "raw_of _ = None"

definition raws :: "lifecycle_event list \<Rightarrow> raw_cutover list" where
  "raws es = List.map_filter raw_of es"

lemma raws_simps [simp]:
  "raws [] = []" "raws (es @ fs) = raws es @ raws fs"
  "raws [e] = (case raw_of e of None \<Rightarrow> [] | Some c \<Rightarrow> [c])"
  by (simp_all add: raws_def map_filter_def split: option.split)

lemma raws_flips: "raws es = raws (flips es)"
  by (induction es rule: rev_induct) (auto split: lifecycle_event.split)

primrec fold_history :: "cutover_fold \<Rightarrow> raw_cutover list \<Rightarrow> cutover_fold result" where
  "fold_history f [] = Inr f"
| "fold_history f (c # cs) = (case cutoverFold_apply f c of Inl err \<Rightarrow> Inl err | Inr f' \<Rightarrow> fold_history f' cs)"

lemma fold_history_append:
  "fold_history f (cs @ ds) = (case fold_history f cs of Inl err \<Rightarrow> Inl err | Inr f' \<Rightarrow> fold_history f' ds)"
  by (induction cs arbitrary: f) (auto split: sum.split)

section \<open>Every clean lifecycle stream folds\<close>

definition tracks :: "state \<Rightarrow> cutover_fold \<Rightarrow> bool" where
  "tracks s f \<longleftrightarrow> cf_current f = \<lparr>co_Live = Live s, co_Revision = CutoverRevision s\<rparr>
     \<and> 0 \<le> cf_promoted f \<and> cf_promoted f \<le> Allocated s
     \<and> (at_Phase (Attempt s) \<in> {PhaseCreated, PhaseBuilding, PhaseCaughtUp} \<longrightarrow> cf_promoted f < Allocated s)
     \<and> (at_Phase (Attempt s) = PhasePromoted \<longrightarrow> cf_rollback f = Previous (Attempt s))"

lemma tracks_start: "tracks (NewState uuid_nil) zero_fold"
  by (simp add: tracks_def NewState_def zero_fold_def zero_cutover_def zero_attempt_def)

lemma sound_target:
  assumes "sound s" "at_Phase (Attempt s) \<noteq> PhaseNone"
  shows "Version (Target (Attempt s)) = Allocated s"
    and "at_Phase (Attempt s) = PhaseCaughtUp \<Longrightarrow> Live s = Previous (Attempt s)"
  using assms sound_named [OF assms] by (auto simp: sound_def attempt_ok_def Let_def split: if_splits)

lemma tracks_step:
  assumes "legal s e s'" "sound s" "tracks s f"
  shows "\<exists>f'. fold_history f (raws [e]) = Inr f' \<and> tracks s' f'"
  using assms
proof (induction rule: legal.induct)
  case (promote s w)
  have "Version (Target (Attempt s)) = Allocated s" "Live s = Previous (Attempt s)"
    using sound_target [OF promote.prems(1)] promote.hyps by simp_all
  moreover have "wrap64 (CutoverRevision s + 1) = CutoverRevision s + 1"
    using sound_counters(4) [OF promote.prems(1)] promote.hyps by simp
  ultimately show ?case
    using promote by (auto simp: tracks_def cutoverFold_apply_def Let_def)
next
  case (roll_back s w)
  have named: "st_Name s \<noteq> ''''" using sound_named roll_back by simp
  have "1 \<le> CutoverRevision s"
    using sound_live [OF roll_back.prems(1) named] roll_back.hyps by (simp add: cut_over_def)
  moreover have "wrap64 (CutoverRevision s + 1) = CutoverRevision s + 1"
    using sound_counters(4) [OF roll_back.prems(1)] roll_back.hyps by simp
  ultimately show ?case
    using roll_back by (auto simp: tracks_def cutoverFold_apply_def Let_def)
qed (auto simp: tracks_def)

lemma history_folds: "history es s \<Longrightarrow> \<exists>f. fold_history zero_fold (raws es) = Inr f \<and> tracks s f"
proof (induction rule: history.induct)
  case (history_step es s e s')
  then obtain f where f: "fold_history zero_fold (raws es) = Inr f" "tracks s f" by blast
  from tracks_step [OF history_step.hyps(2) history_sound [OF history_step.hyps(1)] f(2)] f(1)
  show ?case by (auto simp: fold_history_append)
qed (simp add: tracks_start)

section \<open>Every cutover history the fold accepts is some clean stream's\<close>

text \<open>What the decoder guarantees of a cutover of a projection.\<close>

definition decoded_for :: "string \<Rightarrow> raw_cutover \<Rightarrow> bool" where
  "decoded_for n raw \<longleftrightarrow> (let c = rw_cutover raw in projection_Validate (co_Live c) = None
     \<and> Name (co_Live c) = n \<and> Version (co_Live c) \<le> max_int64 \<and> 1 \<le> co_Revision c \<and> co_Revision c \<le> max_int64)"

definition reaches :: "string \<Rightarrow> cutover_fold \<Rightarrow> state \<Rightarrow> bool" where
  "reaches n f s \<longleftrightarrow> cf_current f = \<lparr>co_Live = Live s, co_Revision = CutoverRevision s\<rparr>
     \<and> Allocated s = cf_promoted f \<and> (st_Name s = n \<or> s = NewState uuid_nil)
     \<and> (Attempt s = zero_attempt \<and> cf_rollback f = zero_pid
        \<or> at_Phase (Attempt s) = PhasePromoted \<and> cf_rollback f = Previous (Attempt s))"

lemma rest_skip:
  assumes "history es s" "at_rest n v r (int k) s" "valid_name n" "k \<le> m" "int m \<le> max_int64"
  shows "\<exists>es' s'. history es' s' \<and> flips es' = flips es \<and> at_rest n v r (int m) s'"
  using assms(4,5)
proof (induction rule: dec_induct)
  case base
  then show ?case using assms(1,2) by blast
next
  case (step m)
  then obtain es' s' where s': "history es' s'" "flips es' = flips es" "at_rest n v r (int m) s'" by auto
  from rest_abandon [OF s'(1,3) assms(3)] step.prems s'(2) show ?case by (auto simp: add.commute)
qed

lemma reaches_rest:
  assumes "history es s" "reaches n f s"
  shows "\<exists>es' s'. history es' s' \<and> flips es' = flips es
    \<and> at_rest n (Version (Live s)) (CutoverRevision s) (Allocated s) s' \<and> Live s' = Live s"
proof -
  have sound: "sound s" using history_sound [OF assms(1)] .
  have live: "Live s = (if Version (Live s) = 0 then zero_pid else \<lparr>Name = n, Version = Version (Live s)\<rparr>)"
  proof (cases "st_Name s = ''''")
    case False
    then have "version_of n (Live s) (Allocated s)"
      using sound_live [OF sound] assms(2) by (auto simp: reaches_def NewState_def)
    then show ?thesis by (cases "Live s") (auto simp: version_of_def zero_pid_def)
  next
    case True
    then show ?thesis using sound by (simp add: sound_def NewState_def)
  qed
  have name: "st_Name s = n \<or> Allocated s = 0 \<and> st_Name s = ''''" using assms(2) by (auto simp: reaches_def NewState_def)
  consider "Attempt s = zero_attempt" | "at_Phase (Attempt s) = PhasePromoted" using assms(2) by (auto simp: reaches_def)
  then show ?thesis
  proof cases
    case 1
    then have "at_rest n (Version (Live s)) (CutoverRevision s) (Allocated s) s"
      using live name by (simp add: at_rest_def)
    then show ?thesis using assms(1) by blast
  next
    case 2
    have "at_rest n (Version (Live s)) (CutoverRevision s) (Allocated s) (s\<lparr>Attempt := zero_attempt\<rparr>)"
      using live name by (simp add: at_rest_def)
    then show ?thesis using rest_vacate [OF assms(1) 2] by fastforce
  qed
qed

lemma reaches_step:
  assumes hist: "history es s" and at: "reaches n f s" and raw: "decoded_for n raw"
    and ok: "cutoverFold_apply f raw = Inr f'"
  shows "\<exists>es' s'. history es' s' \<and> raws es' = raws es @ [raw] \<and> reaches n f' s'"
proof -
  obtain live rev ver rb where raw_eq:
    "raw = \<lparr>rw_cutover = \<lparr>co_Live = live, co_Revision = rev\<rparr>, rw_from = ver, rw_rollback = rb\<rparr>"
    by (metis (full_types) cutover.surjective raw_cutover.surjective old.unit.exhaust)
  have dec: "projection_Validate live = None" "Name live = n" "Version live \<le> max_int64" "1 \<le> rev" "rev \<le> max_int64"
    using raw by (simp_all add: decoded_for_def raw_eq)
  have valid: "valid_name n" "1 \<le> Version live" using dec(1,2) by (auto simp: projection_Validate_iff)
  have sound: "sound s" by (rule history_sound [OF hist])
  have cur: "cf_current f = \<lparr>co_Live = Live s, co_Revision = CutoverRevision s\<rparr>" and al: "Allocated s = cf_promoted f"
    using at by (simp_all add: reaches_def)
  have seq: "rev = wrap64 (CutoverRevision s + 1)" "ver = Live s"
    using ok cur by (auto simp: cutoverFold_apply_def raw_eq Let_def split: if_splits)
  have max: "CutoverRevision s \<noteq> max_int64"
  proof
    assume "CutoverRevision s = max_int64"
    then have "rev < 1" using seq(1) by (simp add: wrap64_succ max_int64_def min_int64_def wrap64_def)
    then show False using dec(4) by simp
  qed
  have rev: "rev = CutoverRevision s + 1" "CutoverRevision s < max_int64"
    using sound_counters(4) [OF sound max] seq(1) by simp_all
  show ?thesis
  proof (cases rb)
    case True
    have bk: "cf_rollback f \<noteq> zero_pid" "live = cf_rollback f" "f' = \<lparr>cf_current = \<lparr>co_Live = live, co_Revision = rev\<rparr>,
        cf_rollback = zero_pid, cf_promoted = cf_promoted f\<rparr>"
      using ok True by (auto simp: cutoverFold_apply_def raw_eq Let_def split: if_splits)
    have ph: "at_Phase (Attempt s) = PhasePromoted" "Previous (Attempt s) = live"
      using at bk by (auto simp: reaches_def)
    let ?s = "s\<lparr>Live := Previous (Attempt s), CutoverRevision := CutoverRevision s + 1, Attempt := zero_attempt\<rparr>"
    have "legal s (RolledBack (Live s) (Previous (Attempt s)) (CutoverRevision s + 1) 0) ?s"
      using ph bk rev by (intro legal.roll_back) auto
    from history_step [OF hist this]
    have "history (es @ [RolledBack (Live s) live rev 0]) ?s" using ph rev by simp
    moreover have "reaches n f' ?s" "raws (es @ [RolledBack (Live s) live rev 0]) = raws es @ [raw]"
      using at ph bk rev seq True al sound_named [OF sound] by (auto simp: reaches_def raw_eq NewState_def)
    ultimately show ?thesis by blast
  next
    case False
    have fwd: "cf_promoted f < Version live" "f' = \<lparr>cf_current = \<lparr>co_Live = live, co_Revision = rev\<rparr>,
        cf_rollback = ver, cf_promoted = Version live\<rparr>"
      using ok False by (auto simp: cutoverFold_apply_def raw_eq Let_def split: if_splits)
    obtain es1 s1 where s1: "history es1 s1" "flips es1 = flips es" "Live s1 = Live s"
      "at_rest n (Version (Live s)) (CutoverRevision s) (int (nat (Allocated s))) s1"
      using reaches_rest [OF hist at] sound_counters(3) [OF sound] by auto
    define m where "m = nat (Version live - 1)"
    have m: "nat (Allocated s) \<le> m" "int m = Version live - 1" "int m < max_int64"
      using fwd(1) al dec(3) valid(2) sound_counters(3) [OF sound] by (auto simp: m_def)
    obtain es2 s2 where s2: "history es2 s2" "flips es2 = flips es1"
      "at_rest n (Version (Live s)) (CutoverRevision s) (int m) s2"
      using rest_skip [OF s1(1,4) valid(1) m(1)] m(3) by auto
    have live2: "Live s2 = Live s" using s2(3) s1(3,4) by (simp add: at_rest_def)
    obtain es3 s3 g where s3: "history es3 s3" "at_Phase (Attempt s3) = PhasePromoted"
      "flips es3 = flips es2 @ [Promoted (Live s2) \<lparr>Name = n, Version = int m + 1\<rparr> (CutoverRevision s + 1) g 0]"
      "st_Name s3 = n" "Live s3 = \<lparr>Name = n, Version = int m + 1\<rparr>" "CutoverRevision s3 = CutoverRevision s + 1"
      "Allocated s3 = int m + 1" "Previous (Attempt s3) = Live s2"
      using rest_promote [OF s2(1,3) valid(1) _ m(3) rev(2)] by auto
    have id: "\<lparr>Name = n, Version = int m + 1\<rparr> = live" using m(2) dec(2) by (cases live) simp
    have "raws es3 = raws (flips es3)" by (rule raws_flips)
    also have "\<dots> = raws es @ [raw]"
      unfolding s3(3) s2(2) s1(2) using raws_flips [of es] rev(1) seq(2) False live2 id by (simp add: raw_eq)
    finally have "raws es3 = raws es @ [raw]" .
    moreover have "reaches n f' s3"
      using s3 fwd(2) rev(1) seq(2) live2 id m(2) by (auto simp: reaches_def)
    ultimately show ?thesis using s3(1) by blast
  qed
qed

lemma accepted_history:
  "list_all (decoded_for n) cs \<Longrightarrow> fold_history zero_fold cs = Inr f \<Longrightarrow>
   \<exists>es s. history es s \<and> raws es = cs \<and> reaches n f s"
proof (induction cs arbitrary: f rule: rev_induct)
  case Nil
  have "reaches n zero_fold (NewState uuid_nil)"
    by (simp add: reaches_def NewState_def zero_fold_def zero_cutover_def)
  then show ?case using Nil history_start by (intro exI [of _ "[]"]) auto
next
  case (snoc c cs)
  obtain g where g: "fold_history zero_fold cs = Inr g" "cutoverFold_apply g c = Inr f"
    using snoc.prems(2) by (auto simp: fold_history_append split: sum.splits)
  obtain es s where "history es s" "raws es = cs" "reaches n g s" using snoc.IH [OF _ g(1)] snoc.prems(1) by auto
  from reaches_step [OF this(1,3) _ g(2)] this(2) snoc.prems(1) show ?case by auto
qed

text \<open>
  C27. The routers' validating fold is exact. Over cutovers the decoder lets through for one
  projection, it accepts precisely the sequences that some unpoisoned lifecycle stream records as its
  promotions and rollbacks; and for every unpoisoned stream it ends at the live version and cutover
  revision of the lifecycle state.
\<close>

theorem cutover_fold_exact:
  "(list_all (decoded_for n) cs \<longrightarrow>
      ((\<exists>f. fold_history zero_fold cs = Inr f)
       \<longleftrightarrow> (\<exists>es. InvalidReason (lifecycle_fold es) = '''' \<and> raws es = cs)))
   \<and> (InvalidReason (lifecycle_fold es) = '''' \<longrightarrow>
      (\<exists>f. fold_history zero_fold (raws es) = Inr f
         \<and> cf_current f = \<lparr>co_Live = Live (lifecycle_fold es), co_Revision = CutoverRevision (lifecycle_fold es)\<rparr>))"
proof -
  have agree: "\<exists>f. fold_history zero_fold (raws gs) = Inr f
      \<and> cf_current f = \<lparr>co_Live = Live (lifecycle_fold gs), co_Revision = CutoverRevision (lifecycle_fold gs)\<rparr>"
    if "InvalidReason (lifecycle_fold gs) = ''''" for gs
    using history_folds [of gs "lifecycle_fold gs"] that by (auto simp: history_iff tracks_def)
  have built: "\<exists>gs. InvalidReason (lifecycle_fold gs) = '''' \<and> raws gs = cs"
    if "list_all (decoded_for n) cs" "fold_history zero_fold cs = Inr f" for f
    using accepted_history [OF that] by (auto simp: history_iff)
  show ?thesis using agree built by blast
qed

definition demo_version :: "int64 \<Rightarrow> projection_id" where
  "demo_version v = \<lparr>Name = ''orders'', Version = v\<rparr>"

lemma demo_version_valid: "1 \<le> v \<Longrightarrow> projection_Validate (demo_version v) = None"
  by (simp add: demo_version_def projection_Validate_def MaxNameLength_def is_lower_def is_digit_def less_eq_char_def)

text \<open>Promotions of versions 1 and 3, and the rollback of the second.\<close>

definition demo_raws :: "raw_cutover list" where
  "demo_raws =
    [\<lparr>rw_cutover = \<lparr>co_Live = demo_version 1, co_Revision = 1\<rparr>, rw_from = zero_pid, rw_rollback = False\<rparr>,
     \<lparr>rw_cutover = \<lparr>co_Live = demo_version 3, co_Revision = 2\<rparr>, rw_from = demo_version 1, rw_rollback = False\<rparr>,
     \<lparr>rw_cutover = \<lparr>co_Live = demo_version 1, co_Revision = 3\<rparr>, rw_from = demo_version 3, rw_rollback = True\<rparr>]"

lemma cutover_fold_exact_witness:
  "\<exists>es. InvalidReason (lifecycle_fold es) = '''' \<and> raws es = demo_raws"
proof -
  have "list_all (decoded_for ''orders'') demo_raws"
    using demo_version_valid [of 1] demo_version_valid [of 3]
    by (simp add: demo_raws_def decoded_for_def max_int64_def) (simp add: demo_version_def)
  moreover have "\<exists>f. fold_history zero_fold demo_raws = Inr f"
    by (simp add: demo_raws_def cutoverFold_apply_def zero_fold_def zero_cutover_def demo_version_def zero_pid_def wrap64_def)
  ultimately show ?thesis using cutover_fold_exact [of "''orders''" demo_raws "[]"] by blast
qed

end
