(* ===== verification/RouterProps.thy ===== *)
theory RouterProps
  imports CutoverHistory LogPositions
begin

text \<open>
  The setter contract as a locale and the in-memory router as its instance; the stream router's
  fold over any reader that keeps the global reader contract, and over logs that hold clean
  lifecycle streams.
\<close>

section \<open>The setter contract\<close>

text \<open>
  \<open>serving s n\<close> is the cutover a setter serves for a name. A delivery that returns without an error
  has converged the setter onto it; one that fails has either applied a newer cutover or nothing.
\<close>

definition applicable :: "cutover option \<Rightarrow> cutover \<Rightarrow> bool" where
  "applicable current c \<longleftrightarrow> (case current of None \<Rightarrow> True | Some c0 \<Rightarrow> co_Revision c0 < co_Revision c)"

definition valid_cutover :: "cutover \<Rightarrow> bool" where
  "valid_cutover c \<longleftrightarrow> projection_Validate (co_Live c) = None \<and> 1 \<le> co_Revision c"

locale cutover_setter =
  fixes serving :: "'s \<Rightarrow> string \<Rightarrow> cutover option"
    and deliverTo :: "'s \<Rightarrow> cutover \<Rightarrow> go_error option \<times> 's"
    and appliedBy :: "'s \<Rightarrow> string \<Rightarrow> cutover result"
  assumes delivered: "deliverTo s c = (None, s') \<Longrightarrow>
      serving s' = (if applicable (serving s (Name (co_Live c))) c
        then (serving s)(Name (co_Live c) \<mapsto> c) else serving s)
      \<and> (\<forall>c0. serving s (Name (co_Live c)) = Some c0 \<longrightarrow> co_Revision c0 = co_Revision c \<longrightarrow> c0 = c)"
    and refused: "deliverTo s c = (Some e, s') \<Longrightarrow> serving s' = serving s
      \<or> applicable (serving s (Name (co_Live c))) c \<and> serving s' = (serving s)(Name (co_Live c) \<mapsto> c)"
    and answers: "appliedBy s n = Inr c \<Longrightarrow> serving s n = Some c"
    and denies: "appliedBy s n = Inl e \<Longrightarrow> errors_is e ErrNoLiveVersion \<Longrightarrow> serving s n = None"
begin

text \<open>A converged delivery leaves the setter at the cutover or past it, and never goes back.\<close>

lemma at_or_past:
  assumes "deliverTo s c = (None, s')"
  shows "\<exists>c'. serving s' (Name (co_Live c)) = Some c' \<and> co_Revision c \<le> co_Revision c'
    \<and> (co_Revision c' = co_Revision c \<longrightarrow> c' = c)"
  using delivered [OF assms] by (cases "serving s (Name (co_Live c))") (auto simp: applicable_def split: if_splits)

lemma monotone:
  assumes "deliverTo s c = (r, s')" "serving s n = Some c0"
  shows "\<exists>c1. serving s' n = Some c1 \<and> co_Revision c0 \<le> co_Revision c1 \<and> (c1 = c0 \<or> c1 = c)"
  using assms delivered [of s c s'] refused [of s c _ s']
  by (cases r) (auto simp: applicable_def split: if_splits option.splits)

text \<open>What it serves is what it served or what was delivered.\<close>

lemma nothing_else:
  assumes "deliverTo s c = (r, s')" "serving s' n = Some c1"
  shows "serving s n = Some c1 \<or> c1 = c \<and> n = Name (co_Live c)"
  using assms delivered [of s c s'] refused [of s c _ s'] by (cases r) (auto split: if_splits)

end

interpretation memory_router: cutover_setter applied ApplyCutover AppliedCutover
proof
  fix s c s' e n
  show "ApplyCutover s c = (None, s') \<Longrightarrow>
      applied s' = (if applicable (applied s (Name (co_Live c))) c
        then (applied s)(Name (co_Live c) \<mapsto> c) else applied s)
      \<and> (\<forall>c0. applied s (Name (co_Live c)) = Some c0 \<longrightarrow> co_Revision c0 = co_Revision c \<longrightarrow> c0 = c)"
    by (auto simp: ApplyCutover_def applicable_def Let_def split: option.splits if_splits)
  show "ApplyCutover s c = (Some e, s') \<Longrightarrow> applied s' = applied s
      \<or> applicable (applied s (Name (co_Live c))) c \<and> applied s' = (applied s)(Name (co_Live c) \<mapsto> c)"
    by (auto simp: ApplyCutover_def Let_def split: option.splits if_splits)
qed (auto simp: AppliedCutover_def split: option.splits)

section \<open>The stream router's fold\<close>

definition fold_event ::
  "(uuid \<Rightarrow> string \<Rightarrow> uuid) \<Rightarrow> cutover_json \<Rightarrow> live_map \<Rightarrow> event \<Rightarrow> live_map result" where
  "fold_event newV5 js live e = (case decodeCutover newV5 js e of
     Inl err \<Rightarrow> Inl err | Inr None \<Rightarrow> Inr live | Inr (Some raw) \<Rightarrow> fold_cutover live raw)"

primrec fold_events ::
  "(uuid \<Rightarrow> string \<Rightarrow> uuid) \<Rightarrow> cutover_json \<Rightarrow> live_map \<Rightarrow> event list \<Rightarrow> live_map result" where
  "fold_events newV5 js live [] = Inr live"
| "fold_events newV5 js live (e # es) = (case fold_event newV5 js live e of
     Inl err \<Rightarrow> Inl err | Inr live' \<Rightarrow> fold_events newV5 js live' es)"

lemma fold_events_append:
  "fold_events newV5 js live (es @ fs) = (case fold_events newV5 js live es of
     Inl err \<Rightarrow> Inl err | Inr live' \<Rightarrow> fold_events newV5 js live' fs)"
  by (induction es arbitrary: live) (auto split: sum.split)

lemma router_fold_loop_step:
  "router_fold_loop newV5 js nxt it live position = (case nxt it of
     (Inl err, it') \<Rightarrow> Some (if leavesMatch err [ErrEndOfEventStream] then Inr (live, position)
        else Inl (fmt_wrap ''reading event'' err), it')
   | (Inr None, it') \<Rightarrow> None
   | (Inr (Some e), it') \<Rightarrow> (case fold_event newV5 js live e of
        Inl err \<Rightarrow> Some (Inl err, it')
      | Inr live' \<Rightarrow> router_fold_loop newV5 js nxt it' live'
          (case ev_GlobalPosition e of None \<Rightarrow> position | Some p \<Rightarrow> p)))"
  by (subst router_fold_loop.simps)
    (auto simp: fold_event_def Let_def split: prod.split sum.split option.split)

text \<open>A loop that ends without an error has folded everything the read was to yield.\<close>

lemma router_fold_loop_sound:
  "router_fold_loop newV5 js nxt it live position = Some (Inr (live', position'), it') \<Longrightarrow>
   faithful nxt it es \<Longrightarrow> list_all (\<lambda>e. ev_GlobalPosition e \<noteq> None) es \<Longrightarrow>
   fold_events newV5 js live es = Inr live' \<and> position' = pos_after position es (length es)"
proof (induction es arbitrary: it live position)
  case Nil
  then show ?case
    using faithful_yield [OF Nil.prems(2)]
    by (subst (asm) router_fold_loop_step) (auto split: prod.splits sum.splits option.splits if_splits)
next
  case (Cons e es)
  obtain r it1 where nxt: "nxt it = (r, it1)" by fastforce
  show ?case
  proof (cases r)
    case (Inl err)
    then show ?thesis
      using Cons.prems(1) nxt faithful_end [OF Cons.prems(2), of err it1]
      by (subst (asm) router_fold_loop_step) (auto simp: errorLeavesMatch_allCausesMatch_eq split: if_splits)
  next
    case (Inr oe)
    have oe: "oe = Some e" "faithful nxt it1 es" using faithful_yield [OF Cons.prems(2), of oe it1] nxt Inr by auto
    obtain p where p: "ev_GlobalPosition e = Some p" using Cons.prems(3) by auto
    obtain live1 where live1: "fold_event newV5 js live e = Inr live1"
      "router_fold_loop newV5 js nxt it1 live1 p = Some (Inr (live', position'), it')"
      using Cons.prems(1) nxt Inr oe(1) p
      by (subst (asm) router_fold_loop_step) (auto split: sum.splits)
    then show ?thesis
      using Cons.IH [OF live1(2) oe(2)] Cons.prems(3) p by (simp add: event_position_def)
  qed
qed

lemma router_fold_loop_delivers:
  "delivers nxt closeIter it es \<Longrightarrow> list_all (\<lambda>e. ev_GlobalPosition e \<noteq> None) es \<Longrightarrow>
   \<exists>it'. closeIter it' = None \<and> router_fold_loop newV5 js nxt it live position =
     Some (case fold_events newV5 js live es of
         Inl err \<Rightarrow> Inl err | Inr live' \<Rightarrow> Inr (live', pos_after position es (length es)), it')"
proof (induction es arbitrary: it live position)
  case Nil
  then show ?case
    by (subst router_fold_loop_step) (auto simp: leafMatches_def errors_is.simps split: prod.splits)
next
  case (Cons e es)
  have len: "length (e # es) = Suc (length es)" by simp
  obtain it1 where it1: "nxt it = (Inr (Some e), it1)" "delivers nxt closeIter it1 es"
    using Cons.prems(1) by (cases "nxt it") auto
  obtain p where p: "ev_GlobalPosition e = Some p" using Cons.prems(2) by auto
  then have ep: "event_position e = p" by (simp add: event_position_def)
  show ?case
  proof (cases "fold_event newV5 js live e")
    case (Inl err)
    have "closeIter it1 = None" using it1(2) by (cases es) auto
    then show ?thesis using Inl it1(1) p by (subst router_fold_loop_step) simp
  next
    case (Inr live1)
    then show ?thesis
      using Cons.IH [OF it1(2), of live1 p] Cons.prems(2) it1(1) p
      unfolding len pos_after_simps ep by (subst router_fold_loop_step) simp
  qed
qed

text \<open>
  The cache is the fold of the log's events up to the cursor; an uncomputed one is that of none.
\<close>

definition cached :: "(uuid \<Rightarrow> string \<Rightarrow> uuid) \<Rightarrow> cutover_json \<Rightarrow> event list \<Rightarrow> stream_router \<Rightarrow> bool" where
  "cached newV5 js L r \<longleftrightarrow> fold_events newV5 js Mapping.empty (filter (\<lambda>e. event_position e \<le> sr_position r) L)
     = Inr (case sr_live r of None \<Rightarrow> Mapping.empty | Some live \<Rightarrow> live)"

definition new_router :: "int64 \<Rightarrow> stream_router" where
  "new_router d = \<lparr>refreshInterval = d, sr_live = None, sr_position = 0, refreshedAt = 0\<rparr>"

lemma cached_new:
  assumes "log_ordered L"
  shows "cached newV5 js L (new_router d)"
proof -
  have "filter (\<lambda>e. event_position e \<le> 0) L = []"
    using assms by (auto simp: log_ordered_def list_all_iff filter_empty_conv)
  then show ?thesis by (simp add: cached_def new_router_def)
qed

lemma view_of_all:
  "read_all_view L \<lparr>AfterPosition = q, ra_Count = 0\<rparr> = filter (\<lambda>e. q < event_position e) L"
  by (simp add: read_all_view_def limited_def event_position_def)

lemma cached_fold:
  assumes "cached newV5 js L r" "ascending L"
  shows "fold_events newV5 js (case sr_live r of None \<Rightarrow> Mapping.empty | Some live \<Rightarrow> live)
      (filter (\<lambda>e. sr_position r < event_position e) L) = fold_events newV5 js Mapping.empty L"
  using assms(1) by (subst (2) ascending_split [OF assms(2), of "sr_position r"])
    (simp add: fold_events_append cached_def)

lemma pos_after_all:
  assumes "ascending L" "e \<in> set L"
  shows "event_position e \<le> pos_after q (filter (\<lambda>e. q < event_position e) L) (length (filter (\<lambda>e. q < event_position e) L))"
proof -
  let ?F = "filter (\<lambda>e. q < event_position e) L"
  have "filter (\<lambda>e. pos_after q ?F (length ?F) < event_position e) L = []"
    using filter_beyond [OF assms(1), of "length ?F" q] by simp
  then show ?thesis using assms(2) by (auto simp: filter_empty_conv not_less)
qed

lemma cached_advanced:
  assumes "log_ordered L" "fold_events newV5 js Mapping.empty L = Inr live"
    and "position = pos_after q (filter (\<lambda>e. q < event_position e) L) (length (filter (\<lambda>e. q < event_position e) L))"
  shows "cached newV5 js L (r\<lparr>sr_live := Some live, sr_position := position, refreshedAt := now\<rparr>)"
proof -
  have "filter (\<lambda>e. event_position e \<le> position) L = L"
    using pos_after_all [of L _ q] assms(1,3) by (auto simp: log_ordered_def filter_id_conv)
  then show ?thesis using assms(2) by (simp add: cached_def)
qed

section \<open>Logs that hold clean lifecycle streams\<close>

definition records :: "cutover_json \<Rightarrow> event \<Rightarrow> lifecycle_event \<Rightarrow> bool" where
  "records js e d \<longleftrightarrow> id_type (ev_ID e) = lifecycle_EventType d \<and>
     (case d of Promoted p n r g w \<Rightarrow> unmarshalPromoted js (ev_Data e) = Inr (p, n, r)
      | RolledBack f t r w \<Rightarrow> unmarshalRolledBack js (ev_Data e) = Inr (f, t, r) | _ \<Rightarrow> True)"

definition lifecycle_id :: "(uuid \<Rightarrow> string \<Rightarrow> uuid) \<Rightarrow> string \<Rightarrow> typeid" where
  "lifecycle_id newV5 n = New_id StreamType (StreamUUID newV5 n)"

text \<open>
  \<open>hist n\<close> is what the log records on the stream the name \<open>n\<close> derives: an unpoisoned history of the
  projection \<open>n\<close>. Recorded projections have streams of their own.
\<close>

definition lifecycle_log ::
  "(uuid \<Rightarrow> string \<Rightarrow> uuid) \<Rightarrow> cutover_json \<Rightarrow> (string \<Rightarrow> lifecycle_event list) \<Rightarrow> event list \<Rightarrow> bool" where
  "lifecycle_log newV5 js hist L \<longleftrightarrow>
     (\<forall>n. InvalidReason (lifecycle_fold (hist n)) = ''''
        \<and> (hist n \<noteq> [] \<longrightarrow> st_Name (lifecycle_fold (hist n)) = n)
        \<and> list_all2 (records js) (filter (\<lambda>e. ev_StreamID e = lifecycle_id newV5 n) L) (hist n))
     \<and> (\<forall>e \<in> set L. id_type (ev_StreamID e) = StreamType \<longrightarrow> (\<exists>n. ev_StreamID e = lifecycle_id newV5 n))
     \<and> (\<forall>n m. hist n \<noteq> [] \<longrightarrow> hist m \<noteq> [] \<longrightarrow> StreamUUID newV5 n = StreamUUID newV5 m \<longrightarrow> n = m)"

definition serves_history :: "(string \<Rightarrow> lifecycle_event list) \<Rightarrow> live_map \<Rightarrow> bool" where
  "serves_history hist live \<longleftrightarrow> (\<forall>n. if raws (hist n) = [] then Mapping.lookup live n = None
     else \<exists>f. Mapping.lookup live n = Some f \<and> fold_history zero_fold (raws (hist n)) = Inr f)"

lemma lifecycle_id_simps [simp]:
  "id_type (lifecycle_id newV5 n) = StreamType" "id_uuid (lifecycle_id newV5 n) = StreamUUID newV5 n"
  "lifecycle_id newV5 n = lifecycle_id newV5 m \<longleftrightarrow> StreamUUID newV5 n = StreamUUID newV5 m"
  by (auto simp: lifecycle_id_def New_id_def)

lemma legal_keeps_name: "legal s e s' \<Longrightarrow> st_Name s \<noteq> '''' \<Longrightarrow> st_Name s' = st_Name s"
  by (induction rule: legal.induct) auto

lemma clean_name_prefix:
  assumes "InvalidReason (lifecycle_fold (es @ [e])) = ''''" "es \<noteq> []"
  shows "st_Name (lifecycle_fold es) = st_Name (lifecycle_fold (es @ [e]))"
proof -
  note step = clean_snoc [OF assms(1)]
  obtain gs g where es: "es = gs @ [g]" using assms(2) by (cases es rule: rev_cases) auto
  have "st_Name (lifecycle_fold es) \<noteq> ''''"
    using clean_snoc [of gs g] step(1) legal_named unfolding es by blast
  then show ?thesis using legal_keeps_name [OF step(3)] by simp
qed

text \<open>The last cutover of a clean stream passes the decoder.\<close>

lemma last_cutover:
  assumes "InvalidReason (lifecycle_fold (es @ [d])) = ''''" "raw_of d = Some raw"
    "st_Name (lifecycle_fold (es @ [d])) = n"
  shows "projection_Validate (co_Live (rw_cutover raw)) = None" "Name (co_Live (rw_cutover raw)) = n"
    "1 \<le> co_Revision (rw_cutover raw)"
    "\<exists>f f'. fold_history zero_fold (raws es) = Inr f \<and> cutoverFold_apply f raw = Inr f'
      \<and> fold_history zero_fold (raws (es @ [d])) = Inr f'"
proof -
  let ?s = "lifecycle_fold (es @ [d])"
  have sound: "sound ?s" by (rule clean_sound [OF assms(1)])
  have named: "st_Name ?s \<noteq> ''''"
    using legal_named [OF clean_snoc(3) clean_snoc(2)] assms(1) by blast
  obtain f' where f': "fold_history zero_fold (raws (es @ [d])) = Inr f'" "tracks ?s f'"
    using history_folds [of "es @ [d]" ?s] assms(1) history_iff by blast
  then obtain f where f: "fold_history zero_fold (raws es) = Inr f" "cutoverFold_apply f raw = Inr f'"
    using assms(2) by (auto simp: fold_history_append split: sum.splits)
  then show "\<exists>f f'. fold_history zero_fold (raws es) = Inr f \<and> cutoverFold_apply f raw = Inr f'
      \<and> fold_history zero_fold (raws (es @ [d])) = Inr f'" using f' by blast
  have cur: "rw_cutover raw = \<lparr>co_Live = Live ?s, co_Revision = CutoverRevision ?s\<rparr>"
    using f(2) f'(2) by (auto simp: tracks_def cutoverFold_apply_def Let_def split: if_splits)
  have legal: "legal (lifecycle_fold es) d ?s" by (rule clean_snoc(3) [OF assms(1)])
  have "0 < CutoverRevision ?s"
  proof -
    have "0 \<le> CutoverRevision (lifecycle_fold es)"
      using sound_live [OF clean_snoc(2) [OF assms(1)]] clean_snoc(2) [OF assms(1)]
      by (cases "st_Name (lifecycle_fold es) = ''''") (auto simp: sound_def NewState_def)
    with legal assms(2) show ?thesis by (induction rule: legal.induct) auto
  qed
  moreover have "version_of (st_Name ?s) (Live ?s) (Allocated ?s)" "valid_name (st_Name ?s)"
    "Live ?s = zero_pid \<longleftrightarrow> CutoverRevision ?s = 0"
    using sound_live [OF sound named] sound named by (auto simp: sound_def)
  ultimately show "projection_Validate (co_Live (rw_cutover raw)) = None" "Name (co_Live (rw_cutover raw)) = n"
    "1 \<le> co_Revision (rw_cutover raw)"
    using cur assms(3) by (auto simp: projection_Validate_iff version_of_def)
qed

lemma raw_types:
  "raw_of d = None \<Longrightarrow> lifecycle_EventType d \<noteq> ''promoted'' \<and> lifecycle_EventType d \<noteq> ''rolledback''"
  by (cases d) auto

lemma records_decode:
  assumes "records js e d" "ev_StreamID e = lifecycle_id newV5 n"
    and "InvalidReason (lifecycle_fold (es @ [d])) = ''''" "st_Name (lifecycle_fold (es @ [d])) = n"
  shows "decodeCutover newV5 js e = Inr (raw_of d)"
proof (cases "raw_of d")
  case None
  then show ?thesis using assms(1,2) raw_types [OF None] by (simp add: decodeCutover_def records_def)
next
  case (Some raw)
  note ok = last_cutover [OF assms(3) Some assms(4)]
  have "checkCutover newV5 e raw = Inr (Some raw)"
    using ok(1-3) assms(2) by (simp add: checkCutover_def)
  then show ?thesis
    using Some assms(1,2) by (cases d) (auto simp: decodeCutover_def records_def)
qed

lemma lifecycle_log_snoc:
  assumes "lifecycle_log newV5 js hist (L @ [e])" "id_type (ev_StreamID e) = StreamType"
  obtains n h d where "ev_StreamID e = lifecycle_id newV5 n" "hist n = h @ [d]" "records js e d"
    "lifecycle_log newV5 js (hist(n := h)) L"
proof -
  note log = assms(1) [unfolded lifecycle_log_def]
  obtain n where n: "ev_StreamID e = lifecycle_id newV5 n" using log assms(2) by auto
  have all: "list_all2 (records js) (filter (\<lambda>e. ev_StreamID e = lifecycle_id newV5 m) (L @ [e])) (hist m)" for m
    using log by blast
  obtain h d where hd: "hist n = h @ [d]" "records js e d"
    "list_all2 (records js) (filter (\<lambda>e. ev_StreamID e = lifecycle_id newV5 n) L) h"
    using all [of n] n by (auto simp: list_all2_append1 list_all2_Cons1)
  have other: "StreamUUID newV5 m \<noteq> StreamUUID newV5 n" if "m \<noteq> n" for m
  proof
    assume same: "StreamUUID newV5 m = StreamUUID newV5 n"
    then have "hist m \<noteq> []" using all [of m] n by auto
    then show False using log hd(1) same that by fastforce
  qed
  have clean: "InvalidReason (lifecycle_fold (h @ [d])) = ''''" "st_Name (lifecycle_fold (h @ [d])) = n"
    using log hd(1) by (metis snoc_eq_iff_butlast)+
  have "lifecycle_log newV5 js (hist(n := h)) L"
    unfolding lifecycle_log_def
  proof (intro conjI allI)
    fix m
    show "InvalidReason (lifecycle_fold ((hist(n := h)) m)) = ''''"
      using log clean_snoc(1) [OF clean(1)] by simp
    show "(hist(n := h)) m \<noteq> [] \<longrightarrow> st_Name (lifecycle_fold ((hist(n := h)) m)) = m"
      using log clean_name_prefix [OF clean(1)] clean(2) by simp
    show "list_all2 (records js) (filter (\<lambda>e. ev_StreamID e = lifecycle_id newV5 m) L) ((hist(n := h)) m)"
      using all [of m] hd(3) other [of m] n by auto
  qed (use log hd(1) in auto)
  then show ?thesis using that n hd by blast
qed

lemma fold_events_lifecycle:
  "lifecycle_log newV5 js hist L \<Longrightarrow> \<exists>live. fold_events newV5 js Mapping.empty L = Inr live \<and> serves_history hist live"
proof (induction L arbitrary: hist rule: rev_induct)
  case Nil
  then have "hist n = []" for n by (auto simp: lifecycle_log_def)
  then show ?case by (simp add: serves_history_def)
next
  case (snoc e L)
  show ?case
  proof (cases "id_type (ev_StreamID e) = StreamType")
    case False
    then have "ev_StreamID e \<noteq> lifecycle_id newV5 n" for n by auto
    then have "lifecycle_log newV5 js hist L" using snoc.prems by (simp add: lifecycle_log_def)
    from snoc.IH [OF this] obtain live where "fold_events newV5 js Mapping.empty L = Inr live" "serves_history hist live"
      by blast
    then show ?thesis using False by (simp add: fold_events_append fold_event_def decodeCutover_def)
  next
    case True
    obtain n h d where n: "ev_StreamID e = lifecycle_id newV5 n" "hist n = h @ [d]" "records js e d"
      "lifecycle_log newV5 js (hist(n := h)) L"
      by (rule lifecycle_log_snoc [OF snoc.prems True])
    obtain live where live: "fold_events newV5 js Mapping.empty L = Inr live" "serves_history (hist(n := h)) live"
      using snoc.IH [OF n(4)] by blast
    have clean: "InvalidReason (lifecycle_fold (h @ [d])) = ''''" "st_Name (lifecycle_fold (h @ [d])) = n"
      using snoc.prems n(2) unfolding lifecycle_log_def by (metis snoc_eq_iff_butlast)+
    note dec = records_decode [OF n(3,1) clean]
    show ?thesis
    proof (cases "raw_of d")
      case None
      have "raws (hist n) = raws h" using n(2) None by simp
      then have "serves_history hist live"
        using live(2) unfolding serves_history_def by (metis fun_upd_apply)
      then show ?thesis using live(1) dec None by (simp add: fold_events_append fold_event_def)
    next
      case (Some raw)
      note ok = last_cutover [OF clean(1) Some clean(2)]
      obtain f f' where f: "fold_history zero_fold (raws h) = Inr f" "cutoverFold_apply f raw = Inr f'"
        "fold_history zero_fold (raws (h @ [d])) = Inr f'" using ok(4) by blast
      have "name_fold live n = f"
        using live(2) f(1) unfolding serves_history_def name_fold_def
        by (cases "raws h = []") (fastforce split: if_splits dest: spec [of _ n])+
      then have "fold_cutover live raw = Inr (Mapping.update n f' live)"
        using f(2) ok(2) by (simp add: fold_cutover_def Let_def)
      moreover have "serves_history hist (Mapping.update n f' live)"
        unfolding serves_history_def
      proof
        fix m
        show "if raws (hist m) = [] then Mapping.lookup (Mapping.update n f' live) m = None
          else \<exists>f. Mapping.lookup (Mapping.update n f' live) m = Some f \<and> fold_history zero_fold (raws (hist m)) = Inr f"
          using live(2) n(2) f(3) Some unfolding serves_history_def by (cases "m = n") (auto simp: lookup_update' dest: spec [of _ m])
      qed
      ultimately show ?thesis using live(1) dec Some by (simp add: fold_events_append fold_event_def)
    qed
  qed
qed

declare router_fold_loop.simps [code]

section \<open>What the routers serve\<close>

primrec deliver_all :: "memory_router \<Rightarrow> cutover list \<Rightarrow> go_error option list \<times> memory_router" where
  "deliver_all r [] = ([], r)"
| "deliver_all r (c # cs) = (case ApplyCutover r c of (e, r') \<Rightarrow>
     case deliver_all r' cs of (es, r'') \<Rightarrow> (e # es, r''))"

text \<open>The cutovers a clean stream records: valid, of its projection, one for each revision.\<close>

lemma cutovers_raws: "cutovers es = map rw_cutover (raws es)"
  by (induction es rule: rev_induct) (auto simp: recorded_snoc split: lifecycle_event.split)

lemma recorded_cutover:
  assumes "InvalidReason (lifecycle_fold es) = ''''" "c \<in> set (cutovers es)"
  shows "valid_cutover c \<and> Name (co_Live c) = st_Name (lifecycle_fold es)
    \<and> co_Revision c \<le> CutoverRevision (lifecycle_fold es)"
  using assms
proof (induction es rule: rev_induct)
  case (snoc d es)
  have clean: "InvalidReason (lifecycle_fold es) = ''''" using clean_snoc(1) [OF snoc.prems(1)] .
  have sound: "sound (lifecycle_fold (es @ [d]))" by (rule clean_sound [OF snoc.prems(1)])
  have rev: "CutoverRevision (lifecycle_fold es) \<le> CutoverRevision (lifecycle_fold (es @ [d]))"
    using clean_snoc(3) [OF snoc.prems(1)] by (induction rule: legal.induct) auto
  show ?case
  proof (cases "c \<in> set (cutovers es)")
    case True
    then have "es \<noteq> []" by auto
    then show ?thesis
      using snoc.IH [OF clean True] rev clean_name_prefix [OF snoc.prems(1)] by auto
  next
    case False
    then obtain raw where raw: "raw_of d = Some raw" "c = rw_cutover raw"
      using snoc.prems(2) by (cases "raw_of d") (auto simp: cutovers_raws)
    obtain f' where f': "fold_history zero_fold (raws (es @ [d])) = Inr f'" "tracks (lifecycle_fold (es @ [d])) f'"
      using history_folds [of "es @ [d]"] snoc.prems(1) history_iff by blast
    then have "co_Revision c = CutoverRevision (lifecycle_fold (es @ [d]))"
      using raw by (auto simp: fold_history_append tracks_def cutoverFold_apply_def Let_def split: sum.splits if_splits)
    then show ?thesis using last_cutover [OF snoc.prems(1) raw(1) refl] raw(2) by (simp add: valid_cutover_def)
  qed
qed simp

lemma cutover_by_revision:
  assumes "InvalidReason (lifecycle_fold es) = ''''" "c \<in> set (cutovers es)" "c' \<in> set (cutovers es)"
    "co_Revision c = co_Revision c'"
  shows "c = c'"
proof -
  have "map co_Revision (cutovers es) = [1..CutoverRevision (lifecycle_fold es)]"
    using history_recorded [of es "lifecycle_fold es"] assms(1) by (simp add: history_iff recorded_def)
  then have "distinct (map co_Revision (cutovers es))" by simp
  then show ?thesis using assms(2-4) by (auto simp: distinct_map dest: inj_onD)
qed

lemma recorded_top:
  assumes "InvalidReason (lifecycle_fold es) = ''''" "cutovers es \<noteq> []"
  shows "last (cutovers es) = \<lparr>co_Live = Live (lifecycle_fold es), co_Revision = CutoverRevision (lifecycle_fold es)\<rparr>"
proof -
  let ?s = "lifecycle_fold es" and ?top = "last (cutovers es)"
  have rec: "map co_Revision (cutovers es) = [1..CutoverRevision ?s]" "Live ?s = co_Live ?top"
    using history_recorded [of es ?s] assms by (simp_all add: history_iff recorded_def)
  have "co_Revision ?top = last (map co_Revision (cutovers es))" using assms(2) by (simp add: last_map)
  also have "\<dots> = CutoverRevision ?s"
  proof -
    have "1 \<le> CutoverRevision ?s" using assms(2) rec(1) by (cases "1 \<le> CutoverRevision ?s") auto
    then show ?thesis unfolding rec(1) by (simp add: upto_rec2)
  qed
  finally show ?thesis using rec(2) by simp
qed

text \<open>Deliveries among recorded cutovers succeed, and leave the newest of them.\<close>

lemma deliver_recorded:
  assumes "InvalidReason (lifecycle_fold es) = ''''" "st_Name (lifecycle_fold es) = n"
    and "set cs \<subseteq> set (cutovers es)" "applied r n = None \<or> (\<exists>c \<in> set (cutovers es). applied r n = Some c)"
  shows "\<exists>r'. deliver_all r cs = (replicate (length cs) None, r')
    \<and> (applied r' n = applied r n \<or> (\<exists>c \<in> set cs. applied r' n = Some c))
    \<and> (\<forall>c \<in> set cs. \<exists>c'. applied r' n = Some c' \<and> co_Revision c \<le> co_Revision c')
    \<and> (\<forall>c0. applied r n = Some c0 \<longrightarrow> (\<exists>c'. applied r' n = Some c' \<and> co_Revision c0 \<le> co_Revision c'))"
  using assms(3,4)
proof (induction cs arbitrary: r)
  case (Cons c cs)
  note rc = recorded_cutover [OF assms(1), of c]
  have c: "projection_Validate (co_Live c) = None" "1 \<le> co_Revision c" "Name (co_Live c) = n"
    using rc Cons.prems(1) assms(2) by (auto simp: valid_cutover_def)
  obtain e r1 where ap: "ApplyCutover r c = (e, r1)" by fastforce
  have e: "e = None"
    using ap c Cons.prems cutover_by_revision [OF assms(1), of c]
    by (auto simp: ApplyCutover_def Let_def split: if_splits)
  have r1: "applied r1 n = Some c \<or> applied r1 n = applied r n"
    using memory_router.delivered [OF ap [unfolded e]] c(3) by (auto split: if_splits)
  have "applied r1 n = None \<or> (\<exists>c \<in> set (cutovers es). applied r1 n = Some c)"
    using r1 Cons.prems by auto
  from Cons.IH [OF _ this] Cons.prems(1) obtain r' where r': "deliver_all r1 cs = (replicate (length cs) None, r')"
    "applied r' n = applied r1 n \<or> (\<exists>c \<in> set cs. applied r' n = Some c)"
    "\<forall>c \<in> set cs. \<exists>c'. applied r' n = Some c' \<and> co_Revision c \<le> co_Revision c'"
    "\<forall>c0. applied r1 n = Some c0 \<longrightarrow> (\<exists>c'. applied r' n = Some c' \<and> co_Revision c0 \<le> co_Revision c')" by auto
  have past: "\<exists>c'. applied r' n = Some c' \<and> co_Revision c \<le> co_Revision c'"
    using memory_router.at_or_past [OF ap [unfolded e]] r'(4) c(3) by fastforce
  have old: "\<exists>c'. applied r' n = Some c' \<and> co_Revision c0 \<le> co_Revision c'" if "applied r n = Some c0" for c0
    using memory_router.monotone [OF ap that] r'(4) by fastforce
  show ?case using ap e r' r1 past old by auto
qed simp

text \<open>
  Any delivery order converges. Deliver to an in-memory router any sequence of cutovers a clean
  lifecycle stream records, in any order and with any repetition, as long as its last one is among
  them: every delivery succeeds, and the router serves the live version of the lifecycle state under
  its cutover revision.
\<close>

theorem MemoryRouter_converges:
  assumes "InvalidReason (lifecycle_fold es) = ''''" "st_Name (lifecycle_fold es) = n" "cutovers es \<noteq> []"
    and "set cs \<subseteq> set (cutovers es)" "last (cutovers es) \<in> set cs"
  shows "\<exists>r. deliver_all NewMemoryRouter cs = (replicate (length cs) None, r)
    \<and> AppliedCutover r n = Inr \<lparr>co_Live = Live (lifecycle_fold es), co_Revision = CutoverRevision (lifecycle_fold es)\<rparr>
    \<and> Router_Live r n = Inr (Live (lifecycle_fold es))"
proof -
  let ?s = "lifecycle_fold es" and ?top = "last (cutovers es)"
  have top: "?top = \<lparr>co_Live = Live ?s, co_Revision = CutoverRevision ?s\<rparr>" by (rule recorded_top [OF assms(1,3)])
  obtain r where r: "deliver_all NewMemoryRouter cs = (replicate (length cs) None, r)"
    "\<exists>c \<in> set cs. applied r n = Some c"
    "\<exists>c'. applied r n = Some c' \<and> co_Revision ?top \<le> co_Revision c'"
    using deliver_recorded [OF assms(1,2,4), of NewMemoryRouter] assms(5) by (fastforce simp: NewMemoryRouter_def)
  then obtain c where c: "applied r n = Some c" "c \<in> set (cutovers es)" "co_Revision ?top \<le> co_Revision c"
    using assms(4) by auto
  have "co_Revision c \<le> co_Revision ?top" using recorded_cutover [OF assms(1) c(2)] top by simp
  then have "c = ?top" using cutover_by_revision [OF assms(1) c(2)] c(3) assms(4,5) by auto
  then show ?thesis using r(1) c(1) top by (simp add: AppliedCutover_def Router_Live_def)
qed

lemma demo_history:
  "\<exists>es. InvalidReason (lifecycle_fold es) = '''' \<and> raws es = demo_raws \<and> st_Name (lifecycle_fold es) = ''orders''
    \<and> Live (lifecycle_fold es) = demo_version 1 \<and> CutoverRevision (lifecycle_fold es) = 3"
proof -
  have dec: "list_all (decoded_for ''orders'') demo_raws"
    using demo_version_valid [of 1] demo_version_valid [of 3]
    by (simp add: demo_raws_def decoded_for_def max_int64_def) (simp add: demo_version_def)
  have run: "fold_history zero_fold demo_raws = Inr \<lparr>cf_current = \<lparr>co_Live = demo_version 1, co_Revision = 3\<rparr>,
      cf_rollback = zero_pid, cf_promoted = 3\<rparr>"
    by (simp add: demo_raws_def cutoverFold_apply_def zero_fold_def zero_cutover_def demo_version_def zero_pid_def wrap64_def)
  from accepted_history [OF dec run] show ?thesis by (auto simp: history_iff reaches_def NewState_def)
qed

lemma MemoryRouter_converges_witness:
  "\<exists>r. deliver_all NewMemoryRouter
      [\<lparr>co_Live = demo_version 1, co_Revision = 3\<rparr>, \<lparr>co_Live = demo_version 3, co_Revision = 2\<rparr>,
       \<lparr>co_Live = demo_version 1, co_Revision = 3\<rparr>] = ([None, None, None], r)
    \<and> Router_Live r ''orders'' = Inr (demo_version 1)"
proof -
  obtain es where es: "InvalidReason (lifecycle_fold es) = ''''" "raws es = demo_raws"
    "st_Name (lifecycle_fold es) = ''orders''" "Live (lifecycle_fold es) = demo_version 1" using demo_history by blast
  have cs: "cutovers es = [\<lparr>co_Live = demo_version 1, co_Revision = 1\<rparr>, \<lparr>co_Live = demo_version 3, co_Revision = 2\<rparr>,
      \<lparr>co_Live = demo_version 1, co_Revision = 3\<rparr>]"
    unfolding cutovers_raws es(2) by (simp add: demo_raws_def)
  let ?cs = "[\<lparr>co_Live = demo_version 1, co_Revision = 3\<rparr>, \<lparr>co_Live = demo_version 3, co_Revision = 2\<rparr>,
       \<lparr>co_Live = demo_version 1, co_Revision = 3\<rparr>]"
  have "\<exists>r. deliver_all NewMemoryRouter ?cs = (replicate (length ?cs) None, r)
    \<and> AppliedCutover r ''orders'' = Inr \<lparr>co_Live = Live (lifecycle_fold es), co_Revision = CutoverRevision (lifecycle_fold es)\<rparr>
    \<and> Router_Live r ''orders'' = Inr (Live (lifecycle_fold es))"
    by (rule MemoryRouter_converges [OF es(1,3)]) (simp_all add: cs)
  moreover have "replicate (length ?cs) None = [None, None, None :: go_error option]" by (simp add: numeral_3_eq_3)
  ultimately show ?thesis unfolding es(4) by metis
qed

text \<open>
  C31. The stream router never serves a partial fold. Over any reader that keeps the global reader
  contract, whatever it fails at, a refresh of a consistent cache either reports an error and leaves
  cache and cursor untouched, or leaves exactly the fold of the whole log, consistent again.
\<close>

theorem Refresh_never_partial:
  assumes "global_reader readAll nxt log valid" "valid db"
    and "cached newV5 js (log db) r"
    and "Router_Refresh newV5 js (readAll, nxt, closeIter) now db r = Some (res, r')"
  shows "if res = None then cached newV5 js (log db) r' \<and> sr_live r' \<noteq> None
      \<and> fold_events newV5 js Mapping.empty (log db) = Inr (the (sr_live r'))
    else r' = r"
proof -
  have ord: "log_ordered (log db)" by (rule global_reader.ordered [OF assms(1,2)])
  have asc: "ascending (log db)" using ord by (simp add: log_ordered_def)
  let ?F = "filter (\<lambda>e. sr_position r < event_position e) (log db)"
  have pos: "list_all (\<lambda>e. ev_GlobalPosition e \<noteq> None) ?F"
    using ord by (auto simp: log_ordered_def list_all_iff)
  show ?thesis
  proof (cases res)
    case None
    then obtain live position where fold: "router_fold newV5 js (readAll, nxt, closeIter) db r = Some (Inr (live, position))"
      and r': "r' = r\<lparr>sr_live := Some live, sr_position := position, refreshedAt := now\<rparr>"
      using assms(4) by (auto simp: Router_Refresh_def router_advance_def split: option.splits sum.splits)
    obtain it it' where it: "readAll db \<lparr>AfterPosition = sr_position r, ra_Count = 0\<rparr> = Inr (Some it)"
      "router_fold_loop newV5 js nxt it (case sr_live r of None \<Rightarrow> Mapping.empty | Some live \<Rightarrow> live) (sr_position r)
        = Some (Inr (live, position), it')"
      using fold by (auto simp: router_fold_def split: sum.splits option.splits)
    have "faithful nxt it ?F"
      using global_reader.read_faithful [OF assms(1,2) it(1)] by (simp add: view_of_all)
    from router_fold_loop_sound [OF it(2) this pos]
    have "fold_events newV5 js Mapping.empty (log db) = Inr live" "position = pos_after (sr_position r) ?F (length ?F)"
      using cached_fold [OF assms(3) asc] by auto
    then show ?thesis using None cached_advanced [OF ord] r' by simp
  next
    case (Some err)
    then show ?thesis
      using assms(4) by (auto simp: Router_Refresh_def router_advance_def split: option.splits sum.splits)
  qed
qed

text \<open>
  C28. The stream router serves the recorded truth. Over a healthy reader and a log whose lifecycle
  streams are unpoisoned, a refresh of a consistent cache (a new router's is one) succeeds, and
  until the cache is stale \<open>Live\<close> answers for every projection name the live version of its lifecycle
  state, or \<open>ErrNoLiveVersion\<close> when no cutover is recorded.
\<close>

theorem StreamRouter_serves_recorded:
  assumes "healthy_reader readAll nxt closeIter log valid" "valid db"
    and "lifecycle_log newV5 js hist (log db)" "cached newV5 js (log db) r"
  shows "\<exists>r'. Router_Refresh newV5 js (readAll, nxt, closeIter) now db r = Some (None, r')
    \<and> (\<forall>n checked. \<not> (0 < refreshInterval r \<and> refreshInterval r < since checked now) \<longrightarrow>
        Stream_Live newV5 js (readAll, nxt, closeIter) checked t db r' n = Some
          (if cutovers (hist n) = [] then Inl (fmt_wrap n (Sentinel ErrNoLiveVersion))
           else Inr (Live (lifecycle_fold (hist n))), r'))"
proof -
  have g: "global_reader readAll nxt log valid" using assms(1) by (rule healthy_reader.axioms(1))
  have ord: "log_ordered (log db)" by (rule global_reader.ordered [OF g assms(2)])
  let ?F = "filter (\<lambda>e. sr_position r < event_position e) (log db)"
  have pos: "list_all (\<lambda>e. ev_GlobalPosition e \<noteq> None) ?F"
    using ord by (auto simp: log_ordered_def list_all_iff)
  obtain live where live: "fold_events newV5 js Mapping.empty (log db) = Inr live" "serves_history hist live"
    using fold_events_lifecycle [OF assms(3)] by blast
  obtain it where it: "readAll db \<lparr>AfterPosition = sr_position r, ra_Count = 0\<rparr> = Inr (Some it)"
    "delivers nxt closeIter it ?F"
    using healthy_reader.read_delivers [OF assms(1,2)] view_of_all by metis
  have "fold_events newV5 js (case sr_live r of None \<Rightarrow> Mapping.empty | Some live \<Rightarrow> live) ?F = Inr live"
    using cached_fold [OF assms(4)] ord live(1) by (simp add: log_ordered_def)
  then obtain r' where r': "Router_Refresh newV5 js (readAll, nxt, closeIter) now db r = Some (None, r')"
    "sr_live r' = Some live" "refreshedAt r' = now" "refreshInterval r' = refreshInterval r"
    using router_fold_loop_delivers [OF it(2) pos, of newV5 js "case sr_live r of None \<Rightarrow> Mapping.empty | Some live \<Rightarrow> live" "sr_position r"]
      it(1) by (auto simp: Router_Refresh_def router_advance_def router_fold_def)
  have answer: "(case Mapping.lookup live n of None \<Rightarrow> Inl (fmt_wrap n (Sentinel ErrNoLiveVersion)) | Some f \<Rightarrow> Inr (co_Live (cf_current f)))
      = (if cutovers (hist n) = [] then Inl (fmt_wrap n (Sentinel ErrNoLiveVersion)) else Inr (Live (lifecycle_fold (hist n))))" for n
  proof -
    have clean: "InvalidReason (lifecycle_fold (hist n)) = ''''" using assms(3) by (simp add: lifecycle_log_def)
    obtain f where f: "fold_history zero_fold (raws (hist n)) = Inr f" "tracks (lifecycle_fold (hist n)) f"
      using history_folds [of "hist n"] clean history_iff by blast
    have "if raws (hist n) = [] then Mapping.lookup live n = None else Mapping.lookup live n = Some f"
      using live(2) f(1) unfolding serves_history_def by (metis Inr_inject)
    then show ?thesis using f(2) by (auto simp: cutovers_raws tracks_def)
  qed
  show ?thesis
    using r' answer by (auto simp: Stream_Live_def Let_def)
qed

section \<open>A recorded promotion\<close>

text \<open>A decoder for the witness: it finds the promotion of \<open>orders_v1\<close> in every event.\<close>

definition demo_newV5 :: "uuid \<Rightarrow> string \<Rightarrow> uuid" where
  "demo_newV5 ns n = (if n = ''orders'' then 3 else 4)"

definition demo_json :: cutover_json where
  "demo_json = \<lparr>unmarshalPromoted = (\<lambda>d. Inr (zero_pid, demo_version 1, 1)),
     unmarshalRolledBack = (\<lambda>d. Inl (Text ''no rollback''))\<rparr>"

definition demo_events :: "lifecycle_event list" where
  "demo_events = [RebuildInitiated 1 (demo_version 1) zero_pid '''' 0, RunnerClaimed 1 2 0 zero_takeover 0,
     BuildStarted, CaughtUp 0 0 0, Promoted zero_pid (demo_version 1) 1 0 0]"

definition demo_recorded :: "event list result \<times> event_store" where
  "demo_recorded = AppendStream hex_string (\<lambda>i. of_nat i) (\<lambda>_. 0) NewEventStore (New_id StreamType 3)
     (map (\<lambda>d. \<lparr>we_Type = lifecycle_EventType d, we_Data = [1], we_DataContentType = ''json'', we_Metadata = None\<rparr>)
        demo_events) \<lparr>ExpectVersion = None, StreamMustNotExist = True\<rparr>"

lemma demo_events_clean:
  "InvalidReason (lifecycle_fold demo_events) = '''' \<and> st_Name (lifecycle_fold demo_events) = ''orders''
   \<and> Live (lifecycle_fold demo_events) = demo_version 1 \<and> cutovers demo_events \<noteq> []"
  by code_simp

lemma demo_recorded_view:
  "list_all2 (records demo_json) (log_view (snd demo_recorded)) demo_events
   \<and> list_all (\<lambda>e. ev_StreamID e = New_id StreamType 3) (log_view (snd demo_recorded))"
  by code_simp

lemma demo_lifecycle_log:
  "lifecycle_log demo_newV5 demo_json (\<lambda>n. if n = ''orders'' then demo_events else []) (log_view (snd demo_recorded))"
proof -
  let ?L = "log_view (snd demo_recorded)"
  have sid: "\<forall>e \<in> set ?L. ev_StreamID e = New_id StreamType 3" using demo_recorded_view by (simp add: list_all_iff)
  have lid: "lifecycle_id demo_newV5 n = New_id StreamType 3 \<longleftrightarrow> n = ''orders''" for n
    by (auto simp: lifecycle_id_def New_id_def StreamUUID_def demo_newV5_def)
  have "filter (\<lambda>e. ev_StreamID e = lifecycle_id demo_newV5 n) ?L = (if n = ''orders'' then ?L else [])" for n
    using sid lid [of n] by (auto simp: filter_id_conv filter_empty_conv)
  moreover have "InvalidReason (lifecycle_fold []) = ''''" by (simp add: fold_Nil NewState_def)
  ultimately show ?thesis
    using demo_events_clean demo_recorded_view sid lid [of "''orders''"]
    unfolding lifecycle_log_def by (auto intro: exI [of _ "''orders''"])
qed

lemma demo_recorded_valid: "store_valid hex_string (snd demo_recorded)"
proof -
  have "store_step hex_string NewEventStore (snd demo_recorded)"
    unfolding demo_recorded_def
    by (rule store_step.append [OF _ prod.collapse [symmetric]]) (simp add: NewEventStore_def max_int64_def demo_events_def)
  then show ?thesis by (intro reachable_valid r_into_rtranclp)
qed

lemma StreamRouter_serves_recorded_witness:
  "\<exists>r'. Router_Refresh demo_newV5 demo_json (Memory_ReadAll, Memory_Next, Memory_Close) 9 (snd demo_recorded) (new_router 0) = Some (None, r')
    \<and> Stream_Live demo_newV5 demo_json (Memory_ReadAll, Memory_Next, Memory_Close) 9 9 (snd demo_recorded) r' ''orders''
      = Some (Inr (demo_version 1), r')"
proof -
  have "cached demo_newV5 demo_json (log_view (snd demo_recorded)) (new_router 0)"
    by (rule cached_new [OF memory_log_ordered [OF demo_recorded_valid]])
  from StreamRouter_serves_recorded [OF memory_reader.healthy_reader_axioms demo_recorded_valid demo_lifecycle_log this,
      where now = 9 and t = 9]
  show ?thesis using demo_events_clean by (fastforce simp: new_router_def)
qed

lemma Refresh_never_partial_witness:
  "\<exists>r'. Router_Refresh demo_newV5 demo_json (Memory_ReadAll, Memory_Next, Memory_Close) 9 (snd demo_recorded) (new_router 0) = Some (None, r')
    \<and> fold_events demo_newV5 demo_json Mapping.empty (log_view (snd demo_recorded)) = Inr (the (sr_live r'))"
proof -
  have c: "cached demo_newV5 demo_json (log_view (snd demo_recorded)) (new_router 0)"
    by (rule cached_new [OF memory_log_ordered [OF demo_recorded_valid]])
  have "map_option fst (Router_Refresh demo_newV5 demo_json (Memory_ReadAll, Memory_Next, Memory_Close) 9 (snd demo_recorded) (new_router 0))
      = Some None"
    by code_simp
  then obtain r' where r': "Router_Refresh demo_newV5 demo_json (Memory_ReadAll, Memory_Next, Memory_Close) 9
      (snd demo_recorded) (new_router 0) = Some (None, r')" by auto
  from Refresh_never_partial [OF memory_reader.global_reader_axioms demo_recorded_valid c this] r'
  show ?thesis by auto
qed

end
