(* ===== verification/WorkerProps.thy ===== *)
theory WorkerProps
  imports CutoverWorker RouterProps AppendedStore
begin

text \<open>
  What the cutover worker guarantees over any reader and any setters that keep their contracts:
  setters are only ever moved to recorded cutovers and never back, and a worker that reports
  readiness has converged every setter on the record.
\<close>

section \<open>Recorded cutovers\<close>

definition recorded_in :: "(uuid \<Rightarrow> string \<Rightarrow> uuid) \<Rightarrow> cutover_json \<Rightarrow> event list \<Rightarrow> cutover set" where
  "recorded_in newV5 js es = {rw_cutover raw | raw e. e \<in> set es \<and> decodeCutover newV5 js e = Inr (Some raw)}"

lemma recorded_in_simps [simp]:
  "recorded_in newV5 js [] = {}"
  "recorded_in newV5 js (es @ fs) = recorded_in newV5 js es \<union> recorded_in newV5 js fs"
  "recorded_in newV5 js (e # es) = (case decodeCutover newV5 js e of
     Inr (Some raw) \<Rightarrow> insert (rw_cutover raw) (recorded_in newV5 js es) | _ \<Rightarrow> recorded_in newV5 js es)"
  by (auto simp: recorded_in_def split: sum.splits option.splits)

lemma recorded_in_mono: "set es \<subseteq> set fs \<Longrightarrow> recorded_in newV5 js es \<subseteq> recorded_in newV5 js fs"
  by (auto simp: recorded_in_def)

definition behind :: "live_map \<Rightarrow> cutover \<Rightarrow> bool" where
  "behind live c \<longleftrightarrow> (\<exists>f. Mapping.lookup live (Name (co_Live c)) = Some f \<and> co_Revision c \<le> co_Revision (cf_current f))"

text \<open>Every name's current cutover is a recorded one of that name, with the highest revision of it.\<close>

definition fold_tops :: "(uuid \<Rightarrow> string \<Rightarrow> uuid) \<Rightarrow> cutover_json \<Rightarrow> event list \<Rightarrow> live_map \<Rightarrow> bool" where
  "fold_tops newV5 js es live \<longleftrightarrow>
     (\<forall>nm f. Mapping.lookup live nm = Some f \<longrightarrow> cf_current f \<in> recorded_in newV5 js es
        \<and> Name (co_Live (cf_current f)) = nm \<and> in64 (co_Revision (cf_current f)) \<and> 1 \<le> co_Revision (cf_current f))
     \<and> (\<forall>c \<in> recorded_in newV5 js es. behind live c)"

lemma decoded_revision:
  "decodeCutover newV5 js e = Inr (Some raw) \<Longrightarrow> 1 \<le> co_Revision (rw_cutover raw)"
  by (auto simp: decodeCutover_def checkCutover_def split: if_splits sum.splits option.splits)

lemma accepted_next:
  assumes "cutoverFold_apply f raw = Inr f'" "in64 (co_Revision (cf_current f))" "0 \<le> co_Revision (cf_current f)"
    and "1 \<le> co_Revision (rw_cutover raw)"
  shows "cf_current f' = rw_cutover raw \<and> co_Revision (rw_cutover raw) = co_Revision (cf_current f) + 1
    \<and> in64 (co_Revision (rw_cutover raw))"
proof -
  have r: "cf_current f' = rw_cutover raw" "co_Revision (rw_cutover raw) = wrap64 (co_Revision (cf_current f) + 1)"
    using assms(1) by (auto simp: cutoverFold_apply_def Let_def split: if_splits)
  have "co_Revision (cf_current f) < max_int64"
  proof (rule ccontr)
    assume "\<not> ?thesis"
    then have "co_Revision (cf_current f) = max_int64" using assms(2) by (simp add: in64_def)
    then show False using r(2) assms(4) by (simp add: wrap64_def max_int64_def)
  qed
  then show ?thesis using r assms(3) by (simp add: in64_nonneg)
qed

lemma fold_tops_step:
  assumes "fold_tops newV5 js es live" "fold_event newV5 js live e = Inr live'"
  shows "fold_tops newV5 js (es @ [e]) live'"
proof (cases "decodeCutover newV5 js e")
  case (Inr o1)
  show ?thesis
  proof (cases o1)
    case None
    then show ?thesis using assms Inr by (simp add: fold_event_def fold_tops_def)
  next
    case (Some raw)
    let ?c = "rw_cutover raw"
    let ?nm = "Name (co_Live ?c)"
    obtain f' where f': "cutoverFold_apply (name_fold live ?nm) raw = Inr f'" "live' = Mapping.update ?nm f' live"
      using assms(2) Inr Some by (auto simp: fold_event_def fold_cutover_def Let_def split: sum.splits)
    have cur: "in64 (co_Revision (cf_current (name_fold live ?nm))) \<and> 0 \<le> co_Revision (cf_current (name_fold live ?nm))"
      using assms(1) by (cases "Mapping.lookup live ?nm")
        (fastforce simp: fold_tops_def name_fold_def zero_fold_def zero_cutover_def in64_def max_int64_def min_int64_def)+
    have "decodeCutover newV5 js e = Inr (Some raw)" using Inr Some by simp
    note nx = accepted_next [OF f'(1) conjunct1 [OF cur] conjunct2 [OF cur] decoded_revision [OF this]]
    have up: "behind live' c" if "behind live c" for c
      using that nx f'(2) by (cases "Name (co_Live c) = ?nm") (auto simp: behind_def lookup_update' name_fold_def)
    have top: "behind live' ?c" using f'(2) nx by (simp add: behind_def)
    show ?thesis
      using assms(1) Inr Some nx up top f'(2) decoded_revision [OF \<open>decodeCutover newV5 js e = Inr (Some raw)\<close>]
      unfolding fold_tops_def by (auto simp: lookup_update')
  qed
qed (use assms in \<open>simp add: fold_event_def\<close>)

lemma fold_events_tops: "fold_events newV5 js Mapping.empty es = Inr live \<Longrightarrow> fold_tops newV5 js es live"
proof (induction es arbitrary: live rule: rev_induct)
  case Nil
  then show ?case by (auto simp: fold_tops_def)
next
  case (snoc e es)
  then obtain live1 where "fold_events newV5 js Mapping.empty es = Inr live1" "fold_event newV5 js live1 e = Inr live"
    by (auto simp: fold_events_append split: sum.splits)
  then show ?case using snoc.IH fold_tops_step by blast
qed

lemma fold_events_finite:
  "fold_events newV5 js live es = Inr live' \<Longrightarrow> finite (Mapping.keys live) \<Longrightarrow> finite (Mapping.keys live')"
proof (induction es arbitrary: live)
  case (Cons e es)
  then obtain live1 where "fold_event newV5 js live e = Inr live1" "fold_events newV5 js live1 es = Inr live'"
    by (auto split: sum.splits)
  then show ?case
    using Cons by (auto simp: fold_event_def fold_cutover_def Let_def split: sum.splits option.splits)
qed simp

section \<open>The read of a drain\<close>

lemma worker_read_step:
  "worker_read ctx newV5 js nxt tailing it live position accepted n =
     (case ctx n of
        Some ctxErr \<Rightarrow> Some (Some (Sentinel ctxErr), live, position, accepted, it, Suc n)
      | None \<Rightarrow> (case nxt it of (r, it') \<Rightarrow>
     (case ctx (Suc n) of
        Some ctxErr \<Rightarrow> Some (Some (case r of
            Inr e \<Rightarrow> Sentinel ctxErr
          | Inl err \<Rightarrow> if leavesMatch err [ErrEndOfEventStream, ctxErr] then Sentinel ctxErr
              else Join [Sentinel ctxErr, fmt_wrap ''reading event'' err]), live, position, accepted, it', Suc (Suc n))
      | None \<Rightarrow> (case r of
          Inl err \<Rightarrow> Some (if leavesMatch err [ErrEndOfEventStream] then None else Some (fmt_wrap ''reading event'' err),
            live, position, accepted, it', Suc (Suc n))
        | Inr None \<Rightarrow> None
        | Inr (Some e) \<Rightarrow>
            (let position' = (case ev_GlobalPosition e of None \<Rightarrow> position | Some p \<Rightarrow> p) in
             case fold_event newV5 js live e of
               Inl err \<Rightarrow> Some (Some err, live, position', accepted, it', Suc (Suc n))
             | Inr live' \<Rightarrow> worker_read ctx newV5 js nxt tailing it' live' position'
                 (case decodeCutover newV5 js e of
                    Inr (Some raw) \<Rightarrow> if tailing then accepted @ [rw_cutover raw] else accepted | _ \<Rightarrow> accepted)
                 (Suc (Suc n)))))))"
  by (subst worker_read.simps)
    (auto simp: fold_event_def Let_def split: prod.split sum.split option.split)

lemma worker_read_sound:
  assumes "worker_read ctx newV5 js nxt tailing it live position accepted n
      = Some (readErr, live', position', accepted', it', m)"
    and "faithful nxt it es" "list_all (\<lambda>e. ev_GlobalPosition e \<noteq> None) es"
  shows "n \<le> m \<and> set accepted' \<subseteq> set accepted \<union> recorded_in newV5 js es \<and> set accepted \<subseteq> set accepted'
    \<and> (readErr = None \<longrightarrow> fold_events newV5 js live es = Inr live'
        \<and> position' = pos_after position es (length es)
        \<and> (tailing \<longrightarrow> recorded_in newV5 js es \<subseteq> set accepted'))"
  using assms
proof (induction es arbitrary: it live position accepted n)
  case Nil
  obtain r it1 where nxt: "nxt it = (r, it1)" by fastforce
  then have "\<exists>err. r = Inl err" using faithful_yield [OF Nil.prems(2)] by (cases r) auto
  then show ?case
    using Nil.prems(1) nxt by (subst (asm) worker_read_step) (auto split: option.splits)
next
  case (Cons e es)
  have len: "length (e # es) = Suc (length es)" by simp
  obtain r it1 where nxt: "nxt it = (r, it1)" by fastforce
  show ?case
  proof (cases "ctx n = None \<and> ctx (Suc n) = None \<and> (\<exists>x. r = Inr x)")
    case False
    then consider c where "ctx n = Some c" | c where "ctx n = None" "ctx (Suc n) = Some c"
      | err where "ctx n = None" "ctx (Suc n) = None" "r = Inl err"
      by (cases r; cases "ctx n"; cases "ctx (Suc n)") auto
    then show ?thesis
    proof cases
      case (3 err)
      then show ?thesis
        using Cons.prems(1) nxt faithful_end [OF Cons.prems(2), of err it1]
        by (subst (asm) worker_read_step) (auto simp: errorLeavesMatch_allCausesMatch_eq split: if_splits)
    qed (use Cons.prems(1) nxt in \<open>subst (asm) worker_read_step; auto\<close>)+
  next
    case True
    then have y: "r = Inr (Some e)" "faithful nxt it1 es" using faithful_yield [OF Cons.prems(2), of _ it1] nxt by auto
    obtain p where p: "ev_GlobalPosition e = Some p" using Cons.prems(3) by auto
    then have ep: "event_position e = p" by (simp add: event_position_def)
    define acc where "acc = (case decodeCutover newV5 js e of
        Inr (Some raw) \<Rightarrow> if tailing then accepted @ [rw_cutover raw] else accepted | _ \<Rightarrow> accepted)"
    have acc: "set accepted \<subseteq> set acc" "set acc \<subseteq> set accepted \<union> recorded_in newV5 js [e]"
      "tailing \<longrightarrow> recorded_in newV5 js [e] \<subseteq> set acc"
      by (auto simp: acc_def split: sum.splits option.splits)
    show ?thesis
    proof (cases "fold_event newV5 js live e")
      case (Inl err)
      then have "n \<le> m \<and> accepted' = accepted \<and> readErr \<noteq> None"
        using Cons.prems(1) nxt True y(1) p by (subst (asm) worker_read_step) (auto simp: Let_def)
      then show ?thesis by auto
    next
      case (Inr live1)
      have rec: "worker_read ctx newV5 js nxt tailing it1 live1 p acc (Suc (Suc n))
          = Some (readErr, live', position', accepted', it', m)"
        using Cons.prems(1) nxt True y(1) p Inr by (subst (asm) worker_read_step) (simp add: Let_def acc_def)
      have split: "recorded_in newV5 js (e # es) = recorded_in newV5 js [e] \<union> recorded_in newV5 js es"
        by (auto simp: recorded_in_def)
      from Cons.IH [OF rec y(2)] Cons.prems(3)
      have IH: "Suc (Suc n) \<le> m" "set accepted' \<subseteq> set acc \<union> recorded_in newV5 js es" "set acc \<subseteq> set accepted'"
        "readErr = None \<longrightarrow> fold_events newV5 js live1 es = Inr live' \<and> position' = pos_after p es (length es)
          \<and> (tailing \<longrightarrow> recorded_in newV5 js es \<subseteq> set accepted')" by auto
      have "fold_events newV5 js live (e # es) = fold_events newV5 js live1 es" using Inr by simp
      then show ?thesis
        unfolding split len pos_after_simps ep using IH acc by auto
    qed
  qed
qed

section \<open>Delivery\<close>

text \<open>
  A setter moved from \<open>s\<close> to \<open>s'\<close> over the cutovers \<open>R\<close>: it serves one of them or what it served, and
  nothing older than before.
\<close>

definition moved_by :: "('s \<Rightarrow> string \<Rightarrow> cutover option) \<Rightarrow> cutover set \<Rightarrow> 's \<Rightarrow> 's \<Rightarrow> bool" where
  "moved_by serving R s s' \<longleftrightarrow>
     (\<forall>n c0. serving s n = Some c0 \<longrightarrow> (\<exists>c1. serving s' n = Some c1 \<and> co_Revision c0 \<le> co_Revision c1))
     \<and> (\<forall>n c1. serving s' n = Some c1 \<longrightarrow> serving s n = Some c1 \<or> c1 \<in> R \<and> Name (co_Live c1) = n)"

definition serves_past :: "('s \<Rightarrow> string \<Rightarrow> cutover option) \<Rightarrow> cutover \<Rightarrow> 's \<Rightarrow> bool" where
  "serves_past serving c s \<longleftrightarrow> (\<exists>c'. serving s (Name (co_Live c)) = Some c' \<and> co_Revision c \<le> co_Revision c')"

context cutover_setter
begin

abbreviation moved :: "cutover set \<Rightarrow> 's \<Rightarrow> 's \<Rightarrow> bool" where
  "moved \<equiv> moved_by serving"

abbreviation past :: "cutover \<Rightarrow> 's \<Rightarrow> bool" where
  "past \<equiv> serves_past serving"

lemma moved_refl: "moved R s s"
  by (simp add: moved_by_def)

lemma moved_trans: "moved R s t \<Longrightarrow> moved R t u \<Longrightarrow> moved R s u"
  unfolding moved_by_def by (metis order_trans)

lemma moved_mono: "moved R s t \<Longrightarrow> R \<subseteq> R' \<Longrightarrow> moved R' s t"
  unfolding moved_by_def by blast

lemma moved_past: "moved R s t \<Longrightarrow> past c s \<Longrightarrow> past c t"
  unfolding moved_by_def serves_past_def by (metis order_trans)

abbreviation all_moved :: "cutover set \<Rightarrow> 's list \<Rightarrow> 's list \<Rightarrow> bool" where
  "all_moved R \<equiv> list_all2 (moved R)"

lemma all_moved_refl: "all_moved R ss ss"
  by (simp add: list_all2_refl moved_refl)

lemma all_moved_trans: "all_moved R ss ts \<Longrightarrow> all_moved R ts us \<Longrightarrow> all_moved R ss us"
  by (rule list_all2_trans [OF moved_trans])

lemma all_moved_mono: "all_moved R ss ts \<Longrightarrow> R \<subseteq> R' \<Longrightarrow> all_moved R' ss ts"
  by (erule list_all2_mono) (rule moved_mono)

lemma all_moved_past: "all_moved R ss ts \<Longrightarrow> list_all (past c) ss \<Longrightarrow> list_all (past c) ts"
  unfolding list_all_length list_all2_conv_all_nth using moved_past by metis

lemma deliver_moves:
  "deliver ctx deliverTo c ss n = (r, ss', m) \<Longrightarrow>
   n \<le> m \<and> all_moved {c} ss ss' \<and> (r = None \<longrightarrow> list_all (past c) ss')"
proof (induction ss arbitrary: n r ss' m)
  case (Cons s ss)
  show ?case
  proof (cases "ctx n")
    case (Some c1)
    then show ?thesis using Cons.prems by (auto simp: all_moved_refl moved_refl)
  next
    case None
    obtain e s1 where ap: "deliverTo s c = (e, s1)" by fastforce
    have mv: "moved {c} s s1"
      unfolding moved_by_def using monotone [OF ap] nothing_else [OF ap] by fastforce
    show ?thesis
    proof (cases e)
      case (Some err)
      then show ?thesis using Cons.prems None ap mv by (auto simp: all_moved_refl)
    next
      case none: None
      obtain r1 ss1 m1 where rec: "deliver ctx deliverTo c ss (Suc n) = (r1, ss1, m1)" by (metis prod_cases3)
      have "past c s1" using at_or_past [OF ap [unfolded none]] by (auto simp: serves_past_def)
      then show ?thesis
        using Cons.IH [OF rec] Cons.prems None ap none rec mv by auto
    qed
  qed
qed simp

lemma deliver_accepted_moves:
  "deliver_accepted ctx deliverTo cs ss n = (r, ss', m) \<Longrightarrow>
   n \<le> m \<and> all_moved (set cs) ss ss' \<and> (r = None \<longrightarrow> (\<forall>c \<in> set cs. list_all (past c) ss'))"
proof (induction cs arbitrary: ss n)
  case (Cons c cs)
  obtain r1 ss1 m1 where d: "deliver ctx deliverTo c ss n = (r1, ss1, m1)" by (metis prod_cases3)
  note one = deliver_moves [OF d]
  have first: "n \<le> m1" "all_moved (set (c # cs)) ss ss1"
    using one all_moved_mono [of "{c}" ss ss1 "set (c # cs)"] by auto
  show ?case
  proof (cases "r1 = None \<and> ctx m1 = None")
    case False
    then show ?thesis using Cons.prems d first by (auto split: option.splits)
  next
    case True
    then have rec: "deliver_accepted ctx deliverTo cs ss1 (Suc m1) = (r, ss', m)" using Cons.prems d by simp
    note rest = Cons.IH [OF rec]
    have "all_moved (set (c # cs)) ss1 ss'" using rest all_moved_mono [of "set cs" ss1 ss'] by auto
    then show ?thesis
      using rest first one True all_moved_trans [OF first(2)] all_moved_past [of _ ss1 ss' c] by auto
  qed
qed (simp add: all_moved_refl)

lemma deliver_names_moves:
  "deliver_names ctx deliverTo live names ss n = (r, ss', m) \<Longrightarrow>
   n \<le> m \<and> all_moved ((\<lambda>nm. cf_current (name_fold live nm)) ` set names) ss ss'
   \<and> (r = None \<longrightarrow> (\<forall>nm \<in> set names. list_all (past (cf_current (name_fold live nm))) ss'))"
proof (induction names arbitrary: ss n)
  case (Cons nm names)
  let ?c = "cf_current (name_fold live nm)"
  let ?R = "(\<lambda>nm. cf_current (name_fold live nm)) ` set (nm # names)"
  obtain r1 ss1 m1 where d: "deliver ctx deliverTo ?c ss n = (r1, ss1, m1)" by (metis prod_cases3)
  note one = deliver_moves [OF d]
  have first: "n \<le> m1" "all_moved ?R ss ss1"
    using one all_moved_mono [of "{?c}" ss ss1 ?R] by auto
  show ?case
  proof (cases r1)
    case (Some err)
    then show ?thesis using Cons.prems d first by auto
  next
    case None
    then have rec: "deliver_names ctx deliverTo live names ss1 m1 = (r, ss', m)" using Cons.prems d by simp
    note rest = Cons.IH [OF rec]
    have "all_moved ?R ss1 ss'" using rest all_moved_mono [of _ ss1 ss' ?R] by auto
    then show ?thesis
      using rest first one None all_moved_trans [OF first(2)] all_moved_past [of _ ss1 ss' ?c] by auto
  qed
qed (simp add: all_moved_refl)

end

section \<open>The worker over its contracts\<close>

text \<open>The folds are those of the log up to a position that the log has reached.\<close>

definition synced :: "(uuid \<Rightarrow> string \<Rightarrow> uuid) \<Rightarrow> cutover_json \<Rightarrow> event list \<Rightarrow> live_map \<Rightarrow> int64 \<Rightarrow> bool" where
  "synced newV5 js L live after \<longleftrightarrow> settled 0 after L
     \<and> fold_events newV5 js Mapping.empty (filter (\<lambda>e. event_position e \<le> after) L) = Inr live"

locale cutover_working =
  global_reader readAll nxt closeIter log valid +
  cutover_setter serving deliverTo appliedBy
  for readAll :: "'db \<Rightarrow> read_all_options \<Rightarrow> 'i option result" and nxt closeIter log valid
    and serving :: "'s \<Rightarrow> string \<Rightarrow> cutover option" and deliverTo appliedBy +
  fixes dbs :: "nat \<Rightarrow> 'db" and newV5 :: "uuid \<Rightarrow> string \<Rightarrow> uuid" and js :: cutover_json
  assumes dbs_valid: "valid (dbs n)"
    and grows: "i \<le> j \<Longrightarrow> \<exists>ext. log (dbs j) = log (dbs i) @ ext"
begin

lemma log_order: "log_ordered (log (dbs n))"
  by (rule ordered [OF dbs_valid])

lemma recorded_grows: "i \<le> j \<Longrightarrow> recorded_in newV5 js (log (dbs i)) \<subseteq> recorded_in newV5 js (log (dbs j))"
  using grows [of i j] by auto

lemma synced_start: "synced newV5 js (log (dbs n)) Mapping.empty 0"
proof -
  have "filter (\<lambda>e. event_position e \<le> 0) (log (dbs n)) = []"
    using log_order [of n] by (auto simp: log_ordered_def list_all_iff filter_empty_conv)
  then show ?thesis by (simp add: synced_def settled_def)
qed

lemma synced_grows:
  assumes "synced newV5 js (log (dbs i)) live after" "i \<le> j"
  shows "synced newV5 js (log (dbs j)) live after"
proof -
  obtain ext where ext: "log (dbs j) = log (dbs i) @ ext" using grows [OF assms(2)] by blast
  have "after < event_position e" if "e \<in> set ext" for e
    using log_order [of j] assms(1) that ext
    by (auto simp: log_ordered_def sorted_wrt_append synced_def settled_def list_all_iff)
  then have "filter (\<lambda>e. event_position e \<le> after) ext = []" by (force simp: filter_empty_conv)
  then show ?thesis using assms(1) ext by (auto simp: synced_def settled_def)
qed

lemma drain_moves:
  assumes dr: "worker_drain dbs ctx newV5 js (readAll, nxt, closeIter) delivery live after ss n
      = Some (r, position, live', ss', m)"
    and sync: "synced newV5 js (log (dbs n)) live after" and "delivery = None \<or> delivery = Some deliverTo"
  shows "n \<le> m \<and> all_moved (recorded_in newV5 js (log (dbs m))) ss ss' \<and> (delivery = None \<longrightarrow> ss' = ss)
    \<and> (r = None \<longrightarrow> Suc n \<le> m \<and> synced newV5 js (log (dbs (Suc n))) live' position
        \<and> fold_events newV5 js Mapping.empty (log (dbs (Suc n))) = Inr live')"
proof (cases "ctx n")
  case (Some c)
  then show ?thesis using dr by (auto simp: worker_drain_def all_moved_refl)
next
  case live0: None
  let ?L = "log (dbs (Suc n))" and ?F = "filter (\<lambda>e. after < event_position e) (log (dbs (Suc n)))"
  show ?thesis
  proof (cases "readAll (dbs (Suc n)) \<lparr>AfterPosition = after, ra_Count = 0\<rparr>")
    case (Inl err)
    then show ?thesis using dr live0 by (auto simp: worker_drain_def all_moved_refl)
  next
    case (Inr oi)
    then obtain it where it: "oi = Some it"
      using dr live0 by (cases oi) (auto simp: worker_drain_def)
    obtain readErr live1 pos1 accepted it1 k where rd: "worker_read ctx newV5 js nxt (delivery \<noteq> None) it live after [] (Suc n)
        = Some (readErr, live1, pos1, accepted, it1, k)"
      using dr live0 Inr it by (auto simp: worker_drain_def split: option.splits)
    have faith: "faithful nxt it ?F"
      using read_faithful [OF dbs_valid] Inr it view_of_all by metis
    have "list_all (\<lambda>e. ev_GlobalPosition e \<noteq> None) ?F"
      using log_order [of "Suc n"] by (auto simp: log_ordered_def list_all_iff)
    note read = worker_read_sound [OF rd faith this]
    have acc: "set accepted \<subseteq> recorded_in newV5 js (log (dbs (Suc n)))"
      using read recorded_in_mono [of ?F ?L newV5 js] by auto
    have asc: "ascending ?L" using log_order [of "Suc n"] by (simp add: log_ordered_def)
    have sync1: "synced newV5 js (log (dbs (Suc n))) live after" by (rule synced_grows [OF sync]) simp
    have clean: "synced newV5 js (log (dbs (Suc n))) live1 pos1 \<and> fold_events newV5 js Mapping.empty ?L = Inr live1"
      if "readErr = None"
    proof -
      have "fold_events newV5 js Mapping.empty ?L = Inr live1" "pos1 = pos_after after ?F (length ?F)"
        using read that sync1 ascending_split [OF asc, of after]
        by (metis (no_types, lifting) fold_events_append synced_def sum.case(2))+
      moreover have "filter (\<lambda>e. event_position e \<le> pos1) ?L = ?L"
        using pos_after_all [OF asc, of _ after] calculation(2) by (auto simp: filter_id_conv)
      moreover have "settled 0 pos1 ?L"
        using pos_after_settled [of "length ?F" ?F ?L 0 after] sync1 calculation(2) by (auto simp: synced_def)
      ultimately show ?thesis by (simp add: synced_def)
    qed
    have quiet: "all_moved (recorded_in newV5 js (log (dbs m'))) ss ss" for m' by (rule all_moved_refl)
    show ?thesis
    proof (cases "closeIter it1 = None \<and> ctx k = None")
      case False
      then have "ss' = ss \<and> m = Suc k \<and> r \<noteq> None"
        using dr live0 Inr it rd
        by (auto simp: worker_drain_def Let_def errors_join_def map_filter_def split: option.splits)
      then show ?thesis using quiet read by auto
    next
      case True
      show ?thesis
      proof (cases delivery)
        case None
        then have "ss' = ss \<and> m = Suc k \<and> r = readErr \<and> live' = live1 \<and> position = pos1"
          using dr live0 Inr it rd True by (auto simp: worker_drain_def Let_def)
        then show ?thesis using quiet read clean by auto
      next
        case (Some d)
        then have d: "delivery = Some deliverTo" using assms(3) by simp
        obtain e2 ss2 k2 where da: "deliver_accepted ctx deliverTo accepted ss (Suc k) = (e2, ss2, k2)" by (metis prod_cases3)
        note mv = deliver_accepted_moves [OF da]
        have out: "ss' = ss2 \<and> m = k2 \<and> live' = live1 \<and> position = pos1 \<and> (r = None \<longrightarrow> readErr = None)"
          using dr live0 Inr it rd True d da by (auto simp: worker_drain_def Let_def split: option.splits)
        have "Suc n \<le> k2" using read mv by simp
        then have "all_moved (recorded_in newV5 js (log (dbs k2))) ss ss2"
          using mv all_moved_mono acc recorded_grows [of "Suc n" k2] by (meson order_trans)
        then show ?thesis using out read clean mv d by auto
      qed
    qed
  qed
qed

lemma tail_moves:
  assumes "worker_tail dbs ctx newV5 js (readAll, nxt, closeIter) deliverTo live mark w = Some (err, w')"
    and "synced newV5 js (log (dbs (ws_clock w))) live mark"
  shows "ws_clock w \<le> ws_clock w' \<and> ws_ready w' = ws_ready w
    \<and> all_moved (recorded_in newV5 js (log (dbs (ws_clock w')))) (ws_setters w) (ws_setters w')"
proof -
  let ?Q = "\<lambda>w w'. ws_clock w \<le> ws_clock w' \<and> ws_ready w' = ws_ready w
    \<and> all_moved (recorded_in newV5 js (log (dbs (ws_clock w')))) (ws_setters w) (ws_setters w')"
  have "dbs = dbs \<longrightarrow> newV5 = newV5 \<longrightarrow> js = js \<longrightarrow> (readAll, nxt, closeIter) = (readAll, nxt, closeIter) \<longrightarrow>
    deliverTo = deliverTo \<longrightarrow> synced newV5 js (log (dbs (ws_clock w))) live mark \<longrightarrow> ?Q w (snd (err, w'))"
  proof (rule worker_tail.raw_induct [where P = "\<lambda>dbs' ctx' newV5' js' rd' applyTo' live' mark' w' r.
        dbs' = dbs \<longrightarrow> newV5' = newV5 \<longrightarrow> js' = js \<longrightarrow> rd' = (readAll, nxt, closeIter) \<longrightarrow> applyTo' = deliverTo
        \<longrightarrow> synced newV5 js (log (dbs (ws_clock w'))) live' mark' \<longrightarrow> ?Q w' (snd r)", OF _ assms(1)], intro impI)
    fix tail dbs' ctx newV5' js' rd' applyTo' live' mark' t y
    assume IH: "\<And>dbs' ctx newV5' js' rd' applyTo' live' mark' t y. tail dbs' ctx newV5' js' rd' applyTo' live' mark' t = Some y \<Longrightarrow>
        dbs' = dbs \<longrightarrow> newV5' = newV5 \<longrightarrow> js' = js \<longrightarrow> rd' = (readAll, nxt, closeIter) \<longrightarrow> applyTo' = deliverTo
        \<longrightarrow> synced newV5 js (log (dbs (ws_clock t))) live' mark' \<longrightarrow> ?Q t (snd y)"
      and step: "(case worker_drain dbs' ctx newV5' js' rd' (Some applyTo') live' mark' (ws_setters t) (ws_clock t) of
        None \<Rightarrow> None
      | Some (None, mark', live', ss, n) \<Rightarrow>
          (case ctx n of
             None \<Rightarrow> tail dbs' ctx newV5' js' rd' applyTo' live' mark' (t\<lparr>ws_setters := ss, ws_clock := Suc n\<rparr>)
           | Some ctxErr \<Rightarrow> Some (Sentinel ctxErr, t\<lparr>ws_setters := ss, ws_clock := Suc n\<rparr>))
      | Some (Some err, mark', live', ss, n) \<Rightarrow> Some (err, t\<lparr>ws_setters := ss, ws_clock := n\<rparr>)) = Some y"
      and eqs: "dbs' = dbs" "newV5' = newV5" "js' = js" "rd' = (readAll, nxt, closeIter)" "applyTo' = deliverTo"
      and sync: "synced newV5 js (log (dbs (ws_clock t))) live' mark'"
    obtain r mark1 live1 ss n where dr:
      "worker_drain dbs ctx newV5 js (readAll, nxt, closeIter) (Some deliverTo) live' mark' (ws_setters t) (ws_clock t)
        = Some (r, mark1, live1, ss, n)"
      using step eqs by (auto split: option.splits)
    note mv = drain_moves [OF dr sync disjI2 [OF refl]]
    have up: "all_moved (recorded_in newV5 js (log (dbs k))) (ws_setters t) ss" if "n \<le> k" for k
      using mv all_moved_mono recorded_grows [OF that] by blast
    show "?Q t (snd y)"
    proof (cases "r = None \<and> ctx n = None")
      case False
      then have "snd y = t\<lparr>ws_setters := ss, ws_clock := n\<rparr> \<or> snd y = t\<lparr>ws_setters := ss, ws_clock := Suc n\<rparr>"
        using step unfolding eqs by (auto simp: dr split: option.splits)
      then show ?thesis using conjunct1 [OF mv] up [of n] up [of "Suc n"] by (elim disjE) simp_all
    next
      case True
      let ?t = "t\<lparr>ws_setters := ss, ws_clock := Suc n\<rparr>"
      have rec: "tail dbs ctx newV5 js (readAll, nxt, closeIter) deliverTo live1 mark1 ?t = Some y"
        using step eqs dr True by simp
      have "synced newV5 js (log (dbs (Suc (ws_clock t)))) live1 mark1" "Suc (ws_clock t) \<le> n" using mv True by blast+
      then have "synced newV5 js (log (dbs (Suc n))) live1 mark1" using synced_grows by simp
      then have q: "Suc n \<le> ws_clock (snd y)" "ws_ready (snd y) = ws_ready t"
        "all_moved (recorded_in newV5 js (log (dbs (ws_clock (snd y))))) ss (ws_setters (snd y))"
        using IH [OF rec] by simp_all
      have "all_moved (recorded_in newV5 js (log (dbs (ws_clock (snd y))))) (ws_setters t) (ws_setters (snd y))"
        by (rule all_moved_trans [OF up q(3)]) (use q(1) in simp)
      then show ?thesis using q(1,2) conjunct1 [OF mv] by simp
    qed
  qed
  then show ?thesis using assms(2) by simp
qed

text \<open>The initial delivery reaches every recorded cutover.\<close>

lemma initial_converges:
  assumes "fold_tops newV5 js es live"
    and "deliver_names ctx deliverTo live (Mapping.ordered_keys live) ss n = (None, ss', m)"
    and "finite (Mapping.keys live)" "c \<in> recorded_in newV5 js es"
  shows "list_all (past c) ss'"
proof -
  obtain f where f: "Mapping.lookup live (Name (co_Live c)) = Some f" "co_Revision c \<le> co_Revision (cf_current f)"
    "Name (co_Live (cf_current f)) = Name (co_Live c)"
    using assms(1,4) unfolding fold_tops_def behind_def by blast
  have "Name (co_Live c) \<in> set (Mapping.ordered_keys live)"
    using f(1) assms(3) by (simp add: ordered_keys_def keys_dom_lookup domI)
  then have "list_all (past (cf_current f)) ss'"
    using deliver_names_moves [OF assms(2)] f(1) by (auto simp: name_fold_def)
  then show ?thesis
    using f(2,3) unfolding list_all_iff serves_past_def by (metis order_trans)
qed

lemma Run_moves:
  assumes "Worker_Run dbs ctx newV5 js (readAll, nxt, closeIter) deliverTo w = Some (err, w')"
  shows "ws_clock w \<le> ws_clock w' \<and> all_moved (recorded_in newV5 js (log (dbs (ws_clock w')))) (ws_setters w) (ws_setters w')
    \<and> (ws_ready w' \<and> \<not> ws_ready w \<longrightarrow> (\<exists>k live. ws_clock w \<le> k \<and> k \<le> ws_clock w'
        \<and> fold_events newV5 js Mapping.empty (log (dbs k)) = Inr live
        \<and> (\<forall>c \<in> recorded_in newV5 js (log (dbs k)). list_all (past c) (ws_setters w'))))"
proof (cases "ws_started w")
  case True
  then show ?thesis using assms by (simp add: Worker_Run_def all_moved_refl)
next
  case False
  let ?w = "w\<lparr>ws_started := True\<rparr>"
  let ?Q = "\<lambda>t. ws_clock w \<le> ws_clock t \<and> all_moved (recorded_in newV5 js (log (dbs (ws_clock t)))) (ws_setters w) (ws_setters t)"
  obtain r mark live ss n where dr:
    "worker_drain dbs ctx newV5 js (readAll, nxt, closeIter) None Mapping.empty 0 (ws_setters w) (ws_clock w)
      = Some (r, mark, live, ss, n)"
    using assms False by (auto simp: Worker_Run_def Let_def split: option.splits)
  from drain_moves [OF dr synced_start]
  have d: "ws_clock w \<le> n" "ss = ws_setters w"
    "r = None \<longrightarrow> Suc (ws_clock w) \<le> n \<and> synced newV5 js (log (dbs (Suc (ws_clock w)))) live mark
       \<and> fold_events newV5 js Mapping.empty (log (dbs (Suc (ws_clock w)))) = Inr live" by auto
  show ?thesis
  proof (cases r)
    case (Some e)
    then show ?thesis using assms False dr d(1,2) by (auto simp: Worker_Run_def Let_def all_moved_refl)
  next
    case None
    obtain e2 ss2 m where dn: "deliver_names ctx deliverTo live (Mapping.ordered_keys live) ss n = (e2, ss2, m)"
      by (metis prod_cases3)
    note fold = conjunct2 [OF conjunct2 [OF mp [OF d(3) None]]]
    have tops: "fold_tops newV5 js (log (dbs (Suc (ws_clock w)))) live" by (rule fold_events_tops [OF fold])
    have fin: "finite (Mapping.keys live)" using fold_events_finite [OF fold] by simp
    note mv = deliver_names_moves [OF dn]
    have "(\<lambda>nm. cf_current (name_fold live nm)) ` set (Mapping.ordered_keys live) \<subseteq> recorded_in newV5 js (log (dbs (Suc (ws_clock w))))"
      using tops fin by (auto simp: fold_tops_def name_fold_def keys_dom_lookup)
    moreover have n: "Suc (ws_clock w) \<le> m" using d(3) None mv by simp
    ultimately have up: "all_moved (recorded_in newV5 js (log (dbs k))) (ws_setters w) ss2" if "m \<le> k" for k
      using mv all_moved_mono recorded_grows [of "Suc (ws_clock w)" k] that d(2) by (meson order_trans)
    show ?thesis
    proof (cases "e2 = None \<and> ctx m = None")
      case False
      then show ?thesis
        using assms \<open>\<not> ws_started w\<close> dr None dn n up [of m] up [of "Suc m"]
        by (auto simp: Worker_Run_def Let_def split: option.splits)
    next
      case True
      let ?t = "?w\<lparr>ws_setters := ss2, ws_ready := True, ws_clock := Suc m\<rparr>"
      have tail: "worker_tail dbs ctx newV5 js (readAll, nxt, closeIter) deliverTo live mark ?t = Some (err, w')"
        using assms \<open>\<not> ws_started w\<close> dr None dn True by (simp add: Worker_Run_def Let_def)
      have "synced newV5 js (log (dbs (ws_clock ?t))) live mark"
        using synced_grows [of "Suc (ws_clock w)" live mark "Suc m"] d(3) None n by simp
      from tail_moves [OF tail this]
      have t: "Suc m \<le> ws_clock w'" "all_moved (recorded_in newV5 js (log (dbs (ws_clock w')))) ss2 (ws_setters w')" by auto
      have "all_moved (recorded_in newV5 js (log (dbs (ws_clock w')))) (ws_setters w) (ws_setters w')"
        using all_moved_trans [OF up t(2)] t(1) by simp
      moreover have "list_all (past c) (ws_setters w')" if "c \<in> recorded_in newV5 js (log (dbs (Suc (ws_clock w))))" for c
        using all_moved_past [OF t(2)] initial_converges [OF tops _ fin that] dn True by auto
      ultimately show ?thesis using n t(1) fold by (intro conjI impI exI [of _ "Suc (ws_clock w)"] exI [of _ live]) auto
    qed
  qed
qed

end

interpretation memory_worker:
  cutover_working Memory_ReadAll Memory_Next Memory_Close log_view "store_valid ustr"
    applied ApplyCutover AppliedCutover "appended_store ustr reqs" newV5 js
  for ustr reqs newV5 js
  by unfold_locales (simp_all add: appended_store_valid appended_store_grows)

section \<open>What a worker does to its setters\<close>

text \<open>
  C29. Whatever the reader and the setters report and whenever the context ends, a worker only moves
  its setters to recorded cutovers of the setter's projections and never to a lower revision; and a
  worker that has signalled readiness had, at some moment of the run, validated the whole recorded
  history, with every setter now at or past every cutover recorded then.
\<close>

theorem Worker_converges:
  assumes "cutover_working readAll nxt log valid serving deliverTo appliedBy dbs"
    and "Worker_Run dbs ctx newV5 js (readAll, nxt, closeIter) deliverTo w = Some (err, w')"
  shows "list_all2 (moved_by serving (recorded_in newV5 js (log (dbs (ws_clock w'))))) (ws_setters w) (ws_setters w')
    \<and> (ws_ready w' \<and> \<not> ws_ready w \<longrightarrow> (\<exists>k live. ws_clock w \<le> k \<and> k \<le> ws_clock w'
        \<and> fold_events newV5 js Mapping.empty (log (dbs k)) = Inr live
        \<and> (\<forall>c \<in> recorded_in newV5 js (log (dbs k)). list_all (serves_past serving c) (ws_setters w'))))"
  using cutover_working.Run_moves [OF assms] by blast

text \<open>The recorded cutovers of a log of clean lifecycle streams.\<close>

lemma recorded_lifecycle:
  assumes "lifecycle_log newV5 js hist L"
  shows "recorded_in newV5 js L = (\<Union>n. set (cutovers (hist n)))"
  using assms
proof (induction L arbitrary: hist rule: rev_induct)
  case Nil
  then have "hist n = []" for n by (auto simp: lifecycle_log_def)
  then show ?case by simp
next
  case (snoc e L)
  show ?case
  proof (cases "id_type (ev_StreamID e) = StreamType")
    case False
    then have "ev_StreamID e \<noteq> lifecycle_id newV5 n" for n by auto
    then have "lifecycle_log newV5 js hist L" using snoc.prems by (simp add: lifecycle_log_def)
    from snoc.IH [OF this] show ?thesis using False by (simp add: decodeCutover_def)
  next
    case True
    obtain n h d where n: "ev_StreamID e = lifecycle_id newV5 n" "hist n = h @ [d]" "records js e d"
      "lifecycle_log newV5 js (hist(n := h)) L"
      by (rule lifecycle_log_snoc [OF snoc.prems True])
    have clean: "InvalidReason (lifecycle_fold (h @ [d])) = ''''" "st_Name (lifecycle_fold (h @ [d])) = n"
      using snoc.prems n(2) unfolding lifecycle_log_def by (metis snoc_eq_iff_butlast)+
    have dec: "decodeCutover newV5 js e = Inr (raw_of d)" by (rule records_decode [OF n(3,1) clean])
    have last: "recorded_in newV5 js [e] = set (map rw_cutover (raws [d]))"
      using dec by (simp split: option.split)
    have "(\<Union>m. set (cutovers (hist m))) = (\<Union>m. set (cutovers ((hist(n := h)) m))) \<union> set (map rw_cutover (raws [d]))"
    proof -
      have one: "set (cutovers (hist m)) = set (cutovers ((hist(n := h)) m))
          \<union> (if m = n then set (map rw_cutover (raws [d])) else {})" for m
        using n(2) unfolding cutovers_raws by (simp add: image_Un)
      show ?thesis unfolding one UN_Un_distrib by auto
    qed
    then show ?thesis using snoc.IH [OF n(4)] last by simp
  qed
qed

text \<open>
  C30. Readiness means converged. Run a worker over in-memory routers that serve nothing yet and a
  store whose lifecycle streams are unpoisoned and that no longer changes: if it signals readiness,
  every router serves, for every projection with a recorded cutover, exactly the live version and
  cutover revision of its lifecycle state.
\<close>

theorem ready_worker_has_converged:
  assumes "global_reader readAll nxt log valid" "valid db" "lifecycle_log newV5 js hist (log db)"
    and "Worker_Run (\<lambda>_. db) ctx newV5 js (readAll, nxt, closeIter) ApplyCutover w = Some (err, w')"
    and "\<forall>r \<in> set (ws_setters w). applied r = Map.empty" "\<not> ws_ready w" "ws_ready w'"
    and "r \<in> set (ws_setters w')" "cutovers (hist n) \<noteq> []"
  shows "AppliedCutover r n = Inr \<lparr>co_Live = Live (lifecycle_fold (hist n)),
    co_Revision = CutoverRevision (lifecycle_fold (hist n))\<rparr>"
proof -
  let ?s = "lifecycle_fold (hist n)" and ?top = "last (cutovers (hist n))"
  have working: "cutover_working readAll nxt log valid applied ApplyCutover AppliedCutover (\<lambda>_. db)"
    using assms(1,2) memory_router.cutover_setter_axioms
    by (simp add: cutover_working_def cutover_working_axioms_def)
  have R: "recorded_in newV5 js (log db) = (\<Union>m. set (cutovers (hist m)))" by (rule recorded_lifecycle [OF assms(3)])
  have clean: "InvalidReason (lifecycle_fold (hist m)) = ''''" "hist m \<noteq> [] \<longrightarrow> st_Name (lifecycle_fold (hist m)) = m" for m
    using assms(3) unfolding lifecycle_log_def by blast+
  have named: "Name (co_Live c) = m" if "c \<in> set (cutovers (hist m))" for c m
    using recorded_cutover [OF clean(1) that] clean(2) [of m] that by (cases "hist m = []") auto
  note moves = cutover_working.Run_moves [OF working assms(4)]
  have "\<forall>c \<in> recorded_in newV5 js (log db). list_all (serves_past applied c) (ws_setters w')"
    using moves assms(6,7) by blast
  moreover have top: "?top \<in> set (cutovers (hist n))" using assms(9) by simp
  ultimately have "serves_past applied ?top r" using R assms(8) by (auto simp: list_all_iff)
  then obtain c where c: "applied r n = Some c" "co_Revision ?top \<le> co_Revision c"
    using named [OF top] by (auto simp: serves_past_def)
  obtain i where i: "i < length (ws_setters w')" "ws_setters w' ! i = r" using assms(8) by (auto simp: in_set_conv_nth)
  have "list_all2 (moved_by applied (recorded_in newV5 js (log db))) (ws_setters w) (ws_setters w')"
    using moves by blast
  then have "ws_setters w ! i \<in> set (ws_setters w)" "moved_by applied (recorded_in newV5 js (log db)) (ws_setters w ! i) r"
    using i by (auto simp: list_all2_conv_all_nth)
  then have "c \<in> recorded_in newV5 js (log db)" "Name (co_Live c) = n"
    using c(1) assms(5) unfolding moved_by_def by fastforce+
  then have "c \<in> set (cutovers (hist n))" using R named by auto
  then have "c = ?top"
    using recorded_top [OF clean(1) assms(9)] recorded_cutover [OF clean(1), of c n] c(2) cutover_by_revision [OF clean(1) _ top]
    by fastforce
  then show ?thesis using recorded_top [OF clean(1) assms(9)] c(1) by (simp add: AppliedCutover_def)
qed

section \<open>A worker over a recorded promotion\<close>

definition demo_worker :: "nat \<Rightarrow> (go_error \<times> memory_router worker_state) option" where
  "demo_worker k = (case NewWorker (Some (Memory_ReadAll, Memory_Next, Memory_Close))
       [Some (WithCutoverSetter (Some NewMemoryRouter)), Some (Worker_WithPollInterval 5)] 0 of
     Inl err \<Rightarrow> Some (err, \<lparr>ws_setters = [], ws_started = False, ws_ready = False, ws_clock = 0\<rparr>)
   | Inr (rd, poll, w) \<Rightarrow> Worker_Run (\<lambda>_. snd demo_recorded) (\<lambda>n. if n < k then None else Some ContextCanceled)
       demo_newV5 demo_json rd ApplyCutover w)"

lemma demo_worker_run:
  "demo_worker 20 = Worker_Run (\<lambda>_. snd demo_recorded) (\<lambda>n. if n < 20 then None else Some ContextCanceled)
     demo_newV5 demo_json (Memory_ReadAll, Memory_Next, Memory_Close) ApplyCutover
     \<lparr>ws_setters = [NewMemoryRouter], ws_started = False, ws_ready = False, ws_clock = 0\<rparr>"
  by (simp add: demo_worker_def NewWorker_def WithCutoverSetter_def Worker_WithPollInterval_def)

lemma demo_worker_ready:
  "map_option (\<lambda>(err, w). (err, ws_ready w, map (\<lambda>r. AppliedCutover r ''orders'') (ws_setters w), ws_clock w)) (demo_worker 20)
   = Some (Sentinel ContextCanceled, True, [Inr \<lparr>co_Live = demo_version 1, co_Revision = 1\<rparr>], 21)"
  by code_simp

lemma demo_worker_result:
  obtains w' where "Worker_Run (\<lambda>_. snd demo_recorded) (\<lambda>n. if n < 20 then None else Some ContextCanceled)
     demo_newV5 demo_json (Memory_ReadAll, Memory_Next, Memory_Close) ApplyCutover
     \<lparr>ws_setters = [NewMemoryRouter], ws_started = False, ws_ready = False, ws_clock = 0\<rparr>
     = Some (Sentinel ContextCanceled, w')" "ws_ready w'" "length (ws_setters w') = 1"
proof -
  obtain w' where w: "demo_worker 20 = Some (Sentinel ContextCanceled, w')" "ws_ready w'"
    "map (\<lambda>r. AppliedCutover r ''orders'') (ws_setters w') = [Inr \<lparr>co_Live = demo_version 1, co_Revision = 1\<rparr>]"
    using demo_worker_ready by auto
  have "length (map (\<lambda>r. AppliedCutover r ''orders'') (ws_setters w')) = 1"
    unfolding w(3) by simp
  then have "length (ws_setters w') = 1" by (simp only: length_map)
  then show ?thesis using that w demo_worker_run by simp
qed

lemma Worker_converges_witness:
  "\<exists>w'. demo_worker 20 = Some (Sentinel ContextCanceled, w') \<and> ws_ready w'
    \<and> list_all2 (moved_by applied (recorded_in demo_newV5 demo_json (log_view (snd demo_recorded))))
        [NewMemoryRouter] (ws_setters w')"
proof -
  obtain w' where w: "Worker_Run (\<lambda>_. snd demo_recorded) (\<lambda>n. if n < 20 then None else Some ContextCanceled)
     demo_newV5 demo_json (Memory_ReadAll, Memory_Next, Memory_Close) ApplyCutover
     \<lparr>ws_setters = [NewMemoryRouter], ws_started = False, ws_ready = False, ws_clock = 0\<rparr>
     = Some (Sentinel ContextCanceled, w')" "ws_ready w'"
    by (rule demo_worker_result)
  have working: "cutover_working Memory_ReadAll Memory_Next log_view (store_valid hex_string) applied ApplyCutover
      AppliedCutover (\<lambda>_. snd demo_recorded)"
    using demo_recorded_valid memory_reader.global_reader_axioms memory_router.cutover_setter_axioms
    by (simp add: cutover_working_def cutover_working_axioms_def)
  show ?thesis using Worker_converges [OF working w(1)] w by (auto simp: demo_worker_run)
qed

lemma ready_worker_has_converged_witness:
  "\<exists>w' r. demo_worker 20 = Some (Sentinel ContextCanceled, w') \<and> ws_setters w' = [r]
    \<and> AppliedCutover r ''orders'' = Inr \<lparr>co_Live = demo_version 1, co_Revision = CutoverRevision (lifecycle_fold demo_events)\<rparr>"
proof -
  obtain w' where w: "Worker_Run (\<lambda>_. snd demo_recorded) (\<lambda>n. if n < 20 then None else Some ContextCanceled)
     demo_newV5 demo_json (Memory_ReadAll, Memory_Next, Memory_Close) ApplyCutover
     \<lparr>ws_setters = [NewMemoryRouter], ws_started = False, ws_ready = False, ws_clock = 0\<rparr>
     = Some (Sentinel ContextCanceled, w')" "ws_ready w'" "length (ws_setters w') = 1"
    by (rule demo_worker_result)
  then obtain r where r: "ws_setters w' = [r]" by (auto simp: length_Suc_conv)
  have "AppliedCutover r ''orders'' = Inr \<lparr>co_Live = Live (lifecycle_fold demo_events),
      co_Revision = CutoverRevision (lifecycle_fold demo_events)\<rparr>"
    using ready_worker_has_converged [OF memory_reader.global_reader_axioms demo_recorded_valid demo_lifecycle_log w(1),
      of r "''orders''"] w(2) r demo_events_clean by (simp add: NewMemoryRouter_def)
  then show ?thesis using w(1) r demo_events_clean by (simp add: demo_worker_run)
qed

end
