(* ===== verification/Orchestrator.thy ===== *)
theory Orchestrator
  imports AggregateStore Cutover CheckpointStore
begin

text \<open>
  The rebuild orchestrator's configuration and its commands on a projection's lifecycle stream
  (\<open>projection/lifecycle/orchestrator.go\<close>, \<open>store.go\<close>). The authority store is the event-sourced
  store of \<open>NewStore\<close>; the JSON codec it defaults to and the UUID library's \<open>NewV5\<close> are
  parameters. The world is what a command acts on: the lifecycle event store, the checkpoint store,
  and the rest (versioned storage, the witnesses' routes). \<open>others\<close> is what everybody else does to
  the world before each operation of a command, so a command never sees the world it started in.
  A value \<open>None\<close> is a read that does not end.
\<close>

section \<open>The lifecycle store\<close>

definition lifecycle_domain :: "(lifecycle_event, state) domain" where
  "lifecycle_domain = \<lparr>eventType = lifecycle_EventType, applyTo = ApplyTo\<rparr>"

definition allDomainEvents :: "lifecycle_event prototype list" where
  "allDomainEvents = map (\<lambda>e. \<lparr>proto_EventType = lifecycle_EventType e, proto_New = Pointer e\<rparr>)
     [RebuildInitiated uuid_nil zero_pid zero_pid '''' 0,
      RunnerClaimed uuid_nil uuid_nil 0 zero_takeover 0,
      RunnerReleased uuid_nil uuid_nil 0,
      BuildStarted,
      CaughtUp 0 0 0,
      Promoted zero_pid zero_pid 0 0 0,
      RolledBack zero_pid zero_pid 0 0,
      Abandoned '''',
      RetireStarted zero_pid 0 [] [] zero_override 0,
      PreviousRetired zero_pid [],
      RetirementPolicySet 0 [] False '''' '''' 0]"

type_synonym ('db, 'i) stream_reader =
  "('db \<Rightarrow> typeid \<Rightarrow> read_stream_options \<Rightarrow> 'i result) \<times> ('i \<Rightarrow> event result \<times> 'i)"

type_synonym 'db stream_writer =
  "'db \<Rightarrow> typeid \<Rightarrow> writable_event list \<Rightarrow> append_stream_options \<Rightarrow> event list result \<times> 'db"

type_synonym ('db, 'i) lifecycle_store = "(lifecycle_event, state, 'db, 'i) es_store"

type_synonym lifecycle_aggregate = "(lifecycle_event, state) aggregate"

definition NewStore ::
  "lifecycle_event event_codec \<Rightarrow> ('db, 'i) stream_reader \<times> 'db stream_writer
   \<Rightarrow> ('db, 'i) lifecycle_store result" where
  "NewStore jsonCodec events = New_EventSourcedStore jsonCodec (fst events) (snd events)
     StreamType NewState [WithEventTypes allDomainEvents]"

section \<open>Configuration\<close>

text \<open>
  A handler works on the rest of the world; a \<open>Teardown\<close> is there when it implements
  \<open>projection.Teardowner\<close>. A witness reports the cutover it serves for a name.
\<close>

record 'x event_handler =
  eh_Handle :: "event option \<Rightarrow> 'x \<Rightarrow> go_error option \<times> 'x"
  eh_Teardown :: "(projection_id \<Rightarrow> 'x \<Rightarrow> go_error option \<times> 'x) option"

type_synonym 'x handler_factory = "projection_id \<Rightarrow> 'x \<Rightarrow> 'x event_handler result \<times> 'x"

record 'c checkpoint_ops =
  ck_Load :: "'c \<Rightarrow> projection_id \<Rightarrow> checkpoint result"
  ck_Save :: "'c \<Rightarrow> projection_id \<Rightarrow> int64 \<Rightarrow> go_error option \<times> 'c"
  ck_Delete :: "'c \<Rightarrow> projection_id \<Rightarrow> go_error option \<times> 'c"

type_synonym 'x witness = "'x \<Rightarrow> string \<Rightarrow> cutover result"

record ('db, 'i, 'g, 'c, 'x) config =
  cf_Events :: "'g option"
  cf_Checkpoints :: "'c checkpoint_ops option"
  cf_Handler :: "'x handler_factory option"
  cf_LifecycleEvents :: "(('db, 'i) stream_reader \<times> 'db stream_writer) option"

record ('db, 'i, 'g, 'c, 'x, 'p) orchestrator =
  oc_Events :: 'g
  oc_Checkpoints :: "'c checkpoint_ops"
  oc_Handler :: "'x handler_factory"
  autoPromote :: bool
  reconcileInterval :: int64
  processorOptions :: "'p list"
  oc_witnesses :: "string \<Rightarrow> 'x witness option"
  authority :: "('db, 'i) lifecycle_store"
  oc_optionErr :: "go_error option"

definition DefaultReconcileInterval :: int64 where
  "DefaultReconcileInterval = 10000000000"

definition option_error ::
  "string \<Rightarrow> ('db, 'i, 'g, 'c, 'x, 'p) orchestrator \<Rightarrow> ('db, 'i, 'g, 'c, 'x, 'p) orchestrator" where
  "option_error msg o' = o'\<lparr>oc_optionErr := errors_join [oc_optionErr o', Some (Text msg)]\<rparr>"

definition WithAutoPromote ::
  "bool \<Rightarrow> ('db, 'i, 'g, 'c, 'x, 'p) orchestrator \<Rightarrow> ('db, 'i, 'g, 'c, 'x, 'p) orchestrator" where
  "WithAutoPromote auto' o' = o'\<lparr>autoPromote := auto'\<rparr>"

definition WithProcessorOptions ::
  "'p option list \<Rightarrow> ('db, 'i, 'g, 'c, 'x, 'p) orchestrator \<Rightarrow> ('db, 'i, 'g, 'c, 'x, 'p) orchestrator" where
  "WithProcessorOptions opts o' =
     (if list_ex Option.is_none opts then option_error ''processor option must not be nil'' o'
      else o'\<lparr>processorOptions := processorOptions o' @ map the opts\<rparr>)"

definition WithReconcileInterval ::
  "int64 \<Rightarrow> ('db, 'i, 'g, 'c, 'x, 'p) orchestrator \<Rightarrow> ('db, 'i, 'g, 'c, 'x, 'p) orchestrator" where
  "WithReconcileInterval interval o' =
     (if interval \<le> 0 then option_error ''reconcile interval must be positive'' o'
      else o'\<lparr>reconcileInterval := interval\<rparr>)"

definition WithRetirementWitness ::
  "string \<Rightarrow> 'x witness option \<Rightarrow> ('db, 'i, 'g, 'c, 'x, 'p) orchestrator
   \<Rightarrow> ('db, 'i, 'g, 'c, 'x, 'p) orchestrator" where
  "WithRetirementWitness wid witness o' =
     (if wid = '''' then option_error ''retirement witness ID must not be empty'' o'
      else case witness of
        None \<Rightarrow> option_error ''retirement witness must not be nil'' o'
      | Some wit \<Rightarrow>
          if oc_witnesses o' wid \<noteq> None then option_error ''retirement witness registered twice'' o'
          else o'\<lparr>oc_witnesses := (oc_witnesses o')(wid \<mapsto> wit)\<rparr>)"

text \<open>The logger's option is told whether its logger is non-nil.\<close>

definition Orchestrator_WithLogger ::
  "bool \<Rightarrow> ('db, 'i, 'g, 'c, 'x, 'p) orchestrator \<Rightarrow> ('db, 'i, 'g, 'c, 'x, 'p) orchestrator" where
  "Orchestrator_WithLogger present o' =
     (if \<not> present then option_error ''logger must not be nil'' o' else o')"

definition NewOrchestrator ::
  "lifecycle_event event_codec \<Rightarrow> ('db, 'i, 'g, 'c, 'x) config
   \<Rightarrow> (('db, 'i, 'g, 'c, 'x, 'p) orchestrator \<Rightarrow> ('db, 'i, 'g, 'c, 'x, 'p) orchestrator) option list
   \<Rightarrow> ('db, 'i, 'g, 'c, 'x, 'p) orchestrator result" where
  "NewOrchestrator jsonCodec config opts =
     (case cf_Events config of
        None \<Rightarrow> Inl (Text ''global event reader is required'')
      | Some events \<Rightarrow> (case cf_Checkpoints config of
        None \<Rightarrow> Inl (Text ''checkpoint store is required'')
      | Some ckpts \<Rightarrow> (case cf_Handler config of
        None \<Rightarrow> Inl (Text ''handler factory is required'')
      | Some handler \<Rightarrow> (case cf_LifecycleEvents config of
        None \<Rightarrow> Inl (Text ''lifecycle event store is required'')
      | Some lifecycleEvents \<Rightarrow> (case NewStore jsonCodec lifecycleEvents of
        Inl err \<Rightarrow> Inl (fmt_wrap ''wiring the lifecycle authority store'' err)
      | Inr store \<Rightarrow>
          if list_ex Option.is_none opts then Inl (Text ''orchestrator option must not be nil'')
          else let o' = fold (\<lambda>opt. the opt) opts
             \<lparr>oc_Events = events, oc_Checkpoints = ckpts, oc_Handler = handler,
              autoPromote = False, reconcileInterval = DefaultReconcileInterval,
              processorOptions = [], oc_witnesses = Map.empty, authority = store,
              oc_optionErr = None\<rparr>
           in case oc_optionErr o' of Some err \<Rightarrow> Inl err | None \<Rightarrow> Inr o')))))"

section \<open>Loading and checking\<close>

record ('db, 'c, 'x) world =
  w_events :: 'db
  w_checkpoints :: 'c
  w_rest :: 'x

definition checkLifecycleAggregate ::
  "(uuid \<Rightarrow> string \<Rightarrow> uuid) \<Rightarrow> lifecycle_aggregate \<Rightarrow> string \<Rightarrow> go_error option" where
  "checkLifecycleAggregate newV5 a name =
     (let s = agg_state a in
      if id_type (agg_id a) \<noteq> StreamType
      then Some (fmt_wrap ''store manages another stream type'' (Sentinel ErrInvalidState))
      else if id_uuid (agg_id a) \<noteq> StreamUUID newV5 name
      then Some (fmt_wrap ''aggregate does not derive from the projection'' (Sentinel ErrInvalidState))
      else if st_Name s \<noteq> '''' \<and> st_Name s \<noteq> name
      then Some (fmt_wrap ''stream holds state for another projection'' (Sentinel ErrInvalidState))
      else case validate s of
        Some err \<Rightarrow> Some (Join [Sentinel ErrInvalidState, err])
      | None \<Rightarrow>
          if 0 < agg_version a \<and> st_Name s = ''''
          then Some (fmt_wrap ''aggregate holds uninitialized state'' (Sentinel ErrInvalidState))
          else None)"

definition loadAggregate ::
  "(uuid \<Rightarrow> string \<Rightarrow> uuid) \<Rightarrow> ('db, 'i, 'g, 'c, 'x, 'p) orchestrator \<Rightarrow> 'db \<Rightarrow> string
   \<Rightarrow> lifecycle_aggregate result option" where
  "loadAggregate newV5 o' db name =
     (case ES_Load lifecycle_domain (authority o') db (StreamUUID newV5 name) None of
        None \<Rightarrow> None
      | Some (Inl err) \<Rightarrow> Some (Inl (fmt_wrap ''loading projection lifecycle'' err))
      | Some (Inr a) \<Rightarrow> Some (case checkLifecycleAggregate newV5 a name of
          Some err \<Rightarrow> Inl err | None \<Rightarrow> Inr a))"

definition Get ::
  "(uuid \<Rightarrow> string \<Rightarrow> uuid) \<Rightarrow> ('db, 'i, 'g, 'c, 'x, 'p) orchestrator
   \<Rightarrow> (('db, 'c, 'x) world \<Rightarrow> ('db, 'c, 'x) world) \<Rightarrow> string
   \<Rightarrow> ('db, 'c, 'x) world \<Rightarrow> (state result \<times> ('db, 'c, 'x) world) option" where
  "Get newV5 o' others name w =
     (let w1 = others w in
      case loadAggregate newV5 o' (w_events w1) name of
        None \<Rightarrow> None
      | Some (Inl err) \<Rightarrow> Some (Inl err, w1)
      | Some (Inr a) \<Rightarrow> Some (Inr (agg_state a), w1))"

section \<open>The retirement policy\<close>

record policy_change =
  ch_Witnesses :: "string list"
  ch_Unwitnessed :: bool
  ch_Reason :: string
  ch_Actor :: string

definition SetRetirementPolicy ::
  "(uuid \<Rightarrow> string \<Rightarrow> uuid) \<Rightarrow> ('db, 'i, 'g, 'c, 'x, 'p) orchestrator
   \<Rightarrow> (('db, 'c, 'x) world \<Rightarrow> ('db, 'c, 'x) world) \<Rightarrow> time \<Rightarrow> string \<Rightarrow> policy_change
   \<Rightarrow> ('db, 'c, 'x) world \<Rightarrow> (go_error option \<times> ('db, 'c, 'x) world) option" where
  "SetRetirementPolicy newV5 o' others now name change w =
     (if ch_Actor change = '''' \<or> ch_Reason change = ''''
      then Some (Some (Text ''a retirement policy transition requires an actor and a reason''), w)
      else if ch_Unwitnessed change \<and> length (ch_Witnesses change) \<noteq> 0
      then Some (Some (Text ''a retirement policy names witnesses or is unwitnessed, not both''), w)
      else if \<not> ch_Unwitnessed change \<and> length (ch_Witnesses change) = 0
      then Some (Some (Text ''a retirement policy names at least one witness or is explicitly unwitnessed''), w)
      else let witnesses = sort (ch_Witnesses change) in
      case invalidWitnessSet witnesses of
        Some err \<Rightarrow> Some (Some (fmt_wrap ''retirement policy witnesses'' err), w)
      | None \<Rightarrow>
     (let w1 = others w in
      case loadAggregate newV5 o' (w_events w1) name of
        None \<Rightarrow> None
      | Some (Inl err) \<Rightarrow> Some (Some err, w1)
      | Some (Inr a) \<Rightarrow>
          (let current = Generation (RetirementPolicy (agg_state a)) in
           if max_int64 - 1 \<le> current
           then Some (Some (Text ''cannot record a retirement policy: the policy generation is exhausted''), w1)
           else
             let a1 = Append [RetirementPolicySet (wrap64 (current + 1)) witnesses (ch_Unwitnessed change)
                    (ch_Reason change) (ch_Actor change) now] a;
                 w2 = others w1
             in case ES_Save lifecycle_domain (authority o') (w_events w2) (Some a1) None of
                  (None, _, db) \<Rightarrow> Some (None, w2\<lparr>w_events := db\<rparr>)
                | (Some err, _, db) \<Rightarrow>
                    Some (Some (if SaveOutcome (Some err) = AppendOutcomeAppended
                        then fmt_wrap ''retirement policy recorded, but this view is stale'' err
                        else fmt_wrap ''recording retirement policy'' err), w2\<lparr>w_events := db\<rparr>))))"

end
