(* ===== verification/RebuildHandle.thy ===== *)
theory RebuildHandle
  imports Orchestrator
begin

text \<open>
  The rebuild handle (\<open>projection/lifecycle/handle.go\<close>): its state, how it reads and appends to the
  lifecycle stream, and how the orchestrator's \<open>Begin\<close> and \<open>Resume\<close> produce one. A channel is an
  identity; \<open>exitPublished\<close> says whether the processor's exit signal is closed. A cancel function
  that is non-nil is a flag, and what it cancelled another.
\<close>

section \<open>The handle\<close>

type_synonym chan = nat

record certification =
  ct_attempt :: uuid
  ct_runner :: uuid
  ct_position :: int64
  ct_version :: int64
  ct_exited :: "chan option"

datatype exit_order = ExitOrderRunning | ExitOrderReturned | ExitOrderStopped

record rebuild =
  rb_name :: string
  rb_aggregate :: lifecycle_aggregate
  stopProcessor :: bool
  stopCalled :: bool
  rb_runner :: uuid
  runAttempt :: uuid
  certificate :: "certification option"
  processorExited :: "chan option"
  exitPublished :: bool
  exitOrder :: exit_order
  processorReturned :: bool
  returnCtxErr :: "sentinel option"
  stopped :: bool
  commandEnded :: uuid
  classifying :: bool
  classifyCancelled :: bool
  pendingCommands :: int
  retrying :: bool
  retryCancelled :: bool
  failure :: "go_error option"
  ran :: bool

text \<open>\<open>&Rebuild{orchestrator: o, name: name, aggregate: aggregate}\<close>.\<close>

definition new_rebuild :: "string \<Rightarrow> lifecycle_aggregate \<Rightarrow> rebuild" where
  "new_rebuild name a = \<lparr>rb_name = name, rb_aggregate = a, stopProcessor = False, stopCalled = False,
     rb_runner = uuid_nil, runAttempt = uuid_nil, certificate = None, processorExited = None,
     exitPublished = False, exitOrder = ExitOrderRunning, processorReturned = False, returnCtxErr = None,
     stopped = False, commandEnded = uuid_nil, classifying = False, classifyCancelled = False,
     pendingCommands = 0, retrying = False, retryCancelled = False, failure = None, ran = False\<rparr>"

definition Rebuild_Name :: "rebuild \<Rightarrow> string" where
  "Rebuild_Name r = st_Name (agg_state (rb_aggregate r))"

definition Rebuild_State :: "rebuild \<Rightarrow> state" where
  "Rebuild_State r = agg_state (rb_aggregate r)"

definition Rebuild_Checkpoint ::
  "('db, 'i, 'g, 'c, 'x, 'p) orchestrator \<Rightarrow> (('db, 'c, 'x) world \<Rightarrow> ('db, 'c, 'x) world)
   \<Rightarrow> rebuild \<Rightarrow> ('db, 'c, 'x) world \<Rightarrow> checkpoint result \<times> ('db, 'c, 'x) world" where
  "Rebuild_Checkpoint o' others r w =
     (let s = Rebuild_State r in
      if at_Phase (Attempt s) = PhaseNone then (Inl (Text ''projection has no rebuild in flight''), w)
      else let w1 = others w in (ck_Load (oc_Checkpoints o') (w_checkpoints w1) (Target (Attempt s)), w1))"

section \<open>Begin and Resume\<close>

definition Begin ::
  "(uuid \<Rightarrow> string \<Rightarrow> uuid) \<Rightarrow> ('db, 'i, 'g, 'c, 'x, 'p) orchestrator
   \<Rightarrow> (('db, 'c, 'x) world \<Rightarrow> ('db, 'c, 'x) world) \<Rightarrow> uuid \<Rightarrow> time \<Rightarrow> string \<Rightarrow> string
   \<Rightarrow> ('db, 'c, 'x) world \<Rightarrow> (rebuild result \<times> ('db, 'c, 'x) world) option" where
  "Begin newV5 o' others fresh now name reason w =
     (let w1 = others w; sid = StreamUUID newV5 name in
      case ES_Load lifecycle_domain (authority o') (w_events w1) sid None of
        None \<Rightarrow> None
      | Some loaded \<Rightarrow>
     (case (case loaded of
          Inr a \<Rightarrow> Inr a
        | Inl err \<Rightarrow> if errors_is err ErrAggregateNotFound then Inr (ES_New (authority o') sid)
            else Inl (fmt_wrap ''loading projection lifecycle'' err)) of
        Inl err \<Rightarrow> Some (Inl err, w1)
      | Inr a \<Rightarrow>
     (case checkLifecycleAggregate newV5 a name of
        Some err \<Rightarrow> Some (Inl err, w1)
      | None \<Rightarrow>
     (let s = agg_state a in
      if at_Phase (Attempt s) \<noteq> PhaseNone
      then Some (Inl (Text ''projection already has a rebuild in flight''), w1)
      else
        let target = \<lparr>Name = name, Version = wrap64 (Allocated s + 1)\<rparr> in
        case projection_Validate target of
          Some err \<Rightarrow> Some (Inl (fmt_wrap ''invalid projection ID'' err), w1)
        | None \<Rightarrow>
       (let a1 = Append [RebuildInitiated fresh target (Live s) reason now] a; w2 = others w1 in
        case ES_Save lifecycle_domain (authority o') (w_events w2) (Some a1) None of
          (Some err, _, db) \<Rightarrow> Some (Inl (fmt_wrap ''recording rebuildinitiated'' err), w2\<lparr>w_events := db\<rparr>)
        | (None, saved, db) \<Rightarrow>
            Some (Inr (new_rebuild name (case saved of None \<Rightarrow> a1 | Some a2 \<Rightarrow> a2)),
              w2\<lparr>w_events := db\<rparr>))))))"

definition Resume ::
  "(uuid \<Rightarrow> string \<Rightarrow> uuid) \<Rightarrow> ('db, 'i, 'g, 'c, 'x, 'p) orchestrator
   \<Rightarrow> (('db, 'c, 'x) world \<Rightarrow> ('db, 'c, 'x) world) \<Rightarrow> string
   \<Rightarrow> ('db, 'c, 'x) world \<Rightarrow> (rebuild result \<times> ('db, 'c, 'x) world) option" where
  "Resume newV5 o' others name w =
     (let w1 = others w in
      case loadAggregate newV5 o' (w_events w1) name of
        None \<Rightarrow> None
      | Some (Inl err) \<Rightarrow> Some (Inl err, w1)
      | Some (Inr a) \<Rightarrow> Some (Inr (new_rebuild name a), w1))"

section \<open>Reading and appending\<close>

definition hydrateFresh ::
  "(uuid \<Rightarrow> string \<Rightarrow> uuid) \<Rightarrow> ('db, 'i, 'g, 'c, 'x, 'p) orchestrator \<Rightarrow> string \<Rightarrow> int64 \<Rightarrow> 'db
   \<Rightarrow> lifecycle_aggregate result option" where
  "hydrateFresh newV5 o' name toVersion db =
     (case ES_Hydrate lifecycle_domain (authority o') db
         (Some (ES_New (authority o') (StreamUUID newV5 name)))
         (if 0 < toVersion then Some \<lparr>ho_ToVersion = toVersion\<rparr> else None) of
        None \<Rightarrow> None
      | Some (Some err, _) \<Rightarrow> Some (Inl err)
      | Some (None, None) \<Rightarrow> None
      | Some (None, Some a) \<Rightarrow> Some (Inr a))"

definition lifecycleStream :: "(uuid \<Rightarrow> string \<Rightarrow> uuid) \<Rightarrow> rebuild \<Rightarrow> typeid" where
  "lifecycleStream newV5 r = New_id StreamType (StreamUUID newV5 (rb_name r))"

definition refoldLocked ::
  "(uuid \<Rightarrow> string \<Rightarrow> uuid) \<Rightarrow> ('db, 'i, 'g, 'c, 'x, 'p) orchestrator
   \<Rightarrow> (('db, 'c, 'x) world \<Rightarrow> ('db, 'c, 'x) world) \<Rightarrow> rebuild
   \<Rightarrow> ('db, 'c, 'x) world \<Rightarrow> (go_error option \<times> rebuild \<times> ('db, 'c, 'x) world) option" where
  "refoldLocked newV5 o' others r w =
     (let w1 = others w in
      case hydrateFresh newV5 o' (rb_name r) 0 (w_events w1) of
        None \<Rightarrow> None
      | Some (Inl err) \<Rightarrow> Some (Some (fmt_wrap ''refreshing lifecycle state'' err), r, w1)
      | Some (Inr a) \<Rightarrow> Some (checkLifecycleAggregate newV5 a (rb_name r), r\<lparr>rb_aggregate := a\<rparr>, w1))"

definition appendLocked ::
  "('db, 'i, 'g, 'c, 'x, 'p) orchestrator \<Rightarrow> (('db, 'c, 'x) world \<Rightarrow> ('db, 'c, 'x) world)
   \<Rightarrow> lifecycle_event list \<Rightarrow> rebuild \<Rightarrow> ('db, 'c, 'x) world
   \<Rightarrow> go_error option \<times> rebuild \<times> ('db, 'c, 'x) world" where
  "appendLocked o' others events r w =
     (let slot = wrap64 (agg_version (rb_aggregate r) + 1);
          a1 = Append events (rb_aggregate r);
          w1 = others w in
      case ES_Save lifecycle_domain (authority o') (w_events w1) (Some a1) None of
        (res, saved, db) \<Rightarrow>
          (let a2 = (case saved of None \<Rightarrow> a1 | Some a \<Rightarrow> a); w2 = w1\<lparr>w_events := db\<rparr> in
           case res of
             None \<Rightarrow> (None, r\<lparr>rb_aggregate := a2\<rparr>, w2)
           | Some err \<Rightarrow>
               (Some (AppendError slot (fmt_wrap ''recording'' err)),
                r\<lparr>rb_aggregate := DiscardUnsavedEvents a2,
                  certificate := (if SaveOutcome (Some err) = AppendOutcomeAppended then None else certificate r)\<rparr>,
                w2)))"

definition displacedError :: go_error where
  "displacedError = fmt_wrap ''another runner claimed the rebuild attempt'' (Sentinel ErrRunnerDisplaced)"

section \<open>The processor's exit\<close>

definition publishProcessorExit :: "rebuild \<Rightarrow> rebuild" where
  "publishProcessorExit r = r\<lparr>exitPublished := True, certificate := None\<rparr>"

text \<open>
  What Run's processor goroutine does once the processor has returned: it claims the exit order,
  \<open>ctxErr\<close> being the run context's error then, and publishes the exit.
\<close>

definition claimReturn :: "sentinel option \<Rightarrow> rebuild \<Rightarrow> rebuild" where
  "claimReturn ctxErr r = r\<lparr>returnCtxErr := ctxErr,
     exitOrder := (if exitOrder r = ExitOrderRunning then ExitOrderReturned else exitOrder r),
     processorReturned := True\<rparr>"

definition processorReturns :: "sentinel option \<Rightarrow> rebuild \<Rightarrow> rebuild" where
  "processorReturns ctxErr r = publishProcessorExit (claimReturn ctxErr r)"

definition claimStopOrder :: "rebuild \<Rightarrow> bool \<times> rebuild" where
  "claimStopOrder r =
     (if exitOrder r = ExitOrderRunning then (False, r\<lparr>exitOrder := ExitOrderStopped\<rparr>)
      else (exitOrder r = ExitOrderReturned, r))"

text \<open>
  \<open>awaitProcessorStop\<close>: the caller's context may end first (\<open>Inl\<close>); otherwise the exit is
  published, by the processor's goroutine when it was not before (\<open>Inr\<close>, with the run context's
  error at the return).
\<close>

definition awaitProcessorStop ::
  "sentinel + sentinel option \<Rightarrow> rebuild \<Rightarrow> go_error option \<times> rebuild" where
  "awaitProcessorStop awaited r =
     (if \<not> stopProcessor r then (None, r)
      else let r1 = r\<lparr>stopCalled := True\<rparr> in
        case awaited of
          Inl ctxErr \<Rightarrow> (Some (Sentinel ctxErr), r1)
        | Inr runErr \<Rightarrow> (None, if exitPublished r1 then r1 else processorReturns runErr r1))"

definition processorExit :: "go_error option \<Rightarrow> rebuild \<Rightarrow> go_error option \<times> rebuild" where
  "processorExit err r =
     ((if failure r \<noteq> None then failure r else if stopped r then None else err),
      r\<lparr>certificate := None\<rparr>)"

section \<open>Arbitration with the promotion retry\<close>

definition pauseRetries :: "rebuild \<Rightarrow> rebuild" where
  "pauseRetries r = r\<lparr>pendingCommands := wrap64 (pendingCommands r + 1),
     retryCancelled := (retryCancelled r \<or> retrying r)\<rparr>"

definition resumeRetries :: "rebuild \<Rightarrow> rebuild" where
  "resumeRetries r = r\<lparr>pendingCommands := wrap64 (pendingCommands r - 1)\<rparr>"

end
