(* ===== verification/AuthorityProps.thy ===== *)
theory AuthorityProps
  imports RebuildHandle AggregateProps LifecycleProps
begin

text \<open>
  What the handle's reads and appends do to a projection's lifecycle stream, over any event store
  that keeps \<open>event_store_contract\<close>. The locale \<open>lifecycle_authority\<close> is that contract plus what the
  lifecycle package relies on of its codec.
\<close>

section \<open>Streams\<close>

text \<open>
  The events a view of a lifecycle stream records: nothing when it does not exist. A truncated or
  undecodable stream has no reading.
\<close>

definition stream_of ::
  "('db, 'i) lifecycle_store \<Rightarrow> (int64 \<times> event list) option \<Rightarrow> lifecycle_event list option" where
  "stream_of S v = (case v of
     None \<Rightarrow> Some []
   | Some (fv, H) \<Rightarrow> if fv = 1 \<and> H \<noteq> [] \<and> list_all (\<lambda>ev. decoded S ev \<noteq> None) H
       then Some (map (\<lambda>ev. the (decoded S ev)) H) else None)"

definition lifecycle_stream ::
  "('db \<Rightarrow> typeid \<Rightarrow> (int64 \<times> event list) option) \<Rightarrow> ('db, 'i) lifecycle_store
   \<Rightarrow> (uuid \<Rightarrow> string \<Rightarrow> uuid) \<Rightarrow> string \<Rightarrow> 'db \<Rightarrow> lifecycle_event list option" where
  "lifecycle_stream view s newV5 n db = stream_of s (view db (New_id StreamType (StreamUUID newV5 n)))"

definition clean :: "lifecycle_event list \<Rightarrow> bool" where
  "clean es \<longleftrightarrow> InvalidReason (lifecycle_fold es) = ''''"

text \<open>An aggregate that holds the fold of the first \<open>k\<close> events of its stream, with nothing queued.\<close>

definition at_prefix ::
  "(uuid \<Rightarrow> string \<Rightarrow> uuid) \<Rightarrow> string \<Rightarrow> lifecycle_event list \<Rightarrow> nat \<Rightarrow> lifecycle_aggregate \<Rightarrow> bool" where
  "at_prefix newV5 n es k a \<longleftrightarrow> k \<le> length es \<and> agg_version a = int k
     \<and> agg_state a = lifecycle_fold (take k es) \<and> unappliedEvents a = [] \<and> unsavedEvents a = []
     \<and> agg_id a = New_id StreamType (StreamUUID newV5 n)"

lemma clean_append: "clean (es @ fs) \<Longrightarrow> clean es"
  unfolding clean_def by (rule clean_prefix)

lemma clean_take: "clean es \<Longrightarrow> clean (take k es)"
  using clean_append [of "take k es" "drop k es"] by simp

lemma clean_Nil [simp]: "clean []"
  by (simp add: clean_def fold_Nil NewState_def)

lemma clean_extend: "clean es \<Longrightarrow> legal (lifecycle_fold es) e s' \<Longrightarrow> clean (es @ [e])"
  using history_iff history_step unfolding clean_def by (metis history_step)

lemma stream_of_history:
  assumes "stream_of S v = Some es"
  obtains H where "shows_history v H" "es = map (\<lambda>ev. the (decoded S ev)) H"
    "\<forall>ev \<in> set H. decoded S ev \<noteq> None" "v = None \<and> H = [] \<or> v = Some (1, H) \<and> H \<noteq> []"
  using assms that
  by (auto simp: stream_of_def shows_history_def list_all_iff split: option.splits if_splits)

lemma stream_of_extend:
  assumes "stream_of S v = Some es" "list_all2 (\<lambda>u ev. decoded S ev = Some (ae_DomainEvent u)) us new"
    and "new \<noteq> []"
  shows "stream_of S (extend_view v new) = Some (es @ map ae_DomainEvent us)"
proof -
  have "map (\<lambda>ev. the (decoded S ev)) new = map ae_DomainEvent us" "\<forall>ev \<in> set new. decoded S ev \<noteq> None"
    using assms(2) by (induction us new rule: list_all2_induct) auto
  then show ?thesis using assms(1,3)
    by (auto simp: stream_of_def extend_view_def list_all_iff split: option.splits if_splits; force)
qed

lemma fold_state_lifecycle:
  "\<forall>ev \<in> set H. decoded S ev \<noteq> None \<Longrightarrow> fold_state lifecycle_domain S H (NewState i)
     = lifecycle_fold (map (\<lambda>ev. the (decoded S ev)) H)"
  by (simp add: fold_state_def lifecycle_fold_def lifecycle_domain_def fold_map comp_def NewState_def)

section \<open>Saves whose outcome is unknown\<close>

context es_aggregates begin

text \<open>A failed save left the stream as it was or wrote exactly the unsaved events.\<close>

lemma Save_unknown:
  assumes "valid db" "room db (length (unsavedEvents a))" "unsavedEvents a \<noteq> []"
    and "ES_Save d s db (Some a) None = (Some e, a', db')" "SaveOutcome (Some e) = AppendOutcomeUnknown"
  shows "view db' (agg_id a) = view db (agg_id a)
    \<or> (\<exists>es. save_extended d s (view db (agg_id a)) (view db' (agg_id a)) a es)"
proof (rule ccontr)
  assume no: "\<not> ?thesis"
  let ?aid = "agg_id a" and ?v = "agg_version a"
  let ?ao = "\<lparr>ExpectVersion = VersionPtr ?v, StreamMustNotExist = False\<rparr>"
  note outc = outcome_simps resolved_def
  have bounds: "\<not> ?v < 0" "\<not> max_int64 - ?v < int (length (unsavedEvents a))"
    using assms(3-5) by (auto simp: ES_Save_def writer outc split: if_splits)
  obtain ws where ws: "writable_events d (domainEventCodec s) ?aid (unsavedEvents a) = Inr ws"
    using assms(3-5) bounds writable_events_error
    by (cases "writable_events d (domainEventCodec s) ?aid (unsavedEvents a)")
      (fastforce simp: ES_Save_def writer)+
  obtain res db1 where app: "appendStream db ?aid ws ?ao = (res, db1)" by fastforce
  have room: "room db (length ws)"
    using assms(2) list_all2_lengthD [OF writable_events_ok [OF ws]] by simp
  have ref: "append_refusal ?aid (view_tip (view db ?aid)) ?ao = (if view_tip (view db ?aid) = ?v then None
      else Some (StreamVersionMismatchError ?aid ?v (view_tip (view db ?aid))))"
    by (simp add: append_refusal_def VersionPtr_def)
  obtain f where f: "res = Inl f" "db' = db1"
    using assms(3-5) bounds ws app
    by (cases res; cases "apply_queue d (a\<lparr>unappliedEvents := unappliedEvents a @ queued_events (unsavedEvents a) (projr res),
                 unsavedEvents := []\<rparr>)")
      (auto simp: ES_Save_def writer outc fold_willApply clearUnsavedEvents_def Let_def
        split: if_splits option.splits)
  show False
  proof (cases "append_refusal ?aid (view_tip (view db ?aid)) ?ao")
    case None
    then have "view db' ?aid = view db ?aid \<or> (\<exists>es. written_for ?aid (view_tip (view db ?aid)) ws es
        \<and> view db' ?aid = extend_view (view db ?aid) es)"
      using append_failed [OF assms(1) room None, of f] app f by auto
    then show False
      using no written_extends [OF ws _ _ _ assms(3), of _ _ db db'] None ref by (auto split: if_splits)
  next
    case (Some e')
    then show False using append_refused [OF assms(1) room Some] app f no by auto
  qed
qed

end

section \<open>The authority\<close>

locale lifecycle_authority =
  es_aggregates readStream nxt appendStream view valid room healthy lifecycle_domain s
  for readStream :: "'db \<Rightarrow> typeid \<Rightarrow> read_stream_options \<Rightarrow> 'i result" and nxt appendStream view
    and valid :: "'db \<Rightarrow> bool" and room healthy and s :: "('db, 'i) lifecycle_store" +
  assumes wired: "aggregateType s = StreamType" "newState s = NewState"
    and codec: "codec_ok lifecycle_domain s e"
    and room_fewer: "room db 2 \<Longrightarrow> n \<le> 2 \<Longrightarrow> room db n"
begin

abbreviation stream :: "(uuid \<Rightarrow> string \<Rightarrow> uuid) \<Rightarrow> string \<Rightarrow> 'db \<Rightarrow> lifecycle_event list option" where
  "stream \<equiv> lifecycle_stream view s"

lemma hydrateFresh_prefix:
  assumes "valid db" "stream newV5 n db = Some es" "authority o' = s" "0 \<le> to" "to \<le> max_int64"
  shows "(\<exists>e. es = [] \<and> hydrateFresh newV5 o' n to db = Some (Inl e)) \<or>
    (\<exists>a. hydrateFresh newV5 o' n to db = Some (Inr a)
      \<and> at_prefix newV5 n es (if to = 0 then length es else min (nat to) (length es)) a)"
proof -
  let ?id = "New_id StreamType (StreamUUID newV5 n)" and ?a = "ES_New s (StreamUUID newV5 n)"
  have new: "agg_id ?a = ?id" "unsavedEvents ?a = []" "newState s (id_uuid ?id) = NewState uuid_nil"
    by (simp_all add: ES_New_def newAggregate_def wired NewState_def)
  have opts: "ES_Hydrate lifecycle_domain s db (Some ?a) (if 0 < to then Some \<lparr>ho_ToVersion = to\<rparr> else None)
      = ES_Hydrate lifecycle_domain s db (Some ?a) (Some \<lparr>ho_ToVersion = to\<rparr>)"
    using assms(4) by (simp add: ES_Hydrate_def)
  obtain H where H: "es = map (\<lambda>ev. the (decoded s ev)) H" "\<forall>ev \<in> set H. decoded s ev \<noteq> None"
      "view db ?id = None \<and> H = [] \<or> view db ?id = Some (1, H)"
    using stream_of_history [OF assms(2) [unfolded lifecycle_stream_def]] by metis
  show ?thesis
  proof (cases "view db ?id")
    case None
    then have "es = []" using H by auto
    moreover have "\<exists>e. hydrateFresh newV5 o' n to db = Some (Inl e)"
      using read_missing [OF assms(1) None] assms(3,4) new opts
      by (simp add: hydrateFresh_def ES_Hydrate_def reader HydrateOptions_Validate_def Let_def
          ES_New_def newAggregate_def New_id_def wired)
    ultimately show ?thesis by blast
  next
    case (Some v)
    then have v: "view db (agg_id ?a) = Some (1, H)" using H new by auto
    obtain a' where a': "ES_Hydrate lifecycle_domain s db (Some ?a) (Some \<lparr>ho_ToVersion = to\<rparr>) = Some (None, Some a')"
      "at_version lifecycle_domain s H (target_version to H) a'" "agg_id a' = ?id" "unsavedEvents a' = []"
      using Hydrate_history [OF assms(1) v _ at_version_New _ assms(4) _ assms(5) H(2)] new assms(4)
      by (auto simp: shows_history_def)
    have k: "nat (target_version to H) = (if to = 0 then length es else min (nat to) (length es))"
      using assms(4) H(1) by (auto simp: target_version_def)
    have dec: "\<forall>ev \<in> set (take k H). decoded s ev \<noteq> None" for k
      using H(2) by (auto dest: in_set_takeD)
    have "at_prefix newV5 n es (nat (target_version to H)) a'"
      using a'(2-4) H(1) new(3) fold_state_lifecycle [OF dec]
      by (auto simp: at_prefix_def at_version_def take_map)
    then show ?thesis
      using a'(1) k assms(3) opts by (auto simp: hydrateFresh_def)
  qed
qed

lemma at_prefix_Append:
  assumes "at_prefix newV5 n es k a" "evs \<noteq> []"
  shows "agg_id (Append evs a) = New_id StreamType (StreamUUID newV5 n)" "agg_version (Append evs a) = int k"
    "unappliedEvents (Append evs a) = []" "agg_state (Append evs a) = lifecycle_fold (take k es)" "k \<le> length es"
    "map ae_DomainEvent (unsavedEvents (Append evs a)) = evs"
    "length (unsavedEvents (Append evs a)) = length evs" "unsavedEvents (Append evs a) \<noteq> []"
  using assms by (simp_all add: at_prefix_def Append_def AppendWithMetadata_def comp_def)

text \<open>A save whose events reached the stream was made at its tip.\<close>

lemma save_extended_stream:
  assumes "stream newV5 n db = Some es" "at_prefix newV5 n es k a" "evs \<noteq> []"
    and "save_extended lifecycle_domain s (view db (New_id StreamType (StreamUUID newV5 n)))
      (view db' (New_id StreamType (StreamUUID newV5 n))) (Append evs a) new"
  shows "k = length es \<and> stream newV5 n db' = Some (es @ evs)"
proof -
  let ?id = "New_id StreamType (StreamUUID newV5 n)"
  note a = at_prefix_Append [OF assms(2,3)]
  obtain H where "shows_history (view db ?id) H" "length es = length H"
    using stream_of_history [OF assms(1) [unfolded lifecycle_stream_def]] by (metis length_map)
  then have "view_tip (view db ?id) = int (length es)" using history_tip by fastforce
  moreover have "int k = view_tip (view db ?id)" "new \<noteq> []" "view db' ?id = extend_view (view db ?id) new"
    using assms(4) a(2,8) by (auto simp: save_extended_def)
  moreover have "\<forall>u \<in> set (unsavedEvents (Append evs a)). codec_ok lifecycle_domain s (ae_DomainEvent u)"
    using codec by blast
  ultimately show ?thesis
    using stream_of_extend [OF assms(1) [unfolded lifecycle_stream_def] saved_decodes [OF assms(4)]] a(6)
    by (simp add: lifecycle_stream_def)
qed

lemma save_succeeds:
  assumes "valid db" "room db 2" "stream newV5 n db = Some es" "at_prefix newV5 n es (length es) a"
    and "evs \<noteq> []" "length evs \<le> 2" "stream newV5 n db' = Some (es @ evs)"
    and "ES_Save lifecycle_domain s db (Some (Append evs a)) None = (None, a', db')"
  shows "\<exists>a1. a' = Some a1 \<and> at_prefix newV5 n (es @ evs) (length (es @ evs)) a1"
proof -
  let ?id = "New_id StreamType (StreamUUID newV5 n)"
  note a = at_prefix_Append [OF assms(4,5)]
  obtain H where H: "shows_history (view db ?id) H" "es = map (\<lambda>ev. the (decoded s ev)) H"
      "\<forall>ev \<in> set H. decoded s ev \<noteq> None"
    using stream_of_history [OF assms(3) [unfolded lifecycle_stream_def]] by metis
  have room: "room db (length (unsavedEvents (Append evs a)))"
    using room_fewer [OF assms(2), of "length evs"] assms(6) a(7) by simp
  have codecs: "\<forall>u \<in> set (unsavedEvents (Append evs a)). codec_ok lifecycle_domain s (ae_DomainEvent u)"
    using codec by blast
  have at: "at_version lifecycle_domain s H (int (length H)) (Append evs a)"
    using a(1-4) H(2) fold_state_lifecycle [OF H(3)] by (simp add: at_version_def wired)
  obtain new a1 where new: "a' = Some a1" "view db' ?id = extend_view (view db ?id) new"
      "at_version lifecycle_domain s (H @ new) (int (length (H @ new))) a1" "agg_id a1 = ?id"
      "unsavedEvents a1 = []" "\<forall>ev \<in> set new. decoded s ev \<noteq> None" "length new = length evs"
    using Save_current [OF assms(1) room a(8) assms(8) _ _ at codecs] H(1) a(1,7) by auto
  have "list_all2 (\<lambda>u ev. decoded s ev = Some (ae_DomainEvent u))
      (map (\<lambda>ev. \<lparr>ae_ID = zero_id, ae_Version = 0, ae_Timestamp = 0, ae_DomainEvent = the (decoded s ev),
         ae_Metadata = None\<rparr>) new) new"
    using new(6) by (auto simp: list_all2_map1 intro!: list.rel_refl_strong)
  then have "stream newV5 n db' = Some (es @ map (\<lambda>ev. the (decoded s ev)) new)"
    using stream_of_extend [OF assms(3) [unfolded lifecycle_stream_def]] new(2,7) assms(5)
    by (fastforce simp: lifecycle_stream_def comp_def)
  then have "map (\<lambda>ev. the (decoded s ev)) new = evs" using assms(7) by simp
  then have "at_prefix newV5 n (es @ evs) (length (es @ evs)) a1"
    using new H(2,3) fold_state_lifecycle [of "H @ new" s uuid_nil]
    by (auto simp: at_prefix_def at_version_def wired NewState_def)
  then show ?thesis using new(1) by simp
qed

lemma save_drains:
  assumes "save_extended lifecycle_domain s v v' a new" "unappliedEvents a = []"
    and "0 \<le> agg_version a" "agg_version a + int (length new) \<le> max_int64"
  shows "fst (apply_queue lifecycle_domain
    (a\<lparr>unappliedEvents := queued_events (unsavedEvents a) new, unsavedEvents := []\<rparr>)) = None"
proof -
  let ?q = "queued_events (unsavedEvents a) new"
  have len: "length ?q = length new" "length (unsavedEvents a) = length new"
    using assms(1) by (simp_all add: save_extended_def queued_events_def)
  have "consecutive ae_Version (agg_version a + 1) ?q"
    using assms(1) unfolding queued_versions [OF len(2)] save_extended_def by metis
  then show ?thesis
    using apply_queue_all [of "a\<lparr>unappliedEvents := ?q, unsavedEvents := []\<rparr>" ?q lifecycle_domain] assms(3,4) len(1)
    by simp
qed

lemma save_fails:
  assumes "valid db" "room db 2" "stream newV5 n db = Some es" "at_prefix newV5 n es k a"
    and "evs \<noteq> []" "length evs \<le> 2"
    and "ES_Save lifecycle_domain s db (Some (Append evs a)) None = (Some e, a', db')"
  shows "a' = Some (Append evs a) \<and> SaveOutcome (Some e) \<noteq> AppendOutcomeAppended
    \<and> (stream newV5 n db' = Some es
       \<or> \<not> healthy \<and> k = length es \<and> stream newV5 n db' = Some (es @ evs))"
proof -
  let ?id = "New_id StreamType (StreamUUID newV5 n)" and ?a = "Append evs a"
  note a = at_prefix_Append [OF assms(4,5)]
  have room: "room db (length (unsavedEvents ?a))"
    using room_fewer [OF assms(2), of "length evs"] assms(6) a(7) by simp
  consider "a' = Some ?a" "SaveOutcome (Some e) = AppendOutcomeNothingAppended" "view db' = view db"
    | "a' = Some ?a" "SaveOutcome (Some e) = AppendOutcomeUnknown" "\<not> healthy"
    | new where "save_extended lifecycle_domain s (view db ?id) (view db' ?id) ?a new"
        "agg_version ?a + int (length new) \<le> max_int64" "fst (apply_queue lifecycle_domain (?a\<lparr>unappliedEvents :=
          queued_events (unsavedEvents ?a) new, unsavedEvents := []\<rparr>)) \<noteq> None"
    using Save_cases [OF assms(1) room a(8) assms(7), unfolded a(1)] a(2,3) by (fastforce simp: Let_def)
  then show ?thesis
  proof cases
    case 1
    then show ?thesis using assms(3) by (simp add: lifecycle_stream_def)
  next
    case 2
    have "view db' ?id = view db ?id
        \<or> (\<exists>new. save_extended lifecycle_domain s (view db ?id) (view db' ?id) ?a new)"
      using Save_unknown [OF assms(1) room a(8) assms(7) 2(2)] a(1) by simp
    then show ?thesis
      using 2 assms(3) save_extended_stream [OF assms(3-5)] by (auto simp: lifecycle_stream_def)
  next
    case 3
    then show ?thesis using save_drains [OF 3(1) a(3) _ 3(2)] a(2) by simp
  qed
qed

text \<open>
  The effect of a save of \<open>evs\<close> from an aggregate at version \<open>k\<close>: it succeeds only at the tip, and
  then records exactly \<open>evs\<close>; a failed one leaves the stream alone, or, when the store vouched for
  neither outcome, may have recorded exactly \<open>evs\<close> at the tip.
\<close>

lemma save_prefix:
  assumes "valid db" "room db 2" "stream newV5 n db = Some es" "at_prefix newV5 n es k a"
    and "evs \<noteq> []" "length evs \<le> 2"
    and "ES_Save lifecycle_domain s db (Some (Append evs a)) None = (res, a', db')"
  shows "valid db' \<and>
    (case res of
       None \<Rightarrow> k = length es \<and> stream newV5 n db' = Some (es @ evs)
         \<and> (\<exists>a1. a' = Some a1 \<and> at_prefix newV5 n (es @ evs) (length (es @ evs)) a1)
     | Some e \<Rightarrow> a' = Some (Append evs a) \<and> SaveOutcome res \<noteq> AppendOutcomeAppended
         \<and> (stream newV5 n db' = Some es
            \<or> \<not> healthy \<and> k = length es \<and> stream newV5 n db' = Some (es @ evs)))"
proof -
  note a = at_prefix_Append [OF assms(4,5)]
  have room: "room db (length (unsavedEvents (Append evs a)))"
    using room_fewer [OF assms(2), of "length evs"] assms(6) a(7) by simp
  note cases = Save_cases [OF assms(1) room a(8) assms(7), unfolded a(1)]
  show ?thesis
  proof (cases res)
    case None
    then have tip: "k = length es \<and> stream newV5 n db' = Some (es @ evs)"
      using cases save_extended_stream [OF assms(3-5)] by (auto simp: Let_def split: if_splits)
    then show ?thesis
      using None cases save_succeeds [OF assms(1-3) _ assms(5,6)] assms(4,7) by auto
  next
    case (Some e)
    then show ?thesis using cases save_fails [OF assms(1-6)] assms(7) by auto
  qed
qed

end

end
