(* ===== verification/RebuildCommands.thy ===== *)
theory RebuildCommands
  imports RebuildHandle
begin

text \<open>
  The commands of a rebuild handle (\<open>projection/lifecycle/handle.go\<close>): \<open>Promote\<close>, \<open>Rollback\<close>,
  \<open>Abandon\<close> and \<open>Retire\<close>, each with its critical section under the handle's lock.
\<close>

section \<open>Promote\<close>

text \<open>Why a promotion of a caught-up attempt is refused, and whether the refusal kills the certificate.\<close>

definition certificate_refusal :: "rebuild \<Rightarrow> (go_error \<times> bool) option" where
  "certificate_refusal r =
     (let s = agg_state (rb_aggregate r);
          refuse = (\<lambda>msg. Some (fmt_wrap msg (Sentinel ErrNotCertified), True)) in
      case failure r of
        Some err \<Rightarrow> Some (Join [Sentinel ErrNotCertified, err], True)
      | None \<Rightarrow>
      if stopped r then refuse ''the run was stopped''
      else case certificate r of
        None \<Rightarrow> Some (fmt_wrap ''run the rebuild to drain it to the head and certify'' (Sentinel ErrNotCertified), False)
      | Some c \<Rightarrow>
          if ct_attempt c \<noteq> at_ID (Attempt s) then refuse ''the certificate covers a different attempt''
          else if ct_runner c \<noteq> Runner (Attempt s)
          then refuse ''the certifying runner is no longer the recorded claimant''
          else if ct_position c \<noteq> CaughtUpPos (Attempt s)
          then refuse ''the certified position is not the recorded catch-up position''
          else if ct_version c \<noteq> agg_version (rb_aggregate r)
          then refuse ''the lifecycle advanced after catch-up was certified''
          else if ct_exited c \<noteq> processorExited r
          then refuse ''the certificate is bound to a different processor incarnation''
          else if exitPublished r then refuse ''the certifying processor has exited''
          else None)"

definition Promote ::
  "(uuid \<Rightarrow> string \<Rightarrow> uuid) \<Rightarrow> ('db, 'i, 'g, 'c, 'x, 'p) orchestrator
   \<Rightarrow> (('db, 'c, 'x) world \<Rightarrow> ('db, 'c, 'x) world) \<Rightarrow> time \<Rightarrow> rebuild
   \<Rightarrow> ('db, 'c, 'x) world \<Rightarrow> go_error option \<times> rebuild \<times> ('db, 'c, 'x) world" where
  "Promote newV5 o' others now r w =
     (case checkLifecycleAggregate newV5 (rb_aggregate r) (rb_name r) of
        Some err \<Rightarrow> (Some err, r, w)
      | None \<Rightarrow>
     (let s = agg_state (rb_aggregate r) in
      case at_Phase (Attempt s) of
        PhaseNone \<Rightarrow> (Some (Text ''projection has no rebuild in flight''), r, w)
      | PhaseCaughtUp \<Rightarrow>
          (case certificate_refusal r of
             Some (err, dead) \<Rightarrow>
               (Some err, r\<lparr>certificate := (if dead then None else certificate r)\<rparr>, w)
           | None \<Rightarrow>
               if CutoverRevision s = max_int64
               then (Some (Text ''cannot promote: the cutover revision is exhausted''), r, w)
               else case appendLocked o' others [Promoted (Live s) (Target (Attempt s))
                   (wrap64 (CutoverRevision s + 1)) (Generation (RetirementPolicy s)) now] r w of
                 (None, r1, w1) \<Rightarrow> (None, r1\<lparr>certificate := None\<rparr>, w1)
               | (Some err, r1, w1) \<Rightarrow>
                   (Some (if SaveOutcome (Some err) = AppendOutcomeAppended
                       then staleHandleError ''promotion'' err else err), r1, w1))
      | PhaseUnknown n \<Rightarrow> (Some (Text ''cannot promote a rebuild in unknown phase''), r, w)
      | phase \<Rightarrow> (Some (Text (''cannot promote a rebuild that is '' @ Phase_String phase)), r, w)))"

section \<open>Rollback and Abandon\<close>

text \<open>
  What a terminal command does to its handle's run once its event is recorded: nothing unless the
  attempt it ended is the run's own.
\<close>

definition endRun :: "uuid \<Rightarrow> rebuild \<Rightarrow> bool \<times> rebuild" where
  "endRun attemptID r =
     (if attemptID = runAttempt r
      then (True, r\<lparr>stopped := True, commandEnded := attemptID,
             classifyCancelled := (classifyCancelled r \<or> classifying r)\<rparr>)
      else (False, r))"

text \<open>
  The critical section of a terminal command: a refold, the phases it allows (\<open>refusal\<close>), the append
  of its event, the bookkeeping. \<open>Inl\<close> is a refusal; \<open>Inr\<close> carries the error of an append that is
  durable all the same, and whether the run ended.
\<close>

definition recordTerminal ::
  "(uuid \<Rightarrow> string \<Rightarrow> uuid) \<Rightarrow> ('db, 'i, 'g, 'c, 'x, 'p) orchestrator
   \<Rightarrow> (('db, 'c, 'x) world \<Rightarrow> ('db, 'c, 'x) world) \<Rightarrow> (state \<Rightarrow> go_error option)
   \<Rightarrow> (state \<Rightarrow> lifecycle_event) \<Rightarrow> rebuild \<Rightarrow> ('db, 'c, 'x) world
   \<Rightarrow> ((go_error + go_error option \<times> bool) \<times> rebuild \<times> ('db, 'c, 'x) world) option" where
  "recordTerminal newV5 o' others refusal event r w =
     (case refoldLocked newV5 o' others r w of
        None \<Rightarrow> None
      | Some (Some err, r1, w1) \<Rightarrow> Some (Inl err, r1, w1)
      | Some (None, r1, w1) \<Rightarrow>
     (let s = agg_state (rb_aggregate r1) in
      case refusal s of
        Some err \<Rightarrow> Some (Inl err, r1, w1)
      | None \<Rightarrow>
     (case appendLocked o' others [event s] r1 w1 of (appendErr, r2, w2) \<Rightarrow>
        if appendErr \<noteq> None \<and> SaveOutcome appendErr \<noteq> AppendOutcomeAppended
        then Some (Inl (the appendErr), r2, w2)
        else case endRun (at_ID (Attempt s)) r2 of (endedRun, r3) \<Rightarrow>
          Some (Inr (appendErr, endedRun), r3, w2))))"

definition rollbackRefusal :: "state \<Rightarrow> go_error option" where
  "rollbackRefusal s =
     (case at_Phase (Attempt s) of
        PhaseNone \<Rightarrow> Some (Text ''projection has no rebuild in flight'')
      | PhaseRetiring \<Rightarrow> Some (Text ''cannot roll back: retirement of the previous version has started'')
      | PhasePromoted \<Rightarrow>
          if Version (Previous (Attempt s)) = 0
          then Some (Text ''rebuild has no previous version to roll back to'')
          else if CutoverRevision s = max_int64
          then Some (Text ''cannot roll back: the cutover revision is exhausted'')
          else None
      | PhaseUnknown n \<Rightarrow> Some (Text ''cannot roll back a rebuild in unknown phase'')
      | phase \<Rightarrow> Some (Text (''cannot roll back a rebuild that is '' @ Phase_String phase)))"

definition Rollback ::
  "(uuid \<Rightarrow> string \<Rightarrow> uuid) \<Rightarrow> ('db, 'i, 'g, 'c, 'x, 'p) orchestrator
   \<Rightarrow> (('db, 'c, 'x) world \<Rightarrow> ('db, 'c, 'x) world) \<Rightarrow> time \<Rightarrow> sentinel + sentinel option
   \<Rightarrow> rebuild \<Rightarrow> ('db, 'c, 'x) world \<Rightarrow> (go_error option \<times> rebuild \<times> ('db, 'c, 'x) world) option" where
  "Rollback newV5 o' others now awaited r w =
     (case recordTerminal newV5 o' others rollbackRefusal
         (\<lambda>s. RolledBack (Live s) (Previous (Attempt s)) (wrap64 (CutoverRevision s + 1)) now)
         (pauseRetries r) w of
        None \<Rightarrow> None
      | Some (Inl err, r1, w1) \<Rightarrow> Some (Some err, resumeRetries r1, w1)
      | Some (Inr (appendErr, endedRun), r1, w1) \<Rightarrow>
     (case (if endedRun then awaitProcessorStop awaited r1 else (None, r1)) of (stopErr, r2) \<Rightarrow>
        Some (case appendErr of
            Some err \<Rightarrow> errors_join [Some (staleHandleError ''rollback'' err), stopErr]
          | None \<Rightarrow> stopErr, resumeRetries r2, w1)))"

definition abandonRefusal :: "state \<Rightarrow> go_error option" where
  "abandonRefusal s =
     (case at_Phase (Attempt s) of
        PhaseNone \<Rightarrow> Some (Text ''projection has no rebuild in flight'')
      | PhaseCreated \<Rightarrow> None
      | PhaseBuilding \<Rightarrow> None
      | PhaseCaughtUp \<Rightarrow> None
      | PhaseUnknown n \<Rightarrow> Some (Text ''cannot abandon a rebuild in unknown phase'')
      | phase \<Rightarrow> Some (Text (''cannot abandon a rebuild that is '' @ Phase_String phase)))"

definition Abandon ::
  "(uuid \<Rightarrow> string \<Rightarrow> uuid) \<Rightarrow> ('db, 'i, 'g, 'c, 'x, 'p) orchestrator
   \<Rightarrow> (('db, 'c, 'x) world \<Rightarrow> ('db, 'c, 'x) world) \<Rightarrow> string \<Rightarrow> sentinel + sentinel option
   \<Rightarrow> rebuild \<Rightarrow> ('db, 'c, 'x) world \<Rightarrow> (go_error option \<times> rebuild \<times> ('db, 'c, 'x) world) option" where
  "Abandon newV5 o' others cause awaited r w =
     (case recordTerminal newV5 o' others abandonRefusal (\<lambda>s. Abandoned cause) (pauseRetries r) w of
        None \<Rightarrow> None
      | Some (Inl err, r1, w1) \<Rightarrow> Some (Some err, resumeRetries r1, w1)
      | Some (Inr (appendErr, endedRun), r1, w1) \<Rightarrow>
     (let appendErr' = map_option (staleHandleError ''abandonment'') appendErr in
      if \<not> endedRun then Some (appendErr', resumeRetries r1, w1)
      else case awaitProcessorStop awaited r1 of (stopErr, r2) \<Rightarrow>
        Some (errors_join [appendErr', stopErr], resumeRetries r2, w1)))"

section \<open>Retire\<close>

record retire_config =
  rt_override :: retirement_override
  rt_optionErr :: "go_error option"

definition WithRetirementOverride :: "string \<Rightarrow> string \<Rightarrow> retire_config \<Rightarrow> retire_config" where
  "WithRetirementOverride actor reason c =
     (if actor = '''' \<or> reason = ''''
      then c\<lparr>rt_optionErr := errors_join [rt_optionErr c,
             Some (Text ''a retirement override requires an actor and a reason'')]\<rparr>
      else c\<lparr>rt_override := \<lparr>ov_Actor = actor, ov_Reason = reason\<rparr>\<rparr>)"

definition resolveWitnesses ::
  "('db, 'i, 'g, 'c, 'x, 'p) orchestrator \<Rightarrow> string list \<Rightarrow> 'x witness list result" where
  "resolveWitnesses o' ids =
     (if list_ex (\<lambda>i. oc_witnesses o' i = None) ids
      then Inl (Text ''required retirement witnesses are not registered'')
      else Inr (map (\<lambda>i. the (oc_witnesses o' i)) ids))"

text \<open>The loop of \<open>attest\<close>; every witness answers in the world of its moment.\<close>

fun attest_loop ::
  "(('db, 'c, 'x) world \<Rightarrow> ('db, 'c, 'x) world) \<Rightarrow> string \<Rightarrow> cutover \<Rightarrow> (string \<times> 'x witness) list
   \<Rightarrow> ('db, 'c, 'x) world \<Rightarrow> witness_receipt list result \<times> ('db, 'c, 'x) world" where
  "attest_loop others name co [] w = (Inr [], w)"
| "attest_loop others name co ((i, witness) # ws) w =
     (let w1 = others w in
      (case witness (w_rest w1) name of
        Inl err \<Rightarrow> (Inl (fmt_wrap ''witness cannot vouch'' err), w1)
      | Inr served \<Rightarrow>
          if served \<noteq> co then (Inl (Text ''witness serves another cutover than the live one''), w1)
          else (case attest_loop others name co ws w1 of
            (Inl err, w2) \<Rightarrow> (Inl err, w2)
          | (Inr receipts, w2) \<Rightarrow> (Inr (\<lparr>rc_Witness = i, rc_Cutover = served\<rparr> # receipts), w2))))"

definition attest ::
  "(('db, 'c, 'x) world \<Rightarrow> ('db, 'c, 'x) world) \<Rightarrow> 'x witness list \<Rightarrow> string list \<Rightarrow> string \<Rightarrow> cutover
   \<Rightarrow> ('db, 'c, 'x) world \<Rightarrow> witness_receipt list result \<times> ('db, 'c, 'x) world" where
  "attest others witnesses ids name co w =
     (if ids = [] then (Inr [], w) else attest_loop others name co (zip ids witnesses) w)"

definition reattestReservation ::
  "(uuid \<Rightarrow> string \<Rightarrow> uuid) \<Rightarrow> ('db, 'i, 'g, 'c, 'x, 'p) orchestrator
   \<Rightarrow> (('db, 'c, 'x) world \<Rightarrow> ('db, 'c, 'x) world) \<Rightarrow> projection_id \<Rightarrow> rebuild
   \<Rightarrow> ('db, 'c, 'x) world \<Rightarrow> (witness_receipt list result \<times> rebuild \<times> ('db, 'c, 'x) world) option" where
  "reattestReservation newV5 o' others prev r w =
     (let w1 = others w in
      case hydrateFresh newV5 o' (rb_name r) 0 (w_events w1) of
        None \<Rightarrow> None
      | Some (Inl err) \<Rightarrow>
          Some (Inl (fmt_wrap ''refreshing lifecycle state after the reservation'' err), r, w1)
      | Some (Inr loaded) \<Rightarrow>
     (let r1 = r\<lparr>rb_aggregate := loaded\<rparr>; s = agg_state loaded in
      case checkLifecycleAggregate newV5 loaded (rb_name r) of
        Some err \<Rightarrow> Some (Inl err, r1, w1)
      | None \<Rightarrow>
          if at_Phase (Attempt s) \<noteq> PhaseRetiring \<or> Previous (Attempt s) \<noteq> prev
          then Some (Inl (Text ''cannot retire: the lifecycle advanced past this call's reservation''), r1, w1)
          else let required = RetiringWitnesses (Attempt s) in
          case resolveWitnesses o' required of
            Inl err \<Rightarrow> Some (Inl (fmt_wrap ''cannot retire (the reservation stands)'' err), r1, w1)
          | Inr witnesses \<Rightarrow>
              (case attest others witnesses required (st_Name s)
                  \<lparr>co_Live = Live s, co_Revision = CutoverRevision s\<rparr> w1 of
                 (Inl err, w2) \<Rightarrow> Some (Inl (fmt_wrap ''retirement recheck (the reservation stands)'' err), r1, w2)
               | (Inr receipts, w2) \<Rightarrow> Some (Inr receipts, r1, w2))))"

definition recordRetirement ::
  "('db, 'i, 'g, 'c, 'x, 'p) orchestrator \<Rightarrow> (('db, 'c, 'x) world \<Rightarrow> ('db, 'c, 'x) world)
   \<Rightarrow> projection_id \<Rightarrow> witness_receipt list \<Rightarrow> rebuild \<Rightarrow> ('db, 'c, 'x) world
   \<Rightarrow> go_error option \<times> rebuild \<times> ('db, 'c, 'x) world" where
  "recordRetirement o' others retired receipts r w =
     (case appendLocked o' others [PreviousRetired retired receipts] r w of (err, r1, w1) \<Rightarrow>
        (if err \<noteq> None \<and> SaveOutcome err = AppendOutcomeAppended
         then Some (staleHandleError ''retirement'' (the err)) else err, r1, w1))"

text \<open>
  The membership that must vouch: what the reservation captured on a retry, otherwise the active
  policy's, unless an audited override stands in for it.
\<close>

definition requiredWitnesses :: "state \<Rightarrow> retirement_override \<Rightarrow> string list result" where
  "requiredWitnesses s override =
     (let p = RetirementPolicy s in
      if at_Phase (Attempt s) = PhaseRetiring then
        (if override \<noteq> zero_override
         then Inl (Text ''cannot retire: the retirement is already reserved'')
         else Inr (RetiringWitnesses (Attempt s)))
      else if override \<noteq> zero_override then Inr []
      else if policy_zero p then Inl (Text ''cannot retire: the projection has no retirement policy'')
      else if Unwitnessed p then Inr []
      else Inr (Witnesses p))"

text \<open>The destruction: teardown, then the checkpoint, then the completion's record.\<close>

definition tearDown ::
  "('db, 'i, 'g, 'c, 'x, 'p) orchestrator \<Rightarrow> (('db, 'c, 'x) world \<Rightarrow> ('db, 'c, 'x) world)
   \<Rightarrow> (projection_id \<Rightarrow> 'x \<Rightarrow> go_error option \<times> 'x) \<Rightarrow> projection_id \<Rightarrow> witness_receipt list
   \<Rightarrow> rebuild \<Rightarrow> ('db, 'c, 'x) world \<Rightarrow> go_error option \<times> rebuild \<times> ('db, 'c, 'x) world" where
  "tearDown o' others teardown prev receipts r w =
     (let w1 = others w in
      case teardown prev (w_rest w1) of (terr, x) \<Rightarrow>
     (let w2 = w1\<lparr>w_rest := x\<rparr> in
      case terr of
        Some err \<Rightarrow> (Some (fmt_wrap ''tearing down the previous version'' err), r, w2)
      | None \<Rightarrow>
     (let w3 = others w2 in
      case ck_Delete (oc_Checkpoints o') (w_checkpoints w3) prev of (derr, c) \<Rightarrow>
     (let w4 = w3\<lparr>w_checkpoints := c\<rparr> in
      if derr \<noteq> None \<and> \<not> leavesMatch (the derr) [ErrCheckpointNotFound]
      then (Some (fmt_wrap ''deleting checkpoint for the previous version'' (the derr)), r, w4)
      else recordRetirement o' others prev receipts r w4))))"

text \<open>
  \<open>Retire\<close> after its refold, for an attempt with a previous version: resolve the handler, the
  membership and the witnesses, attest, reserve, attest again, destroy.
\<close>

definition retirePrevious ::
  "(uuid \<Rightarrow> string \<Rightarrow> uuid) \<Rightarrow> ('db, 'i, 'g, 'c, 'x, 'p) orchestrator
   \<Rightarrow> (('db, 'c, 'x) world \<Rightarrow> ('db, 'c, 'x) world) \<Rightarrow> time \<Rightarrow> retirement_override
   \<Rightarrow> rebuild \<Rightarrow> ('db, 'c, 'x) world \<Rightarrow> (go_error option \<times> rebuild \<times> ('db, 'c, 'x) world) option" where
  "retirePrevious newV5 o' others now override r w =
     (let s = agg_state (rb_aggregate r); prev = Previous (Attempt s); w1 = others w in
      case oc_Handler o' prev (w_rest w1) of (handler, x) \<Rightarrow>
     (let w2 = w1\<lparr>w_rest := x\<rparr> in
      case handler of
        Inl err \<Rightarrow> Some (Some (fmt_wrap ''creating handler for the previous version'' err), r, w2)
      | Inr h \<Rightarrow> (case eh_Teardown h of
        None \<Rightarrow> Some (Some (Text ''cannot retire: the handler does not implement projection.Teardowner''), r, w2)
      | Some teardown \<Rightarrow> (case requiredWitnesses s override of
        Inl err \<Rightarrow> Some (Some err, r, w2)
      | Inr required \<Rightarrow> (case resolveWitnesses o' required of
        Inl err \<Rightarrow> Some (Some (fmt_wrap ''cannot retire'' err), r, w2)
      | Inr witnesses \<Rightarrow>
     (case attest others witnesses required (st_Name s)
         \<lparr>co_Live = Live s, co_Revision = CutoverRevision s\<rparr> w2 of
        (Inl err, w3) \<Rightarrow> Some (Some (fmt_wrap ''retirement preflight'' err), r, w3)
      | (Inr receipts, w3) \<Rightarrow>
          if at_Phase (Attempt s) \<noteq> PhasePromoted
          then Some (tearDown o' others teardown prev receipts r w3)
          else case appendLocked o' others [RetireStarted prev (Generation (RetirementPolicy s))
              required receipts override now] r w3 of
            (Some err, r1, w4) \<Rightarrow>
              Some (Some (if SaveOutcome (Some err) = AppendOutcomeAppended
                  then staleHandleError ''retirement start'' err else err), r1, w4)
          | (None, r1, w4) \<Rightarrow> (case reattestReservation newV5 o' others prev r1 w4 of
              None \<Rightarrow> None
            | Some (Inl err, r2, w5) \<Rightarrow> Some (Some err, r2, w5)
            | Some (Inr receipts', r2, w5) \<Rightarrow>
                Some (tearDown o' others teardown prev receipts' r2 w5))))))))"

definition Retire ::
  "(uuid \<Rightarrow> string \<Rightarrow> uuid) \<Rightarrow> ('db, 'i, 'g, 'c, 'x, 'p) orchestrator
   \<Rightarrow> (('db, 'c, 'x) world \<Rightarrow> ('db, 'c, 'x) world) \<Rightarrow> time
   \<Rightarrow> (retire_config \<Rightarrow> retire_config) option list
   \<Rightarrow> rebuild \<Rightarrow> ('db, 'c, 'x) world \<Rightarrow> (go_error option \<times> rebuild \<times> ('db, 'c, 'x) world) option" where
  "Retire newV5 o' others now opts r w =
     (if list_ex Option.is_none opts then Some (Some (Text ''retire option must not be nil''), r, w)
      else let config = fold (\<lambda>opt. the opt) opts \<lparr>rt_override = zero_override, rt_optionErr = None\<rparr> in
      if rt_optionErr config \<noteq> None then Some (rt_optionErr config, r, w)
      else case refoldLocked newV5 o' others r w of
        None \<Rightarrow> None
      | Some (Some err, r1, w1) \<Rightarrow> Some (Some err, r1, w1)
      | Some (None, r1, w1) \<Rightarrow>
     (let s = agg_state (rb_aggregate r1) in
      case at_Phase (Attempt s) of
        PhaseNone \<Rightarrow> Some (Some (Text ''projection has no rebuild in flight''), r1, w1)
      | PhaseUnknown n \<Rightarrow> Some (Some (Text ''cannot retire: rebuild in unknown phase''), r1, w1)
      | phase \<Rightarrow>
          if phase \<noteq> PhasePromoted \<and> phase \<noteq> PhaseRetiring
          then Some (Some (Text (''cannot retire the previous version of a rebuild that is '' @ Phase_String phase)), r1, w1)
          else if Version (Previous (Attempt s)) = 0
          then (if rt_override config \<noteq> zero_override
                then Some (Some (Text ''a first rebuild's completion is not gated: the override does not apply''), r1, w1)
                else Some (recordRetirement o' others (Previous (Attempt s)) [] r1 w1))
          else retirePrevious newV5 o' others now (rt_override config) r1 w1))"

end
