(* ===== verification/HandleProps.thy ===== *)
theory HandleProps
  imports AuthorityProps RebuildCommands "HOL-Library.Sublist"
begin

text \<open>
  The commands of a rebuild handle beside other writers. \<open>lifecycle_world\<close> fixes a projection and
  what everybody else may do: they keep the store valid, never give back positions, and extend the
  projection's stream by clean continuations only. Inside it, every command extends the stream by
  legal events and leaves its handle on a prefix of it, which is what everybody else is assumed to do.
\<close>

lemma at_prefix_mono: "at_prefix newV5 n es k a \<Longrightarrow> prefix es es' \<Longrightarrow> at_prefix newV5 n es' k a"
  by (auto simp: at_prefix_def prefix_def)

lemma at_prefix_state: "at_prefix newV5 n es (length es) a \<Longrightarrow> agg_state a = lifecycle_fold es"
  by (simp add: at_prefix_def)

lemma clean_named: "clean es \<Longrightarrow> es \<noteq> [] \<Longrightarrow> st_Name (lifecycle_fold es) \<noteq> ''''"
proof (induction es rule: rev_induct)
  case (snoc e es)
  then show ?case using clean_snoc [of es e] legal_named by (auto simp: clean_def)
qed simp

lemma checkLifecycleAggregate_prefix:
  assumes "at_prefix newV5 n es k a" "clean es"
  shows "checkLifecycleAggregate newV5 a n = None \<longleftrightarrow> k = 0 \<or> st_Name (agg_state a) = n"
proof -
  have c: "clean (take k es)" using assms(2) by (rule clean_take)
  then have "validate (agg_state a) = None"
    using assms(1) clean_sound sound_validate by (auto simp: at_prefix_def clean_def)
  moreover have "k \<noteq> 0 \<Longrightarrow> st_Name (agg_state a) \<noteq> ''''"
    using clean_named [OF c] assms(1) by (cases "es = []") (simp_all add: at_prefix_def)
  moreover have "k = 0 \<Longrightarrow> st_Name (agg_state a) = ''''"
    using assms(1) by (simp add: at_prefix_def fold_Nil NewState_def)
  ultimately show ?thesis
    using assms(1) by (auto simp: checkLifecycleAggregate_def Let_def at_prefix_def New_id_def)
qed

section \<open>What each command appends is legal\<close>

lemma sound_nowrap:
  assumes "sound s" "CutoverRevision s \<noteq> max_int64"
  shows "wrap64 (CutoverRevision s + 1) = CutoverRevision s + 1" "CutoverRevision s < max_int64"
  using sound_counters [OF assms(1)] assms(2) by auto

lemma legal_Rollback:
  assumes "sound s" "rollbackRefusal s = None"
  shows "\<exists>s'. legal s (RolledBack (Live s) (Previous (Attempt s)) (wrap64 (CutoverRevision s + 1)) w) s'"
proof -
  have "at_Phase (Attempt s) = PhasePromoted" "Previous (Attempt s) \<noteq> zero_pid" "CutoverRevision s \<noteq> max_int64"
    using assms(2) by (auto simp: rollbackRefusal_def split: phase.splits if_splits)
  then show ?thesis using legal.roll_back [of s w] sound_nowrap [OF assms(1)] by auto
qed

lemma legal_Abandon: "abandonRefusal s = None \<Longrightarrow> \<exists>s'. legal s (Abandoned cause) s'"
  using legal.abandon [of s cause] by (auto simp: abandonRefusal_def split: phase.splits)

lemma legal_Promote:
  assumes "sound s" "at_Phase (Attempt s) = PhaseCaughtUp" "CutoverRevision s \<noteq> max_int64"
  shows "\<exists>s'. legal s (Promoted (Live s) (Target (Attempt s)) (wrap64 (CutoverRevision s + 1))
    (Generation (RetirementPolicy s)) w) s'"
  using legal.promote [OF assms(2)] sound_nowrap [OF assms(1,3)] by auto

text \<open>A witness set attested in full, and the members a retirement requires.\<close>

definition vouched :: "string list \<Rightarrow> cutover \<Rightarrow> witness_receipt list" where
  "vouched ids c = map (\<lambda>x. \<lparr>rc_Witness = x, rc_Cutover = c\<rparr>) ids"

abbreviation live_cutover :: "state \<Rightarrow> cutover" where
  "live_cutover s \<equiv> \<lparr>co_Live = Live s, co_Revision = CutoverRevision s\<rparr>"

definition valid_override :: "retirement_override \<Rightarrow> bool" where
  "valid_override ov \<longleftrightarrow> ov = zero_override \<or> ov_Actor ov \<noteq> '''' \<and> ov_Reason ov \<noteq> ''''"

lemma legal_RetireStarted:
  assumes "sound s" "at_Phase (Attempt s) = PhasePromoted" "Version (Previous (Attempt s)) \<noteq> 0"
    and "requiredWitnesses s ov = Inr required" "valid_override ov"
  shows "\<exists>s'. legal s (RetireStarted (Previous (Attempt s)) (Generation (RetirementPolicy s)) required
    (vouched required (live_cutover s)) ov w) s'"
proof -
  have prev: "Previous (Attempt s) \<noteq> zero_pid" using assms(3) by auto
  have "st_Name s \<noteq> ''''" using sound_named assms(1,2) by fastforce
  then have pol: "policy_ok (RetirementPolicy s)" using assms(1) by (simp add: sound_def)
  have "if ov \<noteq> zero_override then ov_Actor ov \<noteq> '''' \<and> ov_Reason ov \<noteq> '''' \<and> required = []
      \<and> vouched required (live_cutover s) = []
    else Generation (RetirementPolicy s) \<noteq> 0 \<and> required = Witnesses (RetirementPolicy s)
      \<and> vouched required (live_cutover s)
         = map (\<lambda>x. \<lparr>rc_Witness = x, rc_Cutover = \<lparr>co_Live = Live s, co_Revision = CutoverRevision s\<rparr>\<rparr>) required"
    using assms(2,4,5) pol
    by (auto simp: requiredWitnesses_def Let_def valid_override_def vouched_def policy_zero_iff
        policy_ok_def split: if_splits)
  then show ?thesis using legal.reserve [OF assms(2) prev] by blast
qed

lemma legal_Retired:
  assumes "at_Phase (Attempt s) = PhaseRetiring" "sound s"
  shows "\<exists>s'. legal s (PreviousRetired (Previous (Attempt s))
    (vouched (RetiringWitnesses (Attempt s)) (live_cutover s))) s'"
proof -
  have "st_Name s \<noteq> ''''" using sound_named assms by fastforce
  then have "attempt_ok s" using assms(2) by (simp add: sound_def)
  then have "Previous (Attempt s) \<noteq> zero_pid" using assms(1) by (auto simp: attempt_ok_def Let_def)
  then show ?thesis using legal.retire [OF assms(1)] by (auto simp: vouched_def)
qed

lemma legal_Concluded:
  assumes "at_Phase (Attempt s) = PhasePromoted" "Version (Previous (Attempt s)) = 0" "sound s"
  shows "\<exists>s'. legal s (PreviousRetired (Previous (Attempt s)) []) s'"
proof -
  have "st_Name s \<noteq> ''''" using sound_named assms by fastforce
  then have "attempt_ok s" using assms(3) by (simp add: sound_def)
  then have "version_of (st_Name s) (Previous (Attempt s)) (Allocated s - 1)"
    using assms(1) by (simp add: attempt_ok_def Let_def)
  then have "Previous (Attempt s) = zero_pid" using assms(2) version_of_zero by blast
  then show ?thesis using legal.conclude [OF assms(1)] by auto
qed

section \<open>The handle in its world\<close>

text \<open>The world shows the clean stream \<open>es\<close>; a handle is on a prefix of it.\<close>

definition shows_stream ::
  "('db \<Rightarrow> bool) \<Rightarrow> ('db \<Rightarrow> typeid \<Rightarrow> (int64 \<times> event list) option) \<Rightarrow> ('db, 'i) lifecycle_store
   \<Rightarrow> (uuid \<Rightarrow> string \<Rightarrow> uuid) \<Rightarrow> string \<Rightarrow> ('db, 'c, 'x) world \<Rightarrow> lifecycle_event list \<Rightarrow> bool" where
  "shows_stream valid view s newV5 n w es \<longleftrightarrow> valid (w_events w)
     \<and> lifecycle_stream view s newV5 n (w_events w) = Some es \<and> clean es"

definition on_prefix ::
  "(uuid \<Rightarrow> string \<Rightarrow> uuid) \<Rightarrow> string \<Rightarrow> lifecycle_event list \<Rightarrow> rebuild \<Rightarrow> bool" where
  "on_prefix newV5 n es r \<longleftrightarrow> rb_name r = n \<and> (\<exists>k. at_prefix newV5 n es k (rb_aggregate r))"

text \<open>
  The moments of a command that has appended \<open>k\<close> times: between its operations everybody else acts,
  and the rest of the world changes. It has room when at each of its first two appends the store
  has positions left.
\<close>

inductive moments ::
  "('db, 'i, 'g, 'c, 'x, 'p) orchestrator \<Rightarrow> (('db, 'c, 'x) world \<Rightarrow> ('db, 'c, 'x) world)
   \<Rightarrow> ('db, 'c, 'x) world \<Rightarrow> nat \<Rightarrow> ('db, 'c, 'x) world \<Rightarrow> bool" for o' others w where
  begins: "moments o' others w 0 w"
| other: "moments o' others w k v \<Longrightarrow> moments o' others w k (others v)"
| rest: "moments o' others w k v \<Longrightarrow> moments o' others w k (v\<lparr>w_rest := x\<rparr>)"
| checkpoint: "moments o' others w k v \<Longrightarrow> moments o' others w k (v\<lparr>w_checkpoints := c\<rparr>)"
| appends: "moments o' others w k v \<Longrightarrow> length (unsavedEvents a) \<le> 2 \<Longrightarrow>
    ES_Save lifecycle_domain (authority o') (w_events v) (Some a) None = (res, a', db) \<Longrightarrow>
    moments o' others w (Suc k) (v\<lparr>w_events := db\<rparr>)"

definition roomy ::
  "('db \<Rightarrow> nat \<Rightarrow> bool) \<Rightarrow> ('db, 'i, 'g, 'c, 'x, 'p) orchestrator
   \<Rightarrow> (('db, 'c, 'x) world \<Rightarrow> ('db, 'c, 'x) world) \<Rightarrow> ('db, 'c, 'x) world \<Rightarrow> bool" where
  "roomy room o' others w \<longleftrightarrow> (\<forall>k v. moments o' others w k v \<longrightarrow> k \<le> 1 \<longrightarrow> room (w_events v) 2)"

text \<open>
  What a command guarantees: the stream goes on cleanly and the handle stays on a prefix of it.
\<close>

definition carried ::
  "(('db, 'c, 'x) world \<Rightarrow> lifecycle_event list \<Rightarrow> bool) \<Rightarrow> (uuid \<Rightarrow> string \<Rightarrow> uuid) \<Rightarrow> string
   \<Rightarrow> lifecycle_event list \<Rightarrow> rebuild \<Rightarrow> ('db, 'c, 'x) world \<Rightarrow> bool" where
  "carried shown newV5 n es r' w' \<longleftrightarrow> (\<exists>es'. shown w' es' \<and> prefix es es' \<and> on_prefix newV5 n es' r')"

text \<open>The recorded outcome of a terminal command: the events the stream had, and the one it gained.\<close>

definition decided_in ::
  "(('db, 'c, 'x) world \<Rightarrow> lifecycle_event list \<Rightarrow> bool) \<Rightarrow> string \<Rightarrow> (state \<Rightarrow> go_error option)
   \<Rightarrow> (state \<Rightarrow> lifecycle_event) \<Rightarrow> lifecycle_event list \<Rightarrow> ('db, 'c, 'x) world \<Rightarrow> bool" where
  "decided_in shown n refusal event es w' \<longleftrightarrow> (\<exists>es'. prefix es es' \<and> st_Name (lifecycle_fold es') = n
     \<and> refusal (lifecycle_fold es') = None \<and> shown w' (es' @ [event (lifecycle_fold es')]))"

locale lifecycle_world =
  lifecycle_authority readStream nxt appendStream view valid room healthy s
  for readStream :: "'db \<Rightarrow> typeid \<Rightarrow> read_stream_options \<Rightarrow> 'i result" and nxt appendStream view
    and valid :: "'db \<Rightarrow> bool" and room healthy and s :: "('db, 'i) lifecycle_store" +
  fixes newV5 :: "uuid \<Rightarrow> string \<Rightarrow> uuid" and n :: string
    and o' :: "('db, 'i, 'g, 'c, 'x, 'p) orchestrator"
    and others :: "('db, 'c, 'x) world \<Rightarrow> ('db, 'c, 'x) world"
  assumes authority: "authority o' = s"
    and others_valid: "valid (w_events w) \<Longrightarrow> valid (w_events (others w))"
    and others_extend: "valid (w_events w) \<Longrightarrow> stream_of s (view (w_events w) (New_id StreamType (StreamUUID newV5 n))) = Some es
      \<Longrightarrow> clean es \<Longrightarrow>
      \<exists>fs. stream_of s (view (w_events (others w)) (New_id StreamType (StreamUUID newV5 n))) = Some (es @ fs) \<and> clean (es @ fs)"
begin

abbreviation displays :: "('db, 'c, 'x) world \<Rightarrow> lifecycle_event list \<Rightarrow> bool" where
  "displays \<equiv> shows_stream valid view s newV5 n"

abbreviation follows :: "lifecycle_event list \<Rightarrow> rebuild \<Rightarrow> bool" where
  "follows \<equiv> on_prefix newV5 n"

lemma follows_mono: "follows es r \<Longrightarrow> prefix es es' \<Longrightarrow> follows es' r"
  unfolding on_prefix_def using at_prefix_mono by blast

lemma displays_others:
  assumes "displays w es"
  obtains es' where "displays (others w) es'" "prefix es es'"
proof -
  obtain fs where "stream newV5 n (w_events (others w)) = Some (es @ fs)" "clean (es @ fs)"
    using others_extend [of w es] assms unfolding shows_stream_def lifecycle_stream_def by blast
  then have "displays (others w) (es @ fs)" using assms others_valid by (simp add: shows_stream_def)
  then show ?thesis using that by simp
qed

lemma displays_update [simp]:
  "displays (w\<lparr>w_rest := x\<rparr>) es = displays w es" "displays (w\<lparr>w_checkpoints := c\<rparr>) es = displays w es"
  by (simp_all add: shows_stream_def)

lemma displays_unique: "displays w es \<Longrightarrow> displays w es' \<Longrightarrow> es = es'"
  by (simp add: shows_stream_def)

lemma refoldLocked_displays:
  assumes "displays w es" "rb_name r = n"
  obtains es' res r1 where "refoldLocked newV5 o' others r w = Some (res, r1, others w)"
    "displays (others w) es'" "prefix es es'"
    "res \<noteq> None \<and> r1 = r \<and> es' = [] \<or>
     r1 = r\<lparr>rb_aggregate := rb_aggregate r1\<rparr> \<and> at_prefix newV5 n es' (length es') (rb_aggregate r1)
       \<and> res = checkLifecycleAggregate newV5 (rb_aggregate r1) n"
proof -
  obtain es' where es': "displays (others w) es'" "prefix es es'" using displays_others [OF assms(1)] by blast
  have "valid (w_events (others w))" "stream newV5 n (w_events (others w)) = Some es'"
    using es'(1) by (simp_all add: shows_stream_def)
  from hydrateFresh_prefix [OF this authority, of 0]
  consider e where "es' = []" "hydrateFresh newV5 o' n 0 (w_events (others w)) = Some (Inl e)"
    | a where "hydrateFresh newV5 o' n 0 (w_events (others w)) = Some (Inr a)"
        "at_prefix newV5 n es' (length es') a"
    by (auto simp: max_int64_def)
  then show ?thesis
  proof cases
    case 1
    then show ?thesis using that [OF _ es'] assms(2) by (simp add: refoldLocked_def)
  next
    case 2
    then show ?thesis using that [OF _ es', of _ "r\<lparr>rb_aggregate := a\<rparr>"] assms(2)
      by (simp add: refoldLocked_def)
  qed
qed

text \<open>
  The effect of an append: it succeeds only from the tip of the stream it meets, and then records
  exactly its events; a failure leaves the handle as it was, and the stream too unless the store
  vouched for neither outcome.
\<close>

lemma appendLocked_displays:
  assumes "displays w es" "rb_name r = n" "at_prefix newV5 n es k (rb_aggregate r)"
    and "evs \<noteq> []" "length evs \<le> 2" "k = length es \<Longrightarrow> clean (es @ evs)"
    and "appendLocked o' others evs r w = (res, r', w')" "room (w_events (others w)) 2"
  obtains es' where "displays (others w) es'" "prefix es es'"
    "w' = (others w)\<lparr>w_events := w_events w'\<rparr>"
    "res = None \<and> k = length es \<and> es' = es \<and> displays w' (es @ evs)
        \<and> r' = r\<lparr>rb_aggregate := rb_aggregate r'\<rparr>
        \<and> at_prefix newV5 n (es @ evs) (length (es @ evs)) (rb_aggregate r')
     \<or> (\<exists>e. res = Some (AppendError (wrap64 (int k + 1)) e)) \<and> r' = r \<and> SaveOutcome res \<noteq> AppendOutcomeAppended
        \<and> (displays w' es' \<or> \<not> healthy \<and> k = length es \<and> es' = es \<and> displays w' (es @ evs))"
proof -
  obtain es' where es': "displays (others w) es'" "prefix es es'" using displays_others [OF assms(1)] by blast
  have at: "at_prefix newV5 n es' k (rb_aggregate r)" by (rule at_prefix_mono [OF assms(3) es'(2)])
  have v: "agg_version (rb_aggregate r) = int k" "unsavedEvents (rb_aggregate r) = []" "k \<le> length es"
    using assms(3) by (simp_all add: at_prefix_def)
  let ?a1 = "Append evs (rb_aggregate r)" and ?db = "w_events (others w)"
  obtain sres saved db where save: "ES_Save lifecycle_domain s ?db (Some ?a1) None = (sres, saved, db)"
    by (metis prod_cases3)
  have db: "w' = (others w)\<lparr>w_events := db\<rparr>"
    using assms(7) save by (auto simp: appendLocked_def authority Let_def split: option.splits)
  have valid: "valid ?db" using es'(1) by (simp add: shows_stream_def)
  note res = save_prefix [OF valid assms(8) _ at assms(4,5) save]
  show ?thesis
  proof (rule that [OF es'], goal_cases)
    case 1
    then show ?case by (simp add: db)
  next
    case 2
    have eff: "valid db \<and> (case sres of
       None \<Rightarrow> k = length es' \<and> stream newV5 n db = Some (es' @ evs)
         \<and> (\<exists>a1. saved = Some a1 \<and> at_prefix newV5 n (es' @ evs) (length (es' @ evs)) a1)
     | Some e \<Rightarrow> saved = Some ?a1 \<and> SaveOutcome sres \<noteq> AppendOutcomeAppended
         \<and> (stream newV5 n db = Some es'
            \<or> \<not> healthy \<and> k = length es' \<and> stream newV5 n db = Some (es' @ evs)))"
      using res es'(1) by (simp add: shows_stream_def)
    have tip: "es' = es" if "k = length es'"
      using that v(3) es'(2) by (auto simp: prefix_def)
    show ?case
    proof (cases sres)
      case None
      then show ?thesis
        using eff tip assms(6,7) save db
        by (auto simp: appendLocked_def authority Let_def shows_stream_def)
    next
      case (Some e)
      have "DiscardUnsavedEvents ?a1 = rb_aggregate r"
        using v(2) by (simp add: DiscardUnsavedEvents_def clearUnsavedEvents_def Append_def AppendWithMetadata_def)
      moreover have "SaveOutcome (Some (AppendError k (fmt_wrap m e))) = SaveOutcome (Some e)" for k m
        by (simp add: outcome_simps fmt_wrap_def)
      ultimately show ?thesis
        using Some eff tip assms(6,7) save db es'(1) v(1)
        by (auto simp: appendLocked_def authority Let_def shows_stream_def)
    qed
  qed
qed

end

end
