(* ===== verification/CommandProps.thy ===== *)
theory CommandProps
  imports HandleProps
begin

text \<open>
  What the commands of a handle do to its projection's stream, inside \<open>lifecycle_world\<close>: every one
  extends it cleanly and leaves the handle on a prefix of it; \<open>Rollback\<close> and \<open>Abandon\<close> are decided in
  the very state they are recorded in; \<open>Retire\<close> destroys only what is reserved.
\<close>

section \<open>A reserved version never serves\<close>

definition doomed :: "projection_id \<Rightarrow> state \<Rightarrow> bool" where
  "doomed r s \<longleftrightarrow> gone r s \<or> r \<noteq> zero_pid \<and> Version r \<le> Allocated s \<and> Live s \<noteq> r
     \<and> Target (Attempt s) \<noteq> r \<and> at_Phase (Attempt s) = PhaseRetiring \<and> Previous (Attempt s) = r"

lemma legal_doomed: "legal s e s' \<Longrightarrow> doomed r s \<Longrightarrow> doomed r s'"
  by (induction rule: legal.induct) (auto simp: doomed_def gone_def zero_attempt_def)

lemma clean_doomed: "clean (es @ fs) \<Longrightarrow> doomed r (lifecycle_fold es) \<Longrightarrow> doomed r (lifecycle_fold (es @ fs))"
proof (induction fs rule: rev_induct)
  case (snoc e fs)
  have "clean ((es @ fs) @ [e])" using snoc.prems(1) by simp
  then show ?case
    using snoc legal_doomed clean_snoc [of "es @ fs" e] clean_append [of "es @ fs" "[e]"]
    by (fastforce simp: clean_def)
qed simp

lemma doomed_not_live: "doomed r s \<Longrightarrow> Live s \<noteq> r"
  by (auto simp: doomed_def gone_def)

lemma retiring_doomed:
  assumes "sound s" "at_Phase (Attempt s) = PhaseRetiring"
  shows "doomed (Previous (Attempt s)) s"
proof -
  have "st_Name s \<noteq> ''''" using sound_named assms by fastforce
  then have "attempt_ok s" using assms(1) by (simp add: sound_def)
  then have "version_of (st_Name s) (Previous (Attempt s)) (Allocated s - 1)" "Live s = Target (Attempt s)"
      "Version (Target (Attempt s)) = Allocated s" "Previous (Attempt s) \<noteq> zero_pid"
    using assms(2) by (simp_all add: attempt_ok_def Let_def)
  then show ?thesis using assms(2) by (auto simp: doomed_def version_of_def)
qed

text \<open>A stream on which the retirement of \<open>r\<close> was reserved, at some prefix, by receipts in full.\<close>

definition reserved :: "projection_id \<Rightarrow> lifecycle_event list \<Rightarrow> bool" where
  "reserved r es \<longleftrightarrow> clean es \<and> (\<exists>k. at_Phase (Attempt (lifecycle_fold (take k es))) = PhaseRetiring
     \<and> Previous (Attempt (lifecycle_fold (take k es))) = r)"

lemma reserved_never_live:
  assumes "reserved r es" "clean (es @ fs)"
  shows "doomed r (lifecycle_fold (es @ fs)) \<and> Live (lifecycle_fold (es @ fs)) \<noteq> r"
proof -
  obtain k where k: "at_Phase (Attempt (lifecycle_fold (take k es))) = PhaseRetiring"
      "Previous (Attempt (lifecycle_fold (take k es))) = r" "clean (take k es)"
    using assms(1) clean_take by (auto simp: reserved_def)
  then have "doomed r (lifecycle_fold (take k es))"
    using retiring_doomed clean_sound by (force simp: clean_def)
  moreover have "clean (take k es @ drop k es @ fs)" using assms(2) by (simp flip: append_assoc)
  ultimately have "doomed r (lifecycle_fold (take k es @ drop k es @ fs))" by (rule clean_doomed [rotated])
  then have "doomed r (lifecycle_fold (es @ fs))" by (simp flip: append_assoc)
  then show ?thesis using doomed_not_live by blast
qed

lemma reserved_mono: "reserved r es \<Longrightarrow> prefix es es' \<Longrightarrow> clean es' \<Longrightarrow> reserved r es'"
proof -
  assume r: "reserved r es" and p: "prefix es es'" "clean es'"
  obtain k where "at_Phase (Attempt (lifecycle_fold (take k es))) = PhaseRetiring"
      "Previous (Attempt (lifecycle_fold (take k es))) = r" using r by (auto simp: reserved_def)
  moreover have "take k es = take (min k (length es)) es'" using p(1) by (auto simp: prefix_def min_def)
  ultimately show "reserved r es'" using p(2) unfolding reserved_def by metis
qed

section \<open>Commands that append once\<close>

text \<open>The bookkeeping that leaves a handle's name and aggregate alone.\<close>

lemma handle_frame:
  "rb_name (pauseRetries r) = rb_name r" "rb_aggregate (pauseRetries r) = rb_aggregate r"
  "rb_name (resumeRetries r) = rb_name r" "rb_aggregate (resumeRetries r) = rb_aggregate r"
  "rb_name (snd (endRun i r)) = rb_name r" "rb_aggregate (snd (endRun i r)) = rb_aggregate r"
  "rb_name (snd (awaitProcessorStop aw r)) = rb_name r"
  "rb_aggregate (snd (awaitProcessorStop aw r)) = rb_aggregate r"
  by (auto simp: pauseRetries_def resumeRetries_def endRun_def awaitProcessorStop_def processorReturns_def claimReturn_def
      publishProcessorExit_def Let_def split: sum.splits)

lemma inflight_refusals:
  "rollbackRefusal s = None \<Longrightarrow> at_Phase (Attempt s) = PhasePromoted"
  "abandonRefusal s = None \<Longrightarrow> at_Phase (Attempt s) \<in> {PhaseCreated, PhaseBuilding, PhaseCaughtUp}"
  by (auto simp: rollbackRefusal_def abandonRefusal_def split: phase.splits if_splits)

context lifecycle_world begin

lemma follows_frame: "rb_name r' = rb_name r \<Longrightarrow> rb_aggregate r' = rb_aggregate r \<Longrightarrow> follows es r' = follows es r"
  by (simp add: on_prefix_def)

lemma at_prefix_follows: "rb_name r = n \<Longrightarrow> at_prefix newV5 n es k (rb_aggregate r) \<Longrightarrow> follows es r"
  by (auto simp: on_prefix_def)

abbreviation keeps :: "lifecycle_event list \<Rightarrow> rebuild \<Rightarrow> ('db, 'c, 'x) world \<Rightarrow> bool" where
  "keeps \<equiv> carried displays newV5 n"

lemma appendLocked_run:
  "appendLocked o' others evs r w = (res, r', w') \<Longrightarrow> runAttempt r' = runAttempt r"
  by (auto simp: appendLocked_def Let_def split: prod.splits option.splits)

lemma keepsI: "displays w' es' \<Longrightarrow> prefix es es' \<Longrightarrow> follows es' r' \<Longrightarrow> keeps es r' w'"
  by (auto simp: carried_def)

lemma appendLocked_keeps:
  assumes "displays w es" "rb_name r = n" "at_prefix newV5 n es k (rb_aggregate r)"
    and "evs \<noteq> []" "length evs \<le> 2" "k = length es \<Longrightarrow> clean (es @ evs)"
    and "appendLocked o' others evs r w = (res, r', w')" "room (w_events (others w)) 2"
  shows "keeps es r' w' \<and> (res \<noteq> None \<longrightarrow> SaveOutcome res \<noteq> AppendOutcomeAppended)
    \<and> (res = None \<longrightarrow> k = length es \<and> displays (others w) es \<and> displays w' (es @ evs))"
proof -
  obtain es' where es': "displays (others w) es'" "prefix es es'"
    and "res = None \<and> k = length es \<and> es' = es \<and> displays w' (es @ evs)
        \<and> r' = r\<lparr>rb_aggregate := rb_aggregate r'\<rparr>
        \<and> at_prefix newV5 n (es @ evs) (length (es @ evs)) (rb_aggregate r')
     \<or> (\<exists>e. res = Some (AppendError (wrap64 (int k + 1)) e)) \<and> r' = r \<and> SaveOutcome res \<noteq> AppendOutcomeAppended
        \<and> (displays w' es' \<or> \<not> healthy \<and> k = length es \<and> es' = es \<and> displays w' (es @ evs))"
    by (rule appendLocked_displays [OF assms])
  then consider "res = None" "k = length es" "es' = es" "displays w' (es @ evs)"
      "r' = r\<lparr>rb_aggregate := rb_aggregate r'\<rparr>" "at_prefix newV5 n (es @ evs) (length (es @ evs)) (rb_aggregate r')"
    | "res \<noteq> None" "r' = r" "SaveOutcome res \<noteq> AppendOutcomeAppended" "displays w' es' \<or> displays w' (es @ evs)"
    by blast
  then show ?thesis
  proof cases
    case 1
    have "rb_name r' = n" using 1(5) assms(2) by (metis rebuild.select_convs(1) rebuild.surjective rebuild.update_convs(2))
    then have "follows (es @ evs) r'" using 1(6) by (rule at_prefix_follows)
    then have "keeps es r' w'" by (rule keepsI [OF 1(4)  prefixI [OF refl]])
    then show ?thesis using 1 es' by simp
  next
    case 2
    have "follows es r" using assms(2,3) by (rule at_prefix_follows)
    then show ?thesis using 2 es' follows_mono by (auto intro: keepsI)
  qed
qed

lemma Promote_keeps:
  assumes "displays w es" "follows es r" "Promote newV5 o' others now r w = (res, r', w')" "room (w_events (others w)) 2"
  shows "keeps es r' w' \<and> (res = None \<longrightarrow> at_prefix newV5 n es (length es) (rb_aggregate r)
    \<and> at_Phase (Attempt (lifecycle_fold es)) = PhaseCaughtUp \<and> certificate_refusal r = None
    \<and> displays w' (es @ [Promoted (Live (lifecycle_fold es)) (Target (Attempt (lifecycle_fold es)))
         (CutoverRevision (lifecycle_fold es) + 1) (Generation (RetirementPolicy (lifecycle_fold es))) now]))"
proof -
  have name: "rb_name r = n" using assms(2) by (simp add: on_prefix_def)
  obtain k where k: "at_prefix newV5 n es k (rb_aggregate r)" using assms(2) by (auto simp: on_prefix_def)
  let ?s = "agg_state (rb_aggregate r)"
  let ?e = "Promoted (Live ?s) (Target (Attempt ?s)) (wrap64 (CutoverRevision ?s + 1)) (Generation (RetirementPolicy ?s)) now"
  show ?thesis
  proof (cases "at_Phase (Attempt ?s) = PhaseCaughtUp \<and> certificate_refusal r = None
      \<and> CutoverRevision ?s \<noteq> max_int64 \<and> checkLifecycleAggregate newV5 (rb_aggregate r) (rb_name r) = None")
    case True
    obtain res1 r1 w1 where app: "appendLocked o' others [?e] r w = (res1, r1, w1)" by (metis prod_cases3)
    have w1: "w1 = w'" and agg: "rb_aggregate r' = rb_aggregate r1" "rb_name r' = rb_name r1" "res = None \<longleftrightarrow> res1 = None"
      using assms(3) True app by (auto simp: Promote_def Let_def split: option.splits)
    have fold: "?s = lifecycle_fold es" if "k = length es" using k that by (simp add: at_prefix_def)
    have snd: "sound (lifecycle_fold es)" using assms(1) clean_sound by (simp add: shows_stream_def clean_def)
    have "clean (es @ [?e])" if "k = length es"
      using legal_Promote [OF snd] True clean_extend assms(1) unfolding fold [OF that] by (auto simp: shows_stream_def)
    then have "keeps es r1 w1 \<and> (res1 = None \<longrightarrow> k = length es \<and> displays w1 (es @ [?e]))"
      using appendLocked_keeps [OF assms(1) name k _ _ _ app] assms(4) w1 by auto
    then show ?thesis
      using True k fold snd sound_nowrap [OF snd] w1 agg follows_frame [OF agg(2,1)]
      by (auto simp: carried_def)
  next
    case False
    then have "w' = w \<and> rb_aggregate r' = rb_aggregate r \<and> rb_name r' = rb_name r \<and> res \<noteq> None"
    proof (cases "checkLifecycleAggregate newV5 (rb_aggregate r) (rb_name r)")
      case None
      then show ?thesis
        using assms(3) False by (auto simp: Promote_def Let_def split: option.splits phase.splits if_splits prod.splits)
    next
      case (Some c)
      then have "res = Some c" "r' = r" "w' = w" using assms(3) by (simp_all add: Promote_def)
      then show ?thesis by simp
    qed
    then have "follows es r'" "w' = w" "res \<noteq> None" using assms(2) by (simp_all add: on_prefix_def)
    then show ?thesis using keepsI [OF assms(1) prefix_order.refl] by auto
  qed
qed

text \<open>
  A terminal command: \<open>event\<close> must be legal wherever \<open>refusal\<close> lets it pass. A recorded one was
  decided in the very state it is recorded in.
\<close>

lemma recordTerminal_keeps:
  assumes "displays w es" "follows es r"
    and "recordTerminal newV5 o' others refusal event r w = Some (res, r', w')"
    and "room (w_events (others (others w))) 2"
    and legal: "\<And>s. sound s \<Longrightarrow> refusal s = None \<Longrightarrow> \<exists>s'. legal s (event s) s'"
    and inflight: "\<And>s. refusal s = None \<Longrightarrow> at_Phase (Attempt s) \<noteq> PhaseNone"
  shows "keeps es r' w' \<and> (case res of Inl e \<Rightarrow> True | Inr (appendErr, ended) \<Rightarrow> appendErr = None
    \<and> (\<exists>es'. prefix es es' \<and> displays (others w) es' \<and> displays (others (others w)) es'
         \<and> st_Name (lifecycle_fold es') = n \<and> refusal (lifecycle_fold es') = None
         \<and> displays w' (es' @ [event (lifecycle_fold es')])
         \<and> ended = (at_ID (Attempt (lifecycle_fold es')) = runAttempt r)))"
proof -
  have name: "rb_name r = n" using assms(2) by (simp add: on_prefix_def)
  obtain es' res0 r1 where refold: "refoldLocked newV5 o' others r w = Some (res0, r1, others w)"
      "displays (others w) es'" "prefix es es'"
    and r1: "res0 \<noteq> None \<and> r1 = r \<and> es' = [] \<or>
     r1 = r\<lparr>rb_aggregate := rb_aggregate r1\<rparr> \<and> at_prefix newV5 n es' (length es') (rb_aggregate r1)
       \<and> res0 = checkLifecycleAggregate newV5 (rb_aggregate r1) n"
    by (rule refoldLocked_displays [OF assms(1) name])
  have r1n: "rb_name r1 = n \<and> runAttempt r1 = runAttempt r"
    using r1 name by (metis rebuild.select_convs(1,6) rebuild.surjective rebuild.update_convs(2))
  have f1: "follows es' r1"
  proof (cases "r1 = r")
    case True
    then show ?thesis using follows_mono [OF assms(2) refold(3)] by simp
  next
    case False
    then show ?thesis using r1 at_prefix_follows [OF conjunct1 [OF r1n]] by blast
  qed
  let ?s = "agg_state (rb_aggregate r1)"
  show ?thesis
  proof (cases "res0 = None \<and> refusal ?s = None")
    case False
    then have "w' = others w \<and> r' = r1 \<and> isl res"
      using assms(3) refold(1) by (auto simp: recordTerminal_def Let_def split: option.splits)
    then show ?thesis using f1 refold(2,3) by (auto intro: keepsI split: sum.splits)
  next
    case True
    then have at: "at_prefix newV5 n es' (length es') (rb_aggregate r1)"
      and chk: "checkLifecycleAggregate newV5 (rb_aggregate r1) n = None" using r1 by auto
    have fold: "?s = lifecycle_fold es'" using at by (rule at_prefix_state)
    have snd: "sound (lifecycle_fold es')" using refold(2) clean_sound by (simp add: shows_stream_def clean_def)
    obtain appErr r2 w2 where app: "appendLocked o' others [event ?s] r1 (others w) = (appErr, r2, w2)"
      by (metis prod_cases3)
    have w2: "w2 = w'"
      using assms(3) refold(1) True app by (auto simp: recordTerminal_def Let_def split: if_splits prod.splits)
    have "clean (es' @ [event ?s])"
      using legal [OF snd] True clean_extend refold(2) unfolding fold by (auto simp: shows_stream_def)
    note app' = appendLocked_keeps [OF refold(2) conjunct1 [OF r1n] at _ _ this app [unfolded w2] assms(4)]
    show ?thesis
    proof (cases appErr)
      case None
      have res: "res = Inr (None, at_ID (Attempt ?s) = runAttempt r)" "r' = snd (endRun (at_ID (Attempt ?s)) r2)"
        using assms(3) refold(1) True app None r1n appendLocked_run [OF app]
        by (auto simp: recordTerminal_def Let_def endRun_def split: prod.splits if_splits)
      have "es' \<noteq> []" using inflight [of ?s] True fold by (auto simp: fold_Nil NewState_def zero_attempt_def)
      moreover have "clean es'" using refold(2) by (simp add: shows_stream_def)
      ultimately have named: "st_Name (lifecycle_fold es') = n"
        using checkLifecycleAggregate_prefix [OF at] chk fold by simp
      have k: "keeps es' r2 w'" "displays (others (others w)) es'" "displays w' (es' @ [event ?s])"
        using app' None by simp_all
      have "keeps es r' w'"
        using k(1) refold(3) follows_frame [OF handle_frame(5,6)] unfolding carried_def res(2)
        by (metis prefix_order.trans)
      then show ?thesis
        using res(1) k(2,3) refold(2,3) named True unfolding fold by auto
    next
      case (Some e)
      then have "res = Inl e \<and> r' = r2"
        using assms(3) refold(1) True app app' by (auto simp: recordTerminal_def Let_def)
      then show ?thesis using app' refold(3) by (auto simp: carried_def)
    qed
  qed
qed

abbreviation decided ::
  "(state \<Rightarrow> go_error option) \<Rightarrow> (state \<Rightarrow> lifecycle_event) \<Rightarrow> lifecycle_event list
   \<Rightarrow> ('db, 'c, 'x) world \<Rightarrow> bool" where
  "decided \<equiv> decided_in displays n"

lemma follows_pause: "follows es (pauseRetries r) = follows es r"
  by (rule follows_frame [OF handle_frame(1,2)])

lemma keeps_bookkeeping:
  "keeps es (resumeRetries r) w = keeps es r w"
  "keeps es (snd (awaitProcessorStop aw r)) w = keeps es r w"
  unfolding carried_def by (simp_all add: follows_frame [OF handle_frame(3,4)] follows_frame [OF handle_frame(7,8)])

lemma Rollback_keeps:
  assumes "displays w es" "follows es r"
    and "Rollback newV5 o' others now aw r w = Some (res, r', w')"
    and "room (w_events (others (others w))) 2"
  shows "keeps es r' w' \<and> (res = None \<longrightarrow> decided rollbackRefusal
    (\<lambda>s. RolledBack (Live s) (Previous (Attempt s)) (wrap64 (CutoverRevision s + 1)) now) es w')"
proof -
  let ?e = "\<lambda>s. RolledBack (Live s) (Previous (Attempt s)) (wrap64 (CutoverRevision s + 1)) now"
  obtain rt r1 where rt: "recordTerminal newV5 o' others rollbackRefusal ?e (pauseRetries r) w = Some (rt, r1, w')"
    and r': "r' = (case rt of Inl e \<Rightarrow> resumeRetries r1 | Inr (ae, ended) \<Rightarrow>
        resumeRetries (if ended then snd (awaitProcessorStop aw r1) else r1))"
      "isl rt \<Longrightarrow> res \<noteq> None"
    using assms(3) by (auto simp: Rollback_def split: option.splits sum.splits prod.splits if_splits)
  have fp: "follows es (pauseRetries r)" using assms(2) by (simp add: follows_pause)
  have inflight: "at_Phase (Attempt t) \<noteq> PhaseNone" if "rollbackRefusal t = None" for t
    using inflight_refusals(1) [OF that] by simp
  have "keeps es r1 w' \<and> (\<not> isl rt \<longrightarrow> decided rollbackRefusal ?e es w')"
    using recordTerminal_keeps [OF assms(1) fp rt assms(4)] legal_Rollback inflight
    unfolding decided_in_def by (auto split: sum.splits)
  then show ?thesis using r' by (auto simp: keeps_bookkeeping split: sum.splits)
qed

lemma Abandon_keeps:
  assumes "displays w es" "follows es r"
    and "Abandon newV5 o' others cause aw r w = Some (res, r', w')"
    and "room (w_events (others (others w))) 2"
  shows "keeps es r' w' \<and> (res = None \<longrightarrow> decided abandonRefusal (\<lambda>s. Abandoned cause) es w')"
proof -
  obtain rt r1 where rt: "recordTerminal newV5 o' others abandonRefusal (\<lambda>s. Abandoned cause) (pauseRetries r) w
      = Some (rt, r1, w')"
    and r': "r' = (case rt of Inl e \<Rightarrow> resumeRetries r1 | Inr (ae, ended) \<Rightarrow>
        resumeRetries (if ended then snd (awaitProcessorStop aw r1) else r1))"
      "isl rt \<Longrightarrow> res \<noteq> None"
    using assms(3) by (auto simp: Abandon_def Let_def split: option.splits sum.splits prod.splits if_splits)
  have fp: "follows es (pauseRetries r)" using assms(2) by (simp add: follows_pause)
  have inflight: "at_Phase (Attempt t) \<noteq> PhaseNone" if "abandonRefusal t = None" for t
    using inflight_refusals(2) [OF that] by auto
  have "keeps es r1 w' \<and> (\<not> isl rt \<longrightarrow> decided abandonRefusal (\<lambda>s. Abandoned cause) es w')"
    using recordTerminal_keeps [OF assms(1) fp rt assms(4)] legal_Abandon inflight
    unfolding decided_in_def by (auto split: sum.splits)
  then show ?thesis using r' by (auto simp: keeps_bookkeeping split: sum.splits)
qed

text \<open>Every read of a displayed stream ends, so the commands return.\<close>

lemma recordTerminal_returns:
  assumes "displays w es" "rb_name r = n"
  shows "recordTerminal newV5 o' others refusal event r w \<noteq> None"
proof -
  obtain res0 r1 where "refoldLocked newV5 o' others r w = Some (res0, r1, others w)"
    by (rule refoldLocked_displays [OF assms])
  then show ?thesis by (auto simp: recordTerminal_def Let_def split: option.splits prod.splits if_splits)
qed

lemma commands_return:
  assumes "displays w es" "follows es r"
  shows "\<exists>res r' w'. Rollback newV5 o' others now aw r w = Some (res, r', w')"
    and "\<exists>res r' w'. Abandon newV5 o' others cause aw r w = Some (res, r', w')"
proof -
  have "rb_name (pauseRetries r) = n" using assms(2) by (simp add: on_prefix_def handle_frame)
  note total = recordTerminal_returns [OF assms(1) this]
  have "Rollback newV5 o' others now aw r w \<noteq> None" "Abandon newV5 o' others cause aw r w \<noteq> None"
    using total by (auto simp: Rollback_def Abandon_def Let_def split: option.splits sum.splits prod.splits)
  then show "\<exists>res r' w'. Rollback newV5 o' others now aw r w = Some (res, r', w')"
    "\<exists>res r' w'. Abandon newV5 o' others cause aw r w = Some (res, r', w')" by auto
qed

end

end
