(* ===== verification/RetireProps.thy ===== *)
theory RetireProps
  imports CommandProps
begin

text \<open>
  \<open>Retire\<close> beside other writers: everything it destroys was reserved on the stream first, by a
  membership every member of which vouched for the live cutover, and never serves again.
\<close>

section \<open>Moments that destroy nothing\<close>

text \<open>
  The moments of a command: what everybody else does, the handler factory's work, and appends to
  the lifecycle store. None of them tears a version down or deletes a checkpoint.
\<close>

inductive passes ::
  "('db, 'i, 'g, 'c, 'x, 'p) orchestrator \<Rightarrow> (('db, 'c, 'x) world \<Rightarrow> ('db, 'c, 'x) world)
   \<Rightarrow> ('db, 'c, 'x) world \<Rightarrow> ('db, 'c, 'x) world \<Rightarrow> bool" for o' others where
  start: "passes o' others w w"
| other: "passes o' others w w' \<Longrightarrow> passes o' others w (others w')"
| factory: "passes o' others w w' \<Longrightarrow> passes o' others w (w'\<lparr>w_rest := snd (oc_Handler o' i (w_rest w'))\<rparr>)"
| append: "passes o' others w w' \<Longrightarrow> length (unsavedEvents a) \<le> 2 \<Longrightarrow>
    ES_Save lifecycle_domain (authority o') (w_events w') (Some a) None = (res, a', db) \<Longrightarrow>
    passes o' others w (w'\<lparr>w_events := db\<rparr>)"

lemma passes_trans: "passes o' others w2 w3 \<Longrightarrow> passes o' others w1 w2 \<Longrightarrow> passes o' others w1 w3"
  by (induction rule: passes.induct) (auto intro: passes.intros)

text \<open>Every member of \<open>ids\<close> is registered and vouched for \<open>co\<close>, at a moment between \<open>w\<close> and \<open>w'\<close>.\<close>

definition attested ::
  "('db, 'i, 'g, 'c, 'x, 'p) orchestrator \<Rightarrow> (('db, 'c, 'x) world \<Rightarrow> ('db, 'c, 'x) world)
   \<Rightarrow> string list \<Rightarrow> string \<Rightarrow> cutover \<Rightarrow> ('db, 'c, 'x) world \<Rightarrow> ('db, 'c, 'x) world \<Rightarrow> bool" where
  "attested o' others ids n co w w' \<longleftrightarrow> (\<forall>i \<in> set ids. \<exists>wit v. oc_witnesses o' i = Some wit
     \<and> passes o' others w v \<and> passes o' others v w' \<and> wit (w_rest v) n = Inr co)"

lemma attested_widen:
  "attested o' others ids n co w w' \<Longrightarrow> passes o' others w0 w \<Longrightarrow> passes o' others w' w1
   \<Longrightarrow> attested o' others ids n co w0 w1"
  unfolding attested_def by (meson passes_trans)

text \<open>\<open>teardown\<close> is the one of the handler that the factory returned for version \<open>i\<close>, between \<open>w\<close> and \<open>w'\<close>.\<close>

definition furnished ::
  "('db, 'i, 'g, 'c, 'x, 'p) orchestrator \<Rightarrow> (('db, 'c, 'x) world \<Rightarrow> ('db, 'c, 'x) world)
   \<Rightarrow> projection_id \<Rightarrow> (projection_id \<Rightarrow> 'x \<Rightarrow> go_error option \<times> 'x)
   \<Rightarrow> ('db, 'c, 'x) world \<Rightarrow> ('db, 'c, 'x) world \<Rightarrow> bool" where
  "furnished o' others i teardown w w' \<longleftrightarrow> (\<exists>v h x. passes o' others w v \<and> oc_Handler o' i (w_rest v) = (Inr h, x)
     \<and> eh_Teardown h = Some teardown \<and> passes o' others (v\<lparr>w_rest := x\<rparr>) w')"

lemma furnished_widen:
  "furnished o' others i teardown w w' \<Longrightarrow> passes o' others w0 w \<Longrightarrow> passes o' others w' w1
   \<Longrightarrow> furnished o' others i teardown w0 w1"
  unfolding furnished_def by (meson passes_trans)

text \<open>
  What destroying version \<open>i\<close> from \<open>w\<close> on does to the world: \<open>teardown\<close> is run for \<open>i\<close>, once; only if it
  reports no error, the checkpoint of \<open>i\<close> is deleted, once; and only if that left none, what follows
  destroys nothing more. A destruction that stopped early reports an error.
\<close>

definition destroyed ::
  "('db, 'i, 'g, 'c, 'x, 'p) orchestrator \<Rightarrow> (('db, 'c, 'x) world \<Rightarrow> ('db, 'c, 'x) world)
   \<Rightarrow> (projection_id \<Rightarrow> 'x \<Rightarrow> go_error option \<times> 'x) \<Rightarrow> projection_id
   \<Rightarrow> ('db, 'c, 'x) world \<Rightarrow> go_error option \<Rightarrow> ('db, 'c, 'x) world \<Rightarrow> bool" where
  "destroyed o' others teardown i w res w' \<longleftrightarrow> (case teardown i (w_rest (others w)) of (terr, x) \<Rightarrow>
     let w2 = (others w)\<lparr>w_rest := x\<rparr> in
     if terr \<noteq> None then res \<noteq> None \<and> w' = w2
     else (case ck_Delete (oc_Checkpoints o') (w_checkpoints (others w2)) i of (derr, c) \<Rightarrow>
       let w4 = (others w2)\<lparr>w_checkpoints := c\<rparr> in
       if derr \<noteq> None \<and> \<not> leavesMatch (the derr) [ErrCheckpointNotFound] then res \<noteq> None \<and> w' = w4
       else passes o' others w4 w'))"

section \<open>Attestation\<close>

lemma attest_loop_passes: "attest_loop others name co ws w = (r, w') \<Longrightarrow> passes o' others w w'"
proof (induction others name co ws w arbitrary: r w' rule: attest_loop.induct)
  case (2 others name co i witness ws w)
  have one: "passes o' others w (others w)" by (intro passes.intros)
  show ?case
  proof (cases "\<exists>served. witness (w_rest (others w)) name = Inr served \<and> served = co")
    case True
    obtain r1 w1 where rec: "attest_loop others name co ws (others w) = (r1, w1)" by fastforce
    have "passes o' others (others w) w1" using 2 True rec by auto
    moreover have "w' = w1" using 2(2) True rec by (auto split: sum.splits)
    ultimately show ?thesis using passes_trans one by blast
  next
    case False
    then have "w' = others w" using 2(2) by (auto simp: Let_def split: sum.splits if_splits)
    then show ?thesis using one by simp
  qed
qed (auto intro: passes.intros)

lemma attest_loop_vouched:
  assumes "attest_loop others name co (zip ids wits) w = (Inr receipts, w')" "length wits = length ids"
    and "\<forall>i < length ids. oc_witnesses o' (ids ! i) = Some (wits ! i)"
  shows "receipts = vouched ids co \<and> attested o' others ids name co w w'"
  using assms(2,1,3)
proof (induction wits ids arbitrary: w receipts rule: list_induct2)
  case Nil
  then show ?case by (simp add: vouched_def attested_def)
next
  case (Cons wit wits i ids)
  obtain rs where rs: "wit (w_rest (others w)) name = Inr co" "receipts = \<lparr>rc_Witness = i, rc_Cutover = co\<rparr> # rs"
      "attest_loop others name co (zip ids wits) (others w) = (Inr rs, w')"
    using Cons.prems(1) by (auto simp: Let_def split: sum.splits if_splits prod.splits)
  have ok: "\<forall>i < length ids. oc_witnesses o' (ids ! i) = Some (wits ! i)" "oc_witnesses o' i = Some wit"
    using Cons.prems(2) by auto
  have ih: "rs = vouched ids co \<and> attested o' others ids name co (others w) w'"
    using Cons.IH [OF rs(3) ok(1)] .
  have w: "passes o' others w (others w)" "passes o' others (others w) w'" "passes o' others w' w'"
    using attest_loop_passes [OF rs(3)] by (auto intro: passes.intros)
  have "attested o' others ids name co w w'" using attested_widen [OF conjunct2 [OF ih] w(1,3)] .
  then show ?case using ih rs ok(2) w by (auto simp: attested_def vouched_def)
qed

lemma attest_vouched:
  assumes "resolveWitnesses o' ids = Inr wits" "attest others wits ids name co w = (res, w')"
  shows "passes o' others w w' \<and> (\<forall>receipts. res = Inr receipts \<longrightarrow>
    receipts = vouched ids co \<and> attested o' others ids name co w w')"
proof (cases "ids = []")
  case True
  then show ?thesis using assms(2) by (auto simp: attest_def vouched_def attested_def intro: passes.intros)
next
  case False
  have "wits = map (\<lambda>i. the (oc_witnesses o' i)) ids" "\<forall>i \<in> set ids. oc_witnesses o' i \<noteq> None"
    using assms(1) by (auto simp: resolveWitnesses_def list_ex_iff split: if_splits)
  then have "length wits = length ids" "\<forall>i < length ids. oc_witnesses o' (ids ! i) = Some (wits ! i)" by auto
  moreover have "attest_loop others name co (zip ids wits) w = (res, w')"
    using assms(2) False by (simp add: attest_def)
  ultimately show ?thesis using attest_loop_passes attest_loop_vouched by blast
qed

text \<open>
  The destruction of a version: at a moment \<open>wD\<close> of the command, reached without destroying
  anything, the handle stands on a prefix of the displayed stream where the version's retirement is
  reserved, every captured witness has vouched for the cutover that is live there, and the version's
  own handler has furnished the teardown that destroys it.
\<close>

definition reserved_destruction ::
  "(('db, 'c, 'x) world \<Rightarrow> lifecycle_event list \<Rightarrow> bool) \<Rightarrow> (uuid \<Rightarrow> string \<Rightarrow> uuid) \<Rightarrow> string
   \<Rightarrow> ('db, 'i, 'g, 'c, 'x, 'p) orchestrator \<Rightarrow> (('db, 'c, 'x) world \<Rightarrow> ('db, 'c, 'x) world)
   \<Rightarrow> ('db, 'c, 'x) world \<Rightarrow> lifecycle_event list
   \<Rightarrow> go_error option \<times> rebuild \<times> ('db, 'c, 'x) world \<Rightarrow> bool" where
  "reserved_destruction shown newV5 n o' others w es out \<longleftrightarrow> (\<exists>teardown (rD :: rebuild) wD esD k.
     passes o' others w wD \<and> shown wD esD \<and> prefix es esD
     \<and> rb_name rD = n \<and> at_prefix newV5 n esD k (rb_aggregate rD)
     \<and> (let st = agg_state (rb_aggregate rD); ids = RetiringWitnesses (Attempt st); prev = Previous (Attempt st) in
          at_Phase (Attempt st) = PhaseRetiring \<and> furnished o' others prev teardown w wD
          \<and> attested o' others ids n (live_cutover st) w wD
          \<and> destroyed o' others teardown prev wD (fst out) (snd (snd out))
          \<and> (fst out = None \<longrightarrow> (\<exists>es'. prefix esD es'
              \<and> shown (snd (snd out)) (es' @ [PreviousRetired prev (vouched ids (live_cutover st))])))))"

lemma overrides_valid:
  assumes "\<forall>opt \<in> set opts. \<exists>actor reason. opt = Some (WithRetirementOverride actor reason)"
  shows "valid_override (rt_override (fold (\<lambda>opt. the opt) opts \<lparr>rt_override = zero_override, rt_optionErr = None\<rparr>))"
proof -
  have "valid_override (rt_override c) \<Longrightarrow> valid_override (rt_override (fold (\<lambda>opt. the opt) opts c))" for c
    using assms
  proof (induction opts arbitrary: c)
    case (Cons opt opts)
    obtain actor reason where "opt = Some (WithRetirementOverride actor reason)" using Cons.prems(2) by auto
    then have "valid_override (rt_override (the opt c))"
      using Cons.prems(1) by (auto simp: WithRetirementOverride_def valid_override_def)
    then show ?case using Cons by simp
  qed simp
  then show ?thesis by (simp add: valid_override_def)
qed

lemma retiring_version:
  assumes "sound st" "at_Phase (Attempt st) = PhaseRetiring"
  shows "Version (Previous (Attempt st)) \<noteq> 0"
proof -
  have "st_Name st \<noteq> ''''" using sound_named assms by fastforce
  then have "attempt_ok st" using assms(1) by (simp add: sound_def)
  then show ?thesis using assms(2) version_of_zero by (auto simp: attempt_ok_def Let_def)
qed

section \<open>The steps of a retirement\<close>

lemma moments_trans: "moments o' others w2 k w3 \<Longrightarrow> moments o' others w1 j w2 \<Longrightarrow> moments o' others w1 (j + k) w3"
  by (induction rule: moments.induct) (auto intro: moments.intros)

context lifecycle_world begin

text \<open>From \<open>w\<close>, where the stream was \<open>es\<close>, to \<open>w'\<close>, where it is \<open>es'\<close>, in \<open>k\<close> appends, destroying nothing.\<close>

definition calm ::
  "('db, 'c, 'x) world \<Rightarrow> lifecycle_event list \<Rightarrow> nat \<Rightarrow> ('db, 'c, 'x) world \<Rightarrow> lifecycle_event list \<Rightarrow> bool" where
  "calm w es k w' es' \<longleftrightarrow> passes o' others w w' \<and> moments o' others w k w' \<and> displays w' es' \<and> prefix es es'"

lemma calm_refl: "displays w es \<Longrightarrow> calm w es 0 w es"
  by (simp add: calm_def passes.start moments.begins)

lemma calm_trans: "calm w es j w1 es1 \<Longrightarrow> calm w1 es1 k w2 es2 \<Longrightarrow> calm w es (j + k) w2 es2"
  unfolding calm_def using passes_trans moments_trans prefix_order.trans by blast

lemma calm_others:
  assumes "displays w es"
  obtains es' where "calm w es 0 (others w) es'"
proof -
  obtain es' where "displays (others w) es'" "prefix es es'" using displays_others [OF assms] by blast
  moreover have "passes o' others w (others w)" "moments o' others w 0 (others w)"
    by (intro passes.intros moments.intros)+
  ultimately show ?thesis using that by (simp add: calm_def)
qed

lemma calm_factory:
  assumes "displays w es"
  shows "calm w es 0 (w\<lparr>w_rest := snd (oc_Handler o' i (w_rest w))\<rparr>) es"
  using assms passes.factory [OF passes.start, of o' others w i] moments.rest [OF moments.begins]
  by (simp add: calm_def)

lemma calm_attest_loop:
  assumes "displays w es" "attest_loop others name co ws w = (res, w')"
  shows "\<exists>es'. calm w es 0 w' es'"
  using assms
proof (induction ws arbitrary: w es res)
  case Nil
  then show ?case using calm_refl by auto
next
  case (Cons iw ws)
  obtain i wit where iw: "iw = (i, wit)" by fastforce
  obtain es1 where one: "calm w es 0 (others w) es1" using calm_others [OF Cons.prems(1)] .
  show ?case
  proof (cases "wit (w_rest (others w)) name = Inr co")
    case True
    obtain r1 where "attest_loop others name co ws (others w) = (r1, w')"
      using Cons.prems(2) True iw by (auto simp: Let_def split: sum.splits prod.splits)
    moreover have "displays (others w) es1" using one by (simp add: calm_def)
    ultimately show ?thesis using Cons.IH calm_trans [OF one] by force
  next
    case False
    then have "w' = others w"
      using Cons.prems(2) iw by (auto simp: Let_def split: sum.splits if_splits)
    then show ?thesis using one by blast
  qed
qed

lemma calm_attest:
  assumes "displays w es" "attest others wits ids name co w = (res, w')"
  obtains es' where "calm w es 0 w' es'"
proof (cases "ids = []")
  case True
  then show ?thesis using that assms calm_refl by (auto simp: attest_def)
next
  case False
  then show ?thesis using that assms calm_attest_loop by (fastforce simp: attest_def)
qed

lemma appendLocked_calm:
  assumes "at_prefix newV5 n es k (rb_aggregate r)" "evs \<noteq> []" "length evs \<le> 2"
    and "appendLocked o' others evs r w = (res, r', w')"
  shows "passes o' others w w' \<and> moments o' others w 1 w'"
proof -
  let ?a = "Append evs (rb_aggregate r)"
  obtain sres saved db where save: "ES_Save lifecycle_domain (authority o') (w_events (others w)) (Some ?a) None
      = (sres, saved, db)" by (metis prod_cases3)
  have w': "w' = (others w)\<lparr>w_events := db\<rparr>"
    using assms(4) save by (auto simp: appendLocked_def Let_def split: option.splits)
  have len: "length (unsavedEvents ?a) \<le> 2" using at_prefix_Append(7) [OF assms(1,2)] assms(3) by simp
  have "passes o' others w (others w)" "moments o' others w 0 (others w)"
    by (intro passes.intros moments.intros)+
  then show ?thesis
    using passes.append [OF _ len save] moments.appends [OF _ len save] unfolding w' by fastforce
qed

text \<open>The destruction itself: its record is appended from the reserved state only.\<close>

lemma recordRetirement_keeps:
  assumes "displays w es" "rb_name r = n" "at_prefix newV5 n es k (rb_aggregate r)"
    and "k = length es \<Longrightarrow> clean (es @ [PreviousRetired prev receipts])"
    and "recordRetirement o' others prev receipts r w = (res, r', w')" "room (w_events (others w)) 2"
  shows "keeps es r' w' \<and> (res = None \<longrightarrow> displays w' (es @ [PreviousRetired prev receipts]))"
proof -
  obtain err where app: "appendLocked o' others [PreviousRetired prev receipts] r w = (err, r', w')"
    and res: "res = None \<longleftrightarrow> err = None"
    using assms(5) by (auto simp: recordRetirement_def split: prod.splits if_splits)
  show ?thesis using appendLocked_keeps [OF assms(1-3) _ _ assms(4) app assms(6)] res by auto
qed

lemma clean_Retired:
  assumes "at_prefix newV5 n es (length es) a" "clean es" "at_Phase (Attempt (agg_state a)) = PhaseRetiring"
  shows "clean (es @ [PreviousRetired (Previous (Attempt (agg_state a)))
    (vouched (RetiringWitnesses (Attempt (agg_state a))) (live_cutover (agg_state a)))])"
proof -
  have "agg_state a = lifecycle_fold es" using assms(1) by (rule at_prefix_state)
  moreover have "sound (lifecycle_fold es)" using assms(2) clean_sound by (simp add: clean_def)
  ultimately show ?thesis using legal_Retired clean_extend assms(2,3) by metis
qed

lemma tearDown_displays:
  assumes "displays w es" "tearDown o' others teardown prev receipts r w = (res, r', w')"
  obtains w4 es2 where "displays w4 es2" "prefix es es2" "moments o' others w 0 w4"
    "r' = r \<and> w' = w4 \<and> res \<noteq> None \<or> recordRetirement o' others prev receipts r w4 = (res, r', w')"
proof -
  obtain terr x where td: "teardown prev (w_rest (others w)) = (terr, x)" by fastforce
  define w2 where "w2 = (others w)\<lparr>w_rest := x\<rparr>"
  obtain derr c where del: "ck_Delete (oc_Checkpoints o') (w_checkpoints (others w2)) prev = (derr, c)" by fastforce
  define w4 where "w4 = (others w2)\<lparr>w_checkpoints := c\<rparr>"
  have m: "moments o' others w 0 w2" "moments o' others w 0 w4"
    unfolding w4_def w2_def by (intro moments.intros)+
  obtain es1 where es1: "displays w2 es1" "prefix es es1"
    using displays_others [OF assms(1)] by (auto simp: w2_def)
  obtain es2 where es2: "displays w4 es2" "prefix es1 es2"
    using displays_others [OF es1(1)] by (auto simp: w4_def)
  have run: "(res, r', w') = (case terr of Some e \<Rightarrow> (Some (fmt_wrap ''tearing down the previous version'' e), r, w2)
      | None \<Rightarrow> if derr \<noteq> None \<and> \<not> leavesMatch (the derr) [ErrCheckpointNotFound]
        then (Some (fmt_wrap ''deleting checkpoint for the previous version'' (the derr)), r, w4)
        else recordRetirement o' others prev receipts r w4)"
    using td del unfolding assms(2) [symmetric] w2_def w4_def by (cases terr) (simp_all add: tearDown_def Let_def)
  then have "r' = r \<and> w' = w2 \<and> res \<noteq> None \<or> r' = r \<and> w' = w4 \<and> res \<noteq> None
      \<or> recordRetirement o' others prev receipts r w4 = (res, r', w')"
    by (auto split: option.splits if_splits)
  then show ?thesis using that es1 es2 m prefix_order.trans by blast
qed

lemma tearDown_keeps:
  assumes "displays w es" "rb_name r = n" "at_prefix newV5 n es k (rb_aggregate r)"
    and "st = agg_state (rb_aggregate r)" "at_Phase (Attempt st) = PhaseRetiring"
    and "receipts = vouched (RetiringWitnesses (Attempt st)) (live_cutover st)"
    and "tearDown o' others teardown (Previous (Attempt st)) receipts r w = (res, r', w')"
    and ahead: "\<And>v. moments o' others w 0 v \<Longrightarrow> room (w_events v) 2"
  shows "keeps es r' w' \<and> (res = None \<longrightarrow> (\<exists>es'. prefix es es'
    \<and> displays w' (es' @ [PreviousRetired (Previous (Attempt st)) receipts])))"
proof -
  let ?prev = "Previous (Attempt st)"
  obtain w4 es2 where w4: "displays w4 es2" "prefix es es2" "moments o' others w 0 w4"
    and out: "r' = r \<and> w' = w4 \<and> res \<noteq> None \<or> recordRetirement o' others ?prev receipts r w4 = (res, r', w')"
    by (rule tearDown_displays [OF assms(1,7)])
  have at: "at_prefix newV5 n es2 k (rb_aggregate r)" using at_prefix_mono [OF assms(3) w4(2)] .
  from out show ?thesis
  proof
    assume "r' = r \<and> w' = w4 \<and> res \<noteq> None"
    then show ?thesis using keepsI [OF w4(1,2) at_prefix_follows [OF assms(2) at]] by auto
  next
    assume rec: "recordRetirement o' others ?prev receipts r w4 = (res, r', w')"
    have "clean es2" using w4(1) by (simp add: shows_stream_def)
    then have "clean (es2 @ [PreviousRetired ?prev receipts])" if "k = length es2"
      using clean_Retired at assms(4-6) that by blast
    then have "keeps es2 r' w' \<and> (res = None \<longrightarrow> displays w' (es2 @ [PreviousRetired ?prev receipts]))"
      using recordRetirement_keeps [OF w4(1) assms(2) at _ rec ahead [OF moments.other [OF w4(3)]]] by blast
    then show ?thesis using w4(2) prefix_order.trans unfolding carried_def by blast
  qed
qed

lemma tearDown_destroys:
  assumes "at_prefix newV5 n es k (rb_aggregate r)"
    and run: "tearDown o' others teardown prev receipts r w = (res, r', w')"
  shows "destroyed o' others teardown prev w res w'"
proof -
  obtain terr x where td: "teardown prev (w_rest (others w)) = (terr, x)" by fastforce
  define w2 where "w2 = (others w)\<lparr>w_rest := x\<rparr>"
  obtain derr c where del: "ck_Delete (oc_Checkpoints o') (w_checkpoints (others w2)) prev = (derr, c)" by fastforce
  define w4 where "w4 = (others w2)\<lparr>w_checkpoints := c\<rparr>"
  have rec: "passes o' others w4 w'" if "recordRetirement o' others prev receipts r w4 = (res, r', w')"
    using that appendLocked_calm [OF assms(1), of "[PreviousRetired prev receipts]"]
    by (auto simp: recordRetirement_def split: prod.splits)
  show ?thesis
    using run rec td del unfolding w4_def w2_def
    by (cases terr) (auto simp: tearDown_def destroyed_def Let_def split: if_splits)
qed

text \<open>The recheck after a reservation: it ends on a reserved state, vouched for again.\<close>

lemma reattestReservation_returns:
  assumes "displays w es" "follows es r"
  obtains res r' w' where "reattestReservation newV5 o' others prev r w = Some (res, r', w')"
proof -
  have name: "rb_name r = n" using assms(2) by (simp add: on_prefix_def)
  obtain res0 r1 w1 where "refoldLocked newV5 o' others r w = Some (res0, r1, w1)"
    by (rule refoldLocked_displays [OF assms(1) name])
  then have "hydrateFresh newV5 o' n 0 (w_events (others w)) \<noteq> None"
    using name by (auto simp: refoldLocked_def Let_def split: option.splits)
  then have "reattestReservation newV5 o' others prev r w \<noteq> None"
    using name by (auto simp: reattestReservation_def Let_def split: option.splits sum.splits prod.splits)
  then show ?thesis using that by auto
qed

lemma reattestReservation_calm:
  assumes "displays w es" "follows es r"
    and "reattestReservation newV5 o' others prev r w = Some (res, r', w')"
  obtains es' where "calm w es 0 w' es'" "follows es' r'"
    "\<And>receipts. res = Inr receipts \<Longrightarrow> let st = agg_state (rb_aggregate r') in
       at_Phase (Attempt st) = PhaseRetiring \<and> Previous (Attempt st) = prev
       \<and> receipts = vouched (RetiringWitnesses (Attempt st)) (live_cutover st)
       \<and> attested o' others (RetiringWitnesses (Attempt st)) n (live_cutover st) w w'"
proof -
  have name: "rb_name r = n" using assms(2) by (simp add: on_prefix_def)
  obtain es1 where one: "calm w es 0 (others w) es1" using calm_others [OF assms(1)] .
  then have es1: "displays (others w) es1" "prefix es es1" "valid (w_events (others w))"
      "stream newV5 n (w_events (others w)) = Some es1" "clean es1"
    by (simp_all add: calm_def shows_stream_def)
  from hydrateFresh_prefix [OF es1(3,4) authority, of 0]
  consider e where "hydrateFresh newV5 o' n 0 (w_events (others w)) = Some (Inl e)"
    | a where "hydrateFresh newV5 o' n 0 (w_events (others w)) = Some (Inr a)" "at_prefix newV5 n es1 (length es1) a"
    by (auto simp: max_int64_def)
  then show ?thesis
  proof cases
    case 1
    then have "w' = others w" "r' = r" "\<forall>rs. res \<noteq> Inr rs"
      using assms(3) name by (auto simp: reattestReservation_def Let_def)
    then show ?thesis using that [of es1] one follows_mono [OF assms(2) es1(2)] by blast
  next
    case 2
    define r1 where "r1 = r\<lparr>rb_aggregate := a\<rparr>"
    have f: "follows es1 r1" using at_prefix_follows [of r1] 2(2) name by (simp add: r1_def)
    let ?st = "agg_state a"
    let ?ids = "RetiringWitnesses (Attempt ?st)"
    show ?thesis
    proof (cases "checkLifecycleAggregate newV5 a n = None \<and> at_Phase (Attempt ?st) = PhaseRetiring
        \<and> Previous (Attempt ?st) = prev \<and> (\<exists>wits. resolveWitnesses o' ?ids = Inr wits)")
      case False
      then have "w' = others w" "r' = r1" "\<forall>rs. res \<noteq> Inr rs"
        using assms(3) name 2(1)
        by (auto simp: reattestReservation_def Let_def r1_def split: option.splits sum.splits if_splits)
      then show ?thesis using that [of es1] one f by blast
    next
      case True
      then obtain wits where wits: "resolveWitnesses o' ?ids = Inr wits" by blast
      have "es1 \<noteq> []"
        using True at_prefix_state [OF 2(2)] by (auto simp: fold_Nil NewState_def zero_attempt_def)
      then have named: "st_Name ?st = n" using checkLifecycleAggregate_prefix [OF 2(2) es1(5)] True by simp
      obtain ares w2 where att: "attest others wits ?ids n (live_cutover ?st) (others w) = (ares, w2)" by fastforce
      obtain es2 where two: "calm (others w) es1 0 w2 es2" using calm_attest [OF es1(1) att] .
      have out: "w' = w2 \<and> r' = r1 \<and> (case ares of Inl e \<Rightarrow> (\<forall>rs. res \<noteq> Inr rs) | Inr rs \<Rightarrow> res = Inr rs)"
        using assms(3) name 2(1) True wits att named
        by (auto simp: reattestReservation_def Let_def r1_def split: sum.splits)
      have p: "passes o' others w (others w)" "passes o' others w2 w2" by (intro passes.intros)+
      have vouch: "attested o' others ?ids n (live_cutover ?st) w w2 \<and> rs = vouched ?ids (live_cutover ?st)"
        if "ares = Inr rs" for rs
        using attest_vouched [OF wits att] attested_widen [OF _ p] that by simp
      have c: "calm w es 0 w' es2" using calm_trans [OF one two] out by simp
      have f2: "follows es2 r'" using follows_mono [OF f] two out by (simp add: calm_def)
      show ?thesis
      proof (rule that [OF c f2])
        fix receipts assume "res = Inr receipts"
        then have "ares = Inr receipts" using out by (cases ares) simp_all
        then show "let st = agg_state (rb_aggregate r') in at_Phase (Attempt st) = PhaseRetiring
            \<and> Previous (Attempt st) = prev
            \<and> receipts = vouched (RetiringWitnesses (Attempt st)) (live_cutover st)
            \<and> attested o' others (RetiringWitnesses (Attempt st)) n (live_cutover st) w w'"
          using vouch True out by (simp add: r1_def Let_def)
      qed
    qed
  qed
qed

text \<open>A retirement returns, and its outcome, from a moment \<open>w\<close> at which the stream was \<open>es\<close>.\<close>

definition retired_outcome ::
  "projection_id \<Rightarrow> ('db, 'c, 'x) world \<Rightarrow> lifecycle_event list
   \<Rightarrow> (go_error option \<times> rebuild \<times> ('db, 'c, 'x) world) option \<Rightarrow> bool" where
  "retired_outcome prev w es out \<longleftrightarrow> (\<exists>res r' w'. out = Some (res, r', w') \<and> keeps es r' w'
     \<and> (passes o' others w w' \<and> (res = None \<longrightarrow> Version prev = 0)
        \<or> reserved_destruction displays newV5 n o' others w es (res, r', w'))
     \<and> (res = None \<longrightarrow> (\<exists>es' receipts. prefix es es' \<and> displays w' (es' @ [PreviousRetired prev receipts]))))"

lemma retired_outcome_widen:
  assumes "calm w es 0 w1 es1" "retired_outcome prev w1 es1 out"
  shows "retired_outcome prev w es out"
proof -
  have one: "passes o' others w w1" "prefix es es1" using assms(1) by (simp_all add: calm_def)
  have "reserved_destruction displays newV5 n o' others w es z"
    if "reserved_destruction displays newV5 n o' others w1 es1 z" for z
    using that unfolding reserved_destruction_def Let_def
    by (elim exE conjE) (intro exI conjI, erule passes_trans [OF _ one(1)], assumption,
        erule prefix_order.trans [OF one(2)], assumption, assumption, assumption,
        erule furnished_widen [OF _ one(1) passes.start], erule attested_widen [OF _ one(1) passes.start], assumption+)
  note destroyed = this
  obtain res r' w' where out: "out = Some (res, r', w')" "keeps es1 r' w'"
      "passes o' others w1 w' \<and> (res = None \<longrightarrow> Version prev = 0)
        \<or> reserved_destruction displays newV5 n o' others w1 es1 (res, r', w')"
      "res = None \<longrightarrow> (\<exists>es' receipts. prefix es1 es' \<and> displays w' (es' @ [PreviousRetired prev receipts]))"
    using assms(2) unfolding retired_outcome_def by blast
  have "keeps es r' w'" using out(2) one(2) prefix_order.trans unfolding carried_def by blast
  moreover have "passes o' others w w' \<and> (res = None \<longrightarrow> Version prev = 0)
        \<or> reserved_destruction displays newV5 n o' others w es (res, r', w')"
    using out(3) destroyed passes_trans [OF _ one(1)] by blast
  moreover have "res = None \<longrightarrow> (\<exists>es' receipts. prefix es es' \<and> displays w' (es' @ [PreviousRetired prev receipts]))"
    using out(4) one(2) prefix_order.trans by blast
  ultimately show ?thesis unfolding retired_outcome_def out(1) by blast
qed

lemma roomy_later: "roomy room o' others w \<Longrightarrow> calm w es 0 w1 es1 \<Longrightarrow> roomy room o' others w1"
  unfolding roomy_def calm_def using moments_trans by fastforce

lemma refused_outcome:
  "calm w es k w' es' \<Longrightarrow> follows es' r' \<Longrightarrow> retired_outcome prev w es (Some (Some e, r', w'))"
  by (auto simp: retired_outcome_def calm_def carried_def)

lemma destroyed_outcome:
  assumes "calm w es j wD esD" "j \<le> 1" "roomy room o' others w"
    and "rb_name rD = n" "at_prefix newV5 n esD k (rb_aggregate rD)"
    and "st = agg_state (rb_aggregate rD)" "at_Phase (Attempt st) = PhaseRetiring"
    and "attested o' others (RetiringWitnesses (Attempt st)) n (live_cutover st) w wD"
    and "receipts = vouched (RetiringWitnesses (Attempt st)) (live_cutover st)"
    and "furnished o' others (Previous (Attempt st)) teardown w wD"
  shows "retired_outcome (Previous (Attempt st)) w es
    (Some (tearDown o' others teardown (Previous (Attempt st)) receipts rD wD))"
proof -
  obtain res r' w' where run: "tearDown o' others teardown (Previous (Attempt st)) receipts rD wD = (res, r', w')"
    by (metis prod_cases3)
  have wD: "passes o' others w wD" "displays wD esD" "prefix es esD" "moments o' others w j wD"
    using assms(1) by (simp_all add: calm_def)
  have ahead: "room (w_events v) 2" if "moments o' others wD 0 v" for v
    using moments_trans [OF that wD(4)] assms(2,3) by (simp add: roomy_def)
  have kept: "keeps esD r' w' \<and> (res = None \<longrightarrow> (\<exists>es'. prefix esD es'
      \<and> displays w' (es' @ [PreviousRetired (Previous (Attempt st)) receipts])))"
    by (rule tearDown_keeps [OF wD(2) assms(4-7,9) run ahead])
  have "destroyed o' others teardown (Previous (Attempt st)) wD res w'"
    by (rule tearDown_destroys [OF assms(5) run])
  then have "reserved_destruction displays newV5 n o' others w es (res, r', w')"
    unfolding reserved_destruction_def Let_def fst_conv snd_conv
    using wD(1-3) assms(4,5,7-10) kept unfolding assms(6) by blast
  then show ?thesis
    using kept wD(3) prefix_order.trans unfolding retired_outcome_def carried_def run by blast
qed

text \<open>The reservation's append.\<close>

lemma reserve_calm:
  assumes "calm w es 0 w3 es3" "rb_name r = n" "at_prefix newV5 n es3 k (rb_aggregate r)"
    and "k = length es3 \<Longrightarrow> clean (es3 @ [ev])" "roomy room o' others w"
    and app: "appendLocked o' others [ev] r w3 = (err, r1, w4)"
  obtains es4 where "calm w es 1 w4 es4" "follows es4 r1"
proof -
  have w3: "displays w3 es3" "passes o' others w w3" "prefix es es3" "moments o' others w 0 w3"
    using assms(1) by (simp_all add: calm_def)
  have room: "room (w_events (others w3)) 2"
    using moments.other [OF w3(4)] assms(5) by (simp add: roomy_def)
  obtain es4 where es4: "displays w4 es4" "prefix es3 es4" "follows es4 r1"
    using appendLocked_keeps [OF w3(1) assms(2,3) _ _ assms(4) app room] unfolding carried_def by auto
  have "passes o' others w3 w4 \<and> moments o' others w3 1 w4"
    using appendLocked_calm [OF assms(3) _ _ app] by simp
  then have "calm w es 1 w4 es4"
    using calm_trans [OF assms(1), of 1 w4 es4] es4 by (simp add: calm_def)
  then show ?thesis using that es4(3) by blast
qed

lemma reattest_outcome:
  assumes four: "calm w es 1 w4 es4" "follows es4 r1" and room: "roomy room o' others w"
    and furnished: "furnished o' others prev teardown w w4"
  shows "retired_outcome prev w es (case reattestReservation newV5 o' others prev r1 w4 of
      None \<Rightarrow> None
    | Some (Inl err, r2, w5) \<Rightarrow> Some (Some err, r2, w5)
    | Some (Inr receipts', r2, w5) \<Rightarrow> Some (tearDown o' others teardown prev receipts' r2 w5))"
proof -
  have d4: "displays w4 es4" using four(1) by (simp add: calm_def)
  obtain rres r2 w5 where re: "reattestReservation newV5 o' others prev r1 w4 = Some (rres, r2, w5)"
    by (rule reattestReservation_returns [OF d4 four(2)])
  obtain es5 where five: "calm w4 es4 0 w5 es5" "follows es5 r2"
    and recheck: "\<And>rs'. rres = Inr rs' \<Longrightarrow> let st2 = agg_state (rb_aggregate r2) in
       at_Phase (Attempt st2) = PhaseRetiring \<and> Previous (Attempt st2) = prev
       \<and> rs' = vouched (RetiringWitnesses (Attempt st2)) (live_cutover st2)
       \<and> attested o' others (RetiringWitnesses (Attempt st2)) n (live_cutover st2) w4 w5"
    by (rule reattestReservation_calm [OF d4 four(2) re]) blast
  have end5: "calm w es 1 w5 es5" using calm_trans [OF four(1) five(1)] by simp
  show ?thesis
  proof (cases rres)
    case (Inl e)
    then show ?thesis using re refused_outcome [OF end5 five(2)] by simp
  next
    case (Inr rs')
    let ?st2 = "agg_state (rb_aggregate r2)"
    note re2 = recheck [OF Inr, unfolded Let_def]
    obtain k2 where k2: "rb_name r2 = n" "at_prefix newV5 n es5 k2 (rb_aggregate r2)"
      using five(2) by (auto simp: on_prefix_def)
    have "passes o' others w w4" "passes o' others w5 w5" using four(1) by (simp_all add: calm_def passes.start)
    then have "attested o' others (RetiringWitnesses (Attempt ?st2)) n (live_cutover ?st2) w w5"
      using re2 attested_widen by blast
    moreover have "furnished o' others prev teardown w w5"
      using furnished_widen [OF furnished passes.start] five(1) by (simp add: calm_def)
    ultimately show ?thesis
      using destroyed_outcome [OF end5 _ room k2 refl] re2 re Inr by simp
  qed
qed

lemma reserve_outcome:
  assumes "calm w es 0 w3 es3" "rb_name r = n" "at_prefix newV5 n es3 k (rb_aggregate r)"
    and "k = length es3 \<Longrightarrow> clean (es3 @ [ev])" and room: "roomy room o' others w"
    and furnished: "furnished o' others prev teardown w w3"
  shows "retired_outcome prev w es (case appendLocked o' others [ev] r w3 of
      (Some err, r1, w4) \<Rightarrow> Some (Some (if SaveOutcome (Some err) = AppendOutcomeAppended
          then staleHandleError ''retirement start'' err else err), r1, w4)
    | (None, r1, w4) \<Rightarrow> (case reattestReservation newV5 o' others prev r1 w4 of
        None \<Rightarrow> None
      | Some (Inl err, r2, w5) \<Rightarrow> Some (Some err, r2, w5)
      | Some (Inr receipts', r2, w5) \<Rightarrow> Some (tearDown o' others teardown prev receipts' r2 w5)))"
proof -
  obtain err r1 w4 where app: "appendLocked o' others [ev] r w3 = (err, r1, w4)" by (metis prod_cases3)
  obtain es4 where four: "calm w es 1 w4 es4" "follows es4 r1"
    using reserve_calm [OF assms(1-5) app] by blast
  have "passes o' others w3 w4" using appendLocked_calm [OF assms(3) _ _ app] by simp
  then have "furnished o' others prev teardown w w4" by (rule furnished_widen [OF furnished passes.start])
  then show ?thesis
    using app refused_outcome [OF four] reattest_outcome [OF four room] by (cases err) simp_all
qed

text \<open>A reservation is legal in the state it was attested in.\<close>

lemma clean_reserved:
  assumes "calm w es 0 w3 es3" "at_prefix newV5 n es3 k (rb_aggregate r)" "k = length es3"
    and st: "st = agg_state (rb_aggregate r)" "Version (Previous (Attempt st)) \<noteq> 0"
    and "at_Phase (Attempt st) = PhasePromoted" "valid_override ov" "requiredWitnesses st ov = Inr required"
  shows "clean (es3 @ [RetireStarted (Previous (Attempt st)) (Generation (RetirementPolicy st)) required
    (vouched required (live_cutover st)) ov now])"
proof -
  have fold: "st = lifecycle_fold es3" using assms(2,3) st(1) at_prefix_state by blast
  have c: "clean es3" using assms(1) by (simp add: calm_def shows_stream_def)
  then have "sound st" using fold clean_sound by (simp add: clean_def)
  from legal_RetireStarted [OF this assms(6) st(2) assms(8,7)] show ?thesis
    using clean_extend [OF c] unfolding fold [symmetric] by blast
qed

text \<open>What follows the first attestation.\<close>

lemma attested_outcome:
  assumes "calm w es 0 w3 es3" "rb_name r = n" "at_prefix newV5 n es3 k (rb_aggregate r)"
    and st: "st = agg_state (rb_aggregate r)" "Version (Previous (Attempt st)) \<noteq> 0"
    and phase: "at_Phase (Attempt st) \<in> {PhasePromoted, PhaseRetiring}" and ov: "valid_override ov"
    and req: "requiredWitnesses st ov = Inr required" and rs: "rs = vouched required (live_cutover st)"
    and vouch: "attested o' others required n (live_cutover st) w w3" and room: "roomy room o' others w"
    and furnished: "furnished o' others (Previous (Attempt st)) teardown w w3"
  shows "retired_outcome (Previous (Attempt st)) w es
    (if at_Phase (Attempt st) \<noteq> PhasePromoted then Some (tearDown o' others teardown (Previous (Attempt st)) rs r w3)
     else (case appendLocked o' others [RetireStarted (Previous (Attempt st)) (Generation (RetirementPolicy st))
          required rs ov now] r w3 of
        (Some err, r1, w4) \<Rightarrow> Some (Some (if SaveOutcome (Some err) = AppendOutcomeAppended
            then staleHandleError ''retirement start'' err else err), r1, w4)
      | (None, r1, w4) \<Rightarrow> (case reattestReservation newV5 o' others (Previous (Attempt st)) r1 w4 of
          None \<Rightarrow> None
        | Some (Inl err, r2, w5) \<Rightarrow> Some (Some err, r2, w5)
        | Some (Inr receipts', r2, w5) \<Rightarrow> Some (tearDown o' others teardown (Previous (Attempt st)) receipts' r2 w5))))"
proof (cases "at_Phase (Attempt st) = PhasePromoted")
  case True
  have "clean (es3 @ [RetireStarted (Previous (Attempt st)) (Generation (RetirementPolicy st)) required rs ov now])"
    if "k = length es3"
    using clean_reserved [OF assms(1,3) that st True ov req] rs by simp
  from reserve_outcome [OF assms(1-3) this room furnished] True show ?thesis by simp
next
  case False
  then have retiring: "at_Phase (Attempt st) = PhaseRetiring" using phase by simp
  then have "required = RetiringWitnesses (Attempt st)"
    using req by (auto simp: requiredWitnesses_def Let_def split: if_splits)
  then show ?thesis
    using destroyed_outcome [OF assms(1) _ room assms(2,3) st(1) retiring] vouch rs furnished False by simp
qed

lemma retirePrevious_outcome:
  assumes "displays w es" "rb_name r = n" "at_prefix newV5 n es k (rb_aggregate r)"
    and st: "st = agg_state (rb_aggregate r)" "st_Name st = n" "Version (Previous (Attempt st)) \<noteq> 0"
    and phase: "at_Phase (Attempt st) \<in> {PhasePromoted, PhaseRetiring}" and "valid_override ov"
    and room: "roomy room o' others w"
  shows "retired_outcome (Previous (Attempt st)) w es (retirePrevious newV5 o' others now ov r w)"
proof -
  let ?prev = "Previous (Attempt st)"
  obtain es1 where one: "calm w es 0 (others w) es1" using calm_others [OF assms(1)] .
  obtain handler x where h: "oc_Handler o' ?prev (w_rest (others w)) = (handler, x)" by fastforce
  define w2 where "w2 = (others w)\<lparr>w_rest := x\<rparr>"
  have "calm (others w) es1 0 w2 es1"
    using calm_factory [of "others w" es1 ?prev] one h by (simp add: w2_def calm_def)
  then have two: "calm w es 0 w2 es1" using calm_trans [OF one] by fastforce
  have f: "follows es r" using assms(2,3) by (rule at_prefix_follows)
  have stays: "follows es' r" if "calm w es j w'' es'" for j w'' es'
    using follows_mono [OF f] that by (simp add: calm_def)
  show ?thesis
  proof (cases "\<exists>hd teardown required wits. handler = Inr hd \<and> eh_Teardown hd = Some teardown
      \<and> requiredWitnesses st ov = Inr required \<and> resolveWitnesses o' required = Inr wits")
    case False
    then have "\<exists>e. retirePrevious newV5 o' others now ov r w = Some (Some e, r, w2)"
      using h by (auto simp: retirePrevious_def Let_def w2_def st(1) split: sum.splits option.splits)
    then show ?thesis using refused_outcome [OF two stays [OF two]] by auto
  next
    case True
    then obtain hd teardown required wits where ok: "handler = Inr hd" "eh_Teardown hd = Some teardown"
        "requiredWitnesses st ov = Inr required" "resolveWitnesses o' required = Inr wits" by blast
    obtain ares w3 where att: "attest others wits required n (live_cutover st) w2 = (ares, w3)" by fastforce
    obtain es3 where "calm w2 es1 0 w3 es3" using calm_attest [OF _ att] two unfolding calm_def by blast
    then have three: "calm w es 0 w3 es3" using calm_trans [OF two] by fastforce
    have at3: "at_prefix newV5 n es3 k (rb_aggregate r)"
      using at_prefix_mono [OF assms(3)] three by (simp add: calm_def)
    have p: "passes o' others w w2" "passes o' others w3 w3" using two by (simp_all add: calm_def passes.start)
    show ?thesis
    proof (cases ares)
      case (Inl e)
      then have "retirePrevious newV5 o' others now ov r w = Some (Some (fmt_wrap ''retirement preflight'' e), r, w3)"
        using h ok att st(2) by (simp add: retirePrevious_def Let_def st(1) [symmetric] w2_def)
      then show ?thesis using refused_outcome [OF three stays [OF three]] by simp
    next
      case (Inr rs)
      have "rs = vouched required (live_cutover st)" "attested o' others required n (live_cutover st) w w3"
        using attest_vouched [OF ok(4) att] attested_widen [OF _ p] Inr by simp_all
      moreover have "furnished o' others ?prev teardown w w3"
      proof -
        have "passes o' others w (others w)" "passes o' others w2 w3"
          using attest_vouched [OF ok(4) att] by (auto intro: passes.intros)
        then show ?thesis using h ok(1,2) unfolding furnished_def w2_def by blast
      qed
      ultimately show ?thesis
        using h ok att st(2) Inr attested_outcome [OF three assms(2) at3 st(1,3) phase assms(8) ok(3) _ _ room]
        by (simp add: retirePrevious_def Let_def st(1) [symmetric] w2_def)
    qed
  qed
qed

text \<open>A first rebuild's completion, which nothing gates.\<close>

lemma conclude_outcome:
  assumes "calm w es 0 w1 es1" "rb_name r = n" "at_prefix newV5 n es1 (length es1) (rb_aggregate r)"
    and st: "st = agg_state (rb_aggregate r)" "at_Phase (Attempt st) \<in> {PhasePromoted, PhaseRetiring}"
      "Version (Previous (Attempt st)) = 0"
    and room: "roomy room o' others w"
  shows "retired_outcome (Previous (Attempt st)) w es
    (Some (recordRetirement o' others (Previous (Attempt st)) [] r w1))"
proof -
  obtain res r' w' where rec: "recordRetirement o' others (Previous (Attempt st)) [] r w1 = (res, r', w')"
    by (metis prod_cases3)
  have w1: "displays w1 es1" "prefix es es1" "passes o' others w w1" "moments o' others w 0 w1"
    using assms(1) by (simp_all add: calm_def)
  have room1: "room (w_events (others w1)) 2" using moments.other [OF w1(4)] room by (simp add: roomy_def)
  have c: "clean es1" using w1(1) by (simp add: shows_stream_def)
  have fold: "st = lifecycle_fold es1" using assms(3) st(1) at_prefix_state by simp
  have snd: "sound st" using c fold clean_sound by (simp add: clean_def)
  have "at_Phase (Attempt st) = PhasePromoted" using retiring_version [OF snd] st(2,3) by auto
  then have legal: "clean (es1 @ [PreviousRetired (Previous (Attempt st)) []])"
    using legal_Concluded [OF _ st(3) snd] clean_extend [OF c] fold by auto
  obtain err where app: "appendLocked o' others [PreviousRetired (Previous (Attempt st)) []] r w1 = (err, r', w')"
    using rec by (auto simp: recordRetirement_def split: prod.splits)
  have "passes o' others w1 w'" using appendLocked_calm [OF assms(3) _ _ app] by simp
  then have "passes o' others w w'" using passes_trans w1(3) by blast
  moreover have "keeps es1 r' w' \<and> (res = None \<longrightarrow> displays w' (es1 @ [PreviousRetired (Previous (Attempt st)) []]))"
    using recordRetirement_keeps [OF w1(1) assms(2,3) legal rec room1] .
  ultimately show ?thesis
    using w1(2) st(3) prefix_order.trans unfolding retired_outcome_def carried_def rec by blast
qed

text \<open>\<open>Retire\<close> once its refold has found the previous version retirable.\<close>

lemma gated_outcome:
  assumes "calm w es 0 w1 es1" "rb_name r = n" "at_prefix newV5 n es1 (length es1) (rb_aggregate r)"
    and st: "st = agg_state (rb_aggregate r)" "st_Name st = n" "at_Phase (Attempt st) \<in> {PhasePromoted, PhaseRetiring}"
    and ov: "valid_override ov" and room: "roomy room o' others w"
  shows "retired_outcome (Previous (Attempt st)) w es
    (if Version (Previous (Attempt st)) = 0
     then (if ov \<noteq> zero_override then Some (Some e, r, w1)
           else Some (recordRetirement o' others (Previous (Attempt st)) [] r w1))
     else retirePrevious newV5 o' others now ov r w1)"
proof (cases "Version (Previous (Attempt st)) = 0")
  case True
  have "follows es1 r" using assms(2,3) by (rule at_prefix_follows)
  then show ?thesis
    using True conclude_outcome [OF assms(1-3) st(1,3) True room] refused_outcome [OF assms(1)] by simp
next
  case False
  have "displays w1 es1" using assms(1) by (simp add: calm_def)
  from retirePrevious_outcome [OF this assms(2,3) st(1,2) False st(3) ov roomy_later [OF room assms(1)]]
  show ?thesis using False retired_outcome_widen [OF assms(1)] by simp
qed

lemma Retire_outcome:
  assumes "displays w es" "follows es r"
    and opts: "\<forall>opt \<in> set opts. \<exists>actor reason. opt = Some (WithRetirementOverride actor reason)"
    and room: "roomy room o' others w"
  shows "\<exists>prev. retired_outcome prev w es (Retire newV5 o' others now opts r w)"
proof -
  have name: "rb_name r = n" using assms(2) by (simp add: on_prefix_def)
  define config where "config = fold (\<lambda>opt. the opt) opts \<lparr>rt_override = zero_override, rt_optionErr = None\<rparr>"
  have override: "valid_override (rt_override config)" unfolding config_def by (rule overrides_valid [OF opts])
  have some: "\<not> list_ex Option.is_none opts" using opts by (auto simp: list_ex_iff)
  obtain es1 res0 r1 where refold: "refoldLocked newV5 o' others r w = Some (res0, r1, others w)"
      "displays (others w) es1" "prefix es es1"
    and r1: "res0 \<noteq> None \<and> r1 = r \<and> es1 = [] \<or>
     r1 = r\<lparr>rb_aggregate := rb_aggregate r1\<rparr> \<and> at_prefix newV5 n es1 (length es1) (rb_aggregate r1)
       \<and> res0 = checkLifecycleAggregate newV5 (rb_aggregate r1) n"
    by (rule refoldLocked_displays [OF assms(1) name])
  have "passes o' others w (others w)" "moments o' others w 0 (others w)"
    by (intro passes.intros moments.intros)+
  then have one: "calm w es 0 (others w) es1" using refold by (simp add: calm_def)
  have r1n: "rb_name r1 = n" using r1 name by (metis rebuild.select_convs(1) rebuild.surjective rebuild.update_convs(2))
  let ?st = "agg_state (rb_aggregate r1)"
  consider e where "rt_optionErr config = Some e"
    | "rt_optionErr config = None" "\<not> (res0 = None \<and> at_Phase (Attempt ?st) \<in> {PhasePromoted, PhaseRetiring})"
    | "rt_optionErr config = None" "res0 = None" "at_Phase (Attempt ?st) \<in> {PhasePromoted, PhaseRetiring}"
    by (cases "rt_optionErr config") blast+
  then show ?thesis
  proof cases
    case (1 e)
    then have "Retire newV5 o' others now opts r w = Some (Some e, r, w)"
      using some by (simp add: Retire_def Let_def config_def)
    then show ?thesis using refused_outcome [OF calm_refl [OF assms(1)] assms(2)] by auto
  next
    case 2
    then have "\<exists>e. Retire newV5 o' others now opts r w = Some (Some e, r1, others w)"
      using some refold(1) by (auto simp: Retire_def Let_def config_def split: option.splits phase.splits)
    moreover have "follows es1 r1"
      using r1 follows_mono [OF assms(2) refold(3)] at_prefix_follows [OF r1n] by auto
    ultimately show ?thesis using refused_outcome [OF one] by auto
  next
    case 3
    then have at: "at_prefix newV5 n es1 (length es1) (rb_aggregate r1)"
      and chk: "checkLifecycleAggregate newV5 (rb_aggregate r1) n = None" using r1 by auto
    have "es1 \<noteq> []" using 3(3) at_prefix_state [OF at] by (auto simp: fold_Nil NewState_def zero_attempt_def)
    moreover have "clean es1" using refold(2) by (simp add: shows_stream_def)
    ultimately have named: "st_Name ?st = n" using checkLifecycleAggregate_prefix [OF at] chk by simp
    have run: "Retire newV5 o' others now opts r w = (if Version (Previous (Attempt ?st)) = 0
        then (if rt_override config \<noteq> zero_override
              then Some (Some (Text ''a first rebuild's completion is not gated: the override does not apply''), r1, others w)
              else Some (recordRetirement o' others (Previous (Attempt ?st)) [] r1 (others w)))
        else retirePrevious newV5 o' others now (rt_override config) r1 (others w))"
      using some refold(1) 3 by (auto simp: Retire_def Let_def config_def split: phase.splits)
    show ?thesis unfolding run by (rule exI, rule gated_outcome [OF one r1n at refl named 3(3) override room])
  qed
qed

end

end
