(* ===== verification/OrchestratorProps.thy ===== *)
theory OrchestratorProps
  imports RetireProps
begin

text \<open>
  The orchestrator's own commands beside other writers: \<open>Begin\<close> allocates the next version,
  \<open>SetRetirementPolicy\<close> the next policy generation, both by a legal event decided in the state it
  is recorded in; \<open>Resume\<close> gives a handle on the stream.
\<close>

context lifecycle_authority begin

lemma Load_prefix:
  assumes "valid db" "stream newV5 n db = Some es" "StreamUUID newV5 n \<noteq> uuid_nil"
  shows "(\<exists>e. es = [] \<and> errors_is e ErrAggregateNotFound
        \<and> ES_Load lifecycle_domain s db (StreamUUID newV5 n) None = Some (Inl e)) \<or>
    (\<exists>a. es \<noteq> [] \<and> ES_Load lifecycle_domain s db (StreamUUID newV5 n) None = Some (Inr a)
      \<and> at_prefix newV5 n es (length es) a)"
proof -
  let ?id = "New_id (aggregateType s) (StreamUUID newV5 n)"
  have opts: "ES_Load lifecycle_domain s db i None = ES_Load lifecycle_domain s db i (Some \<lparr>lo_ToVersion = 0\<rparr>)" for i
    by (simp add: ES_Load_def)
  obtain H where H: "es = map (\<lambda>ev. the (decoded s ev)) H" "\<forall>ev \<in> set H. decoded s ev \<noteq> None"
      "view db ?id = None \<and> H = [] \<or> view db ?id = Some (1, H) \<and> H \<noteq> []"
    using stream_of_history [OF assms(2) [unfolded lifecycle_stream_def]] wired(1) by metis
  show ?thesis
  proof (cases "view db ?id")
    case None
    then have "es = []" using H by simp
    then show ?thesis using Load_missing [OF assms(1,3) None, of 0] opts by auto
  next
    case (Some v)
    then have v: "view db ?id = Some (1, H)" "H \<noteq> []" using H by auto
    obtain a where a: "ES_Load lifecycle_domain s db (StreamUUID newV5 n) (Some \<lparr>lo_ToVersion = 0\<rparr>) = Some (Inr a)"
        "at_version lifecycle_domain s H (target_version 0 H) a" "agg_id a = ?id" "unsavedEvents a = []"
      using Load_history [OF assms(1,3) v(1), of 0] H(2) by (auto simp: max_int64_def)
    then have "at_prefix newV5 n es (length es) a"
      using H(1) fold_state_lifecycle [OF H(2)]
      by (auto simp: at_prefix_def at_version_def target_version_def wired NewState_def)
    then show ?thesis using a(1) v(2) H(1) opts by auto
  qed
qed

end

context lifecycle_world begin

lemma save_displays:
  assumes "displays v es" "at_prefix newV5 n es k a" "evs \<noteq> []" "length evs \<le> 2"
    and "k = length es \<Longrightarrow> clean (es @ evs)" "room (w_events v) 2"
    and "ES_Save lifecycle_domain s (w_events v) (Some (Append evs a)) None = (res, a', db)"
  obtains es' where "displays (v\<lparr>w_events := db\<rparr>) es'" "prefix es es'"
    "res = None \<Longrightarrow> k = length es \<and> es' = es @ evs
      \<and> (\<exists>a1. a' = Some a1 \<and> at_prefix newV5 n es' (length es') a1)"
proof -
  have v: "valid (w_events v)" "stream newV5 n (w_events v) = Some es" "clean es"
    using assms(1) by (simp_all add: shows_stream_def)
  note eff = save_prefix [OF v(1) assms(6) v(2) assms(2-4,7)]
  show ?thesis
  proof (cases res)
    case None
    then show ?thesis using that [of "es @ evs"] eff assms(5) by (auto simp: shows_stream_def)
  next
    case (Some e)
    then consider "stream newV5 n db = Some es"
      | "k = length es" "stream newV5 n db = Some (es @ evs)" using eff by auto
    then show ?thesis
      using that [of es] that [of "es @ evs"] eff assms(5) v Some by cases (auto simp: shows_stream_def)
  qed
qed

lemma loadAggregate_displays:
  assumes "displays w es"
  obtains es1 where "displays (others w) es1" "prefix es es1"
    "(\<exists>e. loadAggregate newV5 o' (w_events (others w)) n = Some (Inl e)) \<or>
     (\<exists>a. es1 \<noteq> [] \<and> loadAggregate newV5 o' (w_events (others w)) n = Some (Inr a)
       \<and> at_prefix newV5 n es1 (length es1) a \<and> st_Name (agg_state a) = n)"
proof -
  obtain es1 where es1: "displays (others w) es1" "prefix es es1" using displays_others [OF assms] by blast
  then have v: "valid (w_events (others w))" "stream newV5 n (w_events (others w)) = Some es1" "clean es1"
    by (simp_all add: shows_stream_def)
  let ?load = "ES_Load lifecycle_domain s (w_events (others w)) (StreamUUID newV5 n) None"
  consider e where "?load = Some (Inl e)" | a where "es1 \<noteq> []" "?load = Some (Inr a)" "at_prefix newV5 n es1 (length es1) a"
  proof (cases "StreamUUID newV5 n = uuid_nil")
    case True
    then show ?thesis using that by (simp add: ES_Load_def)
  next
    case False
    then show ?thesis using Load_prefix [OF v(1,2)] that by blast
  qed
  then show ?thesis
  proof cases
    case (1 e)
    then show ?thesis using that es1 by (simp add: loadAggregate_def authority)
  next
    case (2 a)
    then show ?thesis
      using that es1 checkLifecycleAggregate_prefix [OF 2(3) v(3)]
      by (auto simp: loadAggregate_def authority split: option.splits)
  qed
qed

lemma loadAggregate_tip:
  assumes "displays (others w) es" "es \<noteq> []" "st_Name (lifecycle_fold es) = n" "StreamUUID newV5 n \<noteq> uuid_nil"
  shows "\<exists>a. loadAggregate newV5 o' (w_events (others w)) n = Some (Inr a) \<and> at_prefix newV5 n es (length es) a"
proof -
  have v: "valid (w_events (others w))" "stream newV5 n (w_events (others w)) = Some es" "clean es"
    using assms(1) by (simp_all add: shows_stream_def)
  obtain a where a: "ES_Load lifecycle_domain s (w_events (others w)) (StreamUUID newV5 n) None = Some (Inr a)"
      "at_prefix newV5 n es (length es) a"
    using Load_prefix [OF v(1,2) assms(4)] assms(2) by blast
  then show ?thesis
    using checkLifecycleAggregate_prefix [OF a(2) v(3)] at_prefix_state [OF a(2)] assms(3)
    by (simp add: loadAggregate_def authority)
qed

lemma Resume_follows:
  assumes "displays w es" "Resume newV5 o' others n w = Some (res, w')"
  shows "\<exists>es'. displays w' es' \<and> prefix es es' \<and> (\<forall>r. res = Inr r \<longrightarrow> follows es' r)"
proof -
  obtain es1 where es1: "displays (others w) es1" "prefix es es1"
    "(\<exists>e. loadAggregate newV5 o' (w_events (others w)) n = Some (Inl e)) \<or>
     (\<exists>a. es1 \<noteq> [] \<and> loadAggregate newV5 o' (w_events (others w)) n = Some (Inr a)
       \<and> at_prefix newV5 n es1 (length es1) a \<and> st_Name (agg_state a) = n)"
    by (rule loadAggregate_displays [OF assms(1)])
  then show ?thesis
    using assms(2) at_prefix_follows [of "new_rebuild n _"] by (auto simp: Resume_def new_rebuild_def Let_def)
qed

lemma orchestration_returns:
  assumes "displays w es"
  shows "\<exists>res w'. Begin newV5 o' others fresh now n reason w = Some (res, w')"
    and "\<exists>res w'. SetRetirementPolicy newV5 o' others now n change w = Some (res, w')"
    and "\<exists>res w'. Resume newV5 o' others n w = Some (res, w')"
proof -
  have "loadAggregate newV5 o' (w_events (others w)) n \<noteq> None"
    by (rule loadAggregate_displays [OF assms]) auto
  moreover from this have "ES_Load lifecycle_domain (authority o') (w_events (others w)) (StreamUUID newV5 n) None \<noteq> None"
    by (auto simp: loadAggregate_def split: option.splits)
  ultimately have "Begin newV5 o' others fresh now n reason w \<noteq> None"
      "SetRetirementPolicy newV5 o' others now n change w \<noteq> None" "Resume newV5 o' others n w \<noteq> None"
    by (auto simp: Begin_def SetRetirementPolicy_def Resume_def Let_def
        split: option.splits sum.splits prod.splits if_splits)
  then show "\<exists>res w'. Begin newV5 o' others fresh now n reason w = Some (res, w')"
    "\<exists>res w'. SetRetirementPolicy newV5 o' others now n change w = Some (res, w')"
    "\<exists>res w'. Resume newV5 o' others n w = Some (res, w')" by auto
qed

lemma legal_SetPolicy:
  assumes "sound st" "st_Name st \<noteq> ''''" "Generation (RetirementPolicy st) < max_int64 - 1"
    and "ch_Actor change \<noteq> ''''" "ch_Reason change \<noteq> ''''"
    and "ch_Unwitnessed change \<longleftrightarrow> ch_Witnesses change = []" "invalidWitnessSet (sort (ch_Witnesses change)) = None"
  shows "\<exists>st'. legal st (RetirementPolicySet (wrap64 (Generation (RetirementPolicy st) + 1)) (sort (ch_Witnesses change))
    (ch_Unwitnessed change) (ch_Reason change) (ch_Actor change) now) st'"
proof -
  have "if ch_Unwitnessed change then sort (ch_Witnesses change) = [] else sort (ch_Witnesses change) \<noteq> []"
    using assms(6) by (metis length_0_conv length_sort)
  then show ?thesis
    using legal.set_policy [OF assms(2-5), of "ch_Unwitnessed change"] assms(7) sound_counters(5) [OF assms(1,3)] by auto
qed

lemma SetRetirementPolicy_keeps:
  assumes "displays w es" "SetRetirementPolicy newV5 o' others now n change w = Some (res, w')"
    and room: "roomy room o' others w"
  shows "\<exists>es'. displays w' es' \<and> prefix es es' \<and> (res = None \<longrightarrow> (\<exists>es1. prefix es es1
    \<and> es' = es1 @ [RetirementPolicySet (Generation (RetirementPolicy (lifecycle_fold es1)) + 1)
        (sort (ch_Witnesses change)) (ch_Unwitnessed change) (ch_Reason change) (ch_Actor change) now]))"
proof -
  obtain es1 where es1: "displays (others w) es1" "prefix es es1"
    and load: "(\<exists>e. loadAggregate newV5 o' (w_events (others w)) n = Some (Inl e)) \<or>
     (\<exists>a. es1 \<noteq> [] \<and> loadAggregate newV5 o' (w_events (others w)) n = Some (Inr a)
       \<and> at_prefix newV5 n es1 (length es1) a \<and> st_Name (agg_state a) = n)"
    by (rule loadAggregate_displays [OF assms(1)])
  have c1: "clean es1" using es1(1) by (simp add: shows_stream_def)
  let ?gen = "Generation (RetirementPolicy (lifecycle_fold es1))"
  let ?ev = "RetirementPolicySet (wrap64 (?gen + 1)) (sort (ch_Witnesses change))
    (ch_Unwitnessed change) (ch_Reason change) (ch_Actor change) now"
  show ?thesis
  proof (cases "ch_Actor change \<noteq> '''' \<and> ch_Reason change \<noteq> '''' \<and> ch_Unwitnessed change = (ch_Witnesses change = [])
      \<and> invalidWitnessSet (sort (ch_Witnesses change)) = None
      \<and> (\<exists>a. loadAggregate newV5 o' (w_events (others w)) n = Some (Inr a)) \<and> ?gen < max_int64 - 1")
    case False
    then have "res \<noteq> None \<and> (w' = w \<or> w' = others w)"
      using assms(2) load at_prefix_state by (auto simp: SetRetirementPolicy_def Let_def split: if_splits option.splits)
    then show ?thesis using assms(1) es1 by auto
  next
    case True
    then obtain a where a: "es1 \<noteq> []" "loadAggregate newV5 o' (w_events (others w)) n = Some (Inr a)"
        "at_prefix newV5 n es1 (length es1) a" using load by auto
    note st = at_prefix_state [OF a(3)]
    obtain es2 where es2: "displays (others (others w)) es2" "prefix es1 es2" using displays_others [OF es1(1)] .
    obtain sres a' db where save: "ES_Save lifecycle_domain s (w_events (others (others w))) (Some (Append [?ev] a)) None
        = (sres, a', db)" by (metis prod_cases3)
    have out: "w' = (others (others w))\<lparr>w_events := db\<rparr>" "res = None \<longleftrightarrow> sres = None"
      using assms(2) True a(2) st save authority
      by (auto simp: SetRetirementPolicy_def Let_def split: option.splits)
    have snd: "sound (lifecycle_fold es1)" using c1 clean_sound by (simp add: clean_def)
    have "clean (es1 @ [?ev])"
      using legal_SetPolicy [OF snd clean_named [OF c1 a(1)]] True clean_extend [OF c1] by blast
    then have legal: "clean (es2 @ [?ev])" if "length es1 = length es2"
      using that es2(2) by (auto simp: prefix_def)
    have "room (w_events (others (others w))) 2"
      using room moments.other [OF moments.other [OF moments.begins]] unfolding roomy_def by blast
    from save_displays [OF es2(1) at_prefix_mono [OF a(3) es2(2)] _ _ legal this save]
    obtain es' where es': "displays ((others (others w))\<lparr>w_events := db\<rparr>) es'" "prefix es2 es'"
      "sres = None \<Longrightarrow> length es1 = length es2 \<and> es' = es2 @ [?ev]" by auto
    have "es2 = es1" if "length es1 = length es2" using that es2(2) by (auto simp: prefix_def)
    moreover have "wrap64 (?gen + 1) = ?gen + 1" using sound_counters(5) [OF snd] True by simp
    ultimately show ?thesis
      using es' es1(2) es2(2) out prefix_order.trans by (metis (no_types, lifting))
  qed
qed

lemma legal_Begin:
  assumes "sound st" "fresh \<noteq> uuid_nil" "at_Phase (Attempt st) = PhaseNone" "st_Name st = '''' \<or> st_Name st = n"
    and "projection_Validate \<lparr>Name = n, Version = wrap64 (Allocated st + 1)\<rparr> = None"
  shows "\<exists>st'. legal st (RebuildInitiated fresh \<lparr>Name = n, Version = wrap64 (Allocated st + 1)\<rparr> (Live st) reason now) st'"
    and "wrap64 (Allocated st + 1) = Allocated st + 1"
proof -
  have "1 \<le> wrap64 (Allocated st + 1)"
    using assms(5) by (auto simp: projection_Validate_def split: if_splits)
  then have all: "Allocated st \<noteq> max_int64" "wrap64 (Allocated st + 1) = Allocated st + 1"
    using sound_counters(1) [OF assms(1)] by (auto simp: min_int64_def split: if_splits)
  then show "wrap64 (Allocated st + 1) = Allocated st + 1" by simp
  have "legal st (RebuildInitiated fresh \<lparr>Name = n, Version = wrap64 (Allocated st + 1)\<rparr> (Live st) reason now)
     (st\<lparr>st_Name := n, Allocated := Allocated st + 1,
        Attempt := zero_attempt\<lparr>at_ID := fresh, Target := \<lparr>Name = n, Version = wrap64 (Allocated st + 1)\<rparr>,
          Previous := Live st, at_Phase := PhaseCreated, at_Reason := reason, InitiatedAt := now\<rparr>\<rparr>)"
    using legal.admit [OF assms(2,5,3), of reason now] assms(4) all sound_counters(2) [OF assms(1)] by auto
  then show "\<exists>st'. legal st (RebuildInitiated fresh \<lparr>Name = n, Version = wrap64 (Allocated st + 1)\<rparr> (Live st) reason now) st'"
    by blast
qed

lemma Begin_loads:
  assumes "displays w es" "Begin newV5 o' others fresh now n reason w = Some (res, w')"
  obtains es1 where "displays (others w) es1" "prefix es es1"
    "w' = others w \<and> isl res \<or>
     (\<exists>a sres a' db. at_prefix newV5 n es1 (length es1) a \<and> checkLifecycleAggregate newV5 a n = None
       \<and> at_Phase (Attempt (lifecycle_fold es1)) = PhaseNone
       \<and> projection_Validate \<lparr>Name = n, Version = wrap64 (Allocated (lifecycle_fold es1) + 1)\<rparr> = None
       \<and> ES_Save lifecycle_domain s (w_events (others (others w))) (Some (Append [RebuildInitiated fresh
            \<lparr>Name = n, Version = wrap64 (Allocated (lifecycle_fold es1) + 1)\<rparr> (Live (lifecycle_fold es1)) reason now] a)) None
          = (sres, a', db)
       \<and> w' = (others (others w))\<lparr>w_events := db\<rparr>
       \<and> (sres = None \<longrightarrow> (\<forall>a1. a' = Some a1 \<longrightarrow> res = Inr (new_rebuild n a1))) \<and> (sres \<noteq> None \<longrightarrow> isl res))"
proof -
  obtain es1 where es1: "displays (others w) es1" "prefix es es1" using displays_others [OF assms(1)] by blast
  then have v: "valid (w_events (others w))" "stream newV5 n (w_events (others w)) = Some es1"
    by (simp_all add: shows_stream_def)
  let ?load = "ES_Load lifecycle_domain s (w_events (others w)) (StreamUUID newV5 n) None"
  consider e where "?load = Some (Inl e)" "\<not> errors_is e ErrAggregateNotFound"
    | a where "?load = Some (Inr a) \<or> (\<exists>e. ?load = Some (Inl e) \<and> errors_is e ErrAggregateNotFound
        \<and> a = ES_New s (StreamUUID newV5 n))" "at_prefix newV5 n es1 (length es1) a"
  proof (cases "StreamUUID newV5 n = uuid_nil")
    case True
    then show ?thesis using that(1) by (simp add: ES_Load_def errors_is_def)
  next
    case False
    have "at_prefix newV5 n [] 0 (ES_New s (StreamUUID newV5 n))"
      by (simp add: at_prefix_def ES_New_def newAggregate_def wired fold_Nil NewState_def)
    then show ?thesis using Load_prefix [OF v False] that(2) by auto
  qed
  then show ?thesis
  proof cases
    case (1 e)
    then have "w' = others w \<and> isl res" using assms(2) by (auto simp: Begin_def Let_def authority)
    then show ?thesis using that es1 by blast
  next
    case (2 a)
    note st = at_prefix_state [OF 2(2)]
    let ?tgt = "\<lparr>Name = n, Version = wrap64 (Allocated (lifecycle_fold es1) + 1)\<rparr>"
    obtain sres a' db where save: "ES_Save lifecycle_domain s (w_events (others (others w)))
        (Some (Append [RebuildInitiated fresh ?tgt (Live (lifecycle_fold es1)) reason now] a)) None = (sres, a', db)"
      by (metis prod_cases3)
    have run: "Some (res, w') = (case checkLifecycleAggregate newV5 a n of
          Some err \<Rightarrow> Some (Inl err, others w)
        | None \<Rightarrow> if at_Phase (Attempt (lifecycle_fold es1)) \<noteq> PhaseNone
            then Some (Inl (Text ''projection already has a rebuild in flight''), others w)
            else (case projection_Validate ?tgt of
              Some err \<Rightarrow> Some (Inl (fmt_wrap ''invalid projection ID'' err), others w)
            | None \<Rightarrow> (case sres of
                Some err \<Rightarrow> Some (Inl (fmt_wrap ''recording rebuildinitiated'' err), (others (others w))\<lparr>w_events := db\<rparr>)
              | None \<Rightarrow> Some (Inr (new_rebuild n (case a' of None \<Rightarrow>
                    Append [RebuildInitiated fresh ?tgt (Live (lifecycle_fold es1)) reason now] a | Some a2 \<Rightarrow> a2)),
                  (others (others w))\<lparr>w_events := db\<rparr>))))"
      unfolding assms(2) [symmetric] using 2(1) save st
      by (elim disjE exE conjE) (simp_all add: Begin_def Let_def authority split: option.split)
    show ?thesis
    proof (cases "checkLifecycleAggregate newV5 a n = None \<and> at_Phase (Attempt (lifecycle_fold es1)) = PhaseNone
        \<and> projection_Validate ?tgt = None")
      case False
      then have "w' = others w \<and> isl res" using run by (auto split: option.splits if_splits)
      then show ?thesis using that es1 by blast
    next
      case True
      have "w' = (others (others w))\<lparr>w_events := db\<rparr>" "sres = None \<longrightarrow> (\<forall>a1. a' = Some a1 \<longrightarrow> res = Inr (new_rebuild n a1))"
          "sres \<noteq> None \<longrightarrow> isl res" using run True by (auto split: option.splits)
      then show ?thesis using that [OF es1] 2(2) True save by blast
    qed
  qed
qed

lemma Begin_keeps:
  assumes "displays w es" "Begin newV5 o' others fresh now n reason w = Some (res, w')"
    and "roomy room o' others w" "fresh \<noteq> uuid_nil"
  shows "\<exists>es'. displays w' es' \<and> prefix es es' \<and> (\<forall>r. res = Inr r \<longrightarrow> r = new_rebuild n (rb_aggregate r)
    \<and> at_prefix newV5 n es' (length es') (rb_aggregate r)
    \<and> (\<exists>es1. prefix es es1 \<and> at_Phase (Attempt (lifecycle_fold es1)) = PhaseNone
        \<and> es' = es1 @ [RebuildInitiated fresh \<lparr>Name = n, Version = Allocated (lifecycle_fold es1) + 1\<rparr>
            (Live (lifecycle_fold es1)) reason now]))"
proof -
  let ?ev = "\<lambda>es. RebuildInitiated fresh \<lparr>Name = n, Version = wrap64 (Allocated (lifecycle_fold es) + 1)\<rparr>
    (Live (lifecycle_fold es)) reason now"
  obtain es1 where es1: "displays (others w) es1" "prefix es es1"
    and "w' = others w \<and> isl res \<or>
     (\<exists>a sres a' db. at_prefix newV5 n es1 (length es1) a \<and> checkLifecycleAggregate newV5 a n = None
       \<and> at_Phase (Attempt (lifecycle_fold es1)) = PhaseNone
       \<and> projection_Validate \<lparr>Name = n, Version = wrap64 (Allocated (lifecycle_fold es1) + 1)\<rparr> = None
       \<and> ES_Save lifecycle_domain s (w_events (others (others w))) (Some (Append [?ev es1] a)) None = (sres, a', db)
       \<and> w' = (others (others w))\<lparr>w_events := db\<rparr>
       \<and> (sres = None \<longrightarrow> (\<forall>a1. a' = Some a1 \<longrightarrow> res = Inr (new_rebuild n a1))) \<and> (sres \<noteq> None \<longrightarrow> isl res))"
    by (rule Begin_loads [OF assms(1,2)])
  then consider "w' = others w" "isl res"
    | a sres a' db where "at_prefix newV5 n es1 (length es1) a" "checkLifecycleAggregate newV5 a n = None"
       "at_Phase (Attempt (lifecycle_fold es1)) = PhaseNone"
       "projection_Validate \<lparr>Name = n, Version = wrap64 (Allocated (lifecycle_fold es1) + 1)\<rparr> = None"
       "ES_Save lifecycle_domain s (w_events (others (others w))) (Some (Append [?ev es1] a)) None = (sres, a', db)"
       "w' = (others (others w))\<lparr>w_events := db\<rparr>"
       "sres = None \<longrightarrow> (\<forall>a1. a' = Some a1 \<longrightarrow> res = Inr (new_rebuild n a1))" "sres \<noteq> None \<longrightarrow> isl res"
    by blast
  then show ?thesis
  proof cases
    case 1
    then show ?thesis using es1 by auto
  next
    case (2 a sres a' db)
    have c1: "clean es1" using es1(1) by (simp add: shows_stream_def)
    then have snd: "sound (lifecycle_fold es1)" using clean_sound by (simp add: clean_def)
    obtain es2 where es2: "displays (others (others w)) es2" "prefix es1 es2" using displays_others [OF es1(1)] .
    have tip: "es2 = es1" if "length es1 = length es2" using that es2(2) by (auto simp: prefix_def)
    have "st_Name (lifecycle_fold es1) = '''' \<or> st_Name (lifecycle_fold es1) = n"
      using checkLifecycleAggregate_prefix [OF 2(1) c1] 2(2) at_prefix_state [OF 2(1)] by (auto simp: fold_Nil NewState_def)
    note legal = legal_Begin [OF snd assms(4) 2(3) this 2(4)]
    have "clean (es2 @ [?ev es1])" if "length es1 = length es2"
      using legal(1) clean_extend [OF c1] tip [OF that] by blast
    moreover have "room (w_events (others (others w))) 2"
      using assms(3) moments.other [OF moments.other [OF moments.begins]] unfolding roomy_def by blast
    ultimately obtain es' where es': "displays w' es'" "prefix es2 es'"
      "sres = None \<Longrightarrow> length es1 = length es2 \<and> es' = es2 @ [?ev es1]
        \<and> (\<exists>a1. a' = Some a1 \<and> at_prefix newV5 n es' (length es') a1)"
      using save_displays [OF es2(1) at_prefix_mono [OF 2(1) es2(2)] _ _ _ _ 2(5)] 2(6) by auto
    have pre: "prefix es es'" using es'(2) es1(2) es2(2) prefix_order.trans by blast
    show ?thesis
    proof (cases sres)
      case None
      then obtain a1 where a1: "a' = Some a1" "at_prefix newV5 n es' (length es') a1" "length es1 = length es2"
          "es' = es2 @ [?ev es1]" using es'(3) by blast
      have "res = Inr (new_rebuild n a1)" "rb_aggregate (new_rebuild n a1) = a1"
        using 2(7) None a1(1) by (simp_all add: new_rebuild_def)
      then show ?thesis
        using a1(2,4) tip [OF a1(3)] legal(2) es'(1) pre es1(2) 2(3) by (intro exI [of _ es']) auto
    next
      case (Some e)
      then have "res \<noteq> Inr r" for r using 2(8) by auto
      then show ?thesis using es'(1) pre by auto
    qed
  qed
qed

end

end
