(* ===== verification/CommandLiveness.thy ===== *)
theory CommandLiveness
  imports OrchestratorProps
begin

text \<open>
  When nobody else writes and the store is healthy, a command that is not refused takes effect.
\<close>

section \<open>A save nobody hinders\<close>

context lifecycle_authority begin

lemma save_alone:
  assumes "valid db" "room db 2" "stream newV5 n db = Some es" "at_prefix newV5 n es (length es) a"
    and "healthy" "MarshalDomainEvent (domainEventCodec s) e = Inr b" "int (length es) < max_int64"
  shows "fst (ES_Save lifecycle_domain s db (Some (Append [e] a)) None) = None"
proof (rule ccontr)
  assume no: "\<not> ?thesis"
  let ?a = "Append [e] a"
  note a = at_prefix_Append [OF assms(4), of "[e]"]
  obtain res a' db' where save: "ES_Save lifecycle_domain s db (Some ?a) None = (res, a', db')"
    by (metis prod_cases3)
  then obtain err where err: "res = Some err" using no by auto
  have u: "unsavedEvents ?a = [\<lparr>ae_ID = zero_id, ae_Version = 0, ae_Timestamp = 0, ae_DomainEvent = e, ae_Metadata = None\<rparr>]"
    using assms(4) by (simp add: Append_def AppendWithMetadata_def at_prefix_def)
  let ?ws = "[\<lparr>we_Type = lifecycle_EventType e, we_Data = b, we_DataContentType = codec_ContentType (domainEventCodec s),
    we_Metadata = None\<rparr>]" and ?ao = "\<lparr>ExpectVersion = VersionPtr (int (length es)), StreamMustNotExist = False\<rparr>"
  have ws: "writable_events lifecycle_domain (domainEventCodec s) (agg_id ?a) (unsavedEvents ?a) = Inr ?ws"
    using assms(6) by (simp add: u reserved_key_def lifecycle_domain_def)
  have room: "room db (length ?ws)" using room_fewer [OF assms(2)] by simp
  obtain H where H: "shows_history (view db (agg_id ?a)) H" "length es = length H"
    using stream_of_history [OF assms(3) [unfolded lifecycle_stream_def]] a(1) by (metis length_map list.discI)
  then have tip: "view_tip (view db (agg_id ?a)) = int (length es)" using history_tip by fastforce
  then have "append_refusal (agg_id ?a) (view_tip (view db (agg_id ?a))) ?ao = None"
    by (simp add: append_refusal_def VersionPtr_def)
  then obtain written db1 where app: "appendStream db (agg_id ?a) ?ws ?ao = (Inr written, db1)"
    using append_failed [OF assms(1) room, of "agg_id ?a" ?ao] assms(5)
    by (cases "appendStream db (agg_id ?a) ?ws ?ao"; cases "fst (appendStream db (agg_id ?a) ?ws ?ao)") simp_all
  have w: "written_for (agg_id ?a) (int (length es)) ?ws written"
    using append_written [OF assms(1) room, of "agg_id ?a" ?ao written] app tip by simp
  then have len: "length written = 1" by (auto simp: written_for_def dest: list_all2_lengthD)
  have "consecutive ae_Version (int (length es) + 1) (queued_events (unsavedEvents ?a) written)"
    using queued_versions [of "unsavedEvents ?a" written] w len u by (simp add: written_for_def)
  then have "fst (apply_queue lifecycle_domain (?a\<lparr>unappliedEvents := queued_events (unsavedEvents ?a) written, unsavedEvents := []\<rparr>)) = None"
    using apply_queue_all [of "?a\<lparr>unappliedEvents := queued_events (unsavedEvents ?a) written, unsavedEvents := []\<rparr>"]
      a(2) assms(7) len u by (simp add: queued_events_def)
  then show False
    using save err app ws a(2,3) len u assms(7)
    by (auto simp: ES_Save_def writer Let_def fold_willApply clearUnsavedEvents_def split: prod.splits)
qed

end

section \<open>Commands nobody hinders\<close>

lemma stop_alone:
  obtains r2 where "awaitProcessorStop (Inr runErr) r = (None, r2)" "rb_aggregate r2 = rb_aggregate r"
proof -
  have "fst (awaitProcessorStop (Inr runErr) r) = None" by (simp add: awaitProcessorStop_def Let_def)
  then show ?thesis using that handle_frame(8) [of "Inr runErr" r]
    by (cases "awaitProcessorStop (Inr runErr) r") simp
qed

text \<open>What the events of the commands do to the lifecycle.\<close>

lemma events_take_effect:
  "clean (es @ [Promoted a b c g t]) \<Longrightarrow> Live (lifecycle_fold (es @ [Promoted a b c g t])) = Target (Attempt (lifecycle_fold es))
     \<and> at_Phase (Attempt (lifecycle_fold (es @ [Promoted a b c g t]))) = PhasePromoted"
  "clean (es @ [RolledBack a b c t]) \<Longrightarrow> Live (lifecycle_fold (es @ [RolledBack a b c t])) = Previous (Attempt (lifecycle_fold es))
     \<and> at_Phase (Attempt (lifecycle_fold (es @ [RolledBack a b c t]))) = PhaseNone"
  "clean (es @ [Abandoned cause]) \<Longrightarrow> Live (lifecycle_fold (es @ [Abandoned cause])) = Live (lifecycle_fold es)
     \<and> at_Phase (Attempt (lifecycle_fold (es @ [Abandoned cause]))) = PhaseNone"
  unfolding clean_def by (drule clean_snoc(3), erule legal.cases, simp_all add: zero_attempt_def)+

context lifecycle_world begin

text \<open>Event \<open>e\<close> has been recorded after \<open>es\<close>, and the handle holds the fold of the whole stream.\<close>

definition recorded_at ::
  "lifecycle_event list \<Rightarrow> lifecycle_event \<Rightarrow> rebuild \<Rightarrow> ('db, 'c, 'x) world \<Rightarrow> bool" where
  "recorded_at es e r w \<longleftrightarrow> stream newV5 n (w_events w) = Some (es @ [e])
     \<and> at_prefix newV5 n (es @ [e]) (Suc (length es)) (rb_aggregate r)"

lemma recorded_at_cong: "recorded_at es e r w \<Longrightarrow> rb_aggregate r' = rb_aggregate r \<Longrightarrow> recorded_at es e r' w"
  by (simp add: recorded_at_def)

lemma appendLocked_alone:
  assumes "displays w es" "at_prefix newV5 n es (length es) (rb_aggregate r)" "others w = w" "healthy"
    and "room (w_events w) 2" "MarshalDomainEvent (domainEventCodec s) e = Inr b" "int (length es) < max_int64"
  shows "\<exists>r' w'. appendLocked o' others [e] r w = (None, r', w') \<and> recorded_at es e r' w'"
proof -
  have d: "valid (w_events w)" "stream newV5 n (w_events w) = Some es" using assms(1) by (simp_all add: shows_stream_def)
  obtain res a' db where save: "ES_Save lifecycle_domain s (w_events w) (Some (Append [e] (rb_aggregate r))) None = (res, a', db)"
    by (metis prod_cases3)
  moreover have "res = None" using save_alone [OF d(1) assms(5) d(2) assms(2,4,6,7)] save by simp
  moreover note save_prefix [OF d(1) assms(5) d(2) assms(2) _ _ save]
  ultimately show ?thesis
    using assms(3) by (auto simp: appendLocked_def authority Let_def recorded_at_def)
qed

lemma tip_named:
  assumes "displays w es" "at_prefix newV5 n es (length es) a" "st_Name (lifecycle_fold es) = n"
  shows "checkLifecycleAggregate newV5 a n = None"
  using checkLifecycleAggregate_prefix [OF assms(2)] assms at_prefix_state [OF assms(2)]
  by (simp add: shows_stream_def)

lemma recordTerminal_alone:
  assumes "displays w es" "follows es r" "\<And>w. others w = w" "healthy" "room (w_events w) 2"
    and "MarshalDomainEvent (domainEventCodec s) (event (lifecycle_fold es)) = Inr b" "int (length es) < max_int64"
    and "st_Name (lifecycle_fold es) = n" "es \<noteq> []" "refusal (lifecycle_fold es) = None"
  shows "\<exists>ended r' w'. recordTerminal newV5 o' others refusal event r w = Some (Inr (None, ended), r', w')
    \<and> recorded_at es (event (lifecycle_fold es)) r' w'"
proof -
  have name: "rb_name r = n" using assms(2) by (simp add: on_prefix_def)
  obtain es' res0 r1 where refold: "refoldLocked newV5 o' others r w = Some (res0, r1, others w)"
      "displays (others w) es'"
    and r1: "res0 \<noteq> None \<and> r1 = r \<and> es' = [] \<or>
     r1 = r\<lparr>rb_aggregate := rb_aggregate r1\<rparr> \<and> at_prefix newV5 n es' (length es') (rb_aggregate r1)
       \<and> res0 = checkLifecycleAggregate newV5 (rb_aggregate r1) n"
    by (rule refoldLocked_displays [OF assms(1) name])
  have "es' = es" using refold(2) assms(1,3) displays_unique by metis
  then have at: "at_prefix newV5 n es (length es) (rb_aggregate r1)" "res0 = None"
    using r1 assms(9) tip_named [OF assms(1) _ assms(8)] by auto
  obtain r2 w2 where app: "appendLocked o' others [event (lifecycle_fold es)] r1 w = (None, r2, w2)"
      "recorded_at es (event (lifecycle_fold es)) r2 w2"
    using appendLocked_alone [OF assms(1) at(1) assms(3-7)] by blast
  obtain ended r3 where e: "endRun (at_ID (Attempt (lifecycle_fold es))) r2 = (ended, r3)" by fastforce
  then have "rb_aggregate r3 = rb_aggregate r2" by (auto simp: endRun_def split: if_splits)
  then show ?thesis
    using refold(1) at assms(3,10) at_prefix_state [OF at(1)] app e recorded_at_cong
    by (auto simp: recordTerminal_def Let_def)
qed

lemma Rollback_alone:
  assumes "displays w es" "follows es r" "\<And>w. others w = w" "healthy" "room (w_events w) 2"
    and "MarshalDomainEvent (domainEventCodec s) (RolledBack (Live st) (Previous (Attempt st)) (CutoverRevision st + 1) now) = Inr b"
    and "int (length es) < max_int64" "st = lifecycle_fold es" "st_Name st = n" "rollbackRefusal st = None"
  shows "\<exists>r' w'. Rollback newV5 o' others now (Inr runErr) r w = Some (None, r', w') \<and> recorded_at es (RolledBack (Live st) (Previous (Attempt st)) (CutoverRevision st + 1) now) r' w'"
proof -
  have fp: "follows es (pauseRetries r)" using assms(2) by (simp add: follows_pause)
  have ne: "es \<noteq> []" using assms(8,10) by (auto simp: rollbackRefusal_def fold_Nil NewState_def zero_attempt_def)
  have "sound st" using assms(1,8) clean_sound by (simp add: shows_stream_def clean_def)
  moreover have "CutoverRevision st \<noteq> max_int64"
    using assms(10) by (auto simp: rollbackRefusal_def split: phase.splits if_splits)
  ultimately have "wrap64 (CutoverRevision st + 1) = CutoverRevision st + 1" by (rule sound_nowrap)
  then obtain ended r' w' where "recordTerminal newV5 o' others rollbackRefusal
      (\<lambda>s. RolledBack (Live s) (Previous (Attempt s)) (wrap64 (CutoverRevision s + 1)) now) (pauseRetries r) w
        = Some (Inr (None, ended), r', w')"
      "recorded_at es (RolledBack (Live st) (Previous (Attempt st)) (CutoverRevision st + 1) now) r' w'"
    using recordTerminal_alone [where refusal = rollbackRefusal and event = "\<lambda>s. RolledBack (Live s) (Previous (Attempt s))
          (wrap64 (CutoverRevision s + 1)) now", OF assms(1) fp assms(3-5) _ assms(7) assms(9) [unfolded assms(8)] ne
        assms(10) [unfolded assms(8)]] assms(6) unfolding assms(8) by auto
  moreover obtain r2 where "awaitProcessorStop (Inr runErr) r' = (None, r2)" "rb_aggregate r2 = rb_aggregate r'"
    by (rule stop_alone)
  ultimately show ?thesis by (cases ended) (auto simp: Rollback_def Let_def recorded_at_def handle_frame)
qed

lemma Abandon_alone:
  assumes "displays w es" "follows es r" "\<And>w. others w = w" "healthy" "room (w_events w) 2"
    and "MarshalDomainEvent (domainEventCodec s) (Abandoned cause) = Inr b"
    and "int (length es) < max_int64" "st = lifecycle_fold es" "st_Name st = n" "abandonRefusal st = None"
  shows "\<exists>r' w'. Abandon newV5 o' others cause (Inr runErr) r w = Some (None, r', w') \<and> recorded_at es (Abandoned cause) r' w'"
proof -
  have fp: "follows es (pauseRetries r)" using assms(2) by (simp add: follows_pause)
  have ne: "es \<noteq> []" using assms(8,10) by (auto simp: abandonRefusal_def fold_Nil NewState_def zero_attempt_def)
  obtain ended r' w' where "recordTerminal newV5 o' others abandonRefusal (\<lambda>s. Abandoned cause) (pauseRetries r) w
        = Some (Inr (None, ended), r', w')" "recorded_at es (Abandoned cause) r' w'"
    using recordTerminal_alone [where refusal = abandonRefusal and event = "\<lambda>_. Abandoned cause",
        OF assms(1) fp assms(3-7) assms(9) [unfolded assms(8)] ne assms(10) [unfolded assms(8)]] by blast
  moreover obtain r2 where "awaitProcessorStop (Inr runErr) r' = (None, r2)" "rb_aggregate r2 = rb_aggregate r'"
    by (rule stop_alone)
  ultimately show ?thesis by (cases ended) (auto simp: Abandon_def Let_def errors_join_def recorded_at_def handle_frame)
qed

lemma Promote_alone:
  assumes "displays w es" "at_prefix newV5 n es (length es) (rb_aggregate r)" "rb_name r = n"
    and "\<And>w. others w = w" "healthy" "room (w_events w) 2"
    and "MarshalDomainEvent (domainEventCodec s) (Promoted (Live st) (Target (Attempt st)) (CutoverRevision st + 1)
         (Generation (RetirementPolicy st)) now) = Inr b"
    and "int (length es) < max_int64" "st = lifecycle_fold es" "st_Name st = n"
    and "at_Phase (Attempt st) = PhaseCaughtUp" "certificate_refusal r = None" "CutoverRevision st \<noteq> max_int64"
  shows "\<exists>r' w'. Promote newV5 o' others now r w = (None, r', w') \<and> recorded_at es (Promoted (Live st)
    (Target (Attempt st)) (CutoverRevision st + 1) (Generation (RetirementPolicy st)) now) r' w'"
proof -
  have "sound st" using assms(1,9) clean_sound by (simp add: shows_stream_def clean_def)
  then have wrap: "wrap64 (CutoverRevision st + 1) = CutoverRevision st + 1" using assms(13) by (rule sound_nowrap)
  then obtain r1 w1 where "appendLocked o' others [Promoted (Live st) (Target (Attempt st)) (wrap64 (CutoverRevision st + 1))
         (Generation (RetirementPolicy st)) now] r w = (None, r1, w1)"
      "recorded_at es (Promoted (Live st) (Target (Attempt st)) (CutoverRevision st + 1) (Generation (RetirementPolicy st)) now) r1 w1"
    using appendLocked_alone [OF assms(1,2,4-6)] assms(7,8) by metis
  then show ?thesis
    using tip_named [OF assms(1,2)] at_prefix_state [OF assms(2)] assms(3,9-13) wrap
    by (auto simp: Promote_def Let_def recorded_at_def)
qed

lemma recorded_displays:
  assumes "keeps es r' w'" "recorded_at es e r w'"
  shows "displays w' (es @ [e]) \<and> Rebuild_State r = lifecycle_fold (es @ [e])"
proof -
  obtain es' where es': "displays w' es'" using assms(1) unfolding carried_def by blast
  then have "es' = es @ [e]" using assms(2) by (simp add: shows_stream_def recorded_at_def)
  then show ?thesis using es' assms(2) by (simp add: recorded_at_def at_prefix_def Rebuild_State_def)
qed

text \<open>A rebuild begins on a lifecycle stream with no attempt in flight.\<close>

lemma Begin_alone:
  assumes "displays w es" "\<And>w. others w = w" "healthy" "room (w_events w) 2" "StreamUUID newV5 n \<noteq> uuid_nil"
    and "st = lifecycle_fold es" "es \<noteq> []" "st_Name st = n" "at_Phase (Attempt st) = PhaseNone" "int (length es) < max_int64"
    and "target = \<lparr>Name = n, Version = wrap64 (Allocated st + 1)\<rparr>" "projection_Validate target = None"
    and "MarshalDomainEvent (domainEventCodec s) (RebuildInitiated fresh target (Live st) reason now) = Inr b"
  shows "\<exists>r w'. Begin newV5 o' others fresh now n reason w = Some (Inr r, w')"
proof -
  have d: "valid (w_events w)" "stream newV5 n (w_events w) = Some es" using assms(1) by (simp_all add: shows_stream_def)
  obtain a where a: "ES_Load lifecycle_domain s (w_events w) (StreamUUID newV5 n) None = Some (Inr a)"
      "at_prefix newV5 n es (length es) a"
    using Load_prefix [OF d assms(5)] assms(7) by blast
  have chk: "checkLifecycleAggregate newV5 a n = None"
    using tip_named [OF assms(1) a(2)] assms(6,8) by simp
  have "fst (ES_Save lifecycle_domain s (w_events w) (Some (Append [RebuildInitiated fresh target (Live st) reason now] a)) None) = None"
    by (rule save_alone [OF d(1) assms(4) d(2) a(2) assms(3,13,10)])
  then show ?thesis
    using a(1) chk at_prefix_state [OF a(2)] assms(2,6,9,11,12)
    by (auto simp: Begin_def Let_def authority split: prod.splits)
qed

end

end
