(* ===== verification/MemoryLifecycle.thy ===== *)
theory MemoryLifecycle
  imports OrchestratorProps CommandLiveness
begin

text \<open>
  The lifecycle store over the in-memory event store, as \<open>NewStore\<close> wires it, with the codec a
  parameter: it keeps the contract of \<open>lifecycle_authority\<close> whenever the codec reads back what it
  writes. A rival orchestrator's commands are an instance of what \<open>lifecycle_world\<close> assumes of
  everybody else.
\<close>

section \<open>The store\<close>

definition lifecycle_prototypes :: "string \<rightharpoonup> lifecycle_event event_value" where
  "lifecycle_prototypes = map_of (map (\<lambda>p. (proto_EventType p, proto_New p)) allDomainEvents)"

abbreviation memory_lifecycle_store ::
  "(uuid \<Rightarrow> string) \<Rightarrow> (nat \<Rightarrow> uuid) \<Rightarrow> (nat \<Rightarrow> time) \<Rightarrow> lifecycle_event event_codec
   \<Rightarrow> (event_store, stream_iterator) lifecycle_store" where
  "memory_lifecycle_store ustr fresh now codec \<equiv>
     memory_es_store ustr fresh now StreamType NewState codec lifecycle_prototypes"

lemma event_types_valid:
  "ValidateTypeName StreamType = None" "hasPrefix StreamType ReservedStreamTypePrefix" "reserved_Allowed StreamType"
  "list_all (\<lambda>p. ValidateTypeName (proto_EventType p) = None) allDomainEvents"
  "distinct (map proto_EventType allDomainEvents)"
  by code_simp+

lemma Use_prototypes:
  assumes "list_all (\<lambda>p. ValidateTypeName (proto_EventType p) = None) ps" "distinct (map proto_EventType ps)"
    and "dom (domainEventPrototypes S) \<inter> set (map proto_EventType ps) = {}"
  shows "Use ps S = (None, S\<lparr>domainEventPrototypes := fold (\<lambda>p m. m(proto_EventType p \<mapsto> pointerConstructor (proto_New p)))
    ps (domainEventPrototypes S)\<rparr>)"
  using assms by (induction ps S rule: Use.induct) (auto simp: Let_def)

lemma NewStore_memory:
  "NewStore codec ((ReadStream ustr, Next), AppendStream ustr fresh now)
     = Inr (memory_lifecycle_store ustr fresh now codec)"
proof -
  have "fold (\<lambda>p m. m(proto_EventType p \<mapsto> pointerConstructor (proto_New p))) allDomainEvents Map.empty
      = lifecycle_prototypes"
    by (rule ext) (simp add: allDomainEvents_def lifecycle_prototypes_def)
  then show ?thesis
    using event_types_valid
    by (simp add: NewStore_def New_EventSourcedStore_def WithEventTypes_def Use_prototypes memory_es_store_def Let_def)
qed

text \<open>The codec reads back every event it writes.\<close>

definition reads_back :: "lifecycle_event event_codec \<Rightarrow> bool" where
  "reads_back codec \<longleftrightarrow> (\<forall>e b. MarshalDomainEvent codec e = Inr b \<longrightarrow>
     UnmarshalDomainEvent codec b (the (lifecycle_prototypes (lifecycle_EventType e))) = Inr e)"

lemma prototypes_complete:
  "\<exists>v. lifecycle_prototypes (lifecycle_EventType e) = Some v \<and> v \<noteq> Nil_event"
  by (cases e) (simp_all add: lifecycle_prototypes_def allDomainEvents_def)

lemma lifecycle_types_utf8: "to_utf8 (lifecycle_EventType e) = lifecycle_EventType e"
  by (cases e) (simp_all add: byte_in_def)

lemma reads_back_codec:
  "reads_back codec \<Longrightarrow> codec_ok lifecycle_domain (memory_lifecycle_store ustr fresh now codec) e"
  using prototypes_complete [of e]
  by (auto simp: codec_ok_def reads_back_def lifecycle_domain_def memory_es_store_def lifecycle_types_utf8) (metis option.sel)

lemma memory_authority:
  "reads_back codec \<Longrightarrow> lifecycle_authority (ReadStream ustr) Next (AppendStream ustr fresh now)
     (stream_view ustr) (store_valid ustr) (\<lambda>st n. globalCounter st + int n < max_int64)
     (\<forall>i. json_year_ok (now i)) (memory_lifecycle_store ustr fresh now codec)"
  by (intro lifecycle_authority.intro lifecycle_authority_axioms.intro memory_es.es_aggregates_axioms reads_back_codec)
    (auto simp: memory_es_store_def)

section \<open>A codec\<close>

text \<open>A codec that knows the events of a table and writes an event as its index there.\<close>

definition table_codec :: "lifecycle_event list \<Rightarrow> lifecycle_event event_codec" where
  "table_codec tbl = \<lparr>MarshalDomainEvent = (\<lambda>e. if e \<in> set (take 256 tbl)
       then Inr [of_nat (length (takeWhile (\<lambda>x. x \<noteq> e) (take 256 tbl)))] else Inl (Text ''unknown event'')),
     UnmarshalDomainEvent = (\<lambda>bs v. case bs of [b] \<Rightarrow> Inr (take 256 tbl ! unat b) | _ \<Rightarrow> Inl (Text ''invalid'')),
     codec_ContentType = ''table''\<rparr>"

lemma table_reads_back: "reads_back (table_codec tbl)"
proof -
  have "take 256 tbl ! unat (of_nat (length (takeWhile (\<lambda>x. x \<noteq> e) (take 256 tbl))) :: 8 word) = e"
    if "e \<in> set (take 256 tbl)" for e
  proof -
    let ?k = "length (takeWhile (\<lambda>x. x \<noteq> e) (take 256 tbl))"
    have "takeWhile (\<lambda>x. x \<noteq> e) (take 256 tbl) \<noteq> take 256 tbl"
      using that by (auto simp: takeWhile_eq_all_conv)
    then have "?k < length (take 256 tbl)"
      by (metis length_takeWhile_le nat_less_le takeWhile_eq_take take_all order_refl)
    then have "?k < 256" "unat (of_nat ?k :: 8 word) = ?k" "take 256 tbl ! ?k = e"
      using nth_length_takeWhile [of "\<lambda>x. x \<noteq> e" "take 256 tbl"] by (auto simp: unat_of_nat)
    then show ?thesis by simp
  qed
  then show ?thesis by (simp add: reads_back_def table_codec_def split: if_splits)
qed

interpretation memory_lifecycle: lifecycle_authority "ReadStream ustr" Next "AppendStream ustr fresh now"
    "stream_view ustr" "store_valid ustr" "\<lambda>st n. globalCounter st + int n < max_int64"
    "\<forall>i. json_year_ok (now i)" "memory_lifecycle_store ustr fresh now (table_codec tbl)"
  for ustr fresh now tbl
  by (rule memory_authority [OF table_reads_back])

section \<open>The world of a projection\<close>

abbreviation memory_room :: "event_store \<Rightarrow> nat \<Rightarrow> bool" where
  "memory_room st k \<equiv> globalCounter st + int k < max_int64"

abbreviation memory_shows ::
  "(uuid \<Rightarrow> string) \<Rightarrow> (event_store, stream_iterator) lifecycle_store \<Rightarrow> (uuid \<Rightarrow> string \<Rightarrow> uuid) \<Rightarrow> string
   \<Rightarrow> (event_store, 'c, 'x) world \<Rightarrow> lifecycle_event list \<Rightarrow> bool" where
  "memory_shows ustr \<equiv> shows_stream (store_valid ustr) (stream_view ustr)"

text \<open>
  What a command assumes of everybody else: they keep the event store valid and, when the
  projection's stream is clean, only ever extend it cleanly.
\<close>

definition coexists ::
  "(uuid \<Rightarrow> string) \<Rightarrow> (event_store, stream_iterator) lifecycle_store \<Rightarrow> (uuid \<Rightarrow> string \<Rightarrow> uuid) \<Rightarrow> string
   \<Rightarrow> ((event_store, 'c, 'x) world \<Rightarrow> (event_store, 'c, 'x) world) \<Rightarrow> bool" where
  "coexists ustr S newV5 n others \<longleftrightarrow>
     (\<forall>w. store_valid ustr (w_events w) \<longrightarrow> store_valid ustr (w_events (others w)))
     \<and> (\<forall>w es. memory_shows ustr S newV5 n w es \<longrightarrow> (\<exists>fs. memory_shows ustr S newV5 n (others w) (es @ fs)))"

lemma coexists_id [simp]: "coexists ustr S newV5 n (\<lambda>w. w)"
  by (auto simp: coexists_def intro: exI [of _ "[]"])

lemma memory_world:
  assumes "reads_back codec" "S = memory_lifecycle_store ustr fresh now codec" "authority o' = S"
    and "coexists ustr S newV5 n others"
  shows "lifecycle_world (ReadStream ustr) Next (AppendStream ustr fresh now) (stream_view ustr) (store_valid ustr)
     memory_room (\<forall>i. json_year_ok (now i)) S newV5 n o' others"
proof -
  have "lifecycle_authority (ReadStream ustr) Next (AppendStream ustr fresh now) (stream_view ustr) (store_valid ustr)
     memory_room (\<forall>i. json_year_ok (now i)) S" unfolding assms(2) by (rule memory_authority [OF assms(1)])
  moreover have "lifecycle_world_axioms (stream_view ustr) (store_valid ustr) S newV5 n o' others"
    using assms(3,4)
    by unfold_locales (auto simp: coexists_def shows_stream_def lifecycle_stream_def)
  ultimately show ?thesis by (rule lifecycle_world.intro)
qed

text \<open>The positions a save takes.\<close>

lemma memory_save_counter:
  assumes "store_valid ustr st" "globalCounter st + int (length (unsavedEvents a)) < max_int64"
    and "ES_Save d (memory_es_store ustr fresh now atype sf codec protos) st (Some a) opts = (res, a', st')"
  shows "store_valid ustr st' \<and> globalCounter st' \<le> globalCounter st + int (length (unsavedEvents a))"
proof (cases "st' = st")
  case False
  then obtain ws where ws: "writable_events d codec (agg_id a) (unsavedEvents a) = Inr ws"
      "st' = snd (AppendStream ustr fresh now st (agg_id a) ws \<lparr>ExpectVersion = VersionPtr (agg_version a), StreamMustNotExist = False\<rparr>)"
    using assms(3) by (auto simp: ES_Save_def memory_es_store_def Let_def
        split: if_splits sum.splits prod.splits option.splits)
  have len: "length ws = length (unsavedEvents a)" using writable_events_ok [OF ws(1)] by (simp add: list_all2_lengthD)
  obtain r where "AppendStream ustr fresh now st (agg_id a) ws
      \<lparr>ExpectVersion = VersionPtr (agg_version a), StreamMustNotExist = False\<rparr> = (r, st')"
    using ws(2) by (metis prod.collapse)
  then show ?thesis
    using AppendStream_outcome [OF store_validD(1) [OF assms(1)] _ refl] assms(2) len
    by (force simp: store_valid_def)
qed (use assms in simp)

text \<open>\<open>B\<close> bounds the positions that the others take.\<close>

lemma memory_moments:
  assumes "moments o' others w k v" "authority o' = memory_es_store ustr fresh now atype sf codec protos"
    and "\<And>v. store_valid ustr (w_events v) \<Longrightarrow> store_valid ustr (w_events (others v))
      \<and> globalCounter (w_events (others v)) \<le> max (globalCounter (w_events v)) B"
    and "store_valid ustr (w_events w)" "globalCounter (w_events w) \<le> B" "B + 2 * int k < max_int64"
  shows "store_valid ustr (w_events v) \<and> globalCounter (w_events v) \<le> B + 2 * int k"
  using assms(1,2,4-6)
proof (induction rule: moments.induct)
  case (appends k v a res a' db)
  then show ?case using memory_save_counter [of ustr "w_events v" a] by fastforce
next
  case (other k v)
  then show ?case using assms(3) [of v] by force
qed auto

lemma memory_roomy_beside:
  assumes "authority o' = memory_es_store ustr fresh now atype sf codec protos"
    and "\<And>v. store_valid ustr (w_events v) \<Longrightarrow> store_valid ustr (w_events (others v))
      \<and> globalCounter (w_events (others v)) \<le> max (globalCounter (w_events v)) B"
    and "store_valid ustr (w_events w)" "globalCounter (w_events w) \<le> B" "B + 4 < max_int64"
  shows "roomy memory_room o' others w"
  unfolding roomy_def
proof (intro allI impI)
  fix k v assume m: "moments o' others w k v" and k: "k \<le> 1"
  then show "memory_room (w_events v) 2"
    using memory_moments [OF m assms(1-4)] assms(5) by (cases k) auto
qed

lemma memory_roomy:
  assumes "authority o' = memory_es_store ustr fresh now atype sf codec protos"
    and "store_valid ustr (w_events w)" "globalCounter (w_events w) + 4 < max_int64"
  shows "roomy memory_room o' (\<lambda>w. w) w"
  by (rule memory_roomy_beside [OF assms(1) _ assms(2) order_refl assms(3)]) simp

end
