(* ===== verification/CommandSystem.thy ===== *)
theory CommandSystem
  imports OrchestratorProps
begin

text \<open>
  The orchestrator as a system: any number of handles on one projection, and their commands in any
  order. What every command guarantees is what it assumes of everybody else, so in every reachable
  state the stream is clean and every handle is on a prefix of it.
\<close>

section \<open>Commands\<close>

datatype lifecycle_command =
    CBegin uuid time string
  | CResume
  | CSetPolicy time policy_change
  | CPromote time
  | CRollback time "sentinel + sentinel option"
  | CAbandon string "sentinel + sentinel option"
  | CRetire time "(string \<times> string) list"

text \<open>
  A command of the orchestrator, or of a handle when there is one; \<open>None\<close> when the command does
  not end or is of the other kind. The handle that results, if any.
\<close>

fun run_command ::
  "(uuid \<Rightarrow> string \<Rightarrow> uuid) \<Rightarrow> ('db, 'i, 'g, 'c, 'x, 'p) orchestrator
   \<Rightarrow> (('db, 'c, 'x) world \<Rightarrow> ('db, 'c, 'x) world) \<Rightarrow> string \<Rightarrow> lifecycle_command \<Rightarrow> rebuild option
   \<Rightarrow> ('db, 'c, 'x) world \<Rightarrow> (rebuild option \<times> ('db, 'c, 'x) world) option" where
  "run_command newV5 o' others n (CBegin fresh now reason) None w =
     map_option (\<lambda>(r, w'). (case r of Inl _ \<Rightarrow> None | Inr h \<Rightarrow> Some h, w')) (Begin newV5 o' others fresh now n reason w)"
| "run_command newV5 o' others n CResume None w =
     map_option (\<lambda>(r, w'). (case r of Inl _ \<Rightarrow> None | Inr h \<Rightarrow> Some h, w')) (Resume newV5 o' others n w)"
| "run_command newV5 o' others n (CSetPolicy now change) None w =
     map_option (\<lambda>(e, w'). (None, w')) (SetRetirementPolicy newV5 o' others now n change w)"
| "run_command newV5 o' others n (CPromote now) (Some r) w =
     Some (map_prod Some id (snd (Promote newV5 o' others now r w)))"
| "run_command newV5 o' others n (CRollback now awaited) (Some r) w =
     map_option (\<lambda>(e, r', w'). (Some r', w')) (Rollback newV5 o' others now awaited r w)"
| "run_command newV5 o' others n (CAbandon cause awaited) (Some r) w =
     map_option (\<lambda>(e, r', w'). (Some r', w')) (Abandon newV5 o' others cause awaited r w)"
| "run_command newV5 o' others n (CRetire now overrides) (Some r) w =
     map_option (\<lambda>(e, r', w'). (Some r', w'))
       (Retire newV5 o' others now (map (\<lambda>(actor, reason). Some (WithRetirementOverride actor reason)) overrides) r w)"
| "run_command newV5 o' others n cmd h w = None"

text \<open>The attempt ID a \<open>Begin\<close> draws is a fresh version-4 UUID, so not the nil one.\<close>

definition fresh_ids :: "lifecycle_command \<Rightarrow> bool" where
  "fresh_ids cmd \<longleftrightarrow> (case cmd of CBegin fresh _ _ \<Rightarrow> fresh \<noteq> uuid_nil | _ \<Rightarrow> True)"

section \<open>The system\<close>

inductive system_step ::
  "('db \<Rightarrow> nat \<Rightarrow> bool) \<Rightarrow> (uuid \<Rightarrow> string \<Rightarrow> uuid) \<Rightarrow> ('db, 'i, 'g, 'c, 'x, 'p) orchestrator
   \<Rightarrow> (('db, 'c, 'x) world \<Rightarrow> ('db, 'c, 'x) world) \<Rightarrow> string
   \<Rightarrow> rebuild list \<times> ('db, 'c, 'x) world \<Rightarrow> rebuild list \<times> ('db, 'c, 'x) world \<Rightarrow> bool"
  for room newV5 o' others n where
  orchestrate: "roomy room o' others w \<Longrightarrow> fresh_ids cmd \<Longrightarrow>
    run_command newV5 o' others n cmd None w = Some (h, w') \<Longrightarrow>
    system_step room newV5 o' others n (hs, w) (hs @ (case h of None \<Rightarrow> [] | Some r \<Rightarrow> [r]), w')"
| handle: "roomy room o' others w \<Longrightarrow> i < length hs \<Longrightarrow>
    run_command newV5 o' others n cmd (Some (hs ! i)) w = Some (Some r', w') \<Longrightarrow>
    system_step room newV5 o' others n (hs, w) (hs[i := r'], w')"
| elsewhere: "system_step room newV5 o' others n (hs, w) (hs, others w)"

inductive_cases run_handle: "system_step room newV5 o' others n (hs, w) z"

context lifecycle_world begin

lemma roomy_next:
  assumes "roomy room o' others w"
  shows "room (w_events (others w)) 2" "room (w_events (others (others w))) 2"
  using assms moments.other [OF moments.begins] moments.other [OF moments.other [OF moments.begins]]
  unfolding roomy_def by blast+

lemma run_command_keeps:
  assumes "displays w es" "roomy room o' others w" "fresh_ids cmd" "\<And>r. h = Some r \<Longrightarrow> follows es r"
    and "run_command newV5 o' others n cmd h w = Some (h', w')"
  shows "\<exists>es'. displays w' es' \<and> prefix es es' \<and> (\<forall>r. h' = Some r \<longrightarrow> follows es' r)"
proof -
  note room = roomy_next [OF assms(2)]
  have kept: ?thesis if "keeps es r' w'" "h' = Some r'" for r'
    using that by (auto simp: carried_def)
  show ?thesis
  proof (cases cmd)
    case (CBegin fresh now reason)
    then obtain res where run: "h = None" "Begin newV5 o' others fresh now n reason w = Some (res, w')"
        "h' = (case res of Inl _ \<Rightarrow> None | Inr r \<Rightarrow> Some r)"
      using assms(5) by (cases h) auto
    have "fresh \<noteq> uuid_nil" using assms(3) CBegin by (simp add: fresh_ids_def)
    from Begin_keeps [OF assms(1) run(2) assms(2) this] obtain es' where es': "displays w' es'" "prefix es es'"
      "\<forall>r. res = Inr r \<longrightarrow> r = new_rebuild n (rb_aggregate r) \<and> at_prefix newV5 n es' (length es') (rb_aggregate r)"
      by auto
    have "follows es' r" if "h' = Some r" for r
    proof (rule at_prefix_follows)
      have "res = Inr r" using that run(3) by (auto split: sum.splits)
      then have r: "r = new_rebuild n (rb_aggregate r) \<and> at_prefix newV5 n es' (length es') (rb_aggregate r)"
        using es'(3) by blast
      show "rb_name r = n" using conjunct1 [OF r] by (metis new_rebuild_def rebuild.select_convs(1))
      show "at_prefix newV5 n es' (length es') (rb_aggregate r)" using r by blast
    qed
    then show ?thesis using es' by blast
  next
    case CResume
    then obtain res where "h = None" "Resume newV5 o' others n w = Some (res, w')"
        "h' = (case res of Inl _ \<Rightarrow> None | Inr r \<Rightarrow> Some r)"
      using assms(5) by (cases h) auto
    then show ?thesis using Resume_follows [OF assms(1)] by (fastforce split: sum.splits)
  next
    case (CSetPolicy now change)
    then obtain res where "SetRetirementPolicy newV5 o' others now n change w = Some (res, w')" "h' = None"
      using assms(5) by (cases h) auto
    then show ?thesis using SetRetirementPolicy_keeps [OF assms(1) _ assms(2)] by fastforce
  next
    case (CPromote now)
    then obtain r res r' where "h = Some r" "h' = Some r'" "Promote newV5 o' others now r w = (res, r', w')"
      using assms(5) by (cases h; cases "Promote newV5 o' others now (the h) w") auto
    then show ?thesis using Promote_keeps [OF assms(1) assms(4) _ room(1)] kept by blast
  next
    case (CRollback now awaited)
    then obtain r res r' where "h = Some r" "h' = Some r'" "Rollback newV5 o' others now awaited r w = Some (res, r', w')"
      using assms(5) by (cases h) auto
    then show ?thesis using Rollback_keeps [OF assms(1) assms(4) _ room(2)] kept by blast
  next
    case (CAbandon cause awaited)
    then obtain r res r' where "h = Some r" "h' = Some r'" "Abandon newV5 o' others cause awaited r w = Some (res, r', w')"
      using assms(5) by (cases h) auto
    then show ?thesis using Abandon_keeps [OF assms(1) assms(4) _ room(2)] kept by blast
  next
    case (CRetire now overrides)
    let ?opts = "map (\<lambda>(actor, reason). Some (WithRetirementOverride actor reason)) overrides"
    obtain r res r' where "h = Some r" "h' = Some r'" "Retire newV5 o' others now ?opts r w = Some (res, r', w')"
      using CRetire assms(5) by (cases h) auto
    note run = this
    have "\<forall>opt \<in> set ?opts. \<exists>actor reason. opt = Some (WithRetirementOverride actor reason)" by auto
    then obtain prev where "retired_outcome prev w es (Retire newV5 o' others now ?opts r w)"
      using Retire_outcome [OF assms(1) assms(4) [OF run(1)] _ assms(2)] by blast
    then have "keeps es r' w'" using run(3) by (simp add: retired_outcome_def)
    then show ?thesis using kept run(2) by blast
  qed
qed

text \<open>The invariant of the system.\<close>

definition all_follow :: "rebuild list \<times> ('db, 'c, 'x) world \<Rightarrow> lifecycle_event list \<Rightarrow> bool" where
  "all_follow z es \<longleftrightarrow> displays (snd z) es \<and> (\<forall>r \<in> set (fst z). follows es r)"

lemma system_step_follows:
  assumes "system_step room newV5 o' others n z z'" "all_follow z es"
  shows "\<exists>es'. prefix es es' \<and> all_follow z' es'"
  using assms
proof (induction rule: system_step.induct)
  case (orchestrate w cmd h w' hs)
  then show ?case
    using run_command_keeps [OF _ orchestrate(1,2) _ orchestrate(3), of es] follows_mono
    by (auto simp: all_follow_def split: option.splits; blast)
next
  case (handle w i hs cmd r' w')
  have "fresh_ids cmd" using handle(3) by (cases cmd) (simp_all add: fresh_ids_def)
  moreover have "follows es (hs ! i)" "displays w es" using handle(2,4) by (auto simp: all_follow_def)
  ultimately obtain es' where es': "displays w' es'" "prefix es es'" "follows es' r'"
    using run_command_keeps [OF _ handle(1) _ _ handle(3), of es] by blast
  have "\<forall>r \<in> set hs. follows es' r" using handle(4) follows_mono [OF _ es'(2)] by (simp add: all_follow_def)
  then have "\<forall>r \<in> set (hs[i := r']). follows es' r"
    using es'(3) set_update_subset_insert [of hs i r'] by blast
  then show ?case using es' by (auto simp: all_follow_def)
next
  case (elsewhere hs w)
  then show ?case
    using displays_others [of w es] follows_mono unfolding all_follow_def by (metis fst_conv snd_conv)
qed

lemma system_steps_follow:
  assumes "(system_step room newV5 o' others n)\<^sup>*\<^sup>* z z'" "all_follow z es"
  shows "\<exists>es'. prefix es es' \<and> all_follow z' es'"
  using assms
proof (induction rule: rtranclp_induct)
  case (step y z)
  then show ?case using system_step_follows prefix_order.trans by metis
qed auto

end

end
