(* ===== verification/OrchestratorClaims.thy ===== *)
theory OrchestratorClaims
  imports MemoryLifecycle CommandSystem CommandLiveness
begin

text \<open>
  The properties of the orchestrator and of its handles' commands, over the in-memory event store
  and beside any other writers that coexist, the orchestrator's own commands among them; and the
  worlds on which they are exercised.
\<close>

section \<open>Worlds\<close>

abbreviation demo_store :: "lifecycle_event list \<Rightarrow> (event_store, stream_iterator) lifecycle_store" where
  "demo_store tbl \<equiv> memory_lifecycle_store (\<lambda>_. '''') (\<lambda>_. 7) (\<lambda>_. 0) (table_codec tbl)"

text \<open>An aggregate at the tip of a stream.\<close>

definition tip_aggregate :: "(uuid \<Rightarrow> string \<Rightarrow> uuid) \<Rightarrow> string \<Rightarrow> lifecycle_event list \<Rightarrow> lifecycle_aggregate" where
  "tip_aggregate newV5 n es = \<lparr>agg_id = New_id StreamType (StreamUUID newV5 n), agg_version = int (length es),
     agg_state = lifecycle_fold es, unsavedEvents = [], unappliedEvents = []\<rparr>"

lemma tip_aggregate_at [simp]: "at_prefix newV5 n es (length es) (tip_aggregate newV5 n es)"
  by (simp add: at_prefix_def tip_aggregate_def)

lemma json_year_0 [simp]: "json_year_ok 0"
  by (simp add: json_year_ok_def)

text \<open>The in-memory store can show any clean stream of events the codec knows.\<close>

lemma demo_shows:
  assumes "clean es" "set es \<subseteq> set (take 256 tbl)" "length es \<le> 256"
  shows "\<exists>st. memory_shows (\<lambda>_. '''') (demo_store tbl) newV5 n \<lparr>w_events = st, w_checkpoints = c, w_rest = x\<rparr> es
    \<and> globalCounter st \<le> int (length es)"
  using assms
proof (induction es rule: rev_induct)
  case Nil
  have "lifecycle_stream (stream_view (\<lambda>_. '''')) (demo_store tbl) newV5 n NewEventStore = Some []"
    by (simp add: lifecycle_stream_def stream_of_def stream_view_def NewEventStore_def never_written_def)
  then show ?case
    by (intro exI [of _ NewEventStore]) (simp add: shows_stream_def store_valid_New, simp add: NewEventStore_def)
next
  case (snoc e es)
  let ?S = "demo_store tbl" and ?a = "tip_aggregate newV5 n es"
  obtain st where st: "memory_shows (\<lambda>_. '''') ?S newV5 n \<lparr>w_events = st, w_checkpoints = c, w_rest = x\<rparr> es"
      "globalCounter st \<le> int (length es)"
    using snoc clean_append by fastforce
  then have v: "store_valid (\<lambda>_. '''') st" "lifecycle_stream (stream_view (\<lambda>_. '''')) ?S newV5 n st = Some es"
    by (simp_all add: shows_stream_def)
  have room: "globalCounter st + int 2 < max_int64" using st(2) snoc.prems(3) by (simp add: max_int64_def)
  obtain res a' st' where save: "ES_Save lifecycle_domain ?S st (Some (Append [e] ?a)) None = (res, a', st')"
    by (metis prod_cases3)
  obtain b where b: "MarshalDomainEvent (domainEventCodec ?S) e = Inr b"
    using snoc.prems(2) by (simp add: memory_es_store_def table_codec_def)
  have "fst (ES_Save lifecycle_domain ?S st (Some (Append [e] ?a)) None) = None"
    by (rule memory_lifecycle.save_alone [OF v(1) room v(2) tip_aggregate_at _ b])
      (use snoc.prems(3) in \<open>simp_all add: max_int64_def\<close>)
  then have "res = None" using save by simp
  then have "store_valid (\<lambda>_. '''') st' \<and> lifecycle_stream (stream_view (\<lambda>_. '''')) ?S newV5 n st' = Some (es @ [e])"
    using memory_lifecycle.save_prefix [OF v(1) room v(2) tip_aggregate_at _ _ save] by simp
  moreover have "globalCounter st' \<le> globalCounter st + 1"
    using memory_save_counter [OF v(1) _ save] room
    by (simp add: tip_aggregate_def Append_def AppendWithMetadata_def)
  ultimately show ?case using snoc.prems(1) st(2) by (intro exI [of _ st']) (simp add: shows_stream_def)
qed

section \<open>A rival orchestrator\<close>

text \<open>
  A rival orchestrator acts when the projection's stream reads cleanly and the store has positions
  left: it runs a command of its own, on a handle it resumes when the command needs one.
\<close>

definition rival ::
  "(uuid \<Rightarrow> string) \<Rightarrow> (uuid \<Rightarrow> string \<Rightarrow> uuid) \<Rightarrow> (event_store, stream_iterator, 'g, 'c, 'x, 'p) orchestrator
   \<Rightarrow> string \<Rightarrow> lifecycle_command \<Rightarrow> (event_store, 'c, 'x) world \<Rightarrow> (event_store, 'c, 'x) world" where
  "rival ustr newV5 o' n cmd w =
     (case lifecycle_stream (stream_view ustr) (authority o') newV5 n (w_events w) of
        None \<Rightarrow> w
      | Some es \<Rightarrow>
          if \<not> clean es \<or> max_int64 \<le> globalCounter (w_events w) + 4 \<or> \<not> fresh_ids cmd then w
          else case run_command newV5 o' (\<lambda>w. w) n cmd None w of
            Some (_, w') \<Rightarrow> w'
          | None \<Rightarrow> (case run_command newV5 o' (\<lambda>w. w) n CResume None w of
              Some (Some r, w1) \<Rightarrow> (case run_command newV5 o' (\<lambda>w. w) n cmd (Some r) w1 of
                Some (_, w2) \<Rightarrow> w2 | None \<Rightarrow> w1)
            | _ \<Rightarrow> w))"

lemma rival_coexists:
  assumes "reads_back codec" "S = memory_lifecycle_store ustr fresh now codec" "authority o' = S"
  shows "coexists ustr S newV5 n (rival ustr newV5 o' n cmd)"
proof -
  have alone: "lifecycle_world (ReadStream ustr) Next (AppendStream ustr fresh now) (stream_view ustr) (store_valid ustr)
     memory_room (\<forall>i. json_year_ok (now i)) S newV5 n o' (\<lambda>w. w)"
    by (rule memory_world [OF assms coexists_id])
  have acts: "\<exists>es'. memory_shows ustr S newV5 n (rival ustr newV5 o' n cmd w) es' \<and> prefix es es'"
    if shown: "memory_shows ustr S newV5 n w es" for w es
  proof (cases "globalCounter (w_events w) + 4 < max_int64 \<and> fresh_ids cmd")
    case False
    then have "rival ustr newV5 o' n cmd w = w"
      using shown assms(3) by (auto simp: rival_def shows_stream_def)
    then show ?thesis using shown by auto
  next
    case True
    have room: "roomy memory_room o' (\<lambda>w. w) w"
      by (rule memory_roomy [OF assms(3) [unfolded assms(2)]]) (use shown True in \<open>simp_all add: shows_stream_def\<close>)
    note keeps = lifecycle_world.run_command_keeps [OF alone]
    have still: "w1 = w" if "run_command newV5 o' (\<lambda>w. w) n CResume None w = Some (h, w1)" for h w1
      using that by (auto simp: Resume_def Let_def split: option.splits sum.splits)
    have run: "rival ustr newV5 o' n cmd w = (case run_command newV5 o' (\<lambda>w. w) n cmd None w of
            Some (_, w') \<Rightarrow> w'
          | None \<Rightarrow> (case run_command newV5 o' (\<lambda>w. w) n CResume None w of
              Some (Some r, w1) \<Rightarrow> (case run_command newV5 o' (\<lambda>w. w) n cmd (Some r) w1 of
                Some (_, w2) \<Rightarrow> w2 | None \<Rightarrow> w1)
            | _ \<Rightarrow> w))"
      using shown assms(3) True by (simp add: rival_def shows_stream_def)
    show ?thesis
    proof (cases "run_command newV5 o' (\<lambda>w. w) n cmd None w")
      case (Some z)
      obtain h w' where z: "z = (h, w')" by fastforce
      then have "rival ustr newV5 o' n cmd w = w'" using run Some by simp
      then show ?thesis using keeps [OF shown room conjunct2 [OF True] _ Some [unfolded z]] by auto
    next
      case None
      show ?thesis
      proof (cases "\<exists>r h w'. run_command newV5 o' (\<lambda>w. w) n CResume None w = Some (Some r, w)
          \<and> run_command newV5 o' (\<lambda>w. w) n cmd (Some r) w = Some (h, w')")
        case True
        then obtain r h w' where r: "run_command newV5 o' (\<lambda>w. w) n CResume None w = Some (Some r, w)"
          "run_command newV5 o' (\<lambda>w. w) n cmd (Some r) w = Some (h, w')" by blast
        have "fresh_ids CResume" by (simp add: fresh_ids_def)
        then have "on_prefix newV5 n es r"
          using keeps [OF shown room _ _ r(1)] lifecycle_world.displays_unique [OF alone shown] by auto
        then show ?thesis
          using keeps [OF shown room conjunct2 [OF \<open>_ \<and> fresh_ids cmd\<close>] _ r(2)] run None r by auto
      next
        case False
        have "rival ustr newV5 o' n cmd w = w"
          unfolding run None using False still by (simp split: option.split) blast
        then show ?thesis using shown by auto
      qed
    qed
  qed
  have valid: "store_valid ustr (w_events (rival ustr newV5 o' n cmd w))" if "store_valid ustr (w_events w)" for w
  proof (cases "\<exists>es. memory_shows ustr S newV5 n w es")
    case True
    then show ?thesis using acts by (auto simp: shows_stream_def)
  next
    case False
    then have "rival ustr newV5 o' n cmd w = w"
      using that assms(3) by (auto simp: rival_def shows_stream_def split: option.splits)
    then show ?thesis using that by simp
  qed
  show ?thesis unfolding coexists_def using valid acts unfolding prefix_def by blast
qed

interpretation memory_rivals: lifecycle_world "ReadStream ustr" Next "AppendStream ustr fresh now" "stream_view ustr"
    "store_valid ustr" memory_room "\<forall>i. json_year_ok (now i)" "memory_lifecycle_store ustr fresh now (table_codec tbl)"
    newV5 n "o'\<lparr>authority := memory_lifecycle_store ustr fresh now (table_codec tbl)\<rparr>"
    "rival ustr newV5 (o'\<lparr>authority := memory_lifecycle_store ustr fresh now (table_codec tbl)\<rparr>) n cmd"
  for ustr fresh now tbl newV5 n o' cmd
  by (rule memory_world [OF table_reads_back refl _ rival_coexists [OF table_reads_back refl]]) simp_all

section \<open>A projection's history\<close>

abbreviation demo_v1 :: projection_id where "demo_v1 \<equiv> \<lparr>Name = ''a'', Version = 1\<rparr>"
abbreviation demo_v2 :: projection_id where "demo_v2 \<equiv> \<lparr>Name = ''a'', Version = 2\<rparr>"

definition demo_caught_up :: "lifecycle_event list" where
  "demo_caught_up = [RebuildInitiated 1 demo_v1 zero_pid ''r'' 0, RunnerClaimed 1 5 0 zero_takeover 0,
     BuildStarted, CaughtUp 3 0 0]"

definition demo_promoted :: "lifecycle_event list" where
  "demo_promoted = demo_caught_up @ [Promoted zero_pid demo_v1 1 0 0, PreviousRetired zero_pid [],
     RetirementPolicySet 1 [''w''] False ''r'' ''a'' 0, RebuildInitiated 2 demo_v2 demo_v1 ''r'' 0,
     RunnerClaimed 2 6 0 zero_takeover 0, BuildStarted, CaughtUp 3 0 0, Promoted demo_v1 demo_v2 2 1 0]"

lemma demo_streams_clean: "clean demo_promoted" "clean demo_caught_up"
  by code_simp+

lemma demo_world:
  assumes "clean es" "set es \<subseteq> set tbl" "length tbl \<le> 256" "length es \<le> 256"
    and "authority o' = demo_store tbl"
  obtains st where "memory_shows (\<lambda>_. '''') (authority o') newV5 n \<lparr>w_events = st, w_checkpoints = c, w_rest = x\<rparr> es"
    "roomy memory_room o' (\<lambda>w. w) \<lparr>w_events = st, w_checkpoints = c, w_rest = x\<rparr>" "memory_room st 2"
proof -
  have "set es \<subseteq> set (take 256 tbl)" using assms(2,3) by simp
  from demo_shows [where ?newV5.0 = newV5 and n = n and c = c and x = x, OF assms(1) this assms(4)]
  obtain st where st: "memory_shows (\<lambda>_. '''') (demo_store tbl) newV5 n \<lparr>w_events = st, w_checkpoints = c, w_rest = x\<rparr> es"
      "globalCounter st \<le> int (length es)" by blast
  moreover have "roomy memory_room o' (\<lambda>w. w) \<lparr>w_events = st, w_checkpoints = c, w_rest = x\<rparr>"
    by (rule memory_roomy [OF assms(5)])
      (use st assms(4) in \<open>simp_all add: shows_stream_def max_int64_def\<close>)
  moreover have "memory_room st 2" using st(2) assms(4) by (simp add: max_int64_def)
  ultimately show ?thesis using that assms(5) by simp
qed

text \<open>An orchestrator whose handlers count their teardowns; the witness \<open>w\<close> serves version 2.\<close>

definition demo_orchestrator ::
  "lifecycle_event list \<Rightarrow> (event_store, stream_iterator, unit, unit, nat, unit) orchestrator" where
  "demo_orchestrator tbl = \<lparr>oc_Events = (), oc_Checkpoints = \<lparr>ck_Load = (\<lambda>c i. Inl (Sentinel ErrCheckpointNotFound)),
       ck_Save = (\<lambda>c i p. (None, c)), ck_Delete = (\<lambda>c i. (None, c))\<rparr>,
     oc_Handler = (\<lambda>i x. (Inr \<lparr>eh_Handle = (\<lambda>e x. (None, x)), eh_Teardown = Some (\<lambda>i x. (None, Suc x))\<rparr>, x)),
     autoPromote = False, reconcileInterval = DefaultReconcileInterval, processorOptions = [],
     oc_witnesses = [''w'' \<mapsto> (\<lambda>x n. Inr \<lparr>co_Live = demo_v2, co_Revision = 2\<rparr>)], authority = demo_store tbl,
     oc_optionErr = None\<rparr>"

lemma demo_authority [simp]: "authority (demo_orchestrator tbl) = demo_store tbl"
  by (simp add: demo_orchestrator_def)

lemma demo_on_prefix [simp]: "on_prefix newV5 n es (new_rebuild n (tip_aggregate newV5 n es))"
  by (auto simp: on_prefix_def new_rebuild_def intro: tip_aggregate_at)

lemma memory_context:
  assumes "reads_back codec" "authority o' = memory_lifecycle_store ustr fresh now codec"
    and "coexists ustr (authority o') newV5 n others"
  shows "lifecycle_world (ReadStream ustr) Next (AppendStream ustr fresh now) (stream_view ustr) (store_valid ustr)
     memory_room (\<forall>i. json_year_ok (now i)) (authority o') newV5 n o' others"
  by (rule memory_world [OF assms(1,2) refl assms(3)])

abbreviation demo_receipt :: witness_receipt where
  "demo_receipt \<equiv> \<lparr>rc_Witness = ''w'', rc_Cutover = \<lparr>co_Live = demo_v2, co_Revision = 2\<rparr>\<rparr>"

definition demo_table :: "lifecycle_event list" where
  "demo_table = demo_promoted @ [RolledBack demo_v2 demo_v1 3 0, RetireStarted demo_v1 1 [''w''] [demo_receipt] zero_override 0,
     PreviousRetired demo_v1 [demo_receipt], Abandoned ''c'', RebuildInitiated 3 demo_v2 zero_pid ''r'' 0]"

lemma demo_table_covers:
  "set demo_promoted \<subseteq> set demo_table" "set demo_caught_up \<subseteq> set demo_table" "length demo_table \<le> 256"
  by (auto simp: demo_table_def demo_promoted_def demo_caught_up_def)

lemma demo_context:
  "lifecycle_world (ReadStream (\<lambda>_. '''')) Next (AppendStream (\<lambda>_. '''') (\<lambda>_. 7) (\<lambda>_. 0)) (stream_view (\<lambda>_. ''''))
     (store_valid (\<lambda>_. '''')) memory_room (\<forall>i :: nat. json_year_ok 0) (authority (demo_orchestrator tbl)) newV5 n
     (demo_orchestrator tbl) (\<lambda>w. w)"
  by (rule memory_context [OF table_reads_back demo_authority coexists_id])

lemma demo_named: "st_Name (lifecycle_fold demo_caught_up) = ''a''" "st_Name (lifecycle_fold demo_promoted) = ''a''"
  by code_simp+

lemma demo_caught_up_state:
  "Attempt (lifecycle_fold demo_caught_up) = \<lparr>at_ID = 1, Target = demo_v1, Previous = zero_pid, at_Phase = PhaseCaughtUp,
     at_Reason = ''r'', Runner = 5, Released = False, ReleasedAt = 0, InitiatedAt = 0, ClaimedAt = 0, CaughtUpAt = 0,
     CaughtUpPos = 3, PromotedAt = 0, RetiringAt = 0, RetiringWitnesses = []\<rparr>"
  "Live (lifecycle_fold demo_caught_up) = zero_pid" "CutoverRevision (lifecycle_fold demo_caught_up) = 0"
  "RetirementPolicy (lifecycle_fold demo_caught_up) = zero_policy"
  by code_simp+

lemma demo_promoted_state:
  "Attempt (lifecycle_fold demo_promoted) = \<lparr>at_ID = 2, Target = demo_v2, Previous = demo_v1, at_Phase = PhasePromoted,
     at_Reason = ''r'', Runner = 6, Released = False, ReleasedAt = 0, InitiatedAt = 0, ClaimedAt = 0, CaughtUpAt = 0,
     CaughtUpPos = 3, PromotedAt = 0, RetiringAt = 0, RetiringWitnesses = []\<rparr>"
  "Live (lifecycle_fold demo_promoted) = demo_v2" "CutoverRevision (lifecycle_fold demo_promoted) = 2"
  by code_simp+

lemma demo_marshals:
  "e \<in> set demo_table \<Longrightarrow> \<exists>b. MarshalDomainEvent (domainEventCodec (authority (demo_orchestrator demo_table))) e = Inr b"
  using demo_table_covers(3) by (simp add: memory_es_store_def table_codec_def)

abbreviation demo_w :: "event_store \<Rightarrow> (event_store, unit, nat) world" where
  "demo_w st \<equiv> \<lparr>w_events = st, w_checkpoints = (), w_rest = 0\<rparr>"

lemma demo_lengths: "length demo_caught_up \<le> 256" "length demo_promoted \<le> 256"
  by (simp_all add: demo_promoted_def demo_caught_up_def)

lemma demo_caught_up_world:
  obtains st where "memory_shows (\<lambda>_. '''') (authority (demo_orchestrator demo_table)) (\<lambda>_ _. 9) ''a'' (demo_w st) demo_caught_up"
    "roomy memory_room (demo_orchestrator demo_table) (\<lambda>w. w) (demo_w st)" "memory_room st 2"
  by (rule demo_world [where ?newV5.0 = "\<lambda>_ _. 9" and n = "''a''" and c = "()" and x = 0, OF demo_streams_clean(2)
      demo_table_covers(2,3) demo_lengths(1) demo_authority])

lemma demo_promoted_world:
  obtains st where "memory_shows (\<lambda>_. '''') (authority (demo_orchestrator demo_table)) (\<lambda>_ _. 9) ''a'' (demo_w st) demo_promoted"
    "roomy memory_room (demo_orchestrator demo_table) (\<lambda>w. w) (demo_w st)" "memory_room st 2"
  by (rule demo_world [where ?newV5.0 = "\<lambda>_ _. 9" and n = "''a''" and c = "()" and x = 0, OF demo_streams_clean(1)
      demo_table_covers(1,3) demo_lengths(2) demo_authority])

text \<open>A handle whose run has certified its catch-up, and one that only follows.\<close>

definition demo_certified :: rebuild where
  "demo_certified = (new_rebuild ''a'' (tip_aggregate (\<lambda>_ _. 9) ''a'' demo_caught_up))
     \<lparr>certificate := Some \<lparr>ct_attempt = 1, ct_runner = 5, ct_position = 3, ct_version = 4, ct_exited = Some 0\<rparr>,
      processorExited := Some 0\<rparr>"

abbreviation demo_follower :: rebuild where
  "demo_follower \<equiv> new_rebuild ''a'' (tip_aggregate (\<lambda>_ _. 9) ''a'' demo_promoted)"

lemma demo_certified_facts:
  "rb_name demo_certified = ''a''" "rb_aggregate demo_certified = tip_aggregate (\<lambda>_ _. 9) ''a'' demo_caught_up"
  "on_prefix (\<lambda>_ _. 9) ''a'' demo_caught_up demo_certified" "certificate_refusal demo_certified = None"
  using tip_aggregate_at [of "\<lambda>_ _. 9" "''a''" demo_caught_up]
  by (auto simp: demo_certified_def new_rebuild_def on_prefix_def certificate_refusal_def tip_aggregate_def
      demo_caught_up_state Let_def) (simp add: demo_caught_up_def)

lemma demo_promotes:
  assumes "memory_shows (\<lambda>_. '''') (authority (demo_orchestrator demo_table)) (\<lambda>_ _. 9) ''a'' (demo_w st) demo_caught_up"
    "memory_room st 2"
  shows "\<exists>r' w'. Promote (\<lambda>_ _. 9) (demo_orchestrator demo_table) (\<lambda>w. w) 0 demo_certified (demo_w st) = (None, r', w')"
proof -
  obtain b where b: "MarshalDomainEvent (domainEventCodec (authority (demo_orchestrator demo_table)))
      (Promoted zero_pid demo_v1 1 0 0) = Inr b"
    using demo_marshals [of "Promoted zero_pid demo_v1 1 0 0"] by (auto simp: demo_table_def demo_promoted_def)
  show ?thesis
    using lifecycle_world.Promote_alone [OF demo_context assms(1), where r = demo_certified and now = 0 and b = b
        and st = "lifecycle_fold demo_caught_up"]
      assms(2) b demo_lengths(1)
    by (auto simp: demo_certified_facts demo_caught_up_state demo_named max_int64_def zero_policy_def)
qed

lemma demo_rolls_back:
  assumes "memory_shows (\<lambda>_. '''') (authority (demo_orchestrator demo_table)) (\<lambda>_ _. 9) ''a'' (demo_w st) demo_promoted"
    "memory_room st 2"
  shows "\<exists>r' w'. Rollback (\<lambda>_ _. 9) (demo_orchestrator demo_table) (\<lambda>w. w) 0 (Inr None) demo_follower (demo_w st)
    = Some (None, r', w')"
proof -
  obtain b where b: "MarshalDomainEvent (domainEventCodec (authority (demo_orchestrator demo_table)))
      (RolledBack demo_v2 demo_v1 3 0) = Inr b"
    using demo_marshals [of "RolledBack demo_v2 demo_v1 3 0"] by (auto simp: demo_table_def)
  show ?thesis
    using lifecycle_world.Rollback_alone [OF demo_context assms(1) demo_on_prefix, where now = 0 and b = b and runErr = None
        and st = "lifecycle_fold demo_promoted"] assms(2) b demo_lengths(2)
    by (auto simp: demo_promoted_state demo_named max_int64_def rollbackRefusal_def)
qed

section \<open>The system\<close>

lemma demo_step:
  obtains st r' w' where "memory_shows (\<lambda>_. '''') (demo_store demo_table) (\<lambda>_ _. 9) ''a''
      (demo_w st) demo_caught_up"
    "system_step memory_room (\<lambda>_ _. 9) (demo_orchestrator demo_table) (\<lambda>w. w) ''a''
      ([new_rebuild ''a'' (tip_aggregate (\<lambda>_ _. 9) ''a'' demo_caught_up)], (demo_w st))
      ([r'], w')"
proof -
  let ?r = "new_rebuild ''a'' (tip_aggregate (\<lambda>_ _. 9) ''a'' demo_caught_up)"
  obtain st where st: "memory_shows (\<lambda>_. '''') (authority (demo_orchestrator demo_table)) (\<lambda>_ _. 9) ''a''
      (demo_w st) demo_caught_up"
    "roomy memory_room (demo_orchestrator demo_table) (\<lambda>w. w) (demo_w st)"
    by (rule demo_world [where ?newV5.0 = "\<lambda>_ _. 9" and n = "''a''" and c = "()" and x = 0, OF demo_streams_clean(2)
        demo_table_covers(2,3) demo_lengths(1) demo_authority])
  obtain res r' w' where "Abandon (\<lambda>_ _. 9) (demo_orchestrator demo_table) (\<lambda>w. w) ''c'' (Inr None) ?r
      (demo_w st) = Some (res, r', w')"
    using lifecycle_world.commands_return(2) [OF demo_context st(1) demo_on_prefix] by blast
  then have "system_step memory_room (\<lambda>_ _. 9) (demo_orchestrator demo_table) (\<lambda>w. w) ''a''
      ([?r], (demo_w st)) ([?r][0 := r'], w')"
    by (intro system_step.handle [where cmd = "CAbandon ''c'' (Inr None)"] st(2)) simp_all
  then show ?thesis using that st(1) by simp
qed

text \<open>
  C4. Whatever commands the orchestrators and the handles of a projection run, in any order and beside
  any other writers that coexist, the projection's lifecycle stream only grows, by legal events: its
  fold is never poisoned, and every handle holds the fold of a prefix of it.
\<close>

theorem handles_follow_stream:
  assumes "reads_back codec" "authority o' = memory_lifecycle_store ustr fresh now codec"
    and "coexists ustr (authority o') newV5 n others"
    and "memory_shows ustr (authority o') newV5 n w es" "\<forall>r \<in> set hs. on_prefix newV5 n es r"
    and "(system_step memory_room newV5 o' others n)\<^sup>*\<^sup>* (hs, w) (hs', w')"
  shows "\<exists>es'. memory_shows ustr (authority o') newV5 n w' es' \<and> prefix es es' \<and> history es' (lifecycle_fold es')
    \<and> (\<forall>r \<in> set hs'. on_prefix newV5 n es' r)"
proof -
  note w = memory_context [OF assms(1-3)]
  have "lifecycle_world.all_follow (stream_view ustr) (store_valid ustr) (authority o') newV5 n (hs, w) es"
    using assms(4,5) by (simp add: lifecycle_world.all_follow_def [OF w])
  from lifecycle_world.system_steps_follow [OF w assms(6) this]
  show ?thesis
    by (auto simp: lifecycle_world.all_follow_def [OF w] shows_stream_def clean_def history_iff)
qed

lemma handles_follow_stream_witness:
  "\<exists>st r' w' es'. system_step memory_room (\<lambda>_ _. 9) (demo_orchestrator demo_table) (\<lambda>w. w) ''a''
      ([new_rebuild ''a'' (tip_aggregate (\<lambda>_ _. 9) ''a'' demo_caught_up)], (demo_w st))
      ([r'], w')
    \<and> memory_shows (\<lambda>_. '''') (demo_store demo_table) (\<lambda>_ _. 9) ''a'' w' es' \<and> prefix demo_caught_up es'
    \<and> on_prefix (\<lambda>_ _. 9) ''a'' es' r'"
proof -
  obtain st r' w' where d: "memory_shows (\<lambda>_. '''') (demo_store demo_table) (\<lambda>_ _. 9) ''a''
      (demo_w st) demo_caught_up"
    "system_step memory_room (\<lambda>_ _. 9) (demo_orchestrator demo_table) (\<lambda>w. w) ''a''
      ([new_rebuild ''a'' (tip_aggregate (\<lambda>_ _. 9) ''a'' demo_caught_up)], (demo_w st))
      ([r'], w')" by (rule demo_step)
  from handles_follow_stream [OF table_reads_back demo_authority coexists_id d(1) [folded demo_authority] _
      r_into_rtranclp [of "system_step memory_room (\<lambda>_ _. 9) (demo_orchestrator demo_table) (\<lambda>w. w) ''a''", OF d(2)]]
  show ?thesis using d(2) by fastforce
qed

text \<open>
  C18. The type of a handle: in every reachable state of the system its aggregate is a lifecycle
  aggregate of the projection, holds no queued events, and its state validates and carries no other
  projection's name.
\<close>

theorem handles_well_formed:
  assumes "reads_back codec" "authority o' = memory_lifecycle_store ustr fresh now codec"
    and "coexists ustr (authority o') newV5 n others" "memory_shows ustr (authority o') newV5 n w es"
    and "(system_step memory_room newV5 o' others n)\<^sup>*\<^sup>* ([], w) (hs, w')" "r \<in> set hs"
  shows "rb_name r = n \<and> agg_id (rb_aggregate r) = New_id StreamType (StreamUUID newV5 n)
    \<and> 0 \<le> agg_version (rb_aggregate r) \<and> unsavedEvents (rb_aggregate r) = [] \<and> unappliedEvents (rb_aggregate r) = []
    \<and> validate (Rebuild_State r) = None"
proof -
  note w = memory_context [OF assms(1-3)]
  have "lifecycle_world.all_follow (stream_view ustr) (store_valid ustr) (authority o') newV5 n ([], w) es"
    using assms(4) by (simp add: lifecycle_world.all_follow_def [OF w])
  from lifecycle_world.system_steps_follow [OF w assms(5) this]
  obtain es' k where k: "memory_shows ustr (authority o') newV5 n w' es'" "rb_name r = n"
      "at_prefix newV5 n es' k (rb_aggregate r)"
    using assms(6) by (auto simp: lifecycle_world.all_follow_def [OF w] on_prefix_def)
  have "clean (take k es')" using k(1) clean_take by (simp add: shows_stream_def)
  then have "validate (lifecycle_fold (take k es')) = None" using clean_sound sound_validate by (simp add: clean_def)
  then show ?thesis using k by (auto simp: at_prefix_def Rebuild_State_def)
qed

lemma demo_resume:
  obtains st hs w' where "memory_shows (\<lambda>_. '''') (demo_store demo_table) (\<lambda>_ _. 9) ''a'' (demo_w st) demo_caught_up"
    "system_step memory_room (\<lambda>_ _. 9) (demo_orchestrator demo_table) (\<lambda>w. w) ''a'' ([], demo_w st) (hs, w')" "hs \<noteq> []"
proof -
  obtain st where st: "memory_shows (\<lambda>_. '''') (authority (demo_orchestrator demo_table)) (\<lambda>_ _. 9) ''a''
      (demo_w st) demo_caught_up" "roomy memory_room (demo_orchestrator demo_table) (\<lambda>w. w) (demo_w st)"
    by (rule demo_world [where ?newV5.0 = "\<lambda>_ _. 9" and n = "''a''" and c = "()" and x = 0, OF demo_streams_clean(2)
        demo_table_covers(2,3) demo_lengths(1) demo_authority])
  have "demo_caught_up \<noteq> []" "StreamUUID (\<lambda>_ _. 9) ''a'' \<noteq> uuid_nil"
    by (simp_all add: demo_caught_up_def StreamUUID_def uuid_nil_def)
  then obtain a where "loadAggregate (\<lambda>_ _. 9) (demo_orchestrator demo_table) st ''a'' = Some (Inr a)"
    using lifecycle_world.loadAggregate_tip [OF demo_context st(1)] demo_named by auto
  then have "run_command (\<lambda>_ _. 9) (demo_orchestrator demo_table) (\<lambda>w. w) ''a'' CResume None (demo_w st)
      = Some (Some (new_rebuild ''a'' a), demo_w st)"
    by (simp add: Resume_def Let_def)
  from system_step.orchestrate [OF st(2) _ this, of "[]"]
  show ?thesis using that st(1) by (simp add: fresh_ids_def)
qed

lemma handles_well_formed_witness:
  "\<exists>st hs w'. system_step memory_room (\<lambda>_ _. 9) (demo_orchestrator demo_table) (\<lambda>w. w) ''a'' ([], demo_w st) (hs, w')
    \<and> hs \<noteq> [] \<and> rb_name (hd hs) = ''a'' \<and> unsavedEvents (rb_aggregate (hd hs)) = []
    \<and> validate (Rebuild_State (hd hs)) = None"
proof -
  obtain st hs w' where d: "memory_shows (\<lambda>_. '''') (demo_store demo_table) (\<lambda>_ _. 9) ''a'' (demo_w st) demo_caught_up"
    "system_step memory_room (\<lambda>_ _. 9) (demo_orchestrator demo_table) (\<lambda>w. w) ''a'' ([], demo_w st) (hs, w')" "hs \<noteq> []"
    by (rule demo_resume)
  from handles_well_formed [OF table_reads_back demo_authority coexists_id d(1) [folded demo_authority]
      r_into_rtranclp [of "system_step memory_room (\<lambda>_ _. 9) (demo_orchestrator demo_table) (\<lambda>w. w) ''a''", OF d(2)]
      hd_in_set [OF d(3)]]
  show ?thesis using d(2,3) by blast
qed

section \<open>The commands\<close>

lemma certified:
  "certificate_refusal r = None \<longleftrightarrow> failure r = None \<and> \<not> stopped r \<and> \<not> exitPublished r
     \<and> (\<exists>c. certificate r = Some c \<and> ct_attempt c = at_ID (Attempt (Rebuild_State r))
       \<and> ct_runner c = Runner (Attempt (Rebuild_State r)) \<and> ct_position c = CaughtUpPos (Attempt (Rebuild_State r))
       \<and> ct_version c = agg_version (rb_aggregate r) \<and> ct_exited c = processorExited r)"
  by (auto simp: certificate_refusal_def Rebuild_State_def Let_def split: option.splits)

text \<open>
  C5. \<open>Promote\<close> flips serving only under a live certificate: when it succeeds, the handle is at the tip
  of the stream, its run has neither failed nor been stopped, its processor has not exited, the
  certificate names the attempt, the claimant, the catch-up position and the version at the tip, and
  the promotion of the target is the one event appended. Refused or failed, it leaves the handle on
  its stream.
\<close>

theorem Promote_is_certified:
  assumes "reads_back codec" "authority o' = memory_lifecycle_store ustr fresh now codec"
    and "coexists ustr (authority o') newV5 n others" "memory_shows ustr (authority o') newV5 n w es"
    and "on_prefix newV5 n es r" "roomy memory_room o' others w" "st = lifecycle_fold es"
    and "Promote newV5 o' others t r w = (res, r', w')"
  shows "carried (memory_shows ustr (authority o') newV5 n) newV5 n es r' w'
    \<and> (res = None \<longrightarrow> Rebuild_State r = st \<and> agg_version (rb_aggregate r) = int (length es)
      \<and> at_Phase (Attempt st) = PhaseCaughtUp \<and> failure r = None \<and> \<not> stopped r \<and> \<not> exitPublished r
      \<and> (\<exists>c. certificate r = Some c \<and> ct_attempt c = at_ID (Attempt st) \<and> ct_runner c = Runner (Attempt st)
          \<and> ct_position c = CaughtUpPos (Attempt st) \<and> ct_version c = int (length es)
          \<and> ct_exited c = processorExited r)
      \<and> memory_shows ustr (authority o') newV5 n w' (es @ [Promoted (Live st) (Target (Attempt st))
          (CutoverRevision st + 1) (Generation (RetirementPolicy st)) t]))"
proof -
  note w = memory_context [OF assms(1-3)]
  note keeps = lifecycle_world.Promote_keeps [OF w assms(4,5,8) lifecycle_world.roomy_next(1) [OF w assms(6)]]
  show ?thesis
  proof (cases res)
    case None
    then have at: "at_prefix newV5 n es (length es) (rb_aggregate r)" and cert: "certificate_refusal r = None"
      using keeps by simp_all
    then have "Rebuild_State r = st" "agg_version (rb_aggregate r) = int (length es)"
      using assms(7) by (simp_all add: at_prefix_def Rebuild_State_def)
    then show ?thesis using keeps None cert [unfolded certified] assms(7) by auto
  next
    case (Some e)
    then show ?thesis using keeps by simp
  qed
qed

lemma Promote_is_certified_witness:
  "\<exists>st r' w'. Promote (\<lambda>_ _. 9) (demo_orchestrator demo_table) (\<lambda>w. w) 0 demo_certified (demo_w st) = (None, r', w')
    \<and> memory_shows (\<lambda>_. '''') (demo_store demo_table) (\<lambda>_ _. 9) ''a'' w'
        (demo_caught_up @ [Promoted zero_pid demo_v1 1 0 0])"
proof -
  obtain st where st: "memory_shows (\<lambda>_. '''') (authority (demo_orchestrator demo_table)) (\<lambda>_ _. 9) ''a'' (demo_w st) demo_caught_up"
    "roomy memory_room (demo_orchestrator demo_table) (\<lambda>w. w) (demo_w st)" "memory_room st 2" by (rule demo_caught_up_world)
  obtain r' w' where run: "Promote (\<lambda>_ _. 9) (demo_orchestrator demo_table) (\<lambda>w. w) 0 demo_certified (demo_w st) = (None, r', w')"
    using demo_promotes [OF st(1,3)] by blast
  from Promote_is_certified [OF table_reads_back demo_authority coexists_id st(1) demo_certified_facts(3) st(2) refl run]
  have "memory_shows (\<lambda>_. '''') (demo_store demo_table) (\<lambda>_ _. 9) ''a'' w' (demo_caught_up @ [Promoted zero_pid demo_v1 1 0 0])"
    by (simp add: demo_caught_up_state zero_policy_def)
  then show ?thesis using run by blast
qed

text \<open>
  C7. \<open>Rollback\<close> and \<open>Abandon\<close> are decided where they are recorded: each returns, and when it reports no
  error the stream it appended to was in a state that permits it, at that very version, whatever the
  other writers did before; so of two competing commands on an attempt one takes effect and the
  other sees what it did.
\<close>

theorem terminal_commands_decided:
  assumes "reads_back codec" "authority o' = memory_lifecycle_store ustr fresh now codec"
    and "coexists ustr (authority o') newV5 n others" "memory_shows ustr (authority o') newV5 n w es"
    and "on_prefix newV5 n es r" "roomy memory_room o' others w"
    and "shown = memory_shows ustr (authority o') newV5 n"
  shows "(\<exists>res r' w'. Rollback newV5 o' others t awaited r w = Some (res, r', w') \<and> carried shown newV5 n es r' w'
      \<and> (res = None \<longrightarrow> decided_in shown n rollbackRefusal
          (\<lambda>st. RolledBack (Live st) (Previous (Attempt st)) (wrap64 (CutoverRevision st + 1)) t) es w'))
    \<and> (\<exists>res r' w'. Abandon newV5 o' others cause awaited r w = Some (res, r', w') \<and> carried shown newV5 n es r' w'
      \<and> (res = None \<longrightarrow> decided_in shown n abandonRefusal (\<lambda>st. Abandoned cause) es w'))"
proof -
  note w = memory_context [OF assms(1-3)]
  note room = lifecycle_world.roomy_next(2) [OF w assms(6)]
  obtain res r' w' where "Rollback newV5 o' others t awaited r w = Some (res, r', w')"
    using lifecycle_world.commands_return(1) [OF w assms(4,5)] by blast
  moreover note lifecycle_world.Rollback_keeps [OF w assms(4,5) this room]
  moreover obtain res2 r2 w2 where "Abandon newV5 o' others cause awaited r w = Some (res2, r2, w2)"
    using lifecycle_world.commands_return(2) [OF w assms(4,5)] by blast
  moreover note lifecycle_world.Abandon_keeps [OF w assms(4,5) this room]
  ultimately show ?thesis unfolding assms(7) by blast
qed

lemma terminal_commands_decided_witness:
  "\<exists>st r' w'. Rollback (\<lambda>_ _. 9) (demo_orchestrator demo_table) (\<lambda>w. w) 0 (Inr None) demo_follower (demo_w st) = Some (None, r', w')
    \<and> decided_in (memory_shows (\<lambda>_. '''') (demo_store demo_table) (\<lambda>_ _. 9) ''a'') ''a'' rollbackRefusal
        (\<lambda>st. RolledBack (Live st) (Previous (Attempt st)) (wrap64 (CutoverRevision st + 1)) 0) demo_promoted w'"
proof -
  obtain st where st: "memory_shows (\<lambda>_. '''') (authority (demo_orchestrator demo_table)) (\<lambda>_ _. 9) ''a'' (demo_w st) demo_promoted"
    "roomy memory_room (demo_orchestrator demo_table) (\<lambda>w. w) (demo_w st)" "memory_room st 2" by (rule demo_promoted_world)
  obtain r' w' where run: "Rollback (\<lambda>_ _. 9) (demo_orchestrator demo_table) (\<lambda>w. w) 0 (Inr None) demo_follower (demo_w st)
      = Some (None, r', w')" using demo_rolls_back [OF st(1,3)] by blast
  from terminal_commands_decided [OF table_reads_back demo_authority coexists_id st(1) demo_on_prefix st(2) refl,
      of 0 "Inr None"]
  have "decided_in (memory_shows (\<lambda>_. '''') (demo_store demo_table) (\<lambda>_ _. 9) ''a'') ''a'' rollbackRefusal
        (\<lambda>st. RolledBack (Live st) (Previous (Attempt st)) (wrap64 (CutoverRevision st + 1)) 0) demo_promoted w'"
    using run by simp
  then show ?thesis using run by blast
qed

text \<open>
  C6. \<open>Retire\<close> destroys only what never serves again. It returns; and either no version was torn down and
  no checkpoint was deleted, and then it reports success only for a first rebuild, which has no
  previous version; or one version was destroyed. Then, when the destruction began, the handle stood
  on a prefix of the stream in whose state the attempt is retiring; the version is that attempt's
  previous one; its own handler furnished the teardown; every witness the reservation captured was
  registered and had vouched, since the command began, for the cutover live in that state; the
  teardown ran for that version and only then its checkpoint was deleted, nothing else; success means
  that its retirement is the stream's last event; and no clean continuation of the stream makes the
  version live.
\<close>

theorem Retire_destroys_reserved:
  assumes "reads_back codec" "authority o' = memory_lifecycle_store ustr fresh now codec"
    and "coexists ustr (authority o') newV5 n others" "memory_shows ustr (authority o') newV5 n w es"
    and "on_prefix newV5 n es r" "roomy memory_room o' others w"
    and "\<forall>opt \<in> set opts. \<exists>actor reason. opt = Some (WithRetirementOverride actor reason)"
    and "shown = memory_shows ustr (authority o') newV5 n"
  shows "\<exists>res r' w'. Retire newV5 o' others t opts r w = Some (res, r', w') \<and> carried shown newV5 n es r' w'
    \<and> (passes o' others w w' \<and> (res = None \<longrightarrow> (\<exists>i es' receipts. Version i = 0 \<and> shown w' (es' @ [PreviousRetired i receipts])))
      \<or> (\<exists>teardown wD esD k st prev ids. passes o' others w wD \<and> shown wD esD \<and> prefix es esD
         \<and> st = lifecycle_fold (take k esD) \<and> at_Phase (Attempt st) = PhaseRetiring
         \<and> prev = Previous (Attempt st) \<and> ids = RetiringWitnesses (Attempt st)
         \<and> furnished o' others prev teardown w wD \<and> attested o' others ids n (live_cutover st) w wD
         \<and> destroyed o' others teardown prev wD res w'
         \<and> (res = None \<longrightarrow> (\<exists>es'. prefix esD es' \<and> shown w' (es' @ [PreviousRetired prev (vouched ids (live_cutover st))])))
         \<and> (\<forall>fs. clean (esD @ fs) \<longrightarrow> Live (lifecycle_fold (esD @ fs)) \<noteq> prev)))"
proof -
  note w = memory_context [OF assms(1-3)]
  obtain prev where "lifecycle_world.retired_outcome (stream_view ustr) (store_valid ustr) (authority o') newV5 n o' others
      prev w es (Retire newV5 o' others t opts r w)"
    using lifecycle_world.Retire_outcome [OF w assms(4,5,7,6)] by blast
  then obtain res r' w' where run: "Retire newV5 o' others t opts r w = Some (res, r', w')"
    and carried: "carried shown newV5 n es r' w'"
    and outcome: "passes o' others w w' \<and> (res = None \<longrightarrow> Version prev = 0)
      \<or> reserved_destruction shown newV5 n o' others w es (res, r', w')"
    and success: "res = None \<longrightarrow> (\<exists>es' receipts. prefix es es' \<and> shown w' (es' @ [PreviousRetired prev receipts]))"
    unfolding lifecycle_world.retired_outcome_def [OF w] assms(8) by blast
  show ?thesis
  proof (cases "passes o' others w w' \<and> (res = None \<longrightarrow> Version prev = 0)")
    case True
    then show ?thesis using run carried success by blast
  next
    case False
    then have "reserved_destruction shown newV5 n o' others w es (res, r', w')" using outcome by blast
    then obtain teardown and rD :: rebuild and wD esD k where d: "passes o' others w wD" "shown wD esD" "prefix es esD"
        "at_prefix newV5 n esD k (rb_aggregate rD)"
      and rest: "at_Phase (Attempt (agg_state (rb_aggregate rD))) = PhaseRetiring"
        "furnished o' others (Previous (Attempt (agg_state (rb_aggregate rD)))) teardown w wD"
        "attested o' others (RetiringWitnesses (Attempt (agg_state (rb_aggregate rD)))) n
          (live_cutover (agg_state (rb_aggregate rD))) w wD"
        "destroyed o' others teardown (Previous (Attempt (agg_state (rb_aggregate rD)))) wD res w'"
        "res = None \<longrightarrow> (\<exists>es'. prefix esD es' \<and> shown w' (es' @ [PreviousRetired (Previous (Attempt (agg_state (rb_aggregate rD))))
            (vouched (RetiringWitnesses (Attempt (agg_state (rb_aggregate rD)))) (live_cutover (agg_state (rb_aggregate rD))))]))"
      unfolding reserved_destruction_def Let_def fst_conv snd_conv by (elim exE conjE) (rule that, assumption+)
    define st where "st = agg_state (rb_aggregate rD)"
    have st: "st = agg_state (rb_aggregate rD)" "at_Phase (Attempt st) = PhaseRetiring"
        "furnished o' others (Previous (Attempt st)) teardown w wD"
        "attested o' others (RetiringWitnesses (Attempt st)) n (live_cutover st) w wD"
        "destroyed o' others teardown (Previous (Attempt st)) wD res w'"
        "res = None \<longrightarrow> (\<exists>es'. prefix esD es' \<and> shown w' (es' @ [PreviousRetired (Previous (Attempt st))
            (vouched (RetiringWitnesses (Attempt st)) (live_cutover st))]))"
      unfolding st_def by (rule refl rest)+
    have fold: "st = lifecycle_fold (take k esD)" using d(4) st(1) by (simp add: at_prefix_def)
    have "reserved (Previous (Attempt st)) esD"
      using d(2,4) st(1,2) assms(8) by (auto simp: reserved_def at_prefix_def shows_stream_def)
    then have "\<forall>fs. clean (esD @ fs) \<longrightarrow> Live (lifecycle_fold (esD @ fs)) \<noteq> Previous (Attempt st)"
      using reserved_never_live by blast
    then show ?thesis using run carried d(1-3) fold st(2-6) by blast
  qed
qed

text \<open>A stream where version 1 is reserved for retirement, its witness \<open>w\<close> captured.\<close>

definition demo_retiring :: "lifecycle_event list" where
  "demo_retiring = demo_promoted @ [RetireStarted demo_v1 1 [''w''] [demo_receipt] zero_override 0]"

lemma demo_retiring_state:
  "clean demo_retiring" "st_Name (lifecycle_fold demo_retiring) = ''a''" "Live (lifecycle_fold demo_retiring) = demo_v2"
  "CutoverRevision (lifecycle_fold demo_retiring) = 2"
  "Attempt (lifecycle_fold demo_retiring) = \<lparr>at_ID = 2, Target = demo_v2, Previous = demo_v1, at_Phase = PhaseRetiring,
     at_Reason = ''r'', Runner = 6, Released = False, ReleasedAt = 0, InitiatedAt = 0, ClaimedAt = 0, CaughtUpAt = 0,
     CaughtUpPos = 3, PromotedAt = 0, RetiringAt = 0, RetiringWitnesses = [''w'']\<rparr>"
  by code_simp+

text \<open>Retiring there runs the teardown of version 1, which counts itself.\<close>

lemma demo_retires:
  obtains st res r' w' where "memory_shows (\<lambda>_. '''') (authority (demo_orchestrator demo_table)) (\<lambda>_ _. 9) ''a'' (demo_w st) demo_retiring"
    "roomy memory_room (demo_orchestrator demo_table) (\<lambda>w. w) (demo_w st)"
    "Retire (\<lambda>_ _. 9) (demo_orchestrator demo_table) (\<lambda>w. w) 0 [] demo_follower (demo_w st) = Some (res, r', w')" "w_rest w' = 1"
    "on_prefix (\<lambda>_ _. 9) ''a'' demo_retiring demo_follower"
proof -
  let ?o = "demo_orchestrator demo_table"
  have "set demo_retiring \<subseteq> set demo_table" using demo_table_covers(1) by (auto simp: demo_retiring_def demo_table_def)
  moreover have len: "length demo_retiring \<le> 256" using demo_lengths(2) by (simp add: demo_retiring_def demo_promoted_def demo_caught_up_def)
  ultimately obtain st where st: "memory_shows (\<lambda>_. '''') (authority ?o) (\<lambda>_ _. 9) ''a'' (demo_w st) demo_retiring"
      "roomy memory_room ?o (\<lambda>w. w) (demo_w st)"
    using demo_world [where ?newV5.0 = "\<lambda>_ _. 9" and n = "''a''" and c = "()" and x = 0, OF demo_retiring_state(1) _
        demo_table_covers(3) _ demo_authority] by blast
  have name: "rb_name demo_follower = ''a''" by (simp add: new_rebuild_def)
  obtain es' res0 r1 where refold: "refoldLocked (\<lambda>_ _. 9) ?o (\<lambda>w. w) demo_follower (demo_w st) = Some (res0, r1, demo_w st)"
      "memory_shows (\<lambda>_. '''') (authority ?o) (\<lambda>_ _. 9) ''a'' (demo_w st) es'"
      "res0 \<noteq> None \<and> r1 = demo_follower \<and> es' = [] \<or>
       r1 = demo_follower\<lparr>rb_aggregate := rb_aggregate r1\<rparr> \<and> at_prefix (\<lambda>_ _. 9) ''a'' es' (length es') (rb_aggregate r1)
         \<and> res0 = checkLifecycleAggregate (\<lambda>_ _. 9) (rb_aggregate r1) ''a''"
    by (rule lifecycle_world.refoldLocked_displays [OF demo_context st(1) name])
  have "es' = demo_retiring" using refold(2) st(1) by (simp add: shows_stream_def)
  then have at: "at_prefix (\<lambda>_ _. 9) ''a'' demo_retiring (length demo_retiring) (rb_aggregate r1)"
      "res0 = checkLifecycleAggregate (\<lambda>_ _. 9) (rb_aggregate r1) ''a''"
    using refold(3) by (auto simp: demo_retiring_def)
  have "res0 = None" using lifecycle_world.tip_named [OF demo_context st(1) at(1) demo_retiring_state(2)] at(2) by simp
  moreover have s: "agg_state (rb_aggregate r1) = lifecycle_fold demo_retiring" using at_prefix_state [OF at(1)] .
  ultimately obtain res r' w' where run: "Retire (\<lambda>_ _. 9) ?o (\<lambda>w. w) 0 [] demo_follower (demo_w st) = Some (res, r', w')"
      "recordRetirement ?o (\<lambda>w. w) demo_v1 [demo_receipt] r1 ((demo_w st)\<lparr>w_rest := 1\<rparr>) = (res, r', w')"
    using refold(1)
    by (cases "recordRetirement ?o (\<lambda>w. w) demo_v1 [demo_receipt] r1 ((demo_w st)\<lparr>w_rest := 1\<rparr>)")
      (simp add: Retire_def retirePrevious_def demo_retiring_state requiredWitnesses_def resolveWitnesses_def attest_def
        tearDown_def demo_orchestrator_def Let_def)
  have "w_rest w' = 1" using run(2) by (auto simp: recordRetirement_def appendLocked_def Let_def split: prod.splits option.splits)
  moreover have "on_prefix (\<lambda>_ _. 9) ''a'' demo_retiring demo_follower"
    using at_prefix_mono [OF tip_aggregate_at prefixI [OF refl], of "\<lambda>_ _. 9" "''a''" demo_promoted]
    by (auto simp: on_prefix_def new_rebuild_def demo_retiring_def)
  ultimately show ?thesis using that st run(1) by blast
qed

lemma demo_passes: "passes (demo_orchestrator demo_table) (\<lambda>w. w) w w' \<Longrightarrow> w_rest w' = w_rest w"
  by (induction rule: passes.induct) (simp_all add: demo_orchestrator_def)

lemma Retire_destroys_reserved_witness:
  "\<exists>st res r' w' teardown wD esD prev. memory_shows (\<lambda>_. '''') (demo_store demo_table) (\<lambda>_ _. 9) ''a'' (demo_w st) demo_retiring
    \<and> Retire (\<lambda>_ _. 9) (demo_orchestrator demo_table) (\<lambda>w. w) 0 [] demo_follower (demo_w st) = Some (res, r', w')
    \<and> w_rest w' = 1 \<and> prefix demo_retiring esD
    \<and> destroyed (demo_orchestrator demo_table) (\<lambda>w. w) teardown prev wD res w'
    \<and> (\<forall>fs. clean (esD @ fs) \<longrightarrow> Live (lifecycle_fold (esD @ fs)) \<noteq> prev)"
proof -
  obtain st res r' w' where st: "memory_shows (\<lambda>_. '''') (authority (demo_orchestrator demo_table)) (\<lambda>_ _. 9) ''a'' (demo_w st) demo_retiring"
    "roomy memory_room (demo_orchestrator demo_table) (\<lambda>w. w) (demo_w st)"
    "Retire (\<lambda>_ _. 9) (demo_orchestrator demo_table) (\<lambda>w. w) 0 [] demo_follower (demo_w st) = Some (res, r', w')" "w_rest w' = 1"
    "on_prefix (\<lambda>_ _. 9) ''a'' demo_retiring demo_follower" by (rule demo_retires)
  have "\<not> passes (demo_orchestrator demo_table) (\<lambda>w. w) (demo_w st) w'"
    using demo_passes [of "demo_w st" w'] st(4) by auto
  with Retire_destroys_reserved [OF table_reads_back demo_authority coexists_id st(1,5,2) _ refl, of "[]" 0] st(3)
  obtain teardown wD esD prev where "prefix demo_retiring esD" "destroyed (demo_orchestrator demo_table) (\<lambda>w. w) teardown prev wD res w'"
    "\<forall>fs. clean (esD @ fs) \<longrightarrow> Live (lifecycle_fold (esD @ fs)) \<noteq> prev" by auto
  then show ?thesis using st(1,3,4) unfolding demo_authority by blast
qed

section \<open>The orchestrator's commands\<close>

text \<open>
  C17. \<open>Begin\<close> allocates the next version, once: when it returns a handle, no attempt was in flight where
  the rebuild was recorded, the target is the version after the last one ever allocated, the attempt
  is the stream's last event and the handle is at its tip; otherwise the stream has only what others,
  or an append of unknown outcome, put there.
\<close>

theorem Begin_allocates_next:
  assumes "reads_back codec" "authority o' = memory_lifecycle_store ustr fresh now codec"
    and "coexists ustr (authority o') newV5 n others" "memory_shows ustr (authority o') newV5 n w es"
    and "roomy memory_room o' others w" "attempt \<noteq> uuid_nil"
  shows "\<exists>res w' es'. Begin newV5 o' others attempt t n reason w = Some (res, w')
    \<and> memory_shows ustr (authority o') newV5 n w' es' \<and> prefix es es'
    \<and> (\<forall>r. res = Inr r \<longrightarrow> at_prefix newV5 n es' (length es') (rb_aggregate r)
      \<and> (\<exists>es1. prefix es es1 \<and> at_Phase (Attempt (lifecycle_fold es1)) = PhaseNone
        \<and> es' = es1 @ [RebuildInitiated attempt \<lparr>Name = n, Version = Allocated (lifecycle_fold es1) + 1\<rparr>
            (Live (lifecycle_fold es1)) reason t]))"
proof -
  note w = memory_context [OF assms(1-3)]
  obtain res w' where run: "Begin newV5 o' others attempt t n reason w = Some (res, w')"
    using lifecycle_world.orchestration_returns(1) [OF w assms(4)] by blast
  from lifecycle_world.Begin_keeps [OF w assms(4) run assms(5,6)] show ?thesis
    using run by (elim exE conjE) (intro exI conjI, assumption, assumption, assumption, simp)
qed

text \<open>A stream whose one attempt was abandoned: version 1 is allocated, and no attempt is in flight.\<close>

definition demo_idle :: "lifecycle_event list" where
  "demo_idle = demo_caught_up @ [Abandoned ''c'']"

lemma demo_idle_facts:
  "clean demo_idle" "st_Name (lifecycle_fold demo_idle) = ''a''" "at_Phase (Attempt (lifecycle_fold demo_idle)) = PhaseNone"
  "Allocated (lifecycle_fold demo_idle) = 1" "Live (lifecycle_fold demo_idle) = zero_pid" "projection_Validate demo_v2 = None"
  by code_simp+

lemma demo_begins:
  obtains st r w' where "memory_shows (\<lambda>_. '''') (authority (demo_orchestrator demo_table)) (\<lambda>_ _. 9) ''a'' (demo_w st) demo_idle"
    "roomy memory_room (demo_orchestrator demo_table) (\<lambda>w. w) (demo_w st)"
    "Begin (\<lambda>_ _. 9) (demo_orchestrator demo_table) (\<lambda>w. w) 3 0 ''a'' ''r'' (demo_w st) = Some (Inr r, w')"
proof -
  have "set demo_idle \<subseteq> set demo_table" using demo_table_covers(2) by (auto simp: demo_idle_def demo_table_def)
  moreover have len: "length demo_idle \<le> 256" by (simp add: demo_idle_def demo_caught_up_def)
  ultimately obtain st where st: "memory_shows (\<lambda>_. '''') (authority (demo_orchestrator demo_table)) (\<lambda>_ _. 9) ''a'' (demo_w st) demo_idle"
      "roomy memory_room (demo_orchestrator demo_table) (\<lambda>w. w) (demo_w st)" "memory_room st 2"
    using demo_world [where ?newV5.0 = "\<lambda>_ _. 9" and n = "''a''" and c = "()" and x = 0, OF demo_idle_facts(1) _
        demo_table_covers(3) _ demo_authority] by blast
  obtain b where b: "MarshalDomainEvent (domainEventCodec (authority (demo_orchestrator demo_table)))
      (RebuildInitiated 3 demo_v2 zero_pid ''r'' 0) = Inr b"
    using demo_marshals [of "RebuildInitiated 3 demo_v2 zero_pid ''r'' 0"] by (auto simp: demo_table_def)
  have "\<exists>r w'. Begin (\<lambda>_ _. 9) (demo_orchestrator demo_table) (\<lambda>w. w) 3 0 ''a'' ''r'' (demo_w st) = Some (Inr r, w')"
    using lifecycle_world.Begin_alone [OF demo_context st(1), where fresh = 3 and now = 0 and reason = "''r''" and b = b
        and st = "lifecycle_fold demo_idle" and target = demo_v2] st(3) b demo_idle_facts len
    by (auto simp: StreamUUID_def uuid_nil_def max_int64_def wrap64_def demo_idle_def)
  then show ?thesis using that st(1,2) by blast
qed

lemma Begin_allocates_next_witness:
  "\<exists>st r w' es1. memory_shows (\<lambda>_. '''') (demo_store demo_table) (\<lambda>_ _. 9) ''a'' (demo_w st) demo_idle
    \<and> Begin (\<lambda>_ _. 9) (demo_orchestrator demo_table) (\<lambda>w. w) 3 0 ''a'' ''r'' (demo_w st) = Some (Inr r, w')
    \<and> prefix demo_idle es1 \<and> at_Phase (Attempt (lifecycle_fold es1)) = PhaseNone
    \<and> memory_shows (\<lambda>_. '''') (demo_store demo_table) (\<lambda>_ _. 9) ''a'' w' (es1 @ [RebuildInitiated 3
        \<lparr>Name = ''a'', Version = Allocated (lifecycle_fold es1) + 1\<rparr> (Live (lifecycle_fold es1)) ''r'' 0])"
proof -
  obtain st r w' where st: "memory_shows (\<lambda>_. '''') (authority (demo_orchestrator demo_table)) (\<lambda>_ _. 9) ''a'' (demo_w st) demo_idle"
    "roomy memory_room (demo_orchestrator demo_table) (\<lambda>w. w) (demo_w st)"
    "Begin (\<lambda>_ _. 9) (demo_orchestrator demo_table) (\<lambda>w. w) 3 0 ''a'' ''r'' (demo_w st) = Some (Inr r, w')"
    by (rule demo_begins)
  have "(3 :: uuid) \<noteq> uuid_nil" by (simp add: uuid_nil_def)
  from Begin_allocates_next [OF table_reads_back demo_authority coexists_id st(1,2) this, of 0 "''r''"] st(3)
  obtain es' where es': "memory_shows (\<lambda>_. '''') (authority (demo_orchestrator demo_table)) (\<lambda>_ _. 9) ''a'' w' es'"
    "\<exists>es1. prefix demo_idle es1 \<and> at_Phase (Attempt (lifecycle_fold es1)) = PhaseNone
        \<and> es' = es1 @ [RebuildInitiated 3 \<lparr>Name = ''a'', Version = Allocated (lifecycle_fold es1) + 1\<rparr>
            (Live (lifecycle_fold es1)) ''r'' 0]" by auto
  then show ?thesis using st(1,3) unfolding demo_authority by metis
qed

text \<open>
  \<open>SetRetirementPolicy\<close> returns, and when it reports no error it has recorded the next policy
  generation after the one it was decided on, its witnesses sorted, as the stream's last event.
\<close>

theorem SetRetirementPolicy_next_generation:
  assumes "reads_back codec" "authority o' = memory_lifecycle_store ustr fresh now codec"
    and "coexists ustr (authority o') newV5 n others" "memory_shows ustr (authority o') newV5 n w es"
    and "roomy memory_room o' others w"
  shows "\<exists>res w' es'. SetRetirementPolicy newV5 o' others t n change w = Some (res, w')
    \<and> memory_shows ustr (authority o') newV5 n w' es' \<and> prefix es es'
    \<and> (res = None \<longrightarrow> (\<exists>es1. prefix es es1
      \<and> es' = es1 @ [RetirementPolicySet (Generation (RetirementPolicy (lifecycle_fold es1)) + 1)
          (sort (ch_Witnesses change)) (ch_Unwitnessed change) (ch_Reason change) (ch_Actor change) t]))"
proof -
  note w = memory_context [OF assms(1-3)]
  obtain res w' where run: "SetRetirementPolicy newV5 o' others t n change w = Some (res, w')"
    using lifecycle_world.orchestration_returns(2) [OF w assms(4)] by blast
  from lifecycle_world.SetRetirementPolicy_keeps [OF w assms(4) run assms(5)] show ?thesis using run by blast
qed

lemma SetRetirementPolicy_next_generation_witness:
  "\<exists>st res w' es'. SetRetirementPolicy (\<lambda>_ _. 9) (demo_orchestrator demo_table) (\<lambda>w. w) 0 ''a''
      \<lparr>ch_Witnesses = [''w''], ch_Unwitnessed = False, ch_Reason = ''r'', ch_Actor = ''a''\<rparr> (demo_w st) = Some (res, w')
    \<and> memory_shows (\<lambda>_. '''') (demo_store demo_table) (\<lambda>_ _. 9) ''a'' w' es' \<and> prefix demo_promoted es'"
proof -
  obtain st where st: "memory_shows (\<lambda>_. '''') (authority (demo_orchestrator demo_table)) (\<lambda>_ _. 9) ''a'' (demo_w st) demo_promoted"
    "roomy memory_room (demo_orchestrator demo_table) (\<lambda>w. w) (demo_w st)" by (rule demo_promoted_world)
  from SetRetirementPolicy_next_generation [OF table_reads_back demo_authority coexists_id st,
      of 0 "\<lparr>ch_Witnesses = [''w''], ch_Unwitnessed = False, ch_Reason = ''r'', ch_Actor = ''a''\<rparr>"]
  show ?thesis by auto
qed

text \<open>
  C19. What is not refused happens. With nobody else writing, over a healthy in-memory store and a codec
  that encodes the event, \<open>Promote\<close> on a certified handle at the tip returns no error, the promotion is
  the one event it appended, the target is live, and the handle holds that state; and \<open>Rollback\<close> and
  \<open>Abandon\<close>, whenever the current state permits them and the processor stops, do the same with theirs:
  the previous version is live again, or the live version stays, and no attempt is left in flight.
\<close>

theorem unhindered_commands_succeed:
  assumes "reads_back codec" "authority o' = memory_lifecycle_store ustr fresh now codec" "\<forall>i. json_year_ok (now i)"
    and "memory_shows ustr (authority o') newV5 n w es" "on_prefix newV5 n es r" "memory_room (w_events w) 2"
    and "int (length es) < max_int64" "st = lifecycle_fold es" "st_Name st = n"
    and "promoted = es @ [Promoted (Live st) (Target (Attempt st)) (CutoverRevision st + 1) (Generation (RetirementPolicy st)) t]"
    and "rolledBack = es @ [RolledBack (Live st) (Previous (Attempt st)) (CutoverRevision st + 1) t]"
    and "abandoned = es @ [Abandoned cause]"
  shows "(at_prefix newV5 n es (length es) (rb_aggregate r) \<and> at_Phase (Attempt st) = PhaseCaughtUp
        \<and> certificate_refusal r = None \<and> CutoverRevision st \<noteq> max_int64
        \<and> (\<exists>b. MarshalDomainEvent codec (last promoted) = Inr b)
      \<longrightarrow> (\<exists>r' w'. Promote newV5 o' (\<lambda>w. w) t r w = (None, r', w')
        \<and> memory_shows ustr (authority o') newV5 n w' promoted \<and> Rebuild_State r' = lifecycle_fold promoted
        \<and> Live (lifecycle_fold promoted) = Target (Attempt st)
        \<and> at_Phase (Attempt (lifecycle_fold promoted)) = PhasePromoted))
    \<and> (rollbackRefusal st = None \<and> (\<exists>b. MarshalDomainEvent codec (last rolledBack) = Inr b)
      \<longrightarrow> (\<exists>r' w'. Rollback newV5 o' (\<lambda>w. w) t (Inr runErr) r w = Some (None, r', w')
        \<and> memory_shows ustr (authority o') newV5 n w' rolledBack \<and> Rebuild_State r' = lifecycle_fold rolledBack
        \<and> Live (lifecycle_fold rolledBack) = Previous (Attempt st)
        \<and> at_Phase (Attempt (lifecycle_fold rolledBack)) = PhaseNone))
    \<and> (abandonRefusal st = None \<and> (\<exists>b. MarshalDomainEvent codec (last abandoned) = Inr b)
      \<longrightarrow> (\<exists>r' w'. Abandon newV5 o' (\<lambda>w. w) cause (Inr runErr) r w = Some (None, r', w')
        \<and> memory_shows ustr (authority o') newV5 n w' abandoned \<and> Rebuild_State r' = lifecycle_fold abandoned
        \<and> Live (lifecycle_fold abandoned) = Live st
        \<and> at_Phase (Attempt (lifecycle_fold abandoned)) = PhaseNone))"
proof -
  note w = memory_context [OF assms(1,2) coexists_id]
  note shown = lifecycle_world.recorded_displays [OF w]
  have codec: "domainEventCodec (authority o') = codec" by (simp add: assms(2) memory_es_store_def)
  have name: "rb_name r = n" using assms(5) by (simp add: on_prefix_def)
  have clean: "clean es'" if "memory_shows ustr (authority o') newV5 n w' es'" for w' es'
    using that by (simp add: shows_stream_def)
  show ?thesis
  proof (intro conjI impI, goal_cases)
    case 1
    then have pre: "at_prefix newV5 n es (length es) (rb_aggregate r)" and p: "at_Phase (Attempt st) = PhaseCaughtUp"
        "certificate_refusal r = None" "CutoverRevision st \<noteq> max_int64" by simp_all
    obtain b where b: "MarshalDomainEvent (domainEventCodec (authority o')) (Promoted (Live st) (Target (Attempt st))
        (CutoverRevision st + 1) (Generation (RetirementPolicy st)) t) = Inr b" using 1 unfolding codec assms(10) by auto
    obtain r' w' where run: "Promote newV5 o' (\<lambda>w. w) t r w = (None, r', w')"
      "lifecycle_world.recorded_at (stream_view ustr) (authority o') newV5 n es (Promoted (Live st) (Target (Attempt st))
        (CutoverRevision st + 1) (Generation (RetirementPolicy st)) t) r' w'"
      using lifecycle_world.Promote_alone [OF w assms(4) pre name refl assms(3,6) b assms(7-9) p] by blast
    have "memory_shows ustr (authority o') newV5 n w' promoted \<and> Rebuild_State r' = lifecycle_fold promoted"
      using shown [OF conjunct1 [OF lifecycle_world.Promote_keeps [OF w assms(4,5) run(1) assms(6)]] run(2)]
      unfolding assms(10) .
    then show ?case using run(1) events_take_effect(1) clean assms(8) unfolding assms(10) by blast
  next
    case 2
    then obtain b where b: "MarshalDomainEvent (domainEventCodec (authority o'))
        (RolledBack (Live st) (Previous (Attempt st)) (CutoverRevision st + 1) t) = Inr b" unfolding codec assms(11) by auto
    obtain r' w' where run: "Rollback newV5 o' (\<lambda>w. w) t (Inr runErr) r w = Some (None, r', w')"
      "lifecycle_world.recorded_at (stream_view ustr) (authority o') newV5 n es
        (RolledBack (Live st) (Previous (Attempt st)) (CutoverRevision st + 1) t) r' w'"
      using lifecycle_world.Rollback_alone [OF w assms(4,5) refl assms(3,6) b assms(7-9)] 2 by blast
    have "memory_shows ustr (authority o') newV5 n w' rolledBack \<and> Rebuild_State r' = lifecycle_fold rolledBack"
      using shown [OF conjunct1 [OF lifecycle_world.Rollback_keeps [OF w assms(4,5) run(1) assms(6)]] run(2)]
      unfolding assms(11) .
    then show ?case using run(1) events_take_effect(2) clean assms(8) unfolding assms(11) by blast
  next
    case 3
    then obtain b where b: "MarshalDomainEvent (domainEventCodec (authority o')) (Abandoned cause) = Inr b"
      unfolding codec assms(12) by auto
    obtain r' w' where run: "Abandon newV5 o' (\<lambda>w. w) cause (Inr runErr) r w = Some (None, r', w')"
      "lifecycle_world.recorded_at (stream_view ustr) (authority o') newV5 n es (Abandoned cause) r' w'"
      using lifecycle_world.Abandon_alone [OF w assms(4,5) refl assms(3,6) b assms(7-9)] 3 by blast
    have "memory_shows ustr (authority o') newV5 n w' abandoned \<and> Rebuild_State r' = lifecycle_fold abandoned"
      using shown [OF conjunct1 [OF lifecycle_world.Abandon_keeps [OF w assms(4,5) run(1) assms(6)]] run(2)]
      unfolding assms(12) .
    then show ?case using run(1) events_take_effect(3) clean assms(8) unfolding assms(12) by blast
  qed
qed

lemma unhindered_commands_succeed_witness:
  "\<exists>st r' w'. Promote (\<lambda>_ _. 9) (demo_orchestrator demo_table) (\<lambda>w. w) 0 demo_certified (demo_w st) = (None, r', w')
    \<and> memory_shows (\<lambda>_. '''') (demo_store demo_table) (\<lambda>_ _. 9) ''a'' w' (demo_caught_up @ [Promoted zero_pid demo_v1 1 0 0])
    \<and> Live (lifecycle_fold (demo_caught_up @ [Promoted zero_pid demo_v1 1 0 0])) = demo_v1
    \<and> (\<exists>r' w'. Abandon (\<lambda>_ _. 9) (demo_orchestrator demo_table) (\<lambda>w. w) ''c'' (Inr None) demo_certified (demo_w st) = Some (None, r', w')
      \<and> memory_shows (\<lambda>_. '''') (demo_store demo_table) (\<lambda>_ _. 9) ''a'' w' demo_idle)"
proof -
  obtain st where st: "memory_shows (\<lambda>_. '''') (authority (demo_orchestrator demo_table)) (\<lambda>_ _. 9) ''a'' (demo_w st) demo_caught_up"
    "memory_room (w_events (demo_w st)) 2" by (rule demo_caught_up_world) auto
  have codec: "\<exists>b. MarshalDomainEvent (table_codec demo_table) (Promoted zero_pid demo_v1 1 0 0) = Inr b"
      "\<exists>b. MarshalDomainEvent (table_codec demo_table) (Abandoned ''c'') = Inr b"
    using demo_marshals [of "Promoted zero_pid demo_v1 1 0 0"] demo_marshals [of "Abandoned ''c''"]
    by (simp_all add: demo_table_def demo_promoted_def memory_es_store_def)
  have len: "int (length demo_caught_up) < max_int64" using demo_lengths(1) by (simp add: max_int64_def)
  have json: "\<forall>i :: nat. json_year_ok 0" by simp
  note succeed = unhindered_commands_succeed [OF table_reads_back demo_authority json st(1) demo_certified_facts(3)
      st(2) len refl demo_named(1) refl refl refl, of 0 None "''c''"]
  have "\<exists>r' w'. Promote (\<lambda>_ _. 9) (demo_orchestrator demo_table) (\<lambda>w. w) 0 demo_certified (demo_w st) = (None, r', w')
    \<and> memory_shows (\<lambda>_. '''') (demo_store demo_table) (\<lambda>_ _. 9) ''a'' w' (demo_caught_up @ [Promoted zero_pid demo_v1 1 0 0])
    \<and> Live (lifecycle_fold (demo_caught_up @ [Promoted zero_pid demo_v1 1 0 0])) = demo_v1"
    using conjunct1 [OF succeed] codec(1) by (auto simp: demo_certified_facts demo_caught_up_state zero_policy_def max_int64_def)
  moreover have "\<exists>r' w'. Abandon (\<lambda>_ _. 9) (demo_orchestrator demo_table) (\<lambda>w. w) ''c'' (Inr None) demo_certified (demo_w st)
      = Some (None, r', w') \<and> memory_shows (\<lambda>_. '''') (demo_store demo_table) (\<lambda>_ _. 9) ''a'' w' demo_idle"
    using conjunct2 [OF conjunct2 [OF succeed]] codec(2) unfolding demo_idle_def
    by (auto simp: abandonRefusal_def demo_caught_up_state)
  ultimately show ?thesis by blast
qed

end
