(* ===== verification/RebuildRun.thy ===== *)
theory RebuildRun
  imports RebuildCommands
begin

text \<open>
  The run of a rebuild handle (\<open>projection/lifecycle/handle.go\<close>), one definition per critical section
  and per decision of \<open>Run\<close>, of its reconcile loop and of its wind-down; \<open>RunSystem\<close> composes them.
  Reads that the code makes outside the handle's lock are arguments here (\<open>loaded\<close>), since the handle
  may change between the read and the section that judges it.
\<close>

section \<open>Options\<close>

record run_config =
  rc_takeover :: runner_takeover
  rc_optionErr :: "go_error option"

definition WithTakeover :: "string \<Rightarrow> string \<Rightarrow> run_config \<Rightarrow> run_config" where
  "WithTakeover actor reason c =
     (if actor = '''' \<or> reason = ''''
      then c\<lparr>rc_optionErr := errors_join [rc_optionErr c,
             Some (Text ''a runner takeover requires an actor and a reason'')]\<rparr>
      else c\<lparr>rc_takeover := \<lparr>to_Actor = actor, to_Reason = reason\<rparr>\<rparr>)"

definition run_options :: "(run_config \<Rightarrow> run_config) option list \<Rightarrow> run_config result" where
  "run_options opts =
     (if list_ex Option.is_none opts then Inl (Text ''run option must not be nil'')
      else let config = fold (\<lambda>opt. the opt) opts \<lparr>rc_takeover = zero_takeover, rc_optionErr = None\<rparr> in
        case rc_optionErr config of Some err \<Rightarrow> Inl err | None \<Rightarrow> Inr config)"

section \<open>Claiming the attempt\<close>

text \<open>The takeover gate: what the claim attests, or the refusal of a standing claim.\<close>

definition takeover_gate :: "state \<Rightarrow> runner_takeover \<Rightarrow> runner_takeover result" where
  "takeover_gate s takeover =
     (if standing s
      then if takeover = zero_takeover
        then Inl (fmt_wrap ''the claimant has not recorded its exit'' (Sentinel ErrClaimStanding))
        else Inr takeover
      else Inr zero_takeover)"

text \<open>The events that claim the attempt; the position a claim starts from is the checkpoint's.\<close>

definition claimTransitions ::
  "('db, 'i, 'g, 'c, 'x, 'p) orchestrator \<Rightarrow> (('db, 'c, 'x) world \<Rightarrow> ('db, 'c, 'x) world)
   \<Rightarrow> uuid \<Rightarrow> runner_takeover \<Rightarrow> time \<Rightarrow> attempt_state \<Rightarrow> ('db, 'c, 'x) world
   \<Rightarrow> lifecycle_event list result \<times> ('db, 'c, 'x) world" where
  "claimTransitions o' others runner takeover now attempt w =
     (case at_Phase attempt of
        PhaseNone \<Rightarrow> (Inl (Text ''projection has no rebuild in flight; nothing to run''), w)
      | PhaseUnknown n \<Rightarrow> (Inl (Text ''cannot run a rebuild in unknown phase''), w)
      | PhaseCreated \<Rightarrow> (Inr [RunnerClaimed (at_ID attempt) runner 0 takeover now, BuildStarted], w)
      | phase \<Rightarrow>
         (let w1 = others w in
          case ck_Load (oc_Checkpoints o') (w_checkpoints w1) (Target attempt) of
            Inr checkpoint \<Rightarrow> (Inr [RunnerClaimed (at_ID attempt) runner (cp_Position checkpoint) takeover now], w1)
          | Inl err \<Rightarrow>
              if \<not> errors_is err ErrCheckpointNotFound then (Inl (fmt_wrap ''loading checkpoint'' err), w1)
              else (Inr [RunnerClaimed (at_ID attempt) runner 0 takeover now], w1)))"

text \<open>Why a claim was lost, from the event that won its slot; \<open>None\<close> for an attempt that ended.\<close>

definition claimDefeat ::
  "(uuid \<Rightarrow> string \<Rightarrow> uuid) \<Rightarrow> ('db, 'i, 'g, 'c, 'x, 'p) orchestrator
   \<Rightarrow> (('db, 'c, 'x) world \<Rightarrow> ('db, 'c, 'x) world) \<Rightarrow> attempt_state \<Rightarrow> go_error \<Rightarrow> rebuild
   \<Rightarrow> ('db, 'c, 'x) world \<Rightarrow> (go_error option \<times> rebuild \<times> ('db, 'c, 'x) world) option" where
  "claimDefeat newV5 o' others base lost r w =
     (case defeatSlot lost (lifecycleStream newV5 r) of
        None \<Rightarrow> Some (Some lost, r, w)
      | Some slot \<Rightarrow>
     (let w1 = others w in
      case hydrateFresh newV5 o' (rb_name r) slot (w_events w1) of
        None \<Rightarrow> None
      | Some (Inl err) \<Rightarrow> Some (Some lost, r, w1)
      | Some (Inr loaded) \<Rightarrow>
          if agg_version loaded \<noteq> slot then Some (Some lost, r, w1)
          else case checkLifecycleAggregate newV5 loaded (rb_name r) of
            Some err \<Rightarrow> Some (Some (Join [lost, err]), r, w1)
          | None \<Rightarrow>
             (let current = Attempt (agg_state loaded) in
              if at_ID current \<noteq> at_ID base then Some (None, r\<lparr>rb_aggregate := loaded\<rparr>, w1)
              else if Runner current \<noteq> Runner base
              then Some (Some (fmt_wrap ''the claim lost the stream to a competing runner'' (Sentinel ErrRunnerDisplaced)),
                r\<lparr>rb_aggregate := loaded\<rparr>, w1)
              else Some (Some lost, r, w1))))"

text \<open>
  How the entry of \<open>Run\<close> ends: it returns at once, it returns after releasing the claim it won, or
  a processor starts for the attempt.
\<close>

datatype run_entry =
    RunReturns "go_error option"
  | RunUnstarted go_error
  | RunStarts attempt_state

text \<open>A durable and observed claim: the handle takes its runner, and the processor is made.\<close>

definition startRun ::
  "('db, 'i, 'g, 'c, 'x, 'p) orchestrator \<Rightarrow> (('db, 'c, 'x) world \<Rightarrow> ('db, 'c, 'x) world)
   \<Rightarrow> ('g \<Rightarrow> 'c checkpoint_ops \<Rightarrow> projection_id \<Rightarrow> 'x event_handler \<Rightarrow> 'p list \<Rightarrow> go_error option)
   \<Rightarrow> uuid \<Rightarrow> chan \<Rightarrow> attempt_state \<Rightarrow> rebuild \<Rightarrow> ('db, 'c, 'x) world
   \<Rightarrow> run_entry \<times> rebuild \<times> ('db, 'c, 'x) world" where
  "startRun o' others newProcessor runner exited attempt r w =
     (let r1 = r\<lparr>rb_runner := runner\<rparr>; w1 = others w in
      case oc_Handler o' (Target attempt) (w_rest w1) of (handler, x) \<Rightarrow>
     (let w2 = w1\<lparr>w_rest := x\<rparr> in
      case handler of
        Inl err \<Rightarrow> (RunUnstarted (fmt_wrap ''creating handler'' err), r1, w2)
      | Inr h \<Rightarrow>
         (case newProcessor (oc_Events o') (oc_Checkpoints o') (Target attempt) h (processorOptions o') of
            Some err \<Rightarrow> (RunUnstarted (fmt_wrap ''creating processor'' err), r1, w2)
          | None \<Rightarrow> (RunStarts attempt, r1\<lparr>stopProcessor := True, processorExited := Some exited\<rparr>, w2))))"

text \<open>The claim's append, and what it means when it fails or is not observed.\<close>

definition claimRun ::
  "(uuid \<Rightarrow> string \<Rightarrow> uuid) \<Rightarrow> ('db, 'i, 'g, 'c, 'x, 'p) orchestrator
   \<Rightarrow> (('db, 'c, 'x) world \<Rightarrow> ('db, 'c, 'x) world)
   \<Rightarrow> ('g \<Rightarrow> 'c checkpoint_ops \<Rightarrow> projection_id \<Rightarrow> 'x event_handler \<Rightarrow> 'p list \<Rightarrow> go_error option)
   \<Rightarrow> uuid \<Rightarrow> chan \<Rightarrow> lifecycle_event list \<Rightarrow> attempt_state \<Rightarrow> rebuild \<Rightarrow> ('db, 'c, 'x) world
   \<Rightarrow> (run_entry \<times> rebuild \<times> ('db, 'c, 'x) world) option" where
  "claimRun newV5 o' others newProcessor runner exited transitions attempt r w =
     (case appendLocked o' others transitions (r\<lparr>runAttempt := at_ID attempt\<rparr>) w of
        (None, r1, w1) \<Rightarrow> Some (startRun o' others newProcessor runner exited attempt r1 w1)
      | (Some err, r1, w1) \<Rightarrow>
          if SaveOutcome (Some err) \<noteq> AppendOutcomeAppended
          then map_option (\<lambda>(res, r2, w2). (RunReturns res, r2, w2)) (claimDefeat newV5 o' others attempt err r1 w1)
          else let w2 = others w1 in
            case hydrateFresh newV5 o' (rb_name r1) 0 (w_events w2) of
              None \<Rightarrow> None
            | Some (Inl loadErr) \<Rightarrow> Some (RunReturns (Some (fmt_wrap
                ''reloading lifecycle state after an unobserved claim'' (Join [err, loadErr]))), r1, w2)
            | Some (Inr loaded) \<Rightarrow>
               (case checkLifecycleAggregate newV5 loaded (rb_name r1) of
                  Some checkErr \<Rightarrow> Some (RunReturns (Some (fmt_wrap
                    ''checking lifecycle state after an unobserved claim'' (Join [err, checkErr]))), r1, w2)
                | None \<Rightarrow>
                   (let r2 = r1\<lparr>rb_aggregate := loaded\<rparr>; current = Attempt (agg_state loaded) in
                    if at_ID current \<noteq> at_ID attempt then Some (RunReturns None, r2, w2)
                    else if Runner current \<noteq> runner
                    then Some (RunReturns (Some (fmt_wrap
                      ''the claim was recorded but superseded before this runner observed it''
                      (Sentinel ErrRunnerDisplaced))), r2, w2)
                    else Some (startRun o' others newProcessor runner exited attempt r2 w2))))"

definition enterRun ::
  "(uuid \<Rightarrow> string \<Rightarrow> uuid) \<Rightarrow> ('db, 'i, 'g, 'c, 'x, 'p) orchestrator
   \<Rightarrow> (('db, 'c, 'x) world \<Rightarrow> ('db, 'c, 'x) world)
   \<Rightarrow> ('g \<Rightarrow> 'c checkpoint_ops \<Rightarrow> projection_id \<Rightarrow> 'x event_handler \<Rightarrow> 'p list \<Rightarrow> go_error option)
   \<Rightarrow> (run_config \<Rightarrow> run_config) option list \<Rightarrow> uuid \<Rightarrow> chan \<Rightarrow> time \<Rightarrow> rebuild \<Rightarrow> ('db, 'c, 'x) world
   \<Rightarrow> (run_entry \<times> rebuild \<times> ('db, 'c, 'x) world) option" where
  "enterRun newV5 o' others newProcessor opts runner exited now r w =
     (case run_options opts of
        Inl err \<Rightarrow> Some (RunReturns (Some err), r, w)
      | Inr config \<Rightarrow>
          if ran r
          then Some (RunReturns (Some (Text
            ''rebuild handle has already run; resume the projection for a new handle'')), r, w)
          else case refoldLocked newV5 o' others (r\<lparr>ran := True\<rparr>) w of
            None \<Rightarrow> None
          | Some (Some err, r1, w1) \<Rightarrow> Some (RunReturns (Some err), r1, w1)
          | Some (None, r1, w1) \<Rightarrow>
             (let s = agg_state (rb_aggregate r1) in
              case takeover_gate s (rc_takeover config) of
                Inl err \<Rightarrow> Some (RunReturns (Some err), r1, w1)
              | Inr takeover \<Rightarrow>
                 (case claimTransitions o' others runner takeover now (Attempt s) w1 of
                    (Inl err, w2) \<Rightarrow> Some (RunReturns (Some err), r1, w2)
                  | (Inr transitions, w2) \<Rightarrow>
                      claimRun newV5 o' others newProcessor runner exited transitions (Attempt s) r1 w2)))"

definition catchingUp :: "attempt_state \<Rightarrow> bool" where
  "catchingUp attempt \<longleftrightarrow> at_Phase attempt \<in> {PhaseCreated, PhaseBuilding, PhaseCaughtUp}"

section \<open>The reconcile loop\<close>

text \<open>What an iteration leaves the loop to do: wait again, return, or stop the processor and return.\<close>

datatype tick_verdict = TickContinue | TickReturn | TickStop

definition recordTerminalStop :: "go_error \<Rightarrow> rebuild \<Rightarrow> rebuild" where
  "recordTerminalStop cause r =
     (if stopped r then r else r\<lparr>stopped := True, certificate := None, failure := Some cause\<rparr>)"

text \<open>A load that failed; \<open>ctxErr\<close> is the processor context's error.\<close>

definition reconcileFailed :: "sentinel option \<Rightarrow> go_error \<Rightarrow> rebuild \<Rightarrow> tick_verdict \<times> rebuild" where
  "reconcileFailed ctxErr err r =
     (if case ctxErr of None \<Rightarrow> False | Some c \<Rightarrow> cancellationOnly err c then (TickReturn, r)
      else (TickStop, recordTerminalStop (fmt_wrap ''reconciling lifecycle state'' err) r))"

definition reconcileLoaded ::
  "(uuid \<Rightarrow> string \<Rightarrow> uuid) \<Rightarrow> uuid \<Rightarrow> uuid \<Rightarrow> lifecycle_aggregate \<Rightarrow> rebuild
   \<Rightarrow> tick_verdict \<times> rebuild" where
  "reconcileLoaded newV5 attemptID runnerID loaded r =
     (if stopped r then (TickReturn, r)
      else if agg_version loaded < agg_version (rb_aggregate r) then (TickContinue, r)
      else case checkLifecycleAggregate newV5 loaded (rb_name r) of
        Some err \<Rightarrow> (TickStop, recordTerminalStop err r)
      | None \<Rightarrow>
         (let r1 = r\<lparr>rb_aggregate := loaded\<rparr>; current = Attempt (agg_state loaded) in
          if at_ID current \<noteq> attemptID
          then (TickStop, r1\<lparr>stopped := True, certificate := None\<rparr>)
          else if Runner current \<noteq> runnerID
          then (TickStop, r1\<lparr>stopped := True, failure := Some displacedError, certificate := None\<rparr>)
          else (TickContinue, r1)))"

section \<open>Catching up\<close>

datatype catch_up =
    CatchUpStopped "go_error option"
  | CatchUpExited
  | CatchUpFailed go_error
  | CatchUpRecorded

definition recordCatchUp ::
  "('db, 'i, 'g, 'c, 'x, 'p) orchestrator \<Rightarrow> (('db, 'c, 'x) world \<Rightarrow> ('db, 'c, 'x) world)
   \<Rightarrow> uuid \<Rightarrow> int64 \<Rightarrow> int64 \<Rightarrow> time \<Rightarrow> rebuild \<Rightarrow> ('db, 'c, 'x) world
   \<Rightarrow> catch_up \<times> rebuild \<times> ('db, 'c, 'x) world" where
  "recordCatchUp o' others attemptID pos elapsed now r w =
     (if stopped r then (CatchUpStopped (failure r), r, w)
      else if exitPublished r then (CatchUpExited, r, w)
      else case appendLocked o' others [CaughtUp pos elapsed now] r w of
        (Some err, r1, w1) \<Rightarrow> (CatchUpFailed err, r1, w1)
      | (None, r1, w1) \<Rightarrow> (CatchUpRecorded, r1\<lparr>certificate := Some
          \<lparr>ct_attempt = attemptID, ct_runner = rb_runner r1, ct_position = pos,
           ct_version = agg_version (rb_aggregate r1), ct_exited = processorExited r1\<rparr>\<rparr>, w1))"

section \<open>Promotions of unknown outcome\<close>

text \<open>What \<open>promoteAfterCatchUp\<close> makes of its promotion's result.\<close>

datatype promotion_fate =
    PromotionStands
  | PromotionUnresolved int64 go_error
  | PromotionLost go_error

definition promotionFate :: "go_error option \<Rightarrow> promotion_fate" where
  "promotionFate res =
     (case res of
        None \<Rightarrow> PromotionStands
      | Some err \<Rightarrow>
         (case SaveOutcome (Some err) of
            AppendOutcomeAppended \<Rightarrow> PromotionStands
          | AppendOutcomeUnknown \<Rightarrow>
             (case as_append_error err of
                Some slot \<Rightarrow> PromotionUnresolved slot err | None \<Rightarrow> PromotionLost err)
          | AppendOutcomeNothingAppended \<Rightarrow> PromotionLost err))"

definition reconcileHalted :: "rebuild \<Rightarrow> bool" where
  "reconcileHalted r \<longleftrightarrow> stopped r \<or> failure r \<noteq> None \<or> exitPublished r"

text \<open>What a fold to the contended slot shows.\<close>

datatype slot_fate = SlotUnread | SlotPoisoned go_error | SlotEmpty | SlotWon | SlotForeign

definition slotFate ::
  "(uuid \<Rightarrow> string \<Rightarrow> uuid) \<Rightarrow> string \<Rightarrow> uuid \<Rightarrow> int64 \<Rightarrow> lifecycle_aggregate result \<Rightarrow> slot_fate" where
  "slotFate newV5 name attemptID slot loaded =
     (case loaded of
        Inl err \<Rightarrow> SlotUnread
      | Inr a \<Rightarrow>
         (case checkLifecycleAggregate newV5 a name of
            Some err \<Rightarrow> SlotPoisoned err
          | None \<Rightarrow>
              if agg_version a < slot then SlotEmpty
              else if at_ID (Attempt (agg_state a)) = attemptID \<and> at_Phase (Attempt (agg_state a)) = PhasePromoted
              then SlotWon else SlotForeign))"

text \<open>
  A retry that died to its own cancellation is interrupted: \<open>ctxErr\<close> is the error of the context it
  ran under. The result says whether the promotion stands, or which loss is the story from then on.
\<close>

definition retry_interrupted :: "sentinel option \<Rightarrow> go_error option \<Rightarrow> bool" where
  "retry_interrupted ctxErr retryErr \<longleftrightarrow>
     (case (retryErr, ctxErr) of (Some err, Some c) \<Rightarrow> cancellationOnly err c | _ \<Rightarrow> False)"

definition retryFate :: "bool \<Rightarrow> go_error option \<Rightarrow> go_error \<Rightarrow> go_error option" where
  "retryFate interrupted retryErr lost =
     (if interrupted then Some lost
      else case retryErr of
        None \<Rightarrow> None
      | Some err \<Rightarrow>
          if SaveOutcome (Some err) = AppendOutcomeAppended then None
          else if SaveOutcome (Some err) = AppendOutcomeNothingAppended \<or> isAppendFailure err then Some err
          else Some lost)"

definition registerRetry :: "rebuild \<Rightarrow> rebuild" where
  "registerRetry r = r\<lparr>retrying := True, retryCancelled := False\<rparr>"

definition unregisterRetry :: "rebuild \<Rightarrow> rebuild" where
  "unregisterRetry r = r\<lparr>retrying := False\<rparr>"

definition observeReconciledPromotion ::
  "(uuid \<Rightarrow> string \<Rightarrow> uuid) \<Rightarrow> lifecycle_aggregate result \<Rightarrow> rebuild \<Rightarrow> rebuild" where
  "observeReconciledPromotion newV5 loaded r =
     (let r1 = r\<lparr>certificate := None\<rparr> in
      case loaded of
        Inl err \<Rightarrow> r1
      | Inr a \<Rightarrow>
          if checkLifecycleAggregate newV5 a (rb_name r) = None \<and> agg_version (rb_aggregate r) \<le> agg_version a
          then r1\<lparr>rb_aggregate := a\<rparr> else r1)"

section \<open>Lost appends\<close>

text \<open>The verdict of the fold at a slot this run's append lost.\<close>

definition recordSlotDefeat ::
  "(uuid \<Rightarrow> string \<Rightarrow> uuid) \<Rightarrow> uuid \<Rightarrow> uuid \<Rightarrow> lifecycle_aggregate \<Rightarrow> rebuild \<Rightarrow> rebuild" where
  "recordSlotDefeat newV5 attemptID runnerID loaded r =
     (case checkLifecycleAggregate newV5 loaded (rb_name r) of
        Some err \<Rightarrow> recordTerminalStop err r
      | None \<Rightarrow>
         (let current = Attempt (agg_state loaded);
              ended = (at_ID current \<noteq> attemptID);
              displaced = (\<not> ended \<and> Runner current \<noteq> runnerID) in
          if commandEnded r = attemptID then r
          else if stopped r
          then (if displaced \<and> failure r = None then r\<lparr>failure := Some displacedError\<rparr> else r)
          else let r1 = (if agg_version (rb_aggregate r) \<le> agg_version loaded
                 then r\<lparr>rb_aggregate := loaded\<rparr> else r) in
            if ended then r1\<lparr>stopped := True, certificate := None\<rparr>
            else if displaced
            then r1\<lparr>stopped := True, failure := Some displacedError, certificate := None\<rparr>
            else r1))"

definition lostSlot :: "go_error \<Rightarrow> typeid \<Rightarrow> int64 option" where
  "lostSlot lost stream =
     (case defeatSlot lost stream of
        Some slot \<Rightarrow> Some slot
      | None \<Rightarrow>
          if SaveOutcome (Some lost) \<noteq> AppendOutcomeUnknown then None else as_append_error lost)"

text \<open>The section before the read of \<open>recordLostAppend\<close>: the slot to read, unless a command ended the attempt.\<close>

definition beginClassification ::
  "(uuid \<Rightarrow> string \<Rightarrow> uuid) \<Rightarrow> uuid \<Rightarrow> go_error \<Rightarrow> rebuild \<Rightarrow> (int64 \<times> rebuild) option" where
  "beginClassification newV5 attemptID lost r =
     (case lostSlot lost (lifecycleStream newV5 r) of
        None \<Rightarrow> None
      | Some slot \<Rightarrow>
          if commandEnded r = attemptID then None
          else Some (slot, r\<lparr>classifying := True, classifyCancelled := False\<rparr>))"

definition endClassification ::
  "(uuid \<Rightarrow> string \<Rightarrow> uuid) \<Rightarrow> uuid \<Rightarrow> uuid \<Rightarrow> int64 \<Rightarrow> lifecycle_aggregate result \<Rightarrow> rebuild \<Rightarrow> rebuild" where
  "endClassification newV5 attemptID runnerID slot loaded r =
     (case loaded of
        Inl err \<Rightarrow> r
      | Inr a \<Rightarrow> if agg_version a \<noteq> slot then r else recordSlotDefeat newV5 attemptID runnerID a r)
     \<lparr>classifying := False\<rparr>"

section \<open>Releasing the claim\<close>

definition releases :: "(uuid \<Rightarrow> string \<Rightarrow> uuid) \<Rightarrow> rebuild \<Rightarrow> bool" where
  "releases newV5 r \<longleftrightarrow>
     (let attempt = Attempt (agg_state (rb_aggregate r)) in
      at_Phase attempt \<noteq> PhaseNone \<and> Runner attempt = rb_runner r \<and> \<not> Released attempt
      \<and> checkLifecycleAggregate newV5 (rb_aggregate r) (rb_name r) = None)"

definition releaseClaim ::
  "(uuid \<Rightarrow> string \<Rightarrow> uuid) \<Rightarrow> ('db, 'i, 'g, 'c, 'x, 'p) orchestrator
   \<Rightarrow> (('db, 'c, 'x) world \<Rightarrow> ('db, 'c, 'x) world) \<Rightarrow> time \<Rightarrow> rebuild \<Rightarrow> ('db, 'c, 'x) world
   \<Rightarrow> go_error option \<times> rebuild \<times> ('db, 'c, 'x) world" where
  "releaseClaim newV5 o' others now r w =
     (if releases newV5 r
      then appendLocked o' others
        [RunnerReleased (at_ID (Attempt (agg_state (rb_aggregate r)))) (rb_runner r) now] r w
      else (None, r, w))"

text \<open>A run whose processor could not be made returns through the deferred release of the claim it won.\<close>

definition leaveEntry ::
  "(uuid \<Rightarrow> string \<Rightarrow> uuid) \<Rightarrow> ('db, 'i, 'g, 'c, 'x, 'p) orchestrator
   \<Rightarrow> (('db, 'c, 'x) world \<Rightarrow> ('db, 'c, 'x) world) \<Rightarrow> time
   \<Rightarrow> run_entry \<times> rebuild \<times> ('db, 'c, 'x) world \<Rightarrow> run_entry \<times> rebuild \<times> ('db, 'c, 'x) world" where
  "leaveEntry newV5 o' others now out =
     (case out of
        (RunUnstarted err, r, w) \<Rightarrow>
          (case releaseClaim newV5 o' others now r w of (releaseErr, r1, w1) \<Rightarrow> (RunReturns (Some err), r1, w1))
      | _ \<Rightarrow> out)"

end
