(* ===== verification/RunSystem.thy ===== *)
theory RunSystem
  imports RebuildRun
begin

text \<open>
  A run of a rebuild handle as a transition system: \<open>Run\<close>'s goroutine, the processor's goroutine, the
  reconcile loop and the handle's commands interleave at their critical sections, beside everybody
  else's writes (\<open>others\<close>). What the processor handles, when it catches up and what it returns are
  left open, as is when the caller's context ends and when a timer fires. A read may fail once its
  context has ended, and an append whose context ends may be cut short: then it is recorded or not,
  and the handle has observed neither.
\<close>

section \<open>The state of a run\<close>

text \<open>Where \<open>Run\<close>'s goroutine is, with the local values it still needs; a lost append is carried to its classification.\<close>

datatype run_pc =
    Draining                                          \<comment> \<open>the select of \<open>runToCaughtUp\<close>\<close>
  | Recording int64                                   \<comment> \<open>\<open>recordCatchUp\<close> at the caught-up position\<close>
  | AwaitingStopped "go_error option"                 \<comment> \<open>stopped before the catch-up\<close>
  | Promoting                                         \<comment> \<open>the promotion of \<open>promoteAfterCatchUp\<close>\<close>
  | Halting int64 go_error                            \<comment> \<open>the head of the loop of \<open>reconcileUnknownPromotion\<close>\<close>
  | Folding int64 go_error                            \<comment> \<open>its fold to the slot\<close>
  | Folded int64 go_error "lifecycle_aggregate result"
  | Retrying int64 go_error                           \<comment> \<open>\<open>retryPromotion\<close>, held by announced commands\<close>
  | Attempting int64 go_error                         \<comment> \<open>its promotion\<close>
  | Pausing int64 go_error                            \<comment> \<open>the loop's wait\<close>
  | Observing                                         \<comment> \<open>the read of \<open>observeReconciledPromotion\<close>\<close>
  | Observed "lifecycle_aggregate result"
  | Tailing                                           \<comment> \<open>Run's receive from \<open>done\<close>\<close>
  | Winding "go_error option" "go_error option"       \<comment> \<open>\<open>windDown\<close> with its local failure\<close>
  | AwaitingWound bool "go_error option" "go_error option"
  | Classifying "go_error option" go_error            \<comment> \<open>\<open>recordLostAppend\<close>\<close>
  | Reading "go_error option" int64                   \<comment> \<open>its read\<close>
  | Classified "go_error option" int64 "lifecycle_aggregate result"
  | Joining "go_error option"                         \<comment> \<open>\<open>classifyExit\<close>\<close>
  | Leaving "go_error option"                         \<comment> \<open>the deferred stop\<close>
  | Leaves "go_error option"                          \<comment> \<open>and join\<close>
  | Releasing "go_error option"                       \<comment> \<open>the deferred \<open>releaseClaim\<close>\<close>
  | Returned "go_error option"

datatype reconcile_pc =
    Ticking
  | Ticked
  | Loading
  | Loaded "lifecycle_aggregate result"
  | Stopping
  | Exited

datatype processor_pc =
    Processing
  | ProcessorReturned "go_error option"
  | ProcessorDone "go_error option"

datatype terminal_command = RollbackCommand time | AbandonCommand string

datatype command_pc =
    Announced terminal_command
  | StoppingRun
  | AwaitingExit
  | Withdrawing

record ('db, 'c, 'x) run =
  rn_handle :: rebuild
  rn_world :: "('db, 'c, 'x) world"
  rn_pc :: run_pc
  rn_reconcile :: reconcile_pc
  rn_processor :: processor_pc
  rn_caughtUp :: "int64 option"
  rn_ctx :: "sentinel option"
  rn_commands :: "command_pc list"

text \<open>The run that the entry of \<open>Run\<close> leaves to its goroutines.\<close>

definition begin_run :: "attempt_state \<Rightarrow> rebuild \<Rightarrow> ('db, 'c, 'x) world \<Rightarrow> ('db, 'c, 'x) run" where
  "begin_run attempt r w = \<lparr>rn_handle = r, rn_world = w,
     rn_pc = (if catchingUp attempt then Draining else Tailing), rn_reconcile = Ticking,
     rn_processor = Processing, rn_caughtUp = None, rn_ctx = None, rn_commands = []\<rparr>"

abbreviation stop_processor :: "rebuild \<Rightarrow> rebuild" where
  "stop_processor r \<equiv> r\<lparr>stopCalled := True\<rparr>"

section \<open>Contexts\<close>

text \<open>
  The errors a derived context may report: the processor's, that of the promotion reconciliation, of
  one of its retries, and of a classification read.
\<close>

definition processor_ctx :: "('db, 'c, 'x) run \<Rightarrow> sentinel \<Rightarrow> bool" where
  "processor_ctx z c \<longleftrightarrow> rn_ctx z = Some c \<or> stopCalled (rn_handle z) \<and> c = ContextCanceled"

definition reconciliation_ctx :: "('db, 'c, 'x) run \<Rightarrow> sentinel \<Rightarrow> bool" where
  "reconciliation_ctx z c \<longleftrightarrow> rn_ctx z = Some c \<or> processorReturned (rn_handle z) \<and> c = ContextCanceled"

definition retry_ctx :: "('db, 'c, 'x) run \<Rightarrow> sentinel \<Rightarrow> bool" where
  "retry_ctx z c \<longleftrightarrow> reconciliation_ctx z c \<or> retryCancelled (rn_handle z) \<and> c = ContextCanceled"

definition classification_ctx :: "('db, 'c, 'x) run \<Rightarrow> sentinel \<Rightarrow> bool" where
  "classification_ctx z c \<longleftrightarrow> rn_ctx z = Some c \<or> classifyCancelled (rn_handle z) \<and> c = ContextCanceled"

text \<open>A fold of the lifecycle stream under a context: what the store has, or a failure once it ended.\<close>

definition fold_reads ::
  "(uuid \<Rightarrow> string \<Rightarrow> uuid) \<Rightarrow> ('db, 'i, 'g, 'c, 'x, 'p) orchestrator
   \<Rightarrow> (sentinel \<Rightarrow> bool) \<Rightarrow> string \<Rightarrow> int64 \<Rightarrow> ('db, 'c, 'x) world \<Rightarrow> lifecycle_aggregate result \<Rightarrow> bool" where
  "fold_reads newV5 o' ctx name toVersion w loaded \<longleftrightarrow>
     hydrateFresh newV5 o' name toVersion (w_events w) = Some loaded \<or> (\<exists>c. ctx c) \<and> isl loaded"

text \<open>The error of an append cut short by its context, at the slot the handle contended for.\<close>

definition cut_short :: "rebuild \<Rightarrow> sentinel \<Rightarrow> go_error" where
  "cut_short r c = AppendError (wrap64 (agg_version (rb_aggregate r) + 1)) (fmt_wrap ''recording'' (Sentinel c))"

section \<open>Run's goroutine\<close>

text \<open>Where the outcomes of the catch-up and of the promotion lead.\<close>

definition after_catch_up :: "bool \<Rightarrow> catch_up \<Rightarrow> run_pc" where
  "after_catch_up auto' res = (case res of
     CatchUpStopped err \<Rightarrow> AwaitingStopped err
   | CatchUpExited \<Rightarrow> Tailing
   | CatchUpFailed err \<Rightarrow> Winding (Some err) (Some err)
   | CatchUpRecorded \<Rightarrow> if auto' then Promoting else Tailing)"

definition after_promotion :: "go_error option \<Rightarrow> run_pc" where
  "after_promotion res = (case promotionFate res of
     PromotionStands \<Rightarrow> Tailing
   | PromotionUnresolved slot err \<Rightarrow> Halting slot err
   | PromotionLost err \<Rightarrow> Winding (Some err) (Some err))"

text \<open>What the fold to the slot makes of the handle, and where it leads.\<close>

definition resolveSlot ::
  "(uuid \<Rightarrow> string \<Rightarrow> uuid) \<Rightarrow> uuid \<Rightarrow> uuid \<Rightarrow> int64 \<Rightarrow> go_error \<Rightarrow> lifecycle_aggregate result
   \<Rightarrow> rebuild \<Rightarrow> run_pc \<times> rebuild" where
  "resolveSlot newV5 attemptID runnerID slot lost loaded r =
     (case slotFate newV5 (rb_name r) attemptID slot loaded of
        SlotUnread \<Rightarrow> (Pausing slot lost, r)
      | SlotPoisoned err \<Rightarrow> (Winding (Some lost) None, recordTerminalStop err r)
      | SlotEmpty \<Rightarrow> (Retrying slot lost, r)
      | SlotWon \<Rightarrow> (Observing, r)
      | SlotForeign \<Rightarrow> (Winding (Some lost) None,
          case loaded of Inl err \<Rightarrow> r | Inr a \<Rightarrow> recordSlotDefeat newV5 attemptID runnerID a r))"

definition after_retry :: "bool \<Rightarrow> go_error option \<Rightarrow> int64 \<Rightarrow> go_error \<Rightarrow> run_pc" where
  "after_retry interrupted res slot lost =
     (case retryFate interrupted res lost of None \<Rightarrow> Tailing | Some err \<Rightarrow> Pausing slot err)"

inductive run_step ::
  "(uuid \<Rightarrow> string \<Rightarrow> uuid) \<Rightarrow> ('db, 'i, 'g, 'c, 'x, 'p) orchestrator
   \<Rightarrow> (('db, 'c, 'x) world \<Rightarrow> ('db, 'c, 'x) world) \<Rightarrow> uuid \<Rightarrow> uuid
   \<Rightarrow> ('db, 'c, 'x) run \<Rightarrow> ('db, 'c, 'x) run \<Rightarrow> bool"
  for newV5 o' others attemptID runnerID where
  drain_cancelled: "rn_pc z = Draining \<Longrightarrow> rn_ctx z = Some c \<Longrightarrow>
    run_step newV5 o' others attemptID runnerID z (z\<lparr>rn_pc := Winding (Some (Sentinel c)) None\<rparr>)"
| drain_done: "rn_pc z = Draining \<Longrightarrow> rn_processor z = ProcessorDone e \<Longrightarrow>
    run_step newV5 o' others attemptID runnerID z
      (z\<lparr>rn_handle := stop_processor (rn_handle z), rn_pc := Joining e\<rparr>)"
| drain_head: "rn_pc z = Draining \<Longrightarrow> rn_caughtUp z = Some pos \<Longrightarrow>
    run_step newV5 o' others attemptID runnerID z (z\<lparr>rn_pc := Recording pos\<rparr>)"
| record_catch_up: "rn_pc z = Recording pos \<Longrightarrow>
    recordCatchUp o' others attemptID pos elapsed now (rn_handle z) (rn_world z) = (res, r', w') \<Longrightarrow>
    run_step newV5 o' others attemptID runnerID z
      (z\<lparr>rn_handle := (if res = CatchUpExited then stop_processor r' else r'), rn_world := w',
         rn_pc := after_catch_up (autoPromote o') res\<rparr>)"
| cut_catch_up: "rn_pc z = Recording pos \<Longrightarrow> rn_ctx z = Some c \<Longrightarrow>
    recordCatchUp o' others attemptID pos elapsed now (rn_handle z) (rn_world z) = (CatchUpRecorded, r', w1) \<Longrightarrow>
    w' \<in> {others (rn_world z), w1} \<Longrightarrow>
    run_step newV5 o' others attemptID runnerID z
      (z\<lparr>rn_world := w', rn_pc := after_catch_up (autoPromote o') (CatchUpFailed (cut_short (rn_handle z) c))\<rparr>)"
| await_stopped: "rn_pc z = AwaitingStopped res \<Longrightarrow> rn_processor z = ProcessorDone e \<Longrightarrow>
    run_step newV5 o' others attemptID runnerID z (z\<lparr>rn_pc := Leaving res\<rparr>)"
| promote: "rn_pc z = Promoting \<Longrightarrow> Promote newV5 o' others now (rn_handle z) (rn_world z) = (res, r', w') \<Longrightarrow>
    run_step newV5 o' others attemptID runnerID z
      (z\<lparr>rn_handle := r', rn_world := w', rn_pc := after_promotion res\<rparr>)"
| cut_promote: "rn_pc z = Promoting \<Longrightarrow> rn_ctx z = Some c \<Longrightarrow>
    Promote newV5 o' others now (rn_handle z) (rn_world z) = (None, r', w1) \<Longrightarrow>
    w' \<in> {others (rn_world z), w1} \<Longrightarrow>
    run_step newV5 o' others attemptID runnerID z
      (z\<lparr>rn_world := w', rn_pc := after_promotion (Some (cut_short (rn_handle z) c))\<rparr>)"
| halt: "rn_pc z = Halting slot lost \<Longrightarrow>
    run_step newV5 o' others attemptID runnerID z
      (z\<lparr>rn_pc := (if reconcileHalted (rn_handle z) then Winding (Some lost) (Some lost) else Folding slot lost)\<rparr>)"
| fold_slot: "rn_pc z = Folding slot lost \<Longrightarrow>
    fold_reads newV5 o' (reconciliation_ctx z) (rb_name (rn_handle z)) slot (others (rn_world z)) loaded \<Longrightarrow>
    run_step newV5 o' others attemptID runnerID z
      (z\<lparr>rn_world := others (rn_world z), rn_pc := Folded slot lost loaded\<rparr>)"
| resolve_slot: "rn_pc z = Folded slot lost loaded \<Longrightarrow>
    resolveSlot newV5 attemptID runnerID slot lost loaded (rn_handle z) = (pc, r') \<Longrightarrow>
    run_step newV5 o' others attemptID runnerID z (z\<lparr>rn_handle := r', rn_pc := pc\<rparr>)"
| retry_held: "rn_pc z = Retrying slot lost \<Longrightarrow> 0 < pendingCommands (rn_handle z) \<Longrightarrow> reconciliation_ctx z c \<Longrightarrow>
    run_step newV5 o' others attemptID runnerID z (z\<lparr>rn_pc := Pausing slot lost\<rparr>)"
| retry_starts: "rn_pc z = Retrying slot lost \<Longrightarrow> pendingCommands (rn_handle z) \<le> 0 \<Longrightarrow>
    run_step newV5 o' others attemptID runnerID z
      (z\<lparr>rn_handle := registerRetry (rn_handle z), rn_pc := Attempting slot lost\<rparr>)"
| retry: "rn_pc z = Attempting slot lost \<Longrightarrow>
    Promote newV5 o' others now (rn_handle z) (rn_world z) = (res, r', w') \<Longrightarrow>
    (case ctxErr of None \<Rightarrow> \<forall>c. \<not> retry_ctx z c | Some c \<Rightarrow> retry_ctx z c) \<Longrightarrow>
    run_step newV5 o' others attemptID runnerID z
      (z\<lparr>rn_handle := unregisterRetry r', rn_world := w',
         rn_pc := after_retry (retry_interrupted ctxErr res) res slot lost\<rparr>)"
| cut_retry: "rn_pc z = Attempting slot lost \<Longrightarrow> retry_ctx z c \<Longrightarrow>
    Promote newV5 o' others now (rn_handle z) (rn_world z) = (None, r', w1) \<Longrightarrow>
    w' \<in> {others (rn_world z), w1} \<Longrightarrow> res = Some (cut_short (rn_handle z) c) \<Longrightarrow>
    run_step newV5 o' others attemptID runnerID z
      (z\<lparr>rn_handle := unregisterRetry (rn_handle z), rn_world := w',
         rn_pc := after_retry (retry_interrupted (Some c) res) res slot lost\<rparr>)"
| pause_ended: "rn_pc z = Pausing slot lost \<Longrightarrow> reconciliation_ctx z c \<Longrightarrow>
    err = (case rn_ctx z of Some ctxErr \<Rightarrow> Sentinel ctxErr | None \<Rightarrow> lost) \<Longrightarrow>
    run_step newV5 o' others attemptID runnerID z (z\<lparr>rn_pc := Winding (Some err) (Some err)\<rparr>)"
| observe_read: "rn_pc z = Observing \<Longrightarrow>
    fold_reads newV5 o' (reconciliation_ctx z) (rb_name (rn_handle z)) 0 (others (rn_world z)) loaded \<Longrightarrow>
    run_step newV5 o' others attemptID runnerID z
      (z\<lparr>rn_world := others (rn_world z), rn_pc := Observed loaded\<rparr>)"
| observe: "rn_pc z = Observed loaded \<Longrightarrow>
    run_step newV5 o' others attemptID runnerID z
      (z\<lparr>rn_handle := observeReconciledPromotion newV5 loaded (rn_handle z), rn_pc := Tailing\<rparr>)"
| tail_done: "rn_pc z = Tailing \<Longrightarrow> rn_processor z = ProcessorDone e \<Longrightarrow>
    run_step newV5 o' others attemptID runnerID z
      (z\<lparr>rn_handle := stop_processor (rn_handle z), rn_pc := Joining e\<rparr>)"
| wind_down: "rn_pc z = Winding err lost \<Longrightarrow> claimStopOrder (rn_handle z) = (returnedFirst, r') \<Longrightarrow>
    run_step newV5 o' others attemptID runnerID z
      (z\<lparr>rn_handle := stop_processor r', rn_pc := AwaitingWound returnedFirst err lost\<rparr>)"
| wound: "rn_pc z = AwaitingWound returnedFirst err lost \<Longrightarrow> rn_processor z = ProcessorDone e \<Longrightarrow>
    res = attributeExit (returnCtxErr (rn_handle z)) returnedFirst e err \<Longrightarrow>
    run_step newV5 o' others attemptID runnerID z
      (z\<lparr>rn_pc := (case lost of None \<Rightarrow> Joining res | Some l \<Rightarrow> Classifying res l)\<rparr>)"
| classify: "rn_pc z = Classifying res lost \<Longrightarrow>
    beginClassification newV5 attemptID lost (rn_handle z) = Some (slot, r') \<Longrightarrow>
    run_step newV5 o' others attemptID runnerID z (z\<lparr>rn_handle := r', rn_pc := Reading res slot\<rparr>)"
| unclassified: "rn_pc z = Classifying res lost \<Longrightarrow>
    beginClassification newV5 attemptID lost (rn_handle z) = None \<Longrightarrow>
    run_step newV5 o' others attemptID runnerID z (z\<lparr>rn_pc := Joining res\<rparr>)"
| classify_read: "rn_pc z = Reading res slot \<Longrightarrow>
    fold_reads newV5 o' (classification_ctx z) (rb_name (rn_handle z)) slot (others (rn_world z)) loaded \<Longrightarrow>
    run_step newV5 o' others attemptID runnerID z
      (z\<lparr>rn_world := others (rn_world z), rn_pc := Classified res slot loaded\<rparr>)"
| classified: "rn_pc z = Classified res slot loaded \<Longrightarrow>
    run_step newV5 o' others attemptID runnerID z
      (z\<lparr>rn_handle := endClassification newV5 attemptID runnerID slot loaded (rn_handle z), rn_pc := Joining res\<rparr>)"
| join: "rn_pc z = Joining err \<Longrightarrow> rn_reconcile z = Exited \<Longrightarrow> processorExit err (rn_handle z) = (res, r') \<Longrightarrow>
    run_step newV5 o' others attemptID runnerID z (z\<lparr>rn_handle := r', rn_pc := Leaving res\<rparr>)"
| leave: "rn_pc z = Leaving res \<Longrightarrow>
    run_step newV5 o' others attemptID runnerID z
      (z\<lparr>rn_handle := stop_processor (rn_handle z), rn_pc := Leaves res\<rparr>)"
| left: "rn_pc z = Leaves res \<Longrightarrow> rn_reconcile z = Exited \<Longrightarrow>
    run_step newV5 o' others attemptID runnerID z (z\<lparr>rn_pc := Releasing res\<rparr>)"
| release: "rn_pc z = Releasing res \<Longrightarrow>
    releaseClaim newV5 o' others now (rn_handle z) (rn_world z) = (err, r', w') \<Longrightarrow>
    run_step newV5 o' others attemptID runnerID z
      (z\<lparr>rn_handle := r', rn_world := w', rn_pc := Returned res\<rparr>)"
| cut_release: "rn_pc z = Releasing res \<Longrightarrow>
    releases newV5 (rn_handle z) \<Longrightarrow>
    releaseClaim newV5 o' others now (rn_handle z) (rn_world z) = (None, r', w1) \<Longrightarrow>
    w' \<in> {others (rn_world z), w1} \<Longrightarrow>
    run_step newV5 o' others attemptID runnerID z (z\<lparr>rn_world := w', rn_pc := Returned res\<rparr>)"

section \<open>The other goroutines\<close>

definition after_verdict :: "tick_verdict \<Rightarrow> reconcile_pc" where
  "after_verdict v = (case v of TickContinue \<Rightarrow> Ticking | TickReturn \<Rightarrow> Exited | TickStop \<Rightarrow> Stopping)"

inductive reconcile_step ::
  "(uuid \<Rightarrow> string \<Rightarrow> uuid) \<Rightarrow> ('db, 'i, 'g, 'c, 'x, 'p) orchestrator
   \<Rightarrow> (('db, 'c, 'x) world \<Rightarrow> ('db, 'c, 'x) world) \<Rightarrow> uuid \<Rightarrow> uuid
   \<Rightarrow> ('db, 'c, 'x) run \<Rightarrow> ('db, 'c, 'x) run \<Rightarrow> bool"
  for newV5 o' others attemptID runnerID where
  reconcile_ends: "rn_reconcile z = Ticking \<Longrightarrow> processor_ctx z c \<Longrightarrow>
    reconcile_step newV5 o' others attemptID runnerID z (z\<lparr>rn_reconcile := Exited\<rparr>)"
| reconcile_checks: "rn_reconcile z = Ticked \<Longrightarrow>
    reconcile_step newV5 o' others attemptID runnerID z
      (z\<lparr>rn_reconcile := (if stopped (rn_handle z) then Exited else Loading)\<rparr>)"
| reconcile_loads: "rn_reconcile z = Loading \<Longrightarrow>
    fold_reads newV5 o' (processor_ctx z) (rb_name (rn_handle z)) 0 (others (rn_world z)) loaded \<Longrightarrow>
    reconcile_step newV5 o' others attemptID runnerID z
      (z\<lparr>rn_world := others (rn_world z), rn_reconcile := Loaded loaded\<rparr>)"
| reconcile_fails: "rn_reconcile z = Loaded (Inl err) \<Longrightarrow>
    (case ctxErr of None \<Rightarrow> \<forall>c. \<not> processor_ctx z c | Some c \<Rightarrow> processor_ctx z c) \<Longrightarrow>
    reconcileFailed ctxErr err (rn_handle z) = (v, r') \<Longrightarrow>
    reconcile_step newV5 o' others attemptID runnerID z (z\<lparr>rn_handle := r', rn_reconcile := after_verdict v\<rparr>)"
| reconcile_judges: "rn_reconcile z = Loaded (Inr a) \<Longrightarrow>
    reconcileLoaded newV5 attemptID runnerID a (rn_handle z) = (v, r') \<Longrightarrow>
    reconcile_step newV5 o' others attemptID runnerID z (z\<lparr>rn_handle := r', rn_reconcile := after_verdict v\<rparr>)"
| reconcile_stops: "rn_reconcile z = Stopping \<Longrightarrow>
    reconcile_step newV5 o' others attemptID runnerID z
      (z\<lparr>rn_handle := stop_processor (rn_handle z), rn_reconcile := Exited\<rparr>)"

text \<open>The processor's goroutine; a processor writes its checkpoint and its projection.\<close>

inductive processor_step :: "('db, 'c, 'x) run \<Rightarrow> ('db, 'c, 'x) run \<Rightarrow> bool" where
  processor_returns: "rn_processor z = Processing \<Longrightarrow>
    processor_step z (z\<lparr>rn_handle := claimReturn (rn_ctx z) (rn_handle z), rn_processor := ProcessorReturned e\<rparr>)"
| processor_exits: "rn_processor z = ProcessorReturned e \<Longrightarrow>
    processor_step z (z\<lparr>rn_handle := publishProcessorExit (rn_handle z), rn_processor := ProcessorDone e\<rparr>)"

text \<open>
  What happens to the run: the processor works, and catches up once; a timer fires; the caller's
  context ends; somebody else writes.
\<close>

inductive outside_step ::
  "(('db, 'c, 'x) world \<Rightarrow> ('db, 'c, 'x) world) \<Rightarrow> ('db, 'c, 'x) run \<Rightarrow> ('db, 'c, 'x) run \<Rightarrow> bool"
  for others where
  processor_works: "rn_processor z = Processing \<Longrightarrow>
    outside_step others z (z\<lparr>rn_world := (rn_world z)\<lparr>w_checkpoints := c, w_rest := x\<rparr>\<rparr>)"
| processor_catches_up: "rn_processor z = Processing \<Longrightarrow> rn_caughtUp z = None \<Longrightarrow>
    outside_step others z (z\<lparr>rn_caughtUp := Some pos\<rparr>)"
| reconcile_tick: "rn_reconcile z = Ticking \<Longrightarrow> outside_step others z (z\<lparr>rn_reconcile := Ticked\<rparr>)"
| retry_tick: "rn_pc z = Pausing slot lost \<Longrightarrow> outside_step others z (z\<lparr>rn_pc := Halting slot lost\<rparr>)"
| context_ends: "rn_ctx z = None \<Longrightarrow> outside_step others z (z\<lparr>rn_ctx := Some c\<rparr>)"
| elsewhere_writes: "outside_step others z (z\<lparr>rn_world := others (rn_world z)\<rparr>)"

section \<open>Commands on the handle of a run\<close>

definition command_refusal :: "terminal_command \<Rightarrow> state \<Rightarrow> go_error option" where
  "command_refusal cmd = (case cmd of RollbackCommand now \<Rightarrow> rollbackRefusal | AbandonCommand cause \<Rightarrow> abandonRefusal)"

definition command_event :: "terminal_command \<Rightarrow> state \<Rightarrow> lifecycle_event" where
  "command_event cmd s = (case cmd of
     RollbackCommand now \<Rightarrow> RolledBack (Live s) (Previous (Attempt s)) (wrap64 (CutoverRevision s + 1)) now
   | AbandonCommand cause \<Rightarrow> Abandoned cause)"

inductive command_step ::
  "(uuid \<Rightarrow> string \<Rightarrow> uuid) \<Rightarrow> ('db, 'i, 'g, 'c, 'x, 'p) orchestrator
   \<Rightarrow> (('db, 'c, 'x) world \<Rightarrow> ('db, 'c, 'x) world) \<Rightarrow> ('db, 'c, 'x) run \<Rightarrow> ('db, 'c, 'x) run \<Rightarrow> bool"
  for newV5 o' others where
  command_promotes: "Promote newV5 o' others now (rn_handle z) (rn_world z) = (res, r', w') \<Longrightarrow>
    command_step newV5 o' others z (z\<lparr>rn_handle := r', rn_world := w'\<rparr>)"
| command_announced: "command_step newV5 o' others z
    (z\<lparr>rn_handle := pauseRetries (rn_handle z), rn_commands := rn_commands z @ [Announced cmd]\<rparr>)"
| command_commits: "i < length (rn_commands z) \<Longrightarrow> rn_commands z ! i = Announced cmd \<Longrightarrow>
    recordTerminal newV5 o' others (command_refusal cmd) (command_event cmd) (rn_handle z) (rn_world z)
      = Some (res, r', w') \<Longrightarrow>
    command_step newV5 o' others z (z\<lparr>rn_handle := r', rn_world := w',
      rn_commands := (rn_commands z)[i := (case res of
        Inr (appendErr, True) \<Rightarrow> if stopProcessor r' then StoppingRun else Withdrawing
      | _ \<Rightarrow> Withdrawing)]\<rparr>)"
| command_stops: "i < length (rn_commands z) \<Longrightarrow> rn_commands z ! i = StoppingRun \<Longrightarrow>
    command_step newV5 o' others z (z\<lparr>rn_handle := stop_processor (rn_handle z),
      rn_commands := (rn_commands z)[i := AwaitingExit]\<rparr>)"
| command_returns: "i < length (rn_commands z) \<Longrightarrow> rn_commands z ! i = AwaitingExit \<Longrightarrow>
    command_step newV5 o' others z (z\<lparr>rn_commands := (rn_commands z)[i := Withdrawing]\<rparr>)"
| command_withdrawn: "i < length (rn_commands z) \<Longrightarrow> rn_commands z ! i = Withdrawing \<Longrightarrow>
    command_step newV5 o' others z (z\<lparr>rn_handle := resumeRetries (rn_handle z),
      rn_commands := take i (rn_commands z) @ drop (Suc i) (rn_commands z)\<rparr>)"

text \<open>A retirement on the handle of a run.\<close>

inductive retire_step ::
  "(uuid \<Rightarrow> string \<Rightarrow> uuid) \<Rightarrow> ('db, 'i, 'g, 'c, 'x, 'p) orchestrator
   \<Rightarrow> (('db, 'c, 'x) world \<Rightarrow> ('db, 'c, 'x) world) \<Rightarrow> ('db, 'c, 'x) run \<Rightarrow> ('db, 'c, 'x) run \<Rightarrow> bool"
  for newV5 o' others where
  command_retires: "\<forall>opt \<in> set opts. \<exists>actor reason. opt = Some (WithRetirementOverride actor reason) \<Longrightarrow>
    Retire newV5 o' others now opts (rn_handle z) (rn_world z) = Some (res, r', w') \<Longrightarrow>
    retire_step newV5 o' others z (z\<lparr>rn_handle := r', rn_world := w'\<rparr>)"

section \<open>The system\<close>

text \<open>The steps of the run's own goroutines, and all steps.\<close>

definition own_step ::
  "(uuid \<Rightarrow> string \<Rightarrow> uuid) \<Rightarrow> ('db, 'i, 'g, 'c, 'x, 'p) orchestrator
   \<Rightarrow> (('db, 'c, 'x) world \<Rightarrow> ('db, 'c, 'x) world) \<Rightarrow> uuid \<Rightarrow> uuid
   \<Rightarrow> ('db, 'c, 'x) run \<Rightarrow> ('db, 'c, 'x) run \<Rightarrow> bool" where
  "own_step newV5 o' others attemptID runnerID z z' \<longleftrightarrow>
     run_step newV5 o' others attemptID runnerID z z' \<or> reconcile_step newV5 o' others attemptID runnerID z z'
     \<or> processor_step z z'"

definition step ::
  "(uuid \<Rightarrow> string \<Rightarrow> uuid) \<Rightarrow> ('db, 'i, 'g, 'c, 'x, 'p) orchestrator
   \<Rightarrow> (('db, 'c, 'x) world \<Rightarrow> ('db, 'c, 'x) world) \<Rightarrow> uuid \<Rightarrow> uuid
   \<Rightarrow> ('db, 'c, 'x) run \<Rightarrow> ('db, 'c, 'x) run \<Rightarrow> bool" where
  "step newV5 o' others attemptID runnerID z z' \<longleftrightarrow>
     own_step newV5 o' others attemptID runnerID z z' \<or> command_step newV5 o' others z z'
     \<or> retire_step newV5 o' others z z' \<or> outside_step others z z'"

end
