(* ===== verification/RunProps.thy ===== *)
theory RunProps
  imports RunSystem
begin

text \<open>
  What a run keeps whatever the store does and however its goroutines and commands interleave: which
  fields of the handle a section may touch, what a certificate vouches for, in what order the run
  takes itself down, and what its result reports.
\<close>

named_theorems run_simps "unfolding the critical sections of a run"

section \<open>What a section touches\<close>

text \<open>The fields only \<open>Run\<close> itself and its processor write.\<close>

definition same_run :: "rebuild \<Rightarrow> rebuild \<Rightarrow> bool" where
  "same_run r r' \<longleftrightarrow> rb_name r' = rb_name r \<and> runAttempt r' = runAttempt r \<and> rb_runner r' = rb_runner r
     \<and> stopProcessor r' = stopProcessor r \<and> processorExited r' = processorExited r
     \<and> exitPublished r' = exitPublished r \<and> processorReturned r' = processorReturned r
     \<and> (stopCalled r \<longrightarrow> stopCalled r')"

text \<open>The verdict of a run, which a section leaves alone; a certificate may only be lost.\<close>

definition same_verdict :: "rebuild \<Rightarrow> rebuild \<Rightarrow> bool" where
  "same_verdict r r' \<longleftrightarrow> stopped r' = stopped r \<and> failure r' = failure r \<and> commandEnded r' = commandEnded r"

definition loses_certificate :: "rebuild \<Rightarrow> rebuild \<Rightarrow> bool" where
  "loses_certificate r r' \<longleftrightarrow> certificate r' = certificate r \<or> certificate r' = None"

lemmas touch_defs = same_run_def same_verdict_def loses_certificate_def

lemma touch_refl [simp]: "same_run r r" "same_verdict r r" "loses_certificate r r"
  by (simp_all add: touch_defs)

lemma touch_trans:
  "same_run r s \<Longrightarrow> same_run s t \<Longrightarrow> same_run r t"
  "same_verdict r s \<Longrightarrow> same_verdict s t \<Longrightarrow> same_verdict r t"
  "loses_certificate r s \<Longrightarrow> loses_certificate s t \<Longrightarrow> loses_certificate r t"
  by (auto simp: touch_defs)

text \<open>A section that touches the aggregate and the certificate only.\<close>

definition quiet :: "rebuild \<Rightarrow> rebuild \<Rightarrow> bool" where
  "quiet r r' \<longleftrightarrow> same_run r r' \<and> same_verdict r r' \<and> loses_certificate r r'"

lemma quiet_refl [simp]: "quiet r r"
  by (simp add: quiet_def)

lemma quiet_trans: "quiet r s \<Longrightarrow> quiet s t \<Longrightarrow> quiet r t"
  unfolding quiet_def by (blast intro: touch_trans)

lemma quiet_updates [simp]:
  "quiet r (r\<lparr>rb_aggregate := a\<rparr>)" "quiet r (r\<lparr>certificate := None\<rparr>)"
  "quiet r (r\<lparr>rb_aggregate := a, certificate := None\<rparr>)" "quiet r (stop_processor r)"
  "quiet r (registerRetry r)" "quiet r (unregisterRetry r)" "quiet r (pauseRetries r)" "quiet r (resumeRetries r)"
  "quiet r (r\<lparr>classifying := b\<rparr>)" "quiet r (r\<lparr>classifying := b, classifyCancelled := b'\<rparr>)"
  by (simp_all add: quiet_def touch_defs registerRetry_def unregisterRetry_def pauseRetries_def resumeRetries_def)

lemma appendLocked_quiet: "appendLocked o' others evs r w = (res, r', w') \<Longrightarrow> quiet r r'"
  by (auto simp: appendLocked_def Let_def quiet_def touch_defs split: prod.splits option.splits if_splits)

lemma refoldLocked_quiet: "refoldLocked newV5 o' others r w = Some (res, r', w') \<Longrightarrow> quiet r r'"
  by (auto simp: refoldLocked_def Let_def split: option.splits sum.splits)

lemma Promote_quiet:
  assumes "Promote newV5 o' others now r w = (res, r', w')" shows "quiet r r'"
proof -
  consider "r' = r" | "r' = r\<lparr>certificate := None\<rparr>"
    | evs x r1 w1 where "appendLocked o' others evs r w = (x, r1, w1)" "r' = r1 \<or> r' = r1\<lparr>certificate := None\<rparr>"
    using assms unfolding Promote_def Let_def
    by (auto split: option.splits phase.splits prod.splits if_splits)
  then show ?thesis
    by cases (auto dest: appendLocked_quiet intro: quiet_trans)
qed

lemma reattestReservation_quiet:
  "reattestReservation newV5 o' others prev r w = Some (res, r', w') \<Longrightarrow> quiet r r'"
  by (auto simp: reattestReservation_def Let_def split: option.splits sum.splits if_splits prod.splits)

lemma recordRetirement_quiet:
  "recordRetirement o' others retired receipts r w = (res, r', w') \<Longrightarrow> quiet r r'"
  by (auto simp: recordRetirement_def split: prod.splits dest: appendLocked_quiet)

lemma tearDown_quiet: "tearDown o' others teardown prev receipts r w = (res, r', w') \<Longrightarrow> quiet r r'"
  by (auto simp: tearDown_def Let_def split: prod.splits option.splits if_splits dest: recordRetirement_quiet)

lemma retirePrevious_quiet:
  assumes "retirePrevious newV5 o' others now override r w = Some (res, r', w')" shows "quiet r r'"
proof -
  consider "r' = r"
    | teardown prev receipts w1 where "tearDown o' others teardown prev receipts r w1 = (res, r', w')"
    | evs e w1 w2 where "appendLocked o' others evs r w1 = (Some e, r', w2)"
    | evs r1 w1 w2 prev err w3 where "appendLocked o' others evs r w1 = (None, r1, w2)"
        "reattestReservation newV5 o' others prev r1 w2 = Some (err, r', w3)"
    | evs r1 w1 w2 prev err w3 teardown receipts r2 where "appendLocked o' others evs r w1 = (None, r1, w2)"
        "reattestReservation newV5 o' others prev r1 w2 = Some (err, r2, w3)"
        "tearDown o' others teardown prev receipts r2 w3 = (res, r', w')"
    using assms unfolding retirePrevious_def Let_def
    by (auto split: prod.splits sum.splits option.splits if_splits)
  then show ?thesis
    by cases (auto dest!: tearDown_quiet appendLocked_quiet reattestReservation_quiet intro: quiet_trans)
qed

lemma Retire_quiet:
  assumes "Retire newV5 o' others now opts r w = Some (res, r', w')" shows "quiet r r'"
proof -
  consider "r' = r" | x w1 where "refoldLocked newV5 o' others r w = Some (x, r', w1)"
    | x r1 w1 where "refoldLocked newV5 o' others r w = Some (x, r1, w1)"
      "recordRetirement o' others (Previous (Attempt (agg_state (rb_aggregate r1)))) [] r1 w1 = (res, r', w')"
    | x r1 w1 ov where "refoldLocked newV5 o' others r w = Some (x, r1, w1)"
      "retirePrevious newV5 o' others now ov r1 w1 = Some (res, r', w')"
    using assms unfolding Retire_def Let_def
    by (auto split: option.splits phase.splits if_splits)
  then show ?thesis
    by cases (auto dest!: refoldLocked_quiet recordRetirement_quiet retirePrevious_quiet intro: quiet_trans)
qed

lemma recordTerminal_touches:
  assumes "recordTerminal newV5 o' others refusal event r w = Some (res, r', w')"
  shows "same_run r r' \<and> loses_certificate r r' \<and>
    (same_verdict r r' \<or> stopped r' \<and> failure r' = failure r \<and> commandEnded r' = runAttempt r)"
proof -
  consider "quiet r r'" | r2 i where "quiet r r2" "r' = snd (endRun i r2)"
  proof (cases "refoldLocked newV5 o' others r w")
    case (Some z)
    obtain x r1 w1 where z: "z = (x, r1, w1)" by (cases z)
    have q: "quiet r r1" using Some z refoldLocked_quiet by fast
    obtain y r2 w2 where app: "appendLocked o' others [event (agg_state (rb_aggregate r1))] r1 w1 = (y, r2, w2)"
      by (metis prod_cases3)
    have "quiet r r2" using q appendLocked_quiet [OF app] by (rule quiet_trans)
    then show ?thesis using that q assms Some z app
      by (auto simp: recordTerminal_def Let_def split: option.splits if_splits prod.splits; metis snd_conv)
  qed (use assms in \<open>simp add: recordTerminal_def\<close>)
  then show ?thesis
    by cases (auto simp: quiet_def touch_defs endRun_def split: if_splits)
qed

section \<open>Sections that render a verdict\<close>

text \<open>A verdict, once rendered, stands: a stopped run stays stopped, and only a stopped one has a cause.\<close>

definition moves :: "rebuild \<Rightarrow> rebuild \<Rightarrow> bool" where
  "moves r r' \<longleftrightarrow> same_run r r' \<and> commandEnded r' = commandEnded r
     \<and> (stopped r \<longrightarrow> stopped r') \<and> (failure r' \<noteq> failure r \<longrightarrow> stopped r')
     \<and> (stopped r \<and> failure r \<noteq> None \<longrightarrow> failure r' = failure r)"

lemma quiet_moves: "quiet r r' \<Longrightarrow> moves r r'"
  by (simp add: moves_def quiet_def touch_defs)

lemma moves_refl [simp]: "moves r r"
  by (simp add: moves_def)

lemma moves_trans: "moves r s \<Longrightarrow> moves s t \<Longrightarrow> moves r t"
  unfolding moves_def by (metis touch_trans(1))

lemma moves_stop: "moves r r' \<Longrightarrow> moves r (stop_processor r')"
  using moves_trans quiet_moves quiet_updates(4) by blast

text \<open>The reconcile loop's sections never change a standing verdict.\<close>

definition defers :: "rebuild \<Rightarrow> rebuild \<Rightarrow> bool" where
  "defers r r' \<longleftrightarrow> moves r r' \<and> loses_certificate r r' \<and> (stopped r \<longrightarrow> failure r' = failure r)"

lemma recordTerminalStop_defers: "defers r (recordTerminalStop cause r)"
  by (auto simp: recordTerminalStop_def defers_def moves_def touch_defs)

lemma reconcileFailed_defers: "reconcileFailed ctxErr err r = (v, r') \<Longrightarrow> defers r r'"
  using recordTerminalStop_defers by (auto simp: reconcileFailed_def defers_def split: if_splits)

lemma reconcileLoaded_defers: "reconcileLoaded newV5 attemptID runnerID a r = (v, r') \<Longrightarrow> defers r r'"
  by (auto simp: reconcileLoaded_def recordTerminalStop_def Let_def defers_def moves_def touch_defs
      split: if_splits option.splits)

lemma recordSlotDefeat_moves:
  "moves r (recordSlotDefeat newV5 attemptID runnerID a r) \<and> loses_certificate r (recordSlotDefeat newV5 attemptID runnerID a r)"
  by (auto simp: recordSlotDefeat_def recordTerminalStop_def Let_def moves_def touch_defs split: option.splits if_splits)

section \<open>The invariant\<close>

definition run_identity :: "uuid \<Rightarrow> uuid \<Rightarrow> ('db, 'c, 'x) run \<Rightarrow> bool" where
  "run_identity attemptID runnerID z \<longleftrightarrow> (let r = rn_handle z in
     runAttempt r = attemptID \<and> rb_runner r = runnerID
     \<and> (exitPublished r \<longleftrightarrow> (\<exists>e. rn_processor z = ProcessorDone e))
     \<and> (processorReturned r \<longleftrightarrow> rn_processor z \<noteq> Processing)
     \<and> (commandEnded r \<noteq> uuid_nil \<longrightarrow> commandEnded r = attemptID \<and> stopped r)
     \<and> (failure r \<noteq> None \<longrightarrow> stopped r))"

text \<open>What a certificate vouches for.\<close>

definition vouches :: "uuid \<Rightarrow> uuid \<Rightarrow> ('db, 'c, 'x) run \<Rightarrow> bool" where
  "vouches attemptID runnerID z \<longleftrightarrow> (case certificate (rn_handle z) of None \<Rightarrow> True
     | Some c \<Rightarrow> ct_attempt c = attemptID \<and> ct_runner c = runnerID \<and> ct_exited c = processorExited (rn_handle z)
        \<and> \<not> exitPublished (rn_handle z) \<and> rn_caughtUp z = Some (ct_position c))"

text \<open>A result that reports the run: a recorded cause is the result, and none is reported without one.\<close>

definition reports :: "('db, 'c, 'x) run \<Rightarrow> go_error option \<Rightarrow> bool" where
  "reports z res \<longleftrightarrow> (failure (rn_handle z) \<noteq> None \<longrightarrow> res = failure (rn_handle z))
     \<and> (res = None \<longrightarrow> stopped (rn_handle z) \<or> rn_processor z = ProcessorDone None)"

definition finished :: "('db, 'c, 'x) run \<Rightarrow> bool" where
  "finished z \<longleftrightarrow> (\<exists>e. rn_processor z = ProcessorDone e)"

text \<open>What holds where \<open>Run\<close>'s goroutine is.\<close>

definition on_course :: "('db, 'c, 'x) run \<Rightarrow> bool" where
  "on_course z \<longleftrightarrow> (case rn_pc z of
     Recording pos \<Rightarrow> rn_caughtUp z = Some pos
   | AwaitingStopped res \<Rightarrow> stopped (rn_handle z) \<and> res = failure (rn_handle z)
   | Winding err lost \<Rightarrow> err \<noteq> None
   | AwaitingWound f err lost \<Rightarrow> err \<noteq> None
   | Classifying res lost \<Rightarrow> finished z \<and> res \<noteq> None
   | Reading res slot \<Rightarrow> finished z \<and> res \<noteq> None
   | Classified res slot loaded \<Rightarrow> finished z \<and> res \<noteq> None
   | Joining res \<Rightarrow> finished z \<and> (res = None \<longrightarrow> rn_processor z = ProcessorDone None)
   | Leaving res \<Rightarrow> finished z \<and> reports z res \<and> (stopped (rn_handle z) \<or> rn_reconcile z = Exited)
   | Leaves res \<Rightarrow> finished z \<and> reports z res \<and> (stopped (rn_handle z) \<or> rn_reconcile z = Exited)
   | Releasing res \<Rightarrow> finished z \<and> reports z res \<and> rn_reconcile z = Exited
   | Returned res \<Rightarrow> finished z \<and> reports z res \<and> rn_reconcile z = Exited
   | _ \<Rightarrow> True)"

text \<open>The effect of each section on the invariants.\<close>

lemma recordCatchUp_touches:
  assumes "recordCatchUp o' others attemptID pos elapsed now r w = (res, r', w')"
  shows "moves r r' \<and> (res = CatchUpRecorded \<longrightarrow> \<not> exitPublished r
      \<and> (\<exists>v. certificate r' = Some \<lparr>ct_attempt = attemptID, ct_runner = rb_runner r', ct_position = pos,
           ct_version = v, ct_exited = processorExited r'\<rparr>))
    \<and> (res \<noteq> CatchUpRecorded \<longrightarrow> loses_certificate r r')
    \<and> (\<forall>err. res = CatchUpStopped err \<longrightarrow> stopped r' \<and> err = failure r')"
proof -
  obtain x r1 w1 where app: "appendLocked o' others [CaughtUp pos elapsed now] r w = (x, r1, w1)"
    by (metis prod_cases3)
  have q: "quiet r r1" by (rule appendLocked_quiet [OF app])
  show ?thesis
    using assms app q
    by (auto simp: recordCatchUp_def moves_def quiet_def touch_defs split: if_splits option.splits)
qed

lemma resolveSlot_touches:
  assumes "resolveSlot newV5 attemptID runnerID slot lost loaded r = (pc, r')"
  shows "moves r r' \<and> loses_certificate r r'
    \<and> pc \<in> {Pausing slot lost, Winding (Some lost) None, Retrying slot lost, Observing}"
  using assms recordSlotDefeat_moves [where r = r]
    recordTerminalStop_defers [where r = r]
  by (auto simp: resolveSlot_def defers_def split: slot_fate.splits sum.splits if_splits)

lemma endClassification_touches:
  "moves r (endClassification newV5 attemptID runnerID slot loaded r)
   \<and> loses_certificate r (endClassification newV5 attemptID runnerID slot loaded r)"
proof -
  have "moves r (s\<lparr>classifying := False\<rparr>) = moves r s"
    "loses_certificate r (s\<lparr>classifying := False\<rparr>) = loses_certificate r s" for s
    by (simp_all add: moves_def touch_defs)
  then show ?thesis
    using recordSlotDefeat_moves [where r = r] by (simp add: endClassification_def split: sum.splits)
qed

lemma observeReconciledPromotion_quiet: "quiet r (observeReconciledPromotion newV5 loaded r)"
  by (auto simp: observeReconciledPromotion_def Let_def quiet_def touch_defs split: sum.splits)

lemma beginClassification_quiet: "beginClassification newV5 attemptID lost r = Some (slot, r') \<Longrightarrow> quiet r r'"
  by (auto simp: beginClassification_def split: option.splits if_splits)

lemma claimStopOrder_quiet: "claimStopOrder r = (b, r') \<Longrightarrow> quiet r r'"
  by (auto simp: claimStopOrder_def quiet_def touch_defs split: if_splits)

lemma releaseClaim_quiet: "releaseClaim newV5 o' others now r w = (err, r', w') \<Longrightarrow> quiet r r'"
  by (auto simp: releaseClaim_def dest: appendLocked_quiet split: if_splits)

lemma processorExit_quiet: "processorExit err r = (res, r') \<Longrightarrow> quiet r r'"
  by (auto simp: processorExit_def)

lemma attributeExit_reports: "err \<noteq> None \<Longrightarrow> attributeExit c first e err \<noteq> None"
  by (auto simp: attributeExit_def errors_join_def List.map_filter_def split: option.splits)

text \<open>A step of \<open>Run\<close>'s goroutine moves the handle, and certifies only by recording its catch-up.\<close>

lemma run_step_moves:
  assumes "run_step newV5 o' others attemptID runnerID z z'"
  shows "moves (rn_handle z) (rn_handle z') \<and> (loses_certificate (rn_handle z) (rn_handle z')
      \<or> \<not> exitPublished (rn_handle z) \<and> (\<exists>pos v. rn_pc z = Recording pos
          \<and> certificate (rn_handle z') = Some \<lparr>ct_attempt = attemptID, ct_runner = rb_runner (rn_handle z'),
              ct_position = pos, ct_version = v, ct_exited = processorExited (rn_handle z')\<rparr>))"
proof -
  have q: ?thesis if "quiet (rn_handle z) (rn_handle z')"
    using that quiet_moves by (simp add: quiet_def)
  have s: "quiet r (stop_processor r')" "quiet r (unregisterRetry r')" if "quiet r r'" for r r'
    using quiet_trans [OF that] quiet_updates(4,6) by blast+
  show ?thesis
    using assms
  proof cases
    case (record_catch_up pos elapsed now res r' w')
    have "moves r' (stop_processor r') \<and> loses_certificate r' (stop_processor r')"
      using quiet_updates(4) quiet_moves by (auto simp: quiet_def)
    then show ?thesis
      using recordCatchUp_touches [OF record_catch_up(3)] record_catch_up
      by (cases "res = CatchUpRecorded") (auto intro: moves_trans touch_trans(3))
  next
    case (resolve_slot slot lost loaded pc r')
    then show ?thesis using resolveSlot_touches [OF resolve_slot(3)] by simp
  next
    case (classified res slot loaded)
    then show ?thesis using endClassification_touches by simp
  next
    case (observe loaded)
    then show ?thesis using q observeReconciledPromotion_quiet by simp
  qed (rule q; auto intro: s dest!: Promote_quiet beginClassification_quiet claimStopOrder_quiet
      releaseClaim_quiet processorExit_quiet; fail)+
qed

lemma run_step_others:
  assumes "run_step newV5 o' others attemptID runnerID z z'"
  shows "rn_processor z' = rn_processor z" "rn_reconcile z' = rn_reconcile z" "rn_caughtUp z' = rn_caughtUp z"
    "rn_ctx z' = rn_ctx z" "rn_commands z' = rn_commands z"
  using assms by (cases, simp_all)+

lemma reconcile_step_defers:
  assumes "reconcile_step newV5 o' others attemptID runnerID z z'"
  shows "defers (rn_handle z) (rn_handle z')" "rn_pc z' = rn_pc z" "rn_processor z' = rn_processor z"
    "rn_caughtUp z' = rn_caughtUp z" "rn_ctx z' = rn_ctx z" "rn_reconcile z \<noteq> Exited"
proof -
  have d: "defers r (stop_processor r)" "defers r r" for r by (simp_all add: defers_def moves_def touch_defs)
  show "defers (rn_handle z) (rn_handle z')"
    using assms by cases (auto simp: d dest: reconcileFailed_defers reconcileLoaded_defers)
  show "rn_pc z' = rn_pc z" "rn_processor z' = rn_processor z" "rn_caughtUp z' = rn_caughtUp z" "rn_ctx z' = rn_ctx z"
    "rn_reconcile z \<noteq> Exited"
    using assms by (cases, auto)+
qed

text \<open>A command moves the verdict only by ending the run's own attempt.\<close>

lemma command_step_touches:
  assumes "command_step newV5 o' others z z'"
  shows "same_run (rn_handle z) (rn_handle z') \<and> loses_certificate (rn_handle z) (rn_handle z')
    \<and> (same_verdict (rn_handle z) (rn_handle z') \<or> stopped (rn_handle z') \<and> failure (rn_handle z') = failure (rn_handle z)
        \<and> commandEnded (rn_handle z') = runAttempt (rn_handle z))"
    "rn_pc z' = rn_pc z" "rn_processor z' = rn_processor z" "rn_reconcile z' = rn_reconcile z"
    "rn_caughtUp z' = rn_caughtUp z" "rn_ctx z' = rn_ctx z"
proof -
  let ?P = "same_run (rn_handle z) (rn_handle z') \<and> loses_certificate (rn_handle z) (rn_handle z')
    \<and> (same_verdict (rn_handle z) (rn_handle z') \<or> stopped (rn_handle z') \<and> failure (rn_handle z') = failure (rn_handle z)
        \<and> commandEnded (rn_handle z') = runAttempt (rn_handle z))"
  have q: ?P if "quiet (rn_handle z) (rn_handle z')" using that by (simp add: quiet_def)
  show ?P
    using assms
  proof cases
    case (command_commits i cmd res r' w')
    then show ?thesis using recordTerminal_touches [OF command_commits(4)] by simp
  qed (rule q; auto dest!: Promote_quiet)+
  show "rn_pc z' = rn_pc z" "rn_processor z' = rn_processor z" "rn_reconcile z' = rn_reconcile z"
    "rn_caughtUp z' = rn_caughtUp z" "rn_ctx z' = rn_ctx z"
    using assms by (cases, auto)+
qed

lemma retire_step_quiet:
  assumes "retire_step newV5 o' others z z'"
  shows "quiet (rn_handle z) (rn_handle z')" "rn_pc z' = rn_pc z" "rn_processor z' = rn_processor z"
    "rn_reconcile z' = rn_reconcile z" "rn_caughtUp z' = rn_caughtUp z" "rn_ctx z' = rn_ctx z"
  using assms by (cases, auto dest: Retire_quiet)+

lemma outside_step_touches:
  assumes "outside_step others z z'"
  shows "rn_handle z' = rn_handle z" "rn_processor z' = rn_processor z"
    "rn_caughtUp z' = rn_caughtUp z \<or> rn_caughtUp z = None"
    "rn_pc z' = rn_pc z \<or> (\<exists>slot lost. rn_pc z' = Halting slot lost)"
    "rn_reconcile z' = rn_reconcile z \<or> rn_reconcile z = Ticking"
  using assms by (cases, auto)+

section \<open>Its preservation\<close>

lemma step_identity:
  assumes "step newV5 o' others attemptID runnerID z z'" "run_identity attemptID runnerID z"
  shows "run_identity attemptID runnerID z'"
proof -
  consider "run_step newV5 o' others attemptID runnerID z z'" | "reconcile_step newV5 o' others attemptID runnerID z z'"
    | "processor_step z z'" | "command_step newV5 o' others z z'" | "retire_step newV5 o' others z z'"
    | "outside_step others z z'"
    using assms(1) by (auto simp: step_def own_step_def)
  then show ?thesis
  proof cases
    case 1
    then show ?thesis using run_step_moves [OF 1] run_step_others [OF 1] assms(2)
      by (auto simp: run_identity_def moves_def same_run_def Let_def)
  next
    case 2
    then show ?thesis using reconcile_step_defers [OF 2] assms(2)
      by (auto simp: run_identity_def defers_def moves_def same_run_def Let_def)
  next
    case 3
    then show ?thesis using assms(2)
      by cases (auto simp: run_identity_def claimReturn_def publishProcessorExit_def Let_def)
  next
    case 4
    then show ?thesis using command_step_touches [OF 4] assms(2)
      by (auto simp: run_identity_def touch_defs Let_def)
  next
    case 5
    then show ?thesis using retire_step_quiet [OF 5] assms(2) by (auto simp: run_identity_def quiet_def touch_defs Let_def)
  next
    case 6
    then show ?thesis using outside_step_touches [OF 6] assms(2) by (simp add: run_identity_def Let_def)
  qed
qed

lemma step_vouches:
  assumes "step newV5 o' others attemptID runnerID z z'" "run_identity attemptID runnerID z"
    and "vouches attemptID runnerID z" "on_course z"
  shows "vouches attemptID runnerID z'"
proof -
  have lost: "vouches attemptID runnerID z'"
    if "same_run (rn_handle z) (rn_handle z')" "loses_certificate (rn_handle z) (rn_handle z')"
      "rn_caughtUp z' = rn_caughtUp z \<or> rn_caughtUp z = None"
    using that assms(3) by (auto simp: vouches_def touch_defs split: option.splits)
  consider "run_step newV5 o' others attemptID runnerID z z'" | "reconcile_step newV5 o' others attemptID runnerID z z'"
    | "processor_step z z'" | "command_step newV5 o' others z z'" | "retire_step newV5 o' others z z'"
    | "outside_step others z z'"
    using assms(1) by (auto simp: step_def own_step_def)
  then show ?thesis
  proof cases
    case 1
    note m = run_step_moves [OF 1]
    show ?thesis
    proof (cases "loses_certificate (rn_handle z) (rn_handle z')")
      case True
      then show ?thesis using m run_step_others [OF 1] by (auto simp: moves_def intro: lost)
    next
      case False
      then obtain pos v where c: "\<not> exitPublished (rn_handle z)" "rn_pc z = Recording pos"
          "certificate (rn_handle z') = Some \<lparr>ct_attempt = attemptID, ct_runner = rb_runner (rn_handle z'),
              ct_position = pos, ct_version = v, ct_exited = processorExited (rn_handle z')\<rparr>"
        using m by blast
      have "rn_caughtUp z = Some pos" using assms(4) c(2) by (simp add: on_course_def)
      then show ?thesis using c m run_step_others [OF 1] assms(2)
        by (auto simp: vouches_def run_identity_def moves_def same_run_def Let_def)
    qed
  next
    case 2
    then show ?thesis using reconcile_step_defers [OF 2] by (auto simp: defers_def moves_def intro: lost)
  next
    case 3
    then show ?thesis using assms(3)
      by cases (auto simp: vouches_def claimReturn_def publishProcessorExit_def split: option.splits)
  next
    case 4
    then show ?thesis using command_step_touches [OF 4] by (auto intro: lost)
  next
    case 5
    then show ?thesis using retire_step_quiet [OF 5] by (auto simp: quiet_def intro: lost)
  next
    case 6
    then show ?thesis using outside_step_touches [OF 6] by (auto intro: lost)
  qed
qed

text \<open>Where \<open>Run\<close>'s goroutine stays put, the others may move the verdict before it is taken.\<close>

lemma on_course_kept:
  assumes "on_course z" "run_identity attemptID runnerID z" "rn_pc z' = rn_pc z"
    and st: "stopped (rn_handle z) \<Longrightarrow> stopped (rn_handle z')"
    and "stopped (rn_handle z) \<or> rn_reconcile z = Exited \<Longrightarrow> failure (rn_handle z') = failure (rn_handle z)"
    and "finished z \<Longrightarrow> rn_processor z' = rn_processor z" "rn_reconcile z = Exited \<Longrightarrow> rn_reconcile z' = Exited"
    and "rn_caughtUp z' = rn_caughtUp z \<or> rn_caughtUp z = None"
  shows "on_course z'"
proof -
  have d: "finished z' \<and> rn_processor z' = rn_processor z" if "finished z" using assms(6) [OF that] that by (simp add: finished_def)
  have r: "reports z' res" if "reports z res" "finished z" "stopped (rn_handle z) \<or> rn_reconcile z = Exited" for res
    using that(1) st assms(5) [OF that(3)] d [OF that(2)] by (auto simp: reports_def)
  have pc: "rn_pc z' = rn_pc z" by (rule assms(3))
  show ?thesis
    using assms(1) assms(5,7,8) d r st unfolding on_course_def pc
    by (cases "rn_pc z") auto
qed

lemma run_step_on_course:
  assumes "run_step newV5 o' others attemptID runnerID z z'" "run_identity attemptID runnerID z" "on_course z"
  shows "on_course z'"
  using assms(1)
proof cases
  case (record_catch_up pos elapsed now res r' w')
  then show ?thesis using recordCatchUp_touches [OF record_catch_up(3)]
    by (auto simp: on_course_def after_catch_up_def split: catch_up.splits)
next
  case (promote now res r' w')
  then show ?thesis by (simp add: on_course_def after_promotion_def split: promotion_fate.splits)
next
  case (resolve_slot slot lost loaded pc r')
  then show ?thesis using resolveSlot_touches [OF resolve_slot(3)] by (auto simp: on_course_def)
next
  case (wound returnedFirst err lost e res)
  then have "err \<noteq> None" using assms(3) by (simp add: on_course_def)
  then have "res \<noteq> None" using wound(4) attributeExit_reports by simp
  then show ?thesis using wound(1-3)
    by (auto simp: on_course_def finished_def split: option.splits)
next
  case (join err res r')
  then show ?thesis using assms(2,3)
    by (auto simp: on_course_def finished_def reports_def processorExit_def run_identity_def Let_def split: if_splits)
next
  case (release res now err r' w')
  have "quiet (rn_handle z) r'" by (rule releaseClaim_quiet [OF release(3)])
  then show ?thesis using release assms(3) by (simp add: on_course_def finished_def reports_def quiet_def touch_defs)
next
  case (retry slot lost now res r' w' ctxErr)
  then show ?thesis by (simp add: on_course_def after_retry_def split: option.split)
next
  case (cut_retry slot lost c now r' w1 w' res)
  then show ?thesis by (simp add: on_course_def after_retry_def split: option.split)
next
  case (cut_promote c now r' w1 w')
  then show ?thesis by (simp add: on_course_def after_promotion_def split: promotion_fate.split)
qed (use assms(3) in \<open>auto simp: on_course_def finished_def reports_def after_catch_up_def\<close>)

lemma step_on_course:
  assumes "step newV5 o' others attemptID runnerID z z'" "run_identity attemptID runnerID z" "on_course z"
  shows "on_course z'"
proof -
  note kept = on_course_kept [OF assms(3,2)]
  consider "run_step newV5 o' others attemptID runnerID z z'" | "reconcile_step newV5 o' others attemptID runnerID z z'"
    | "processor_step z z'" | "command_step newV5 o' others z z'" | "retire_step newV5 o' others z z'"
    | "outside_step others z z'"
    using assms(1) by (auto simp: step_def own_step_def)
  then show ?thesis
  proof cases
    case 1
    then show ?thesis using run_step_on_course assms(2,3) by blast
  next
    case 2
    note t = reconcile_step_defers [OF 2]
    show ?thesis by (rule kept) (use t in \<open>auto simp: defers_def moves_def\<close>)
  next
    case 3
    then show ?thesis
      by cases (rule kept; simp add: finished_def claimReturn_def publishProcessorExit_def; fail)+
  next
    case 4
    note t = command_step_touches [OF 4]
    show ?thesis by (rule kept) (use t in \<open>auto simp: touch_defs\<close>)
  next
    case 5
    note t = retire_step_quiet [OF 5]
    show ?thesis by (rule kept) (use t in \<open>auto simp: quiet_def touch_defs\<close>)
  next
    case 6
    note t = outside_step_touches [OF 6]
    show ?thesis
    proof (cases "rn_pc z' = rn_pc z")
      case True
      show ?thesis by (rule kept) (use t True in auto)
    next
      case False
      then show ?thesis using t(4) by (auto simp: on_course_def)
    qed
  qed
qed

text \<open>The invariant of every state a run reaches.\<close>

definition run_sound :: "uuid \<Rightarrow> uuid \<Rightarrow> ('db, 'c, 'x) run \<Rightarrow> bool" where
  "run_sound attemptID runnerID z \<longleftrightarrow>
     run_identity attemptID runnerID z \<and> vouches attemptID runnerID z \<and> on_course z"

lemma step_sound: "step newV5 o' others attemptID runnerID z z' \<Longrightarrow> run_sound attemptID runnerID z
    \<Longrightarrow> run_sound attemptID runnerID z'"
  unfolding run_sound_def
  by (elim conjE, intro conjI) (rule step_identity step_vouches step_on_course; assumption)+

lemma steps_sound: "(step newV5 o' others attemptID runnerID)\<^sup>*\<^sup>* z z' \<Longrightarrow> run_sound attemptID runnerID z
    \<Longrightarrow> run_sound attemptID runnerID z'"
  by (induction rule: rtranclp_induct) (auto intro: step_sound)

section \<open>The beginning\<close>

text \<open>A handle that has not run: as \<open>Begin\<close> or \<open>Resume\<close> made it, or with commands since.\<close>

definition unrun :: "rebuild \<Rightarrow> bool" where
  "unrun r \<longleftrightarrow> certificate r = None \<and> \<not> exitPublished r \<and> \<not> processorReturned r \<and> commandEnded r = uuid_nil
     \<and> failure r = None \<and> \<not> stopped r"

lemma quiet_unrun: "quiet r r' \<Longrightarrow> unrun r \<Longrightarrow> unrun r'"
  by (auto simp: quiet_def touch_defs unrun_def)

lemma startRun_starts:
  assumes "startRun o' others newProcessor runner exited attempt r w = (RunStarts a, r', w')"
  shows "a = attempt \<and> r' = r\<lparr>rb_runner := runner, stopProcessor := True, processorExited := Some exited\<rparr>"
  using assms by (auto simp: startRun_def Let_def split: prod.splits sum.splits option.splits)

lemma claimRun_starts:
  assumes "claimRun newV5 o' others newProcessor runner exited transitions attempt r w = Some (RunStarts a, r', w')"
    and "unrun r"
  shows "a = attempt \<and> unrun r' \<and> runAttempt r' = at_ID attempt \<and> rb_runner r' = runner"
proof -
  obtain r1 w1 w2 where r1: "quiet (r\<lparr>runAttempt := at_ID attempt\<rparr>) r1"
      "startRun o' others newProcessor runner exited attempt r1 w1 = (RunStarts a, r', w2)"
  proof -
    obtain x r1 w1 where app: "appendLocked o' others transitions (r\<lparr>runAttempt := at_ID attempt\<rparr>) w = (x, r1, w1)"
      by (metis prod_cases3)
    note q = appendLocked_quiet [OF app]
    then have "quiet (r\<lparr>runAttempt := at_ID attempt\<rparr>) (r1\<lparr>rb_aggregate := a\<rparr>)" for a
      by (rule quiet_trans) simp
    then show ?thesis using that q assms(1) app
      by (auto simp: claimRun_def Let_def split: option.splits sum.splits if_splits)
  qed
  have "unrun (r\<lparr>runAttempt := at_ID attempt\<rparr>)" using assms(2) by (simp add: unrun_def)
  then have "unrun r1" using r1(1) quiet_unrun by blast
  then show ?thesis using startRun_starts [OF r1(2)] r1(1) by (simp add: unrun_def quiet_def same_run_def)
qed

lemma enterRun_starts:
  assumes "enterRun newV5 o' others newProcessor opts runner exited now r w = Some (RunStarts attempt, r', w')"
    and "unrun r"
  shows "unrun r' \<and> runAttempt r' = at_ID attempt \<and> rb_runner r' = runner"
proof -
  obtain x r1 w1 ts w2 where r1: "refoldLocked newV5 o' others (r\<lparr>ran := True\<rparr>) w = Some (x, r1, w1)"
    and run: "claimRun newV5 o' others newProcessor runner exited ts (Attempt (agg_state (rb_aggregate r1))) r1 w2
      = Some (RunStarts attempt, r', w')"
    using assms(1) by (auto simp: enterRun_def Let_def split: sum.splits option.splits if_splits prod.splits)
  have "unrun (r\<lparr>ran := True\<rparr>)" using assms(2) by (simp add: unrun_def)
  then have "unrun r1" using quiet_unrun [OF refoldLocked_quiet [OF r1]] by blast
  then show ?thesis using claimRun_starts [OF run] by simp
qed

lemma begin_run_sound:
  assumes "unrun r"
  shows "run_sound (runAttempt r) (rb_runner r) (begin_run attempt r w)"
  using assms
  by (auto simp: run_sound_def run_identity_def vouches_def on_course_def begin_run_def unrun_def Let_def)

end
