(* ===== verification/RunLiveness.thy ===== *)
theory RunLiveness
  imports RunProps
begin

text \<open>
  A run comes down: between timer ticks its goroutines take a bounded number of steps, and once its
  context has ended, or its processor has been told to stop, they are stuck only when \<open>Run\<close> has
  returned. The processor is only counted on to return once its own context has ended.
\<close>

section \<open>The measure\<close>

fun pc_rank :: "run_pc \<Rightarrow> nat" where
  "pc_rank Draining = 18"
| "pc_rank (Recording pos) = 17"
| "pc_rank Promoting = 16"
| "pc_rank (Halting slot lost) = 15"
| "pc_rank (Folding slot lost) = 14"
| "pc_rank (Folded slot lost loaded) = 13"
| "pc_rank (Retrying slot lost) = 12"
| "pc_rank (Attempting slot lost) = 11"
| "pc_rank (Pausing slot lost) = 10"
| "pc_rank (Winding err lost) = 9"
| "pc_rank (AwaitingWound first err lost) = 8"
| "pc_rank (Classifying res lost) = 7"
| "pc_rank Observing = 7"
| "pc_rank (Reading res slot) = 6"
| "pc_rank (Observed loaded) = 6"
| "pc_rank (Classified res slot loaded) = 5"
| "pc_rank Tailing = 5"
| "pc_rank (AwaitingStopped res) = 4"
| "pc_rank (Joining res) = 4"
| "pc_rank (Leaving res) = 3"
| "pc_rank (Leaves res) = 2"
| "pc_rank (Releasing res) = 1"
| "pc_rank (Returned res) = 0"

fun reconcile_rank :: "reconcile_pc \<Rightarrow> nat" where
  "reconcile_rank Ticked = 4"
| "reconcile_rank Loading = 3"
| "reconcile_rank (Loaded loaded) = 2"
| "reconcile_rank Stopping = 1"
| "reconcile_rank Ticking = 1"
| "reconcile_rank Exited = 0"

fun processor_rank :: "processor_pc \<Rightarrow> nat" where
  "processor_rank Processing = 2"
| "processor_rank (ProcessorReturned e) = 1"
| "processor_rank (ProcessorDone e) = 0"

definition run_rank :: "('db, 'c, 'x) run \<Rightarrow> nat" where
  "run_rank z = pc_rank (rn_pc z) + reconcile_rank (rn_reconcile z) + processor_rank (rn_processor z)"

lemma ranks_bounded: "run_rank z \<le> 24"
proof -
  have "pc_rank (rn_pc z) \<le> 18" by (cases "rn_pc z") simp_all
  moreover have "reconcile_rank (rn_reconcile z) \<le> 4" by (cases "rn_reconcile z") simp_all
  moreover have "processor_rank (rn_processor z) \<le> 2" by (cases "rn_processor z") simp_all
  ultimately show ?thesis by (simp add: run_rank_def)
qed

lemma run_step_descends: "run_step newV5 o' others attemptID runnerID z z' \<Longrightarrow> pc_rank (rn_pc z') < pc_rank (rn_pc z)"
proof (induction rule: run_step.induct)
  case (resolve_slot z slot lost loaded pc r')
  then show ?case using resolveSlot_touches [OF resolve_slot(2)] by auto
qed (auto simp: after_catch_up_def after_promotion_def after_retry_def
    split: catch_up.splits promotion_fate.splits option.splits)

lemma own_step_descends:
  assumes "own_step newV5 o' others attemptID runnerID z z'"
  shows "run_rank z' < run_rank z"
proof -
  consider "run_step newV5 o' others attemptID runnerID z z'" | "reconcile_step newV5 o' others attemptID runnerID z z'"
    | "processor_step z z'" using assms by (auto simp: own_step_def)
  then show ?thesis
  proof cases
    case 1
    then show ?thesis using run_step_descends [OF 1] run_step_others [OF 1] by (simp add: run_rank_def)
  next
    case 2
    then have "reconcile_rank (rn_reconcile z') < reconcile_rank (rn_reconcile z)"
      by cases (auto simp: after_verdict_def split: tick_verdict.split)
    then show ?thesis using reconcile_step_defers [OF 2] by (simp add: run_rank_def)
  next
    case 3
    then show ?thesis by cases (simp_all add: run_rank_def)
  qed
qed

section \<open>Progress\<close>

text \<open>A step of the run's goroutines that does not count on a processor nobody has stopped.\<close>

definition due_step ::
  "(uuid \<Rightarrow> string \<Rightarrow> uuid) \<Rightarrow> ('db, 'i, 'g, 'c, 'x, 'p) orchestrator
   \<Rightarrow> (('db, 'c, 'x) world \<Rightarrow> ('db, 'c, 'x) world) \<Rightarrow> uuid \<Rightarrow> uuid
   \<Rightarrow> ('db, 'c, 'x) run \<Rightarrow> ('db, 'c, 'x) run \<Rightarrow> bool" where
  "due_step newV5 o' others attemptID runnerID z z' \<longleftrightarrow> own_step newV5 o' others attemptID runnerID z z'
     \<and> (rn_processor z = Processing \<and> rn_processor z' \<noteq> Processing \<longrightarrow> (\<exists>c. processor_ctx z c))"

text \<open>
  What brings a run down: its context has ended, or its processor has been told to stop and the
  lifecycle stream can be read.
\<close>

definition comes_down ::
  "(uuid \<Rightarrow> string \<Rightarrow> uuid) \<Rightarrow> ('db, 'i, 'g, 'c, 'x, 'p) orchestrator \<Rightarrow> ('db, 'c, 'x) run \<Rightarrow> bool" where
  "comes_down newV5 o' z \<longleftrightarrow> rn_ctx z \<noteq> None
     \<or> stopCalled (rn_handle z) \<and> (\<forall>k db. hydrateFresh newV5 o' (rb_name (rn_handle z)) k db \<noteq> None)"

lemma reads_end:
  assumes "comes_down newV5 o' z" "rn_ctx z \<noteq> None \<Longrightarrow> \<exists>c. ctx c"
  shows "\<exists>loaded. fold_reads newV5 o' ctx (rb_name (rn_handle z)) k w loaded"
proof (cases "rn_ctx z")
  case None
  then have "hydrateFresh newV5 o' (rb_name (rn_handle z)) k (w_events w) \<noteq> None"
    using assms(1) by (simp add: comes_down_def)
  then show ?thesis by (auto simp: fold_reads_def)
next
  case (Some c)
  then have "fold_reads newV5 o' ctx (rb_name (rn_handle z)) k w (Inl Nil_error)"
    using assms(2) by (simp add: fold_reads_def)
  then show ?thesis by blast
qed

lemma reconcile_progress:
  assumes "comes_down newV5 o' z" "rn_reconcile z \<noteq> Exited"
  shows "\<exists>z'. reconcile_step newV5 o' others attemptID runnerID z z'"
proof -
  obtain c where ctx: "processor_ctx z c" using assms(1) by (auto simp: comes_down_def processor_ctx_def)
  show ?thesis
  proof (cases "rn_reconcile z")
    case Ticking
    then show ?thesis using ctx reconcile_ends by blast
  next
    case Ticked
    then show ?thesis using reconcile_checks by blast
  next
    case Loading
    obtain loaded where "fold_reads newV5 o' (processor_ctx z) (rb_name (rn_handle z)) 0 (others (rn_world z)) loaded"
      using reads_end [OF assms(1), of "processor_ctx z"] ctx by blast
    then show ?thesis by (intro exI, rule reconcile_loads [OF Loading])
  next
    case (Loaded loaded)
    then show ?thesis
    proof (cases loaded)
      case (Inl err)
      obtain v r' where "reconcileFailed (Some c) err (rn_handle z) = (v, r')" by fastforce
      moreover have "case Some c of None \<Rightarrow> \<forall>c. \<not> processor_ctx z c | Some c \<Rightarrow> processor_ctx z c" using ctx by simp
      ultimately show ?thesis using reconcile_fails Loaded Inl by blast
    next
      case (Inr a)
      obtain v r' where "reconcileLoaded newV5 attemptID runnerID a (rn_handle z) = (v, r')" by fastforce
      then show ?thesis using reconcile_judges Loaded Inr by blast
    qed
  next
    case Stopping
    then show ?thesis using reconcile_stops by blast
  qed (use assms(2) in simp)
qed

text \<open>Once the processor has exited, \<open>Run\<close>'s goroutine waits for nothing but the reconcile loop.\<close>

lemma run_progress:
  assumes "comes_down newV5 o' z" "run_sound attemptID runnerID z" "rn_processor z = ProcessorDone e"
    and "rn_reconcile z = Exited" "\<nexists>res. rn_pc z = Returned res"
  shows "\<exists>z'. run_step newV5 o' others attemptID runnerID z z'"
proof -
  have returned: "processorReturned (rn_handle z)"
    using assms(2,3) by (simp add: run_sound_def run_identity_def Let_def)
  then have ctx: "reconciliation_ctx z ContextCanceled" "retry_ctx z ContextCanceled"
    by (simp_all add: reconciliation_ctx_def retry_ctx_def)
  have ctxs: "\<exists>c. reconciliation_ctx z c" "rn_ctx z \<noteq> None \<Longrightarrow> \<exists>c. classification_ctx z c"
    using ctx by (auto simp: classification_ctx_def)
  note reads = reads_end [OF assms(1)]
  show ?thesis
  proof (cases "rn_pc z")
    case Draining
    then show ?thesis using drain_done [OF _ assms(3)] by blast
  next
    case (Recording pos)
    then show ?thesis using record_catch_up by (metis prod_cases3)
  next
    case (AwaitingStopped res)
    then show ?thesis using await_stopped [OF _ assms(3)] by blast
  next
    case Promoting
    then show ?thesis using promote by (metis prod_cases3)
  next
    case (Halting slot lost)
    then show ?thesis using halt by blast
  next
    case (Folding slot lost)
    obtain loaded where "fold_reads newV5 o' (reconciliation_ctx z) (rb_name (rn_handle z)) slot (others (rn_world z)) loaded"
      using reads [of "reconciliation_ctx z"] ctxs(1) by blast
    then show ?thesis by (intro exI, rule fold_slot [OF Folding])
  next
    case (Folded slot lost loaded)
    then show ?thesis using resolve_slot by (metis surj_pair)
  next
    case (Retrying slot lost)
    then show ?thesis using retry_held [OF Retrying _ ctx(1)] retry_starts [OF Retrying] by (meson linorder_not_less)
  next
    case (Attempting slot lost)
    have "case Some ContextCanceled of None \<Rightarrow> \<forall>c. \<not> retry_ctx z c | Some c \<Rightarrow> retry_ctx z c" using ctx(2) by simp
    then show ?thesis using retry [OF Attempting] by (metis prod_cases3)
  next
    case (Pausing slot lost)
    then show ?thesis using pause_ended [OF _ ctx(1)] by blast
  next
    case Observing
    obtain loaded where "fold_reads newV5 o' (reconciliation_ctx z) (rb_name (rn_handle z)) 0 (others (rn_world z)) loaded"
      using reads [of "reconciliation_ctx z"] ctxs(1) by blast
    then show ?thesis by (intro exI, rule observe_read [OF Observing])
  next
    case (Observed loaded)
    then show ?thesis using observe by blast
  next
    case Tailing
    then show ?thesis using tail_done [OF _ assms(3)] by blast
  next
    case (Winding err lost)
    then show ?thesis using wind_down by (metis surj_pair)
  next
    case (AwaitingWound first err lost)
    then show ?thesis using wound [OF _ assms(3)] by blast
  next
    case (Classifying res lost)
    then show ?thesis using classify unclassified by (metis option.exhaust surj_pair)
  next
    case (Reading res slot)
    obtain loaded where "fold_reads newV5 o' (classification_ctx z) (rb_name (rn_handle z)) slot (others (rn_world z)) loaded"
      using reads [of "classification_ctx z", OF ctxs(2)] by blast
    then show ?thesis by (intro exI, rule classify_read [OF Reading])
  next
    case (Classified res slot loaded)
    then show ?thesis using classified by blast
  next
    case (Joining err)
    then show ?thesis using join [OF _ assms(4)] by (metis surj_pair)
  next
    case (Leaving res)
    then show ?thesis using leave by blast
  next
    case (Leaves res)
    then show ?thesis using left [OF _ assms(4)] by blast
  next
    case (Releasing res)
    then show ?thesis using release by (metis prod_cases3)
  qed (use assms(5) in blast)
qed

lemma stuck_returned:
  assumes "comes_down newV5 o' z" "run_sound attemptID runnerID z"
    and "\<nexists>z'. due_step newV5 o' others attemptID runnerID z z'"
  shows "\<exists>res. rn_pc z = Returned res"
proof (rule ccontr)
  assume nr: "\<nexists>res. rn_pc z = Returned res"
  obtain c where ctx: "processor_ctx z c" using assms(1) by (auto simp: comes_down_def processor_ctx_def)
  then have own: "\<not> own_step newV5 o' others attemptID runnerID z z'" for z'
    using assms(3) unfolding due_step_def by blast
  obtain e where "rn_processor z = ProcessorDone e"
    using own processor_returns processor_exits unfolding own_step_def by (metis processor_rank.cases)
  moreover have "rn_reconcile z = Exited"
    using own reconcile_progress [OF assms(1)] unfolding own_step_def by blast
  ultimately show False using run_progress [OF assms(1,2) _ _ nr] own unfolding own_step_def by blast
qed

lemma own_step_comes_down:
  assumes "own_step newV5 o' others attemptID runnerID z z'" "comes_down newV5 o' z"
  shows "comes_down newV5 o' z'"
proof -
  consider "run_step newV5 o' others attemptID runnerID z z'" | "reconcile_step newV5 o' others attemptID runnerID z z'"
    | "processor_step z z'" using assms(1) by (auto simp: own_step_def)
  then have "rn_ctx z' = rn_ctx z \<and> rb_name (rn_handle z') = rb_name (rn_handle z)
    \<and> (stopCalled (rn_handle z) \<longrightarrow> stopCalled (rn_handle z'))"
  proof cases
    case 1
    then show ?thesis using run_step_moves [OF 1] run_step_others [OF 1] by (simp add: moves_def same_run_def)
  next
    case 2
    then show ?thesis using reconcile_step_defers [OF 2] by (simp add: defers_def moves_def same_run_def)
  next
    case 3
    then show ?thesis by cases (simp_all add: claimReturn_def publishProcessorExit_def)
  qed
  then show ?thesis using assms(2) by (auto simp: comes_down_def)
qed

lemma due_steps:
  assumes "(due_step newV5 o' others attemptID runnerID ^^ k) z z'"
    and "comes_down newV5 o' z" "run_sound attemptID runnerID z"
  shows "run_rank z' + k \<le> run_rank z \<and> comes_down newV5 o' z' \<and> run_sound attemptID runnerID z'"
  using assms(1)
proof (induction k arbitrary: z')
  case 0
  then show ?case using assms(2,3) by simp
next
  case (Suc k)
  then obtain y where y: "(due_step newV5 o' others attemptID runnerID ^^ k) z y"
      "due_step newV5 o' others attemptID runnerID y z'" by auto
  then have own: "own_step newV5 o' others attemptID runnerID y z'" by (simp add: due_step_def)
  have "step newV5 o' others attemptID runnerID y z'" using own by (simp add: step_def)
  then show ?case
    using Suc.IH [OF y(1)] own_step_descends [OF own] own_step_comes_down [OF own] step_sound by fastforce
qed

text \<open>So a run that comes down can always be brought to its return.\<close>

lemma comes_down_returns:
  assumes "comes_down newV5 o' z" "run_sound attemptID runnerID z"
  shows "\<exists>z' res. (due_step newV5 o' others attemptID runnerID)\<^sup>*\<^sup>* z z' \<and> rn_pc z' = Returned res"
  using assms
proof (induction "run_rank z" arbitrary: z rule: less_induct)
  case less
  show ?case
  proof (cases "\<exists>y. due_step newV5 o' others attemptID runnerID z y")
    case False
    then show ?thesis using stuck_returned [OF less.prems] by blast
  next
    case True
    then obtain y where y: "due_step newV5 o' others attemptID runnerID z y" by blast
    have "(due_step newV5 o' others attemptID runnerID ^^ 1) z y" using y by auto
    from due_steps [OF this less.prems] obtain z' res where
      "(due_step newV5 o' others attemptID runnerID)\<^sup>*\<^sup>* y z'" "rn_pc z' = Returned res"
      using less.hyps [of y] by fastforce
    then show ?thesis using y converse_rtranclp_into_rtranclp by metis
  qed
qed

end
