(* ===== verification/RunWorld.thy ===== *)
theory RunWorld
  imports RunProps CommandSystem
begin

text \<open>
  A run in its world, inside \<open>lifecycle_world\<close>: every step extends the projection's stream cleanly and
  leaves the handle, and every view a goroutine holds, on a prefix of it. One thing is not for the run
  to guarantee: its catch-up is recorded on whatever attempt the handle's view shows.
\<close>

section \<open>Views\<close>

definition view_on :: "(uuid \<Rightarrow> string \<Rightarrow> uuid) \<Rightarrow> string \<Rightarrow> lifecycle_event list \<Rightarrow> nat \<Rightarrow> lifecycle_aggregate result \<Rightarrow> bool" where
  "view_on newV5 n es b loaded \<longleftrightarrow> (\<forall>a. loaded = Inr a \<longrightarrow> (\<exists>k\<ge>b. at_prefix newV5 n es k a))"

text \<open>The view that \<open>Run\<close>'s goroutine, or the reconcile loop, holds.\<close>

definition pc_view :: "run_pc \<Rightarrow> lifecycle_aggregate result" where
  "pc_view pc = (case pc of Folded slot lost loaded \<Rightarrow> loaded | Observed loaded \<Rightarrow> loaded
     | Classified res slot loaded \<Rightarrow> loaded | _ \<Rightarrow> Inl Nil_error)"

definition reconcile_view :: "reconcile_pc \<Rightarrow> lifecycle_aggregate result" where
  "reconcile_view pc = (case pc of Loaded loaded \<Rightarrow> loaded | _ \<Rightarrow> Inl Nil_error)"

definition views_on :: "(uuid \<Rightarrow> string \<Rightarrow> uuid) \<Rightarrow> string \<Rightarrow> lifecycle_event list \<Rightarrow> ('db, 'c, 'x) run \<Rightarrow> bool" where
  "views_on newV5 n es z \<longleftrightarrow> view_on newV5 n es 0 (pc_view (rn_pc z)) \<and> view_on newV5 n es 0 (reconcile_view (rn_reconcile z))"

lemma pc_view_simps [simp]:
  "pc_view Draining = Inl Nil_error" "pc_view (Recording pos) = Inl Nil_error"
  "pc_view (AwaitingStopped res) = Inl Nil_error" "pc_view Promoting = Inl Nil_error"
  "pc_view (Halting slot lost) = Inl Nil_error" "pc_view (Folding slot lost) = Inl Nil_error"
  "pc_view (Folded slot lost loaded) = loaded" "pc_view (Retrying slot lost) = Inl Nil_error"
  "pc_view (Attempting slot lost) = Inl Nil_error" "pc_view (Pausing slot lost) = Inl Nil_error"
  "pc_view Observing = Inl Nil_error" "pc_view (Observed loaded) = loaded" "pc_view Tailing = Inl Nil_error"
  "pc_view (Winding err lo) = Inl Nil_error" "pc_view (AwaitingWound b err lo) = Inl Nil_error"
  "pc_view (Classifying res lost) = Inl Nil_error" "pc_view (Reading res slot) = Inl Nil_error"
  "pc_view (Classified res slot loaded) = loaded" "pc_view (Joining res) = Inl Nil_error"
  "pc_view (Leaving res) = Inl Nil_error" "pc_view (Leaves res) = Inl Nil_error"
  "pc_view (Releasing res) = Inl Nil_error" "pc_view (Returned res) = Inl Nil_error"
  by (simp_all add: pc_view_def)

lemma after_view [simp]:
  "pc_view (after_catch_up b res) = Inl Nil_error" "pc_view (after_promotion r) = Inl Nil_error"
  "pc_view (after_retry b r slot lost) = Inl Nil_error"
  by (simp_all add: after_catch_up_def after_promotion_def after_retry_def
      split: catch_up.split promotion_fate.split option.split)

lemma reconcile_view_simps [simp]:
  "reconcile_view Ticking = Inl Nil_error" "reconcile_view Ticked = Inl Nil_error" "reconcile_view Loading = Inl Nil_error"
  "reconcile_view (Loaded loaded) = loaded" "reconcile_view Stopping = Inl Nil_error" "reconcile_view Exited = Inl Nil_error"
  "reconcile_view (after_verdict v) = Inl Nil_error"
  by (simp_all add: reconcile_view_def after_verdict_def split: tick_verdict.split)

lemma view_on_Inl [simp]: "view_on newV5 n es b (Inl err)"
  by (simp add: view_on_def)

lemma view_on_mono: "view_on newV5 n es b loaded \<Longrightarrow> prefix es es' \<Longrightarrow> view_on newV5 n es' b loaded"
  unfolding view_on_def using at_prefix_mono by blast

lemma views_on_mono: "views_on newV5 n es z \<Longrightarrow> prefix es es' \<Longrightarrow> views_on newV5 n es' z"
  unfolding views_on_def by (auto intro: view_on_mono)

text \<open>What the run does not check: the view a catch-up is recorded on is building or caught up.\<close>

definition catches_up_in_phase :: "('db, 'c, 'x) run \<Rightarrow> bool" where
  "catches_up_in_phase z \<longleftrightarrow> (case rn_pc z of
     Recording pos \<Rightarrow> \<not> stopped (rn_handle z) \<and> \<not> exitPublished (rn_handle z) \<longrightarrow>
       at_Phase (Attempt (agg_state (rb_aggregate (rn_handle z)))) \<in> {PhaseBuilding, PhaseCaughtUp}
   | _ \<Rightarrow> True)"

text \<open>Slots are positions of the stream, which \<open>int64\<close> holds.\<close>

definition slots_in_range :: "('db, 'c, 'x) run \<Rightarrow> bool" where
  "slots_in_range z \<longleftrightarrow> (case rn_pc z of
     Folding slot lost \<Rightarrow> slot \<le> max_int64 | Reading res slot \<Rightarrow> slot \<le> max_int64 | _ \<Rightarrow> True)"

text \<open>What a run leaves to the rest of the world: room at its appends, and the phase of its catch-up.\<close>

definition fair_run ::
  "('db \<Rightarrow> nat \<Rightarrow> bool) \<Rightarrow> ('db, 'i, 'g, 'c, 'x, 'p) orchestrator
   \<Rightarrow> (('db, 'c, 'x) world \<Rightarrow> ('db, 'c, 'x) world) \<Rightarrow> ('db, 'c, 'x) run \<Rightarrow> bool" where
  "fair_run room o' others z \<longleftrightarrow> roomy room o' others (rn_world z) \<and> catches_up_in_phase z \<and> slots_in_range z"

text \<open>The steps of a run through fair states.\<close>

definition fair_step ::
  "('db \<Rightarrow> nat \<Rightarrow> bool) \<Rightarrow> (uuid \<Rightarrow> string \<Rightarrow> uuid) \<Rightarrow> ('db, 'i, 'g, 'c, 'x, 'p) orchestrator
   \<Rightarrow> (('db, 'c, 'x) world \<Rightarrow> ('db, 'c, 'x) world) \<Rightarrow> uuid \<Rightarrow> uuid
   \<Rightarrow> ('db, 'c, 'x) run \<Rightarrow> ('db, 'c, 'x) run \<Rightarrow> bool" where
  "fair_step room newV5 o' others i j z z' \<longleftrightarrow> fair_run room o' others z \<and> step newV5 o' others i j z z'"

section \<open>Legal events\<close>

lemma legal_CaughtUp:
  "at_Phase (Attempt s) \<in> {PhaseBuilding, PhaseCaughtUp} \<Longrightarrow> \<exists>s'. legal s (CaughtUp pos d t) s'"
  using legal.catch_up by blast

lemma legal_Release:
  assumes "sound s" "at_Phase (Attempt s) \<noteq> PhaseNone" "Runner (Attempt s) \<noteq> uuid_nil" "\<not> Released (Attempt s)"
  shows "\<exists>s'. legal s (RunnerReleased (at_ID (Attempt s)) (Runner (Attempt s)) t) s'"
proof -
  have "st_Name s \<noteq> ''''" using sound_named assms(1,2) by blast
  then have "attempt_ok s" using assms(1) by (simp add: sound_def)
  then have "at_ID (Attempt s) \<noteq> uuid_nil" using assms(2) by (auto simp: attempt_ok_def Let_def in_flight_def)
  moreover have "at_Phase (Attempt s) \<in> {PhaseCreated, PhaseBuilding, PhaseCaughtUp, PhasePromoted, PhaseRetiring}"
    using sound_phase [OF assms(1)] assms(2) by (simp add: in_flight_def)
  ultimately show ?thesis using legal.release [of s t] assms(3,4) by (auto simp: standing_def)
qed

context lifecycle_world begin

section \<open>Sections on a displayed stream\<close>

lemma hydrateFresh_view:
  assumes "displays w es" "to \<le> max_int64" "fold_reads newV5 o' ctx n to w loaded"
  shows "view_on newV5 n es (if to \<le> 0 then length es else 0) loaded"
proof (cases "isl loaded")
  case False
  have "hydrateFresh newV5 o' n to db = hydrateFresh newV5 o' n (max to 0) db" for db
    by (simp add: hydrateFresh_def)
  then have h: "hydrateFresh newV5 o' n (max to 0) (w_events w) = Some loaded"
    using assms(3) False by (simp add: fold_reads_def)
  have "valid (w_events w)" "stream newV5 n (w_events w) = Some es" using assms(1) by (simp_all add: shows_stream_def)
  from hydrateFresh_prefix [OF this authority, of "max to 0"] show ?thesis
    using h assms(2) by (auto simp: view_on_def max_int64_def split: if_splits)
qed (auto simp: view_on_def)

text \<open>An append of one event that is legal in the handle's view.\<close>

lemma appendLocked_legal:
  assumes "displays w es" "follows es r" "appendLocked o' others [e] r w = (res, r', w')"
    and "room (w_events (others w)) 2"
    and "sound (agg_state (rb_aggregate r)) \<Longrightarrow> \<exists>s'. legal (agg_state (rb_aggregate r)) e s'"
  shows "keeps es r' w' \<and> (res \<noteq> None \<longrightarrow> SaveOutcome res \<noteq> AppendOutcomeAppended)
    \<and> (res = None \<longrightarrow> at_prefix newV5 n es (length es) (rb_aggregate r) \<and> displays w' (es @ [e]))"
proof -
  have name: "rb_name r = n" using assms(2) by (simp add: on_prefix_def)
  obtain k where k: "at_prefix newV5 n es k (rb_aggregate r)" using assms(2) by (auto simp: on_prefix_def)
  have fold: "agg_state (rb_aggregate r) = lifecycle_fold es" if "k = length es" using k that by (simp add: at_prefix_def)
  have c: "clean es" using assms(1) by (simp add: shows_stream_def)
  then have "sound (lifecycle_fold es)" using clean_sound by (simp add: clean_def)
  then have "clean (es @ [e])" if "k = length es"
    using assms(5) clean_extend [OF c] fold [OF that] by metis
  then show ?thesis using appendLocked_keeps [OF assms(1) name k _ _ _ assms(3,4)] k by auto
qed

lemma keeps_refl: "displays w es \<Longrightarrow> follows es r \<Longrightarrow> keeps es r w"
  by (auto intro: keepsI)

lemma keeps_others: "displays w es \<Longrightarrow> follows es r \<Longrightarrow> keeps es r (others w)"
  using displays_others follows_mono keepsI by metis

lemma keeps_frame: "rb_name r' = rb_name r \<Longrightarrow> rb_aggregate r' = rb_aggregate r \<Longrightarrow> keeps es r' w = keeps es r w"
  by (simp add: carried_def on_prefix_def)

lemma recordCatchUp_keeps:
  assumes "displays w es" "follows es r"
    and "recordCatchUp o' others attemptID pos elapsed now r w = (res, r', w')" "room (w_events (others w)) 2"
    and "\<not> stopped r \<Longrightarrow> \<not> exitPublished r \<Longrightarrow>
      at_Phase (Attempt (agg_state (rb_aggregate r))) \<in> {PhaseBuilding, PhaseCaughtUp}"
  shows "keeps es r' w' \<and> (res = CatchUpRecorded \<longrightarrow> displays w' (es @ [CaughtUp pos elapsed now]))"
proof (cases "stopped r \<or> exitPublished r")
  case True
  then show ?thesis using assms keeps_refl by (auto simp: recordCatchUp_def split: if_splits)
next
  case False
  obtain x r1 w1 where app: "appendLocked o' others [CaughtUp pos elapsed now] r w = (x, r1, w1)"
    by (metis prod_cases3)
  have phase: "at_Phase (Attempt (agg_state (rb_aggregate r))) \<in> {PhaseBuilding, PhaseCaughtUp}" using assms(5) False by blast
  note kept = appendLocked_legal [OF assms(1,2) app assms(4) legal_CaughtUp [OF phase]]
  show ?thesis
  proof (cases x)
    case None
    then have r': "w' = w1" "rb_name r' = rb_name r1" "rb_aggregate r' = rb_aggregate r1"
      using assms(3) app False by (auto simp: recordCatchUp_def)
    show ?thesis using kept None r'(1) unfolding keeps_frame [OF r'(2,3)] by simp
  next
    case (Some err)
    then show ?thesis using assms(3) app False kept by (auto simp: recordCatchUp_def)
  qed
qed

lemma releaseClaim_keeps:
  assumes "displays w es" "follows es r" "rb_runner r \<noteq> uuid_nil"
    and "releaseClaim newV5 o' others now r w = (res, r', w')" "room (w_events (others w)) 2"
  shows "keeps es r' w'"
proof (cases "releases newV5 r")
  case True
  let ?s = "agg_state (rb_aggregate r)"
  have st: "at_Phase (Attempt ?s) \<noteq> PhaseNone" "Runner (Attempt ?s) = rb_runner r" "\<not> Released (Attempt ?s)"
    using True by (simp_all add: releases_def Let_def)
  have app: "appendLocked o' others [RunnerReleased (at_ID (Attempt ?s)) (Runner (Attempt ?s)) now] r w = (res, r', w')"
    using assms(4) True st(2) by (simp add: releaseClaim_def)
  have "Runner (Attempt ?s) \<noteq> uuid_nil" using st(2) assms(3) by simp
  from legal_Release [OF _ st(1) this st(3)] show ?thesis
    using appendLocked_legal [OF assms(1,2) app assms(5)] by blast
next
  case False
  then show ?thesis using assms keeps_refl by (simp add: releaseClaim_def)
qed

text \<open>Installing a view keeps the handle on a prefix.\<close>

lemma follows_install: "follows es r \<Longrightarrow> at_prefix newV5 n es k a \<Longrightarrow> follows es (r\<lparr>rb_aggregate := a\<rparr>)"
  by (auto simp: on_prefix_def)

lemma follows_cases:
  assumes "follows es r" "rb_name r' = rb_name r" "rb_aggregate r' = rb_aggregate r \<or> rb_aggregate r' = a"
    and "view_on newV5 n es b (Inr a)"
  shows "follows es r'"
  using assms unfolding on_prefix_def view_on_def by metis

lemma recordSlotDefeat_installs:
  "rb_name (recordSlotDefeat newV5 i j a r) = rb_name r
   \<and> (rb_aggregate (recordSlotDefeat newV5 i j a r) = rb_aggregate r \<or> rb_aggregate (recordSlotDefeat newV5 i j a r) = a)"
  by (auto simp: recordSlotDefeat_def recordTerminalStop_def Let_def split: option.splits)

lemma judgement_follows:
  assumes "follows es r" "view_on newV5 n es b loaded"
  shows "follows es (snd (resolveSlot newV5 i j slot lost loaded r))"
    and "follows es (endClassification newV5 i j slot loaded r)"
    and "follows es (observeReconciledPromotion newV5 loaded r)"
proof -
  have sd: "follows es (recordSlotDefeat newV5 i j a r)" if "loaded = Inr a" for a
    using follows_cases [OF assms(1), of "recordSlotDefeat newV5 i j a r" a b] recordSlotDefeat_installs assms(2) that by blast
  have st: "follows es (recordTerminalStop c r)" for c
    using follows_frame [of "recordTerminalStop c r" r es] assms(1) by (simp add: recordTerminalStop_def)
  show "follows es (snd (resolveSlot newV5 i j slot lost loaded r))"
    using assms(1) sd st by (auto simp: resolveSlot_def split: slot_fate.splits sum.splits)
  have "follows es (s\<lparr>classifying := False\<rparr>) = follows es s" for s by (rule follows_frame) simp_all
  then show "follows es (endClassification newV5 i j slot loaded r)"
    using assms(1) sd by (auto simp: endClassification_def split: sum.splits)
  show "follows es (observeReconciledPromotion newV5 loaded r)"
  proof (cases loaded)
    case (Inl err)
    then show ?thesis using assms(1) by (simp add: observeReconciledPromotion_def on_prefix_def)
  next
    case (Inr a)
    have "rb_name (observeReconciledPromotion newV5 loaded r) = rb_name r"
      "rb_aggregate (observeReconciledPromotion newV5 loaded r) = rb_aggregate r
       \<or> rb_aggregate (observeReconciledPromotion newV5 loaded r) = a"
      using Inr by (simp_all add: observeReconciledPromotion_def Let_def)
    then show ?thesis using follows_cases [OF assms(1)] assms(2) unfolding Inr by blast
  qed
qed

lemma reconciled_follows:
  assumes "follows es r" "view_on newV5 n es b (Inr a)" "reconcileLoaded newV5 i j a r = (v, r')"
  shows "follows es r'"
proof -
  have "rb_name r' = rb_name r" "rb_aggregate r' = rb_aggregate r \<or> rb_aggregate r' = a"
    using assms(3) by (auto simp: reconcileLoaded_def recordTerminalStop_def Let_def split: if_splits option.splits)
  then show ?thesis using follows_cases [OF assms(1)] assms(2) by blast
qed

section \<open>The steps\<close>

text \<open>The world shows the stream and every view is on a prefix of it.\<close>

definition accords :: "('db, 'c, 'x) run \<Rightarrow> lifecycle_event list \<Rightarrow> bool" where
  "accords z es \<longleftrightarrow> displays (rn_world z) es \<and> follows es (rn_handle z) \<and> views_on newV5 n es z"

abbreviation fair :: "('db, 'c, 'x) run \<Rightarrow> bool" where
  "fair \<equiv> fair_run room o' others"

lemma accordsI:
  "keeps es r' w' \<Longrightarrow> (\<And>es'. prefix es es' \<Longrightarrow> views_on newV5 n es' z') \<Longrightarrow> rn_handle z' = r' \<Longrightarrow> rn_world z' = w'
   \<Longrightarrow> \<exists>es'. prefix es es' \<and> accords z' es'"
  by (auto simp: carried_def accords_def)

lemma run_step_accords:
  assumes "run_step newV5 o' others i j z z'" "accords z es" "fair z" "j \<noteq> uuid_nil" "rb_runner (rn_handle z) = j"
  shows "\<exists>es'. prefix es es' \<and> accords z' es'"
proof -
  have d: "displays (rn_world z) es" and f: "follows es (rn_handle z)" and v: "views_on newV5 n es z"
    using assms(2) by (simp_all add: accords_def)
  have name: "rb_name (rn_handle z) = n" using f by (simp add: on_prefix_def)
  have vm: "views_on newV5 n es' z" if "prefix es es'" for es' using views_on_mono [OF v that] .
  have rec [simp]: "view_on newV5 n es' 0 (reconcile_view (rn_reconcile z))" if "prefix es es'" for es'
    using vm [OF that] by (simp add: views_on_def)
  have room: "room (w_events (others (rn_world z))) 2" using roomy_next assms(3) by (simp add: fair_run_def)
  have still: ?thesis
    if "rn_world z' = rn_world z" "rb_name (rn_handle z') = rb_name (rn_handle z)"
      "rb_aggregate (rn_handle z') = rb_aggregate (rn_handle z)" "\<And>es'. prefix es es' \<Longrightarrow> views_on newV5 n es' z'"
    using that d f by (auto simp: accords_def on_prefix_def)
  have kept: ?thesis if "keeps es (rn_handle z') (rn_world z')" "\<And>es'. prefix es es' \<Longrightarrow> views_on newV5 n es' z'"
    using accordsI [OF that] by blast
  have cut: "keeps es (rn_handle z) w'" if "keeps es r1 w1" "w' \<in> {others (rn_world z), w1}" for r1 w1 w'
    using that keeps_others [OF d f] follows_mono [OF f] by (auto simp: carried_def)
  have reads: ?thesis
    if "fold_reads newV5 o' ctx n to (others (rn_world z)) loaded" "to \<le> max_int64" "rn_world z' = others (rn_world z)"
      "rn_handle z' = rn_handle z" "\<And>es'. prefix es es' \<Longrightarrow> view_on newV5 n es' 0 loaded \<Longrightarrow> views_on newV5 n es' z'"
    for ctx to loaded
  proof -
    obtain es' where es': "displays (others (rn_world z)) es'" "prefix es es'" using displays_others [OF d] .
    have "view_on newV5 n es' 0 loaded"
      using hydrateFresh_view [OF es'(1) that(2,1)] by (auto simp: view_on_def split: if_splits)
    then show ?thesis using that es' follows_mono [OF f] by (auto simp: accords_def)
  qed
  show ?thesis
    using assms(1)
  proof cases
    case (record_catch_up pos elapsed now res r' w')
    have "keeps es r' w'"
      using recordCatchUp_keeps [OF d f record_catch_up(3) room] assms(3) record_catch_up(2)
      by (simp add: fair_run_def catches_up_in_phase_def)
    moreover have "keeps es (stop_processor r') w' = keeps es r' w'" by (rule keeps_frame) simp_all
    ultimately show ?thesis using record_catch_up(1) by (intro kept) (auto simp: views_on_def)
  next
    case (cut_catch_up pos c elapsed now r' w1 w')
    have "keeps es r' w1"
      using recordCatchUp_keeps [OF d f cut_catch_up(4) room] assms(3) cut_catch_up(2)
      by (simp add: fair_run_def catches_up_in_phase_def)
    then show ?thesis using cut [OF _ cut_catch_up(5)] cut_catch_up(1) by (intro kept) (auto simp: views_on_def)
  next
    case (promote now res r' w')
    then show ?thesis using Promote_keeps [OF d f promote(3) room] by (intro kept) (auto simp: views_on_def)
  next
    case (cut_promote c now r' w1 w')
    have "keeps es r' w1" using Promote_keeps [OF d f cut_promote(4) room] by blast
    then show ?thesis using cut [OF _ cut_promote(5)] cut_promote(1) by (intro kept) (auto simp: views_on_def)
  next
    case (fold_slot slot lost loaded)
    then show ?thesis using assms(3) name
      by (intro reads [of "reconciliation_ctx z" slot loaded]) (auto simp: views_on_def fair_run_def slots_in_range_def)
  next
    case (resolve_slot slot lost loaded pc r')
    have "follows es r'" using judgement_follows(1) [OF f, of 0 loaded i j slot lost] v resolve_slot by (simp add: views_on_def)
    moreover have "pc_view pc = Inl Nil_error"
      using resolveSlot_touches [OF resolve_slot(3)] by auto
    ultimately show ?thesis using resolve_slot(1) d keepsI by (intro kept) (auto simp: views_on_def)
  next
    case (retry slot lost now res r' w' ctxErr)
    have "keeps es r' w'" using Promote_keeps [OF d f retry(3) room] by blast
    moreover have "keeps es (unregisterRetry r') w' = keeps es r' w'" by (rule keeps_frame) (simp_all add: unregisterRetry_def)
    ultimately show ?thesis using retry(1) by (intro kept) (auto simp: views_on_def)
  next
    case (cut_retry slot lost c now r' w1 w' res)
    have "keeps es r' w1" using Promote_keeps [OF d f cut_retry(4) room] by blast
    then have "keeps es (rn_handle z) w'" using cut [OF _ cut_retry(5)] by blast
    moreover have "keeps es (unregisterRetry (rn_handle z)) w' = keeps es (rn_handle z) w'"
      by (rule keeps_frame) (simp_all add: unregisterRetry_def)
    ultimately show ?thesis using cut_retry(1) by (intro kept) (auto simp: views_on_def)
  next
    case (observe_read loaded)
    then show ?thesis using name
      by (intro reads [of "reconciliation_ctx z" 0 loaded]) (auto simp: views_on_def max_int64_def)
  next
    case (observe loaded)
    have "follows es (observeReconciledPromotion newV5 loaded (rn_handle z))"
      using judgement_follows(3) [OF f, of 0 loaded] v observe(2) by (simp add: views_on_def)
    then show ?thesis using observe(1) d keepsI by (intro kept) (auto simp: views_on_def)
  next
    case (classify_read res slot loaded)
    then show ?thesis using assms(3) name
      by (intro reads [of "classification_ctx z" slot loaded]) (auto simp: views_on_def fair_run_def slots_in_range_def)
  next
    case (classified res slot loaded)
    have "follows es (endClassification newV5 i j slot loaded (rn_handle z))"
      using judgement_follows(2) [OF f, of 0 loaded] v classified(2) by (simp add: views_on_def)
    then show ?thesis using classified(1) d keepsI by (intro kept) (auto simp: views_on_def)
  next
    case (release res now err r' w')
    have "keeps es r' w'" using releaseClaim_keeps [OF d f _ release(3) room] assms(4,5) by simp
    then show ?thesis using release(1) by (intro kept) (auto simp: views_on_def)
  next
    case (cut_release res now r' w1 w')
    have "keeps es r' w1" using releaseClaim_keeps [OF d f _ cut_release(4) room] assms(4,5) by simp
    then show ?thesis using cut [OF _ cut_release(5)] cut_release(1) by (intro kept) (auto simp: views_on_def)
  qed (rule still; auto simp: views_on_def registerRetry_def claimStopOrder_def beginClassification_def processorExit_def
      split: option.splits if_splits; fail)+
qed

lemma reconcile_step_accords:
  assumes "reconcile_step newV5 o' others i j z z'" "accords z es"
  shows "\<exists>es'. prefix es es' \<and> accords z' es'"
proof -
  have d: "displays (rn_world z) es" and f: "follows es (rn_handle z)" and v: "views_on newV5 n es z"
    using assms(2) by (simp_all add: accords_def)
  have name: "rb_name (rn_handle z) = n" using f by (simp add: on_prefix_def)
  have here: ?thesis if "accords z' es" using that by blast
  show ?thesis
    using assms(1)
  proof cases
    case (reconcile_loads loaded)
    obtain es' where es': "displays (others (rn_world z)) es'" "prefix es es'" using displays_others [OF d] .
    have "view_on newV5 n es' 0 loaded"
      using hydrateFresh_view [OF es'(1) _ reconcile_loads(3) [unfolded name]] by (auto simp: view_on_def max_int64_def)
    then have "accords z' es'"
      using reconcile_loads(1) es' follows_mono [OF f] views_on_mono [OF v] by (simp add: accords_def views_on_def)
    then show ?thesis using es' by blast
  next
    case (reconcile_fails err ctxErr u r')
    have "rb_name r' = rb_name (rn_handle z)" "rb_aggregate r' = rb_aggregate (rn_handle z)"
      using reconcile_fails(4) by (auto simp: reconcileFailed_def recordTerminalStop_def split: if_splits)
    then have "follows es r'" using f by (simp add: on_prefix_def)
    then show ?thesis using reconcile_fails(1) d v by (intro here) (simp add: accords_def views_on_def)
  next
    case (reconcile_judges a u r')
    have "view_on newV5 n es 0 (Inr a)" using v reconcile_judges(2) by (simp add: views_on_def)
    then have "follows es r'" using reconciled_follows [OF f _ reconcile_judges(3)] by blast
    then show ?thesis using reconcile_judges(1) d v by (intro here) (simp add: accords_def views_on_def)
  qed (use d f v in \<open>intro here, simp add: accords_def views_on_def on_prefix_def\<close>)+
qed

lemma legal_command:
  "sound st \<Longrightarrow> command_refusal cmd st = None \<Longrightarrow> \<exists>s'. legal st (command_event cmd st) s'"
  using legal_Rollback legal_Abandon by (cases cmd) (simp_all add: command_refusal_def command_event_def)

lemma command_in_flight: "command_refusal cmd st = None \<Longrightarrow> at_Phase (Attempt st) \<noteq> PhaseNone"
  using inflight_refusals [of st] by (cases cmd) (auto simp: command_refusal_def)

lemma command_step_accords:
  assumes "command_step newV5 o' others z z'" "accords z es" "fair z"
  shows "\<exists>es'. prefix es es' \<and> accords z' es'"
proof -
  have d: "displays (rn_world z) es" and f: "follows es (rn_handle z)" and v: "views_on newV5 n es z"
    using assms(2) by (simp_all add: accords_def)
  have roomy: "roomy room o' others (rn_world z)" using assms(3) by (simp add: fair_run_def)
  have same: "rn_pc z' = rn_pc z" "rn_reconcile z' = rn_reconcile z" using command_step_touches [OF assms(1)] by simp_all
  have kept: ?thesis if "keeps es (rn_handle z') (rn_world z')"
    using accordsI [OF that, of z'] views_on_mono [OF v] same by (simp add: views_on_def)
  show ?thesis
    using assms(1)
  proof cases
    case (command_promotes now res r' w')
    then show ?thesis using Promote_keeps [OF d f command_promotes(2) roomy_next(1) [OF roomy]] by (intro kept) simp
  next
    case (command_commits k cmd res r' w')
    have "keeps es r' w'"
      using recordTerminal_keeps [OF d f command_commits(4) roomy_next(2) [OF roomy]] legal_command command_in_flight by blast
    then show ?thesis using command_commits(1) by (intro kept) simp
  next
    case (command_announced cmd)
    then show ?thesis using keeps_refl [OF d f] keeps_frame [of "pauseRetries (rn_handle z)" "rn_handle z"]
      by (intro kept) (simp add: handle_frame)
  next
    case (command_stops k)
    then show ?thesis using keeps_refl [OF d f] keeps_frame [of "stop_processor (rn_handle z)" "rn_handle z"]
      by (intro kept) simp
  next
    case (command_returns k)
    then show ?thesis using keeps_refl [OF d f] by (intro kept) simp
  next
    case (command_withdrawn k)
    then show ?thesis using keeps_refl [OF d f] keeps_frame [of "resumeRetries (rn_handle z)" "rn_handle z"]
      by (intro kept) (simp add: handle_frame)
  qed
qed

lemma retire_step_accords:
  assumes "retire_step newV5 o' others z z'" "accords z es" "fair z"
  shows "\<exists>es'. prefix es es' \<and> accords z' es'"
  using assms(1)
proof cases
  case (command_retires opts now res r' w')
  have d: "displays (rn_world z) es" and f: "follows es (rn_handle z)" and v: "views_on newV5 n es z"
    using assms(2) by (simp_all add: accords_def)
  have "roomy room o' others (rn_world z)" using assms(3) by (simp add: fair_run_def)
  from Retire_outcome [OF d f command_retires(2) this, of now] have "keeps es r' w'"
    using command_retires(3) by (auto simp: retired_outcome_def)
  then show ?thesis
    using accordsI [of es r' w' z'] views_on_mono [OF v] command_retires(1) by (simp add: views_on_def)
qed

lemma remaining_steps_accord:
  assumes "processor_step z z' \<or> outside_step others z z'" "accords z es"
  shows "\<exists>es'. prefix es es' \<and> accords z' es'"
proof -
  have d: "displays (rn_world z) es" and f: "follows es (rn_handle z)" and v: "views_on newV5 n es z"
    using assms(2) by (simp_all add: accords_def)
  obtain es' where es': "displays (others (rn_world z)) es'" "prefix es es'" using displays_others [OF d] .
  consider "processor_step z z'" | "outside_step others z z'" using assms(1) by blast
  then show ?thesis
  proof cases
    case 1
    then show ?thesis
      using d f v by cases (auto simp: accords_def views_on_def on_prefix_def claimReturn_def publishProcessorExit_def)
  next
    case 2
    then show ?thesis
    proof cases
      case elsewhere_writes
      then have "accords z' es'"
        using es' follows_mono [OF f es'(2)] views_on_mono [OF v es'(2)] by (simp add: accords_def views_on_def)
      then show ?thesis using es'(2) by blast
    next
      case (processor_works x c)
      have "displays ((rn_world z)\<lparr>w_checkpoints := c, w_rest := x\<rparr>) es"
        using d by (simp add: shows_stream_def)
      then show ?thesis using processor_works f v by (intro exI [of _ es]) (simp add: accords_def views_on_def)
    qed (use d f v in \<open>intro exI [of _ es], simp add: accords_def views_on_def\<close>)+
  qed
qed

lemma step_accords:
  assumes "step newV5 o' others i j z z'" "accords z es" "fair z" "j \<noteq> uuid_nil" "rb_runner (rn_handle z) = j"
  shows "\<exists>es'. prefix es es' \<and> accords z' es'"
  using assms(1) unfolding step_def own_step_def
  using run_step_accords [OF _ assms(2-5)] reconcile_step_accords [OF _ assms(2)] command_step_accords [OF _ assms(2,3)]
    retire_step_accords [OF _ assms(2,3)] remaining_steps_accord [OF _ assms(2)] by blast

lemma fair_steps_accord:
  assumes "(fair_step room newV5 o' others i j)\<^sup>*\<^sup>* z z'" "accords z es" "j \<noteq> uuid_nil" "run_identity i j z"
  shows "\<exists>es'. prefix es es' \<and> accords z' es' \<and> run_identity i j z'"
  using assms(1)
proof (induction rule: rtranclp_induct)
  case base
  then show ?case using assms(2,4) by blast
next
  case (step y z')
  then obtain es1 where es1: "prefix es es1" "accords y es1" "run_identity i j y" by blast
  have st: "step newV5 o' others i j y z'" "fair y" using step(2) by (simp_all add: fair_step_def)
  have "rb_runner (rn_handle y) = j" using es1(3) by (simp add: run_identity_def Let_def)
  then obtain es' where "prefix es1 es'" "accords z' es'" using step_accords [OF st(1) es1(2) st(2) assms(3)] by blast
  then show ?case using es1(1) prefix_order.trans step_identity [OF st(1) es1(3)] by blast
qed

lemma begin_accords:
  assumes "displays w es" "follows es r"
  shows "accords (begin_run attempt r w) es"
  using assms by (simp add: accords_def begin_run_def views_on_def)

end

end
