(* ===== verification/RetireViews.thy ===== *)
theory RetireViews
  imports RetireProps
begin

text \<open>
  A retirement only advances its handle's view of the stream, whatever comes of it: its refolds read
  the tip of a stream that only grows, and its appends start from the view.
\<close>

context lifecycle_world begin

lemma append_advances:
  assumes "displays w es" "at_prefix newV5 n es k (rb_aggregate r)" "evs \<noteq> []" "length evs \<le> 2"
    and "appendLocked o' others evs r w = (res, r', w')" "room (w_events (others w)) 2"
  shows "agg_version (rb_aggregate r) \<le> agg_version (rb_aggregate r')"
proof -
  obtain es' where es': "displays (others w) es'" "prefix es es'" using displays_others [OF assms(1)] .
  have at: "at_prefix newV5 n es' k (rb_aggregate r)" by (rule at_prefix_mono [OF assms(2) es'(2)])
  obtain sres saved db where save: "ES_Save lifecycle_domain s (w_events (others w)) (Some (Append evs (rb_aggregate r))) None
      = (sres, saved, db)" by (metis prod_cases3)
  have d: "valid (w_events (others w))" "stream newV5 n (w_events (others w)) = Some es'"
    using es'(1) by (simp_all add: shows_stream_def)
  note eff = save_prefix [OF d(1) assms(6) d(2) at assms(3,4) save]
  have "agg_version (Append evs (rb_aggregate r)) = agg_version (rb_aggregate r)"
    using at_prefix_Append(2) [OF at assms(3)] at by (simp add: at_prefix_def)
  then show ?thesis
    using assms(5) save eff at
    by (auto simp: appendLocked_def authority Let_def at_prefix_def DiscardUnsavedEvents_def clearUnsavedEvents_def
        split: option.splits)
qed

lemma recordRetirement_advances:
  assumes "displays w es" "at_prefix newV5 n es k (rb_aggregate r)"
    and "recordRetirement o' others prev receipts r w = (res, r', w')" "room (w_events (others w)) 2"
  shows "agg_version (rb_aggregate r) \<le> agg_version (rb_aggregate r')"
proof -
  obtain err where "appendLocked o' others [PreviousRetired prev receipts] r w = (err, r', w')"
    using assms(3) by (auto simp: recordRetirement_def split: prod.splits)
  from append_advances [OF assms(1,2) _ _ this assms(4)] show ?thesis by simp
qed

lemma tearDown_advances:
  assumes "displays w es" "at_prefix newV5 n es k (rb_aggregate r)"
    and "tearDown o' others teardown prev receipts r w = (res, r', w')"
    and ahead: "\<And>v. moments o' others w 0 v \<Longrightarrow> room (w_events v) 2"
  shows "agg_version (rb_aggregate r) \<le> agg_version (rb_aggregate r')"
proof -
  obtain w4 es2 where w4: "displays w4 es2" "prefix es es2" "moments o' others w 0 w4"
    and out: "r' = r \<and> w' = w4 \<and> res \<noteq> None \<or> recordRetirement o' others prev receipts r w4 = (res, r', w')"
    by (rule tearDown_displays [OF assms(1,3)])
  have room: "room (w_events (others w4)) 2" by (rule ahead [OF moments.other [OF w4(3)]])
  from out show ?thesis
    using recordRetirement_advances [OF w4(1) at_prefix_mono [OF assms(2) w4(2)] _ room] by auto
qed

lemma reattestReservation_advances:
  assumes "displays w es" "follows es r" "reattestReservation newV5 o' others prev r w = Some (res, r', w')"
  shows "agg_version (rb_aggregate r) \<le> agg_version (rb_aggregate r')"
proof -
  have name: "rb_name r = n" using assms(2) by (simp add: on_prefix_def)
  obtain k where k: "at_prefix newV5 n es k (rb_aggregate r)" using assms(2) by (auto simp: on_prefix_def)
  obtain es' where es': "displays (others w) es'" "prefix es es'" using displays_others [OF assms(1)] .
  have d: "valid (w_events (others w))" "stream newV5 n (w_events (others w)) = Some es'"
    using es'(1) by (simp_all add: shows_stream_def)
  have "rb_aggregate r' = rb_aggregate r \<or> hydrateFresh newV5 o' n 0 (w_events (others w)) = Some (Inr (rb_aggregate r'))"
    using assms(3) name
    by (auto simp: reattestReservation_def Let_def split: option.splits sum.splits if_splits prod.splits)
  moreover have "length es \<le> length es'" using es'(2) by (rule prefix_length_le)
  ultimately show ?thesis
    using hydrateFresh_prefix [OF d authority, of 0] k by (auto simp: at_prefix_def max_int64_def)
qed

lemma reservation_advances:
  assumes "calm w es 0 w3 es3" "rb_name r = n" "at_prefix newV5 n es3 k (rb_aggregate r)"
    and "k = length es3 \<Longrightarrow> clean (es3 @ [ev])" and room: "roomy room o' others w"
    and "(case appendLocked o' others [ev] r w3 of
      (Some err, r1, w4) \<Rightarrow> Some (f err, r1, w4)
    | (None, r1, w4) \<Rightarrow> (case reattestReservation newV5 o' others prev r1 w4 of
        None \<Rightarrow> None
      | Some (Inl err, r2, w5) \<Rightarrow> Some (Some err, r2, w5)
      | Some (Inr receipts', r2, w5) \<Rightarrow> Some (tearDown o' others teardown prev receipts' r2 w5))) = Some (res, r', w')"
  shows "agg_version (rb_aggregate r) \<le> agg_version (rb_aggregate r')"
proof -
  obtain err r1 w4 where app: "appendLocked o' others [ev] r w3 = (err, r1, w4)" by (metis prod_cases3)
  obtain es4 where four: "calm w es 1 w4 es4" "follows es4 r1" using reserve_calm [OF assms(1-5) app] by blast
  have w3: "displays w3 es3" "moments o' others w 0 w3" using assms(1) by (simp_all add: calm_def)
  have "room (w_events (others w3)) 2" using moments.other [OF w3(2)] room by (simp add: roomy_def)
  then have v1: "agg_version (rb_aggregate r) \<le> agg_version (rb_aggregate r1)"
    using append_advances [OF w3(1) assms(3) _ _ app] by simp
  show ?thesis
  proof (cases err)
    case (Some e)
    then show ?thesis using assms(6) app v1 by auto
  next
    case None
    have d4: "displays w4 es4" using four(1) by (simp add: calm_def)
    obtain rres r2 w5 where re: "reattestReservation newV5 o' others prev r1 w4 = Some (rres, r2, w5)"
      by (rule reattestReservation_returns [OF d4 four(2)])
    have v2: "agg_version (rb_aggregate r1) \<le> agg_version (rb_aggregate r2)"
      by (rule reattestReservation_advances [OF d4 four(2) re])
    obtain es5 where five: "calm w4 es4 0 w5 es5" "follows es5 r2"
      by (rule reattestReservation_calm [OF d4 four(2) re]) blast
    obtain k2 where k2: "at_prefix newV5 n es5 k2 (rb_aggregate r2)" using five(2) by (auto simp: on_prefix_def)
    have d5: "displays w5 es5" "moments o' others w 1 w5"
      using calm_trans [OF four(1) five(1)] by (simp_all add: calm_def)
    have ahead: "room (w_events v) 2" if "moments o' others w5 0 v" for v
      using moments_trans [OF that d5(2)] room by (simp add: roomy_def)
    show ?thesis
    proof (cases rres)
      case (Inl e)
      then show ?thesis using assms(6) app None re v1 v2 by auto
    next
      case (Inr rs)
      then have "tearDown o' others teardown prev rs r2 w5 = (res, r', w')" using assms(6) app None re by simp
      from tearDown_advances [OF d5(1) k2 this ahead] show ?thesis using v1 v2 by simp
    qed
  qed
qed

lemma retirePrevious_advances:
  assumes "displays w es" "rb_name r = n" "at_prefix newV5 n es k (rb_aggregate r)"
    and st: "st = agg_state (rb_aggregate r)" "Version (Previous (Attempt st)) \<noteq> 0" "valid_override ov"
    and room: "roomy room o' others w"
    and run: "retirePrevious newV5 o' others now ov r w = Some (res, r', w')"
  shows "agg_version (rb_aggregate r) \<le> agg_version (rb_aggregate r')"
proof -
  let ?prev = "Previous (Attempt st)"
  obtain es1 where one: "calm w es 0 (others w) es1" using calm_others [OF assms(1)] .
  obtain handler x where h: "oc_Handler o' ?prev (w_rest (others w)) = (handler, x)" by fastforce
  define w2 where "w2 = (others w)\<lparr>w_rest := x\<rparr>"
  have "calm (others w) es1 0 w2 es1"
    using calm_factory [of "others w" es1 ?prev] one h by (simp add: w2_def calm_def)
  then have two: "calm w es 0 w2 es1" using calm_trans [OF one] by fastforce
  show ?thesis
  proof (cases "\<exists>hd teardown required wits. handler = Inr hd \<and> eh_Teardown hd = Some teardown
      \<and> requiredWitnesses st ov = Inr required \<and> resolveWitnesses o' required = Inr wits")
    case False
    then have "r' = r"
      using run h by (auto simp: retirePrevious_def Let_def w2_def st(1) split: sum.splits option.splits)
    then show ?thesis by simp
  next
    case True
    then obtain hd teardown required wits where ok: "handler = Inr hd" "eh_Teardown hd = Some teardown"
        "requiredWitnesses st ov = Inr required" "resolveWitnesses o' required = Inr wits" by blast
    obtain ares w3 where att: "attest others wits required (st_Name st) (live_cutover st) w2 = (ares, w3)" by fastforce
    obtain es3 where "calm w2 es1 0 w3 es3" using calm_attest [OF _ att] two unfolding calm_def by blast
    then have three: "calm w es 0 w3 es3" using calm_trans [OF two] by fastforce
    have at3: "at_prefix newV5 n es3 k (rb_aggregate r)"
      using at_prefix_mono [OF assms(3)] three by (simp add: calm_def)
    show ?thesis
    proof (cases ares)
      case (Inl e)
      then show ?thesis using run h ok att by (simp add: retirePrevious_def Let_def st(1) [symmetric] w2_def)
    next
      case (Inr rs)
      have rs: "rs = vouched required (live_cutover st)" using attest_vouched [OF ok(4) att] Inr by simp
      show ?thesis
      proof (cases "at_Phase (Attempt st) = PhasePromoted")
        case True
        have "clean (es3 @ [RetireStarted ?prev (Generation (RetirementPolicy st)) required rs ov now])" if "k = length es3"
          using clean_reserved [OF three at3 that st(1,2) True st(3) ok(3)] rs by simp
        from reservation_advances [OF three assms(2) at3 this room] show ?thesis
          using run h ok att Inr True by (simp add: retirePrevious_def Let_def st(1) [symmetric] w2_def)
      next
        case False
        have ahead: "room (w_events v) 2" if "moments o' others w3 0 v" for v
          using moments_trans [OF that, of w 0] three room by (simp add: roomy_def calm_def)
        have "tearDown o' others teardown ?prev rs r w3 = (res, r', w')"
          using run h ok att Inr False by (simp add: retirePrevious_def Let_def st(1) [symmetric] w2_def)
        moreover have "displays w3 es3" using three by (simp add: calm_def)
        ultimately show ?thesis using tearDown_advances [OF _ at3 _ ahead] by blast
      qed
    qed
  qed
qed

lemma Retire_advances:
  assumes "displays w es" "follows es r"
    and opts: "\<forall>opt \<in> set opts. \<exists>actor reason. opt = Some (WithRetirementOverride actor reason)"
    and room: "roomy room o' others w"
    and run: "Retire newV5 o' others now opts r w = Some (res, r', w')"
  shows "agg_version (rb_aggregate r) \<le> agg_version (rb_aggregate r')"
proof -
  have name: "rb_name r = n" using assms(2) by (simp add: on_prefix_def)
  obtain k where k: "at_prefix newV5 n es k (rb_aggregate r)" using assms(2) by (auto simp: on_prefix_def)
  define config where "config = fold (\<lambda>opt. the opt) opts \<lparr>rt_override = zero_override, rt_optionErr = None\<rparr>"
  have override: "valid_override (rt_override config)" unfolding config_def by (rule overrides_valid [OF opts])
  obtain es1 res0 r1 where refold: "refoldLocked newV5 o' others r w = Some (res0, r1, others w)"
      "displays (others w) es1" "prefix es es1"
    and r1: "res0 \<noteq> None \<and> r1 = r \<and> es1 = [] \<or>
     r1 = r\<lparr>rb_aggregate := rb_aggregate r1\<rparr> \<and> at_prefix newV5 n es1 (length es1) (rb_aggregate r1)
       \<and> res0 = checkLifecycleAggregate newV5 (rb_aggregate r1) n"
    by (rule refoldLocked_displays [OF assms(1) name])
  have v1: "agg_version (rb_aggregate r) \<le> agg_version (rb_aggregate r1)"
    using r1 k prefix_length_le [OF refold(3)] by (auto simp: at_prefix_def)
  let ?st = "agg_state (rb_aggregate r1)"
  show ?thesis
  proof (cases "res0 = None")
    case False
    then have "r' = r \<or> r' = r1" using run refold(1) by (auto simp: Retire_def Let_def split: if_splits)
    then show ?thesis using v1 by auto
  next
    case True
    then have at: "at_prefix newV5 n es1 (length es1) (rb_aggregate r1)" using r1 by simp
    have n1: "rb_name r1 = n" using r1 name by (metis rebuild.select_convs(1) rebuild.surjective rebuild.update_convs(2))
    have room1: "roomy room o' others (others w)"
      using moments_trans [OF _ moments.other [OF moments.begins]] room unfolding roomy_def by fastforce
    have ahead: "room (w_events (others (others w))) 2"
      using room1 moments.other [OF moments.begins] unfolding roomy_def by blast
    have "r' = r \<or> r' = r1
      \<or> recordRetirement o' others (Previous (Attempt ?st)) [] r1 (others w) = (res, r', w')
      \<or> Version (Previous (Attempt ?st)) \<noteq> 0
        \<and> retirePrevious newV5 o' others now (rt_override config) r1 (others w) = Some (res, r', w')"
      using run refold(1) True unfolding Retire_def config_def Let_def
      by (auto split: if_splits phase.splits)
    then show ?thesis
      using v1 recordRetirement_advances [OF refold(2) at _ ahead]
        retirePrevious_advances [OF refold(2) n1 at refl _ override room1] by (auto intro: order_trans)
  qed
qed

end

end
