(* ===== verification/RunVerdict.thy ===== *)
theory RunVerdict
  imports RunWorld RetireViews
begin

text \<open>
  The verdicts of a run are true. A run that reports a displacement was displaced: since its claim the
  stream has recorded another runner's claim of the same attempt. A run that was stopped for no cause
  saw its attempt end. The verdicts read at the slot of a lost append rest on what an append's error
  tells, so \<open>run_world\<close> adds to \<open>lifecycle_world\<close> that no encoding error poses as a version mismatch.
\<close>

section \<open>What the stream shows since the claim\<close>

definition ended_since :: "nat \<Rightarrow> uuid \<Rightarrow> lifecycle_event list \<Rightarrow> bool" where
  "ended_since b i es \<longleftrightarrow> (\<exists>k. b \<le> k \<and> k \<le> length es \<and> at_ID (Attempt (lifecycle_fold (take k es))) \<noteq> i)"

definition displaced_since :: "nat \<Rightarrow> uuid \<Rightarrow> uuid \<Rightarrow> lifecycle_event list \<Rightarrow> bool" where
  "displaced_since b i j es \<longleftrightarrow> (\<exists>k. b \<le> k \<and> k \<le> length es \<and> at_ID (Attempt (lifecycle_fold (take k es))) = i
     \<and> Runner (Attempt (lifecycle_fold (take k es))) \<noteq> j)"

lemma since_mono:
  assumes "prefix es es'"
  shows "ended_since b i es \<Longrightarrow> ended_since b i es'" "displaced_since b i j es \<Longrightarrow> displaced_since b i j es'"
proof -
  have "take k es = take k es'" if "k \<le> length es" for k using assms that by (auto simp: prefix_def)
  moreover have "length es \<le> length es'" using assms by (simp add: prefix_length_le)
  ultimately show "ended_since b i es \<Longrightarrow> ended_since b i es'" "displaced_since b i j es \<Longrightarrow> displaced_since b i j es'"
    unfolding ended_since_def displaced_since_def by (metis order_trans)+
qed

section \<open>Slots of lost appends\<close>

text \<open>The slots a lost append may be judged by: where it was defeated, or where it contended.\<close>

definition lost_slots :: "go_error \<Rightarrow> typeid \<Rightarrow> int64 set" where
  "lost_slots lost stream = set_option (lostSlot lost stream)
     \<union> (if SaveOutcome (Some lost) = AppendOutcomeUnknown then set_option (as_append_error lost) else {})"

lemma lost_slots_plain [simp]:
  "lost_slots (Text m) st = {}" "lost_slots (Sentinel x) st = {}" "lost_slots (fmt_wrap m (Sentinel x)) st = {}"
  by (simp_all add: lost_slots_def lostSlot_def defeatSlot_def fmt_wrap_def)

lemma lostSlot_in: "lostSlot lost st = Some slot \<Longrightarrow> slot \<in> lost_slots lost st"
  by (simp add: lost_slots_def)

locale run_world =
  lifecycle_world readStream nxt appendStream view valid room healthy s newV5 n o' others
  for readStream :: "'db \<Rightarrow> typeid \<Rightarrow> read_stream_options \<Rightarrow> 'i result" and nxt appendStream view
    and valid :: "'db \<Rightarrow> bool" and room healthy and s :: "('db, 'i) lifecycle_store"
    and newV5 :: "uuid \<Rightarrow> string \<Rightarrow> uuid" and n :: string
    and o' :: "('db, 'i, 'g, 'c, 'x, 'p) orchestrator"
    and others :: "('db, 'c, 'x) world \<Rightarrow> ('db, 'c, 'x) world" +
  assumes encoding: "MarshalDomainEvent (domainEventCodec s) e = Inl err \<Longrightarrow> as_mismatch err = None"
begin

lemma writable_events_mismatch:
  "writable_events lifecycle_domain (domainEventCodec s) aid us = Inl e \<Longrightarrow> as_mismatch e = None"
  by (induction us) (auto dest: encoding simp: withSaveOutcome_def split: if_splits sum.splits)

text \<open>
  The error of a save that may have been defeated names the version the save expected, and a save
  whose outcome is unknown was within bounds.
\<close>

lemma save_error_slot:
  assumes "valid db" "room db (length (unsavedEvents a))" "unsavedEvents a \<noteq> []"
    and "ES_Save lifecycle_domain s db (Some a) None = (Some e, a', db')"
    and "SaveOutcome (Some e) \<noteq> AppendOutcomeAppended"
  shows "(\<forall>i x y. as_mismatch e = Some (i, x, y) \<longrightarrow> x = agg_version a \<and> 0 \<le> x \<and> x < max_int64)
    \<and> (SaveOutcome (Some e) = AppendOutcomeUnknown \<longrightarrow> 0 \<le> agg_version a \<and> agg_version a < max_int64)"
proof -
  let ?aid = "agg_id a" and ?v = "agg_version a"
  let ?ao = "\<lparr>ExpectVersion = VersionPtr ?v, StreamMustNotExist = False\<rparr>"
  have outc: "SaveOutcome (Some (Wrap k (withSaveOutcome ErrNoEventsAppended x))) = AppendOutcomeNothingAppended" for k x
    by (simp add: outcome_simps resolved_def)
  have app: "SaveOutcome (Some (Wrap k (withSaveOutcome ErrEventsAppended x))) = AppendOutcomeAppended" for k x
    by (simp add: outcome_simps resolved_def)
  show ?thesis
  proof (cases "?v < 0 \<or> max_int64 - ?v < int (length (unsavedEvents a))")
    case True
    then show ?thesis using assms(3,4) outc
      by (cases "?v < 0") (auto simp: ES_Save_def writer withSaveOutcome_def)
  next
    case bounds: False
    have len: "0 < length (unsavedEvents a)" using assms(3) by simp
    have range: "0 \<le> ?v" "?v < max_int64" using bounds len by linarith+
    show ?thesis
    proof (cases "writable_events lifecycle_domain (domainEventCodec s) ?aid (unsavedEvents a)")
      case (Inl err)
      then have "e = err" using assms(3,4) bounds by (auto simp: ES_Save_def writer)
      then show ?thesis using writable_events_mismatch [OF Inl] range by simp
    next
      case (Inr ws)
      have room: "room db (length ws)" using assms(2) list_all2_lengthD [OF writable_events_ok [OF Inr]] by simp
      obtain res db1 where ap: "appendStream db ?aid ws ?ao = (res, db1)" by fastforce
      obtain f where f: "res = Inl f" "as_mismatch e = as_mismatch f"
        using assms(3-5) bounds Inr ap app
        by (cases res; cases "apply_queue lifecycle_domain (clearUnsavedEvents (fold willApply
              (queued_events (unsavedEvents a) (projr res)) a))")
          (auto simp: ES_Save_def writer withSaveOutcome_def Let_def split: if_splits option.splits)
      have "x = ?v" if m: "as_mismatch f = Some (i, x, y)" for i x y
      proof (cases "append_refusal ?aid (view_tip (view db ?aid)) ?ao")
        case None
        then show ?thesis using append_failed [OF assms(1) room None, of f] ap f(1) m by (simp add: is_mismatch_def)
      next
        case (Some g)
        then have "f = g" using append_refused [OF assms(1) room Some] ap f(1) by simp
        moreover have "as_mismatch g = Some (?aid, ?v, view_tip (view db ?aid))"
          using Some by (auto simp: append_refusal_def VersionPtr_def split: if_splits)
        ultimately show ?thesis using m by simp
      qed
      then show ?thesis using f(2) range by metis
    qed
  qed
qed

text \<open>So the slot of a lost append is the one past the handle's view.\<close>

lemma appendLocked_slot:
  assumes "displays w es" "follows es r" "evs \<noteq> []" "length evs \<le> 2" "room (w_events (others w)) 2"
    and "appendLocked o' others evs r w = (Some err, r', w')" "slot \<in> lost_slots err (lifecycleStream newV5 r)"
  shows "slot = agg_version (rb_aggregate r) + 1"
proof -
  let ?a = "Append evs (rb_aggregate r)" and ?v = "agg_version (rb_aggregate r)" and ?db = "w_events (others w)"
  obtain k where k: "at_prefix newV5 n es k (rb_aggregate r)" using assms(2) by (auto simp: on_prefix_def)
  note a = at_prefix_Append [OF k assms(3)]
  obtain e saved db where save: "ES_Save lifecycle_domain s ?db (Some ?a) None = (Some e, saved, db)"
    and err: "err = AppendError (wrap64 (?v + 1)) (fmt_wrap ''recording'' e)"
    using assms(6) by (auto simp: appendLocked_def authority Let_def split: prod.splits option.splits)
  have out: "SaveOutcome (Some err) = SaveOutcome (Some e)" "as_mismatch err = as_mismatch e"
    by (simp_all add: err outcome_simps fmt_wrap_def)
  have valid: "valid ?db" using assms(1) others_valid by (simp add: shows_stream_def)
  have room: "room ?db (length (unsavedEvents ?a))" using room_fewer [OF assms(5), of "length evs"] assms(4) a(7) by simp
  have na: "SaveOutcome (Some e) \<noteq> AppendOutcomeAppended"
    using assms(7) out by (auto simp: lost_slots_def lostSlot_def defeatSlot_def split: if_splits option.splits)
  note slots = save_error_slot [OF valid room a(8) save na]
  have v: "agg_version ?a = ?v" using a(2) k by (simp add: at_prefix_def)
  have "slot = wrap64 (?v + 1) \<and> 0 \<le> ?v \<and> ?v < max_int64"
    using assms(7) slots out v err
    by (auto simp: lost_slots_def lostSlot_def defeatSlot_def split: option.splits if_splits prod.splits)
  then show ?thesis by (auto simp: in64_def min_int64_def)
qed

section \<open>Sections only advance the view\<close>

abbreviation version :: "rebuild \<Rightarrow> int64" where
  "version r \<equiv> agg_version (rb_aggregate r)"

lemma appendLocked_advances:
  assumes "displays w es" "follows es r" "appendLocked o' others [e] r w = (res, r', w')" "room (w_events (others w)) 2"
    and "sound (agg_state (rb_aggregate r)) \<Longrightarrow> \<exists>s'. legal (agg_state (rb_aggregate r)) e s'"
  shows "version r \<le> version r'"
proof -
  have name: "rb_name r = n" using assms(2) by (simp add: on_prefix_def)
  obtain k where k: "at_prefix newV5 n es k (rb_aggregate r)" using assms(2) by (auto simp: on_prefix_def)
  have fold: "agg_state (rb_aggregate r) = lifecycle_fold es" if "k = length es" using k that by (simp add: at_prefix_def)
  have c: "clean es" using assms(1) by (simp add: shows_stream_def)
  then have "sound (lifecycle_fold es)" using clean_sound by (simp add: clean_def)
  then have clean: "clean (es @ [e])" if "k = length es" using assms(5) clean_extend [OF c] fold [OF that] by metis
  show ?thesis
    by (rule appendLocked_displays [OF assms(1) name k _ _ clean assms(3,4)])
      (use k in \<open>auto simp: at_prefix_def\<close>)
qed

lemma check_plain:
  assumes "at_prefix newV5 n es k a" "clean es" "checkLifecycleAggregate newV5 a n = Some err"
  shows "lost_slots err st = {}"
proof -
  have "clean (take k es)" using assms(2) by (rule clean_take)
  then have "validate (agg_state a) = None"
    using assms(1) clean_sound sound_validate by (auto simp: at_prefix_def clean_def)
  then have "\<exists>m. err = fmt_wrap m (Sentinel ErrInvalidState)"
    using assms(3) by (auto simp: checkLifecycleAggregate_def Let_def split: if_splits)
  then show ?thesis by auto
qed

lemma refusal_plain:
  "certificate_refusal r = Some (err, dead) \<Longrightarrow> failure r = None \<Longrightarrow> lost_slots err st = {}"
  by (auto simp: certificate_refusal_def Let_def split: if_splits option.splits)

text \<open>A promotion is refused, or is one legal append.\<close>

lemma Promote_verdict:
  assumes "displays w es" "follows es r" "Promote newV5 o' others now r w = (res, r', w')" "room (w_events (others w)) 2"
  shows "version r \<le> version r' \<and> (\<forall>err slot. res = Some err \<and> failure r = None
    \<and> slot \<in> lost_slots err (lifecycleStream newV5 r) \<longrightarrow> slot = version r + 1)"
proof -
  have name: "rb_name r = n" using assms(2) by (simp add: on_prefix_def)
  obtain k where k: "at_prefix newV5 n es k (rb_aggregate r)" using assms(2) by (auto simp: on_prefix_def)
  have c: "clean es" using assms(1) by (simp add: shows_stream_def)
  let ?s = "agg_state (rb_aggregate r)"
  let ?e = "Promoted (Live ?s) (Target (Attempt ?s)) (wrap64 (CutoverRevision ?s + 1)) (Generation (RetirementPolicy ?s)) now"
  show ?thesis
  proof (cases "at_Phase (Attempt ?s) = PhaseCaughtUp \<and> certificate_refusal r = None
      \<and> CutoverRevision ?s \<noteq> max_int64 \<and> checkLifecycleAggregate newV5 (rb_aggregate r) (rb_name r) = None")
    case True
    obtain res1 r1 w1 where app: "appendLocked o' others [?e] r w = (res1, r1, w1)" by (metis prod_cases3)
    have agg: "rb_aggregate r' = rb_aggregate r1"
      and res: "res = None \<longleftrightarrow> res1 = None" "\<And>err. res = Some err \<Longrightarrow> SaveOutcome res1 \<noteq> AppendOutcomeAppended \<Longrightarrow> res = res1"
      using assms(3) True app by (auto simp: Promote_def Let_def split: option.splits)
    have "sound ?s \<Longrightarrow> \<exists>s'. legal ?s ?e s'" using legal_Promote [of ?s] True by blast
    note leg = appendLocked_legal [OF assms(1,2) app assms(4) this] appendLocked_advances [OF assms(1,2) app assms(4) this]
    have "slot = version r + 1" if "res = Some err" "slot \<in> lost_slots err (lifecycleStream newV5 r)" for err slot
    proof -
      have "res1 = Some err" using res that(1) leg(1) by (cases res1) auto
      then show ?thesis using appendLocked_slot [OF assms(1,2) _ _ assms(4), of "[?e]" err] app that(2) by simp
    qed
    then show ?thesis using leg(2) agg by simp
  next
    case False
    have plain: "lost_slots err st = {}" if "checkLifecycleAggregate newV5 (rb_aggregate r) (rb_name r) = Some err" for err st
      using check_plain [OF k c] that name by simp
    have "version r' = version r \<and> (\<forall>err. res = Some err \<and> failure r = None \<longrightarrow> lost_slots err (lifecycleStream newV5 r) = {})"
    proof (cases "checkLifecycleAggregate newV5 (rb_aggregate r) (rb_name r)")
      case None
      show ?thesis
        using assms(3) False None refusal_plain [of r]
        by (auto simp: Promote_def Let_def split: option.splits phase.splits if_splits prod.splits)
    next
      case (Some err)
      then have "res = Some err" "r' = r" using assms(3) by (simp_all add: Promote_def)
      then show ?thesis using plain [OF Some] by simp
    qed
    then show ?thesis by force
  qed
qed

lemma recordTerminal_advances:
  assumes "displays w es" "follows es r"
    and "recordTerminal newV5 o' others (command_refusal cmd) (command_event cmd) r w = Some (res, r', w')"
    and "room (w_events (others (others w))) 2"
  shows "version r \<le> version r'"
proof -
  have name: "rb_name r = n" using assms(2) by (simp add: on_prefix_def)
  obtain k where k: "at_prefix newV5 n es k (rb_aggregate r)" using assms(2) by (auto simp: on_prefix_def)
  obtain es' res0 r1 where refold: "refoldLocked newV5 o' others r w = Some (res0, r1, others w)"
      "displays (others w) es'" "prefix es es'"
    and r1: "res0 \<noteq> None \<and> r1 = r \<and> es' = [] \<or>
     r1 = r\<lparr>rb_aggregate := rb_aggregate r1\<rparr> \<and> at_prefix newV5 n es' (length es') (rb_aggregate r1)
       \<and> res0 = checkLifecycleAggregate newV5 (rb_aggregate r1) n"
    by (rule refoldLocked_displays [OF assms(1) name])
  have v1: "version r \<le> version r1"
    using r1 k refold(3) prefix_length_le [OF refold(3)] by (auto simp: at_prefix_def)
  let ?s = "agg_state (rb_aggregate r1)"
  show ?thesis
  proof (cases "res0 = None \<and> command_refusal cmd ?s = None")
    case False
    then have "r' = r1" using assms(3) refold(1) by (auto simp: recordTerminal_def Let_def split: option.splits)
    then show ?thesis using v1 by simp
  next
    case True
    obtain appErr r2 w2 where app: "appendLocked o' others [command_event cmd ?s] r1 (others w) = (appErr, r2, w2)"
      by (metis prod_cases3)
    have "rb_aggregate r' = rb_aggregate r2"
      using assms(3) refold(1) True app
      by (auto simp: recordTerminal_def Let_def endRun_def split: if_splits prod.splits)
    moreover have "rb_name r1 = n" using r1 name by (metis rebuild.select_convs(1) rebuild.surjective rebuild.update_convs(2))
    then have "follows es' r1" using r1 True at_prefix_follows by blast
    then have "version r1 \<le> version r2"
      using appendLocked_advances [OF refold(2) _ app assms(4)] legal_command True by blast
    ultimately show ?thesis using v1 by simp
  qed
qed

lemma recordCatchUp_verdict:
  assumes "displays w es" "follows es r"
    and "recordCatchUp o' others attemptID pos elapsed now r w = (res, r', w')" "room (w_events (others w)) 2"
    and "\<not> stopped r \<Longrightarrow> \<not> exitPublished r \<Longrightarrow>
      at_Phase (Attempt (agg_state (rb_aggregate r))) \<in> {PhaseBuilding, PhaseCaughtUp}"
  shows "version r \<le> version r' \<and> (\<forall>err slot. res = CatchUpFailed err
    \<and> slot \<in> lost_slots err (lifecycleStream newV5 r) \<longrightarrow> slot = version r + 1)"
proof (cases "stopped r \<or> exitPublished r")
  case True
  then show ?thesis using assms by (auto simp: recordCatchUp_def split: if_splits)
next
  case False
  obtain x r1 w1 where app: "appendLocked o' others [CaughtUp pos elapsed now] r w = (x, r1, w1)"
    by (metis prod_cases3)
  have phase: "at_Phase (Attempt (agg_state (rb_aggregate r))) \<in> {PhaseBuilding, PhaseCaughtUp}" using assms(5) False by blast
  have adv: "version r \<le> version r1" by (rule appendLocked_advances [OF assms(1,2) app assms(4) legal_CaughtUp [OF phase]])
  show ?thesis
  proof (cases x)
    case None
    then show ?thesis using assms(3) app False adv by (auto simp: recordCatchUp_def)
  next
    case (Some err)
    then show ?thesis
      using assms(3) app False adv appendLocked_slot [OF assms(1,2) _ _ assms(4), of "[CaughtUp pos elapsed now]" err]
      by (auto simp: recordCatchUp_def)
  qed
qed

lemma releaseClaim_advances:
  assumes "displays w es" "follows es r" "rb_runner r \<noteq> uuid_nil"
    and "releaseClaim newV5 o' others now r w = (res, r', w')" "room (w_events (others w)) 2"
  shows "version r \<le> version r'"
proof (cases "releases newV5 r")
  case True
  let ?s = "agg_state (rb_aggregate r)"
  have st: "at_Phase (Attempt ?s) \<noteq> PhaseNone" "Runner (Attempt ?s) = rb_runner r" "\<not> Released (Attempt ?s)"
    using True by (simp_all add: releases_def Let_def)
  have app: "appendLocked o' others [RunnerReleased (at_ID (Attempt ?s)) (Runner (Attempt ?s)) now] r w = (res, r', w')"
    using assms(4) True st(2) by (simp add: releaseClaim_def)
  have "Runner (Attempt ?s) \<noteq> uuid_nil" using st(2) assms(3) by simp
  from legal_Release [OF _ st(1) this st(3)] show ?thesis
    using appendLocked_advances [OF assms(1,2) app assms(5)] by blast
qed (use assms in \<open>simp add: releaseClaim_def\<close>)

text \<open>The slot of an append that was cut short.\<close>

lemma appended_in_range:
  assumes "appendLocked o' others [e] r w = (None, r', w')"
  shows "0 \<le> version r \<and> version r < max_int64"
  using assms
  by (auto simp: appendLocked_def authority Let_def ES_Save_def writer Append_def AppendWithMetadata_def
      split: prod.splits option.splits if_splits)

lemma cut_short_slot:
  assumes "slot \<in> lost_slots (cut_short r c) st" "0 \<le> version r \<and> version r < max_int64"
  shows "slot = version r + 1"
  using assms
  by (auto simp: lost_slots_def lostSlot_def defeatSlot_def cut_short_def fmt_wrap_def in64_def min_int64_def split: if_splits)

lemma recordCatchUp_same:
  assumes "recordCatchUp o' others i pos elapsed now r w = (res, r', w')"
  shows "same_verdict r r'"
proof -
  obtain x r1 w1 where app: "appendLocked o' others [CaughtUp pos elapsed now] r w = (x, r1, w1)"
    by (metis prod_cases3)
  then show ?thesis
    using assms appendLocked_quiet [OF app]
    by (auto simp: recordCatchUp_def quiet_def touch_defs split: if_splits option.splits)
qed

lemma Promote_in_range: "Promote newV5 o' others now r w = (None, r', w') \<Longrightarrow> 0 \<le> version r \<and> version r < max_int64"
  by (auto simp: Promote_def Let_def dest: appended_in_range split: option.splits phase.splits if_splits prod.splits)

lemma recordCatchUp_in_range:
  "recordCatchUp o' others i pos elapsed now r w = (CatchUpRecorded, r', w') \<Longrightarrow> 0 \<le> version r \<and> version r < max_int64"
  by (auto simp: recordCatchUp_def dest: appended_in_range split: option.splits if_splits prod.splits)

section \<open>The invariant\<close>

text \<open>The slot and the lost append that \<open>Run\<close>'s goroutine carries.\<close>

definition pc_slots :: "run_pc \<Rightarrow> int64 set" where
  "pc_slots pc = (let lost = (\<lambda>e. lost_slots e (New_id StreamType (StreamUUID newV5 n))) in
     case pc of
       Halting slot e \<Rightarrow> insert slot (lost e) | Folding slot e \<Rightarrow> insert slot (lost e)
     | Folded slot e loaded \<Rightarrow> insert slot (lost e) | Retrying slot e \<Rightarrow> insert slot (lost e)
     | Attempting slot e \<Rightarrow> insert slot (lost e) | Pausing slot e \<Rightarrow> insert slot (lost e)
     | Winding err lo \<Rightarrow> (case lo of None \<Rightarrow> {} | Some e \<Rightarrow> lost e)
     | AwaitingWound b err lo \<Rightarrow> (case lo of None \<Rightarrow> {} | Some e \<Rightarrow> lost e)
     | Classifying res e \<Rightarrow> lost e | Reading res slot \<Rightarrow> {slot}
     | Classified res slot loaded \<Rightarrow> {slot} | _ \<Rightarrow> {})"

definition verdict :: "nat \<Rightarrow> uuid \<Rightarrow> uuid \<Rightarrow> lifecycle_event list \<Rightarrow> rebuild \<Rightarrow> bool" where
  "verdict b i j es r \<longleftrightarrow> (failure r = Some displacedError \<longrightarrow> displaced_since b i j es)
     \<and> (stopped r \<and> failure r = None \<longrightarrow> ended_since b i es)"

definition truthful :: "nat \<Rightarrow> uuid \<Rightarrow> uuid \<Rightarrow> ('db, 'c, 'x) run \<Rightarrow> lifecycle_event list \<Rightarrow> bool" where
  "truthful b i j z es \<longleftrightarrow> accords z es \<and> b \<le> length es \<and> int b \<le> version (rn_handle z)
     \<and> view_on newV5 n es b (reconcile_view (rn_reconcile z))
     \<and> (failure (rn_handle z) = None \<longrightarrow> (\<forall>slot \<in> pc_slots (rn_pc z). int b \<le> slot))
     \<and> verdict b i j es (rn_handle z)"

lemma verdict_mono: "verdict b i j es r \<Longrightarrow> prefix es es' \<Longrightarrow> verdict b i j es' r"
  unfolding verdict_def using since_mono by blast

lemma verdict_same: "verdict b i j es r \<Longrightarrow> stopped r' = stopped r \<Longrightarrow> failure r' = failure r \<Longrightarrow> verdict b i j es r'"
  by (simp add: verdict_def)

lemma check_not_displaced: "checkLifecycleAggregate newV5 a m = Some err \<Longrightarrow> err \<noteq> displacedError"
  by (auto simp: checkLifecycleAggregate_def displacedError_def fmt_wrap_def Let_def split: if_splits option.splits)

lemma recordTerminalStop_verdict:
  "verdict b i j es r \<Longrightarrow> cause \<noteq> displacedError \<Longrightarrow> verdict b i j es (recordTerminalStop cause r)"
  by (auto simp: verdict_def recordTerminalStop_def)

text \<open>A view past the claim proves the verdict it renders.\<close>

lemma view_proves:
  assumes "at_prefix newV5 n es k a" "b \<le> k"
  shows "at_ID (Attempt (agg_state a)) \<noteq> i \<Longrightarrow> ended_since b i es"
    "at_ID (Attempt (agg_state a)) = i \<Longrightarrow> Runner (Attempt (agg_state a)) \<noteq> j \<Longrightarrow> displaced_since b i j es"
  using assms unfolding ended_since_def displaced_since_def at_prefix_def by auto

lemma reconcileLoaded_verdict:
  assumes "verdict b i j es r" "view_on newV5 n es b (Inr a)" "reconcileLoaded newV5 i j a r = (v, r')"
  shows "verdict b i j es r'"
proof -
  obtain k where k: "at_prefix newV5 n es k a" "b \<le> k" using assms(2) by (auto simp: view_on_def)
  have err: "verdict b i j es (recordTerminalStop err r)" if "checkLifecycleAggregate newV5 a (rb_name r) = Some err" for err
    using recordTerminalStop_verdict [OF assms(1)] check_not_displaced that by blast
  show ?thesis
    using assms(1,3) err view_proves [OF k]
    by (auto simp: reconcileLoaded_def Let_def verdict_def split: if_splits option.splits)
qed

lemma recordSlotDefeat_verdict:
  assumes "verdict b i j es r" "at_prefix newV5 n es k a" "failure r = None \<Longrightarrow> b \<le> k" "failure r \<noteq> None \<Longrightarrow> stopped r"
  shows "verdict b i j es (recordSlotDefeat newV5 i j a r)"
proof (cases "checkLifecycleAggregate newV5 a (rb_name r)")
  case (Some err)
  then show ?thesis
    using recordTerminalStop_verdict [OF assms(1)] check_not_displaced by (simp add: recordSlotDefeat_def)
next
  case None
  show ?thesis
  proof (cases "failure r")
    case (Some e)
    then have "recordSlotDefeat newV5 i j a r = r" using None assms(4) by (simp add: recordSlotDefeat_def Let_def)
    then show ?thesis using assms(1) by simp
  next
    case None': None
    note proves = view_proves [OF assms(2) assms(3) [OF None']]
    show ?thesis
      using assms(1) None None' proves by (auto simp: recordSlotDefeat_def Let_def verdict_def)
  qed
qed

section \<open>Its preservation\<close>

lemma pc_slots_simps [simp]:
  "pc_slots (after_catch_up auto' res) = (case res of
     CatchUpFailed err \<Rightarrow> lost_slots err (New_id StreamType (StreamUUID newV5 n)) | _ \<Rightarrow> {})"
  "pc_slots (after_promotion r) \<subseteq> (case r of None \<Rightarrow> {} | Some err \<Rightarrow> lost_slots err (New_id StreamType (StreamUUID newV5 n)))"
  "pc_slots (after_retry b r slot lost) \<subseteq> insert slot (lost_slots lost (New_id StreamType (StreamUUID newV5 n))
     \<union> (case r of None \<Rightarrow> {} | Some err \<Rightarrow> lost_slots err (New_id StreamType (StreamUUID newV5 n))))"
  by (auto simp: pc_slots_def after_catch_up_def after_promotion_def after_retry_def promotionFate_def retryFate_def
      lost_slots_def Let_def split: catch_up.split option.splits append_outcome.splits if_splits)

lemma run_step_truthful:
  assumes "run_step newV5 o' others i j z z'" "truthful b i j z es" "fair z" "j \<noteq> uuid_nil" "run_identity i j z"
  shows "\<exists>es'. prefix es es' \<and> truthful b i j z' es'"
proof -
  let ?h = "rn_handle z" and ?h' = "rn_handle z'"
  have acc: "accords z es" and d: "displays (rn_world z) es" and f: "follows es ?h" and v: "views_on newV5 n es z"
    using assms(2) by (simp_all add: truthful_def accords_def)
  have b: "b \<le> length es" "int b \<le> version ?h" "failure ?h = None \<Longrightarrow> \<forall>slot \<in> pc_slots (rn_pc z). int b \<le> slot"
    "verdict b i j es ?h" using assms(2) by (simp_all add: truthful_def)
  have name: "lifecycleStream newV5 ?h = New_id StreamType (StreamUUID newV5 n)"
    using f by (simp add: on_prefix_def lifecycleStream_def)
  have ident: "rb_runner ?h = j" "failure ?h \<noteq> None \<Longrightarrow> stopped ?h" using assms(5) by (simp_all add: run_identity_def Let_def)
  have room: "room (w_events (others (rn_world z))) 2" using roomy_next assms(3) by (simp add: fair_run_def)
  obtain es' where es': "prefix es es'" "accords z' es'" using run_step_accords [OF assms(1) acc assms(3,4) ident(1)] by blast
  have moved: "moves ?h ?h'" using run_step_moves [OF assms(1)] by blast
  then have nofail: "failure ?h = None" if "failure ?h' = None" using that ident(2) by (auto simp: moves_def)
  have rest: ?thesis
    if "version ?h \<le> version ?h'" "failure ?h' = None \<Longrightarrow> failure ?h = None \<Longrightarrow> \<forall>slot \<in> pc_slots (rn_pc z'). int b \<le> slot"
      "verdict b i j es ?h'"
  proof (intro exI [of _ es'] conjI es'(1))
    have "view_on newV5 n es' b (reconcile_view (rn_reconcile z'))"
      using assms(2) view_on_mono [OF _ es'(1)] run_step_others(2) [OF assms(1)] by (simp add: truthful_def)
    then show "truthful b i j z' es'"
      using that b(1,2) es' prefix_length_le [OF es'(1)] verdict_mono [OF that(3) es'(1)] nofail
      by (simp add: truthful_def)
  qed
  have same: ?thesis if "version ?h' = version ?h" "stopped ?h' = stopped ?h" "failure ?h' = failure ?h"
      "pc_slots (rn_pc z') \<subseteq> pc_slots (rn_pc z)"
    using that b by (intro rest verdict_same [OF b(4)]) auto
  have cut: "int b \<le> slot" if "slot \<in> lost_slots (cut_short ?h c) st" "0 \<le> version ?h \<and> version ?h < max_int64" for slot c st
    using cut_short_slot [OF that] b(2) by simp
  have vq: "verdict b i j es r'" if "quiet ?h r'" for r'
    using that by (intro verdict_same [OF b(4)]) (simp_all add: quiet_def same_verdict_def)
  have stops: "verdict b i j es (recordTerminalStop err ?h)" if "checkLifecycleAggregate newV5 a m = Some err" for err a m
    using recordTerminalStop_verdict [OF b(4)] check_not_displaced [OF that] by blast
  have stops_version: "version (recordTerminalStop err r) = version r" for err r by (simp add: recordTerminalStop_def)
  have judged: "version ?h \<le> version (recordSlotDefeat newV5 i j a ?h) \<and> verdict b i j es (recordSlotDefeat newV5 i j a ?h)"
    if "loaded = Inr a" "view_on newV5 n es 0 loaded" "failure ?h = None \<Longrightarrow> int b \<le> slot" "slot \<le> agg_version a"
    for loaded slot a
  proof -
    note loaded = that
    obtain k where k: "at_prefix newV5 n es k a" using loaded(1,2) by (auto simp: view_on_def)
    have "failure ?h = None \<Longrightarrow> b \<le> k" using loaded(3,4) k by (fastforce simp: at_prefix_def)
    then show ?thesis using recordSlotDefeat_verdict [OF b(4) k _ ident(2)]
      by (auto simp: recordSlotDefeat_def recordTerminalStop_def Let_def split: option.splits)
  qed
  show ?thesis
    using assms(1)
  proof cases
    case (record_catch_up pos elapsed now res r' w')
    have phase: "\<not> stopped ?h \<Longrightarrow> \<not> exitPublished ?h \<Longrightarrow>
        at_Phase (Attempt (agg_state (rb_aggregate ?h))) \<in> {PhaseBuilding, PhaseCaughtUp}"
      using assms(3) record_catch_up(2) by (simp add: fair_run_def catches_up_in_phase_def)
    note t = recordCatchUp_verdict [OF d f record_catch_up(3) room phase]
    have "verdict b i j es r'"
      using recordCatchUp_same [OF record_catch_up(3)] by (intro verdict_same [OF b(4)]) (simp_all add: same_verdict_def)
    then have "verdict b i j es ?h'" using record_catch_up(1) by (simp add: verdict_def)
    moreover have "version ?h \<le> version ?h'" using t record_catch_up(1) by simp
    moreover have "int b \<le> slot" if "slot \<in> pc_slots (rn_pc z')" for slot
      using that t b(2) name record_catch_up(1) by (cases res) auto
    ultimately show ?thesis by (intro rest) blast+
  next
    case (cut_catch_up pos c elapsed now r' w1 w')
    show ?thesis using cut_catch_up(1) cut recordCatchUp_in_range [OF cut_catch_up(4)] b(4) by (intro rest) auto
  next
    case (promote now res r' w')
    note t = Promote_verdict [OF d f promote(3) room]
    have "int b \<le> slot" if "slot \<in> pc_slots (rn_pc z')" "failure ?h = None" for slot
      using that t b(2) name promote(1) pc_slots_simps(2) [of res] by (cases res) auto
    then show ?thesis using promote(1) t vq [OF Promote_quiet [OF promote(3)]] by (intro rest) auto
  next
    case (cut_promote c now r' w1 w')
    have "int b \<le> slot" if "slot \<in> pc_slots (rn_pc z')" for slot
      using that cut [OF _ Promote_in_range [OF cut_promote(4)]] cut_promote(1)
        pc_slots_simps(2) [of "Some (cut_short ?h c)"] by auto
    then show ?thesis using cut_promote(1) b(4) by (intro rest) auto
  next
    case (resolve_slot slot lost loaded pc r')
    have "version ?h \<le> version r' \<and> verdict b i j es r'"
      using judged [where loaded = loaded and slot = slot] v resolve_slot(2,3) b(3,4)
      by (auto simp: resolveSlot_def slotFate_def pc_slots_def views_on_def stops stops_version
          split: sum.splits option.splits if_splits)
    moreover have "pc_slots pc \<subseteq> pc_slots (rn_pc z)"
      using resolveSlot_touches [OF resolve_slot(3)] resolve_slot(2) by (auto simp: pc_slots_def)
    ultimately show ?thesis using resolve_slot(1) b(3) by (intro rest) auto
  next
    case (retry slot lost now res r' w' ctxErr)
    note t = Promote_verdict [OF d f retry(3) room]
    have "x \<in> insert slot (lost_slots lost st) \<or> (\<exists>err. res = Some err \<and> x \<in> lost_slots err st)"
      if "x \<in> pc_slots (rn_pc z')" "st = New_id StreamType (StreamUUID newV5 n)" for x st
      using subsetD [OF pc_slots_simps(3) [of "retry_interrupted ctxErr res" res slot lost], of x] that retry(1)
      by (cases res) auto
    moreover have "int b \<le> x" if "x \<in> insert slot (lost_slots lost (New_id StreamType (StreamUUID newV5 n)))" "failure ?h = None" for x
      using b(3) [OF that(2)] retry(2) that(1) by (auto simp: pc_slots_def)
    moreover have "int b \<le> x" if "res = Some err" "x \<in> lost_slots err (New_id StreamType (StreamUUID newV5 n))" "failure ?h = None" for err x
      using t b(2) name that by force
    ultimately have "int b \<le> x" if "x \<in> pc_slots (rn_pc z')" "failure ?h = None" for x
      using that by blast
    moreover have "verdict b i j es (unregisterRetry r')" using vq [OF Promote_quiet [OF retry(3)]]
      by (simp add: verdict_def unregisterRetry_def)
    ultimately show ?thesis using retry(1) t by (intro rest) (auto simp: unregisterRetry_def)
  next
    case (cut_retry slot lost c now r' w1 w' res)
    have "x \<in> insert slot (lost_slots lost st) \<union> lost_slots (cut_short ?h c) st"
      if "x \<in> pc_slots (rn_pc z')" "st = New_id StreamType (StreamUUID newV5 n)" for x st
      using subsetD [OF pc_slots_simps(3) [of "retry_interrupted (Some c) res" res slot lost]] that cut_retry(1,6) by auto
    moreover have "int b \<le> x" if "x \<in> insert slot (lost_slots lost (New_id StreamType (StreamUUID newV5 n)))" "failure ?h = None" for x
      using b(3) [OF that(2)] cut_retry(2) that(1) by (auto simp: pc_slots_def)
    moreover have "int b \<le> x" if "x \<in> lost_slots (cut_short ?h c) st" for x st
      using cut [OF that Promote_in_range [OF cut_retry(4)]] .
    ultimately have "int b \<le> x" if "x \<in> pc_slots (rn_pc z')" "failure ?h = None" for x
      using that by blast
    moreover have "verdict b i j es (unregisterRetry ?h)" using b(4) by (simp add: verdict_def unregisterRetry_def)
    ultimately show ?thesis using cut_retry(1) by (intro rest) (auto simp: unregisterRetry_def)
  next
    case (observe loaded)
    have "version ?h \<le> version (observeReconciledPromotion newV5 loaded ?h)"
      by (auto simp: observeReconciledPromotion_def Let_def split: sum.splits)
    then show ?thesis using observe(1) vq [OF observeReconciledPromotion_quiet]
      by (intro rest) (auto simp: pc_slots_def)
  next
    case (classify res lost slot r')
    have "slot \<in> pc_slots (rn_pc z)" using classify(2,3) name lostSlot_in
      by (auto simp: pc_slots_def beginClassification_def split: option.splits if_splits)
    then show ?thesis using classify(1) b(3) vq [OF beginClassification_quiet [OF classify(3)]] classify(3)
      by (intro rest) (auto simp: pc_slots_def beginClassification_def split: option.splits if_splits)
  next
    case (classified res slot loaded)
    have "verdict b i j es (r\<lparr>classifying := False\<rparr>) = verdict b i j es r" for r by (simp add: verdict_def)
    then have "version ?h \<le> version ?h' \<and> verdict b i j es ?h'"
      using judged [where loaded = loaded and slot = slot] v classified b(3,4)
      by (auto simp: endClassification_def pc_slots_def views_on_def split: sum.splits if_splits)
    then show ?thesis using classified(1) by (intro rest) (auto simp: pc_slots_def)
  next
    case (release res now err r' w')
    have "version ?h \<le> version r'" using releaseClaim_advances [OF d f _ release(3) room] ident(1) assms(4) by simp
    then show ?thesis using release(1) vq [OF releaseClaim_quiet [OF release(3)]] by (intro rest) (auto simp: pc_slots_def)
  qed (rule same; auto simp: pc_slots_def registerRetry_def claimStopOrder_def processorExit_def
      split: option.splits if_splits; fail)+
qed

lemma reconcile_step_truthful:
  assumes "reconcile_step newV5 o' others i j z z'" "truthful b i j z es"
  shows "\<exists>es'. prefix es es' \<and> truthful b i j z' es'"
proof -
  let ?h = "rn_handle z" and ?h' = "rn_handle z'"
  have acc: "accords z es" and d: "displays (rn_world z) es" and f: "follows es ?h"
    using assms(2) by (simp_all add: truthful_def accords_def)
  have b: "b \<le> length es" "int b \<le> version ?h" "failure ?h = None \<Longrightarrow> \<forall>slot \<in> pc_slots (rn_pc z). int b \<le> slot"
    "verdict b i j es ?h" "view_on newV5 n es b (reconcile_view (rn_reconcile z))"
    using assms(2) by (simp_all add: truthful_def)
  note def' = reconcile_step_defers [OF assms(1)]
  obtain es' where es': "prefix es es'" "accords z' es'" using reconcile_step_accords [OF assms(1) acc] by blast
  have rest: ?thesis
    if "int b \<le> version ?h'" "verdict b i j es ?h'" "view_on newV5 n es' b (reconcile_view (rn_reconcile z'))"
      "failure ?h' = None \<Longrightarrow> failure ?h = None"
    using that b(1,3) es' prefix_length_le [OF es'(1)] verdict_mono [OF that(2) es'(1)] def'(2)
    by (intro exI [of _ es'] conjI) (auto simp: truthful_def)
  show ?thesis
    using assms(1)
  proof cases
    case (reconcile_loads loaded)
    have name: "rb_name ?h = n" using f by (simp add: on_prefix_def)
    have "displays (others (rn_world z)) es'" using es'(2) reconcile_loads(1) by (simp add: accords_def)
    then have "view_on newV5 n es' (length es') loaded"
      using hydrateFresh_view [OF _ _ reconcile_loads(3) [unfolded name]] by (simp add: max_int64_def)
    then have "view_on newV5 n es' b loaded"
      using order_trans [OF b(1) prefix_length_le [OF es'(1)]] unfolding view_on_def by (blast intro: order_trans)
    then show ?thesis using reconcile_loads(1) b by (intro rest) auto
  next
    case (reconcile_fails err ctxErr u r')
    have "fmt_wrap ''reconciling lifecycle state'' err \<noteq> displacedError" by (simp add: displacedError_def fmt_wrap_def)
    then have "verdict b i j es r'" "version r' = version ?h" "failure r' = None \<longrightarrow> failure ?h = None"
      using reconcile_fails(4) recordTerminalStop_verdict [OF b(4)] b(4)
      by (auto simp: reconcileFailed_def recordTerminalStop_def split: if_splits)
    then show ?thesis using reconcile_fails(1) b(2) by (intro rest) auto
  next
    case (reconcile_judges a u r')
    have va: "view_on newV5 n es b (Inr a)" using b(5) reconcile_judges(2) by simp
    have "verdict b i j es r'" by (rule reconcileLoaded_verdict [OF b(4) va reconcile_judges(3)])
    moreover have "int b \<le> version r'" "failure r' = None \<longrightarrow> failure ?h = None"
      using reconcile_judges(3) b(2)
      by (auto simp: reconcileLoaded_def recordTerminalStop_def Let_def split: if_splits option.splits)
    ultimately show ?thesis using reconcile_judges(1) by (intro rest) auto
  qed (rule rest; use b in \<open>simp add: verdict_def\<close>)+
qed

lemma recordTerminal_ends:
  assumes "recordTerminal newV5 o' others refusal event r w = Some (res, r', w')"
  shows "same_verdict r r' \<or> (\<exists>ae. res = Inr (ae, True)) \<and> stopped r' \<and> failure r' = failure r"
proof (cases "refoldLocked newV5 o' others r w")
  case (Some z)
  obtain x r1 w1 where z: "z = (x, r1, w1)" by (cases z)
  have q: "quiet r r1" using Some z refoldLocked_quiet by fast
  obtain y r2 w2 where app: "appendLocked o' others [event (agg_state (rb_aggregate r1))] r1 w1 = (y, r2, w2)"
    by (metis prod_cases3)
  have q2: "quiet r r2" using q appendLocked_quiet [OF app] by (rule quiet_trans)
  have "r' = r1 \<or> r' = r2 \<or> (\<exists>ae. res = Inr (ae, True)) \<and> (\<exists>i. endRun i r2 = (True, r'))"
    using assms Some z app
    by (auto simp: recordTerminal_def Let_def endRun_def split: option.splits if_splits)
  moreover have "stopped r'' \<and> failure r'' = failure r2" if "endRun i r2 = (True, r'')" for i r''
    using that by (auto simp: endRun_def split: if_splits)
  ultimately show ?thesis using q q2 unfolding quiet_def same_verdict_def by metis
qed (use assms in \<open>simp add: recordTerminal_def\<close>)

lemma command_vacates:
  assumes "legal st (command_event cmd st) s'" "command_refusal cmd st = None"
  shows "Attempt s' = zero_attempt"
  using assms by (cases cmd) (auto simp: command_event_def elim: legal.cases)

lemma command_step_truthful:
  assumes "command_step newV5 o' others z z'" "truthful b i j z es" "fair z" "run_identity i j z" "i \<noteq> uuid_nil"
  shows "\<exists>es'. prefix es es' \<and> truthful b i j z' es'"
proof -
  let ?h = "rn_handle z" and ?h' = "rn_handle z'"
  have acc: "accords z es" and d: "displays (rn_world z) es" and f: "follows es ?h"
    using assms(2) by (simp_all add: truthful_def accords_def)
  have b: "b \<le> length es" "int b \<le> version ?h" "failure ?h = None \<Longrightarrow> \<forall>slot \<in> pc_slots (rn_pc z). int b \<le> slot"
    "verdict b i j es ?h" "view_on newV5 n es b (reconcile_view (rn_reconcile z))"
    using assms(2) by (simp_all add: truthful_def)
  note t = command_step_touches [OF assms(1)]
  have fail: "failure ?h' = failure ?h" using t(1) by (auto simp: same_verdict_def)
  have roomy: "roomy room o' others (rn_world z)" using assms(3) by (simp add: fair_run_def)
  obtain es' where es': "prefix es es'" "accords z' es'" using command_step_accords [OF assms(1) acc assms(3)] by blast
  have rest: ?thesis if "version ?h \<le> version ?h'" "verdict b i j es' ?h'"
    using that b es' prefix_length_le [OF es'(1)] t(2,4) fail view_on_mono [OF b(5) es'(1)]
    by (intro exI [of _ es'] conjI) (auto simp: truthful_def)
  have still: ?thesis if "version ?h \<le> version ?h'" "same_verdict ?h ?h'"
    using that verdict_mono [OF b(4) es'(1)] by (intro rest) (simp_all add: verdict_def same_verdict_def)
  show ?thesis
    using assms(1)
  proof cases
    case (command_promotes now res r' w')
    then show ?thesis
      using Promote_verdict [OF d f command_promotes(2) roomy_next(1) [OF roomy]] Promote_quiet [OF command_promotes(2)]
      by (intro still) (simp_all add: quiet_def)
  next
    case (command_commits k cmd res r' w')
    note adv = recordTerminal_advances [OF d f command_commits(4) roomy_next(2) [OF roomy]]
    show ?thesis
    proof (cases "same_verdict ?h r'")
      case True
      then show ?thesis using adv command_commits(1) by (intro still) simp_all
    next
      case False
      then obtain ae where res: "res = Inr (ae, True)" using recordTerminal_ends [OF command_commits(4)] by blast
      have "runAttempt ?h = i" using assms(4) by (simp add: run_identity_def Let_def)
      then obtain es1 where es1: "prefix es es1" "displays (others (rn_world z)) es1"
          "command_refusal cmd (lifecycle_fold es1) = None"
          "displays w' (es1 @ [command_event cmd (lifecycle_fold es1)])"
        using recordTerminal_keeps [OF d f command_commits(4) roomy_next(2) [OF roomy]] legal_command command_in_flight res
        by fastforce
      then have new: "es' = es1 @ [command_event cmd (lifecycle_fold es1)]"
        using displays_unique [OF _ es1(4), of es'] es'(2) command_commits(1) by (simp add: accords_def)
      have "clean es'" using es'(2) by (simp add: accords_def shows_stream_def)
      then have "Attempt (lifecycle_fold es') = zero_attempt"
        using command_vacates [OF _ es1(3)] clean_snoc unfolding new clean_def by metis
      then have "at_ID (Attempt (lifecycle_fold (take (length es') es'))) \<noteq> i"
        using assms(5) by (simp add: zero_attempt_def)
      moreover have "b \<le> length es'" using b(1) prefix_length_le [OF es'(1)] by simp
      ultimately have "ended_since b i es'" unfolding ended_since_def by blast
      then have "verdict b i j es' ?h'"
        using fail since_mono(2) [OF es'(1)] b(4) by (auto simp: verdict_def)
      then show ?thesis using adv command_commits(1) by (intro rest) simp_all
    qed
  qed (rule still; simp add: same_verdict_def pauseRetries_def resumeRetries_def; fail)+
qed

lemma remaining_steps_truthful:
  assumes "processor_step z z' \<or> outside_step others z z'" "truthful b i j z es"
  shows "\<exists>es'. prefix es es' \<and> truthful b i j z' es'"
proof -
  have acc: "accords z es" using assms(2) by (simp add: truthful_def)
  have b: "b \<le> length es" "int b \<le> version (rn_handle z)"
    "failure (rn_handle z) = None \<Longrightarrow> \<forall>slot \<in> pc_slots (rn_pc z). int b \<le> slot"
    "verdict b i j es (rn_handle z)" "view_on newV5 n es b (reconcile_view (rn_reconcile z))"
    using assms(2) by (simp_all add: truthful_def)
  obtain es' where es': "prefix es es'" "accords z' es'" using remaining_steps_accord [OF assms(1) acc] by blast
  have "version (rn_handle z') = version (rn_handle z) \<and> stopped (rn_handle z') = stopped (rn_handle z)
      \<and> failure (rn_handle z') = failure (rn_handle z) \<and> pc_slots (rn_pc z') \<subseteq> pc_slots (rn_pc z)
      \<and> (rn_reconcile z' = rn_reconcile z \<or> reconcile_view (rn_reconcile z') = Inl Nil_error)"
    using assms(1)
  proof
    assume "processor_step z z'"
    then show ?thesis by cases (simp_all add: claimReturn_def publishProcessorExit_def)
  next
    assume "outside_step others z z'"
    then show ?thesis by cases (simp_all add: pc_slots_def)
  qed
  then show ?thesis
    using b es' prefix_length_le [OF es'(1)] view_on_mono [OF b(5) es'(1)] verdict_mono [OF b(4) es'(1)]
    by (intro exI [of _ es'] conjI) (auto simp: truthful_def verdict_def)
qed

lemma retire_step_truthful:
  assumes "retire_step newV5 o' others z z'" "truthful b i j z es" "fair z"
  shows "\<exists>es'. prefix es es' \<and> truthful b i j z' es'"
proof -
  have acc: "accords z es" using assms(2) by (simp add: truthful_def)
  have d: "displays (rn_world z) es" "follows es (rn_handle z)" using acc by (simp_all add: accords_def)
  have b: "b \<le> length es" "int b \<le> version (rn_handle z)"
    "failure (rn_handle z) = None \<Longrightarrow> \<forall>slot \<in> pc_slots (rn_pc z). int b \<le> slot"
    "verdict b i j es (rn_handle z)" "view_on newV5 n es b (reconcile_view (rn_reconcile z))"
    using assms(2) by (simp_all add: truthful_def)
  have roomy: "roomy room o' others (rn_world z)" using assms(3) by (simp add: fair_run_def)
  have "version (rn_handle z) \<le> version (rn_handle z')"
    using assms(1) by cases (use Retire_advances [OF d _ roomy] in auto)
  moreover obtain es' where es': "prefix es es'" "accords z' es'" using retire_step_accords [OF assms(1) acc assms(3)] by blast
  ultimately show ?thesis
    using b retire_step_quiet [OF assms(1)] prefix_length_le [OF es'(1)] view_on_mono [OF b(5) es'(1)] verdict_mono [OF b(4) es'(1)] es'
    by (intro exI [of _ es'] conjI) (auto simp: truthful_def verdict_def quiet_def same_verdict_def)
qed

lemma fair_steps_truthful:
  assumes "(fair_step room newV5 o' others i j)\<^sup>*\<^sup>* z z'" "truthful b i j z es" "i \<noteq> uuid_nil" "j \<noteq> uuid_nil"
    and "run_identity i j z"
  shows "\<exists>es'. prefix es es' \<and> truthful b i j z' es' \<and> run_identity i j z'"
  using assms(1)
proof (induction rule: rtranclp_induct)
  case base
  then show ?case using assms(2,5) by blast
next
  case (step y z')
  then obtain es1 where es1: "prefix es es1" "truthful b i j y es1" "run_identity i j y" by blast
  have fair: "fair y" and st: "step newV5 o' others i j y z'" using step(2) by (simp_all add: fair_step_def)
  have "\<exists>es'. prefix es1 es' \<and> truthful b i j z' es'"
    using st run_step_truthful [OF _ es1(2) fair assms(4) es1(3)] reconcile_step_truthful [OF _ es1(2)]
      command_step_truthful [OF _ es1(2) fair es1(3) assms(3)] remaining_steps_truthful [OF _ es1(2)]
      retire_step_truthful [OF _ es1(2) fair]
    unfolding step_def own_step_def by blast
  then show ?case using es1(1) prefix_order.trans step_identity [OF st es1(3)] by blast
qed

text \<open>From the claim on: what a run that began on a view of \<open>b\<close> events has recorded about itself is so.\<close>

lemma begin_truthful:
  assumes "displays w es" "rb_name r = n" "at_prefix newV5 n es b (rb_aggregate r)" "unrun r"
  shows "truthful b i j (begin_run attempt r w) es"
proof -
  have "accords (begin_run attempt r w) es"
    using begin_accords [OF assms(1) at_prefix_follows [OF assms(2,3)]] .
  then show ?thesis
    using assms(3,4) by (simp add: truthful_def begin_run_def at_prefix_def pc_slots_def verdict_def unrun_def)
qed

lemma run_verdicts:
  assumes "displays w es" "rb_name r = n" "at_prefix newV5 n es b (rb_aggregate r)" "unrun r"
    and "runAttempt r = i" "rb_runner r = j" "i \<noteq> uuid_nil" "j \<noteq> uuid_nil"
    and "(fair_step room newV5 o' others i j)\<^sup>*\<^sup>* (begin_run attempt r w) z"
  shows "\<exists>es'. prefix es es' \<and> displays (rn_world z) es'
    \<and> (failure (rn_handle z) = Some displacedError \<longrightarrow> displaced_since b i j es')
    \<and> (stopped (rn_handle z) \<and> failure (rn_handle z) = None \<longrightarrow> ended_since b i es')"
proof -
  have "run_identity i j (begin_run attempt r w)"
    using begin_run_sound [OF assms(4), of attempt w] assms(5,6) by (simp add: run_sound_def)
  then show ?thesis
    using fair_steps_truthful [OF assms(9) begin_truthful [OF assms(1-4)] assms(7,8)]
    by (auto simp: truthful_def accords_def verdict_def)
qed

end

end
