(* ===== verification/RunEntry.thy ===== *)
theory RunEntry
  imports RunWorld CommandLiveness RetireProps
begin

text \<open>
  The entry of \<open>Run\<close> on a displayed stream: which claim it records, on which state the claim was
  decided, and where the run stands when its processor starts.
\<close>

section \<open>Options\<close>

definition takeover_ok :: "runner_takeover \<Rightarrow> bool" where
  "takeover_ok takeover \<longleftrightarrow> takeover = zero_takeover \<or> to_Actor takeover \<noteq> '''' \<and> to_Reason takeover \<noteq> ''''"

text \<open>The options of the package: takeovers, and missing ones.\<close>

definition takeover_options :: "(run_config \<Rightarrow> run_config) option list \<Rightarrow> bool" where
  "takeover_options opts \<longleftrightarrow> (\<forall>opt \<in> set opts. opt = None \<or> (\<exists>actor reason. opt = Some (WithTakeover actor reason)))"

lemma run_options_ok:
  assumes "takeover_options opts" "run_options opts = Inr config"
  shows "takeover_ok (rc_takeover config)"
proof -
  have "takeover_ok (rc_takeover (fold (\<lambda>opt. the opt) os c))"
    if "takeover_ok (rc_takeover c)" "\<forall>opt \<in> set os. \<exists>actor reason. opt = Some (WithTakeover actor reason)" for os c
    using that
  proof (induction os arbitrary: c)
    case (Cons opt os)
    obtain actor reason where "opt = Some (WithTakeover actor reason)" using Cons.prems(2) by auto
    moreover have "takeover_ok (rc_takeover (WithTakeover actor reason c))"
      using Cons.prems(1) by (simp add: WithTakeover_def takeover_ok_def)
    ultimately show ?case using Cons.IH [of "WithTakeover actor reason c"] Cons.prems(2) by simp
  qed simp
  moreover have "\<forall>opt \<in> set opts. \<exists>actor reason. opt = Some (WithTakeover actor reason)"
    using assms unfolding takeover_options_def run_options_def list_ex_iff
    by (metis Inl_Inr_False Option.is_none_def)
  moreover have "takeover_ok (rc_takeover \<lparr>rc_takeover = zero_takeover, rc_optionErr = None\<rparr>)" by (simp add: takeover_ok_def)
  ultimately have "takeover_ok (rc_takeover (fold (\<lambda>opt. the opt) opts \<lparr>rc_takeover = zero_takeover, rc_optionErr = None\<rparr>))"
    by blast
  moreover have "config = fold (\<lambda>opt. the opt) opts \<lparr>rc_takeover = zero_takeover, rc_optionErr = None\<rparr>"
    using assms(2) unfolding run_options_def Let_def by (auto split: if_splits option.splits)
  ultimately show ?thesis by simp
qed

section \<open>Claims\<close>

lemma legal_extends:
  assumes "clean es" "legal (lifecycle_fold es) e s'"
  shows "clean (es @ [e]) \<and> lifecycle_fold (es @ [e]) = s'"
proof -
  have "history es (lifecycle_fold es)" using assms(1) history_iff by (simp add: clean_def)
  from history_step [OF this assms(2)] show ?thesis using history_iff by (auto simp: clean_def)
qed

text \<open>A projection's name is fixed by its first event.\<close>

lemma legal_name: "legal s e s' \<Longrightarrow> st_Name s \<noteq> '''' \<Longrightarrow> st_Name s' = st_Name s"
  by (induction rule: legal.induct) auto

lemma clean_name: "clean (es @ fs) \<Longrightarrow> es \<noteq> [] \<Longrightarrow> st_Name (lifecycle_fold (es @ fs)) = st_Name (lifecycle_fold es)"
proof (induction fs rule: rev_induct)
  case (snoc f fs)
  have c: "clean (es @ fs)" and l: "legal (lifecycle_fold (es @ fs)) f (lifecycle_fold (es @ fs @ [f]))"
    using clean_snoc(1,3) [of "es @ fs" f] snoc.prems(1) by (simp_all add: clean_def)
  have "st_Name (lifecycle_fold (es @ fs)) \<noteq> ''''" using clean_named [OF c] snoc.prems(2) by simp
  then show ?case using legal_name [OF l] snoc.IH [OF c snoc.prems(2)] by simp
qed simp

text \<open>
  What a claim on state \<open>s\<close> records: the runner, and beside a standing claim the takeover that
  displaces it; a created attempt starts building.
\<close>

definition claim_on :: "state \<Rightarrow> uuid \<Rightarrow> runner_takeover \<Rightarrow> lifecycle_event list \<Rightarrow> bool" where
  "claim_on s runner takeover evs \<longleftrightarrow> at_Phase (Attempt s) \<noteq> PhaseNone \<and>
     (\<exists>pos now. evs = RunnerClaimed (at_ID (Attempt s)) runner pos (if standing s then takeover else zero_takeover) now
        # (if at_Phase (Attempt s) = PhaseCreated then [BuildStarted] else []))
     \<and> (standing s \<longrightarrow> takeover \<noteq> zero_takeover)"

lemma claimTransitions_claim:
  assumes "claimTransitions o' others runner takeover now (Attempt s) w = (Inr evs, w')"
    and "takeover_gate s given = Inr takeover"
  shows "claim_on s runner given evs \<and> w' \<in> {w, others w}"
  using assms
  by (auto simp: claimTransitions_def takeover_gate_def claim_on_def Let_def split: phase.splits sum.splits if_splits)

lemma claim_length: "claim_on s runner takeover evs \<Longrightarrow> evs \<noteq> [] \<and> length evs \<le> 2"
  by (auto simp: claim_on_def)

lemma clean_claim:
  assumes "clean es" "claim_on (lifecycle_fold es) runner takeover evs" "takeover_ok takeover" "runner \<noteq> uuid_nil"
  shows "clean (es @ evs) \<and> at_ID (Attempt (lifecycle_fold (es @ evs))) = at_ID (Attempt (lifecycle_fold es))
    \<and> Runner (Attempt (lifecycle_fold (es @ evs))) = runner \<and> standing (lifecycle_fold (es @ evs))
    \<and> at_ID (Attempt (lifecycle_fold es)) \<noteq> uuid_nil \<and> st_Name (lifecycle_fold (es @ evs)) = st_Name (lifecycle_fold es)
    \<and> at_Phase (Attempt (lifecycle_fold (es @ evs))) = (if at_Phase (Attempt (lifecycle_fold es)) = PhaseCreated
        then PhaseBuilding else at_Phase (Attempt (lifecycle_fold es)))"
proof -
  let ?s = "lifecycle_fold es"
  have snd: "sound ?s" using assms(1) clean_sound by (simp add: clean_def)
  have flight: "at_Phase (Attempt ?s) \<noteq> PhaseNone" using assms(2) by (simp add: claim_on_def)
  then have "st_Name ?s \<noteq> ''''" using sound_named [OF snd] by blast
  then have "attempt_ok ?s" using snd by (simp add: sound_def)
  then have id: "at_ID (Attempt ?s) \<noteq> uuid_nil" using flight by (auto simp: attempt_ok_def Let_def in_flight_def)
  have ph: "at_Phase (Attempt ?s) \<in> {PhaseCreated, PhaseBuilding, PhaseCaughtUp, PhasePromoted, PhaseRetiring}"
    using sound_phase [OF snd] flight by (simp add: in_flight_def)
  obtain pos now where evs: "evs = RunnerClaimed (at_ID (Attempt ?s)) runner pos (if standing ?s then takeover else zero_takeover) now
        # (if at_Phase (Attempt ?s) = PhaseCreated then [BuildStarted] else [])" "standing ?s \<longrightarrow> takeover \<noteq> zero_takeover"
    using assms(2) by (auto simp: claim_on_def)
  let ?e = "RunnerClaimed (at_ID (Attempt ?s)) runner pos (if standing ?s then takeover else zero_takeover) now"
  let ?s1 = "?s\<lparr>Attempt := (Attempt ?s)\<lparr>Runner := runner, ClaimedAt := now, Released := False, ReleasedAt := 0\<rparr>\<rparr>"
  have "if standing ?s then to_Actor (if standing ?s then takeover else zero_takeover) \<noteq> ''''
      \<and> to_Reason (if standing ?s then takeover else zero_takeover) \<noteq> ''''
      else (if standing ?s then takeover else zero_takeover) = zero_takeover"
    using evs(2) assms(3) by (auto simp: takeover_ok_def)
  from legal.claim [OF id assms(4) ph this] have l: "legal ?s ?e ?s1" .
  have c1: "clean (es @ [?e])" and s1: "lifecycle_fold (es @ [?e]) = ?s1" using legal_extends [OF assms(1) l] by simp_all
  show ?thesis
  proof (cases "at_Phase (Attempt ?s) = PhaseCreated")
    case False
    then have "evs = [?e]" using evs(1) by simp
    then have "clean (es @ evs)" "lifecycle_fold (es @ evs) = ?s1" using c1 s1 by simp_all
    then show ?thesis using id assms(4) False by (simp add: standing_def)
  next
    case True
    have l2: "legal ?s1 BuildStarted (?s1\<lparr>Attempt := (Attempt ?s1)\<lparr>at_Phase := PhaseBuilding\<rparr>\<rparr>)"
      by (rule legal.start) (use True assms(4) in simp_all)
    have evs': "es @ evs = (es @ [?e]) @ [BuildStarted]" using evs(1) True by simp
    have "clean (es @ evs) \<and> lifecycle_fold (es @ evs) = ?s1\<lparr>Attempt := (Attempt ?s1)\<lparr>at_Phase := PhaseBuilding\<rparr>\<rparr>"
      unfolding evs' using legal_extends [OF c1] l2 s1 by simp
    then show ?thesis using True id assms(4) by (simp add: standing_def)
  qed
qed

context lifecycle_world begin

section \<open>The entry\<close>

text \<open>
  A run whose processor starts has recorded its claim, on the state the claim was decided on, and its
  handle stands on a view past the claim.
\<close>

definition entered ::
  "uuid \<Rightarrow> runner_takeover \<Rightarrow> lifecycle_event list \<Rightarrow> attempt_state \<Rightarrow> rebuild \<Rightarrow> ('db, 'c, 'x) world \<Rightarrow> bool" where
  "entered runner takeover es attempt r' w' \<longleftrightarrow> (\<exists>es1 evs es'. prefix es es1 \<and> claim_on (lifecycle_fold es1) runner takeover evs
     \<and> st_Name (lifecycle_fold es1) = n \<and> attempt = Attempt (lifecycle_fold es1) \<and> prefix (es1 @ evs) es' \<and> displays w' es'
     \<and> clean (es1 @ evs) \<and> rb_name r' = n \<and> at_prefix newV5 n (es1 @ evs) (length (es1 @ evs)) (rb_aggregate r'))"

lemma startRun_displays:
  assumes "displays w es" "startRun o' others newProcessor runner exited attempt r w = (res, r', w')"
  shows "\<exists>es'. prefix es es' \<and> displays w' es' \<and> rb_name r' = rb_name r \<and> rb_aggregate r' = rb_aggregate r"
proof -
  obtain es' where es': "displays (others w) es'" "prefix es es'" using displays_others [OF assms(1)] .
  obtain h x where "oc_Handler o' (Target attempt) (w_rest (others w)) = (h, x)" by fastforce
  then show ?thesis using assms(2) es'
    by (intro exI [of _ es']) (auto simp: startRun_def Let_def split: sum.splits option.splits)
qed

lemma startRun_runner:
  "startRun o' others newProcessor runner exited attempt r w = (out, r', w') \<Longrightarrow> rb_runner r' = runner"
  by (auto simp: startRun_def Let_def split: prod.splits sum.splits option.splits)

lemma claimRun_entered:
  assumes "displays w es2" "rb_name r = n" "at_prefix newV5 n es2 (length es1) (rb_aggregate r)" "prefix es1 es2"
    and "claim_on (lifecycle_fold es1) runner takeover evs" "takeover_ok takeover" "runner \<noteq> uuid_nil" "prefix es es1"
    and "room (w_events (others w)) 2"
    and "claimRun newV5 o' others newProcessor runner exited evs (Attempt (lifecycle_fold es1)) r w
      = Some (out, r', w')" "\<And>res. out \<noteq> RunReturns res" "st_Name (lifecycle_fold es1) = n"
  shows "entered runner takeover es (Attempt (lifecycle_fold es1)) r' w' \<and> rb_runner r' = runner
    \<and> (\<forall>a. out = RunStarts a \<longrightarrow> a = Attempt (lifecycle_fold es1))"
proof -
  let ?r = "r\<lparr>runAttempt := at_ID (Attempt (lifecycle_fold es1))\<rparr>"
  obtain res r1 w1 where app: "appendLocked o' others evs ?r w = (res, r1, w1)" by (metis prod_cases3)
  have same: "es1 = es2" if "length es1 = length es2" using assms(4) that by (auto simp: prefix_def)
  have c: "clean es2" using assms(1) by (simp add: shows_stream_def)
  have claimed: "clean (es2 @ evs)" if "length es1 = length es2"
    using clean_claim [OF c _ assms(6,7)] assms(5) same [OF that] by simp
  have nm: "rb_name ?r = n" and at: "at_prefix newV5 n es2 (length es1) (rb_aggregate ?r)" using assms(2,3) by simp_all
  obtain es' where es': "displays (others w) es'" "prefix es2 es'" "w1 = (others w)\<lparr>w_events := w_events w1\<rparr>"
    "res = None \<and> length es1 = length es2 \<and> es' = es2 \<and> displays w1 (es2 @ evs)
        \<and> r1 = ?r\<lparr>rb_aggregate := rb_aggregate r1\<rparr>
        \<and> at_prefix newV5 n (es2 @ evs) (length (es2 @ evs)) (rb_aggregate r1)
     \<or> (\<exists>e. res = Some (AppendError (wrap64 (int (length es1) + 1)) e)) \<and> r1 = ?r \<and> SaveOutcome res \<noteq> AppendOutcomeAppended
        \<and> (displays w1 es' \<or> \<not> healthy \<and> length es1 = length es2 \<and> es' = es2 \<and> displays w1 (es2 @ evs))"
    by (rule appendLocked_displays [OF assms(1) nm at _ _ claimed app assms(9)])
      (use claim_length [OF assms(5)] in simp_all)
  show ?thesis
  proof (cases res)
    case None
    then have ok: "length es1 = length es2" "displays w1 (es2 @ evs)" "r1 = ?r\<lparr>rb_aggregate := rb_aggregate r1\<rparr>"
        "at_prefix newV5 n (es2 @ evs) (length (es2 @ evs)) (rb_aggregate r1)" using es'(4) by simp_all
    have e: "es1 = es2" by (rule same [OF ok(1)])
    have start: "startRun o' others newProcessor runner exited (Attempt (lifecycle_fold es1)) r1 w1 = (out, r', w')"
      using assms(10) app None by (simp add: claimRun_def)
    from startRun_displays [OF ok(2) start] startRun_runner [OF start]
    obtain es3 where es3: "prefix (es2 @ evs) es3" "displays w' es3" "rb_name r' = rb_name r1" "rb_aggregate r' = rb_aggregate r1"
        "rb_runner r' = runner" by blast
    have "rb_name r1 = n" using arg_cong [OF ok(3), of rb_name] assms(2) by simp
    then have "entered runner takeover es (Attempt (lifecycle_fold es1)) r' w'"
      using es3 ok(4) assms(5,8,12) claimed [OF ok(1)] e unfolding entered_def by metis
    then show ?thesis using es3(5) startRun_starts start by blast
  next
    case (Some err)
    then have "SaveOutcome (Some err) \<noteq> AppendOutcomeAppended" using es'(4) by simp
    then show ?thesis using assms(10,11) app Some
      by (auto simp: claimRun_def claimDefeat_def Let_def split: option.splits sum.splits if_splits)
  qed
qed

lemma enterRun_claims:
  assumes "displays w es" "rb_name r = n" "roomy room o' others w" "runner \<noteq> uuid_nil" "takeover_options opts"
    and "enterRun newV5 o' others newProcessor opts runner exited now r w = Some (out, r', w')" "\<And>res. out \<noteq> RunReturns res"
  shows "\<exists>config attempt. run_options opts = Inr config \<and> entered runner (rc_takeover config) es attempt r' w'
    \<and> rb_runner r' = runner \<and> (\<forall>a. out = RunStarts a \<longrightarrow> a = attempt)"
proof -
  let ?r = "r\<lparr>ran := True\<rparr>"
  obtain config where config: "run_options opts = Inr config"
    using assms(6,7) by (auto simp: enterRun_def split: sum.splits)
  have name: "rb_name ?r = n" using assms(2) by simp
  obtain es1 res r1 where refold: "refoldLocked newV5 o' others ?r w = Some (res, r1, others w)"
    "displays (others w) es1" "prefix es es1"
    "res \<noteq> None \<and> r1 = ?r \<and> es1 = [] \<or>
     r1 = ?r\<lparr>rb_aggregate := rb_aggregate r1\<rparr> \<and> at_prefix newV5 n es1 (length es1) (rb_aggregate r1)
       \<and> res = checkLifecycleAggregate newV5 (rb_aggregate r1) n"
    by (rule refoldLocked_displays [OF assms(1) name])
  have "res = None" using assms(6,7) refold(1) config by (auto simp: enterRun_def Let_def split: if_splits option.splits)
  then have r1: "r1 = ?r\<lparr>rb_aggregate := rb_aggregate r1\<rparr>" "at_prefix newV5 n es1 (length es1) (rb_aggregate r1)"
    using refold(4) by simp_all
  have st: "agg_state (rb_aggregate r1) = lifecycle_fold es1" by (rule at_prefix_state [OF r1(2)])
  obtain takeover evs w2 where gate: "takeover_gate (lifecycle_fold es1) (rc_takeover config) = Inr takeover"
      "claimTransitions o' others runner takeover now (Attempt (lifecycle_fold es1)) (others w) = (Inr evs, w2)"
    and run: "claimRun newV5 o' others newProcessor runner exited evs (Attempt (lifecycle_fold es1)) r1 w2
      = Some (out, r', w')"
    using assms(6,7) config refold(1) \<open>res = None\<close> st
    by (auto simp: enterRun_def Let_def split: if_splits sum.splits prod.splits)
  note claim = claimTransitions_claim [OF gate(2,1)]
  obtain es2 where es2: "displays w2 es2" "prefix es1 es2"
    using claim displays_others [OF refold(2)] refold(2) by blast
  have "clean es1" "es1 \<noteq> []"
    using refold(2) claim by (auto simp: shows_stream_def claim_on_def fold_Nil NewState_def zero_attempt_def)
  then have named: "st_Name (lifecycle_fold es1) = n"
    using checkLifecycleAggregate_prefix [OF r1(2)] refold(4) \<open>res = None\<close> st by auto
  have "rb_name r1 = n" using arg_cong [OF r1(1), of rb_name] assms(2) by simp
  moreover have "room (w_events (others w2)) 2"
    using claim assms(3) moments.other [OF moments.other [OF moments.begins]]
      moments.other [OF moments.other [OF moments.other [OF moments.begins]]]
    unfolding roomy_def by blast
  ultimately have "entered runner (rc_takeover config) es (Attempt (lifecycle_fold es1)) r' w' \<and> rb_runner r' = runner
      \<and> (\<forall>a. out = RunStarts a \<longrightarrow> a = Attempt (lifecycle_fold es1))"
    using claimRun_entered [OF es2(1) _ at_prefix_mono [OF r1(2) es2(2)] es2(2) _ run_options_ok [OF assms(5) config]
        assms(4) refold(3) _ run assms(7) named] claim by blast
  then show ?thesis using config by blast
qed

lemmas enterRun_entered = enterRun_claims [where out = "RunStarts attempt" for attempt, simplified]

text \<open>A run that could not make its processor holds a claim, and its deferred release records that it is gone.\<close>

lemma unstarted_releases:
  assumes "displays w es" "rb_name r = n" "roomy room o' others w" "runner \<noteq> uuid_nil" "takeover_options opts"
    and "enterRun newV5 o' others newProcessor opts runner exited now r w = Some (RunUnstarted err, r', w')"
  shows "releases newV5 r' \<and> rb_runner r' = runner \<and> (\<exists>es'. prefix es es' \<and> displays w' es' \<and> follows es' r')"
proof -
  obtain config attempt es1 evs es' where e: "run_options opts = Inr config" "prefix es es1"
      "claim_on (lifecycle_fold es1) runner (rc_takeover config) evs" "prefix (es1 @ evs) es'" "displays w' es'"
      "clean (es1 @ evs)" "rb_name r' = n" "at_prefix newV5 n (es1 @ evs) (length (es1 @ evs)) (rb_aggregate r')"
      "st_Name (lifecycle_fold es1) = n" "rb_runner r' = runner"
    using enterRun_claims [OF assms] by (auto simp: entered_def)
  note c = clean_claim [OF clean_append [OF e(6)] e(3) run_options_ok [OF assms(5) e(1)] assms(4)]
  have st: "agg_state (rb_aggregate r') = lifecycle_fold (es1 @ evs)" by (rule at_prefix_state [OF e(8)])
  have "checkLifecycleAggregate newV5 (rb_aggregate r') n = None"
    using checkLifecycleAggregate_prefix [OF e(8,6)] st c e(9) by simp
  moreover have "at_Phase (Attempt (lifecycle_fold (es1 @ evs))) \<noteq> PhaseNone" using c e(3) by (simp add: claim_on_def)
  ultimately have "releases newV5 r'" using c st e(7,10) by (simp add: releases_def standing_def Let_def)
  moreover have "follows es' r'" using follows_mono [OF at_prefix_follows [OF e(7,8)] e(4)] .
  moreover have "prefix es es'" using e(2,4) by (meson append_prefixD prefix_order.trans)
  ultimately show ?thesis using e(5,10) by blast
qed

lemma leaveEntry_releases:
  assumes "displays w es" "rb_name r = n" "roomy room o' others w" "runner \<noteq> uuid_nil" "takeover_options opts"
    and "enterRun newV5 o' others newProcessor opts runner exited now r w = Some (RunUnstarted err, r', w')"
  shows "\<exists>e r2 w2. appendLocked o' others [RunnerReleased (at_ID (Attempt (agg_state (rb_aggregate r')))) runner at] r' w' = (e, r2, w2)
    \<and> leaveEntry newV5 o' others at (RunUnstarted err, r', w') = (RunReturns (Some err), r2, w2)"
proof -
  obtain e r2 w2 where "appendLocked o' others [RunnerReleased (at_ID (Attempt (agg_state (rb_aggregate r')))) runner at] r' w'
      = (e, r2, w2)" by (metis prod_cases3)
  then show ?thesis using unstarted_releases [OF assms] by (simp add: leaveEntry_def releaseClaim_def)
qed

text \<open>A claim that stands is displaced only by a takeover: without one, \<open>Run\<close> records nothing.\<close>

lemma enterRun_gated:
  assumes "displays w es" "rb_name r = n" "run_options opts = Inr config" "rc_takeover config = zero_takeover" "\<not> ran r"
    and "displays (others w) es1" "standing (lifecycle_fold es1)" "st_Name (lifecycle_fold es1) = n"
  shows "\<exists>r'. enterRun newV5 o' others newProcessor opts runner exited now r w
    = Some (RunReturns (Some (fmt_wrap ''the claimant has not recorded its exit'' (Sentinel ErrClaimStanding))), r', others w)"
proof -
  have name: "rb_name (r\<lparr>ran := True\<rparr>) = n" using assms(2) by simp
  obtain es2 res r1 where refold: "refoldLocked newV5 o' others (r\<lparr>ran := True\<rparr>) w = Some (res, r1, others w)"
    "displays (others w) es2"
    "res \<noteq> None \<and> r1 = r\<lparr>ran := True\<rparr> \<and> es2 = [] \<or>
     r1 = r\<lparr>ran := True, rb_aggregate := rb_aggregate r1\<rparr> \<and> at_prefix newV5 n es2 (length es2) (rb_aggregate r1)
       \<and> res = checkLifecycleAggregate newV5 (rb_aggregate r1) n"
    by (rule refoldLocked_displays [OF assms(1) name])
  have e: "es2 = es1" by (rule displays_unique [OF refold(2) assms(6)])
  have "es1 \<noteq> []" using assms(7) by (auto simp: fold_Nil NewState_def standing_def zero_attempt_def)
  then have at: "at_prefix newV5 n es1 (length es1) (rb_aggregate r1)" "res = checkLifecycleAggregate newV5 (rb_aggregate r1) n"
    using refold(3) e by auto
  have "clean es1" using assms(6) by (simp add: shows_stream_def)
  then have "res = None" using checkLifecycleAggregate_prefix [OF at(1)] at(2) at_prefix_state [OF at(1)] assms(8) by simp
  then show ?thesis
    using refold(1) assms(3-5,7) at_prefix_state [OF at(1)] by (simp add: enterRun_def takeover_gate_def)
qed

text \<open>With nobody else writing meanwhile and a healthy store, a claim that is not gated starts a run.\<close>

lemma enterRun_alone:
  assumes "displays w es" "rb_name r = n" "\<And>v. w_rest v = w_rest w \<Longrightarrow> others v = v" "healthy" "room (w_events w) 2"
    and "int (length es) < max_int64" "st_Name (lifecycle_fold es) = n" "at_Phase (Attempt (lifecycle_fold es)) \<in> {PhaseBuilding, PhaseCaughtUp, PhasePromoted}"
    and "run_options opts = Inr config" "\<not> ran r" "standing (lifecycle_fold es) \<Longrightarrow> rc_takeover config \<noteq> zero_takeover"
    and "ck_Load (oc_Checkpoints o') (w_checkpoints w) (Target (Attempt (lifecycle_fold es))) = Inl (Sentinel ErrCheckpointNotFound)"
    and "oc_Handler o' (Target (Attempt (lifecycle_fold es))) (w_rest w) = (Inr h, x)"
    and "newProcessor (oc_Events o') (oc_Checkpoints o') (Target (Attempt (lifecycle_fold es))) h (processorOptions o') = None"
    and "MarshalDomainEvent (domainEventCodec s) e = Inr b" "takeover_ok (rc_takeover config)" "runner \<noteq> uuid_nil"
    and "e = RunnerClaimed (at_ID (Attempt (lifecycle_fold es))) runner 0
      (if standing (lifecycle_fold es) then rc_takeover config else zero_takeover) now"
  obtains r' w' where "enterRun newV5 o' others newProcessor opts runner exited now r w
      = Some (RunStarts (Attempt (lifecycle_fold es)), r', w')"
    "displays w' (es @ [e])" "rb_name r' = n" "at_prefix newV5 n (es @ [e]) (Suc (length es)) (rb_aggregate r')" "moments o' (\<lambda>w. w) w 1 w'" "w_rest w' = x"
proof -
  have ow: "others w = w" by (simp add: assms(3))
  let ?st = "lifecycle_fold es" and ?t = "if standing (lifecycle_fold es) then rc_takeover config else zero_takeover"
  have name: "rb_name (r\<lparr>ran := True\<rparr>) = n" using assms(2) by simp
  obtain es2 res r1 where refold: "refoldLocked newV5 o' others (r\<lparr>ran := True\<rparr>) w = Some (res, r1, others w)"
    "displays (others w) es2"
    "res \<noteq> None \<and> r1 = r\<lparr>ran := True\<rparr> \<and> es2 = [] \<or>
     r1 = r\<lparr>ran := True, rb_aggregate := rb_aggregate r1\<rparr> \<and> at_prefix newV5 n es2 (length es2) (rb_aggregate r1)
       \<and> res = checkLifecycleAggregate newV5 (rb_aggregate r1) n"
    by (rule refoldLocked_displays [OF assms(1) name])
  have same: "es2 = es" using displays_unique [OF refold(2), of es] assms(1) ow by simp
  have "es \<noteq> []" using assms(8) by (auto simp: fold_Nil NewState_def zero_attempt_def)
  then have at: "at_prefix newV5 n es (length es) (rb_aggregate r1)" "res = None"
    using refold(3) same tip_named [OF assms(1) _ assms(7)] by auto
  have claims: "claim_on ?st runner (rc_takeover config) [e]" using assms(8,11,18) by (auto simp: claim_on_def)
  have "clean es" using assms(1) by (simp add: shows_stream_def)
  then have cl: "clean (es @ [e])" using clean_claim [OF _ claims assms(16,17)] by blast
  let ?r1 = "r1\<lparr>runAttempt := at_ID (Attempt ?st)\<rparr>"
  have at1: "at_prefix newV5 n es (length es) (rb_aggregate ?r1)" using at(1) by simp
  then obtain r2 w2 where app: "appendLocked o' others [e] ?r1 w = (None, r2, w2)"
    using appendLocked_alone [OF assms(1) _ ow assms(4,5,15,6)] by blast
  have "rb_name r1 = n" using refold(3) assms(2) by (metis name rebuild.select_convs(1) rebuild.surjective rebuild.update_convs(2))
  then have nm: "rb_name ?r1 = n" by simp
  have rm: "room (w_events (others w)) 2" using ow assms(5) by simp
  have d2: "displays w2 (es @ [e])" "r2 = ?r1\<lparr>rb_aggregate := rb_aggregate r2\<rparr>"
      "at_prefix newV5 n (es @ [e]) (length (es @ [e])) (rb_aggregate r2)"
    by (rule appendLocked_displays [OF assms(1) nm at1 _ _ cl app rm]; simp)+
  have r2n: "rb_name r2 = n" using arg_cong [OF d2(2), of rb_name] nm by simp
  have w2: "w_rest w2 = w_rest w" "w_checkpoints w2 = w_checkpoints w"
    using app ow by (auto simp: appendLocked_def Let_def split: prod.splits option.splits)
  then have ow2: "others w2 = w2" by (simp add: assms(3))
  obtain sres saved db where save: "ES_Save lifecycle_domain (authority o') (w_events w) (Some (Append [e] (rb_aggregate ?r1))) None
      = (sres, saved, db)" by (metis prod_cases3)
  have "w2 = w\<lparr>w_events := db\<rparr>" using app ow save by (auto simp: appendLocked_def Let_def split: option.splits)
  moreover have "length (unsavedEvents (Append [e] (rb_aggregate ?r1))) \<le> 2" using at_prefix_Append(7) [OF at1] by simp
  ultimately have m: "moments o' (\<lambda>w. w) w 1 (w2\<lparr>w_rest := x\<rparr>)"
    using moments.rest [OF moments.appends [OF moments.begins _ save]] by simp
  have "startRun o' others newProcessor runner exited (Attempt ?st) r2 w2 = (RunStarts (Attempt ?st),
      r2\<lparr>rb_runner := runner, stopProcessor := True, processorExited := Some exited\<rparr>, w2\<lparr>w_rest := x\<rparr>)"
    using ow2 assms(13,14) w2 by (simp add: startRun_def)
  then have claim: "claimRun newV5 o' others newProcessor runner exited [e] (Attempt ?st) r1 w
      = Some (RunStarts (Attempt ?st),
      r2\<lparr>rb_runner := runner, stopProcessor := True, processorExited := Some exited\<rparr>, w2\<lparr>w_rest := x\<rparr>)"
    using app by (simp add: claimRun_def)
  have gate: "takeover_gate ?st (rc_takeover config) = Inr ?t" using assms(11) by (auto simp: takeover_gate_def)
  have "claimTransitions o' others runner ?t now (Attempt ?st) w = (Inr [e], w)"
    using ow assms(8,12,18) by (auto simp: claimTransitions_def errors_is_def split: phase.splits)
  then have "enterRun newV5 o' others newProcessor opts runner exited now r w = Some (RunStarts (Attempt ?st),
      r2\<lparr>rb_runner := runner, stopProcessor := True, processorExited := Some exited\<rparr>, w2\<lparr>w_rest := x\<rparr>)"
    using refold(1) at ow assms(9,10) at_prefix_state [OF at(1)] gate claim
    by (simp add: enterRun_def)
  then show ?thesis by (rule that) (use d2(1,3) r2n m in simp_all)
qed

section \<open>The run that was entered\<close>

text \<open>In every fair state of an entered run the stream extends the claim, and the handle stands on a prefix.\<close>

lemma entered_run_accords:
  assumes "displays w es" "rb_name r = n" "roomy room o' others w" "runner \<noteq> uuid_nil" "takeover_options opts" "unrun r"
    and "enterRun newV5 o' others newProcessor opts runner exited now r w = Some (RunStarts attempt, r', w')"
    and "(fair_step room newV5 o' others (at_ID attempt) runner)\<^sup>*\<^sup>* (begin_run attempt r' w') z"
  shows "\<exists>es'. prefix es es' \<and> displays (rn_world z) es' \<and> follows es' (rn_handle z)
    \<and> es' \<noteq> [] \<and> st_Name (lifecycle_fold es') = n"
proof -
  obtain config where "entered runner (rc_takeover (config :: run_config)) es attempt r' w'"
    using enterRun_entered [OF assms(1-5,7)] by blast
  then obtain es1 evs es2 where e: "prefix es es1" "prefix (es1 @ evs) es2" "rb_name r' = n" "displays w' es2"
      "at_prefix newV5 n (es1 @ evs) (length (es1 @ evs)) (rb_aggregate r')" "st_Name (lifecycle_fold es1) = n"
      "claim_on (lifecycle_fold es1) runner (rc_takeover config) evs"
    unfolding entered_def by blast
  have f: "follows es2 r'" using e(3) at_prefix_mono [OF e(5,2)] by (auto simp: on_prefix_def)
  have start: "unrun r'" "runAttempt r' = at_ID attempt" "rb_runner r' = runner"
    using enterRun_starts [OF assms(7,6)] by simp_all
  have "run_identity (at_ID attempt) runner (begin_run attempt r' w')"
    using begin_run_sound [OF start(1), of attempt w'] start(2,3) by (simp add: run_sound_def)
  from fair_steps_accord [OF assms(8) begin_accords [OF e(4) f] assms(4) this]
  obtain es' where es': "prefix es2 es'" "displays (rn_world z) es'" "follows es' (rn_handle z)" by (auto simp: accords_def)
  have "prefix es1 es'" using append_prefixD [OF prefix_order.trans [OF e(2) es'(1)]] .
  moreover have "es1 \<noteq> []" using e(7) by (auto simp: claim_on_def fold_Nil NewState_def zero_attempt_def)
  moreover have "clean es'" using es'(2) by (simp add: shows_stream_def)
  ultimately have "es' \<noteq> []" "st_Name (lifecycle_fold es') = n" using clean_name e(6) by (auto simp: prefix_def)
  then show ?thesis using es' prefix_order.trans [OF e(1) \<open>prefix es1 es'\<close>] by blast
qed

text \<open>A fold of a displayed stream is at its tip.\<close>

lemma hydrateFresh_tip:
  assumes "displays w es" "es \<noteq> []"
  shows "\<exists>a. hydrateFresh newV5 o' n 0 (w_events w) = Some (Inr a) \<and> at_prefix newV5 n es (length es) a"
proof -
  have "valid (w_events w)" "stream newV5 n (w_events w) = Some es" using assms(1) by (simp_all add: shows_stream_def)
  from hydrateFresh_prefix [OF this authority, of 0] show ?thesis using assms(2) by (simp add: max_int64_def)
qed

section \<open>A catch-up recorded too late\<close>

text \<open>A handle behind the stream's tip loses the catch-up's slot: the stream stays as it is.\<close>

lemma recordCatchUp_behind:
  assumes "displays w es" "follows es r" "others w = w" "healthy" "room (w_events w) 2"
    and "agg_state (rb_aggregate r) \<noteq> lifecycle_fold es" "\<not> stopped r" "\<not> exitPublished r"
  shows "\<exists>e r1 w1. recordCatchUp o' others i pos elapsed now r w = (CatchUpFailed e, r1, w1) \<and> displays w1 es"
proof -
  obtain k where k: "rb_name r = n" "at_prefix newV5 n es k (rb_aggregate r)" using assms(2) by (auto simp: on_prefix_def)
  have behind: "k \<noteq> length es" using at_prefix_state k(2) assms(6) by blast
  obtain res r1 w1 where app: "appendLocked o' others [CaughtUp pos elapsed now] r w = (res, r1, w1)" by (metis prod_cases3)
  have rm: "room (w_events (others w)) 2" using assms(3,5) by simp
  have tip: "clean (es @ [CaughtUp pos elapsed now])" if "k = length es" using that behind by simp
  obtain es' where es': "displays (others w) es'"
    "(\<exists>e. res = Some (AppendError (wrap64 (int k + 1)) e)) \<and> displays w1 es'"
    by (rule appendLocked_displays [OF assms(1) k _ _ tip app rm]) (use behind assms(4) in auto)
  have "es' = es" using displays_unique [OF es'(1), of es] assms(1,3) by simp
  then show ?thesis using es'(2) app assms(7,8) by (auto simp: recordCatchUp_def)
qed

text \<open>
  A refused command leaves the handle on the tip of the stream. Where the tip shows no attempt, a
  catch-up recorded next is appended all the same, and no clean stream contains it.
\<close>

lemma recordCatchUp_poisons:
  assumes "displays w es" "follows es r" "others w = w" "healthy" "room (w_events w) 2" "int (length es) < max_int64"
    and "es \<noteq> []" "st_Name (lifecycle_fold es) = n" "at_Phase (Attempt (lifecycle_fold es)) = PhaseNone"
    and "MarshalDomainEvent (domainEventCodec s) (CaughtUp pos elapsed now) = Inr b" "\<not> stopped r" "\<not> exitPublished r"
  shows "\<exists>err r1 r2 w2. recordTerminal newV5 o' others rollbackRefusal event r w = Some (Inl err, r1, w)
    \<and> recordCatchUp o' others i pos elapsed now r1 w = (CatchUpRecorded, r2, w2)
    \<and> lifecycle_stream view s newV5 n (w_events w2) = Some (es @ [CaughtUp pos elapsed now])
    \<and> \<not> clean (es @ [CaughtUp pos elapsed now])"
proof -
  let ?e = "CaughtUp pos elapsed now"
  have name: "rb_name r = n" using assms(2) by (simp add: on_prefix_def)
  obtain es2 res r1 where refold: "refoldLocked newV5 o' others r w = Some (res, r1, others w)" "displays (others w) es2"
    "res \<noteq> None \<and> r1 = r \<and> es2 = [] \<or>
     r1 = r\<lparr>rb_aggregate := rb_aggregate r1\<rparr> \<and> at_prefix newV5 n es2 (length es2) (rb_aggregate r1)
       \<and> res = checkLifecycleAggregate newV5 (rb_aggregate r1) n"
    by (rule refoldLocked_displays [OF assms(1) name])
  have "es2 = es" using displays_unique [OF refold(2), of es] assms(1,3) by simp
  then have at: "at_prefix newV5 n es (length es) (rb_aggregate r1)" "res = None" "r1 = r\<lparr>rb_aggregate := rb_aggregate r1\<rparr>"
    using refold(3) assms(7) tip_named [OF assms(1) _ assms(8)] by auto
  have refused: "\<exists>err. recordTerminal newV5 o' others rollbackRefusal event r w = Some (Inl err, r1, w)"
    using refold(1) at(2) at_prefix_state [OF at(1)] assms(3,9) by (simp add: recordTerminal_def rollbackRefusal_def)
  have run: "\<not> stopped r1" "\<not> exitPublished r1" using arg_cong [OF at(3), of stopped] arg_cong [OF at(3), of exitPublished] assms(11,12) by simp_all
  have d: "valid (w_events w)" "lifecycle_stream view s newV5 n (w_events w) = Some es" "clean es"
    using assms(1) by (simp_all add: shows_stream_def)
  obtain sres saved db where save: "ES_Save lifecycle_domain s (w_events w) (Some (Append [?e] (rb_aggregate r1))) None = (sres, saved, db)"
    by (metis prod_cases3)
  have "sres = None" using save_alone [OF d(1) assms(5) d(2) at(1) assms(4,10,6)] save by simp
  then have str: "lifecycle_stream view s newV5 n db = Some (es @ [?e])"
    using save_prefix [OF d(1) assms(5) d(2) at(1) _ _ save] by simp
  have "\<exists>r2. recordCatchUp o' others i pos elapsed now r1 w = (CatchUpRecorded, r2, w\<lparr>w_events := db\<rparr>)"
    using save \<open>sres = None\<close> run assms(3) by (simp add: recordCatchUp_def appendLocked_def authority)
  moreover have "\<not> clean (es @ [?e])"
  proof
    assume "clean (es @ [?e])"
    then have "legal (lifecycle_fold es) ?e (lifecycle_fold (es @ [?e]))" using clean_snoc(3) by (simp add: clean_def)
    then show False by cases (use assms(9) in simp_all)
  qed
  ultimately show ?thesis using refused str by auto
qed

end

end
