(* ===== verification/RunClaims.thy ===== *)
theory RunClaims
  imports RunLiveness RunVerdict RunEntry OrchestratorClaims
begin

text \<open>
  The properties of a rebuild handle's run: its claim, its certificate, how it ends and what it
  reports, over the in-memory event store where they speak of the stream.
\<close>

section \<open>The run over the memory store\<close>

text \<open>No encoding error of the codec poses as a version mismatch.\<close>

definition encodes_plainly :: "lifecycle_event event_codec \<Rightarrow> bool" where
  "encodes_plainly codec \<longleftrightarrow> (\<forall>e err. MarshalDomainEvent codec e = Inl err \<longrightarrow> as_mismatch err = None)"

lemma table_encodes_plainly: "encodes_plainly (table_codec tbl)"
  by (auto simp: encodes_plainly_def table_codec_def split: if_splits)

lemma memory_run_world:
  assumes "reads_back codec" "encodes_plainly codec" "authority o' = memory_lifecycle_store ustr fresh now codec"
    and "coexists ustr (authority o') newV5 n others"
  shows "run_world (ReadStream ustr) Next (AppendStream ustr fresh now) (stream_view ustr) (store_valid ustr)
     memory_room (\<forall>i. json_year_ok (now i)) (authority o') newV5 n o' others"
  by (intro run_world.intro [OF memory_context [OF assms(1,3,4)]] run_world_axioms.intro)
    (use assms(2,3) in \<open>simp add: encodes_plainly_def memory_es_store_def\<close>)

interpretation memory_runs: run_world "ReadStream ustr" Next "AppendStream ustr fresh now" "stream_view ustr"
    "store_valid ustr" memory_room "\<forall>i. json_year_ok (now i)"
    "authority (o'\<lparr>authority := memory_lifecycle_store ustr fresh now (table_codec tbl)\<rparr>)"
    newV5 n "o'\<lparr>authority := memory_lifecycle_store ustr fresh now (table_codec tbl)\<rparr>"
    "rival ustr newV5 (o'\<lparr>authority := memory_lifecycle_store ustr fresh now (table_codec tbl)\<rparr>) n cmd"
  for ustr fresh now tbl newV5 n o' cmd
  by (rule memory_run_world [OF table_reads_back table_encodes_plainly]) (simp_all add: rival_coexists [OF table_reads_back refl])

section \<open>A run on a caught-up attempt\<close>

abbreviation demo_takeover :: runner_takeover where
  "demo_takeover \<equiv> \<lparr>to_Actor = ''a'', to_Reason = ''r''\<rparr>"

definition demo_run_table :: "lifecycle_event list" where
  "demo_run_table = demo_table @ [RunnerClaimed 1 6 0 demo_takeover 0, RunnerClaimed 1 5 0 demo_takeover 0, CaughtUp 4 0 0]"

abbreviation demo_runs :: "(event_store, stream_iterator, unit, unit, nat, unit) orchestrator" where
  "demo_runs \<equiv> demo_orchestrator demo_run_table"

abbreviation demo_handle :: rebuild where
  "demo_handle \<equiv> new_rebuild ''a'' (tip_aggregate (\<lambda>_ _. 9) ''a'' demo_caught_up)"

abbreviation demo_attempt :: attempt_state where
  "demo_attempt \<equiv> Attempt (lifecycle_fold demo_caught_up)"

abbreviation demo_entry_beside ::
  "((event_store, unit, nat) world \<Rightarrow> (event_store, unit, nat) world) \<Rightarrow> (event_store, unit, nat) world
   \<Rightarrow> (run_entry \<times> rebuild \<times> (event_store, unit, nat) world) option" where
  "demo_entry_beside others \<equiv>
     enterRun (\<lambda>_ _. 9) demo_runs others (\<lambda>_ _ _ _ _. None) [Some (WithTakeover ''a'' ''r'')] 6 0 0 demo_handle"

abbreviation demo_entry ::
  "(event_store, unit, nat) world \<Rightarrow> (run_entry \<times> rebuild \<times> (event_store, unit, nat) world) option" where
  "demo_entry \<equiv> demo_entry_beside (\<lambda>w. w)"

lemma demo_run_table_covers: "set demo_caught_up \<subseteq> set demo_run_table" "length demo_run_table \<le> 256"
  by (auto simp: demo_run_table_def demo_table_def demo_promoted_def demo_caught_up_def)

lemma demo_run_marshals:
  "e \<in> set demo_run_table \<Longrightarrow> \<exists>b. MarshalDomainEvent (domainEventCodec (authority demo_runs)) e = Inr b"
  using demo_run_table_covers(2) by (simp add: memory_es_store_def table_codec_def)

lemma demo_unrun [simp]: "unrun (new_rebuild n a)" "\<not> ran (new_rebuild n a)"
  by (simp_all add: unrun_def new_rebuild_def)

lemma demo_options: "run_options [Some (WithTakeover ''a'' ''r'')] = Inr \<lparr>rc_takeover = demo_takeover, rc_optionErr = None\<rparr>"
  by (simp add: run_options_def WithTakeover_def)

definition demo_claim :: lifecycle_event where
  "demo_claim = RunnerClaimed 1 6 0 demo_takeover 0"

definition demo_claimed :: "lifecycle_event list" where
  "demo_claimed = demo_caught_up @ [demo_claim]"

lemma demo_claimed_state:
  "at_ID (Attempt (lifecycle_fold demo_claimed)) = 1" "at_Phase (Attempt (lifecycle_fold demo_claimed)) = PhaseCaughtUp"
  "st_Name (lifecycle_fold demo_claimed) = ''a''" "clean demo_claimed"
  by code_simp+

lemma demo_attempt_facts [simp]: "at_ID demo_attempt = 1" "catchingUp demo_attempt"
  by (simp_all add: demo_caught_up_state catchingUp_def)

lemma demo_six: "(6 :: uuid) \<noteq> uuid_nil" "(5 :: uuid) \<noteq> uuid_nil" "(1 :: uuid) \<noteq> uuid_nil"
  by (simp_all add: uuid_nil_def)

text \<open>
  Everybody else in these worlds: nothing until the entry is over (\<open>w_rest\<close>, which the run's processor
  changes, is still 0), then what keeps the stream clean and takes no position past 302.
\<close>

definition demo_beside :: "((event_store, unit, nat) world \<Rightarrow> (event_store, unit, nat) world) \<Rightarrow> bool" where
  "demo_beside others \<longleftrightarrow> (\<forall>v. w_rest v = 0 \<longrightarrow> others v = v)
     \<and> coexists (\<lambda>_. '''') (authority demo_runs) (\<lambda>_ _. 9) ''a'' others
     \<and> (\<forall>v. store_valid (\<lambda>_. '''') (w_events v) \<longrightarrow> globalCounter (w_events (others v)) \<le> max (globalCounter (w_events v)) 302)"

lemma demo_beside_id: "demo_beside (\<lambda>w. w)"
  by (simp add: demo_beside_def)

lemma demo_roomy:
  assumes "demo_beside others" "store_valid (\<lambda>_. '''') (w_events v)" "globalCounter (w_events v) \<le> 302"
  shows "roomy memory_room demo_runs others v"
  by (rule memory_roomy_beside [OF demo_authority _ assms(2,3)])
    (use assms(1) in \<open>auto simp: demo_beside_def coexists_def max_int64_def\<close>)

text \<open>A run that took the attempt over, before any of its goroutines has acted.\<close>

lemma demo_enters_beside:
  assumes "demo_beside others"
  obtains st r' w' where "memory_shows (\<lambda>_. '''') (authority demo_runs) (\<lambda>_ _. 9) ''a'' (demo_w st) demo_caught_up"
    "roomy memory_room demo_runs others (demo_w st)"
    "demo_entry_beside others (demo_w st) = Some (RunStarts demo_attempt, r', w')"
    "memory_shows (\<lambda>_. '''') (authority demo_runs) (\<lambda>_ _. 9) ''a'' w' demo_claimed" "rb_name r' = ''a''"
    "at_prefix (\<lambda>_ _. 9) ''a'' demo_claimed 5 (rb_aggregate r')" "globalCounter (w_events w') \<le> 300" "w_rest w' = 0"
    "unrun r'" "runAttempt r' = 1" "rb_runner r' = 6"
proof -
  have "set demo_caught_up \<subseteq> set (take 256 demo_run_table)" using demo_run_table_covers by simp
  from demo_shows [where ?newV5.0 = "\<lambda>_ _. 9" and n = "''a''" and c = "()" and x = 0, OF demo_streams_clean(2) this demo_lengths(1)]
  obtain st where st: "memory_shows (\<lambda>_. '''') (authority demo_runs) (\<lambda>_ _. 9) ''a'' (demo_w st) demo_caught_up"
      "globalCounter st \<le> int (length demo_caught_up)" by auto
  then have c: "globalCounter st \<le> 256" using demo_lengths(1) by simp
  have valid: "store_valid (\<lambda>_. '''') st" using st(1) by (simp add: shows_stream_def)
  have quiet: "others v = v" if "w_rest v = w_rest (demo_w st)" for v using assms that by (simp add: demo_beside_def)
  have beside: "coexists (\<lambda>_. '''') (authority demo_runs) (\<lambda>_ _. 9) ''a'' others" using assms by (simp add: demo_beside_def)
  obtain b where b: "MarshalDomainEvent (domainEventCodec (authority demo_runs)) demo_claim = Inr b"
    using demo_run_marshals [of demo_claim] by (auto simp: demo_run_table_def demo_claim_def)
  obtain r' w' where e: "demo_entry_beside others (demo_w st) = Some (RunStarts demo_attempt, r', w')"
      "memory_shows (\<lambda>_. '''') (authority demo_runs) (\<lambda>_ _. 9) ''a'' w' (demo_caught_up @ [demo_claim])" "rb_name r' = ''a''"
      "at_prefix (\<lambda>_ _. 9) ''a'' (demo_caught_up @ [demo_claim]) (Suc (length demo_caught_up)) (rb_aggregate r')"
      "moments demo_runs (\<lambda>w. w) (demo_w st) 1 w'" "w_rest w' = 0"
    by (rule lifecycle_world.enterRun_alone [OF memory_context [OF table_reads_back demo_authority beside] st(1) _ quiet
        _ _ _ _ _ demo_options, where runner = 6 and e = demo_claim
        and r = demo_handle and exited = 0 and now = 0 and newProcessor = "\<lambda>_ _ _ _ _. None" and b = b
        and h = "\<lparr>eh_Handle = (\<lambda>e x. (None, x)), eh_Teardown = Some (\<lambda>i x. (None, Suc x))\<rparr>" and x = 0])
      (use c b demo_lengths(1) demo_six in \<open>simp_all add: demo_named demo_caught_up_state standing_def demo_orchestrator_def
        max_int64_def zero_takeover_def takeover_ok_def demo_claim_def new_rebuild_def\<close>)
  have g: "store_valid (\<lambda>_. '''') (w_events w') \<and> globalCounter (w_events w') \<le> 256 + 2 * int 1"
    by (rule memory_moments [OF e(5) demo_authority]) (use valid c in \<open>simp_all add: max_int64_def\<close>)
  have "roomy memory_room demo_runs others (demo_w st)" by (rule demo_roomy [OF assms]) (use valid c in simp_all)
  moreover have "Suc (length demo_caught_up) = 5" by (simp add: demo_caught_up_def)
  moreover have "unrun r' \<and> runAttempt r' = at_ID demo_attempt \<and> rb_runner r' = 6"
    using enterRun_starts [OF e(1)] by simp
  ultimately show ?thesis
    using that [OF st(1) _ e(1)] e g by (simp add: demo_claimed_def)
qed

lemma demo_enters:
  obtains st r' w' where "memory_shows (\<lambda>_. '''') (authority demo_runs) (\<lambda>_ _. 9) ''a'' (demo_w st) demo_caught_up"
    "roomy memory_room demo_runs (\<lambda>w. w) (demo_w st)"
    "demo_entry (demo_w st) = Some (RunStarts demo_attempt, r', w')"
    "memory_shows (\<lambda>_. '''') (authority demo_runs) (\<lambda>_ _. 9) ''a'' w' demo_claimed" "rb_name r' = ''a''"
    "at_prefix (\<lambda>_ _. 9) ''a'' demo_claimed 5 (rb_aggregate r')" "roomy memory_room demo_runs (\<lambda>w. w) w'"
    "memory_room (w_events w') 2" "unrun r'" "runAttempt r' = 1" "rb_runner r' = 6"
proof -
  obtain st r' w' where e: "memory_shows (\<lambda>_. '''') (authority demo_runs) (\<lambda>_ _. 9) ''a'' (demo_w st) demo_caught_up"
    "roomy memory_room demo_runs (\<lambda>w. w) (demo_w st)"
    "demo_entry (demo_w st) = Some (RunStarts demo_attempt, r', w')"
    "memory_shows (\<lambda>_. '''') (authority demo_runs) (\<lambda>_ _. 9) ''a'' w' demo_claimed" "rb_name r' = ''a''"
    "at_prefix (\<lambda>_ _. 9) ''a'' demo_claimed 5 (rb_aggregate r')" "globalCounter (w_events w') \<le> 300"
    "unrun r'" "runAttempt r' = 1" "rb_runner r' = 6" by (rule demo_enters_beside [OF demo_beside_id])
  have "roomy memory_room demo_runs (\<lambda>w. w) w'"
    by (rule demo_roomy [OF demo_beside_id]) (use e(4,7) in \<open>simp_all add: shows_stream_def\<close>)
  then show ?thesis using that [OF e(1-6) _ _ e(8-10)] e(7) by (simp add: max_int64_def)
qed

text \<open>Undisturbed, its processor catches up at position 4, and \<open>Run\<close> records it.\<close>

abbreviation demo_course :: "(event_store, unit, nat) run \<Rightarrow> (event_store, unit, nat) run \<Rightarrow> bool" where
  "demo_course \<equiv> fair_step memory_room (\<lambda>_ _. 9) demo_runs (\<lambda>w. w) 1 6"

lemma demo_course_step: "demo_course\<^sup>*\<^sup>* z z' \<Longrightarrow> (step (\<lambda>_ _. 9) demo_runs (\<lambda>w. w) 1 6)\<^sup>*\<^sup>* z z'"
  by (induction rule: rtranclp_induct) (auto simp: fair_step_def intro: rtranclp.rtrancl_into_rtrancl)

lemma demo_course_own:
  assumes "own_step (\<lambda>_ _. 9) demo_runs (\<lambda>w. w) 1 6 z z' \<or> command_step (\<lambda>_ _. 9) demo_runs (\<lambda>w. w) z z' \<or> outside_step (\<lambda>w. w) z z'"
    and "roomy memory_room demo_runs (\<lambda>w. w) (rn_world z)" "catches_up_in_phase z" "slots_in_range z"
  shows "demo_course z z'"
  using assms by (auto simp: fair_step_def fair_run_def step_def)

lemma two_steps: "R a b \<Longrightarrow> R b c \<Longrightarrow> R\<^sup>*\<^sup>* a c"
  by (meson rtranclp.intros)

lemma three_steps: "R a b \<Longrightarrow> R b c \<Longrightarrow> R c d \<Longrightarrow> R\<^sup>*\<^sup>* a d"
  by (meson rtranclp.intros)

lemma demo_recorded:
  obtains st r' w' z c where "memory_shows (\<lambda>_. '''') (authority demo_runs) (\<lambda>_ _. 9) ''a'' (demo_w st) demo_caught_up"
    "roomy memory_room demo_runs (\<lambda>w. w) (demo_w st)" "demo_entry (demo_w st) = Some (RunStarts demo_attempt, r', w')"
    "demo_course\<^sup>*\<^sup>* (begin_run demo_attempt r' w') z" "certificate (rn_handle z) = Some c" "rn_pc z = Tailing"
proof -
  obtain st r' w' where e: "memory_shows (\<lambda>_. '''') (authority demo_runs) (\<lambda>_ _. 9) ''a'' (demo_w st) demo_caught_up"
    "roomy memory_room demo_runs (\<lambda>w. w) (demo_w st)"
    "demo_entry (demo_w st) = Some (RunStarts demo_attempt, r', w')"
    "memory_shows (\<lambda>_. '''') (authority demo_runs) (\<lambda>_ _. 9) ''a'' w' demo_claimed" "rb_name r' = ''a''"
    "at_prefix (\<lambda>_ _. 9) ''a'' demo_claimed 5 (rb_aggregate r')" "roomy memory_room demo_runs (\<lambda>w. w) w'"
    "memory_room (w_events w') 2" "unrun r'" "runAttempt r' = 1" "rb_runner r' = 6" by (rule demo_enters)
  have len: "5 = length demo_claimed" by (simp add: demo_claimed_def demo_caught_up_def)
  have st: "agg_state (rb_aggregate r') = lifecycle_fold demo_claimed" using e(6) unfolding len by (rule at_prefix_state)
  obtain b where b: "MarshalDomainEvent (domainEventCodec (authority demo_runs)) (CaughtUp 4 0 0) = Inr b"
    using demo_run_marshals [of "CaughtUp 4 0 0"] by (auto simp: demo_run_table_def)
  obtain r1 w1 where "appendLocked demo_runs (\<lambda>w. w) [CaughtUp 4 0 0] r' w' = (None, r1, w1)"
    using lifecycle_world.appendLocked_alone [OF demo_context e(4) e(6) [unfolded len] _ _ e(8) b]
    by (auto simp: demo_claimed_def demo_caught_up_def max_int64_def)
  then obtain r3 c where rec: "recordCatchUp demo_runs (\<lambda>w. w) 1 4 0 0 r' w' = (CatchUpRecorded, r3, w1)" "certificate r3 = Some c"
    using e(9) by (simp add: recordCatchUp_def unrun_def)
  let ?z0 = "begin_run demo_attempt r' w'"
  let ?z1 = "?z0\<lparr>rn_caughtUp := Some 4\<rparr>"
  let ?z2 = "?z1\<lparr>rn_pc := Recording 4\<rparr>"
  let ?z3 = "?z2\<lparr>rn_handle := (if CatchUpRecorded = CatchUpExited then stop_processor r3 else r3), rn_world := w1,
     rn_pc := after_catch_up (autoPromote demo_runs) CatchUpRecorded\<rparr>"
  have one: "outside_step (\<lambda>w. w) ?z0 ?z1" by (rule processor_catches_up) (simp_all add: begin_run_def)
  have two: "run_step (\<lambda>_ _. 9) demo_runs (\<lambda>w. w) 1 6 ?z1 ?z2" by (rule drain_head) (simp_all add: begin_run_def)
  have three: "run_step (\<lambda>_ _. 9) demo_runs (\<lambda>w. w) 1 6 ?z2 ?z3"
    by (rule record_catch_up [where elapsed = 0 and now = 0]) (use rec(1) in \<open>simp_all add: begin_run_def\<close>)
  have "demo_course ?z0 ?z1" "demo_course ?z1 ?z2" "demo_course ?z2 ?z3"
    by (rule demo_course_own; use one two three e(7) st demo_claimed_state(2) in
      \<open>simp add: own_step_def begin_run_def catches_up_in_phase_def slots_in_range_def\<close>)+
  from three_steps [where R = demo_course, OF this] show ?thesis
    by (rule that [OF e(1-3)]) (simp_all add: rec(2) after_catch_up_def demo_orchestrator_def)
qed

section \<open>What holds of every run\<close>

text \<open>The states of the run that an entry started.\<close>

lemma entered_sound:
  assumes "enterRun newV5 o' others newProcessor opts runner exited now r w = Some (RunStarts attempt, r', w')" "unrun r"
    and "(step newV5 o' others (at_ID attempt) runner)\<^sup>*\<^sup>* (begin_run attempt r' w') z"
  shows "run_sound (at_ID attempt) runner z"
proof -
  have "unrun r'" "runAttempt r' = at_ID attempt" "rb_runner r' = runner"
    using enterRun_starts [OF assms(1,2)] by simp_all
  then have "run_sound (at_ID attempt) runner (begin_run attempt r' w')" using begin_run_sound by metis
  then show ?thesis by (rule steps_sound [OF assms(3)])
qed

lemma uncertified_promotes_nothing:
  assumes "certificate_refusal r = Some (e, d)" "Promote newV5 o' others t r w = (res, r2, w2)"
  shows "res \<noteq> None \<and> w2 = w"
proof (cases "checkLifecycleAggregate newV5 (rb_aggregate r) (rb_name r)")
  case None
  then show ?thesis using assms by (auto simp: Promote_def Let_def split: phase.splits)
next
  case (Some err)
  then have "(Some err, r, w) = (res, r2, w2)" using assms(2) by (simp add: Promote_def)
  then show ?thesis by auto
qed

lemma demo_takeovers: "takeover_options [Some (WithTakeover ''a'' ''r'')]"
  by (auto simp: takeover_options_def)

text \<open>A run whose attempt is abandoned through its own handle.\<close>

lemma recordTerminal_stops:
  "recordTerminal newV5 o' others refusal event r w = Some (Inr (ae, True), r', w') \<Longrightarrow> stopped r'"
  by (auto simp: recordTerminal_def endRun_def Let_def split: option.splits prod.splits if_splits)

lemma demo_abandoned:
  obtains st r' w' z where "memory_shows (\<lambda>_. '''') (authority demo_runs) (\<lambda>_ _. 9) ''a'' (demo_w st) demo_caught_up"
    "roomy memory_room demo_runs (\<lambda>w. w) (demo_w st)" "demo_entry (demo_w st) = Some (RunStarts demo_attempt, r', w')"
    "demo_course\<^sup>*\<^sup>* (begin_run demo_attempt r' w') z" "stopped (rn_handle z)" "failure (rn_handle z) = None"
proof -
  obtain st r' w' where e: "memory_shows (\<lambda>_. '''') (authority demo_runs) (\<lambda>_ _. 9) ''a'' (demo_w st) demo_caught_up"
    "roomy memory_room demo_runs (\<lambda>w. w) (demo_w st)"
    "demo_entry (demo_w st) = Some (RunStarts demo_attempt, r', w')"
    "memory_shows (\<lambda>_. '''') (authority demo_runs) (\<lambda>_ _. 9) ''a'' w' demo_claimed" "rb_name r' = ''a''"
    "at_prefix (\<lambda>_ _. 9) ''a'' demo_claimed 5 (rb_aggregate r')" "roomy memory_room demo_runs (\<lambda>w. w) w'"
    "memory_room (w_events w') 2" "unrun r'" "runAttempt r' = 1" "rb_runner r' = 6" by (rule demo_enters)
  let ?p = "pauseRetries r'" and ?cmd = "AbandonCommand ''c''"
  have p: "rb_name ?p = ''a''" "rb_aggregate ?p = rb_aggregate r'" "runAttempt ?p = 1" "failure ?p = None" "\<not> stopped ?p"
    using e(5,9,10) by (simp_all add: pauseRetries_def unrun_def)
  have f: "on_prefix (\<lambda>_ _. 9) ''a'' demo_claimed ?p" using p e(6) by (auto simp: on_prefix_def)
  obtain b where b: "MarshalDomainEvent (domainEventCodec (authority demo_runs)) (Abandoned ''c'') = Inr b"
    using demo_run_marshals [of "Abandoned ''c''"] by (auto simp: demo_run_table_def demo_table_def)
  have ok: "command_refusal ?cmd (lifecycle_fold demo_claimed) = None"
    by (simp add: command_refusal_def abandonRefusal_def demo_claimed_state)
  obtain ended r2 w2 where rec: "recordTerminal (\<lambda>_ _. 9) demo_runs (\<lambda>w. w) (command_refusal ?cmd) (command_event ?cmd) ?p w'
      = Some (Inr (None, ended), r2, w2)"
    using lifecycle_world.recordTerminal_alone [where event = "command_event ?cmd" and refusal = "command_refusal ?cmd" and b = b,
        OF demo_context e(4) f _ _ e(8) _ _ demo_claimed_state(3) _ ok] b
    by (auto simp: command_event_def demo_claimed_def demo_caught_up_def max_int64_def)
  have ended
    using lifecycle_world.recordTerminal_keeps [OF demo_context e(4) f rec _ lifecycle_world.legal_command [OF demo_context]
        lifecycle_world.command_in_flight [OF demo_context]] e(4,8) p(3)
      demo_claimed_state(1) lifecycle_world.displays_unique [OF demo_context e(4)] by fastforce
  then have st: "stopped r2" using recordTerminal_stops rec by simp
  have fl: "failure r2 = None" using recordTerminal_touches [OF rec] p(4) by (auto simp: same_verdict_def)
  let ?z0 = "begin_run demo_attempt r' w'"
  let ?z1 = "?z0\<lparr>rn_handle := pauseRetries (rn_handle ?z0), rn_commands := rn_commands ?z0 @ [Announced ?cmd]\<rparr>"
  let ?z2 = "?z1\<lparr>rn_handle := r2, rn_world := w2, rn_commands := (rn_commands ?z1)[0 := (case (Inr (None, ended) :: go_error + go_error option \<times> bool) of
        Inr (appendErr, True) \<Rightarrow> if stopProcessor r2 then StoppingRun else Withdrawing | _ \<Rightarrow> Withdrawing)]\<rparr>"
  have one: "command_step (\<lambda>_ _. 9) demo_runs (\<lambda>w. w) ?z0 ?z1" by (rule command_announced)
  have two: "command_step (\<lambda>_ _. 9) demo_runs (\<lambda>w. w) ?z1 ?z2"
    by (rule command_commits [where cmd = ?cmd]) (use rec in \<open>simp_all add: begin_run_def\<close>)
  have "demo_course ?z0 ?z1" "demo_course ?z1 ?z2"
    by (rule demo_course_own; use one two e(7) in
      \<open>simp add: begin_run_def catches_up_in_phase_def slots_in_range_def\<close>)+
  then have "demo_course\<^sup>*\<^sup>* ?z0 ?z2" by (rule two_steps [where R = demo_course])
  then show ?thesis by (rule that [OF e(1-3)]) (simp_all add: st fl)
qed

text \<open>
  Another handle, at the tip, records \<open>e\<close> right after the claim, once the run's processor has worked:
  an abandonment of the attempt, or the claim of another runner.
\<close>

definition demo_rival :: "lifecycle_event \<Rightarrow> (event_store, unit, nat) world \<Rightarrow> (event_store, unit, nat) world" where
  "demo_rival e w =
     (if w_rest w \<noteq> 0 \<and> store_valid (\<lambda>_. '''') (w_events w) \<and> globalCounter (w_events w) \<le> 300
         \<and> lifecycle_stream (stream_view (\<lambda>_. '''')) (authority demo_runs) (\<lambda>_ _. 9) ''a'' (w_events w) = Some demo_claimed
      then snd (snd (appendLocked demo_runs (\<lambda>w. w) [e] (new_rebuild ''a'' (tip_aggregate (\<lambda>_ _. 9) ''a'' demo_claimed)) w))
      else w)"

definition demo_rivalry :: "lifecycle_event \<Rightarrow> bool" where
  "demo_rivalry e \<longleftrightarrow> e \<in> set demo_run_table \<and> clean (demo_claimed @ [e])"

lemma demo_rival_writes:
  assumes "demo_rivalry e" "w_rest w \<noteq> 0" "globalCounter (w_events w) \<le> 300"
    and "memory_shows (\<lambda>_. '''') (authority demo_runs) (\<lambda>_ _. 9) ''a'' w demo_claimed"
  shows "memory_shows (\<lambda>_. '''') (authority demo_runs) (\<lambda>_ _. 9) ''a'' (demo_rival e w) (demo_claimed @ [e])
    \<and> globalCounter (w_events (demo_rival e w)) \<le> 302"
proof -
  let ?r = "new_rebuild ''a'' (tip_aggregate (\<lambda>_ _. 9) ''a'' demo_claimed)"
  have at: "at_prefix (\<lambda>_ _. 9) ''a'' demo_claimed (length demo_claimed) (rb_aggregate ?r)" "rb_name ?r = ''a''"
    by (simp_all add: new_rebuild_def)
  have room: "memory_room (w_events w) 2" using assms(3) by (simp add: max_int64_def)
  have shown: "store_valid (\<lambda>_. '''') (w_events w)"
      "lifecycle_stream (stream_view (\<lambda>_. '''')) (authority demo_runs) (\<lambda>_ _. 9) ''a'' (w_events w) = Some demo_claimed"
    using assms(4) by (simp_all add: shows_stream_def)
  obtain b where b: "MarshalDomainEvent (domainEventCodec (authority demo_runs)) e = Inr b"
    using demo_run_marshals assms(1) by (auto simp: demo_rivalry_def)
  obtain r1 w1 where app: "appendLocked demo_runs (\<lambda>w. w) [e] ?r w = (None, r1, w1)"
    using lifecycle_world.appendLocked_alone [OF demo_context assms(4) at(1) refl _ room b]
    by (auto simp: demo_claimed_def demo_caught_up_def max_int64_def)
  have w1: "demo_rival e w = w1" using app assms(2,3) shown by (simp add: demo_rival_def)
  have c: "clean (demo_claimed @ [e])" using assms(1) by (simp add: demo_rivalry_def)
  have "memory_shows (\<lambda>_. '''') (authority demo_runs) (\<lambda>_ _. 9) ''a'' w1 (demo_claimed @ [e])"
    by (rule lifecycle_world.appendLocked_displays [OF demo_context assms(4) at(2,1) _ _ _ app room]; simp add: c)
  moreover have "moments demo_runs (\<lambda>w. w) w 1 w1"
    using lifecycle_world.appendLocked_calm [OF demo_context at(1) _ _ app] by simp
  then have "globalCounter (w_events w1) \<le> 300 + 2 * int 1"
    using memory_moments [OF _ demo_authority] shown(1) assms(3) by (fastforce simp: max_int64_def)
  ultimately show ?thesis by (simp add: w1)
qed

lemma demo_rival_rests:
  "w_rest w = 0 \<Longrightarrow> demo_rival e w = w"
  "lifecycle_stream (stream_view (\<lambda>_. '''')) (authority demo_runs) (\<lambda>_ _. 9) ''a'' (w_events w) \<noteq> Some demo_claimed
    \<Longrightarrow> demo_rival e w = w"
  by (auto simp: demo_rival_def)

lemma demo_rival_beside:
  assumes "demo_rivalry e"
  shows "demo_beside (demo_rival e)"
proof -
  have acts: "demo_rival e w = w \<or>
      memory_shows (\<lambda>_. '''') (authority demo_runs) (\<lambda>_ _. 9) ''a'' w demo_claimed
      \<and> memory_shows (\<lambda>_. '''') (authority demo_runs) (\<lambda>_ _. 9) ''a'' (demo_rival e w) (demo_claimed @ [e])
      \<and> globalCounter (w_events (demo_rival e w)) \<le> 302" for w
  proof (cases "w_rest w \<noteq> 0 \<and> store_valid (\<lambda>_. '''') (w_events w) \<and> globalCounter (w_events w) \<le> 300
         \<and> lifecycle_stream (stream_view (\<lambda>_. '''')) (authority demo_runs) (\<lambda>_ _. 9) ''a'' (w_events w) = Some demo_claimed")
    case True
    then have "memory_shows (\<lambda>_. '''') (authority demo_runs) (\<lambda>_ _. 9) ''a'' w demo_claimed"
      by (simp add: shows_stream_def demo_claimed_state)
    then show ?thesis using demo_rival_writes [OF assms] True by blast
  next
    case False
    then show ?thesis unfolding demo_rival_def by argo
  qed
  have "store_valid (\<lambda>_. '''') (w_events (demo_rival e w))" if "store_valid (\<lambda>_. '''') (w_events w)" for w
    using acts [of w] that by (auto simp: shows_stream_def)
  moreover have "\<exists>fs. memory_shows (\<lambda>_. '''') (authority demo_runs) (\<lambda>_ _. 9) ''a'' (demo_rival e w) (es @ fs)"
    if "memory_shows (\<lambda>_. '''') (authority demo_runs) (\<lambda>_ _. 9) ''a'' w es" for w es
    using acts [of w] that lifecycle_world.displays_unique [OF demo_context that] by (metis append_Nil2)
  moreover have "globalCounter (w_events (demo_rival e w)) \<le> max (globalCounter (w_events w)) 302" for w
    using acts [of w] by auto
  ultimately show ?thesis using demo_rival_rests(1) by (simp add: demo_beside_def coexists_def)
qed

text \<open>
  The run of an entry with such a rival: its processor catches up, \<open>Run\<close> turns to recording that, and
  then the rival writes. The run's handle still stands on its claim.
\<close>

lemma demo_rivalled:
  assumes "demo_rivalry e"
  obtains st r' w' z where "memory_shows (\<lambda>_. '''') (authority demo_runs) (\<lambda>_ _. 9) ''a'' (demo_w st) demo_caught_up"
    "roomy memory_room demo_runs (demo_rival e) (demo_w st)"
    "demo_entry_beside (demo_rival e) (demo_w st) = Some (RunStarts demo_attempt, r', w')"
    "(fair_step memory_room (\<lambda>_ _. 9) demo_runs (demo_rival e) 1 6)\<^sup>*\<^sup>* (begin_run demo_attempt r' w') z"
    "rn_pc z = Recording 4" "rn_handle z = r'" "unrun r'" "rn_reconcile z = Ticking" "rb_name r' = ''a''"
    "at_prefix (\<lambda>_ _. 9) ''a'' demo_claimed 5 (rb_aggregate r')"
    "memory_shows (\<lambda>_. '''') (authority demo_runs) (\<lambda>_ _. 9) ''a'' (rn_world z) (demo_claimed @ [e])"
    "demo_rival e (rn_world z) = rn_world z" "fair_run memory_room demo_runs (demo_rival e) z"
    "memory_room (w_events (rn_world z)) 2"
proof -
  let ?others = "demo_rival e" and ?fair = "fair_step memory_room (\<lambda>_ _. 9) demo_runs (demo_rival e) 1 6"
  note beside = demo_rival_beside [OF assms]
  obtain st r' w' where e: "memory_shows (\<lambda>_. '''') (authority demo_runs) (\<lambda>_ _. 9) ''a'' (demo_w st) demo_caught_up"
    "roomy memory_room demo_runs ?others (demo_w st)"
    "demo_entry_beside ?others (demo_w st) = Some (RunStarts demo_attempt, r', w')"
    "memory_shows (\<lambda>_. '''') (authority demo_runs) (\<lambda>_ _. 9) ''a'' w' demo_claimed" "rb_name r' = ''a''"
    "at_prefix (\<lambda>_ _. 9) ''a'' demo_claimed 5 (rb_aggregate r')" "globalCounter (w_events w') \<le> 300" "w_rest w' = 0"
    "unrun r'" by (rule demo_enters_beside [OF beside])
  have len: "5 = length demo_claimed" by (simp add: demo_claimed_def demo_caught_up_def)
  have phase: "at_Phase (Attempt (agg_state (rb_aggregate r'))) = PhaseCaughtUp"
    using at_prefix_state [OF e(6) [unfolded len]] by (simp add: demo_claimed_state)
  let ?w = "w'\<lparr>w_checkpoints := (), w_rest := 1\<rparr>"
  have shown: "memory_shows (\<lambda>_. '''') (authority demo_runs) (\<lambda>_ _. 9) ''a'' ?w demo_claimed"
    using e(4) by (simp add: shows_stream_def)
  have rival: "memory_shows (\<lambda>_. '''') (authority demo_runs) (\<lambda>_ _. 9) ''a'' (?others ?w) (demo_claimed @ [e])"
      "globalCounter (w_events (?others ?w)) \<le> 302"
    using demo_rival_writes [OF assms _ _ shown] e(7) by simp_all
  let ?z0 = "begin_run demo_attempt r' w'"
  let ?z1 = "?z0\<lparr>rn_caughtUp := Some 4\<rparr>"
  let ?z2 = "?z1\<lparr>rn_pc := Recording 4\<rparr>"
  let ?z3 = "?z2\<lparr>rn_world := ?w\<rparr>"
  let ?z4 = "?z3\<lparr>rn_world := ?others ?w\<rparr>"
  have valid: "store_valid (\<lambda>_. '''') (w_events w')" "store_valid (\<lambda>_. '''') (w_events (?others ?w))"
    using e(4) rival(1) by (simp_all add: shows_stream_def)
  have roomy: "roomy memory_room demo_runs ?others w'" "roomy memory_room demo_runs ?others ?w"
      "roomy memory_room demo_runs ?others (?others ?w)"
    by (rule demo_roomy [OF beside]; use valid e(7) rival(2) in simp)+
  have s: "outside_step ?others ?z0 ?z1" "run_step (\<lambda>_ _. 9) demo_runs ?others 1 6 ?z1 ?z2"
      "outside_step ?others ?z2 ?z3" "outside_step ?others ?z3 ?z4"
  proof -
    show "outside_step ?others ?z0 ?z1" by (rule processor_catches_up) (simp_all add: begin_run_def)
    show "run_step (\<lambda>_ _. 9) demo_runs ?others 1 6 ?z1 ?z2" by (rule drain_head) (simp_all add: begin_run_def)
    show "outside_step ?others ?z2 ?z3"
      using processor_works [where z = ?z2 and others = ?others and c = "()" and x = 1] by (simp add: begin_run_def)
    show "outside_step ?others ?z3 ?z4" using elsewhere_writes [of ?others ?z3] by simp
  qed
  have "?fair ?z0 ?z1" "?fair ?z1 ?z2" "?fair ?z2 ?z3" "?fair ?z3 ?z4"
    using s roomy phase
    by (simp_all add: fair_step_def fair_run_def step_def own_step_def begin_run_def catches_up_in_phase_def slots_in_range_def)
  then have course: "?fair\<^sup>*\<^sup>* ?z0 ?z4" by (meson rtranclp.intros)
  have "lifecycle_stream (stream_view (\<lambda>_. '''')) (authority demo_runs) (\<lambda>_ _. 9) ''a'' (w_events (?others ?w)) \<noteq> Some demo_claimed"
    using rival(1) by (simp add: shows_stream_def)
  then have still: "?others (?others ?w) = ?others ?w" by (rule demo_rival_rests(2))
  show ?thesis
    by (rule that [OF e(1-3) course])
      (use e(5,6,9) rival roomy(3) phase still in \<open>simp_all add: begin_run_def fair_run_def catches_up_in_phase_def
        slots_in_range_def max_int64_def\<close>)
qed

text \<open>Where the rival was another runner's claim, the reconcile loop of the displaced run finds it.\<close>

definition demo_displacer :: lifecycle_event where
  "demo_displacer = RunnerClaimed 1 5 0 demo_takeover 0"

lemma demo_displacer_state:
  "demo_rivalry demo_displacer" "at_ID (Attempt (lifecycle_fold (demo_claimed @ [demo_displacer]))) = 1"
  "Runner (Attempt (lifecycle_fold (demo_claimed @ [demo_displacer]))) = 5"
  "st_Name (lifecycle_fold (demo_claimed @ [demo_displacer])) = ''a''"
proof -
  have "clean (demo_claimed @ [demo_displacer])" by code_simp
  then show "demo_rivalry demo_displacer"
    by (simp add: demo_rivalry_def demo_run_table_def demo_displacer_def)
qed code_simp+

lemma demo_displaced:
  obtains st r' w' z where "memory_shows (\<lambda>_. '''') (authority demo_runs) (\<lambda>_ _. 9) ''a'' (demo_w st) demo_caught_up"
    "roomy memory_room demo_runs (demo_rival demo_displacer) (demo_w st)"
    "demo_entry_beside (demo_rival demo_displacer) (demo_w st) = Some (RunStarts demo_attempt, r', w')"
    "(fair_step memory_room (\<lambda>_ _. 9) demo_runs (demo_rival demo_displacer) 1 6)\<^sup>*\<^sup>* (begin_run demo_attempt r' w') z"
    "failure (rn_handle z) = Some displacedError"
proof -
  let ?others = "demo_rival demo_displacer" and ?es = "demo_claimed @ [demo_displacer]"
  let ?fair = "fair_step memory_room (\<lambda>_ _. 9) demo_runs ?others 1 6"
  obtain st r' w' z where e: "memory_shows (\<lambda>_. '''') (authority demo_runs) (\<lambda>_ _. 9) ''a'' (demo_w st) demo_caught_up"
    "roomy memory_room demo_runs ?others (demo_w st)"
    "demo_entry_beside ?others (demo_w st) = Some (RunStarts demo_attempt, r', w')"
    "?fair\<^sup>*\<^sup>* (begin_run demo_attempt r' w') z" "rn_pc z = Recording 4" "rn_handle z = r'" "unrun r'"
    "rn_reconcile z = Ticking" "rb_name r' = ''a''" "at_prefix (\<lambda>_ _. 9) ''a'' demo_claimed 5 (rb_aggregate r')"
    "memory_shows (\<lambda>_. '''') (authority demo_runs) (\<lambda>_ _. 9) ''a'' (rn_world z) ?es" "?others (rn_world z) = rn_world z"
    "fair_run memory_room demo_runs ?others z"
    by (rule demo_rivalled [OF demo_displacer_state(1)])
  obtain a where a: "hydrateFresh (\<lambda>_ _. 9) demo_runs ''a'' 0 (w_events (rn_world z)) = Some (Inr a)"
      "at_prefix (\<lambda>_ _. 9) ''a'' ?es (length ?es) a"
    using lifecycle_world.hydrateFresh_tip [OF demo_context e(11)] by auto
  have st: "agg_state a = lifecycle_fold ?es" by (rule at_prefix_state [OF a(2)])
  have named: "checkLifecycleAggregate (\<lambda>_ _. 9) a ''a'' = None"
    by (rule lifecycle_world.tip_named [OF demo_context e(11) a(2) demo_displacer_state(4)])
  have "agg_version (rb_aggregate r') \<le> agg_version a" using e(10) a(2) by (simp add: at_prefix_def demo_claimed_def demo_caught_up_def)
  then obtain r2 where r2: "reconcileLoaded (\<lambda>_ _. 9) 1 6 a r' = (TickStop, r2)" "failure r2 = Some displacedError"
    using e(7,9) named st demo_displacer_state(2,3) by (auto simp: reconcileLoaded_def unrun_def)
  let ?z1 = "z\<lparr>rn_reconcile := Ticked\<rparr>"
  let ?z2 = "?z1\<lparr>rn_reconcile := (if stopped (rn_handle ?z1) then Exited else Loading)\<rparr>"
  let ?z3 = "?z2\<lparr>rn_world := ?others (rn_world ?z2), rn_reconcile := Loaded (Inr a)\<rparr>"
  let ?z4 = "?z3\<lparr>rn_handle := r2, rn_reconcile := after_verdict TickStop\<rparr>"
  have run: "\<not> stopped r'" using e(7) by (simp add: unrun_def)
  have s: "outside_step ?others z ?z1" "reconcile_step (\<lambda>_ _. 9) demo_runs ?others 1 6 ?z1 ?z2"
      "reconcile_step (\<lambda>_ _. 9) demo_runs ?others 1 6 ?z2 ?z3" "reconcile_step (\<lambda>_ _. 9) demo_runs ?others 1 6 ?z3 ?z4"
  proof -
    show "outside_step ?others z ?z1" by (rule reconcile_tick [OF e(8)])
    show "reconcile_step (\<lambda>_ _. 9) demo_runs ?others 1 6 ?z1 ?z2" by (rule reconcile_checks) simp
    show "reconcile_step (\<lambda>_ _. 9) demo_runs ?others 1 6 ?z2 ?z3"
      by (rule reconcile_loads) (use run e(6,9,12) a(1) in \<open>simp_all add: fold_reads_def\<close>)
    show "reconcile_step (\<lambda>_ _. 9) demo_runs ?others 1 6 ?z3 ?z4"
      by (rule reconcile_judges) (use r2(1) e(6) in simp_all)
  qed
  have "?fair z ?z1" "?fair ?z1 ?z2" "?fair ?z2 ?z3" "?fair ?z3 ?z4"
    using s e(5,12,13)
    by (simp_all add: fair_step_def fair_run_def step_def own_step_def catches_up_in_phase_def slots_in_range_def)
  then have "?fair\<^sup>*\<^sup>* (begin_run demo_attempt r' w') ?z4" using e(4) by (meson rtranclp.intros)
  then show ?thesis by (rule that [OF e(1-3)]) (simp add: r2(2))
qed

text \<open>A run whose context ends, and one that has returned.\<close>

lemma demo_ends:
  obtains st r' w' z where "demo_entry (demo_w st) = Some (RunStarts demo_attempt, r', w')"
    "(step (\<lambda>_ _. 9) demo_runs (\<lambda>w. w) 1 6)\<^sup>*\<^sup>* (begin_run demo_attempt r' w') z" "comes_down (\<lambda>_ _. 9) demo_runs z"
proof -
  obtain st r' w' z where e: "demo_entry (demo_w st) = Some (RunStarts demo_attempt, r', w')"
    "demo_course\<^sup>*\<^sup>* (begin_run demo_attempt r' w') z" by (rule demo_recorded)
  have s1: "(step (\<lambda>_ _. 9) demo_runs (\<lambda>w. w) 1 6)\<^sup>*\<^sup>* (begin_run demo_attempt r' w') z" using demo_course_step [OF e(2)] by blast
  show ?thesis
  proof (cases "rn_ctx z")
    case None
    have "step (\<lambda>_ _. 9) demo_runs (\<lambda>w. w) 1 6 z (z\<lparr>rn_ctx := Some ContextCanceled\<rparr>)"
      using context_ends [OF None] by (simp add: step_def)
    then show ?thesis using that [OF e(1) rtranclp.rtrancl_into_rtrancl [OF s1]] by (simp add: comes_down_def)
  next
    case (Some c)
    then show ?thesis using that [OF e(1) s1] by (simp add: comes_down_def)
  qed
qed

lemma due_steps_are_steps: "(due_step newV5 o' others i j)\<^sup>*\<^sup>* z z' \<Longrightarrow> (step newV5 o' others i j)\<^sup>*\<^sup>* z z'"
  by (induction rule: rtranclp_induct) (auto simp: due_step_def step_def intro: rtranclp.rtrancl_into_rtrancl)

lemma demo_returns:
  obtains st r' w' z res where "demo_entry (demo_w st) = Some (RunStarts demo_attempt, r', w')"
    "(step (\<lambda>_ _. 9) demo_runs (\<lambda>w. w) 1 6)\<^sup>*\<^sup>* (begin_run demo_attempt r' w') z" "rn_pc z = Returned res"
proof -
  obtain st r' w' z where e: "demo_entry (demo_w st) = Some (RunStarts demo_attempt, r', w')"
    "(step (\<lambda>_ _. 9) demo_runs (\<lambda>w. w) 1 6)\<^sup>*\<^sup>* (begin_run demo_attempt r' w') z" "comes_down (\<lambda>_ _. 9) demo_runs z"
    by (rule demo_ends)
  have "run_sound 1 6 z" using entered_sound [OF e(1) demo_unrun(1), unfolded demo_attempt_facts, OF e(2)] .
  from comes_down_returns [OF e(3) this] obtain z' res where
    "(due_step (\<lambda>_ _. 9) demo_runs (\<lambda>w. w) 1 6)\<^sup>*\<^sup>* z z'" "rn_pc z' = Returned res" by blast
  then show ?thesis using that [OF e(1) rtranclp_trans [OF e(2) due_steps_are_steps]] by blast
qed

text \<open>
  C8. A promotion certificate vouches for the run that holds it: in whatever order the goroutines of
  the run and the commands on its handle act, whatever the store does, a handle that holds a
  certificate holds it for the run's own attempt and runner, at the position its processor caught up
  at, and only while the processor has not exited; once it has, no promotion through the handle
  records anything.
\<close>

theorem certificate_vouches_for_run:
  assumes "enterRun newV5 o' others newProcessor opts runner exited now r w = Some (RunStarts attempt, r', w')" "unrun r"
    and "(step newV5 o' others (at_ID attempt) runner)\<^sup>*\<^sup>* (begin_run attempt r' w') z"
  shows "(\<forall>c. certificate (rn_handle z) = Some c \<longrightarrow> ct_attempt c = at_ID attempt \<and> ct_runner c = runner
      \<and> ct_exited c = processorExited (rn_handle z) \<and> rn_caughtUp z = Some (ct_position c) \<and> \<not> finished z)
    \<and> (finished z \<longrightarrow> (\<forall>t res r2 w2. Promote newV5 o' others t (rn_handle z) (rn_world z) = (res, r2, w2)
        \<longrightarrow> res \<noteq> None \<and> w2 = rn_world z))"
proof -
  have snd: "run_identity (at_ID attempt) runner z" "vouches (at_ID attempt) runner z"
    using entered_sound [OF assms] by (simp_all add: run_sound_def)
  have ex: "exitPublished (rn_handle z) \<longleftrightarrow> finished z" using snd(1) by (simp add: run_identity_def finished_def Let_def)
  then have "certificate (rn_handle z) = None" if "finished z"
    using snd(2) that by (auto simp: vouches_def split: option.splits)
  then have refused: "\<exists>e d. certificate_refusal (rn_handle z) = Some (e, d)" if "finished z"
    using that by (auto simp: certificate_refusal_def Let_def split: option.split)
  have "res \<noteq> None \<and> w2 = rn_world z"
    if "finished z" "Promote newV5 o' others t (rn_handle z) (rn_world z) = (res, r2, w2)" for t res r2 w2
    using refused [OF that(1)] uncertified_promotes_nothing [OF _ that(2)] by blast
  then show ?thesis using snd(2) ex by (auto simp: vouches_def)
qed

lemma certificate_vouches_for_run_witness:
  "\<exists>st r' w' z c. demo_entry (demo_w st) = Some (RunStarts demo_attempt, r', w')
    \<and> (step (\<lambda>_ _. 9) demo_runs (\<lambda>w. w) 1 6)\<^sup>*\<^sup>* (begin_run demo_attempt r' w') z
    \<and> certificate (rn_handle z) = Some c \<and> ct_attempt c = 1 \<and> ct_runner c = 6 \<and> rn_caughtUp z = Some (ct_position c)"
proof -
  obtain st r' w' z c where e: "demo_entry (demo_w st) = Some (RunStarts demo_attempt, r', w')"
    "demo_course\<^sup>*\<^sup>* (begin_run demo_attempt r' w') z" "certificate (rn_handle z) = Some c" by (rule demo_recorded)
  have st: "(step (\<lambda>_ _. 9) demo_runs (\<lambda>w. w) 1 6)\<^sup>*\<^sup>* (begin_run demo_attempt r' w') z" using demo_course_step [OF e(2)] by blast
  show ?thesis
    using certificate_vouches_for_run [OF e(1) demo_unrun(1), unfolded demo_attempt_facts, OF st] e(1,3) st by blast
qed

text \<open>
  C13. The order in which a run takes itself down: in every reachable state in which \<open>Run\<close> releases its
  claim or has returned, the processor has exited and the reconcile loop has been joined; and once
  \<open>Run\<close> has returned, none of its goroutines acts again.
\<close>

theorem claim_released_last:
  assumes "enterRun newV5 o' others newProcessor opts runner exited now r w = Some (RunStarts attempt, r', w')" "unrun r"
    and "(step newV5 o' others (at_ID attempt) runner)\<^sup>*\<^sup>* (begin_run attempt r' w') z"
    and "rn_pc z = Releasing res \<or> rn_pc z = Returned res"
  shows "finished z \<and> rn_reconcile z = Exited
    \<and> (rn_pc z = Returned res \<longrightarrow> \<not> own_step newV5 o' others (at_ID attempt) runner z z')"
proof -
  have c: "on_course z" using entered_sound [OF assms(1-3)] by (simp add: run_sound_def)
  then have f: "finished z \<and> rn_reconcile z = Exited" using assms(4) by (auto simp: on_course_def)
  have "\<not> run_step newV5 o' others (at_ID attempt) runner z z'" if "rn_pc z = Returned res"
    using that by (auto elim: run_step.cases)
  moreover have "\<not> processor_step z z'" using f by (auto simp: finished_def elim: processor_step.cases)
  moreover have "\<not> reconcile_step newV5 o' others (at_ID attempt) runner z z'"
    using f reconcile_step_defers(6) by metis
  ultimately show ?thesis using f by (auto simp: own_step_def)
qed

lemma claim_released_last_witness:
  "\<exists>st r' w' z res. demo_entry (demo_w st) = Some (RunStarts demo_attempt, r', w')
    \<and> (step (\<lambda>_ _. 9) demo_runs (\<lambda>w. w) 1 6)\<^sup>*\<^sup>* (begin_run demo_attempt r' w') z \<and> rn_pc z = Returned res
    \<and> finished z \<and> (\<forall>z'. \<not> own_step (\<lambda>_ _. 9) demo_runs (\<lambda>w. w) 1 6 z z')"
proof -
  obtain st r' w' z res where e: "demo_entry (demo_w st) = Some (RunStarts demo_attempt, r', w')"
    "(step (\<lambda>_ _. 9) demo_runs (\<lambda>w. w) 1 6)\<^sup>*\<^sup>* (begin_run demo_attempt r' w') z" "rn_pc z = Returned res"
    by (rule demo_returns)
  have "finished z \<and> \<not> own_step (\<lambda>_ _. 9) demo_runs (\<lambda>w. w) 1 6 z z'" for z'
    using claim_released_last [OF e(1) demo_unrun(1), unfolded demo_attempt_facts, OF e(2), of res z'] e(3) by blast
  then show ?thesis using e by blast
qed

text \<open>
  C14. \<open>Run\<close> reports the run's verdict: in every reachable state in which it has returned, a failure
  recorded on the handle is its result, and it returns nil only when the run was stopped for no
  failure or the processor itself returned nil.
\<close>

theorem run_result_is_verdict:
  assumes "enterRun newV5 o' others newProcessor opts runner exited now r w = Some (RunStarts attempt, r', w')" "unrun r"
    and "(step newV5 o' others (at_ID attempt) runner)\<^sup>*\<^sup>* (begin_run attempt r' w') z" "rn_pc z = Returned res"
  shows "(\<forall>err. failure (rn_handle z) = Some err \<longrightarrow> res = Some err)
    \<and> (res = None \<longrightarrow> stopped (rn_handle z) \<or> rn_processor z = ProcessorDone None)"
  using entered_sound [OF assms(1-3)] assms(4) by (auto simp: run_sound_def on_course_def reports_def)

lemma run_result_is_verdict_witness:
  "\<exists>st r' w' z res. demo_entry (demo_w st) = Some (RunStarts demo_attempt, r', w')
    \<and> (step (\<lambda>_ _. 9) demo_runs (\<lambda>w. w) 1 6)\<^sup>*\<^sup>* (begin_run demo_attempt r' w') z \<and> rn_pc z = Returned res
    \<and> (\<forall>err. failure (rn_handle z) = Some err \<longrightarrow> res = Some err)"
proof -
  obtain st r' w' z res where e: "demo_entry (demo_w st) = Some (RunStarts demo_attempt, r', w')"
    "(step (\<lambda>_ _. 9) demo_runs (\<lambda>w. w) 1 6)\<^sup>*\<^sup>* (begin_run demo_attempt r' w') z" "rn_pc z = Returned res"
    by (rule demo_returns)
  show ?thesis using run_result_is_verdict [OF e(1) demo_unrun(1), unfolded demo_attempt_facts, OF e(2,3)] e by blast
qed

text \<open>
  C15. A run comes down: from any reachable state in which the caller's context has ended, or the
  processor has been told to stop and the lifecycle stream can be read, the run's goroutines take at
  most 24 steps before timers fire again, and can take no step at all only when \<open>Run\<close> has returned.
\<close>

theorem run_comes_down:
  assumes "enterRun newV5 o' others newProcessor opts runner exited now r w = Some (RunStarts attempt, r', w')" "unrun r"
    and "(step newV5 o' others (at_ID attempt) runner)\<^sup>*\<^sup>* (begin_run attempt r' w') z" "comes_down newV5 o' z"
    and "(due_step newV5 o' others (at_ID attempt) runner ^^ k) z z'"
  shows "k \<le> 24 \<and> ((\<nexists>z''. due_step newV5 o' others (at_ID attempt) runner z' z'') \<longrightarrow> (\<exists>res. rn_pc z' = Returned res))"
proof -
  note d = due_steps [OF assms(5,4) entered_sound [OF assms(1-3)]]
  have "k \<le> 24" using d ranks_bounded [of z] by simp
  then show ?thesis using d stuck_returned by blast
qed

lemma run_comes_down_witness:
  "\<exists>st r' w' z k z' res. demo_entry (demo_w st) = Some (RunStarts demo_attempt, r', w')
    \<and> (due_step (\<lambda>_ _. 9) demo_runs (\<lambda>w. w) 1 6 ^^ k) z z' \<and> comes_down (\<lambda>_ _. 9) demo_runs z \<and> k \<le> 24
    \<and> rn_pc z' = Returned res"
proof -
  obtain st r' w' z where e: "demo_entry (demo_w st) = Some (RunStarts demo_attempt, r', w')"
    "(step (\<lambda>_ _. 9) demo_runs (\<lambda>w. w) 1 6)\<^sup>*\<^sup>* (begin_run demo_attempt r' w') z" "comes_down (\<lambda>_ _. 9) demo_runs z"
    by (rule demo_ends)
  have snd: "run_sound 1 6 z" using entered_sound [OF e(1) demo_unrun(1), unfolded demo_attempt_facts, OF e(2)] .
  obtain z' res k where r: "(due_step (\<lambda>_ _. 9) demo_runs (\<lambda>w. w) 1 6 ^^ k) z z'" "rn_pc z' = Returned res"
    using comes_down_returns [OF e(3) snd] rtranclp_imp_relpowp by metis
  have "k \<le> 24" using run_comes_down [OF e(1) demo_unrun(1), unfolded demo_attempt_facts, OF e(2,3) r(1)] by blast
  then show ?thesis using e(1,3) r by blast
qed

section \<open>The claim of a run\<close>

text \<open>
  C11. A run starts by a claim: \<open>Run\<close> starts a processor only after recording, on the very state of the
  stream it was decided on, the claim of its runner for the attempt then in flight, with the takeover
  it was given exactly when another claim stood; the claim stands after it, and the handle is on it.
\<close>

theorem run_starts_by_claim:
  assumes "reads_back codec" "authority o' = memory_lifecycle_store ustr fresh clock codec"
    and "coexists ustr (authority o') newV5 n others"
    and "memory_shows ustr (authority o') newV5 n w es" "rb_name r = n" "roomy memory_room o' others w"
    and "runner \<noteq> uuid_nil" "takeover_options opts"
    and "enterRun newV5 o' others newProcessor opts runner exited now r w = Some (RunStarts attempt, r', w')"
  shows "\<exists>config es1 evs es'. run_options opts = Inr config \<and> prefix es es1
    \<and> claim_on (lifecycle_fold es1) runner (rc_takeover config) evs \<and> attempt = Attempt (lifecycle_fold es1)
    \<and> prefix (es1 @ evs) es' \<and> memory_shows ustr (authority o') newV5 n w' es'
    \<and> standing (lifecycle_fold (es1 @ evs)) \<and> Runner (Attempt (lifecycle_fold (es1 @ evs))) = runner
    \<and> at_ID (Attempt (lifecycle_fold (es1 @ evs))) = at_ID attempt
    \<and> rb_name r' = n \<and> at_prefix newV5 n es' (length (es1 @ evs)) (rb_aggregate r')"
proof -
  note w = memory_context [OF assms(1-3)]
  obtain config where config: "run_options opts = Inr config"
      "lifecycle_world.entered (stream_view ustr) (store_valid ustr) (authority o') newV5 n runner (rc_takeover config) es attempt r' w'"
    using lifecycle_world.enterRun_entered [OF w assms(4-9)] by blast
  then obtain es1 evs es' where e: "prefix es es1" "claim_on (lifecycle_fold es1) runner (rc_takeover config) evs"
      "attempt = Attempt (lifecycle_fold es1)" "prefix (es1 @ evs) es'" "memory_shows ustr (authority o') newV5 n w' es'"
      "clean (es1 @ evs)" "rb_name r' = n" "at_prefix newV5 n (es1 @ evs) (length (es1 @ evs)) (rb_aggregate r')"
    by (auto simp: lifecycle_world.entered_def [OF w])
  have "takeover_ok (rc_takeover config)" by (rule run_options_ok [OF assms(8) config(1)])
  from clean_claim [OF clean_append [OF e(6)] e(2) this assms(7)]
  show ?thesis using config(1) e at_prefix_mono [OF e(8,4)] by metis
qed

lemma run_starts_by_claim_witness:
  "\<exists>st r' w' es1 evs. demo_entry (demo_w st) = Some (RunStarts demo_attempt, r', w') \<and> prefix demo_caught_up es1
    \<and> claim_on (lifecycle_fold es1) 6 demo_takeover evs \<and> demo_attempt = Attempt (lifecycle_fold es1)
    \<and> Runner (Attempt (lifecycle_fold (es1 @ evs))) = 6"
proof -
  obtain st r' w' where e: "memory_shows (\<lambda>_. '''') (authority demo_runs) (\<lambda>_ _. 9) ''a'' (demo_w st) demo_caught_up"
    "roomy memory_room demo_runs (\<lambda>w. w) (demo_w st)" "demo_entry (demo_w st) = Some (RunStarts demo_attempt, r', w')"
    by (rule demo_enters)
  from run_starts_by_claim [OF table_reads_back demo_authority coexists_id e(1) _ e(2) demo_six(1) demo_takeovers e(3)]
  obtain config es1 evs where "run_options [Some (WithTakeover ''a'' ''r'')] = Inr config" "prefix demo_caught_up es1"
    "claim_on (lifecycle_fold es1) 6 (rc_takeover config) evs" "demo_attempt = Attempt (lifecycle_fold es1)"
    "Runner (Attempt (lifecycle_fold (es1 @ evs))) = 6" by (auto simp: new_rebuild_def)
  moreover have "rc_takeover config = demo_takeover" using calculation(1) demo_options by auto
  ultimately show ?thesis using e(3) by metis
qed

text \<open>
  C12. The claim gate: while another runner's claim stands, a run that was given no takeover returns
  \<open>ErrClaimStanding\<close> and records nothing.
\<close>

theorem standing_claim_gates_run:
  assumes "reads_back codec" "authority o' = memory_lifecycle_store ustr fresh clock codec"
    and "coexists ustr (authority o') newV5 n others"
    and "memory_shows ustr (authority o') newV5 n w es" "rb_name r = n" "\<not> ran r"
    and "memory_shows ustr (authority o') newV5 n (others w) es1" "standing (lifecycle_fold es1)"
    and "st_Name (lifecycle_fold es1) = n"
  shows "\<exists>r' err. enterRun newV5 o' others newProcessor [] runner exited now r w = Some (RunReturns (Some err), r', others w)
    \<and> errors_is err ErrClaimStanding"
proof -
  have "run_options [] = Inr \<lparr>rc_takeover = zero_takeover, rc_optionErr = None\<rparr>" by (simp add: run_options_def)
  from lifecycle_world.enterRun_gated [where newProcessor = newProcessor and runner = runner and exited = exited and now = now,
      OF memory_context [OF assms(1-3)] assms(4,5) this _ assms(6-9)]
  obtain r' where "enterRun newV5 o' others newProcessor [] runner exited now r w = Some (RunReturns (Some
      (fmt_wrap ''the claimant has not recorded its exit'' (Sentinel ErrClaimStanding))), r', others w)" by fastforce
  moreover have "errors_is (fmt_wrap m (Sentinel x)) x" for m x by (simp add: fmt_wrap_def)
  ultimately show ?thesis by blast
qed

lemma standing_claim_gates_run_witness:
  "\<exists>st r' err. memory_shows (\<lambda>_. '''') (authority demo_runs) (\<lambda>_ _. 9) ''a'' (demo_w st) demo_caught_up
    \<and> enterRun (\<lambda>_ _. 9) demo_runs (\<lambda>w. w) (\<lambda>_ _ _ _ _. None) [] 6 0 0 demo_handle (demo_w st)
      = Some (RunReturns (Some err), r', demo_w st) \<and> errors_is err ErrClaimStanding"
proof -
  obtain st where e: "memory_shows (\<lambda>_. '''') (authority demo_runs) (\<lambda>_ _. 9) ''a'' (demo_w st) demo_caught_up"
    by (rule demo_enters)
  have "standing (lifecycle_fold demo_caught_up)" by (simp add: standing_def demo_caught_up_state demo_six)
  from standing_claim_gates_run [OF table_reads_back demo_authority coexists_id e _ _ e this demo_named(1)]
  show ?thesis using e by (fastforce simp: new_rebuild_def)
qed

section \<open>The stream of a run\<close>

text \<open>
  C10. A run keeps the stream clean: beside commands, retirements and other writers that coexist, a run
  whose catch-up is recorded while its handle still shows a building attempt only extends the
  lifecycle stream by legal events, and its handle holds the fold of a prefix of it.
\<close>

theorem run_keeps_stream_clean:
  assumes "reads_back codec" "authority o' = memory_lifecycle_store ustr fresh clock codec"
    and "coexists ustr (authority o') newV5 n others"
    and "memory_shows ustr (authority o') newV5 n w es" "rb_name r = n" "roomy memory_room o' others w"
    and "runner \<noteq> uuid_nil" "takeover_options opts" "unrun r"
    and "enterRun newV5 o' others newProcessor opts runner exited now r w = Some (RunStarts attempt, r', w')"
    and "(fair_step memory_room newV5 o' others (at_ID attempt) runner)\<^sup>*\<^sup>* (begin_run attempt r' w') z"
  shows "\<exists>es'. prefix es es' \<and> memory_shows ustr (authority o') newV5 n (rn_world z) es'
    \<and> history es' (lifecycle_fold es') \<and> on_prefix newV5 n es' (rn_handle z)"
  using lifecycle_world.entered_run_accords [OF memory_context [OF assms(1-3)] assms(4-11)]
  by (auto simp: shows_stream_def clean_def history_iff)

lemma run_keeps_stream_clean_witness:
  "\<exists>st r' w' z c es'. demo_entry (demo_w st) = Some (RunStarts demo_attempt, r', w')
    \<and> (fair_step memory_room (\<lambda>_ _. 9) demo_runs (\<lambda>w. w) 1 6)\<^sup>*\<^sup>* (begin_run demo_attempt r' w') z
    \<and> certificate (rn_handle z) = Some c \<and> memory_shows (\<lambda>_. '''') (authority demo_runs) (\<lambda>_ _. 9) ''a'' (rn_world z) es'
    \<and> on_prefix (\<lambda>_ _. 9) ''a'' es' (rn_handle z)"
proof -
  obtain st r' w' z c where e: "memory_shows (\<lambda>_. '''') (authority demo_runs) (\<lambda>_ _. 9) ''a'' (demo_w st) demo_caught_up"
    "roomy memory_room demo_runs (\<lambda>w. w) (demo_w st)" "demo_entry (demo_w st) = Some (RunStarts demo_attempt, r', w')"
    "demo_course\<^sup>*\<^sup>* (begin_run demo_attempt r' w') z" "certificate (rn_handle z) = Some c" by (rule demo_recorded)
  note st = e(4)
  from run_keeps_stream_clean [OF table_reads_back demo_authority coexists_id e(1) _ e(2) demo_six(1) demo_takeovers
      demo_unrun(1) e(3), unfolded demo_attempt_facts, OF _ st]
  show ?thesis using e(3,5) st by (fastforce simp: new_rebuild_def)
qed

text \<open>
  C9. The verdicts of a run are true on fair runs. A run is fair when its catch-up is only ever recorded
  on a view of the attempt that is building or caught up (which excludes the schedules of
  \<open>late_catch_up_poisons_stream\<close>), when the store has room for each append, and when contended slots are
  within \<open>int64\<close>. However the goroutines of a fair run, the commands on its handle, retirements included,
  and other writers interleave: if it reports a displacement then, since its claim, the stream has shown
  another runner's claim of its attempt; and if it was stopped for no failure, its attempt has ended.
\<close>

theorem run_verdicts_are_true:
  assumes "reads_back codec" "encodes_plainly codec" "authority o' = memory_lifecycle_store ustr fresh clock codec"
    and "coexists ustr (authority o') newV5 n others"
    and "memory_shows ustr (authority o') newV5 n w es" "rb_name r = n" "roomy memory_room o' others w"
    and "runner \<noteq> uuid_nil" "takeover_options opts" "unrun r"
    and "enterRun newV5 o' others newProcessor opts runner exited now r w = Some (RunStarts attempt, r', w')"
    and "(fair_step memory_room newV5 o' others (at_ID attempt) runner)\<^sup>*\<^sup>* (begin_run attempt r' w') z"
  shows "\<exists>takeover es1 evs es'. prefix es es1 \<and> claim_on (lifecycle_fold es1) runner takeover evs
    \<and> prefix (es1 @ evs) es' \<and> memory_shows ustr (authority o') newV5 n (rn_world z) es'
    \<and> (failure (rn_handle z) = Some displacedError
        \<longrightarrow> displaced_since (length (es1 @ evs)) (at_ID attempt) runner es')
    \<and> (stopped (rn_handle z) \<and> failure (rn_handle z) = None
        \<longrightarrow> ended_since (length (es1 @ evs)) (at_ID attempt) es')"
proof -
  note rw = memory_run_world [OF assms(1-4)]
  note w = memory_context [OF assms(1,3,4)]
  obtain config where config: "run_options opts = Inr config"
      "lifecycle_world.entered (stream_view ustr) (store_valid ustr) (authority o') newV5 n runner (rc_takeover config) es attempt r' w'"
    using lifecycle_world.enterRun_entered [OF w assms(5-9,11)] by blast
  then obtain es1 evs es2 where e: "prefix es es1" "claim_on (lifecycle_fold es1) runner (rc_takeover config) evs"
      "attempt = Attempt (lifecycle_fold es1)" "prefix (es1 @ evs) es2" "memory_shows ustr (authority o') newV5 n w' es2"
      "clean (es1 @ evs)" "rb_name r' = n" "at_prefix newV5 n (es1 @ evs) (length (es1 @ evs)) (rb_aggregate r')"
    by (auto simp: lifecycle_world.entered_def [OF w])
  have "takeover_ok (rc_takeover config)" by (rule run_options_ok [OF assms(9) config(1)])
  then have id: "at_ID attempt \<noteq> uuid_nil"
    using clean_claim [OF clean_append [OF e(6)] e(2) _ assms(8)] e(3) by simp
  have start: "unrun r'" "runAttempt r' = at_ID attempt" "rb_runner r' = runner"
    using enterRun_starts [OF assms(11,10)] by simp_all
  from run_world.run_verdicts [OF rw e(5,7) at_prefix_mono [OF e(8,4)] start id assms(8,12)]
  obtain es' where es': "prefix es2 es'" "memory_shows ustr (authority o') newV5 n (rn_world z) es'"
    "failure (rn_handle z) = Some displacedError \<longrightarrow> displaced_since (length (es1 @ evs)) (at_ID attempt) runner es'"
    "stopped (rn_handle z) \<and> failure (rn_handle z) = None \<longrightarrow> ended_since (length (es1 @ evs)) (at_ID attempt) es'"
    by blast
  have "prefix (es1 @ evs) es'" by (rule prefix_order.trans [OF e(4) es'(1)])
  then show ?thesis
    by (intro exI [of _ "rc_takeover config"] exI [of _ es1] exI [of _ evs] exI [of _ es'] conjI e(1,2) es'(2-4))
qed

lemma run_verdicts_are_true_witness:
  "(\<exists>st r' w' z es'. demo_entry (demo_w st) = Some (RunStarts demo_attempt, r', w')
    \<and> (fair_step memory_room (\<lambda>_ _. 9) demo_runs (\<lambda>w. w) 1 6)\<^sup>*\<^sup>* (begin_run demo_attempt r' w') z
    \<and> stopped (rn_handle z) \<and> failure (rn_handle z) = None
    \<and> memory_shows (\<lambda>_. '''') (authority demo_runs) (\<lambda>_ _. 9) ''a'' (rn_world z) es'
    \<and> ended_since (length demo_caught_up) 1 es')
   \<and> (\<exists>st r' w' z es'. demo_entry_beside (demo_rival demo_displacer) (demo_w st) = Some (RunStarts demo_attempt, r', w')
    \<and> (fair_step memory_room (\<lambda>_ _. 9) demo_runs (demo_rival demo_displacer) 1 6)\<^sup>*\<^sup>* (begin_run demo_attempt r' w') z
    \<and> failure (rn_handle z) = Some displacedError
    \<and> memory_shows (\<lambda>_. '''') (authority demo_runs) (\<lambda>_ _. 9) ''a'' (rn_world z) es'
    \<and> displaced_since (length demo_caught_up) 1 6 es')"
proof (rule conjI)
  obtain st r' w' z where e: "memory_shows (\<lambda>_. '''') (authority demo_runs) (\<lambda>_ _. 9) ''a'' (demo_w st) demo_caught_up"
    "roomy memory_room demo_runs (\<lambda>w. w) (demo_w st)" "demo_entry (demo_w st) = Some (RunStarts demo_attempt, r', w')"
    "demo_course\<^sup>*\<^sup>* (begin_run demo_attempt r' w') z" "stopped (rn_handle z)" "failure (rn_handle z) = None"
    by (rule demo_abandoned)
  note st = e(4)
  from run_verdicts_are_true [OF table_reads_back table_encodes_plainly demo_authority coexists_id e(1) _ e(2) demo_six(1)
      demo_takeovers demo_unrun(1) e(3), unfolded demo_attempt_facts, OF _ st]
  obtain es1 evs es' where "prefix demo_caught_up es1" "memory_shows (\<lambda>_. '''') (authority demo_runs) (\<lambda>_ _. 9) ''a'' (rn_world z) es'"
    "ended_since (length (es1 @ evs)) 1 es'" using e(5,6) by (auto simp: new_rebuild_def)
  moreover have "length demo_caught_up \<le> length (es1 @ evs)" using prefix_length_le [OF calculation(1)] by simp
  ultimately show "\<exists>st r' w' z es'. demo_entry (demo_w st) = Some (RunStarts demo_attempt, r', w')
      \<and> demo_course\<^sup>*\<^sup>* (begin_run demo_attempt r' w') z \<and> stopped (rn_handle z) \<and> failure (rn_handle z) = None
      \<and> memory_shows (\<lambda>_. '''') (authority demo_runs) (\<lambda>_ _. 9) ''a'' (rn_world z) es'
      \<and> ended_since (length demo_caught_up) 1 es'"
    using e(3,5,6) st unfolding ended_since_def by (meson order_trans)
next
  let ?others = "demo_rival demo_displacer"
  obtain st r' w' z where e: "memory_shows (\<lambda>_. '''') (authority demo_runs) (\<lambda>_ _. 9) ''a'' (demo_w st) demo_caught_up"
    "roomy memory_room demo_runs ?others (demo_w st)"
    "demo_entry_beside ?others (demo_w st) = Some (RunStarts demo_attempt, r', w')"
    "(fair_step memory_room (\<lambda>_ _. 9) demo_runs ?others 1 6)\<^sup>*\<^sup>* (begin_run demo_attempt r' w') z"
    "failure (rn_handle z) = Some displacedError" by (rule demo_displaced)
  note st = e(4)
  have beside: "coexists (\<lambda>_. '''') (authority demo_runs) (\<lambda>_ _. 9) ''a'' ?others"
    using demo_rival_beside [OF demo_displacer_state(1)] by (simp add: demo_beside_def)
  from run_verdicts_are_true [OF table_reads_back table_encodes_plainly demo_authority beside e(1) _ e(2) demo_six(1)
      demo_takeovers demo_unrun(1) e(3), unfolded demo_attempt_facts, OF _ st]
  obtain es1 evs es' where "prefix demo_caught_up es1" "memory_shows (\<lambda>_. '''') (authority demo_runs) (\<lambda>_ _. 9) ''a'' (rn_world z) es'"
    "displaced_since (length (es1 @ evs)) 1 6 es'" using e(5) by (auto simp: new_rebuild_def)
  moreover have "length demo_caught_up \<le> length (es1 @ evs)" using prefix_length_le [OF calculation(1)] by simp
  ultimately show "\<exists>st r' w' z es'. demo_entry_beside ?others (demo_w st) = Some (RunStarts demo_attempt, r', w')
      \<and> (fair_step memory_room (\<lambda>_ _. 9) demo_runs ?others 1 6)\<^sup>*\<^sup>* (begin_run demo_attempt r' w') z
      \<and> failure (rn_handle z) = Some displacedError
      \<and> memory_shows (\<lambda>_. '''') (authority demo_runs) (\<lambda>_ _. 9) ''a'' (rn_world z) es'
      \<and> displaced_since (length demo_caught_up) 1 6 es'"
    using e(3,5) st unfolding displaced_since_def by (meson order_trans)
qed

text \<open>
  C16. A catch-up can be recorded on an attempt that is gone. Take a run that was entered, and a fair
  state of it in which \<open>Run\<close> is about to record its catch-up and its handle still shows the attempt,
  which has ended elsewhere; nobody else writes any more. As the handle is behind the stream, recording
  the catch-up fails and leaves the stream as it is. But a \<open>Rollback\<close> on the handle, refused because the
  attempt is gone and recording nothing, leaves the handle on the tip of the stream; from there the
  catch-up is appended all the same, \<open>Run\<close> goes on to promote or to tail, and no continuation of the
  stream is ever valid again.
\<close>

theorem late_catch_up_poisons_stream:
  assumes "reads_back codec" "authority o' = memory_lifecycle_store ustr fresh clock codec" "\<And>k. json_year_ok (clock k)"
    and "coexists ustr (authority o') newV5 n others"
    and "memory_shows ustr (authority o') newV5 n w es" "rb_name r = n" "roomy memory_room o' others w"
    and "runner \<noteq> uuid_nil" "takeover_options opts" "unrun r"
    and "enterRun newV5 o' others newProcessor opts runner exited started r w = Some (RunStarts attempt, r', w')"
    and "(fair_step memory_room newV5 o' others (at_ID attempt) runner)\<^sup>*\<^sup>* (begin_run attempt r' w') z"
    and "rn_pc z = Recording pos" "\<not> stopped (rn_handle z)" "\<not> exitPublished (rn_handle z)"
    and "at_Phase (Attempt (Rebuild_State (rn_handle z))) \<noteq> PhaseNone"
    and "memory_shows ustr (authority o') newV5 n (rn_world z) es'" "at_Phase (Attempt (lifecycle_fold es')) = PhaseNone"
    and "others (rn_world z) = rn_world z" "memory_room (w_events (rn_world z)) 2" "int (length es') < max_int64"
    and "MarshalDomainEvent codec (CaughtUp pos elapsed now) = Inr b" "rollback = RollbackCommand t"
  shows "(\<exists>err r1 w1. recordCatchUp o' others (at_ID attempt) pos elapsed now (rn_handle z) (rn_world z) = (CatchUpFailed err, r1, w1)
        \<and> memory_shows ustr (authority o') newV5 n w1 es')
    \<and> (\<exists>err r1 z'. recordTerminal newV5 o' others (command_refusal rollback) (command_event rollback)
            (pauseRetries (rn_handle z)) (rn_world z) = Some (Inl err, r1, rn_world z)
        \<and> recordCatchUp o' others (at_ID attempt) pos elapsed now r1 (rn_world z) = (CatchUpRecorded, rn_handle z', rn_world z')
        \<and> (step newV5 o' others (at_ID attempt) runner)\<^sup>*\<^sup>* z z' \<and> rn_pc z' = after_catch_up (autoPromote o') CatchUpRecorded
        \<and> lifecycle_stream (stream_view ustr) (authority o') newV5 n (w_events (rn_world z')) = Some (es' @ [CaughtUp pos elapsed now])
        \<and> (\<forall>fs. \<not> clean (es' @ [CaughtUp pos elapsed now] @ fs)))"
proof -
  let ?step = "step newV5 o' others (at_ID attempt) runner" and ?r = "pauseRetries (rn_handle z)" and ?e = "CaughtUp pos elapsed now"
  note w = memory_context [OF assms(1,2,4)]
  have healthy: "\<forall>i. json_year_ok (clock i)" using assms(3) by simp
  have m: "MarshalDomainEvent (domainEventCodec (authority o')) ?e = Inr b"
    using assms(2,22) by (simp add: memory_es_store_def)
  obtain es2 where "memory_shows ustr (authority o') newV5 n (rn_world z) es2" "on_prefix newV5 n es2 (rn_handle z)"
      "es2 \<noteq> []" "st_Name (lifecycle_fold es2) = n"
    using lifecycle_world.entered_run_accords [OF w assms(5-12)] by blast
  then have on: "on_prefix newV5 n es' (rn_handle z)" "es' \<noteq> []" "st_Name (lifecycle_fold es') = n"
    using lifecycle_world.displays_unique [OF w assms(17)] by metis+
  have "agg_state (rb_aggregate (rn_handle z)) \<noteq> lifecycle_fold es'" using assms(16,18) by (auto simp: Rebuild_State_def)
  from lifecycle_world.recordCatchUp_behind [OF w assms(17) on(1) assms(19) healthy assms(20) this assms(14,15)]
  have lost: "\<exists>err r1 w1. recordCatchUp o' others (at_ID attempt) pos elapsed now (rn_handle z) (rn_world z) = (CatchUpFailed err, r1, w1)
      \<and> memory_shows ustr (authority o') newV5 n w1 es'" .
  have r: "on_prefix newV5 n es' ?r" "\<not> stopped ?r" "\<not> exitPublished ?r"
    using on(1) assms(14,15) by (simp_all add: on_prefix_def pauseRetries_def)
  obtain err r1 r2 w2 where refused: "recordTerminal newV5 o' others (command_refusal rollback) (command_event rollback) ?r (rn_world z)
      = Some (Inl err, r1, rn_world z)"
    and caught: "recordCatchUp o' others (at_ID attempt) pos elapsed now r1 (rn_world z) = (CatchUpRecorded, r2, w2)"
    and stream: "lifecycle_stream (stream_view ustr) (authority o') newV5 n (w_events w2) = Some (es' @ [?e])"
    and dirty: "\<not> clean (es' @ [?e])"
    using lifecycle_world.recordCatchUp_poisons [where event = "command_event rollback" and i = "at_ID attempt",
      OF w assms(17) r(1) assms(19) healthy assms(20,21) on(2,3) assms(18) m r(2,3)]
    by (auto simp: assms(23) command_refusal_def)
  let ?z1 = "z\<lparr>rn_handle := ?r, rn_commands := rn_commands z @ [Announced rollback]\<rparr>"
  let ?z2 = "?z1\<lparr>rn_handle := r1, rn_world := rn_world z, rn_commands := rn_commands z @ [Withdrawing]\<rparr>"
  let ?z3 = "?z2\<lparr>rn_handle := r2, rn_world := w2, rn_pc := after_catch_up (autoPromote o') CatchUpRecorded\<rparr>"
  have "?step z ?z1" by (simp add: step_def command_announced)
  moreover have "?step ?z1 ?z2"
    using command_commits [of "length (rn_commands z)" ?z1 rollback newV5 o' others, simplified,
        of "Inl err" r1 "rn_world z"] refused by (simp add: step_def)
  moreover have "?step ?z2 ?z3"
    using record_catch_up [of ?z2 pos o' others "at_ID attempt" elapsed now CatchUpRecorded] assms(13) caught
    by (simp add: step_def own_step_def)
  ultimately have "?step\<^sup>*\<^sup>* z ?z3" by (rule three_steps [where R = ?step])
  then show ?thesis
    by (intro conjI lost exI [of _ err] exI [of _ r1] exI [of _ ?z3])
      (use refused caught stream dirty clean_append [of "es' @ [?e]"] in auto)
qed

text \<open>The run whose attempt another handle abandons while it turns to recording its catch-up.\<close>

lemma demo_rival_abandons:
  "demo_rivalry (Abandoned ''c'')" "at_Phase (Attempt (lifecycle_fold (demo_claimed @ [Abandoned ''c'']))) = PhaseNone"
proof -
  have "clean (demo_claimed @ [Abandoned ''c''])" by code_simp
  then show "demo_rivalry (Abandoned ''c'')" by (simp add: demo_rivalry_def demo_run_table_def demo_table_def)
qed code_simp

lemma late_catch_up_poisons_stream_witness:
  "\<exists>st r' w' z z'. demo_entry_beside (demo_rival (Abandoned ''c'')) (demo_w st) = Some (RunStarts demo_attempt, r', w')
    \<and> (fair_step memory_room (\<lambda>_ _. 9) demo_runs (demo_rival (Abandoned ''c'')) 1 6)\<^sup>*\<^sup>* (begin_run demo_attempt r' w') z
    \<and> memory_shows (\<lambda>_. '''') (authority demo_runs) (\<lambda>_ _. 9) ''a'' (rn_world z) (demo_claimed @ [Abandoned ''c''])
    \<and> (step (\<lambda>_ _. 9) demo_runs (demo_rival (Abandoned ''c'')) 1 6)\<^sup>*\<^sup>* z z'
    \<and> lifecycle_stream (stream_view (\<lambda>_. '''')) (authority demo_runs) (\<lambda>_ _. 9) ''a'' (w_events (rn_world z'))
        = Some (demo_claimed @ [Abandoned ''c'', CaughtUp 4 0 0])"
proof -
  let ?others = "demo_rival (Abandoned ''c'')"
  obtain st r' w' z where e: "memory_shows (\<lambda>_. '''') (authority demo_runs) (\<lambda>_ _. 9) ''a'' (demo_w st) demo_caught_up"
    "roomy memory_room demo_runs ?others (demo_w st)"
    "demo_entry_beside ?others (demo_w st) = Some (RunStarts demo_attempt, r', w')"
    "(fair_step memory_room (\<lambda>_ _. 9) demo_runs ?others 1 6)\<^sup>*\<^sup>* (begin_run demo_attempt r' w') z"
    "rn_pc z = Recording 4" "rn_handle z = r'" "unrun r'" "rn_reconcile z = Ticking" "rb_name r' = ''a''"
    "at_prefix (\<lambda>_ _. 9) ''a'' demo_claimed 5 (rb_aggregate r')"
    "memory_shows (\<lambda>_. '''') (authority demo_runs) (\<lambda>_ _. 9) ''a'' (rn_world z) (demo_claimed @ [Abandoned ''c''])"
    "?others (rn_world z) = rn_world z" "fair_run memory_room demo_runs ?others z" "memory_room (w_events (rn_world z)) 2"
    by (rule demo_rivalled [OF demo_rival_abandons(1)])
  have beside: "coexists (\<lambda>_. '''') (authority demo_runs) (\<lambda>_ _. 9) ''a'' ?others"
    using demo_rival_beside [OF demo_rival_abandons(1)] by (simp add: demo_beside_def)
  have len: "5 = length demo_claimed" by (simp add: demo_claimed_def demo_caught_up_def)
  have phase: "at_Phase (Attempt (Rebuild_State (rn_handle z))) \<noteq> PhaseNone"
    using at_prefix_state [OF e(10) [unfolded len]] e(6) by (simp add: Rebuild_State_def demo_claimed_state)
  have run: "\<not> stopped (rn_handle z)" "\<not> exitPublished (rn_handle z)" using e(6,7) by (simp_all add: unrun_def)
  have short: "int (length (demo_claimed @ [Abandoned ''c''])) < max_int64"
    by (simp add: demo_claimed_def demo_caught_up_def max_int64_def)
  have name: "rb_name demo_handle = ''a''" by (simp add: new_rebuild_def)
  obtain b where b: "MarshalDomainEvent (table_codec demo_run_table) (CaughtUp 4 0 0) = Inr b"
    using demo_run_marshals [of "CaughtUp 4 0 0"] by (auto simp: demo_run_table_def memory_es_store_def)
  note course = e(4)
  from conjunct2 [OF late_catch_up_poisons_stream [where t = 0, OF table_reads_back demo_authority json_year_0 beside e(1) name e(2) demo_six(1)
      demo_takeovers demo_unrun(1) e(3), unfolded demo_attempt_facts, OF course e(5) run phase e(11) demo_rival_abandons(2)
      e(12,14) short b refl]]
  obtain z' where "(step (\<lambda>_ _. 9) demo_runs ?others 1 6)\<^sup>*\<^sup>* z z'"
      "lifecycle_stream (stream_view (\<lambda>_. '''')) (authority demo_runs) (\<lambda>_ _. 9) ''a'' (w_events (rn_world z'))
        = Some (demo_claimed @ [Abandoned ''c'', CaughtUp 4 0 0])" by auto
  then show ?thesis using e(3,11) course by blast
qed

end
