(* ===== verification/Spec2Isabelle.thy ===== *)
theory Spec2Isabelle
  imports TypeId Cancellation StoreContract Projection AggregateClaims SnapshotStore DecoratorProps
    LifecycleProps ProcessorClaims WorkerProps OrchestratorClaims RunClaims
begin

text \<open>
  A verification development for estoria, an event-sourcing library: event stores, aggregates that
  are folded from their streams, snapshotting and caching decorators, and the lifecycle of
  projections.

  The program and its theories.

  Identifiers (\<open>typeid/typeid.go\<close>): \<open>TypeId\<close>. The event store contract and the in-memory store
  (\<open>eventstore/event_store.go\<close>, \<open>eventstore/memory\<close>): \<open>Utf8\<close> is what \<open>encoding/json\<close> makes of a Go
  string, \<open>EventStore\<close> holds the state (streams of
  encoded events, the global log, its counter) and one definition per operation, \<open>Iterators\<close> what
  an iterator still holds, \<open>MemoryStore\<close> the store's invariant and the abstract views of it,
  \<open>StoreReads\<close> what a read selects, and \<open>StoreContract\<close> the locale \<open>event_store_contract\<close>, its
  interpretation on the memory store and the store's properties.

  Aggregates and stores (\<open>aggregatestore\<close>): \<open>GoErrors\<close> has error trees and the save-outcome
  resolution, \<open>AggregateStore\<close> the aggregate and the event-sourced store, \<open>AggregateProps\<close> the
  locale over its event store contract, \<open>AggregateClaims\<close> the properties; \<open>StoreDecorators\<close> and
  \<open>DecoratorProps\<close> the snapshotting and the caching store; \<open>SnapshotStore\<close> the snapshot stores
  (\<open>snapshotstore\<close>).

  Projections (\<open>projection\<close>): \<open>Projection\<close> has identities and the fold over an iterator,
  \<open>Cancellation\<close> how the processor and the rebuild handle decide between a failure and a
  cancellation, \<open>LifecycleState\<close> the lifecycle aggregate (\<open>projection/lifecycle/state.go\<close>,
  \<open>events.go\<close>, \<open>retirement.go\<close>), \<open>LifecycleSound\<close> its abstract machine and invariant, and
  \<open>LifecycleProps\<close> the properties of its streams.

  The processor (\<open>projection/processor\<close>, \<open>projection/checkpointstore\<close>): \<open>GlobalReader\<close> states the
  contract of a global reader as the locales \<open>global_reader\<close> and \<open>healthy_reader\<close>, interpreted on the
  memory store; \<open>CheckpointStore\<close> the in-memory checkpoint store and the locale it interprets;
  \<open>LogPositions\<close> what slices of a log by position are; \<open>Processor\<close> the processor, one definition per
  loop; \<open>ProcessorProps\<close> and \<open>ProcessorRun\<close> the invariant of a run and its liveness inside locales
  over the two contracts; \<open>AppendedStore\<close> a store a list of appends builds, for the witnesses;
  \<open>ProcessorClaims\<close> the properties.

  Cutovers (\<open>projection/lifecycle/router.go\<close>, \<open>worker.go\<close>, \<open>cutover.go\<close>): \<open>Cutover\<close> has the in-memory
  router, the decoder, the validating fold and the stream router; \<open>CutoverHistory\<close> shows that the
  fold accepts exactly the histories an unpoisoned lifecycle stream records; \<open>RouterProps\<close> states the
  setter contract as the locale \<open>cutover_setter\<close>, interprets it on the in-memory router, and proves
  what the stream router serves; \<open>CutoverWorker\<close> is the worker, and \<open>WorkerProps\<close> its convergence,
  proved over the reader and setter contracts and applied to the memory store and router.

  The orchestrator and the rebuild handle (\<open>projection/lifecycle/orchestrator.go\<close>, \<open>handle.go\<close>,
  \<open>store.go\<close>). \<open>Orchestrator\<close> has the configuration, its options and the world the package acts in (the
  event store, the checkpoint store, the rest); \<open>RebuildHandle\<close> the handle's fields, its reads and
  appends, \<open>Begin\<close> and \<open>Resume\<close>; \<open>RebuildCommands\<close> the commands \<open>Promote\<close>, \<open>Rollback\<close>, \<open>Abandon\<close> and
  \<open>Retire\<close>, guard by guard. \<open>AuthorityProps\<close> states what a handle relies on of its store as the locale
  \<open>lifecycle_authority\<close>, \<open>HandleProps\<close> the locale \<open>lifecycle_world\<close> of a projection among other writers;
  inside it \<open>CommandProps\<close>, \<open>RetireProps\<close> and \<open>OrchestratorProps\<close> prove what each command does to the
  stream, \<open>CommandSystem\<close> what any sequence of them does, and \<open>CommandLiveness\<close> that an unhindered
  command takes effect. \<open>MemoryLifecycle\<close> interprets the locales on the in-memory event store, and
  \<open>OrchestratorClaims\<close> holds the properties and the rival orchestrator that witnesses them.

  The run of a handle (\<open>handle.go\<close>, \<open>Run\<close> and what it starts). \<open>RebuildRun\<close> has the entry of \<open>Run\<close> (options,
  the takeover gate, the claim, its defeat) and one definition per critical section or decision of the
  catch-up, the reconcile loop, the reconciliation of a promotion of unknown outcome, the
  classification of a lost append and the release of the claim. \<open>RunSystem\<close> composes them to a
  transition system: \<open>Run\<close>'s goroutine, the reconcile loop, the processor's goroutine, the commands on
  the handle and everybody else interleave at their critical sections. \<open>RunProps\<close> proves its
  invariants, whatever the store does; \<open>RunLiveness\<close> that a run comes down; \<open>RunWorld\<close>, \<open>RunEntry\<close> and
  \<open>RunVerdict\<close>, inside \<open>lifecycle_world\<close> and its extension \<open>run_world\<close>, what a run and its entry do to
  the stream and that its verdicts are true; \<open>RunClaims\<close> interprets \<open>run_world\<close> on the in-memory store and
  holds the properties.

  Conventions. A Go \<open>int64\<close> is an integer with the wrap-around written out (\<open>wrap64\<close>), a string its
  list of bytes, which JSON carries with every byte that is not UTF-8 replaced (\<open>to_utf8\<close>), a map a partial function or a mapping, an \<open>error\<close> an optional error tree.
  Operations take and return their state; an operation under a mutex is one step. A loop that may
  not end is a \<open>partial_function\<close> whose value \<open>None\<close> means it does not return, or that it
  dereferences a nil pointer. Code outside the repository is a parameter: UUID generation and text,
  the clock, codecs, JSON decoding of the two cutover events, RFC 3339 times; where a law of it is
  needed (a text form parses back, an encoding decodes to its source) the law is a hypothesis.

  Concurrency. A processor or a worker runs beside writers. Its store is a function of the number of
  times the run has consulted its context, constrained only to grow as the store's operations grow
  it; a context is a function from that count to the error it reports. No fuel bounds a run: that it
  returns is proved (once its context has ended, it does), and catching up with a log of \<open>e\<close> events
  is proved to need no more than \<open>n + 8 * e + 10\<close> consultations of a context alive since the \<open>n\<close>th.

  A handle acts in a world (\<open>w\<close>) that others change before each of its operations, by a function
  \<open>others\<close>. The properties assume of it what they prove of the commands and the run themselves: it keeps
  the store valid and extends the projection's stream by legal events only (\<open>coexists\<close>); the witnesses
  instantiate it by a rival orchestrator's commands, or by a rival handle that abandons the attempt or
  claims it (\<open>demo_rival\<close>). Room for a command's appends (\<open>roomy\<close>) is positions
  left in the store's counter. A codec must read back what it wrote (\<open>reads_back\<close>); where a run judges
  the error of a lost append, an encoding error must not pose as a version mismatch
  (\<open>encodes_plainly\<close>). A read of a lifecycle stream that would not end is \<open>None\<close>.

  A step of a run is a critical section under the handle's lock, or a read outside it. A read fails only
  with its context's end, or as the store makes it fail; an append whose context ends is recorded or
  not, and reports neither. The waits on the handle's mutexes are not steps: a section that is enabled
  may be taken, so a deadlock between lock holders is not represented, and neither is the order in
  which a mutex serves its waiters. What the processor handles, when it catches up and what it returns
  are left open: its own theories say what it does. A run's goroutines take at most 24 steps between
  timer ticks: the sum of the ranks of the three program counters (\<open>run_rank\<close>), which every step
  decreases. A run keeps the stream clean, and its verdicts are true, when it is fair: its
  catch-up is only recorded on a view of the attempt that is building or caught up, which the code does
  not check, the store has room, and contended slots are within \<open>int64\<close> (\<open>fair_run\<close>). The last property
  of \<open>RunClaims\<close> shows that an entered run reaches a state where the catch-up is recorded on an attempt
  that is gone, once a rollback on its handle was refused. A retirement only advances its handle's view
  of the stream (\<open>RetireViews\<close>).

  Not modelled: logging (\<open>logger.go\<close>), error message texts beyond their prefixes, the acceptance tests
  shipped as packages (\<open>storetest\<close>), which assert and hold no state, and \<open>entity.go\<close>, whose codecs
  delegate to encoding/json.
\<close>

end
